(* ===== verification/Metric_Prelude.thy ===== *)
theory Metric_Prelude
  imports Main "HOL-Library.Word" "HOL-Library.Sublist"
begin

text \<open>
  Shared vocabulary of the development.

  \<^item> Rust's \<^verbatim>\<open>Result\<close> is a sum (\<open>Inl\<close> the error); \<open>and_then\<close> is the question-mark operator.
  \<^item> A Rust \<^verbatim>\<open>str\<close> is its UTF-8 byte sequence, a \<open>string\<close> whose characters are the
    bytes: \<open>length\<close> is \<^verbatim>\<open>len()\<close>. \<open>utf8_chars\<close> splits it into encoded scalar values, so
    that \<^verbatim>\<open>char::is_control\<close> and \<^verbatim>\<open>char::is_whitespace\<close> are evaluated on code points.
  \<^item> Binary data is a list of 8-bit words; \<open>be_bytes\<close> is \<^verbatim>\<open>to_be_bytes\<close>.
  \<^item> Two contracts shared by many value types are locales: \<open>wire_codec\<close> (an encoding and a
    decoder that accepts it) and \<open>smart_constructor\<close> (a constructor that accepts exactly the
    values of a predicate and stores them unchanged).
\<close>

section \<open>Types and collections of facts\<close>

type_synonym u8 = "8 word"
type_synonym bytes = "u8 list"

named_theorems result_simps \<open>reading a chain of fallible calls\<close>
named_theorems ascii_defs \<open>the ASCII byte classes\<close>

section \<open>Results\<close>

definition and_then :: "'e + 'a \<Rightarrow> ('a \<Rightarrow> 'e + 'b) \<Rightarrow> 'e + 'b" where
  "and_then r f = (case r of Inl e \<Rightarrow> Inl e | Inr x \<Rightarrow> f x)"

definition map_err :: "('e \<Rightarrow> 'f) \<Rightarrow> 'e + 'a \<Rightarrow> 'f + 'a" where
  "map_err f r = (case r of Inl e \<Rightarrow> Inl (f e) | Inr x \<Rightarrow> Inr x)"

definition ok_or :: "'e \<Rightarrow> 'a option \<Rightarrow> 'e + 'a" where
  "ok_or e x = (case x of None \<Rightarrow> Inl e | Some v \<Rightarrow> Inr v)"

definition is_ok :: "'e + 'a \<Rightarrow> bool" where
  "is_ok r = (case r of Inl _ \<Rightarrow> False | Inr _ \<Rightarrow> True)"

definition is_some_and :: "'a option \<Rightarrow> ('a \<Rightarrow> bool) \<Rightarrow> bool" where
  "is_some_and x p = (case x of None \<Rightarrow> False | Some v \<Rightarrow> p v)"

definition is_none_or :: "'a option \<Rightarrow> ('a \<Rightarrow> bool) \<Rightarrow> bool" where
  "is_none_or x p = (case x of None \<Rightarrow> True | Some v \<Rightarrow> p v)"

definition opt_or :: "'a option \<Rightarrow> 'a option \<Rightarrow> 'a option" where
  "opt_or x y = (case x of None \<Rightarrow> y | Some v \<Rightarrow> Some v)"

definition unwrap_or :: "'a option \<Rightarrow> 'a \<Rightarrow> 'a" where
  "unwrap_or x d = (case x of None \<Rightarrow> d | Some v \<Rightarrow> v)"

text \<open>\<^verbatim>\<open>Option::map(f).transpose()\<close>.\<close>

definition transpose_opt :: "('e + 'a) option \<Rightarrow> 'e + 'a option" where
  "transpose_opt x = (case x of None \<Rightarrow> Inr None
     | Some r \<Rightarrow> (case r of Inl e \<Rightarrow> Inl e | Inr v \<Rightarrow> Inr (Some v)))"

lemma and_then_simps [simp]:
  "and_then (Inl e) f = Inl e"
  "and_then (Inr x) f = f x"
  by (simp_all add: and_then_def)

lemma and_then_eq_Inr [result_simps]:
  "and_then r f = Inr y \<longleftrightarrow> (\<exists>x. r = Inr x \<and> f x = Inr y)"
  by (cases r) auto

lemma and_then_eq_Inl [result_simps]:
  "and_then r f = Inl e \<longleftrightarrow> r = Inl e \<or> (\<exists>x. r = Inr x \<and> f x = Inl e)"
  by (cases r) auto

lemma map_err_simps [simp]:
  "map_err f (Inl e) = Inl (f e)"
  "map_err f (Inr x) = Inr x"
  by (simp_all add: map_err_def)

lemma map_err_eq [result_simps]:
  "map_err f r = Inr y \<longleftrightarrow> r = Inr y"
  "map_err f r = Inl e \<longleftrightarrow> (\<exists>e'. r = Inl e' \<and> e = f e')"
  by (cases r; auto)+

lemma ok_or_simps [simp]:
  "ok_or e None = Inl e"
  "ok_or e (Some v) = Inr v"
  by (simp_all add: ok_or_def)

lemma ok_or_eq [result_simps]:
  "ok_or e x = Inr y \<longleftrightarrow> x = Some y"
  "ok_or e x = Inl e' \<longleftrightarrow> x = None \<and> e' = e"
  by (cases x; auto)+

lemma is_ok_simps [simp]: "is_ok (Inr x)" "\<not> is_ok (Inl e)"
  by (simp_all add: is_ok_def)

lemma is_ok_iff: "is_ok r \<longleftrightarrow> (\<exists>x. r = Inr x)"
  by (cases r) auto

lemma is_some_and_simps [simp]:
  "\<not> is_some_and None p"
  "is_some_and (Some v) p = p v"
  by (simp_all add: is_some_and_def)

lemma is_some_and_iff: "is_some_and x p \<longleftrightarrow> (\<exists>v. x = Some v \<and> p v)"
  by (cases x) auto

lemma is_none_or_simps [simp]:
  "is_none_or None p"
  "is_none_or (Some v) p = p v"
  by (simp_all add: is_none_or_def)

lemma opt_or_simps [simp]:
  "opt_or None y = y"
  "opt_or (Some v) y = Some v"
  by (simp_all add: opt_or_def)

lemma unwrap_or_simps [simp]:
  "unwrap_or None d = d"
  "unwrap_or (Some v) d = v"
  by (simp_all add: unwrap_or_def)

lemma transpose_opt_simps [simp]:
  "transpose_opt None = Inr None"
  "transpose_opt (Some (Inl e)) = Inl e"
  "transpose_opt (Some (Inr v)) = Inr (Some v)"
  by (simp_all add: transpose_opt_def)

text \<open>A loop over a slice whose body may return early with an error.\<close>

fun try_for_each :: "('a \<Rightarrow> 'e + unit) \<Rightarrow> 'a list \<Rightarrow> 'e + unit" where
  "try_for_each f [] = Inr ()"
| "try_for_each f (x # xs) = and_then (f x) (\<lambda>_. try_for_each f xs)"

lemma try_for_each_ok: "try_for_each f xs = Inr () \<longleftrightarrow> (\<forall>x\<in>set xs. f x = Inr ())"
  by (induction xs) (auto simp: result_simps)

section \<open>Two contracts of value types\<close>

locale wire_codec =
  fixes enc :: "'a \<Rightarrow> 'w"
    and dec :: "'w \<Rightarrow> 'e + 'a"
  assumes dec_enc: "dec (enc x) = Inr x"
begin

lemma enc_inj: "enc x = enc y \<longleftrightarrow> x = y"
  by (metis dec_enc sum.inject(2))

lemma enc_accepted: "is_ok (dec (enc x))"
  by (simp add: dec_enc)

end

locale strict_wire_codec = wire_codec +
  assumes enc_dec: "dec w = Inr x \<Longrightarrow> enc x = w"
begin

lemma dec_iff: "dec w = Inr x \<longleftrightarrow> w = enc x"
  using dec_enc enc_dec by auto

lemma rejected_iff: "\<not> is_ok (dec w) \<longleftrightarrow> w \<notin> range enc"
  by (auto simp: is_ok_iff dec_iff)

end

locale smart_constructor =
  fixes new :: "'r \<Rightarrow> 'e + 'r"
    and ok :: "'r \<Rightarrow> bool"
  assumes new_accepts: "ok v \<Longrightarrow> new v = Inr v"
    and new_rejects: "\<not> ok v \<Longrightarrow> \<exists>e. new v = Inl e"
begin

lemma new_iff: "new v = Inr w \<longleftrightarrow> w = v \<and> ok v"
proof (cases "ok v")
  case True
  then show ?thesis by (auto simp: new_accepts)
next
  case False
  then obtain e where "new v = Inl e" using new_rejects by blast
  with False show ?thesis by simp
qed

lemma new_stable: "new v = Inr w \<Longrightarrow> new w = Inr w"
  by (simp add: new_iff)

lemma is_ok_new: "is_ok (new v) = ok v"
  by (auto simp: is_ok_iff new_iff)

end

section \<open>Bytes of a character\<close>

abbreviation code_of :: "char \<Rightarrow> nat" where
  "code_of c \<equiv> of_char c"

definition as_bytes :: "string \<Rightarrow> bytes" where
  "as_bytes s = map (\<lambda>c. word_of_nat (code_of c)) s"

definition is_ascii_digit :: "char \<Rightarrow> bool" where
  [ascii_defs]: "is_ascii_digit c = (48 \<le> code_of c \<and> code_of c \<le> 57)"

definition is_ascii_lowercase :: "char \<Rightarrow> bool" where
  [ascii_defs]: "is_ascii_lowercase c = (97 \<le> code_of c \<and> code_of c \<le> 122)"

definition is_ascii_uppercase :: "char \<Rightarrow> bool" where
  [ascii_defs]: "is_ascii_uppercase c = (65 \<le> code_of c \<and> code_of c \<le> 90)"

definition is_ascii_alphabetic :: "char \<Rightarrow> bool" where
  [ascii_defs]: "is_ascii_alphabetic c = (is_ascii_lowercase c \<or> is_ascii_uppercase c)"

definition is_ascii_alphanumeric :: "char \<Rightarrow> bool" where
  [ascii_defs]: "is_ascii_alphanumeric c = (is_ascii_alphabetic c \<or> is_ascii_digit c)"

definition is_ascii_hexdigit :: "char \<Rightarrow> bool" where
  [ascii_defs]: "is_ascii_hexdigit c =
     (is_ascii_digit c \<or> (97 \<le> code_of c \<and> code_of c \<le> 102) \<or> (65 \<le> code_of c \<and> code_of c \<le> 70))"

definition is_ascii_control :: "char \<Rightarrow> bool" where
  [ascii_defs]: "is_ascii_control c = (code_of c < 32 \<or> code_of c = 127)"

definition is_ascii_whitespace :: "char \<Rightarrow> bool" where
  [ascii_defs]: "is_ascii_whitespace c = (code_of c \<in> {9, 10, 12, 13, 32})"

definition is_ascii :: "string \<Rightarrow> bool" where
  "is_ascii s = list_all (\<lambda>c. code_of c < 128) s"

definition ascii_lower :: "char \<Rightarrow> char" where
  "ascii_lower c = (if is_ascii_uppercase c then char_of (code_of c + 32) else c)"

definition to_ascii_lowercase :: "string \<Rightarrow> string" where
  "to_ascii_lowercase s = map ascii_lower s"

lemma code_of_less [simp]: "code_of c < 256"
  by (simp add: of_char_def)

lemma length_as_bytes [simp]: "length (as_bytes s) = length s"
  by (simp add: as_bytes_def)

lemma byte_of_char_eq: "(word_of_nat (code_of c) :: u8) = word_of_nat (code_of d) \<longleftrightarrow> c = d"
  by (simp add: word_of_nat_eq_iff take_bit_eq_mod)

lemma as_bytes_inj [simp]: "as_bytes s = as_bytes t \<longleftrightarrow> s = t"
  unfolding as_bytes_def by (rule inj_map_eq_map) (simp add: inj_on_def byte_of_char_eq)

lemma as_bytes_append [simp]: "as_bytes (s @ t) = as_bytes s @ as_bytes t"
  by (simp add: as_bytes_def)

lemma ascii_lower_lower:
  "ascii_lower (ascii_lower c) = ascii_lower c"
  by (auto simp: ascii_lower_def is_ascii_uppercase_def of_char_of)

lemma to_ascii_lowercase_idem [simp]:
  "to_ascii_lowercase (to_ascii_lowercase s) = to_ascii_lowercase s"
  by (simp add: to_ascii_lowercase_def ascii_lower_lower)

lemma length_to_ascii_lowercase [simp]: "length (to_ascii_lowercase s) = length s"
  by (simp add: to_ascii_lowercase_def)

text \<open>A fold of a fallible step over a stream, stopping at the first error.\<close>

fun try_fold :: "('u \<Rightarrow> 'r \<Rightarrow> 'e + 'r) \<Rightarrow> 'u list \<Rightarrow> 'r \<Rightarrow> 'e + 'r" where
  "try_fold step [] r = Inr r"
| "try_fold step (u # us) r = and_then (step u r) (try_fold step us)"

end
