(* ===== verification/Metric_Text.thy ===== *)
theory Metric_Text
  imports Metric_Prelude
begin

text \<open>
  The parts of Rust's string and integer library the sources use: scalar values of a UTF-8
  string, \<^verbatim>\<open>trim\<close>, \<^verbatim>\<open>split\<close>, \<^verbatim>\<open>split_once\<close>, \<^verbatim>\<open>rsplit_once\<close>,
  \<^verbatim>\<open>split_whitespace\<close>, char boundaries, \<^verbatim>\<open>from_str_radix\<close>, decimal and base-36 printing and
  big-endian integers, with the round trips the components rest on.
\<close>

section \<open>Scalar values\<close>

definition is_continuation :: "char \<Rightarrow> bool" where
  "is_continuation c = (128 \<le> code_of c \<and> code_of c < 192)"

definition utf8_width :: "char \<Rightarrow> nat" where
  "utf8_width c = (if code_of c < 128 then 1 else if code_of c < 224 then 2
     else if code_of c < 240 then 3 else 4)"

function utf8_chars :: "string \<Rightarrow> string list" where
  "utf8_chars [] = []"
| "utf8_chars (c # cs) =
     (c # take (utf8_width c - 1) cs) # utf8_chars (drop (utf8_width c - 1) cs)"
  by pat_completeness auto
termination
  by (relation "measure length") auto

definition code_point :: "string \<Rightarrow> nat" where
  "code_point ch = (case ch of
       [a] \<Rightarrow> code_of a
     | [a, b] \<Rightarrow> (code_of a mod 32) * 64 + code_of b mod 64
     | [a, b, c] \<Rightarrow> ((code_of a mod 16) * 64 + code_of b mod 64) * 64 + code_of c mod 64
     | [a, b, c, d] \<Rightarrow> (((code_of a mod 8) * 64 + code_of b mod 64) * 64 + code_of c mod 64) * 64
         + code_of d mod 64
     | _ \<Rightarrow> 65533)"

definition is_control :: "string \<Rightarrow> bool" where
  "is_control ch = (let p = code_point ch in p < 32 \<or> (127 \<le> p \<and> p \<le> 159))"

definition is_whitespace :: "string \<Rightarrow> bool" where
  "is_whitespace ch = (let p = code_point ch in
     (9 \<le> p \<and> p \<le> 13) \<or> p = 32 \<or> p = 133 \<or> p = 160 \<or> p = 5760 \<or> (8192 \<le> p \<and> p \<le> 8202)
     \<or> p = 8232 \<or> p = 8233 \<or> p = 8239 \<or> p = 8287 \<or> p = 12288)"

definition has_control :: "string \<Rightarrow> bool" where
  "has_control s = list_ex is_control (utf8_chars s)"

text \<open>What Rust guarantees of every \<^verbatim>\<open>str\<close>: whole scalar values, each with its lead byte.\<close>

definition utf8_char_ok :: "string \<Rightarrow> bool" where
  "utf8_char_ok ch = (ch \<noteq> [] \<and> length ch = utf8_width (hd ch) \<and> \<not> is_continuation (hd ch)
     \<and> list_all is_continuation (tl ch))"

definition utf8_valid :: "string \<Rightarrow> bool" where
  "utf8_valid s = list_all utf8_char_ok (utf8_chars s)"

text \<open>\<^verbatim>\<open>str::is_char_boundary\<close>.\<close>

definition is_char_boundary :: "string \<Rightarrow> nat \<Rightarrow> bool" where
  "is_char_boundary s i =
     (i = 0 \<or> i = length s \<or> (i < length s \<and> \<not> is_continuation (s ! i)))"

lemma utf8_width_pos [simp]: "0 < utf8_width c"
  by (simp add: utf8_width_def)

lemma concat_utf8_chars [simp]: "concat (utf8_chars s) = s"
  by (induction s rule: utf8_chars.induct) auto

lemma utf8_chars_nonempty: "ch \<in> set (utf8_chars s) \<Longrightarrow> ch \<noteq> []"
  by (induction s rule: utf8_chars.induct) auto

lemma utf8_chars_eq_Nil [simp]: "utf8_chars s = [] \<longleftrightarrow> s = []"
  by (cases s) auto

lemma utf8_chars_append_ok:
  "utf8_char_ok ch \<Longrightarrow> utf8_chars (ch @ s) = ch # utf8_chars s"
  by (cases ch) (auto simp: utf8_char_ok_def)

lemma utf8_chars_concat:
  "list_all utf8_char_ok chs \<Longrightarrow> utf8_chars (concat chs) = chs"
  by (induction chs) (auto simp: utf8_chars_append_ok)

lemma utf8_valid_concat: "list_all utf8_char_ok chs \<Longrightarrow> utf8_valid (concat chs)"
  by (simp add: utf8_valid_def utf8_chars_concat)

lemma utf8_width_ascii [simp]: "code_of c < 128 \<Longrightarrow> utf8_width c = 1"
  by (simp add: utf8_width_def)

lemma utf8_chars_ascii: "is_ascii s \<Longrightarrow> utf8_chars s = map (\<lambda>c. [c]) s"
  by (induction s) (auto simp: is_ascii_def)

lemma code_point_ascii [simp]: "code_point [c] = code_of c"
  by (simp add: code_point_def)

lemma has_control_ascii:
  "is_ascii s \<Longrightarrow> has_control s = list_ex is_ascii_control s"
proof -
  assume "is_ascii s"
  then have "list_ex (\<lambda>c. is_control [c]) s = list_ex is_ascii_control s"
    by (induction s) (auto simp: is_ascii_def is_control_def is_ascii_control_def)
  with \<open>is_ascii s\<close> show ?thesis
    by (simp add: has_control_def utf8_chars_ascii list_ex_iff)
qed

section \<open>Trimming and splitting\<close>

definition trim_chars :: "(string \<Rightarrow> bool) \<Rightarrow> string \<Rightarrow> string" where
  "trim_chars p s = concat (rev (dropWhile p (rev (dropWhile p (utf8_chars s)))))"

definition str_trim :: "string \<Rightarrow> string" where
  "str_trim s = trim_chars is_whitespace s"

text \<open>\<^verbatim>\<open>str::split\<close> on a set of ASCII separators: always at least one piece.\<close>

fun split_by :: "(char \<Rightarrow> bool) \<Rightarrow> string \<Rightarrow> string list" where
  "split_by p [] = [[]]"
| "split_by p (c # cs) =
     (if p c then [] # split_by p cs
      else (case split_by p cs of [] \<Rightarrow> [[c]] | w # ws \<Rightarrow> (c # w) # ws))"

abbreviation split_on :: "char \<Rightarrow> string \<Rightarrow> string list" where
  "split_on x \<equiv> split_by (\<lambda>c. c = x)"

fun split_once :: "char \<Rightarrow> string \<Rightarrow> (string \<times> string) option" where
  "split_once x [] = None"
| "split_once x (c # cs) =
     (if c = x then Some ([], cs)
      else map_option (\<lambda>(a, b). (c # a, b)) (split_once x cs))"

definition rsplit_once :: "char \<Rightarrow> string \<Rightarrow> (string \<times> string) option" where
  "rsplit_once x s = map_option (\<lambda>(a, b). (rev b, rev a)) (split_once x (rev s))"

definition split_ascii_whitespace :: "string \<Rightarrow> string list" where
  "split_ascii_whitespace s = filter (\<lambda>w. w \<noteq> []) (split_by is_ascii_whitespace s)"

text \<open>\<^verbatim>\<open>str::split_whitespace\<close>: the maximal runs of characters that are not whitespace.\<close>

fun words_of :: "(string \<Rightarrow> bool) \<Rightarrow> string list \<Rightarrow> string list \<Rightarrow> string list" where
  "words_of p acc [] = (if acc = [] then [] else [concat acc])"
| "words_of p acc (ch # chs) =
     (if p ch then (if acc = [] then words_of p [] chs else concat acc # words_of p [] chs)
      else words_of p (acc @ [ch]) chs)"

definition split_whitespace :: "string \<Rightarrow> string list" where
  "split_whitespace s = words_of is_whitespace [] (utf8_chars s)"

fun join :: "string \<Rightarrow> string list \<Rightarrow> string" where
  "join sep [] = []"
| "join sep [w] = w"
| "join sep (w # ws) = w @ sep @ join sep ws"

definition strip_prefix :: "string \<Rightarrow> string \<Rightarrow> string option" where
  "strip_prefix p s = (if prefix p s then Some (drop (length p) s) else None)"

definition strip_suffix :: "string \<Rightarrow> string \<Rightarrow> string option" where
  "strip_suffix p s = (if suffix p s then Some (take (length s - length p) s) else None)"

lemma split_by_nonempty [simp]: "split_by p s \<noteq> []"
  by (induction s) (auto split: list.splits)

lemma split_by_free: "\<forall>w\<in>set (split_by p s). \<forall>c\<in>set w. \<not> p c"
  by (induction s) (auto split: list.split)

lemma split_by_no_sep: "(\<And>c. c \<in> set w \<Longrightarrow> \<not> p c) \<Longrightarrow> split_by p w = [w]"
  by (induction w) auto

lemma split_by_append_sep:
  assumes "\<And>c. c \<in> set w \<Longrightarrow> \<not> p c" and "p x"
  shows "split_by p (w @ x # s) = w # split_by p s"
  using assms by (induction w) auto

lemma join_split_on: "join [x] (split_on x s) = s"
proof (induction s)
  case (Cons c cs)
  then show ?case by (cases "split_on x cs"; cases "tl (split_on x cs)") auto
qed simp

lemma split_on_join:
  "ws \<noteq> [] \<Longrightarrow> (\<And>w. w \<in> set ws \<Longrightarrow> x \<notin> set w) \<Longrightarrow> split_on x (join [x] ws) = ws"
proof (induction "[x]" ws rule: join.induct)
  case (2 w)
  then show ?case by (auto intro!: split_by_no_sep)
next
  case (3 w v vs)
  have "split_on x (w @ x # join [x] (v # vs)) = w # split_on x (join [x] (v # vs))"
    by (rule split_by_append_sep) (use "3.prems" in auto)
  with 3 show ?case by simp
qed simp

lemma split_once_Some:
  "split_once x s = Some (a, b) \<longleftrightarrow> s = a @ x # b \<and> x \<notin> set a"
proof (induction s arbitrary: a)
  case (Cons c cs)
  show ?case
  proof (cases "c = x")
    case True
    then show ?thesis by (cases a) auto
  next
    case False
    then show ?thesis
      by (cases a) (auto simp: Cons.IH split_paired_all)
  qed
qed simp

lemma split_once_None: "split_once x s = None \<longleftrightarrow> x \<notin> set s"
  by (induction s) auto

lemma rsplit_once_Some:
  "rsplit_once x s = Some (a, b) \<longleftrightarrow> s = a @ x # b \<and> x \<notin> set b"
proof -
  have "rsplit_once x s = Some (a, b) \<longleftrightarrow> split_once x (rev s) = Some (rev b, rev a)"
    by (auto simp: rsplit_once_def)
  also have "\<dots> \<longleftrightarrow> rev s = rev b @ x # rev a \<and> x \<notin> set b"
    by (simp add: split_once_Some)
  also have "\<dots> \<longleftrightarrow> s = a @ x # b \<and> x \<notin> set b"
    by (simp add: rev_swap)
  finally show ?thesis .
qed

lemma rsplit_once_None: "rsplit_once x s = None \<longleftrightarrow> x \<notin> set s"
  by (simp add: rsplit_once_def split_once_None)

lemma strip_prefix_append [simp]: "strip_prefix p (p @ s) = Some s"
  by (simp add: strip_prefix_def)

lemma strip_suffix_append [simp]: "strip_suffix p (s @ p) = Some s"
  by (simp add: strip_suffix_def suffix_def)

lemma str_trim_graphic:
  assumes "\<And>c. c \<in> set s \<Longrightarrow> 32 < code_of c \<and> code_of c < 127"
  shows "str_trim s = s"
proof -
  have "utf8_chars s = map (\<lambda>c. [c]) s"
    using assms by (intro utf8_chars_ascii) (force simp: is_ascii_def list_all_iff)
  moreover have "\<not> is_whitespace [c]" if "c \<in> set s" for c
    using assms[OF that] by (auto simp: is_whitespace_def Let_def)
  ultimately have "dropWhile is_whitespace (utf8_chars s) = utf8_chars s"
    and "dropWhile is_whitespace (rev (utf8_chars s)) = rev (utf8_chars s)"
    by (auto simp: dropWhile_eq_self_iff hd_map hd_rev last_map)
  then show ?thesis by (simp add: str_trim_def trim_chars_def)
qed

section \<open>Parsing and printing integers\<close>

text \<open>
  \<^verbatim>\<open>char::to_digit\<close>, \<^verbatim>\<open>from_str_radix\<close> of an unsigned type with values below \<open>bound\<close> (an
  optional leading plus, at least one digit, overflow is an error) and of a signed one with values
  from \<open>- bound\<close> to \<open>bound - 1\<close>.
\<close>

definition to_digit :: "nat \<Rightarrow> char \<Rightarrow> nat option" where
  "to_digit radix c = (let d =
      (if is_ascii_digit c then code_of c - 48
       else if is_ascii_lowercase c then code_of c - 87
       else if is_ascii_uppercase c then code_of c - 55
       else 36)
    in if d < radix then Some d else None)"

fun parse_digits :: "nat \<Rightarrow> nat \<Rightarrow> nat \<Rightarrow> string \<Rightarrow> nat option" where
  "parse_digits radix bound acc [] = Some acc"
| "parse_digits radix bound acc (c # cs) =
     (case to_digit radix c of
        None \<Rightarrow> None
      | Some d \<Rightarrow> (if acc * radix + d < bound then parse_digits radix bound (acc * radix + d) cs
                  else None))"

definition strip_plus :: "string \<Rightarrow> string" where
  "strip_plus s = (case s of c # cs \<Rightarrow> (if c = CHR ''+'' then cs else s) | [] \<Rightarrow> s)"

definition parse_unsigned :: "nat \<Rightarrow> nat \<Rightarrow> string \<Rightarrow> nat option" where
  "parse_unsigned radix bound s =
     (let ds = strip_plus s in if ds = [] then None else parse_digits radix bound 0 ds)"

definition parse_signed :: "nat \<Rightarrow> nat \<Rightarrow> string \<Rightarrow> int option" where
  "parse_signed radix bound s =
     (case s of
        [] \<Rightarrow> None
      | c # cs \<Rightarrow>
         (if c = CHR ''-'' then
            (if cs = [] then None
             else map_option (\<lambda>n. - int n) (parse_digits radix (bound + 1) 0 cs))
          else map_option int (parse_unsigned radix bound s)))"

text \<open>\<^verbatim>\<open>char::from_digit\<close> in lower case, and the shortest digit string.\<close>

definition digit_char :: "nat \<Rightarrow> char" where
  "digit_char d = (if d < 10 then char_of (48 + d) else char_of (87 + d))"

function digits_of :: "nat \<Rightarrow> nat \<Rightarrow> string" where
  "digits_of radix n =
     (if radix < 2 \<or> n < radix then [digit_char n]
      else digits_of radix (n div radix) @ [digit_char (n mod radix)])"
  by pat_completeness auto
termination
  by (relation "measure snd") auto

declare digits_of.simps [simp del]

abbreviation dec_string :: "nat \<Rightarrow> string" where
  "dec_string \<equiv> digits_of 10"

lemma to_digit_digit_char:
  "d < radix \<Longrightarrow> radix \<le> 36 \<Longrightarrow> to_digit radix (digit_char d) = Some d"
  by (auto simp: to_digit_def digit_char_def ascii_defs of_char_of)

lemma to_digit_less: "to_digit radix c = Some d \<Longrightarrow> d < radix"
  by (auto simp: to_digit_def Let_def split: if_splits)

lemma parse_digits_append:
  "parse_digits radix bound acc (xs @ ys) =
     Option.bind (parse_digits radix bound acc xs) (\<lambda>a. parse_digits radix bound a ys)"
  by (induction xs arbitrary: acc) (auto split: option.split)

lemma parse_digits_of:
  "2 \<le> radix \<Longrightarrow> radix \<le> 36 \<Longrightarrow>
     parse_digits radix bound 0 (digits_of radix n) = (if n < bound then Some n else None)"
proof (induction radix n rule: digits_of.induct)
  case (1 radix n)
  have digit: "to_digit radix (digit_char d) = Some d" if "d < radix" for d
    using that 1 by (simp add: to_digit_digit_char)
  show ?case
  proof (cases "n < radix")
    case True
    with 1 show ?thesis by (simp add: digits_of.simps[of radix n] digit)
  next
    case False
    have "n div radix \<le> n" by simp
    then have "n < bound \<Longrightarrow> n div radix < bound" by linarith
    moreover have "n div radix * radix + n mod radix = n" by simp
    ultimately show ?thesis
      using False 1 by (auto simp: digits_of.simps[of radix n] parse_digits_append digit)
  qed
qed

lemma digit_char_alphanumeric:
  "d < 36 \<Longrightarrow> is_ascii_digit (digit_char d) \<or> is_ascii_lowercase (digit_char d)"
  by (auto simp: digit_char_def ascii_defs of_char_of)

lemma digits_of_nonempty [simp]: "digits_of radix n \<noteq> []"
  by (subst digits_of.simps) simp

lemma set_digits_of:
  "c \<in> set (digits_of radix n) \<Longrightarrow> 2 \<le> radix \<Longrightarrow> radix \<le> 36 \<Longrightarrow>
     is_ascii_digit c \<or> is_ascii_lowercase c"
proof (induction radix n rule: digits_of.induct)
  case (1 radix n)
  have small: "n mod radix < 36" using "1.prems" by (auto intro!: order_less_le_trans[OF mod_less_divisor])
  show ?case
  proof (cases "n < radix")
    case True
    with "1.prems" show ?thesis by (simp add: digits_of.simps[of radix n] digit_char_alphanumeric)
  next
    case False
    then have "digits_of radix n = digits_of radix (n div radix) @ [digit_char (n mod radix)]"
      using "1.prems" by (simp add: digits_of.simps[of radix n])
    with False small "1.IH" "1.prems" show ?thesis by (auto dest: digit_char_alphanumeric)
  qed
qed

lemma dec_string_digits: "c \<in> set (dec_string n) \<Longrightarrow> is_ascii_digit c"
proof (induction "10::nat" n rule: digits_of.induct)
  case (1 n)
  have digit: "is_ascii_digit (digit_char d)" if "d < 10" for d
    using that by (auto simp: digit_char_def is_ascii_digit_def of_char_of)
  show ?case
  proof (cases "n < 10")
    case True
    with "1.prems" show ?thesis by (simp add: digits_of.simps[of 10 n] digit)
  next
    case False
    then have "dec_string n = dec_string (n div 10) @ [digit_char (n mod 10)]"
      by (simp add: digits_of.simps[of 10 n])
    with False "1.hyps" "1.prems" digit[of "n mod 10"] show ?thesis by auto
  qed
qed

lemma strip_plus_digits_of:
  "2 \<le> radix \<Longrightarrow> radix \<le> 36 \<Longrightarrow> strip_plus (digits_of radix n) = digits_of radix n"
proof -
  assume radix: "2 \<le> radix" "radix \<le> 36"
  have "c \<noteq> CHR ''+''" if "c \<in> set (digits_of radix n)" for c
    using set_digits_of[OF that radix] by (auto simp: ascii_defs)
  then show ?thesis by (auto simp: strip_plus_def split: list.split)
qed

lemma parse_unsigned_digits_of:
  "2 \<le> radix \<Longrightarrow> radix \<le> 36 \<Longrightarrow>
     parse_unsigned radix bound (digits_of radix n) = (if n < bound then Some n else None)"
  by (simp add: parse_unsigned_def strip_plus_digits_of parse_digits_of)

lemma parse_digits_bound: "parse_digits radix bound acc s = Some n \<Longrightarrow> acc < bound \<Longrightarrow> n < bound"
  by (induction radix bound acc s rule: parse_digits.induct) (auto split: option.splits if_splits)

lemma parse_unsigned_bound: "parse_unsigned radix bound s = Some n \<Longrightarrow> 0 < bound \<Longrightarrow> n < bound"
  by (auto simp: parse_unsigned_def Let_def dest: parse_digits_bound split: if_splits)

lemma digits_of_inj:
  "2 \<le> radix \<Longrightarrow> radix \<le> 36 \<Longrightarrow> digits_of radix m = digits_of radix n \<longleftrightarrow> m = n"
proof -
  assume radix: "2 \<le> radix" "radix \<le> 36"
  have "parse_digits radix (Suc (m + n)) 0 (digits_of radix m) = Some m"
    and "parse_digits radix (Suc (m + n)) 0 (digits_of radix n) = Some n"
    using parse_digits_of[OF radix] by auto
  then show ?thesis by (metis option.inject)
qed

lemma length_digits_of:
  "2 \<le> radix \<Longrightarrow> n < radix ^ k \<Longrightarrow> 0 < k \<Longrightarrow> length (digits_of radix n) \<le> k"
proof (induction radix n arbitrary: k rule: digits_of.induct)
  case (1 radix n)
  show ?case
  proof (cases "n < radix")
    case True
    with 1 show ?thesis by (simp add: digits_of.simps[of radix n])
  next
    case False
    then obtain j where k: "k = Suc j" "0 < j"
      using 1 by (cases k; cases "k = 1") auto
    have "n div radix < radix ^ j"
      using 1 k by (simp add: less_mult_imp_div_less mult.commute)
    with False 1 k have "length (digits_of radix (n div radix)) \<le> j" by simp
    with False 1 k show ?thesis by (simp add: digits_of.simps[of radix n])
  qed
qed

section \<open>Big-endian integers\<close>

text \<open>\<^verbatim>\<open>to_be_bytes\<close> of an unsigned integer of \<open>k\<close> bytes and of its two's complement twin.\<close>

fun be_bytes :: "nat \<Rightarrow> nat \<Rightarrow> bytes" where
  "be_bytes 0 v = []"
| "be_bytes (Suc k) v = be_bytes k (v div 256) @ [word_of_nat (v mod 256)]"

definition from_be :: "bytes \<Rightarrow> nat" where
  "from_be bs = foldl (\<lambda>a b. a * 256 + unat b) 0 bs"

definition be_bytes_signed :: "nat \<Rightarrow> int \<Rightarrow> bytes" where
  "be_bytes_signed k v = be_bytes k (nat (v mod 256 ^ k))"

definition from_be_signed :: "nat \<Rightarrow> bytes \<Rightarrow> int" where
  "from_be_signed k bs = (let v = int (from_be bs) in
     if 2 * v < 256 ^ k then v else v - 256 ^ k)"

lemma length_be_bytes [simp]: "length (be_bytes k v) = k"
  by (induction k arbitrary: v) auto

lemma be_bytes_numeral:
  "be_bytes (numeral k) v = be_bytes (pred_numeral k) (v div 256) @ [word_of_nat (v mod 256)]"
  by (simp only: numeral_eq_Suc[of k] be_bytes.simps)

lemma from_be_append1: "from_be (bs @ [b]) = from_be bs * 256 + unat b"
  by (simp add: from_be_def)

lemma unat_byte_mod: "unat (word_of_nat (v mod 256) :: u8) = v mod 256"
  by (simp add: unat_of_nat)

lemma from_be_bytes: "v < 256 ^ k \<Longrightarrow> from_be (be_bytes k v) = v"
proof (induction k arbitrary: v)
  case (Suc k)
  then have "v div 256 < 256 ^ k" by (simp add: less_mult_imp_div_less mult.commute)
  with Suc.IH have "from_be (be_bytes k (v div 256)) = v div 256" by simp
  then show ?case by (simp only: be_bytes.simps from_be_append1 unat_byte_mod) simp
qed (simp add: from_be_def)

lemma be_bytes_eq_iff:
  "v < 256 ^ k \<Longrightarrow> w < 256 ^ k \<Longrightarrow> be_bytes k v = be_bytes k w \<longleftrightarrow> v = w"
  using from_be_bytes by metis

lemma from_be_bytes_signed:
  assumes "- (256 ^ k) \<le> 2 * v" "2 * v < 256 ^ k"
  shows "from_be_signed k (be_bytes_signed k v) = v"
proof -
  have pos: "(0::int) < 256 ^ k" by simp
  have "nat (v mod 256 ^ k) < 256 ^ k"
    using pos_mod_bound[OF pos, of v] pos_mod_sign[OF pos, of v] by (simp add: nat_less_iff)
  then have eq: "int (from_be (be_bytes_signed k v)) = v mod 256 ^ k"
    using pos_mod_sign[OF pos, of v] by (simp add: be_bytes_signed_def from_be_bytes)
  show ?thesis
  proof (cases "0 \<le> v")
    case True
    with assms have "v mod 256 ^ k = v" by simp
    with eq assms show ?thesis by (simp add: from_be_signed_def)
  next
    case False
    have "v mod 256 ^ k = (v + 256 ^ k) mod 256 ^ k" by simp
    also have "\<dots> = v + 256 ^ k" using False assms by (intro mod_pos_pos_trivial) auto
    finally show ?thesis using eq assms False by (simp add: from_be_signed_def)
  qed
qed

lemma length_be_bytes_signed [simp]: "length (be_bytes_signed k v) = k"
  by (simp add: be_bytes_signed_def)

section \<open>Words separated by ASCII white space\<close>

lemma length_split_by: "sum_list (map length (split_by p s)) + length (split_by p s) = Suc (length s)"
  by (induction s) (auto split: list.split)

lemma length_join:
  "ws \<noteq> [] \<Longrightarrow> Suc (length (join [x] ws)) = sum_list (map length ws) + length ws"
  by (induction "[x]" ws rule: join.induct) auto

lemma sum_length_filter_nonempty:
  "sum_list (map length (filter (\<lambda>w. w \<noteq> []) ws)) = sum_list (map length ws)"
  by (induction ws) auto

lemma length_join_words:
  assumes "split_ascii_whitespace s \<noteq> []"
  shows "length (join [x] (split_ascii_whitespace s)) \<le> length s"
proof -
  let ?ws = "split_by is_ascii_whitespace s" and ?fs = "split_ascii_whitespace s"
  have "length ?fs \<le> length ?ws" by (simp add: split_ascii_whitespace_def)
  moreover have "sum_list (map length ?fs) = sum_list (map length ?ws)"
    by (simp add: split_ascii_whitespace_def sum_length_filter_nonempty)
  ultimately show ?thesis using length_join[OF assms, of x] length_split_by[of is_ascii_whitespace s] by linarith
qed

lemma split_ascii_whitespace_words:
  "w \<in> set (split_ascii_whitespace s) \<Longrightarrow> w \<noteq> [] \<and> (\<forall>c\<in>set w. \<not> is_ascii_whitespace c)"
  using split_by_free[of is_ascii_whitespace s] by (auto simp: split_ascii_whitespace_def)

lemma split_ascii_whitespace_join:
  assumes "ws \<noteq> []" "\<And>w. w \<in> set ws \<Longrightarrow> w \<noteq> [] \<and> (\<forall>c\<in>set w. \<not> is_ascii_whitespace c)"
  shows "split_ascii_whitespace (join '' '' ws) = ws"
proof -
  have space: "is_ascii_whitespace (CHR '' '')" by (simp add: is_ascii_whitespace_def)
  have "split_by is_ascii_whitespace (join '' '' ws) = ws"
    using assms
  proof (induction "'' ''" ws rule: join.induct)
    case (2 w)
    then show ?case by (auto intro!: split_by_no_sep)
  next
    case (3 w v vs)
    have "split_by is_ascii_whitespace (w @ CHR '' '' # join '' '' (v # vs))
        = w # split_by is_ascii_whitespace (join '' '' (v # vs))"
      by (rule split_by_append_sep) (use "3.prems" space in auto)
    moreover have "split_by is_ascii_whitespace (join '' '' (v # vs)) = v # vs"
      by (rule 3) (use "3.prems" in auto)
    ultimately show ?case by simp
  qed simp
  moreover have "filter (\<lambda>w. w \<noteq> []) ws = ws" using assms(2) by (simp add: filter_id_conv)
  ultimately show ?thesis by (simp add: split_ascii_whitespace_def)
qed

end
