(* ===== verification/Inbound_Matchers.thy ===== *)
theory Inbound_Matchers
  imports Metric_Text
begin

text \<open>
  The two hand-written text searches of \<^verbatim>\<open>crates/domain/src/inbound_filter.rs\<close>: the
  Knuth-Morris-Pratt table and scan behind \<^verbatim>\<open>Contains\<close>, and the backtracking matcher behind
  \<^verbatim>\<open>Glob\<close>. Loops that fall back are \<open>partial_function (option)\<close>: \<open>None\<close> is either an index out
  of bounds (a panic) or non-termination, and the theorems show that neither happens.
\<close>

section \<open>Knuth-Morris-Pratt\<close>

partial_function (option) kmp_fall :: "'a list \<Rightarrow> nat list \<Rightarrow> 'a \<Rightarrow> nat \<Rightarrow> nat option" where
  "kmp_fall pat pre c matched =
     (if matched = 0 then Some 0
      else if matched \<ge> length pat then None
      else if c \<noteq> pat ! matched
           then (if matched - 1 < length pre then kmp_fall pat pre c (pre ! (matched - 1)) else None)
      else Some matched)"

text \<open>The comparison after the inner loop: \<open>pattern[matched]\<close> is bounds-checked.\<close>

definition kmp_advance :: "'a list \<Rightarrow> 'a \<Rightarrow> nat \<Rightarrow> nat option" where
  "kmp_advance pat c matched =
     (if matched \<ge> length pat then None
      else Some (if c = pat ! matched then matched + 1 else matched))"

fun kmp_prefix_loop :: "'a list \<Rightarrow> nat list \<Rightarrow> nat \<Rightarrow> nat list \<Rightarrow> nat list option" where
  "kmp_prefix_loop pat [] matched pre = Some pre"
| "kmp_prefix_loop pat (i # is) matched pre =
     Option.bind (kmp_fall pat pre (pat ! i) matched) (\<lambda>r.
     Option.bind (kmp_advance pat (pat ! i) r) (\<lambda>m.
     kmp_prefix_loop pat is m (pre[i := m])))"

definition kmp_prefix :: "'a list \<Rightarrow> nat list option" where
  "kmp_prefix pat = kmp_prefix_loop pat [1..<length pat] 0 (replicate (length pat) 0)"

fun kmp_scan :: "'a list \<Rightarrow> nat list \<Rightarrow> nat \<Rightarrow> 'a list \<Rightarrow> bool option" where
  "kmp_scan pat pre matched [] = Some False"
| "kmp_scan pat pre matched (c # cs) =
     Option.bind (kmp_fall pat pre c matched) (\<lambda>r.
     Option.bind (kmp_advance pat c r) (\<lambda>m.
     if m \<noteq> r \<and> m = length pat then Some True else kmp_scan pat pre m cs))"

definition kmp_contains :: "'a list \<Rightarrow> 'a list \<Rightarrow> nat list \<Rightarrow> bool option" where
  "kmp_contains v pat pre = kmp_scan pat pre 0 v"

subsection \<open>Borders\<close>

definition is_border :: "'a list \<Rightarrow> 'a list \<Rightarrow> nat \<Rightarrow> bool" where
  "is_border p t j = (j \<le> length p \<and> suffix (take j p) t)"

definition max_border :: "'a list \<Rightarrow> 'a list \<Rightarrow> nat \<Rightarrow> bool" where
  "max_border p t m = (is_border p t m \<and> (\<forall>j. is_border p t j \<longrightarrow> j \<le> m))"

definition table_ok :: "'a list \<Rightarrow> nat list \<Rightarrow> nat \<Rightarrow> bool" where
  "table_ok p pre n = (length pre = length p \<and> n \<le> length p \<and> (\<forall>k. 0 < k \<and> k \<le> n \<longrightarrow>
     pre ! (k - 1) < k \<and> suffix (take (pre ! (k - 1)) p) (take k p)
     \<and> (\<forall>j<k. suffix (take j p) (take k p) \<longrightarrow> j \<le> pre ! (k - 1))))"

lemma is_border_0 [simp]: "is_border p t 0"
  by (simp add: is_border_def)

lemma is_border_snoc:
  "is_border p (t @ [c]) (Suc j) \<longleftrightarrow> j < length p \<and> is_border p t j \<and> p ! j = c"
  by (auto simp: is_border_def take_Suc_conv_app_nth)

lemma suffix_comparable:
  assumes "suffix xs t" "suffix ys t" "length xs \<le> length ys"
  shows "suffix xs ys"
  using assms suffix_length_suffix by blast

lemma is_border_below:
  assumes "is_border p t m" "j \<le> m"
  shows "is_border p t j \<longleftrightarrow> suffix (take j p) (take m p)"
proof
  assume "is_border p t j"
  with assms show "suffix (take j p) (take m p)"
    by (auto simp: is_border_def intro!: suffix_comparable[where t = t])
next
  assume "suffix (take j p) (take m p)"
  with assms show "is_border p t j"
    by (auto simp: is_border_def intro: suffix_order.trans)
qed

lemma kmp_fall_border:
  assumes "table_ok p pre n" "m \<le> n" "m < length p" "is_border p t m"
  shows "\<exists>r. kmp_fall p pre c m = Some r \<and> r \<le> m \<and> is_border p t r \<and> (r = 0 \<or> p ! r = c)
    \<and> (\<forall>j\<le>m. is_border p t j \<and> p ! j = c \<longrightarrow> j \<le> r)"
  using assms
proof (induction m rule: less_induct)
  case (less m)
  show ?case
  proof (cases "m = 0 \<or> p ! m = c")
    case True
    with less.prems show ?thesis by (auto simp: kmp_fall.simps[of p pre c m])
  next
    case False
    define k where "k = pre ! (m - 1)"
    have k: "k < m" "suffix (take k p) (take m p)"
      and max: "\<And>j. j < m \<Longrightarrow> suffix (take j p) (take m p) \<Longrightarrow> j \<le> k"
      and len: "m - 1 < length pre"
      using less.prems False by (auto simp: table_ok_def k_def)
    then have "is_border p t k" using is_border_below[OF less.prems(4)] by simp
    then obtain r where r: "kmp_fall p pre c k = Some r" "r \<le> k" "is_border p t r"
      "r = 0 \<or> p ! r = c" "\<forall>j\<le>k. is_border p t j \<and> p ! j = c \<longrightarrow> j \<le> r"
      using less.IH[OF k(1) less.prems(1)] less.prems k by auto
    have "j \<le> r" if "j \<le> m" "is_border p t j" "p ! j = c" for j
    proof -
      have "j < m" using that False by (cases "j = m") auto
      moreover from this have "suffix (take j p) (take m p)"
        using that is_border_below[OF less.prems(4)] by simp
      ultimately show ?thesis using max r(5) that by blast
    qed
    moreover have "kmp_fall p pre c m = Some r"
      using r(1) False less.prems len by (subst kmp_fall.simps) (auto simp: k_def)
    ultimately show ?thesis using r k by auto
  qed
qed

lemma kmp_step_max_border:
  assumes "table_ok p pre n" "m \<le> n" "m < length p" "max_border p t m"
  obtains r m' where "kmp_fall p pre c m = Some r" "kmp_advance p c r = Some m'" "r \<le> m"
    "m' \<le> Suc m" "max_border p (t @ [c]) m'" "m' = Suc r \<or> m' = 0"
proof -
  obtain r where r: "kmp_fall p pre c m = Some r" "r \<le> m" "is_border p t r" "r = 0 \<or> p ! r = c"
    "\<forall>j\<le>m. is_border p t j \<and> p ! j = c \<longrightarrow> j \<le> r"
    using kmp_fall_border[OF assms(1-3), of t c] assms(4) unfolding max_border_def by blast
  have below: "j \<le> r" if "is_border p t j" "p ! j = c" for j
    using that r(5) assms(4) by (auto simp: max_border_def)
  define m' where "m' = (if c = p ! r then r + 1 else r)"
  have "is_border p (t @ [c]) m'"
    using r assms(3) by (auto simp: m'_def is_border_snoc)
  moreover have "j \<le> m'" if "is_border p (t @ [c]) j" for j
    using that below r(4) by (cases j) (auto simp: is_border_snoc m'_def)
  ultimately have "max_border p (t @ [c]) m'" by (simp add: max_border_def)
  then show ?thesis
    using that[of r m'] r assms(3) by (auto simp: kmp_advance_def m'_def)
qed

subsection \<open>The table\<close>

lemma max_border_tl_take:
  assumes "max_border p (tl (take (Suc i) p)) m" "i < length p"
  shows "m < Suc i" "suffix (take m p) (take (Suc i) p)"
    "\<And>j. j < Suc i \<Longrightarrow> suffix (take j p) (take (Suc i) p) \<Longrightarrow> j \<le> m"
proof -
  let ?t = "take (Suc i) p"
  have t: "?t = hd ?t # tl ?t" using assms(2) by (cases p) auto
  have b: "is_border p (tl ?t) m" using assms(1) by (simp add: max_border_def)
  then have "length (take m p) \<le> length (tl ?t)" by (auto simp: is_border_def dest: suffix_length_le)
  with b assms(2) show "m < Suc i" by (auto simp: is_border_def)
  show "suffix (take m p) ?t"
    using b suffix_ConsI[of "take m p" "tl ?t" "hd ?t"] t by (simp add: is_border_def)
  fix j assume j: "j < Suc i" "suffix (take j p) ?t"
  moreover have "take j p \<noteq> ?t"
    using j assms(2) by (metis Suc_leI length_take min.absorb2 nat_neq_iff min_less_iff_conj)
  ultimately have "suffix (take j p) (tl ?t)"
    using t by (metis suffix_Cons)
  with j assms show "j \<le> m" by (simp add: max_border_def is_border_def)
qed

lemma table_ok_extend:
  assumes "table_ok p pre i" "i < length p" "max_border p (tl (take (Suc i) p)) m"
  shows "table_ok p (pre[i := m]) (Suc i)"
proof -
  have "pre[i := m] ! (k - 1) = (if k = Suc i then m else pre ! (k - 1))" if "0 < k" "k \<le> Suc i" for k
    using that assms by (cases k) (auto simp: table_ok_def nth_list_update)
  then show ?thesis
    using assms(1,2) max_border_tl_take[OF assms(3,2)]
    by (auto simp: table_ok_def le_Suc_eq)
qed

lemma kmp_prefix_loop_ok:
  assumes "table_ok p pre i" "0 < i" "i \<le> length p" "max_border p (tl (take i p)) m" "m < i"
  shows "\<exists>pre'. kmp_prefix_loop p [i..<length p] m pre = Some pre' \<and> table_ok p pre' (length p)"
  using assms
proof (induction "length p - i" arbitrary: i m pre)
  case 0
  then show ?case by simp
next
  case (Suc n)
  then have i: "i < length p" by simp
  have snoc: "tl (take (Suc i) p) = tl (take i p) @ [p ! i]"
    using i Suc.prems(2) by (cases p; cases i) (auto simp: take_Suc_conv_app_nth)
  obtain r m' where step: "kmp_fall p pre (p ! i) m = Some r" "kmp_advance p (p ! i) r = Some m'"
    "max_border p (tl (take (Suc i) p)) m'"
    using kmp_step_max_border[OF Suc.prems(1) _ _ Suc.prems(4), of "p ! i"] Suc.prems i snoc
    by (metis less_imp_le_nat order.strict_trans)
  have "\<exists>pre'. kmp_prefix_loop p [Suc i..<length p] m' (pre[i := m']) = Some pre'
      \<and> table_ok p pre' (length p)"
    using Suc.hyps(2) i step(3) max_border_tl_take(1)[OF step(3) i]
    by (intro Suc.hyps(1) table_ok_extend Suc.prems) auto
  then show ?case using step i by (simp add: upt_conv_Cons)
qed

lemma kmp_prefix_ok: "p \<noteq> [] \<Longrightarrow> \<exists>pre. kmp_prefix p = Some pre \<and> table_ok p pre (length p)"
  unfolding kmp_prefix_def
proof (rule kmp_prefix_loop_ok)
  assume "p \<noteq> []"
  then show "table_ok p (replicate (length p) 0) 1"
    by (cases p) (auto simp: table_ok_def)
  show "max_border p (tl (take 1 p)) 0"
    using \<open>p \<noteq> []\<close> by (cases p) (auto simp: max_border_def is_border_def)
  show "1 \<le> length p" using \<open>p \<noteq> []\<close> by (cases p) auto
qed auto

subsection \<open>The scan\<close>

lemma kmp_scan_ok:
  assumes "table_ok p pre (length p)" "max_border p t m" "m < length p"
  shows "kmp_scan p pre m v = Some (\<exists>k. 0 < k \<and> k \<le> length v \<and> suffix p (t @ take k v))"
  using assms
proof (induction v arbitrary: t m)
  case (Cons c cs)
  obtain r m' where step: "kmp_fall p pre c m = Some r" "kmp_advance p c r = Some m'"
    "m' \<le> Suc m" "max_border p (t @ [c]) m'" "m' = Suc r \<or> m' = 0" "r \<le> m"
    using kmp_step_max_border[OF Cons.prems(1) _ Cons.prems(3,2), of c] Cons.prems(3)
    by (metis less_imp_le)
  have split: "(\<exists>k. 0 < k \<and> k \<le> length (c # cs) \<and> suffix p (t @ take k (c # cs)))
    \<longleftrightarrow> suffix p (t @ [c]) \<or> (\<exists>k. 0 < k \<and> k \<le> length cs \<and> suffix p ((t @ [c]) @ take k cs))"
    (is "?L \<longleftrightarrow> ?M \<or> ?R")
  proof
    assume ?L
    then obtain k where k: "0 < k" "k \<le> length (c # cs)" "suffix p (t @ take k (c # cs))" by blast
    then obtain j where "k = Suc j" by (cases k) auto
    with k show "?M \<or> ?R" by (cases "j = 0") auto
  next
    assume "?M \<or> ?R"
    then show ?L
    proof
      assume ?M then show ?L by (intro exI[of _ 1]) simp
    next
      assume ?R
      then obtain k where "0 < k" "k \<le> length cs" "suffix p ((t @ [c]) @ take k cs)" by blast
      then show ?L by (intro exI[of _ "Suc k"]) simp
    qed
  qed
  show ?case
  proof (cases "m' = length p")
    case True
    then have "suffix p (t @ [c])" using step(4) by (simp add: max_border_def is_border_def)
    with True step Cons.prems(3) split show ?thesis by auto
  next
    case False
    then have lt: "m' < length p" using step(4) by (auto simp: max_border_def is_border_def)
    then have "\<not> suffix p (t @ [c])"
      using step(4) by (auto simp: max_border_def is_border_def dest: spec[of _ "length p"])
    with False lt step split Cons.IH[OF Cons.prems(1) step(4) lt] show ?thesis by auto
  qed
qed simp

lemma sublist_iff_suffix_take: "sublist p v \<longleftrightarrow> (\<exists>k\<le>length v. suffix p (take k v))"
proof
  assume "sublist p v"
  then obtain xs ys where "v = xs @ p @ ys" by (auto simp: sublist_def)
  then have "suffix p (take (length xs + length p) v)" by (simp add: suffix_def)
  with \<open>v = xs @ p @ ys\<close> show "\<exists>k\<le>length v. suffix p (take k v)"
    by (intro exI[of _ "length xs + length p"]) auto
next
  assume "\<exists>k\<le>length v. suffix p (take k v)"
  then obtain k xs where "take k v = xs @ p" by (auto simp: suffix_def)
  then have "v = xs @ p @ drop k v" by (metis append.assoc append_take_drop_id)
  then show "sublist p v" by (auto simp: sublist_def)
qed

lemma kmp_search:
  assumes "p \<noteq> []" "kmp_prefix p = Some pre"
  shows "kmp_contains v p pre = Some (sublist p v)"
proof -
  have "table_ok p pre (length p)" using kmp_prefix_ok[OF assms(1)] assms(2) by simp
  moreover have "max_border p [] 0"
    using assms(1) by (auto simp: max_border_def is_border_def)
  ultimately have "kmp_scan p pre 0 v = Some (\<exists>k. 0 < k \<and> k \<le> length v \<and> suffix p (take k v))"
    using kmp_scan_ok[of p pre "[]" 0 v] assms(1) by simp
  moreover have "(\<exists>k. 0 < k \<and> k \<le> length v \<and> suffix p (take k v)) \<longleftrightarrow> sublist p v"
  proof
    assume "sublist p v"
    then obtain k where "k \<le> length v" "suffix p (take k v)" by (auto simp: sublist_iff_suffix_take)
    moreover from this assms(1) have "0 < k" by (cases k) auto
    ultimately show "\<exists>k. 0 < k \<and> k \<le> length v \<and> suffix p (take k v)" by blast
  qed (auto simp: sublist_iff_suffix_take)
  ultimately show ?thesis by (simp add: kmp_contains_def)
qed

section \<open>Glob matching\<close>

record glob_state =
  g_pattern_index :: nat
  g_value_index :: nat
  g_star :: "nat option"
  g_star_value :: nat

fun skip_stars :: "string \<Rightarrow> string" where
  "skip_stars (c # cs) = (if c = CHR ''*'' then skip_stars cs else c # cs)"
| "skip_stars [] = []"

text \<open>
  One round: \<open>Inl\<close> the state of the next round of the first loop, \<open>Inr\<close> the value returned (after
  the loop that skips trailing stars).
\<close>

definition glob_step :: "string \<Rightarrow> string \<Rightarrow> glob_state \<Rightarrow> glob_state + bool" where
  "glob_step pat v s = (let p = g_pattern_index s; i = g_value_index s in
     if i < length v then
       (if p < length pat \<and> (pat ! p = CHR ''?'' \<or> pat ! p = v ! i)
        then Inl (s\<lparr>g_pattern_index := p + 1, g_value_index := i + 1\<rparr>)
        else if p < length pat \<and> pat ! p = CHR ''*''
        then Inl (s\<lparr>g_star := Some p, g_pattern_index := p + 1, g_star_value := i\<rparr>)
        else (case g_star s of
                Some k \<Rightarrow> Inl (s\<lparr>g_pattern_index := k + 1, g_star_value := g_star_value s + 1,
                                 g_value_index := g_star_value s + 1\<rparr>)
              | None \<Rightarrow> Inr False))
     else Inr (skip_stars (drop p pat) = []))"

partial_function (option) glob_loop :: "string \<Rightarrow> string \<Rightarrow> glob_state \<Rightarrow> bool option" where
  "glob_loop pat v s = (case glob_step pat v s of Inl s' \<Rightarrow> glob_loop pat v s' | Inr b \<Rightarrow> Some b)"

definition glob_matches :: "string \<Rightarrow> string \<Rightarrow> bool option" where
  "glob_matches pat v = glob_loop pat v
     \<lparr>g_pattern_index = 0, g_value_index = 0, g_star = None, g_star_value = 0\<rparr>"

text \<open>The reference the unit test compares it with.\<close>

fun glob_reference :: "string \<Rightarrow> string \<Rightarrow> bool" where
  "glob_reference [] v = (v = [])"
| "glob_reference (p # ps) [] = (p = CHR ''*'' \<and> glob_reference ps [])"
| "glob_reference (p # ps) (c # cs) =
     (if p = CHR ''*'' then glob_reference ps (c # cs) \<or> glob_reference (p # ps) cs
      else (p = CHR ''?'' \<or> p = c) \<and> glob_reference ps cs)"

subsection \<open>Loop rule\<close>

definition glob_bounds :: "string \<Rightarrow> string \<Rightarrow> glob_state \<Rightarrow> bool" where
  "glob_bounds pat v s = (g_star_value s \<le> g_value_index s \<and> g_value_index s \<le> length v
     \<and> g_pattern_index s \<le> length pat \<and> is_none_or (g_star s) (\<lambda>k. k < length pat))"

lemma glob_bounds_step:
  "glob_bounds pat v s \<Longrightarrow> glob_step pat v s = Inl s' \<Longrightarrow> glob_bounds pat v s'"
  by (auto simp: glob_bounds_def glob_step_def Let_def split: if_splits option.splits)

definition glob_measure :: "string \<Rightarrow> string \<Rightarrow> glob_state \<Rightarrow> nat \<times> nat \<times> nat" where
  "glob_measure pat v s = (length v - g_star_value s, length v - g_value_index s,
     length pat - g_pattern_index s)"

abbreviation glob_less :: "((nat \<times> nat \<times> nat) \<times> nat \<times> nat \<times> nat) set" where
  "glob_less \<equiv> less_than <*lex*> less_than <*lex*> less_than"

lemma glob_step_decreases:
  "glob_bounds pat v s \<Longrightarrow> glob_step pat v s = Inl s' \<Longrightarrow>
     (glob_measure pat v s', glob_measure pat v s) \<in> glob_less"
  by (auto simp: glob_bounds_def glob_step_def glob_measure_def Let_def split: if_splits option.splits)

lemma glob_loop_rule:
  assumes "Inv s"
    and bounds: "\<And>s. Inv s \<Longrightarrow> glob_bounds pat v s"
    and step: "\<And>s s'. Inv s \<Longrightarrow> glob_step pat v s = Inl s' \<Longrightarrow> Inv s'"
    and exit: "\<And>s b. Inv s \<Longrightarrow> glob_step pat v s = Inr b \<Longrightarrow> Q b"
  shows "\<exists>b. glob_loop pat v s = Some b \<and> Q b"
proof -
  have "wf (inv_image glob_less (glob_measure pat v))" by auto
  then show ?thesis using assms(1)
  proof (induction s rule: wf_induct_rule)
    case (less s)
    show ?case
    proof (cases "glob_step pat v s")
      case (Inl s')
      with less.prems have "Inv s'" by (rule step)
      moreover have "(s', s) \<in> inv_image glob_less (glob_measure pat v)"
        using glob_step_decreases[OF bounds[OF less.prems] Inl] by simp
      ultimately obtain b where "glob_loop pat v s' = Some b" "Q b" using less.IH by blast
      with Inl show ?thesis by (simp add: glob_loop.simps[of pat v s])
    next
      case (Inr b)
      with exit[OF less.prems] show ?thesis by (simp add: glob_loop.simps[of pat v s])
    qed
  qed
qed

lemma glob_step_cases [consumes 1, case_names matched starred retried]:
  assumes "glob_step pat v s = Inl s'"
  obtains "g_value_index s < length v" "g_pattern_index s < length pat"
      "pat ! g_pattern_index s = CHR ''?'' \<or> pat ! g_pattern_index s = v ! g_value_index s"
      "s' = s\<lparr>g_pattern_index := g_pattern_index s + 1, g_value_index := g_value_index s + 1\<rparr>"
  | "g_value_index s < length v" "g_pattern_index s < length pat"
      "pat ! g_pattern_index s \<noteq> v ! g_value_index s" "pat ! g_pattern_index s = CHR ''*''"
      "s' = s\<lparr>g_star := Some (g_pattern_index s), g_pattern_index := g_pattern_index s + 1,
              g_star_value := g_value_index s\<rparr>"
  | k where "g_value_index s < length v"
      "g_pattern_index s < length pat \<Longrightarrow> pat ! g_pattern_index s \<noteq> CHR ''?''
         \<and> pat ! g_pattern_index s \<noteq> v ! g_value_index s \<and> pat ! g_pattern_index s \<noteq> CHR ''*''"
      "s' = s\<lparr>g_pattern_index := k + 1, g_star_value := g_star_value s + 1,
              g_value_index := g_star_value s + 1\<rparr>"
      "g_star s = Some k"
  using assms by (auto simp: glob_step_def Let_def split: if_splits option.splits)

subsection \<open>The reference\<close>

lemma glob_reference_star_Nil: "glob_reference (CHR ''*'' # ps) [] = glob_reference ps []"
  by simp

lemma glob_reference_star_drop:
  "glob_reference (CHR ''*'' # ps) (drop k v) \<Longrightarrow> glob_reference (CHR ''*'' # ps) v"
proof (induction k arbitrary: v)
  case (Suc k)
  then show ?case by (cases v) auto
qed simp

lemma glob_reference_star_intro: "glob_reference ps v \<Longrightarrow> glob_reference (CHR ''*'' # ps) v"
  by (cases v) auto

lemma glob_reference_star_iff:
  "glob_reference (CHR ''*'' # ps) v \<longleftrightarrow> (\<exists>k\<le>length v. glob_reference ps (drop k v))"
proof
  assume "glob_reference (CHR ''*'' # ps) v"
  then show "\<exists>k\<le>length v. glob_reference ps (drop k v)"
  proof (induction v)
    case (Cons c cs)
    then consider "glob_reference ps (c # cs)" | k where "k \<le> length cs" "glob_reference ps (drop k cs)"
      by auto
    then show ?case
    proof cases
      case 1 then show ?thesis by (intro exI[of _ 0]) simp
    next
      case 2 then show ?thesis by (intro exI[of _ "Suc k"]) simp
    qed
  qed simp
next
  assume "\<exists>k\<le>length v. glob_reference ps (drop k v)"
  then show "glob_reference (CHR ''*'' # ps) v"
    using glob_reference_star_drop glob_reference_star_intro by blast
qed

lemma glob_reference_Nil_iff: "glob_reference ps [] \<longleftrightarrow> skip_stars ps = []"
  by (induction ps) auto

definition glob_segment :: "string \<Rightarrow> string \<Rightarrow> bool" where
  "glob_segment seg w = (CHR ''*'' \<notin> set seg \<and> list_all2 (\<lambda>p c. p = CHR ''?'' \<or> p = c) seg w)"

lemma glob_reference_segment:
  "CHR ''*'' \<notin> set seg \<Longrightarrow>
     glob_reference (seg @ ps) v \<longleftrightarrow> length seg \<le> length v
       \<and> glob_segment seg (take (length seg) v) \<and> glob_reference ps (drop (length seg) v)"
proof (induction seg arbitrary: v)
  case (Cons p seg)
  then show ?case by (cases v) (auto simp: glob_segment_def)
qed (simp add: glob_segment_def)

lemma glob_segment_length: "glob_segment seg w \<Longrightarrow> length seg = length w"
  by (auto simp: glob_segment_def dest: list_all2_lengthD)

text \<open>A literal segment may be matched at its first occurrence when a star follows it.\<close>

lemma glob_star_segment_star:
  assumes "glob_segment seg (take (length seg) w)" "length seg \<le> length w"
  shows "glob_reference (CHR ''*'' # seg @ CHR ''*'' # ps) w
    \<longleftrightarrow> glob_reference (CHR ''*'' # ps) (drop (length seg) w)"
proof
  assume "glob_reference (CHR ''*'' # seg @ CHR ''*'' # ps) w"
  then obtain k where "glob_reference (seg @ CHR ''*'' # ps) (drop k w)"
    by (auto simp: glob_reference_star_iff)
  then have "glob_reference (CHR ''*'' # ps) (drop (length seg) (drop k w))"
    using assms(1) by (subst (asm) glob_reference_segment) (auto simp: glob_segment_def)
  then have "glob_reference (CHR ''*'' # ps) (drop k (drop (length seg) w))"
    by (simp add: add.commute)
  then show "glob_reference (CHR ''*'' # ps) (drop (length seg) w)"
    by (rule glob_reference_star_drop)
next
  assume "glob_reference (CHR ''*'' # ps) (drop (length seg) w)"
  then have "glob_reference (seg @ CHR ''*'' # ps) w"
    using assms by (subst glob_reference_segment) (auto simp: glob_segment_def)
  then show "glob_reference (CHR ''*'' # seg @ CHR ''*'' # ps) w"
    by (rule glob_reference_star_intro)
qed

subsection \<open>Soundness: a match the loop reports is one of the reference\<close>

definition glob_sound :: "string \<Rightarrow> string \<Rightarrow> glob_state \<Rightarrow> bool" where
  "glob_sound pat v s = (glob_bounds pat v s
     \<and> (glob_reference (drop (g_pattern_index s) pat) (drop (g_value_index s) v)
          \<longrightarrow> glob_reference pat v)
     \<and> is_none_or (g_star s) (\<lambda>k. glob_reference (CHR ''*'' # drop (k + 1) pat) (drop (g_star_value s) v)
          \<longrightarrow> glob_reference pat v))"

lemma glob_reference_head:
  assumes "p = CHR ''?'' \<or> p = c" "glob_reference ps cs"
  shows "glob_reference (p # ps) (c # cs)"
  using assms by (auto intro: glob_reference_star_intro)

lemma glob_sound_step:
  assumes "glob_sound pat v s" "glob_step pat v s = Inl s'"
  shows "glob_sound pat v s'"
proof -
  let ?p = "g_pattern_index s" and ?i = "g_value_index s" and ?sv = "g_star_value s"
  have bounds: "glob_bounds pat v s" "glob_bounds pat v s'"
    using assms glob_bounds_step by (auto simp: glob_sound_def)
  have head: "glob_reference (drop ?p pat) (drop ?i v) \<Longrightarrow> glob_reference pat v"
    and star: "\<And>k. g_star s = Some k \<Longrightarrow> glob_reference (CHR ''*'' # drop (k + 1) pat) (drop ?sv v)
      \<Longrightarrow> glob_reference pat v"
    using assms(1) by (auto simp: glob_sound_def)
  from assms(2) show ?thesis
  proof (cases rule: glob_step_cases)
    case matched
    have "glob_reference (drop (?p + 1) pat) (drop (?i + 1) v) \<Longrightarrow> glob_reference pat v"
      using head glob_reference_head[OF matched(3)] matched(1,2) by (metis Cons_nth_drop_Suc Suc_eq_plus1)
    with matched(4) bounds(2) assms(1) show ?thesis by (simp add: glob_sound_def)
  next
    case starred
    have "drop ?p pat = CHR ''*'' # drop (?p + 1) pat"
      using starred(2,4) by (metis Cons_nth_drop_Suc Suc_eq_plus1)
    with head have "glob_reference (CHR ''*'' # drop (?p + 1) pat) (drop ?i v) \<Longrightarrow> glob_reference pat v"
      by simp
    with starred(5) bounds(2) glob_reference_star_intro show ?thesis by (simp add: glob_sound_def)
  next
    case (retried k)
    have "?sv < length v" using bounds(1) retried(1) by (auto simp: glob_bounds_def)
    then have "drop (?sv + 1) v = drop 1 (drop ?sv v)" by simp
    then have "glob_reference (CHR ''*'' # drop (k + 1) pat) (drop (?sv + 1) v)
        \<Longrightarrow> glob_reference pat v"
      using star[OF retried(4)] glob_reference_star_drop by metis
    with retried bounds(2) glob_reference_star_intro show ?thesis by (simp add: glob_sound_def)
  qed
qed

lemma glob_loop_sound:
  "\<exists>b. glob_matches pat v = Some b \<and> (b \<longrightarrow> glob_reference pat v)"
  unfolding glob_matches_def
proof (rule glob_loop_rule[where Inv = "glob_sound pat v"])
  fix s b
  assume inv: "glob_sound pat v s" and "glob_step pat v s = Inr b"
  then show "b \<longrightarrow> glob_reference pat v"
    by (auto simp: glob_sound_def glob_step_def Let_def glob_reference_Nil_iff
        split: if_splits option.splits)
next
  show "glob_sound pat v \<lparr>g_pattern_index = 0, g_value_index = 0, g_star = None, g_star_value = 0\<rparr>"
    by (simp add: glob_sound_def glob_bounds_def)
qed (erule (1) glob_sound_step | simp add: glob_sound_def)+

subsection \<open>Completeness when the text has no star\<close>

definition glob_exact :: "string \<Rightarrow> string \<Rightarrow> glob_state \<Rightarrow> bool" where
  "glob_exact pat v s = (glob_bounds pat v s \<and>
     (case g_star s of
        None \<Rightarrow> glob_reference pat v
                = glob_reference (drop (g_pattern_index s) pat) (drop (g_value_index s) v)
      | Some k \<Rightarrow> k < g_pattern_index s \<and>
         (\<exists>seg. drop (k + 1) pat = seg @ drop (g_pattern_index s) pat
            \<and> glob_segment seg (take (length seg) (drop (g_star_value s) v))
            \<and> g_value_index s = g_star_value s + length seg
            \<and> glob_reference pat v
              = glob_reference (CHR ''*'' # drop (k + 1) pat) (drop (g_star_value s) v))))"

lemma glob_exactE:
  assumes "glob_exact pat v s" "g_star s = Some k"
  obtains seg where "drop (k + 1) pat = seg @ drop (g_pattern_index s) pat"
    "glob_segment seg (take (length seg) (drop (g_star_value s) v))"
    "g_value_index s = g_star_value s + length seg" "k < g_pattern_index s"
    "glob_reference pat v = glob_reference (CHR ''*'' # drop (k + 1) pat) (drop (g_star_value s) v)"
  using assms by (auto simp: glob_exact_def)

lemma glob_segment_snoc:
  "glob_segment seg w \<Longrightarrow> q \<noteq> CHR ''*'' \<Longrightarrow> q = CHR ''?'' \<or> q = c \<Longrightarrow> glob_segment (seg @ [q]) (w @ [c])"
  by (simp add: glob_segment_def list_all2_appendI)

lemma glob_exact_match:
  assumes "glob_exact pat v s" "g_value_index s < length v" "g_pattern_index s < length pat"
    "pat ! g_pattern_index s = CHR ''?'' \<or> pat ! g_pattern_index s = v ! g_value_index s"
    "CHR ''*'' \<notin> set v"
    "s' = s\<lparr>g_pattern_index := g_pattern_index s + 1, g_value_index := g_value_index s + 1\<rparr>"
    "glob_bounds pat v s'"
  shows "glob_exact pat v s'"
proof -
  let ?p = "g_pattern_index s" and ?i = "g_value_index s" and ?sv = "g_star_value s"
  have v: "drop ?i v = v ! ?i # drop (Suc ?i) v" using assms(2) by (rule Cons_nth_drop_Suc[symmetric])
  have p: "drop ?p pat = pat ! ?p # drop (Suc ?p) pat" using assms(3) by (rule Cons_nth_drop_Suc[symmetric])
  have nostar: "pat ! ?p \<noteq> CHR ''*''" using assms(2,4,5) by (auto dest: nth_mem)
  show ?thesis
  proof (cases "g_star s")
    case None
    with assms v p nostar show ?thesis by (auto simp: glob_exact_def)
  next
    case (Some k)
    from glob_exactE[OF assms(1) Some] obtain seg where seg:
      "drop (k + 1) pat = seg @ drop ?p pat" "glob_segment seg (take (length seg) (drop ?sv v))"
      "?i = ?sv + length seg" "k < ?p"
      "glob_reference pat v = glob_reference (CHR ''*'' # drop (k + 1) pat) (drop ?sv v)" .
    have "drop ?sv v ! length seg = v ! ?i" using seg(3) assms(2) by simp
    then have "take (Suc (length seg)) (drop ?sv v) = take (length seg) (drop ?sv v) @ [v ! ?i]"
      using seg(3) assms(2) by (subst take_Suc_conv_app_nth) auto
    with glob_segment_snoc[OF seg(2) nostar assms(4)]
    have new: "glob_segment (seg @ [pat ! ?p]) (take (length (seg @ [pat ! ?p])) (drop ?sv v))"
      by simp
    show ?thesis
      unfolding glob_exact_def
      using Some assms(6,7) seg(1,3,4,5) p new
      by (auto simp del: append_assoc intro!: exI[of _ "seg @ [pat ! ?p]"])
  qed
qed

lemma glob_exact_star:
  assumes "glob_exact pat v s" "g_value_index s < length v" "g_pattern_index s < length pat"
    "pat ! g_pattern_index s = CHR ''*''"
    "s' = s\<lparr>g_star := Some (g_pattern_index s), g_pattern_index := g_pattern_index s + 1,
            g_star_value := g_value_index s\<rparr>"
    "glob_bounds pat v s'"
  shows "glob_exact pat v s'"
proof -
  let ?p = "g_pattern_index s" and ?i = "g_value_index s" and ?sv = "g_star_value s"
  have p: "drop ?p pat = CHR ''*'' # drop (Suc ?p) pat"
    using assms(3,4) by (metis Cons_nth_drop_Suc)
  have "glob_reference pat v = glob_reference (CHR ''*'' # drop (Suc ?p) pat) (drop ?i v)"
  proof (cases "g_star s")
    case None
    with assms(1) p show ?thesis by (auto simp: glob_exact_def)
  next
    case (Some k)
    from glob_exactE[OF assms(1) Some] obtain seg where seg:
      "drop (k + 1) pat = seg @ drop ?p pat" "glob_segment seg (take (length seg) (drop ?sv v))"
      "?i = ?sv + length seg" "k < ?p"
      "glob_reference pat v = glob_reference (CHR ''*'' # drop (k + 1) pat) (drop ?sv v)" .
    have "length seg \<le> length (drop ?sv v)" using seg(3) assms(2) by simp
    from glob_star_segment_star[OF seg(2) this] seg p show ?thesis by (simp add: add.commute)
  qed
  with assms(5,6) show ?thesis by (auto simp: glob_exact_def glob_segment_def)
qed

lemma glob_exact_mismatch:
  assumes "glob_exact pat v s" "g_star s = Some k"
    "\<not> glob_reference (drop (g_pattern_index s) pat) (drop (g_value_index s) v)"
  shows "\<not> glob_reference (drop (k + 1) pat) (drop (g_star_value s) v)"
proof -
  from glob_exactE[OF assms(1,2)] obtain seg where seg:
    "drop (k + 1) pat = seg @ drop (g_pattern_index s) pat"
    "glob_segment seg (take (length seg) (drop (g_star_value s) v))"
    "g_value_index s = g_star_value s + length seg" by metis
  with assms(3) show ?thesis
    by (simp add: glob_reference_segment glob_segment_def add.commute)
qed

lemma glob_exact_retry:
  assumes "glob_exact pat v s" "g_star s = Some k" "g_value_index s < length v"
    "g_pattern_index s < length pat \<Longrightarrow> pat ! g_pattern_index s \<noteq> CHR ''?''
       \<and> pat ! g_pattern_index s \<noteq> v ! g_value_index s \<and> pat ! g_pattern_index s \<noteq> CHR ''*''"
    "s' = s\<lparr>g_pattern_index := k + 1, g_star_value := g_star_value s + 1,
            g_value_index := g_star_value s + 1\<rparr>"
    "glob_bounds pat v s'"
  shows "glob_exact pat v s'"
proof -
  let ?p = "g_pattern_index s" and ?i = "g_value_index s" and ?sv = "g_star_value s"
  have v: "drop ?i v = v ! ?i # drop (Suc ?i) v" using assms(3) by (rule Cons_nth_drop_Suc[symmetric])
  have "\<not> glob_reference (drop ?p pat) (drop ?i v)"
  proof (cases "?p < length pat")
    case True
    then have "drop ?p pat = pat ! ?p # drop (Suc ?p) pat" by (rule Cons_nth_drop_Suc[symmetric])
    with assms(4)[OF True] v show ?thesis by simp
  next
    case False
    with v show ?thesis by simp
  qed
  from glob_exact_mismatch[OF assms(1,2) this]
  have miss: "\<not> glob_reference (drop (k + 1) pat) (drop ?sv v)" .
  have "?sv < length v" using assms(1,3) by (auto simp: glob_exact_def glob_bounds_def)
  then have sv: "drop ?sv v = v ! ?sv # drop (Suc ?sv) v" by (rule Cons_nth_drop_Suc[symmetric])
  from glob_exactE[OF assms(1,2)]
  have "glob_reference pat v = glob_reference (CHR ''*'' # drop (k + 1) pat) (drop ?sv v)" by metis
  also have "\<dots> = glob_reference (CHR ''*'' # drop (k + 1) pat) (drop (Suc ?sv) v)"
    using miss by (simp add: sv)
  finally show ?thesis
    using assms(2,5,6) by (auto simp: glob_exact_def glob_segment_def)
qed

lemma glob_exact_step:
  assumes "CHR ''*'' \<notin> set v" "glob_exact pat v s" "glob_step pat v s = Inl s'"
  shows "glob_exact pat v s'"
proof -
  have bounds: "glob_bounds pat v s'"
    using assms glob_bounds_step by (auto simp: glob_exact_def)
  from assms(3) show ?thesis
  proof (cases rule: glob_step_cases)
    case matched
    then show ?thesis using glob_exact_match assms(1,2) bounds by blast
  next
    case starred
    then show ?thesis using glob_exact_star assms(2) bounds by blast
  next
    case (retried k)
    then show ?thesis using glob_exact_retry assms(2) bounds by blast
  qed
qed

lemma glob_exact_end:
  assumes "glob_exact pat v s" "g_value_index s = length v"
  shows "glob_reference pat v = glob_reference (drop (g_pattern_index s) pat) []"
proof (cases "g_star s")
  case None
  with assms show ?thesis by (auto simp: glob_exact_def)
next
  case (Some k)
  let ?P = "drop (g_pattern_index s) pat" and ?w = "drop (g_star_value s) v"
  from glob_exactE[OF assms(1) Some] obtain seg where seg:
    "drop (k + 1) pat = seg @ ?P" "glob_segment seg (take (length seg) ?w)"
    "length v = g_star_value s + length seg"
    "glob_reference pat v = glob_reference (CHR ''*'' # drop (k + 1) pat) ?w"
    using assms(2) by metis
  have len: "length ?w = length seg" using seg(3) by simp
  have "glob_reference (seg @ ?P) (drop j ?w) \<longleftrightarrow> j = 0 \<and> glob_reference ?P []" if "j \<le> length ?w" for j
    using that len seg(2)
    by (cases "j = 0") (auto simp: glob_reference_segment glob_segment_def)
  then show ?thesis
    using seg(1,4) by (auto simp: glob_reference_star_iff)
qed

lemma glob_loop_exact:
  assumes "CHR ''*'' \<notin> set v"
  shows "\<exists>b. glob_matches pat v = Some b \<and> b = glob_reference pat v"
  unfolding glob_matches_def
proof (rule glob_loop_rule[where Inv = "glob_exact pat v"])
  fix s b
  assume inv: "glob_exact pat v s" and step: "glob_step pat v s = Inr b"
  show "b = glob_reference pat v"
  proof (cases "g_value_index s < length v")
    case True
    then have v: "drop (g_value_index s) v = v ! g_value_index s # drop (Suc (g_value_index s)) v"
      by (rule Cons_nth_drop_Suc[symmetric])
    have "g_star s = None" "\<not> b" and
      "g_pattern_index s < length pat \<Longrightarrow> pat ! g_pattern_index s \<noteq> CHR ''?''
         \<and> pat ! g_pattern_index s \<noteq> v ! g_value_index s \<and> pat ! g_pattern_index s \<noteq> CHR ''*''"
      using step True by (auto simp: glob_step_def Let_def split: if_splits option.splits)
    then have "\<not> glob_reference (drop (g_pattern_index s) pat) (drop (g_value_index s) v)"
      using v by (cases "g_pattern_index s < length pat") (auto simp: Cons_nth_drop_Suc[symmetric])
    with inv \<open>g_star s = None\<close> \<open>\<not> b\<close> show ?thesis by (simp add: glob_exact_def)
  next
    case False
    with inv have "g_value_index s = length v" by (auto simp: glob_exact_def glob_bounds_def)
    from glob_exact_end[OF inv this] False step show ?thesis
      by (simp add: glob_step_def Let_def glob_reference_Nil_iff)
  qed
next
  show "glob_exact pat v \<lparr>g_pattern_index = 0, g_value_index = 0, g_star = None, g_star_value = 0\<rparr>"
    by (simp add: glob_exact_def glob_bounds_def)
qed (erule (1) glob_exact_step[OF assms] | simp add: glob_exact_def)+

lemma glob_matches_total: "glob_matches pat v \<noteq> None"
  using glob_loop_sound[of pat v] by auto

end
