(* ===== verification/Primitives.thy ===== *)
theory Primitives
  imports Metric_Text
begin

text \<open>
  The value types of \<^verbatim>\<open>crates/domain/src/lib.rs\<close>: bounded identifiers, byte sizes, durations,
  timestamps, error codes, project and organisation identifiers, slugs, DSN keys, event identifiers
  and the 20-byte event key, with the project snapshot and the accepted event built from them.

  A newtype is its content; the constructor is a function \<open>X_new\<close> into a sum, and the values
  it accepts are described by a predicate \<open>X_ok\<close>. Fixed-size byte arrays are lists whose length
  the predicates fix. The crates \<^verbatim>\<open>hex\<close>, \<^verbatim>\<open>url\<close> and \<^verbatim>\<open>humantime\<close> are parameters.
\<close>

section \<open>Errors and bounded values\<close>

datatype primitive_error =
    PE_Empty
  | PE_ControlCharacter
  | PE_TooLong nat nat
  | PE_AboveMaximum nat nat
  | PE_InvalidByteSize
  | PE_InvalidDuration
  | PE_TimestampOutOfRange
  | PE_InvalidErrorCode
  | PE_InvalidProjectId
  | PE_InvalidDsnKey
  | PE_InvalidEventId
  | PE_InvalidOrganizationId
  | PE_InvalidSlug

abbreviation u64_max :: nat where "u64_max \<equiv> 18446744073709551615"
abbreviation u32_max :: nat where "u32_max \<equiv> 4294967295"
abbreviation i64_max :: nat where "i64_max \<equiv> 9223372036854775807"

definition BoundedId_new :: "nat \<Rightarrow> string \<Rightarrow> primitive_error + string" where
  "BoundedId_new max_bytes v =
     (if v = [] then Inl PE_Empty
      else if length v > max_bytes then Inl (PE_TooLong (length v) max_bytes)
      else if has_control v then Inl PE_ControlCharacter
      else Inr v)"

definition BoundedId_ok :: "nat \<Rightarrow> string \<Rightarrow> bool" where
  "BoundedId_ok max_bytes v = (v \<noteq> [] \<and> length v \<le> max_bytes \<and> \<not> has_control v)"

definition ByteSize_new :: "nat \<Rightarrow> nat \<Rightarrow> primitive_error + nat" where
  "ByteSize_new max_bytes n = (if n > max_bytes then Inl (PE_AboveMaximum n max_bytes) else Inr n)"

definition byte_unit :: "string \<Rightarrow> nat option" where
  "byte_unit u =
     (if u = '''' \<or> u = ''b'' then Some 1
      else if u = ''kb'' then Some 1000
      else if u = ''mb'' then Some 1000000
      else if u = ''gb'' then Some 1000000000
      else if u = ''kib'' then Some 1024
      else if u = ''mib'' then Some 1048576
      else if u = ''gib'' then Some 1073741824
      else None)"

definition checked_mul_u64 :: "nat \<Rightarrow> nat \<Rightarrow> nat option" where
  "checked_mul_u64 a b = (if a * b \<le> u64_max then Some (a * b) else None)"

definition ByteSize_from_str :: "nat \<Rightarrow> string \<Rightarrow> primitive_error + nat" where
  "ByteSize_from_str max_bytes s = (let v = str_trim s;
       number = takeWhile is_ascii_digit v; unit = dropWhile is_ascii_digit v in
     and_then (ok_or PE_InvalidByteSize (parse_unsigned 10 (Suc u64_max) number)) (\<lambda>n.
     and_then (ok_or PE_InvalidByteSize (byte_unit (to_ascii_lowercase (str_trim unit)))) (\<lambda>m.
     and_then (ok_or PE_InvalidByteSize (checked_mul_u64 n m)) (\<lambda>b.
     ByteSize_new max_bytes b))))"

text \<open>A \<^verbatim>\<open>Duration\<close> is its number of nanoseconds; \<open>parse_duration\<close> is \<^verbatim>\<open>humantime\<close>'s parser.\<close>

type_synonym duration = nat

definition BoundedDuration_new :: "nat \<Rightarrow> duration \<Rightarrow> primitive_error + duration" where
  "BoundedDuration_new max_millis d = (let millis = d div 1000000 in
     if millis > u64_max then Inl PE_InvalidDuration
     else if millis > max_millis then Inl (PE_AboveMaximum millis max_millis)
     else Inr d)"

definition BoundedDuration_from_str ::
  "(string \<Rightarrow> duration option) \<Rightarrow> nat \<Rightarrow> string \<Rightarrow> primitive_error + duration" where
  "BoundedDuration_from_str parse_duration max_millis s =
     and_then (ok_or PE_InvalidDuration (parse_duration s)) (BoundedDuration_new max_millis)"

type_synonym timestamp = int

definition MIN_TIMESTAMP_MILLIS :: int where "MIN_TIMESTAMP_MILLIS = -62135596800000"
definition MAX_TIMESTAMP_MILLIS :: int where "MAX_TIMESTAMP_MILLIS = 253402300799999"

definition timestamp_ok :: "int \<Rightarrow> bool" where
  "timestamp_ok t = (MIN_TIMESTAMP_MILLIS \<le> t \<and> t \<le> MAX_TIMESTAMP_MILLIS)"

definition Timestamp_from_unix_millis :: "int \<Rightarrow> primitive_error + timestamp" where
  "Timestamp_from_unix_millis t =
     (if \<not> (MIN_TIMESTAMP_MILLIS \<le> t \<and> t \<le> MAX_TIMESTAMP_MILLIS) then Inl PE_TimestampOutOfRange
      else Inr t)"

definition MAX_ERROR_CODE_BYTES :: nat where "MAX_ERROR_CODE_BYTES = 64"

definition ErrorCode_ok :: "string \<Rightarrow> bool" where
  "ErrorCode_ok v = (v \<noteq> [] \<and> length v \<le> MAX_ERROR_CODE_BYTES
     \<and> list_all (\<lambda>c. is_ascii_lowercase c \<or> is_ascii_digit c
         \<or> c = CHR ''.'' \<or> c = CHR ''_'' \<or> c = CHR ''-'') v)"

definition ErrorCode_new :: "string \<Rightarrow> primitive_error + string" where
  "ErrorCode_new v = (if \<not> ErrorCode_ok v then Inl PE_InvalidErrorCode else Inr v)"

section \<open>Identifiers\<close>

type_synonym project_id = int
type_synonym organization_id = nat
type_synonym event_id = bytes
type_synonym dsn_key = bytes
type_synonym event_key = bytes

text \<open>\<open>v\<close> ranges over \<^verbatim>\<open>i32\<close>.\<close>

definition i32_ok :: "int \<Rightarrow> bool" where
  "i32_ok v = (- 2147483648 \<le> v \<and> v \<le> 2147483647)"

definition ProjectId_new :: "int \<Rightarrow> primitive_error + project_id" where
  "ProjectId_new v = (if v \<noteq> 0 \<and> 0 < v then Inr v else Inl PE_InvalidProjectId)"

definition project_id_ok :: "int \<Rightarrow> bool" where
  "project_id_ok v = (i32_ok v \<and> 0 < v)"

definition OrganizationId_new :: "nat \<Rightarrow> primitive_error + organization_id" where
  "OrganizationId_new v = (if v \<noteq> 0 \<and> v \<le> i64_max then Inr v else Inl PE_InvalidOrganizationId)"

fun has_pair :: "char \<Rightarrow> string \<Rightarrow> bool" where
  "has_pair x (a # b # cs) = ((a = x \<and> b = x) \<or> has_pair x (b # cs))"
| "has_pair x cs = False"

definition Slug_ok :: "string \<Rightarrow> bool" where
  "Slug_ok v = (v \<noteq> [] \<and> length v \<le> 63 \<and> is_ascii_alphanumeric (v ! 0)
     \<and> is_ascii_alphanumeric (v ! (length v - 1))
     \<and> list_all (\<lambda>c. is_ascii_lowercase c \<or> is_ascii_digit c \<or> c = CHR ''-'') v
     \<and> \<not> has_pair (CHR ''-'') v)"

definition Slug_new :: "string \<Rightarrow> primitive_error + string" where
  "Slug_new v = (if \<not> Slug_ok v then Inl PE_InvalidSlug else Inr v)"

definition parse_ingest_project_id :: "string \<Rightarrow> primitive_error + nat" where
  "parse_ingest_project_id v =
     (if v = [] \<or> length v > 20 \<or> \<not> list_all is_ascii_digit v then Inl PE_InvalidProjectId
      else case parse_unsigned 10 (Suc u64_max) v of
             None \<Rightarrow> Inl PE_InvalidProjectId
           | Some n \<Rightarrow> (if 0 < n then Inr n else Inl PE_InvalidProjectId))"

text \<open>\<open>decode\<close> is \<^verbatim>\<open>hex::decode_to_slice\<close> into a 16-byte buffer.\<close>

definition parse_hex_identifier :: "(string \<Rightarrow> bytes option) \<Rightarrow> string \<Rightarrow> bytes option" where
  "parse_hex_identifier decode v =
     (if length v \<noteq> 32 \<or> \<not> list_all is_ascii_hexdigit v then None else decode v)"

definition DsnKey_parse :: "(string \<Rightarrow> bytes option) \<Rightarrow> string \<Rightarrow> primitive_error + dsn_key" where
  "DsnKey_parse decode v = ok_or PE_InvalidDsnKey (parse_hex_identifier decode v)"

definition EventId_parse :: "(string \<Rightarrow> bytes option) \<Rightarrow> string \<Rightarrow> primitive_error + event_id" where
  "EventId_parse decode v = ok_or PE_InvalidEventId (parse_hex_identifier decode v)"

text \<open>The operations of \<^verbatim>\<open>url::Url\<close> that \<^verbatim>\<open>ExistingDsn::parse\<close> calls.\<close>

record 'u url_ops =
  url_parse :: "string \<Rightarrow> 'u option"
  url_scheme :: "'u \<Rightarrow> string"
  url_host_str :: "'u \<Rightarrow> string option"
  url_query :: "'u \<Rightarrow> string option"
  url_fragment :: "'u \<Rightarrow> string option"
  url_username :: "'u \<Rightarrow> string"
  url_path_segments :: "'u \<Rightarrow> string list option"
  url_clear_password :: "'u \<Rightarrow> 'u option"
  url_set_username :: "string \<Rightarrow> 'u \<Rightarrow> 'u option"
  url_to_string :: "'u \<Rightarrow> string"

record existing_dsn =
  dsn_key :: dsn_key
  dsn_project_id :: nat
  dsn_public :: string

definition iter_last :: "'a list \<Rightarrow> 'a option" where
  "iter_last xs = (if xs = [] then None else Some (last xs))"

definition ExistingDsn_parse ::
  "'u url_ops \<Rightarrow> (string \<Rightarrow> bytes option) \<Rightarrow> (bytes \<Rightarrow> string) \<Rightarrow> string
    \<Rightarrow> primitive_error + existing_dsn" where
  "ExistingDsn_parse U decode encode v =
     (if length v > 2048 then Inl PE_InvalidDsnKey else
      and_then (ok_or PE_InvalidDsnKey (url_parse U v)) (\<lambda>url.
      if url_scheme U url \<notin> {''http'', ''https''} \<or> url_host_str U url = None
         \<or> url_query U url \<noteq> None \<or> url_fragment U url \<noteq> None
      then Inl PE_InvalidDsnKey else
      and_then (DsnKey_parse decode (url_username U url)) (\<lambda>key.
      and_then (ok_or PE_InvalidProjectId (Option.bind (url_path_segments U url) iter_last)) (\<lambda>project.
      and_then (parse_ingest_project_id project) (\<lambda>project_id.
      and_then (ok_or PE_InvalidDsnKey (url_clear_password U url)) (\<lambda>url.
      and_then (ok_or PE_InvalidDsnKey (url_set_username U (encode key) url)) (\<lambda>url.
      Inr \<lparr>dsn_key = key, dsn_project_id = project_id, dsn_public = url_to_string U url\<rparr>)))))))"

section \<open>Project policy and accepted events\<close>

datatype ip_scrub_policy = Ip_Hmac | Ip_Keep | Ip_Remove | Ip_Truncate

datatype project_acceptance_state =
  Project_Active | Project_Disabled | Project_PendingDelete | Project_Purging | Project_Deleted

datatype project_key_state = Key_Active | Key_Disabled | Key_SuspendedByDeletion

record project_ingest_limits =
  pl_max_event_bytes :: nat
  pl_max_events_per_second :: "nat option"
  pl_burst :: "nat option"

definition ProjectIngestLimits_default :: project_ingest_limits where
  "ProjectIngestLimits_default =
     \<lparr>pl_max_event_bytes = 1024 * 1024, pl_max_events_per_second = None, pl_burst = None\<rparr>"

record scrub_policy =
  sp_revision :: nat
  sp_ip_policy :: ip_scrub_policy
  sp_hmac_key :: bytes

record item_capabilities =
  cap_error :: bool
  cap_client_report :: bool
  cap_log :: bool
  cap_transaction :: bool
  cap_span :: bool
  cap_feedback :: bool
  cap_check_in :: bool
  cap_metric :: bool
  cap_replay :: bool

record accepted_event =
  ae_project_id :: project_id
  ae_event_id :: event_id
  ae_received_at :: timestamp
  ae_policy_revision :: nat
  ae_payload :: bytes

section \<open>Event keys\<close>

definition event_id_ok :: "event_id \<Rightarrow> bool" where
  "event_id_ok e = (length e = 16)"

definition EventKey_new :: "project_id \<Rightarrow> event_id \<Rightarrow> event_key" where
  "EventKey_new p e = be_bytes_signed 4 p @ e"

definition EventKey_from_bytes :: "bytes \<Rightarrow> primitive_error + event_key" where
  "EventKey_from_bytes bs =
     and_then (ProjectId_new (from_be_signed 4 (take 4 bs))) (\<lambda>_. Inr bs)"

text \<open>The accessors; \<open>None\<close> is the panic of \<^verbatim>\<open>expect\<close>.\<close>

definition EventKey_project_id :: "event_key \<Rightarrow> project_id option" where
  "EventKey_project_id k = (case ProjectId_new (from_be_signed 4 (take 4 k)) of
     Inl _ \<Rightarrow> None | Inr p \<Rightarrow> Some p)"

definition EventKey_event_id :: "event_key \<Rightarrow> event_id" where
  "EventKey_event_id k = drop 4 k"

section \<open>Constructors accept exactly the values of their predicate\<close>

interpretation bounded_id: smart_constructor "BoundedId_new m" "BoundedId_ok m" for m
  by unfold_locales (auto simp: BoundedId_new_def BoundedId_ok_def)

interpretation byte_size: smart_constructor "ByteSize_new m" "\<lambda>n. n \<le> m" for m
  by unfold_locales (auto simp: ByteSize_new_def)

interpretation timestamp: smart_constructor Timestamp_from_unix_millis timestamp_ok
  by unfold_locales (auto simp: Timestamp_from_unix_millis_def timestamp_ok_def)

interpretation error_code: smart_constructor ErrorCode_new ErrorCode_ok
  by unfold_locales (auto simp: ErrorCode_new_def)

interpretation project_id: smart_constructor ProjectId_new "\<lambda>v. 0 < v"
  by unfold_locales (auto simp: ProjectId_new_def)

interpretation organization_id: smart_constructor OrganizationId_new "\<lambda>v. 0 < v \<and> v \<le> i64_max"
  by unfold_locales (auto simp: OrganizationId_new_def)

interpretation slug: smart_constructor Slug_new Slug_ok
  by unfold_locales (auto simp: Slug_new_def)

section \<open>Event keys are a faithful encoding\<close>

lemma from_be_project:
  "project_id_ok p \<Longrightarrow> from_be_signed 4 (take 4 (EventKey_new p e)) = p"
  by (simp add: EventKey_new_def from_be_bytes_signed project_id_ok_def i32_ok_def)

lemma EventKey_new_accessors:
  assumes "project_id_ok p"
  shows "EventKey_project_id (EventKey_new p e) = Some p"
    and "EventKey_event_id (EventKey_new p e) = e"
    and "EventKey_from_bytes (EventKey_new p e) = Inr (EventKey_new p e)"
  using assms from_be_project[OF assms, of e]
  by (auto simp: EventKey_project_id_def EventKey_event_id_def EventKey_from_bytes_def
      project_id.new_iff project_id_ok_def ProjectId_new_def EventKey_new_def)

lemma EventKey_eq_iff:
  "project_id_ok p \<Longrightarrow> project_id_ok q \<Longrightarrow>
     EventKey_new p e = EventKey_new q f \<longleftrightarrow> p = q \<and> e = f"
  by (metis EventKey_new_accessors(1,2) option.inject)

lemma length_EventKey_new: "event_id_ok e \<Longrightarrow> length (EventKey_new p e) = 20"
  by (simp add: EventKey_new_def event_id_ok_def)

text \<open>
  The 20-byte event key is a faithful encoding of a project and an event identifier: it has 20
  bytes, the validating constructor accepts it, both accessors return what was put in without a
  panic, and two keys are equal only when both parts are.
\<close>
theorem event_key_round_trip:
  assumes "project_id_ok p" "event_id_ok e"
  shows "length (EventKey_new p e) = 20
    \<and> EventKey_from_bytes (EventKey_new p e) = Inr (EventKey_new p e)
    \<and> EventKey_project_id (EventKey_new p e) = Some p
    \<and> EventKey_event_id (EventKey_new p e) = e
    \<and> (\<forall>q f. project_id_ok q \<longrightarrow> (EventKey_new p e = EventKey_new q f \<longleftrightarrow> p = q \<and> e = f))"
  using assms by (auto simp: EventKey_new_accessors length_EventKey_new EventKey_eq_iff)

theorem event_key_round_trip_witness:
  "EventKey_project_id (EventKey_new 16909060 (replicate 16 7)) = Some 16909060
    \<and> take 4 (EventKey_new 16909060 (replicate 16 7)) = [1, 2, 3, 4]"
proof -
  have "project_id_ok 16909060" "event_id_ok (replicate 16 7)"
    by (simp_all add: project_id_ok_def i32_ok_def event_id_ok_def)
  moreover have "take 4 (EventKey_new 16909060 (replicate 16 7)) = [1, 2, 3, 4]"
    by (simp add: EventKey_new_def be_bytes_signed_def be_bytes_numeral)
  ultimately show ?thesis using event_key_round_trip by blast
qed

section \<open>Slugs\<close>

lemma split_on_inner_nonempty:
  "[] \<notin> set (tl (split_on x v)) \<longleftrightarrow> \<not> has_pair x v \<and> (v = [] \<or> last v \<noteq> x)"
proof (induction v)
  case (Cons c cs)
  obtain w ws where sp: "split_on x cs = w # ws" by (cases "split_on x cs") auto
  have w: "w = [] \<longleftrightarrow> cs = [] \<or> hd cs = x"
    using sp by (cases cs) (auto split: if_splits list.splits)
  show ?case using Cons.IH sp w by (cases cs) auto
qed simp

lemma split_on_nonempty:
  "[] \<notin> set (split_on x v) \<longleftrightarrow> v \<noteq> [] \<and> hd v \<noteq> x \<and> last v \<noteq> x \<and> \<not> has_pair x v"
proof -
  obtain w ws where sp: "split_on x v = w # ws" by (cases "split_on x v") auto
  have "w = [] \<longleftrightarrow> v = [] \<or> hd v = x"
    using sp by (cases v) (auto split: if_splits list.splits)
  with split_on_inner_nonempty[of x v] sp show ?thesis by auto
qed

abbreviation slug_char :: "char \<Rightarrow> bool" where
  "slug_char c \<equiv> is_ascii_lowercase c \<or> is_ascii_digit c"

lemma slug_char_hyphen: "\<not> slug_char (CHR ''-'')" "\<not> is_ascii_alphanumeric (CHR ''-'')"
  by (simp_all add: ascii_defs)

lemma set_join: "set (join sep ws) \<subseteq> \<Union> (set ` set ws) \<union> set sep"
  by (induction sep ws rule: join.induct) auto

lemma Slug_ok_iff_words:
  "Slug_ok v \<longleftrightarrow> length v \<le> 63 \<and> (\<exists>ws. ws \<noteq> [] \<and> v = join ''-'' ws
     \<and> (\<forall>w\<in>set ws. w \<noteq> [] \<and> list_all slug_char w))" (is "_ \<longleftrightarrow> ?R")
proof
  assume ok: "Slug_ok v"
  then have ends: "v \<noteq> []" "hd v \<noteq> CHR ''-''" "last v \<noteq> CHR ''-''" "\<not> has_pair (CHR ''-'') v"
    using slug_char_hyphen(2) by (auto simp: Slug_ok_def hd_conv_nth last_conv_nth)
  let ?ws = "split_on (CHR ''-'') v"
  have join: "join ''-'' ?ws = v" by (rule join_split_on)
  have "c = CHR ''-'' \<or> slug_char c" if "c \<in> set v" for c
    using ok that by (auto simp: Slug_ok_def list_all_iff)
  moreover have "set w \<subseteq> set v" if "w \<in> set ?ws" for w
    using that by (induction v arbitrary: w) (fastforce split: if_splits list.splits)+
  ultimately have "list_all slug_char w" if "w \<in> set ?ws" for w
    using that split_by_free[of "\<lambda>c. c = CHR ''-''" v] by (fastforce simp: list_all_iff)
  moreover have "[] \<notin> set ?ws" using ends by (simp add: split_on_nonempty)
  ultimately show ?R using ok join by (intro conjI exI[of _ ?ws]) (auto simp: Slug_ok_def)
next
  assume ?R
  then obtain ws where ws: "length v \<le> 63" "ws \<noteq> []" "v = join ''-'' ws"
    and w: "\<And>w. w \<in> set ws \<Longrightarrow> w \<noteq> [] \<and> list_all slug_char w" by blast
  have "split_on (CHR ''-'') v = ws"
    using ws w slug_char_hyphen(1) by (auto intro!: split_on_join simp: list_all_iff)
  with w have ends: "v \<noteq> []" "hd v \<noteq> CHR ''-''" "last v \<noteq> CHR ''-''" "\<not> has_pair (CHR ''-'') v"
    using split_on_nonempty[of "CHR ''-''" v] by auto
  have chars: "slug_char c \<or> c = CHR ''-''" if "c \<in> set v" for c
    using that ws(3) w set_join[of "''-''" ws] by (fastforce simp: list_all_iff)
  have "slug_char (hd v)" "slug_char (last v)"
    using ends chars[of "hd v"] chars[of "last v"] by auto
  with ends chars ws show "Slug_ok v"
    by (auto simp: Slug_ok_def list_all_iff hd_conv_nth last_conv_nth is_ascii_alphanumeric_def
        is_ascii_alphabetic_def)
qed

text \<open>
  A route slug is accepted exactly when it is a sequence of non-empty words over lower-case
  letters and digits joined by single hyphens, of at most 63 bytes, and it is stored unchanged.
\<close>
theorem slug_new_words:
  "Slug_new v = Inr s \<longleftrightarrow> s = v \<and> length v \<le> 63 \<and> (\<exists>ws. ws \<noteq> [] \<and> v = join ''-'' ws
     \<and> (\<forall>w\<in>set ws. w \<noteq> [] \<and> list_all (\<lambda>c. is_ascii_lowercase c \<or> is_ascii_digit c) w))"
  by (simp only: slug.new_iff Slug_ok_iff_words)

theorem slug_new_words_witness: "Slug_new ''error-service'' = Inr ''error-service''"
proof -
  have "''error-service'' = join ''-'' [''error'', ''service'']" by simp
  moreover have "\<forall>w\<in>set [''error'', ''service'']. w \<noteq> [] \<and> list_all slug_char w"
    by (simp add: ascii_defs)
  ultimately have "\<exists>ws. ws \<noteq> [] \<and> ''error-service'' = join ''-'' ws
      \<and> (\<forall>w\<in>set ws. w \<noteq> [] \<and> list_all slug_char w)"
    by blast
  then show ?thesis by (simp only: slug_new_words) simp
qed

section \<open>Sizes and wire identifiers\<close>

lemma dec_string_graphic: "c \<in> set (dec_string n) \<Longrightarrow> 32 < code_of c \<and> code_of c < 127"
  by (drule dec_string_digits) (simp add: is_ascii_digit_def)

lemma list_all_dec_string: "list_all is_ascii_digit (dec_string n)"
  by (auto simp: list_all_iff dec_string_digits)

lemma takeWhile_dec_string:
  assumes "u = [] \<or> \<not> is_ascii_digit (hd u)"
  shows "takeWhile is_ascii_digit (dec_string n @ u) = dec_string n"
    and "dropWhile is_ascii_digit (dec_string n @ u) = u"
  using assms dec_string_digits[of _ n]
  by (auto simp: takeWhile_append2 takeWhile_eq_Nil_iff dropWhile_eq_self_iff)

lemma byte_unit_letters:
  assumes "byte_unit (to_ascii_lowercase u) = Some k" "c \<in> set u"
  shows "is_ascii_alphabetic c"
proof -
  have "ascii_lower c \<in> set (to_ascii_lowercase u)" using assms(2) by (simp add: to_ascii_lowercase_def)
  moreover have "to_ascii_lowercase u \<in> {'''', ''b'', ''kb'', ''mb'', ''gb'', ''kib'', ''mib'', ''gib''}"
    using assms(1) by (auto simp: byte_unit_def split: if_splits)
  ultimately have "is_ascii_lowercase (ascii_lower c)" by (auto simp: is_ascii_lowercase_def)
  then show ?thesis by (auto simp: ascii_lower_def is_ascii_alphabetic_def split: if_splits)
qed

lemma ascii_alphabetic_graphic:
  "is_ascii_alphabetic c \<Longrightarrow> 32 < code_of c \<and> code_of c < 127 \<and> \<not> is_ascii_digit c"
  by (auto simp: ascii_defs)

lemma byte_unit_pos: "byte_unit u = Some k \<Longrightarrow> 0 < k"
  by (auto simp: byte_unit_def split: if_splits)

text \<open>
  A byte size written as a decimal number and a unit, in any letter case, is the number times
  the unit when that product fits in 64 bits and is then subject to the owner's bound; a product
  that overflows is rejected, never wrapped.
\<close>
theorem byte_size_from_str_exact:
  assumes "byte_unit (to_ascii_lowercase u) = Some k"
  shows "ByteSize_from_str m (dec_string n @ u) =
     (if n * k \<le> u64_max then ByteSize_new m (n * k) else Inl PE_InvalidByteSize)"
proof -
  note letters = ascii_alphabetic_graphic[OF byte_unit_letters[OF assms]]
  have trim: "str_trim (dec_string n @ u) = dec_string n @ u" "str_trim u = u"
    using letters dec_string_graphic by (auto intro!: str_trim_graphic)
  have unit: "u = [] \<or> \<not> is_ascii_digit (hd u)"
    using letters by (cases u) auto
  have "n \<le> n * k" using byte_unit_pos[OF assms] by simp
  then have "n * k \<le> u64_max \<Longrightarrow> n \<le> u64_max" by linarith
  then show ?thesis
    using assms
    by (auto simp: ByteSize_from_str_def trim takeWhile_dec_string[OF unit] Let_def
        parse_unsigned_digits_of checked_mul_u64_def)
qed

theorem byte_size_from_str_exact_witness:
  "ByteSize_from_str 2048 (dec_string 2 @ ''KiB'') = Inr 2048
    \<and> ByteSize_from_str u64_max (dec_string u64_max @ ''GiB'') = Inl PE_InvalidByteSize"
proof -
  have "byte_unit (to_ascii_lowercase ''KiB'') = Some 1024"
    and "byte_unit (to_ascii_lowercase ''GiB'') = Some 1073741824"
    by (simp_all add: to_ascii_lowercase_def ascii_lower_def is_ascii_uppercase_def byte_unit_def
        char_of_eq_iff)
  from this[THEN byte_size_from_str_exact] show ?thesis by (simp add: ByteSize_new_def)
qed

text \<open>
  Printing an ingest project number and parsing it again gives the number back exactly when it
  is a non-zero 64-bit value; zero and every larger number are refused.
\<close>
theorem ingest_project_id_round_trip:
  "parse_ingest_project_id (dec_string n) =
     (if 0 < n \<and> n \<le> u64_max then Inr n else Inl PE_InvalidProjectId)"
proof -
  have "n \<le> u64_max \<Longrightarrow> length (dec_string n) \<le> 20"
    by (rule length_digits_of) auto
  then show ?thesis
    by (auto simp: parse_ingest_project_id_def list_all_dec_string parse_unsigned_digits_of)
qed

section \<open>Hexadecimal identifiers\<close>

text \<open>
  The documented behaviour of the \<^verbatim>\<open>hex\<close> crate: two lower-case digits per byte, and a decoder
  that accepts either letter case.
\<close>

definition lower_hex :: "char \<Rightarrow> bool" where
  "lower_hex c = (is_ascii_digit c \<or> (97 \<le> code_of c \<and> code_of c \<le> 102))"

definition hex_laws :: "(bytes \<Rightarrow> string) \<Rightarrow> (string \<Rightarrow> bytes option) \<Rightarrow> bool" where
  "hex_laws encode decode = ((\<forall>b. decode (encode b) = Some b)
     \<and> (\<forall>b. length (encode b) = 2 * length b) \<and> (\<forall>b. list_all lower_hex (encode b))
     \<and> (\<forall>s b. decode s = Some b \<longrightarrow> encode b = to_ascii_lowercase s))"

lemma lower_hex_hexdigit: "lower_hex c \<Longrightarrow> is_ascii_hexdigit c"
  by (auto simp: lower_hex_def is_ascii_hexdigit_def)

lemma parse_hex_identifier_encode:
  "hex_laws encode decode \<Longrightarrow> length b = 16 \<Longrightarrow> parse_hex_identifier decode (encode b) = Some b"
  by (auto simp: hex_laws_def parse_hex_identifier_def list_all_iff lower_hex_hexdigit)

lemma parse_hex_identifier_length:
  assumes "hex_laws encode decode" "parse_hex_identifier decode v = Some b"
  shows "length b = 16 \<and> encode b = to_ascii_lowercase v"
proof -
  have enc: "encode b = to_ascii_lowercase v" and len: "length (encode b) = 2 * length b"
    and v: "length v = 32"
    using assms by (auto simp: hex_laws_def parse_hex_identifier_def split: if_splits)
  from enc v have "length (encode b) = 32" by simp
  with enc len show ?thesis by simp
qed

text \<open>A codec with these laws, on which the properties below are evaluated.\<close>

definition hex_encode16 :: "bytes \<Rightarrow> string" where
  "hex_encode16 b = concat (map (\<lambda>w. [digit_char (unat w div 16), digit_char (unat w mod 16)]) b)"

fun hex_decode16 :: "string \<Rightarrow> bytes option" where
  "hex_decode16 [] = Some []"
| "hex_decode16 [c] = None"
| "hex_decode16 (c # d # s) =
     (case (to_digit 16 c, to_digit 16 d, hex_decode16 s) of
        (Some x, Some y, Some b) \<Rightarrow> Some (word_of_nat (x * 16 + y) # b)
      | _ \<Rightarrow> None)"

lemma hex_digit_lower:
  "to_digit 16 c = Some x \<Longrightarrow> digit_char x = ascii_lower c"
  unfolding to_digit_def digit_char_def ascii_lower_def
  by (auto simp: ascii_defs Let_def split: if_splits)

lemma unat_byte_digits:
  assumes "x < 16" "y < 16"
  shows "unat (word_of_nat x * 16 + word_of_nat y :: u8) = x * 16 + y"
proof -
  have "(word_of_nat x * 16 + word_of_nat y :: u8) = word_of_nat (x * 16 + y)" by simp
  also have "unat \<dots> = (x * 16 + y) mod 256" by (simp only: unat_of_nat) simp
  finally show ?thesis using assms by simp
qed

lemma byte_div16: "unat (w :: u8) div 16 < 16"
  using unsigned_less[of w, where 'a = nat] by (simp add: less_mult_imp_div_less)

lemma hex_decode16_encode16: "hex_decode16 (hex_encode16 b) = Some b"
proof (induction b)
  case (Cons w b)
  then show ?case using byte_div16[of w] by (simp add: hex_encode16_def to_digit_digit_char)
qed (simp add: hex_encode16_def)

lemma hex_encode16_decode16: "hex_decode16 s = Some b \<Longrightarrow> hex_encode16 b = to_ascii_lowercase s"
proof (induction s arbitrary: b rule: hex_decode16.induct)
  case (3 c d s)
  then obtain x y b' where "to_digit 16 c = Some x" "to_digit 16 d = Some y"
    "hex_decode16 s = Some b'" "b = word_of_nat (x * 16 + y) # b'"
    by (auto split: option.splits)
  then show ?case
    using 3 to_digit_less[of 16 c x] to_digit_less[of 16 d y]
    by (auto simp: hex_encode16_def unat_byte_digits hex_digit_lower to_ascii_lowercase_def)
qed (auto simp: hex_encode16_def to_ascii_lowercase_def)

lemma length_hex_encode16: "length (hex_encode16 b) = 2 * length b"
  by (induction b) (auto simp: hex_encode16_def)

lemma lower_hex_encode16: "list_all lower_hex (hex_encode16 b)"
proof -
  have "lower_hex (digit_char d)" if "d < 16" for d
    using that by (auto simp: lower_hex_def is_ascii_digit_def digit_char_def of_char_of)
  with byte_div16 show ?thesis by (induction b) (auto simp: hex_encode16_def)
qed

lemma hex_laws16: "hex_laws hex_encode16 hex_decode16"
  by (simp add: hex_laws_def hex_decode16_encode16 hex_encode16_decode16 length_hex_encode16
      lower_hex_encode16)

text \<open>
  Event identifiers are canonical on the wire: every 16-byte identifier parses back from its
  printed form, and a text that is accepted denotes a 16-byte identifier whose printed form is the
  text in lower case.
\<close>
theorem event_id_wire_round_trip:
  assumes "hex_laws encode decode"
  shows "(\<forall>e. event_id_ok e \<longrightarrow> EventId_parse decode (encode e) = Inr e)
    \<and> (\<forall>v e. EventId_parse decode v = Inr e \<longrightarrow> event_id_ok e \<and> encode e = to_ascii_lowercase v)"
  using parse_hex_identifier_encode[OF assms] parse_hex_identifier_length[OF assms]
  by (auto simp: EventId_parse_def event_id_ok_def result_simps)

theorem event_id_wire_round_trip_witness:
  "EventId_parse hex_decode16 (hex_encode16 (replicate 16 171)) = Inr (replicate 16 171)
    \<and> hex_encode16 [171] = ''ab''"
proof -
  have "event_id_ok (replicate 16 171)" by (simp add: event_id_ok_def)
  with event_id_wire_round_trip[OF hex_laws16]
  have "EventId_parse hex_decode16 (hex_encode16 (replicate 16 171)) = Inr (replicate 16 171)" by blast
  then show ?thesis by (simp add: hex_encode16_def digit_char_def char_of_eq_iff)
qed

end
