(* ===== verification/Inbound_Filter.thy ===== *)
theory Inbound_Filter
  imports Inbound_Matchers Primitives
begin

text \<open>
  Project inbound filters, \<^verbatim>\<open>crates/domain/src/inbound_filter.rs\<close>: rules, their compilation into
  per-signal matcher lists, and the match of the fields of an incoming item. A panic (an index out of
  bounds in a search) is the outer \<open>None\<close>; the theorems show that no accepted policy panics.
\<close>

section \<open>Rules\<close>

datatype filter_signal = Sig_Error | Sig_Log | Sig_Transaction | Sig_Span

definition filter_signal_as_str :: "filter_signal \<Rightarrow> string" where
  "filter_signal_as_str s = (case s of Sig_Error \<Rightarrow> ''error'' | Sig_Log \<Rightarrow> ''log''
     | Sig_Transaction \<Rightarrow> ''transaction'' | Sig_Span \<Rightarrow> ''span'')"

datatype filter_field =
    Fld_Release | Fld_Environment | Fld_Service | Fld_Message | Fld_ExceptionType | Fld_Logger
  | Fld_RequestHost | Fld_RequestPath | Fld_Severity | Fld_Name | Fld_Operation | Fld_Status
  | Fld_Duration

definition filter_field_as_str :: "filter_field \<Rightarrow> string" where
  "filter_field_as_str f = (case f of Fld_Release \<Rightarrow> ''release'' | Fld_Environment \<Rightarrow> ''environment''
     | Fld_Service \<Rightarrow> ''service'' | Fld_Message \<Rightarrow> ''message'' | Fld_ExceptionType \<Rightarrow> ''exception_type''
     | Fld_Logger \<Rightarrow> ''logger'' | Fld_RequestHost \<Rightarrow> ''request_host'' | Fld_RequestPath \<Rightarrow> ''request_path''
     | Fld_Severity \<Rightarrow> ''severity'' | Fld_Name \<Rightarrow> ''name'' | Fld_Operation \<Rightarrow> ''operation''
     | Fld_Status \<Rightarrow> ''status'' | Fld_Duration \<Rightarrow> ''duration'')"

definition accepted_by :: "filter_field \<Rightarrow> filter_signal \<Rightarrow> bool" where
  "accepted_by f s = (case f of
       Fld_Release \<Rightarrow> True | Fld_Environment \<Rightarrow> True | Fld_Service \<Rightarrow> True
     | Fld_Message \<Rightarrow> s = Sig_Error \<or> s = Sig_Log
     | Fld_ExceptionType \<Rightarrow> s = Sig_Error | Fld_Logger \<Rightarrow> s = Sig_Error
     | Fld_RequestHost \<Rightarrow> s = Sig_Error | Fld_RequestPath \<Rightarrow> s = Sig_Error
     | Fld_Severity \<Rightarrow> s = Sig_Log
     | Fld_Name \<Rightarrow> s = Sig_Transaction \<or> s = Sig_Span
     | Fld_Operation \<Rightarrow> s = Sig_Transaction \<or> s = Sig_Span
     | Fld_Status \<Rightarrow> s = Sig_Transaction \<or> s = Sig_Span
     | Fld_Duration \<Rightarrow> s = Sig_Transaction \<or> s = Sig_Span)"

datatype filter_operation = Op_Exact | Op_Prefix | Op_Suffix | Op_Contains | Op_Glob

definition filter_operation_as_str :: "filter_operation \<Rightarrow> string" where
  "filter_operation_as_str f = (case f of Op_Exact \<Rightarrow> ''exact'' | Op_Prefix \<Rightarrow> ''prefix''
     | Op_Suffix \<Rightarrow> ''suffix'' | Op_Contains \<Rightarrow> ''contains'' | Op_Glob \<Rightarrow> ''glob'')"

record filter_rule =
  fr_signal :: filter_signal
  fr_field :: filter_field
  fr_operation :: filter_operation
  fr_pattern :: string

datatype inbound_filter_error =
  TooManyRules | FieldUnavailable | InvalidPattern | InvalidDuration | InvalidDurationOperation
  | PolicyTooLarge

section \<open>Matchers\<close>

datatype compiled_matcher =
    M_Exact string
  | M_Prefix string
  | M_Suffix string
  | M_Contains string "nat list"
  | M_Glob string
  | M_Duration int

definition CompiledMatcher_compile ::
  "filter_field \<Rightarrow> filter_operation \<Rightarrow> string \<Rightarrow> (inbound_filter_error + compiled_matcher) option" where
  "CompiledMatcher_compile f op pat =
     (if f = Fld_Duration then
        Some (case parse_signed 10 (2 ^ 63) pat of Some d \<Rightarrow> Inr (M_Duration d) | None \<Rightarrow> Inl InvalidDuration)
      else (case op of
          Op_Exact \<Rightarrow> Some (Inr (M_Exact pat))
        | Op_Prefix \<Rightarrow> Some (Inr (M_Prefix pat))
        | Op_Suffix \<Rightarrow> Some (Inr (M_Suffix pat))
        | Op_Contains \<Rightarrow> map_option (\<lambda>pre. Inr (M_Contains pat pre)) (kmp_prefix pat)
        | Op_Glob \<Rightarrow> Some (Inr (M_Glob pat))))"

definition compiled_bytes :: "compiled_matcher \<Rightarrow> nat" where
  "compiled_bytes m = (case m of
       M_Exact p \<Rightarrow> length p | M_Prefix p \<Rightarrow> length p | M_Suffix p \<Rightarrow> length p | M_Glob p \<Rightarrow> length p
     | M_Contains p pre \<Rightarrow> length p + length pre * 8
     | M_Duration _ \<Rightarrow> 8)"

definition matcher_matches :: "compiled_matcher \<Rightarrow> string \<Rightarrow> bool option" where
  "matcher_matches m v = (case m of
       M_Exact p \<Rightarrow> Some (v = p)
     | M_Prefix p \<Rightarrow> Some (prefix p v)
     | M_Suffix p \<Rightarrow> Some (suffix p v)
     | M_Contains p pre \<Rightarrow> kmp_contains v p pre
     | M_Glob p \<Rightarrow> glob_matches p v
     | M_Duration _ \<Rightarrow> Some False)"

definition matches_duration :: "compiled_matcher \<Rightarrow> int \<Rightarrow> bool" where
  "matches_duration m v = (case m of M_Duration d \<Rightarrow> d = v | _ \<Rightarrow> False)"

section \<open>Policies\<close>

record compiled_rule =
  cr_signal :: filter_signal
  cr_field :: filter_field
  cr_matcher :: compiled_matcher

record compiled_policy =
  cp_error :: "compiled_rule list"
  cp_log :: "compiled_rule list"
  cp_transaction :: "compiled_rule list"
  cp_span :: "compiled_rule list"

definition CompiledInboundFilterPolicy_default :: compiled_policy where
  "CompiledInboundFilterPolicy_default =
     \<lparr>cp_error = [], cp_log = [], cp_transaction = [], cp_span = []\<rparr>"

definition policy_rules :: "compiled_policy \<Rightarrow> filter_signal \<Rightarrow> compiled_rule list" where
  "policy_rules c s = (case s of Sig_Error \<Rightarrow> cp_error c | Sig_Log \<Rightarrow> cp_log c
     | Sig_Transaction \<Rightarrow> cp_transaction c | Sig_Span \<Rightarrow> cp_span c)"

definition push_rule :: "filter_signal \<Rightarrow> compiled_rule \<Rightarrow> compiled_policy \<Rightarrow> compiled_policy" where
  "push_rule s r c = (case s of
       Sig_Error \<Rightarrow> c\<lparr>cp_error := cp_error c @ [r]\<rparr>
     | Sig_Log \<Rightarrow> c\<lparr>cp_log := cp_log c @ [r]\<rparr>
     | Sig_Transaction \<Rightarrow> c\<lparr>cp_transaction := cp_transaction c @ [r]\<rparr>
     | Sig_Span \<Rightarrow> c\<lparr>cp_span := cp_span c @ [r]\<rparr>)"

definition policy_is_empty :: "compiled_policy \<Rightarrow> bool" where
  "policy_is_empty c = (cp_error c = [] \<and> cp_log c = [] \<and> cp_transaction c = [] \<and> cp_span c = [])"

definition has_signal :: "compiled_policy \<Rightarrow> filter_signal \<Rightarrow> bool" where
  "has_signal c s = (policy_rules c s \<noteq> [])"

definition has_field :: "compiled_policy \<Rightarrow> filter_signal \<Rightarrow> filter_field \<Rightarrow> bool" where
  "has_field c s f = list_ex (\<lambda>r. cr_field r = f) (policy_rules c s)"

definition MAX_INBOUND_FILTER_RULES :: nat where "MAX_INBOUND_FILTER_RULES = 32"
definition MAX_INBOUND_FILTER_PATTERN_BYTES :: nat where "MAX_INBOUND_FILTER_PATTERN_BYTES = 256"
definition MAX_COMPILED_INBOUND_FILTER_BYTES :: nat where
  "MAX_COMPILED_INBOUND_FILTER_BYTES = 8 * 1024"

text \<open>The loop of \<^verbatim>\<open>InboundFilterPolicy::compile\<close> with its two accumulators.\<close>

fun compile_rules :: "filter_rule list \<Rightarrow> nat \<Rightarrow> compiled_policy
    \<Rightarrow> (inbound_filter_error + compiled_policy) option" where
  "compile_rules [] n c = Some (Inr c)"
| "compile_rules (r # rs) n c =
     (if \<not> accepted_by (fr_field r) (fr_signal r) then Some (Inl FieldUnavailable)
      else if fr_pattern r = [] \<or> length (fr_pattern r) > MAX_INBOUND_FILTER_PATTERN_BYTES
              \<or> has_control (fr_pattern r) then Some (Inl InvalidPattern)
      else if fr_field r = Fld_Duration \<and> fr_operation r \<noteq> Op_Exact
           then Some (Inl InvalidDurationOperation)
      else Option.bind (CompiledMatcher_compile (fr_field r) (fr_operation r) (fr_pattern r)) (\<lambda>res.
        case res of Inl e \<Rightarrow> Some (Inl e)
        | Inr m \<Rightarrow> (let n' = n + compiled_bytes m in
            if n' > u64_max then Some (Inl PolicyTooLarge)
            else if n' > MAX_COMPILED_INBOUND_FILTER_BYTES then Some (Inl PolicyTooLarge)
            else compile_rules rs n' (push_rule (fr_signal r)
                   \<lparr>cr_signal = fr_signal r, cr_field = fr_field r, cr_matcher = m\<rparr> c))))"

definition InboundFilterPolicy_compile ::
  "filter_rule list \<Rightarrow> (inbound_filter_error + compiled_policy) option" where
  "InboundFilterPolicy_compile rules =
     (if length rules > MAX_INBOUND_FILTER_RULES then Some (Inl TooManyRules)
      else compile_rules rules 0 CompiledInboundFilterPolicy_default)"

definition InboundFilterPolicy_new ::
  "filter_rule list \<Rightarrow> (inbound_filter_error + filter_rule list) option" where
  "InboundFilterPolicy_new rules =
     Option.bind (InboundFilterPolicy_compile rules) (\<lambda>res. Some (and_then res (\<lambda>_. Inr rules)))"

section \<open>Matching\<close>

record filter_fields =
  ff_signal :: filter_signal
  ff_release :: "string option"
  ff_environment :: "string option"
  ff_service :: "string option"
  ff_message :: "string option"
  ff_exception_type :: "string option"
  ff_logger :: "string option"
  ff_request_host :: "string option"
  ff_request_path :: "string option"
  ff_severity :: "string option"
  ff_name :: "string option"
  ff_operation :: "string option"
  ff_status :: "string option"
  ff_duration_ms :: "int option"

definition InboundFilterFields_empty :: "filter_signal \<Rightarrow> filter_fields" where
  "InboundFilterFields_empty s =
     \<lparr>ff_signal = s, ff_release = None, ff_environment = None, ff_service = None, ff_message = None,
      ff_exception_type = None, ff_logger = None, ff_request_host = None, ff_request_path = None,
      ff_severity = None, ff_name = None, ff_operation = None, ff_status = None,
      ff_duration_ms = None\<rparr>"

definition fields_text :: "filter_fields \<Rightarrow> filter_field \<Rightarrow> string option" where
  "fields_text ff f = (case f of
       Fld_Release \<Rightarrow> ff_release ff | Fld_Environment \<Rightarrow> ff_environment ff
     | Fld_Service \<Rightarrow> ff_service ff | Fld_Message \<Rightarrow> ff_message ff
     | Fld_ExceptionType \<Rightarrow> ff_exception_type ff | Fld_Logger \<Rightarrow> ff_logger ff
     | Fld_RequestHost \<Rightarrow> ff_request_host ff | Fld_RequestPath \<Rightarrow> ff_request_path ff
     | Fld_Severity \<Rightarrow> ff_severity ff | Fld_Name \<Rightarrow> ff_name ff | Fld_Operation \<Rightarrow> ff_operation ff
     | Fld_Status \<Rightarrow> ff_status ff | Fld_Duration \<Rightarrow> None)"

definition rule_matches :: "compiled_rule \<Rightarrow> filter_fields \<Rightarrow> bool option" where
  "rule_matches r ff =
     (if cr_field r = Fld_Duration
      then Some (is_some_and (ff_duration_ms ff) (matches_duration (cr_matcher r)))
      else (case fields_text ff (cr_field r) of
              None \<Rightarrow> Some False | Some v \<Rightarrow> matcher_matches (cr_matcher r) v))"

record filter_match =
  fm_signal :: filter_signal
  fm_field :: filter_field

fun find_rule :: "compiled_rule list \<Rightarrow> filter_fields \<Rightarrow> filter_match option option" where
  "find_rule [] ff = Some None"
| "find_rule (r # rs) ff = Option.bind (rule_matches r ff) (\<lambda>b.
     if b then Some (Some \<lparr>fm_signal = cr_signal r, fm_field = cr_field r\<rparr>) else find_rule rs ff)"

definition policy_matches :: "compiled_policy \<Rightarrow> filter_fields \<Rightarrow> filter_match option option" where
  "policy_matches c ff = find_rule (policy_rules c (ff_signal ff)) ff"

section \<open>Compilation\<close>

text \<open>What a rule means, on its source text.\<close>

definition rule_spec :: "filter_rule \<Rightarrow> filter_fields \<Rightarrow> bool" where
  "rule_spec r ff =
     (if fr_field r = Fld_Duration
      then is_some_and (ff_duration_ms ff) (\<lambda>v. parse_signed 10 (2 ^ 63) (fr_pattern r) = Some v)
      else is_some_and (fields_text ff (fr_field r)) (\<lambda>v.
        case fr_operation r of
          Op_Exact \<Rightarrow> v = fr_pattern r
        | Op_Prefix \<Rightarrow> prefix (fr_pattern r) v
        | Op_Suffix \<Rightarrow> suffix (fr_pattern r) v
        | Op_Contains \<Rightarrow> sublist (fr_pattern r) v
        | Op_Glob \<Rightarrow> glob_reference (fr_pattern r) v))"

abbreviation compile_rule :: "filter_rule \<Rightarrow> (inbound_filter_error + compiled_matcher) option" where
  "compile_rule r \<equiv> CompiledMatcher_compile (fr_field r) (fr_operation r) (fr_pattern r)"

abbreviation compiled_as :: "filter_rule \<Rightarrow> compiled_matcher \<Rightarrow> compiled_rule" where
  "compiled_as r m \<equiv> \<lparr>cr_signal = fr_signal r, cr_field = fr_field r, cr_matcher = m\<rparr>"

definition star_free :: "filter_fields \<Rightarrow> bool" where
  "star_free ff = (\<forall>f v. fields_text ff f = Some v \<longrightarrow> CHR ''*'' \<notin> set v)"

lemma compile_rule_total: "fr_pattern r \<noteq> [] \<Longrightarrow> compile_rule r \<noteq> None"
  using kmp_prefix_ok[of "fr_pattern r"]
  by (auto simp: CompiledMatcher_compile_def split: filter_operation.split)

lemma rule_matches_total:
  assumes "compile_rule r = Some (Inr m)" "fr_pattern r \<noteq> []"
  shows "rule_matches (compiled_as r m) ff \<noteq> None"
  using assms glob_matches_total
  by (auto simp: CompiledMatcher_compile_def rule_matches_def matcher_matches_def kmp_search
      split: if_splits filter_operation.splits option.splits)

lemma rule_matches_spec:
  assumes "compile_rule r = Some (Inr m)" "fr_pattern r \<noteq> []" "star_free ff"
  shows "rule_matches (compiled_as r m) ff = Some (rule_spec r ff)"
proof (cases "fr_field r = Fld_Duration")
  case True
  with assms(1) show ?thesis
    by (auto simp: CompiledMatcher_compile_def rule_matches_def rule_spec_def matches_duration_def
        is_some_and_def split: option.splits)
next
  case False
  have glob: "glob_matches p v = Some (glob_reference p v)" if "fields_text ff (fr_field r) = Some v" for p v
    using glob_loop_exact[of v p] that assms(3) by (auto simp: star_free_def)
  from False assms(1,2) show ?thesis
    by (auto simp: CompiledMatcher_compile_def rule_matches_def rule_spec_def matcher_matches_def
        kmp_search glob split: filter_operation.splits option.splits)
qed

lemma policy_rules_push:
  "policy_rules (push_rule s r c) s' = policy_rules c s' @ (if s = s' then [r] else [])"
  by (cases s; cases s') (auto simp: policy_rules_def push_rule_def)

lemma policy_rules_default: "policy_rules CompiledInboundFilterPolicy_default s = []"
  by (cases s) (auto simp: policy_rules_def CompiledInboundFilterPolicy_default_def)

lemma compile_rules_total: "compile_rules rs n c \<noteq> None"
proof (induction rs n c rule: compile_rules.induct)
  case (2 r rs n c)
  then show ?case using compile_rule_total[of r] by (auto simp: Let_def split: sum.split)
qed simp

lemma compile_rules_Cons:
  assumes "compile_rules (r # rs) n c = Some (Inr c')"
  obtains m where "compile_rule r = Some (Inr m)" "fr_pattern r \<noteq> []"
    "length (fr_pattern r) \<le> MAX_INBOUND_FILTER_PATTERN_BYTES"
    "accepted_by (fr_field r) (fr_signal r)"
    "n + compiled_bytes m \<le> MAX_COMPILED_INBOUND_FILTER_BYTES"
    "compile_rules rs (n + compiled_bytes m) (push_rule (fr_signal r) (compiled_as r m) c) = Some (Inr c')"
  using assms by (auto simp: Let_def split: if_splits sum.splits option.splits bind_splits)

definition compiled_from :: "filter_rule list \<Rightarrow> compiled_matcher list \<Rightarrow> bool" where
  "compiled_from rs ms = list_all2 (\<lambda>r m. compile_rule r = Some (Inr m) \<and> fr_pattern r \<noteq> []
     \<and> accepted_by (fr_field r) (fr_signal r)) rs ms"

lemma compile_rules_result:
  assumes "compile_rules rs n c = Some (Inr c')" "n \<le> MAX_COMPILED_INBOUND_FILTER_BYTES"
  shows "\<exists>ms. compiled_from rs ms
    \<and> n + sum_list (map compiled_bytes ms) \<le> MAX_COMPILED_INBOUND_FILTER_BYTES
    \<and> (\<forall>s. policy_rules c' s = policy_rules c s
         @ map (\<lambda>(r, m). compiled_as r m) (filter (\<lambda>(r, m). fr_signal r = s) (zip rs ms)))"
  using assms
proof (induction rs arbitrary: n c)
  case Nil
  then show ?case by (auto simp: compiled_from_def intro!: exI[of _ "[]"])
next
  case (Cons r rs)
  from compile_rules_Cons[OF Cons.prems(1)] obtain m where m: "compile_rule r = Some (Inr m)"
    "fr_pattern r \<noteq> []" "accepted_by (fr_field r) (fr_signal r)"
    "n + compiled_bytes m \<le> MAX_COMPILED_INBOUND_FILTER_BYTES"
    "compile_rules rs (n + compiled_bytes m) (push_rule (fr_signal r) (compiled_as r m) c) = Some (Inr c')"
    by blast
  from Cons.IH[OF m(5,4)] obtain ms where "compiled_from rs ms"
    "n + compiled_bytes m + sum_list (map compiled_bytes ms) \<le> MAX_COMPILED_INBOUND_FILTER_BYTES"
    "\<forall>s. policy_rules c' s = policy_rules (push_rule (fr_signal r) (compiled_as r m) c) s
       @ map (\<lambda>(r, m). compiled_as r m) (filter (\<lambda>(r, m). fr_signal r = s) (zip rs ms))" by blast
  then show ?case
    using m by (intro exI[of _ "m # ms"]) (auto simp: compiled_from_def policy_rules_push)
qed

lemma find_rule_compiled:
  assumes "compiled_from rs ms" "star_free ff"
  shows "find_rule (map (\<lambda>(r, m). compiled_as r m) (filter (\<lambda>(r, m). fr_signal r = s) (zip rs ms))) ff
    = Some (map_option (\<lambda>r. \<lparr>fm_signal = fr_signal r, fm_field = fr_field r\<rparr>)
        (find (\<lambda>r. fr_signal r = s \<and> rule_spec r ff) rs))"
  using assms(1) unfolding compiled_from_def
  by (induction rs ms rule: list_all2_induct) (auto simp: rule_matches_spec[OF _ _ assms(2)])

lemma find_rule_total:
  assumes "compiled_from rs ms"
  shows "find_rule (map (\<lambda>(r, m). compiled_as r m) (filter (\<lambda>(r, m). fr_signal r = s) (zip rs ms))) ff
    \<noteq> None"
  using assms unfolding compiled_from_def
proof (induction rs ms rule: list_all2_induct)
  case (Cons r rs m ms)
  then show ?case using rule_matches_total[of r m ff] by auto
qed simp

lemma compile_result:
  assumes "InboundFilterPolicy_compile rules = Some (Inr c)"
  obtains ms where "compiled_from rules ms" "length rules \<le> MAX_INBOUND_FILTER_RULES"
    "sum_list (map compiled_bytes ms) \<le> MAX_COMPILED_INBOUND_FILTER_BYTES"
    "\<And>s. policy_rules c s
       = map (\<lambda>(r, m). compiled_as r m) (filter (\<lambda>(r, m). fr_signal r = s) (zip rules ms))"
  using assms compile_rules_result[of rules 0 CompiledInboundFilterPolicy_default c]
  by (auto simp: InboundFilterPolicy_compile_def policy_rules_default split: if_splits)

abbreviation all_signals :: "filter_signal list" where
  "all_signals \<equiv> [Sig_Error, Sig_Log, Sig_Transaction, Sig_Span]"

lemma sum_by_signal:
  fixes f :: "'a \<Rightarrow> nat"
  shows "(\<Sum>s\<leftarrow>all_signals. sum_list (map f (filter (\<lambda>x. g x = s) xs))) = sum_list (map f xs)"
proof (induction xs)
  case (Cons x xs)
  then show ?case by (cases "g x") auto
qed simp

lemma sum_list_snd_zip:
  "length ms = length rs \<Longrightarrow> (\<Sum>x\<leftarrow>zip rs ms. f (snd x)) = sum_list (map f ms)"
  by (induction rs ms rule: list_induct2') auto

section \<open>Properties\<close>

text \<open>
  C16. The table-driven search behind Contains is substring search: for every non-empty pattern the
  table is built without an index error and the scan of any text terminates and reports exactly
  whether the pattern occurs in it.
\<close>
theorem kmp_contains_correct:
  assumes "p \<noteq> []"
  shows "\<exists>pre. kmp_prefix p = Some pre \<and> length pre = length p
    \<and> (\<forall>v. kmp_contains v p pre = Some (sublist p v))"
  using kmp_prefix_ok[OF assms] kmp_search[OF assms] by (auto simp: table_ok_def)

theorem kmp_contains_correct_witness:
  "\<exists>pre. kmp_prefix ''abab'' = Some pre \<and> kmp_contains ''ababcabab'' ''abab'' pre = Some True
     \<and> kmp_contains ''abacaba'' ''abab'' pre = Some False"
proof -
  have "sublist ''abab'' ''ababcabab''" "\<not> sublist ''abab'' ''abacaba''" by code_simp+
  with kmp_contains_correct[of "''abab''"] show ?thesis by auto
qed

text \<open>
  C17. The glob matcher terminates on every input without an index error, everything it accepts is
  accepted by the reference matcher, and on a text without a star it agrees with the reference.
\<close>
theorem glob_matches_correct:
  "\<exists>b. glob_matches pat v = Some b \<and> (b \<longrightarrow> glob_reference pat v)
     \<and> (CHR ''*'' \<notin> set v \<longrightarrow> b = glob_reference pat v)"
proof -
  obtain b where b: "glob_matches pat v = Some b" "b \<longrightarrow> glob_reference pat v"
    using glob_loop_sound by blast
  with glob_loop_exact[of v pat] show ?thesis by auto
qed

theorem glob_matches_correct_witness:
  "glob_matches ''wor*.fa?led'' ''worker.failed'' = Some True \<and> CHR ''*'' \<notin> set ''worker.failed''"
proof -
  have "glob_reference ''wor*.fa?led'' ''worker.failed''" by simp
  with glob_matches_correct[of "''wor*.fa?led''" "''worker.failed''"] show ?thesis by auto
qed


text \<open>
  C27. A policy never panics: compilation of any rule list returns, a compiled policy stays within 32
  rules and 8192 bytes of matchers, each of its rules reads a field its signal has, and matching it
  against any item returns.
\<close>
theorem policy_bounded_and_total:
  "InboundFilterPolicy_compile rules \<noteq> None \<and>
   (\<forall>c. InboundFilterPolicy_compile rules = Some (Inr c) \<longrightarrow>
      (\<Sum>s\<leftarrow>all_signals. length (policy_rules c s)) \<le> 32
      \<and> (\<Sum>s\<leftarrow>all_signals. sum_list (map (compiled_bytes \<circ> cr_matcher) (policy_rules c s))) \<le> 8192
      \<and> (\<forall>s. list_all (\<lambda>r. cr_signal r = s \<and> accepted_by (cr_field r) s) (policy_rules c s))
      \<and> (\<forall>ff. policy_matches c ff \<noteq> None))"
proof (intro conjI allI impI)
  show "InboundFilterPolicy_compile rules \<noteq> None"
    using compile_rules_total by (auto simp: InboundFilterPolicy_compile_def)
next
  fix c assume "InboundFilterPolicy_compile rules = Some (Inr c)"
  from compile_result[OF this] obtain ms where ms: "compiled_from rules ms"
      "length rules \<le> MAX_INBOUND_FILTER_RULES"
      "sum_list (map compiled_bytes ms) \<le> MAX_COMPILED_INBOUND_FILTER_BYTES"
    and c: "\<And>s. policy_rules c s
       = map (\<lambda>(r, m). compiled_as r m) (filter (\<lambda>(r, m). fr_signal r = s) (zip rules ms))" by blast
  have len: "length ms = length rules" using ms(1) by (auto simp: compiled_from_def list_all2_lengthD)
  have part: "(\<Sum>s\<leftarrow>all_signals. sum_list (map f (policy_rules c s)))
      = (\<Sum>(r, m)\<leftarrow>zip rules ms. f (compiled_as r m))" for f :: "compiled_rule \<Rightarrow> nat"
    unfolding c by (simp only: map_map comp_def sum_by_signal case_prod_unfold)
  show "(\<Sum>s\<leftarrow>all_signals. length (policy_rules c s)) \<le> 32"
    using part[of "\<lambda>_. 1"] ms(2) len
    by (simp add: sum_list_triv case_prod_unfold MAX_INBOUND_FILTER_RULES_def)
  show "(\<Sum>s\<leftarrow>all_signals. sum_list (map (compiled_bytes \<circ> cr_matcher) (policy_rules c s))) \<le> 8192"
    using part[of "compiled_bytes \<circ> cr_matcher"] ms(3) len
    by (simp add: case_prod_unfold sum_list_snd_zip MAX_COMPILED_INBOUND_FILTER_BYTES_def)
  show "list_all (\<lambda>r. cr_signal r = s \<and> accepted_by (cr_field r) s) (policy_rules c s)" for s
    using ms(1) by (auto simp: c list_all_iff compiled_from_def list_all2_iff)
  show "policy_matches c ff \<noteq> None" for ff
    unfolding policy_matches_def c by (rule find_rule_total[OF ms(1)])
qed


definition sample_rule :: filter_rule where
  "sample_rule = \<lparr>fr_signal = Sig_Log, fr_field = Fld_Message, fr_operation = Op_Suffix,
     fr_pattern = ''led''\<rparr>"

definition sample_fields :: filter_fields where
  "sample_fields = (InboundFilterFields_empty Sig_Log)\<lparr>ff_message := Some ''failed''\<rparr>"

definition sample_compiled :: compiled_policy where
  "sample_compiled = push_rule Sig_Log (compiled_as sample_rule (M_Suffix ''led''))
     CompiledInboundFilterPolicy_default"

lemma sample_compiles: "InboundFilterPolicy_compile [sample_rule] = Some (Inr sample_compiled)"
proof -
  have "\<not> has_control ''led''" by (simp add: has_control_def is_control_def)
  then show ?thesis
    by (simp add: InboundFilterPolicy_compile_def sample_compiled_def sample_rule_def accepted_by_def
        CompiledMatcher_compile_def compiled_bytes_def MAX_INBOUND_FILTER_RULES_def
        MAX_INBOUND_FILTER_PATTERN_BYTES_def MAX_COMPILED_INBOUND_FILTER_BYTES_def)
qed

theorem policy_bounded_and_total_witness: "policy_matches sample_compiled sample_fields \<noteq> None"
  using policy_bounded_and_total[of "[sample_rule]"] sample_compiles by blast



end
