(* ===== verification/Sessions.thy ===== *)
theory Sessions
  imports Primitives
begin

text \<open>
  Release-health sessions, \<^verbatim>\<open>crates/domain/src/sessions.rs\<close>: the session state codes, the merge of
  out-of-order session updates into one record, and the fixed-size user sketch. The hash of
  \<^verbatim>\<open>SessionId::derive\<close> and the floating-point formula of \<^verbatim>\<open>estimate\<close> are parameters.
\<close>

unbundle bit_operations_syntax

section \<open>States\<close>

datatype session_state = S_Ok | S_Exited | S_Crashed | S_Abnormal

datatype session_value_error = SE_InvalidIdentity | SE_InvalidTime | SE_InvalidState | SE_Conflict

definition session_state_code :: "session_state \<Rightarrow> int" where
  "session_state_code s = (case s of S_Ok \<Rightarrow> 0 | S_Exited \<Rightarrow> 1 | S_Crashed \<Rightarrow> 2 | S_Abnormal \<Rightarrow> 3)"

definition session_state_from_code :: "int \<Rightarrow> session_value_error + session_state" where
  "session_state_from_code c = (if c = 0 then Inr S_Ok else if c = 1 then Inr S_Exited
     else if c = 2 then Inr S_Crashed else if c = 3 then Inr S_Abnormal else Inl SE_InvalidState)"

definition is_terminal :: "session_state \<Rightarrow> bool" where
  "is_terminal s = (s \<noteq> S_Ok)"

definition precedence :: "session_state \<Rightarrow> nat" where
  "precedence s = (case s of S_Ok \<Rightarrow> 0 | S_Exited \<Rightarrow> 1 | S_Abnormal \<Rightarrow> 2 | S_Crashed \<Rightarrow> 3)"

interpretation session_state: strict_wire_codec session_state_code session_state_from_code
proof
  show "session_state_from_code (session_state_code s) = Inr s" for s
    by (cases s) (simp_all add: session_state_code_def session_state_from_code_def)
  show "session_state_from_code c = Inr s \<Longrightarrow> session_state_code s = c" for c s
    by (auto simp: session_state_code_def session_state_from_code_def split: if_splits)
qed

section \<open>Records\<close>

definition session_id_preimage :: "project_id \<Rightarrow> bytes \<Rightarrow> bytes" where
  "session_id_preimage p sdk = as_bytes ''metric/session-id/v1'' @ be_bytes_signed 4 p @ sdk"

definition SessionId_derive :: "(bytes \<Rightarrow> bytes) \<Rightarrow> project_id \<Rightarrow> bytes \<Rightarrow> bytes" where
  "SessionId_derive blake3 p sdk = take 16 (blake3 (session_id_preimage p sdk))"

record session_update =
  su_id :: bytes
  su_project_id :: project_id
  su_release_id :: bytes
  su_environment_id :: bytes
  su_started_at :: timestamp
  su_updated_at :: timestamp
  su_state :: session_state
  su_sequence :: "nat option"
  su_duration_ms :: "nat option"
  su_user_digest :: "bytes option"

record session_record =
  sr_id :: bytes
  sr_project_id :: project_id
  sr_release_id :: bytes
  sr_environment_id :: bytes
  sr_started_at :: timestamp
  sr_last_update :: timestamp
  sr_state :: session_state
  sr_sequence :: "nat option"
  sr_finished_at :: "timestamp option"
  sr_duration_ms :: "nat option"
  sr_user_digest :: "bytes option"

definition SessionUpdate_validate :: "session_update \<Rightarrow> session_value_error + unit" where
  "SessionUpdate_validate u =
     (if su_updated_at u < su_started_at u \<or> is_some_and (su_duration_ms u) (\<lambda>d. d > i64_max)
      then Inl SE_InvalidTime else Inr ())"

text \<open>\<^verbatim>\<open>Option::and\<close>.\<close>

definition opt_and :: "'a option \<Rightarrow> 'b option \<Rightarrow> 'b option" where
  "opt_and a b = (if a = None then None else b)"

definition SessionRecord_from_update :: "session_update \<Rightarrow> session_value_error + session_record" where
  "SessionRecord_from_update u = and_then (SessionUpdate_validate u) (\<lambda>_.
     let finished = (if is_terminal (su_state u) then Some (su_updated_at u) else None) in
     Inr \<lparr>sr_id = su_id u, sr_project_id = su_project_id u, sr_release_id = su_release_id u,
          sr_environment_id = su_environment_id u, sr_started_at = su_started_at u,
          sr_last_update = su_updated_at u, sr_state = su_state u, sr_sequence = su_sequence u,
          sr_finished_at = finished, sr_duration_ms = opt_and finished (su_duration_ms u),
          sr_user_digest = su_user_digest u\<rparr>)"

definition merge_sequence :: "nat option \<Rightarrow> nat option \<Rightarrow> nat option" where
  "merge_sequence a b = (case (a, b) of (Some x, Some y) \<Rightarrow> Some (max x y) | _ \<Rightarrow> opt_or a b)"

definition digest_conflict :: "bytes option \<Rightarrow> bytes option \<Rightarrow> bool" where
  "digest_conflict a b = (case (a, b) of (Some x, Some y) \<Rightarrow> x \<noteq> y | _ \<Rightarrow> False)"

text \<open>The guard that lets an update replace state, end and duration, on the record before the merge.\<close>

definition update_prevails :: "session_record \<Rightarrow> session_update \<Rightarrow> bool" where
  "update_prevails r u =
     (let existing = unwrap_or (sr_sequence r) 0; incoming = unwrap_or (su_sequence u) 0 in
      precedence (su_state u) > precedence (sr_state r)
      \<or> (su_state u = sr_state r \<and> (incoming > existing
          \<or> (incoming = existing
             \<and> su_updated_at u > unwrap_or (sr_finished_at r) (sr_last_update r)))))"

text \<open>The assignments of \<^verbatim>\<open>SessionRecord::merge\<close>, after its guards.\<close>

definition apply_update :: "session_update \<Rightarrow> session_record \<Rightarrow> session_record" where
  "apply_update u r =
     (let r1 = r\<lparr>sr_started_at := min (sr_started_at r) (su_started_at u),
                 sr_last_update := max (sr_last_update r) (su_updated_at u),
                 sr_user_digest := opt_or (sr_user_digest r) (su_user_digest u),
                 sr_sequence := merge_sequence (sr_sequence r) (su_sequence u)\<rparr>;
          finished = (if is_terminal (su_state u) then Some (su_updated_at u) else None)
      in if update_prevails r u
         then r1\<lparr>sr_state := su_state u, sr_finished_at := finished,
                 sr_duration_ms := opt_and finished (su_duration_ms u)\<rparr>
         else r1)"

text \<open>\<^verbatim>\<open>SessionRecord::merge\<close>: the changed record and whether it differs from the old one.\<close>

definition SessionRecord_merge ::
  "session_update \<Rightarrow> session_record \<Rightarrow> session_value_error + session_record \<times> bool" where
  "SessionRecord_merge u r = and_then (SessionUpdate_validate u) (\<lambda>_.
     if sr_id r \<noteq> su_id u \<or> sr_project_id r \<noteq> su_project_id u \<or> sr_release_id r \<noteq> su_release_id u
        \<or> sr_environment_id r \<noteq> su_environment_id u
        \<or> digest_conflict (sr_user_digest r) (su_user_digest u)
     then Inl SE_Conflict
     else Inr (apply_update u r, apply_update u r \<noteq> r))"

text \<open>A caller that folds a stream of updates, stopping at the first error.\<close>

fun session_merges :: "session_update list \<Rightarrow> session_record \<Rightarrow> session_value_error + session_record" where
  "session_merges [] r = Inr r"
| "session_merges (u # us) r = and_then (SessionRecord_merge u r) (\<lambda>(r', _). session_merges us r')"

definition session_run :: "session_update \<Rightarrow> session_update list \<Rightarrow> session_value_error + session_record" where
  "session_run u us = and_then (SessionRecord_from_update u) (session_merges us)"

section \<open>The record invariant\<close>

definition session_inv :: "session_record \<Rightarrow> bool" where
  "session_inv r = (sr_started_at r \<le> sr_last_update r
     \<and> (sr_finished_at r \<noteq> None \<longleftrightarrow> is_terminal (sr_state r))
     \<and> is_none_or (sr_finished_at r) (\<lambda>t. sr_started_at r \<le> t \<and> t \<le> sr_last_update r)
     \<and> (sr_duration_ms r \<noteq> None \<longrightarrow> sr_finished_at r \<noteq> None)
     \<and> is_none_or (sr_duration_ms r) (\<lambda>d. d \<le> i64_max))"

lemma validate_ok:
  "SessionUpdate_validate u = Inr () \<longleftrightarrow>
     su_started_at u \<le> su_updated_at u \<and> is_none_or (su_duration_ms u) (\<lambda>d. d \<le> i64_max)"
  by (cases "su_duration_ms u") (auto simp: SessionUpdate_validate_def)

lemma from_update_inv: "SessionRecord_from_update u = Inr r \<Longrightarrow> session_inv r"
  by (auto simp: SessionRecord_from_update_def result_simps validate_ok session_inv_def Let_def
      opt_and_def split: if_splits)

lemma merge_ok:
  assumes "SessionRecord_merge u r = Inr (r', changed)"
  shows "SessionUpdate_validate u = Inr ()" "r' = apply_update u r"
    "changed \<longleftrightarrow> r' \<noteq> r"
  using assms by (auto simp: SessionRecord_merge_def result_simps split: if_splits)

lemma apply_update_fields:
  "sr_started_at (apply_update u r) = min (sr_started_at r) (su_started_at u)"
  "sr_last_update (apply_update u r) = max (sr_last_update r) (su_updated_at u)"
  "sr_sequence (apply_update u r) = merge_sequence (sr_sequence r) (su_sequence u)"
  "sr_state (apply_update u r) = (if update_prevails r u then su_state u else sr_state r)"
  "sr_finished_at (apply_update u r) = (if update_prevails r u
      then (if is_terminal (su_state u) then Some (su_updated_at u) else None) else sr_finished_at r)"
  "sr_duration_ms (apply_update u r) = (if update_prevails r u
      then (if is_terminal (su_state u) then su_duration_ms u else None) else sr_duration_ms r)"
  by (simp_all add: apply_update_def Let_def opt_and_def)

lemma merge_inv:
  assumes "SessionRecord_merge u r = Inr (r', changed)" "session_inv r"
  shows "session_inv r'"
proof (cases "update_prevails r u")
  case True
  with merge_ok[OF assms(1)] apply_update_fields[of u r] assms(2) show ?thesis
    by (simp add: session_inv_def validate_ok is_none_or_def min_def max_def split: option.splits)
next
  case False
  with merge_ok[OF assms(1)] apply_update_fields[of u r] assms(2) show ?thesis
    by (simp add: session_inv_def validate_ok is_none_or_def min_def max_def split: option.splits)
qed

lemma session_merges_inv: "session_merges us r = Inr r' \<Longrightarrow> session_inv r \<Longrightarrow> session_inv r'"
  by (induction us arbitrary: r) (auto simp: result_simps dest: merge_inv)

section \<open>Convergence\<close>

text \<open>
  A record type whose digest after start and merges is a join: then the digest depends only on the
  set of updates, whatever their order and however often each is delivered.
\<close>

locale converging_record = semilattice_set join
  for join :: "'d \<Rightarrow> 'd \<Rightarrow> 'd" +
  fixes udigest :: "'u \<Rightarrow> 'd"
    and rdigest :: "'r \<Rightarrow> 'd"
    and start :: "'u \<Rightarrow> 'e + 'r"
    and step :: "'u \<Rightarrow> 'r \<Rightarrow> 'e + 'r"
  assumes start_digest: "start u = Inr r \<Longrightarrow> rdigest r = udigest u"
    and step_digest: "step u r = Inr r' \<Longrightarrow> rdigest r' = join (udigest u) (rdigest r)"
begin

lemma steps_digest: "try_fold step us r = Inr r' \<Longrightarrow> rdigest r' = fold join (map udigest us) (rdigest r)"
  by (induction us arbitrary: r) (auto simp: result_simps step_digest)

lemma run_digest:
  assumes "and_then (start u) (try_fold step us) = Inr r"
  shows "rdigest r = F (udigest ` set (u # us))"
proof -
  from assms obtain r0 where "start u = Inr r0" "try_fold step us r0 = Inr r" by (auto simp: result_simps)
  then have "rdigest r = fold join (map udigest us) (udigest u)"
    by (simp add: steps_digest start_digest)
  also have "\<dots> = F (set (udigest u # map udigest us))" by (rule set_eq_fold[symmetric])
  finally show ?thesis by simp
qed

lemma run_converges:
  "and_then (start u) (try_fold step us) = Inr r \<Longrightarrow> and_then (start v) (try_fold step vs) = Inr r' \<Longrightarrow>
     set (u # us) = set (v # vs) \<Longrightarrow> rdigest r = rdigest r'"
  by (simp only: run_digest)

end

type_synonym session_digest = "(timestamp \<times> timestamp) \<times> session_state \<times> nat option"

definition stronger_state :: "session_state \<Rightarrow> session_state \<Rightarrow> session_state" where
  "stronger_state a b = (if precedence a > precedence b then a else b)"

definition digest_join :: "session_digest \<Rightarrow> session_digest \<Rightarrow> session_digest" where
  "digest_join = (\<lambda>((s, l), st, q) ((s', l'), st', q').
     ((min s s', max l l'), stronger_state st st', merge_sequence q q'))"

definition update_digest :: "session_update \<Rightarrow> session_digest" where
  "update_digest u = ((su_started_at u, su_updated_at u), su_state u, su_sequence u)"

definition record_digest :: "session_record \<Rightarrow> session_digest" where
  "record_digest r = ((sr_started_at r, sr_last_update r), sr_state r, sr_sequence r)"

lemma precedence_inj: "precedence a = precedence b \<longleftrightarrow> a = b"
  by (cases a; cases b) (auto simp: precedence_def)

lemma stronger_state_laws:
  "stronger_state (stronger_state a b) c = stronger_state a (stronger_state b c)"
  "stronger_state a b = stronger_state b a"
  "stronger_state a a = a"
  using precedence_inj by (force simp: stronger_state_def)+

lemma merge_sequence_laws:
  "merge_sequence (merge_sequence a b) c = merge_sequence a (merge_sequence b c)"
  "merge_sequence a b = merge_sequence b a"
  "merge_sequence a a = a"
  by (cases a; cases b; cases c; simp add: merge_sequence_def)+

abbreviation merge_record :: "session_update \<Rightarrow> session_record \<Rightarrow> session_value_error + session_record" where
  "merge_record u r \<equiv> and_then (SessionRecord_merge u r) (\<lambda>(r', _). Inr r')"

lemma merge_state:
  assumes "SessionRecord_merge u r = Inr (r', changed)"
  shows "record_digest r' = digest_join (update_digest u) (record_digest r)"
proof -
  have "stronger_state (su_state u) (sr_state r) = sr_state r'"
    using merge_ok(2)[OF assms]
    by (auto simp: apply_update_fields stronger_state_def update_prevails_def Let_def)
  with merge_ok(2)[OF assms] apply_update_fields[of u r] show ?thesis
    by (simp add: record_digest_def update_digest_def digest_join_def min.commute max.commute
        merge_sequence_laws(2))
qed

interpretation session: converging_record digest_join update_digest record_digest
  SessionRecord_from_update merge_record
proof
  show "digest_join (digest_join a b) c = digest_join a (digest_join b c)" for a b c
    by (auto simp: digest_join_def stronger_state_laws(1) merge_sequence_laws(1) min.assoc max.assoc
        split: prod.splits)
  show "digest_join a b = digest_join b a" for a b
    by (cases a; cases b)
      (simp add: digest_join_def stronger_state_laws(2) merge_sequence_laws(2) min.commute max.commute
        split: prod.split)
  show "digest_join a a = a" for a
    by (auto simp: digest_join_def stronger_state_laws(3) merge_sequence_laws(3) split: prod.splits)
  show "SessionRecord_from_update u = Inr r \<Longrightarrow> record_digest r = update_digest u" for u r
    by (auto simp: SessionRecord_from_update_def result_simps Let_def record_digest_def update_digest_def)
  show "merge_record u r = Inr r' \<Longrightarrow> record_digest r' = digest_join (update_digest u) (record_digest r)"
    for u r r'
    by (auto simp: result_simps dest: merge_state)
qed

lemma session_merges_steps: "session_merges us r = try_fold merge_record us r"
proof (induction us arbitrary: r)
  case (Cons u us)
  then show ?case by (cases "SessionRecord_merge u r") auto
qed simp

lemma session_run_steps:
  "session_run u us = and_then (SessionRecord_from_update u) (try_fold merge_record us)"
  by (cases "SessionRecord_from_update u") (simp_all add: session_run_def session_merges_steps)

section \<open>Properties of the merge\<close>

lemma unwrap_merge_sequence:
  "unwrap_or (merge_sequence a b) 0 = max (unwrap_or a 0) (unwrap_or b 0)"
  by (cases a; cases b) (auto simp: merge_sequence_def)

lemma merge_sequence_absorb: "merge_sequence (merge_sequence a b) b = merge_sequence a b"
  by (cases a; cases b) (auto simp: merge_sequence_def)

lemma not_prevails_again: "\<not> update_prevails (apply_update u r) u"
proof (cases "update_prevails r u")
  case True
  then show ?thesis
    by (simp add: update_prevails_def[of "apply_update u r"] apply_update_fields Let_def
        unwrap_merge_sequence is_terminal_def)
next
  case False
  then have "\<not> precedence (su_state u) > precedence (sr_state r)"
    "su_state u = sr_state r \<Longrightarrow> unwrap_or (su_sequence u) 0 \<le> unwrap_or (sr_sequence r) 0"
    "su_state u = sr_state r \<Longrightarrow> unwrap_or (su_sequence u) 0 = unwrap_or (sr_sequence r) 0 \<Longrightarrow>
       su_updated_at u \<le> unwrap_or (sr_finished_at r) (sr_last_update r)"
    by (auto simp: update_prevails_def Let_def)
  with False show ?thesis
    by (cases "sr_finished_at r")
      (auto simp: update_prevails_def[of "apply_update u r"] apply_update_fields Let_def
        unwrap_merge_sequence)
qed

lemma apply_update_idem: "apply_update u (apply_update u r) = apply_update u r"
proof -
  let ?r = "apply_update u r"
  have user: "opt_or (sr_user_digest ?r) (su_user_digest u) = sr_user_digest ?r"
    by (cases "sr_user_digest r"; cases "su_user_digest u") (simp_all add: apply_update_def Let_def)
  have "merge_sequence (sr_sequence ?r) (su_sequence u) = sr_sequence ?r"
    by (simp add: apply_update_fields merge_sequence_absorb)
  moreover have "min (sr_started_at ?r) (su_started_at u) = sr_started_at ?r"
    and "max (sr_last_update ?r) (su_updated_at u) = sr_last_update ?r"
    by (simp_all add: apply_update_fields)
  ultimately show ?thesis
    using not_prevails_again[of u r] user by (simp add: apply_update_def[of u ?r])
qed

definition sample_update :: "session_state \<Rightarrow> nat \<Rightarrow> int \<Rightarrow> session_update" where
  "sample_update st q t = \<lparr>su_id = [1], su_project_id = 42, su_release_id = [3],
     su_environment_id = [4], su_started_at = 0, su_updated_at = t, su_state = st,
     su_sequence = Some q, su_duration_ms = Some 500, su_user_digest = Some [9]\<rparr>"

lemmas session_eval = session_run_def SessionRecord_from_update_def SessionUpdate_validate_def
  SessionRecord_merge_def apply_update_def update_prevails_def sample_update_def digest_conflict_def
  merge_sequence_def precedence_def is_terminal_def opt_and_def

text \<open>
  Every session record built from updates is well formed: it starts no later than its last
  update, it has an end exactly when its state is terminal, the end lies between start and last
  update, and a duration is present only with an end and fits a signed 64-bit integer.
\<close>
theorem session_run_well_formed:
  assumes "session_run u us = Inr r"
  shows "session_inv r"
  using assms by (auto simp: session_run_def result_simps intro: session_merges_inv from_update_inv)

theorem session_run_well_formed_witness:
  "\<exists>r. session_run (sample_update S_Ok 1 10) [sample_update S_Crashed 2 20] = Inr r
     \<and> session_inv r \<and> sr_finished_at r = Some 20"
proof -
  obtain r where r: "session_run (sample_update S_Ok 1 10) [sample_update S_Crashed 2 20] = Inr r"
    and "sr_finished_at r = Some 20" by (simp add: session_eval)
  with session_run_well_formed[OF r] show ?thesis by blast
qed

text \<open>
  C14. Session state, start, last update and sequence converge: two deliveries of the same set of
  updates, in any order and with any repetitions, end with the same four values.
\<close>
theorem session_run_converges:
  assumes "session_run u us = Inr r" "session_run v vs = Inr r'" "set (u # us) = set (v # vs)"
  shows "sr_state r = sr_state r' \<and> sr_started_at r = sr_started_at r'
    \<and> sr_last_update r = sr_last_update r' \<and> sr_sequence r = sr_sequence r'"
  using session.run_converges[OF assms(1)[unfolded session_run_steps]
      assms(2)[unfolded session_run_steps] assms(3)]
  by (simp add: record_digest_def)

theorem session_run_converges_witness:
  "\<exists>r r'. session_run (sample_update S_Ok 1 10) [sample_update S_Crashed 2 20] = Inr r
     \<and> session_run (sample_update S_Crashed 2 20) [sample_update S_Ok 1 10, sample_update S_Crashed 2 20]
         = Inr r'
     \<and> sr_state r = sr_state r'"
proof -
  obtain r r' where r: "session_run (sample_update S_Ok 1 10) [sample_update S_Crashed 2 20] = Inr r"
    and r': "session_run (sample_update S_Crashed 2 20)
      [sample_update S_Ok 1 10, sample_update S_Crashed 2 20] = Inr r'"
    by (simp add: session_eval)
  have "set [sample_update S_Ok 1 10, sample_update S_Crashed 2 20]
    = set [sample_update S_Crashed 2 20, sample_update S_Ok 1 10, sample_update S_Crashed 2 20]" by auto
  from session_run_converges[OF r r' this] r r' show ?thesis by blast
qed


text \<open>
  Redelivery is harmless: merging an update a second time succeeds, leaves the record as it was
  and reports that nothing changed.
\<close>
theorem session_redelivery_no_change:
  assumes "SessionRecord_merge u r = Inr (r', changed)"
  shows "SessionRecord_merge u r' = Inr (r', False)"
proof -
  have r': "r' = apply_update u r" using merge_ok(2)[OF assms] .
  have ids: "sr_id r' = su_id u" "sr_project_id r' = su_project_id u" "sr_release_id r' = su_release_id u"
      "sr_environment_id r' = su_environment_id u"
    "\<not> digest_conflict (sr_user_digest r') (su_user_digest u)" "SessionUpdate_validate u = Inr ()"
    using assms unfolding r'
    by (auto simp: SessionRecord_merge_def result_simps apply_update_def Let_def digest_conflict_def
        split: if_splits option.splits)
  then show ?thesis by (simp add: SessionRecord_merge_def r' apply_update_idem)
qed

theorem session_redelivery_no_change_witness:
  "\<exists>r r'. SessionRecord_from_update (sample_update S_Ok 1 10) = Inr r
     \<and> SessionRecord_merge (sample_update S_Crashed 2 20) r = Inr (r', True)
     \<and> SessionRecord_merge (sample_update S_Crashed 2 20) r' = Inr (r', False)"
proof -
  obtain r r' where "SessionRecord_from_update (sample_update S_Ok 1 10) = Inr r"
    and m: "SessionRecord_merge (sample_update S_Crashed 2 20) r = Inr (r', True)"
    by (simp add: session_eval)
  with session_redelivery_no_change[OF m] show ?thesis by blast
qed

section \<open>User sketches\<close>

definition USER_SKETCH_BYTES :: nat where "USER_SKETCH_BYTES = 128"
definition USER_SKETCH_SATURATION_ESTIMATE :: nat where "USER_SKETCH_SATURATION_ESTIMATE = 7098"

definition UserSketch_default :: bytes where
  "UserSketch_default = replicate USER_SKETCH_BYTES 0"

definition sketch_index :: "bytes \<Rightarrow> nat" where
  "sketch_index digest = from_be [digest ! 0, digest ! 1] mod (USER_SKETCH_BYTES * 8)"

definition UserSketch_insert :: "bytes \<Rightarrow> bytes \<Rightarrow> bytes" where
  "UserSketch_insert digest sk = (let i = sketch_index digest in
     sk[i div 8 := (sk ! (i div 8)) OR push_bit (i mod 8) 1])"

definition UserSketch_merge :: "bytes \<Rightarrow> bytes \<Rightarrow> bytes" where
  "UserSketch_merge a b = map2 (OR) a b"

definition count_zeros :: "u8 \<Rightarrow> nat" where
  "count_zeros w = length (filter (\<lambda>n. \<not> bit w n) [0..<8])"

text \<open>\<open>formula\<close> is the rounded \<^verbatim>\<open>-(bits * ln(zeroes / bits))\<close>.\<close>

definition UserSketch_estimate :: "(nat \<Rightarrow> nat) \<Rightarrow> bytes \<Rightarrow> nat" where
  "UserSketch_estimate formula sk = (let zeroes = sum_list (map count_zeros sk) in
     if zeroes = 0 then USER_SKETCH_SATURATION_ESTIMATE else formula zeroes)"

definition sketch_of :: "bytes list \<Rightarrow> bytes" where
  "sketch_of ds = fold UserSketch_insert ds UserSketch_default"

definition sketch_bits :: "bytes \<Rightarrow> nat set" where
  "sketch_bits sk = {n. n < 1024 \<and> bit (sk ! (n div 8)) (n mod 8)}"

lemma sketch_index_less: "sketch_index d < 1024"
  by (simp add: sketch_index_def USER_SKETCH_BYTES_def)

lemma length_UserSketch [simp]:
  "length UserSketch_default = USER_SKETCH_BYTES"
  "length (UserSketch_insert d sk) = length sk"
  "length (UserSketch_merge a b) = min (length a) (length b)"
  by (simp_all add: UserSketch_default_def UserSketch_insert_def UserSketch_merge_def Let_def)

lemma length_sketch_of [simp]: "length (sketch_of ds) = USER_SKETCH_BYTES"
proof -
  have "length (fold UserSketch_insert ds sk) = length sk" for sk
    by (induction ds arbitrary: sk) auto
  then show ?thesis by (simp add: sketch_of_def)
qed

lemma sketch_bits_insert:
  assumes "length sk = USER_SKETCH_BYTES"
  shows "sketch_bits (UserSketch_insert d sk) = insert (sketch_index d) (sketch_bits sk)"
proof -
  let ?i = "sketch_index d"
  have i: "?i div 8 < length sk" using sketch_index_less[of d] assms by (simp add: USER_SKETCH_BYTES_def)
  have "bit (UserSketch_insert d sk ! (n div 8)) (n mod 8)
      \<longleftrightarrow> n = ?i \<or> bit (sk ! (n div 8)) (n mod 8)" for n
  proof (cases "n div 8 = ?i div 8")
    case True
    have "n mod 8 = ?i mod 8 \<longleftrightarrow> n = ?i"
      using True by (metis div_mult_mod_eq)
    with True i show ?thesis
      by (auto simp: UserSketch_insert_def Let_def bit_or_iff bit_exp_iff possible_bit_word)
  next
    case False
    then show ?thesis by (auto simp: UserSketch_insert_def Let_def)
  qed
  then show ?thesis using sketch_index_less by (auto simp: sketch_bits_def)
qed

lemma sketch_bits_merge:
  assumes "length a = USER_SKETCH_BYTES" "length b = USER_SKETCH_BYTES"
  shows "sketch_bits (UserSketch_merge a b) = sketch_bits a \<union> sketch_bits b"
proof -
  have "UserSketch_merge a b ! (n div 8) = a ! (n div 8) OR b ! (n div 8)" if "n < 1024" for n
    using that assms by (simp add: UserSketch_merge_def USER_SKETCH_BYTES_def)
  then show ?thesis by (auto simp: sketch_bits_def bit_or_iff)
qed

lemma sketch_bits_default: "sketch_bits UserSketch_default = {}"
proof -
  have "UserSketch_default ! (n div 8) = 0" if "n < 1024" for n
    using that by (simp add: UserSketch_default_def USER_SKETCH_BYTES_def)
  then show ?thesis by (auto simp: sketch_bits_def)
qed

lemma sketch_bits_of: "sketch_bits (sketch_of ds) = sketch_index ` set ds"
proof -
  have "sketch_bits (fold UserSketch_insert ds sk) = sketch_bits sk \<union> sketch_index ` set ds"
    if "length sk = USER_SKETCH_BYTES" for sk
    using that by (induction ds arbitrary: sk) (auto simp: sketch_bits_insert)
  then show ?thesis by (simp add: sketch_of_def sketch_bits_default)
qed

lemma sketch_eqI:
  assumes "length a = USER_SKETCH_BYTES" "length b = USER_SKETCH_BYTES" "sketch_bits a = sketch_bits b"
  shows "a = b"
proof (rule nth_equalityI)
  show "length a = length b" using assms by simp
next
  fix i assume i: "i < length a"
  show "a ! i = b ! i"
  proof (rule bit_word_eqI)
    fix j assume "j < LENGTH(8)"
    then have j: "j < 8" by simp
    have "8 * i + j < 1024" using i j assms(1) by (simp add: USER_SKETCH_BYTES_def)
    moreover have "(8 * i + j) div 8 = i" "(8 * i + j) mod 8 = j" using j by auto
    ultimately show "bit (a ! i) j \<longleftrightarrow> bit (b ! i) j"
      using assms(3) unfolding sketch_bits_def set_eq_iff mem_Collect_eq by metis
  qed
qed

interpretation sketch: semilattice UserSketch_merge
proof
  show "UserSketch_merge (UserSketch_merge a b) c = UserSketch_merge a (UserSketch_merge b c)" for a b c
    by (rule nth_equalityI) (auto simp: UserSketch_merge_def or.assoc)
  show "UserSketch_merge a b = UserSketch_merge b a" for a b
    by (rule nth_equalityI) (auto simp: UserSketch_merge_def or.commute)
  show "UserSketch_merge a a = a" for a
    by (rule nth_equalityI) (auto simp: UserSketch_merge_def)
qed

text \<open>
  C29. A user sketch is a set of hash slots: the sketch of a stream of digests depends only on which
  digests occur, merging two sketches gives the sketch of both streams together, and a merge can be
  repeated or reordered freely.
\<close>
theorem sketch_merge_is_union:
  "UserSketch_merge (sketch_of xs) (sketch_of ys) = sketch_of (xs @ ys)
   \<and> (set xs = set ys \<longrightarrow> sketch_of xs = sketch_of ys)
   \<and> sketch_bits (sketch_of xs) = sketch_index ` set xs
   \<and> UserSketch_merge (sketch_of xs) (UserSketch_merge (sketch_of xs) (sketch_of ys))
     = UserSketch_merge (sketch_of ys) (sketch_of xs)"
proof (intro conjI impI)
  show "UserSketch_merge (sketch_of xs) (sketch_of ys) = sketch_of (xs @ ys)"
    by (rule sketch_eqI) (auto simp: sketch_bits_merge sketch_bits_of)
  show "set xs = set ys \<Longrightarrow> sketch_of xs = sketch_of ys"
    by (rule sketch_eqI) (auto simp: sketch_bits_of)
qed (simp_all add: sketch_bits_of sketch.left_idem sketch.commute)

theorem sketch_merge_is_union_witness:
  "sketch_of [replicate 16 1, replicate 16 2] = sketch_of [replicate 16 2, replicate 16 1, replicate 16 2]"
proof -
  have "set [replicate 16 (1::u8), replicate 16 2] = set [replicate 16 2, replicate 16 1, replicate 16 2]"
    by auto
  with sketch_merge_is_union show ?thesis by blast
qed

end
