(* ===== verification/Auth_Values.thy ===== *)
theory Auth_Values
  imports Primitives
begin

text \<open>
  Identity and authorisation values, \<^verbatim>\<open>crates/domain/src/auth.rs\<close>: e-mail addresses, password
  hashes, permissions with their scopes, the bit-set of permissions, roles and audit metadata. The
  bit-set is a 32-bit word; the locale \<open>permission_sets\<close> states what its clients rely on, over an
  abstraction to sets.
\<close>

unbundle bit_operations_syntax

section \<open>Values\<close>

datatype auth_value_error = InvalidIdentifier | InvalidEmail | UnknownScope | InvalidAuditMetadata

definition u63_id_new :: "nat \<Rightarrow> auth_value_error + nat" where
  "u63_id_new v = (if v \<noteq> 0 \<and> v \<le> i64_max then Inr v else Inl InvalidIdentifier)"

record email_address =
  em_display :: string
  em_canonical :: string

definition email_text_ok :: "string \<Rightarrow> bool" where
  "email_text_ok v = (v \<noteq> [] \<and> length v \<le> 254 \<and> is_ascii v
     \<and> \<not> list_ex (\<lambda>c. is_ascii_control c \<or> is_ascii_whitespace c) v)"

definition EmailAddress_parse :: "string \<Rightarrow> auth_value_error + email_address" where
  "EmailAddress_parse v =
     (if \<not> email_text_ok v then Inl InvalidEmail
      else case rsplit_once (CHR ''@'') v of
        None \<Rightarrow> Inl InvalidEmail
      | Some (local, domain) \<Rightarrow>
          (if local = [] \<or> domain = [] \<or> length local > 64 \<or> prefix ''.'' domain \<or> suffix ''.'' domain
              \<or> CHR ''.'' \<notin> set domain
           then Inl InvalidEmail
           else Inr \<lparr>em_display = v, em_canonical = to_ascii_lowercase v\<rparr>))"

definition PasswordHash_new :: "string \<Rightarrow> auth_value_error + string" where
  "PasswordHash_new v =
     (if v = [] \<or> length v > 512 \<or> has_control v then Inl InvalidIdentifier else Inr v)"

definition PlainSecret_encode_hex :: "(bytes \<Rightarrow> string) \<Rightarrow> bytes \<Rightarrow> string" where
  "PlainSecret_encode_hex encode secret = encode secret"

section \<open>Roles and permissions\<close>

datatype organization_role = Owner | Admin | Member | Viewer

definition organization_role_name :: "organization_role \<Rightarrow> string" where
  "organization_role_name r = (case r of Owner \<Rightarrow> ''owner'' | Admin \<Rightarrow> ''admin''
     | Member \<Rightarrow> ''member'' | Viewer \<Rightarrow> ''viewer'')"

datatype permission =
    EventRead | IssueRead | IncidentExport | IssueWrite | ProjectRead | ProjectAdmin
  | DebugFileRead | DebugFileWrite | DebugFileDelete | ArtifactRead | ArtifactWrite | ArtifactDelete
  | ReleaseRead | ReleaseWrite | OrganizationAdmin | OrganizationOwner | OrganizationDelete

definition Permission_ALL :: "permission list" where
  "Permission_ALL = [EventRead, IssueRead, IncidentExport, IssueWrite, ProjectRead, ProjectAdmin,
     DebugFileRead, DebugFileWrite, DebugFileDelete, ArtifactRead, ArtifactWrite, ArtifactDelete,
     ReleaseRead, ReleaseWrite, OrganizationAdmin, OrganizationOwner, OrganizationDelete]"

text \<open>The discriminant, \<^verbatim>\<open>permission as u8\<close>.\<close>

definition discriminant :: "permission \<Rightarrow> nat" where
  "discriminant p = (case p of EventRead \<Rightarrow> 0 | IssueRead \<Rightarrow> 1 | IncidentExport \<Rightarrow> 2 | IssueWrite \<Rightarrow> 3
     | ProjectRead \<Rightarrow> 4 | ProjectAdmin \<Rightarrow> 5 | DebugFileRead \<Rightarrow> 6 | DebugFileWrite \<Rightarrow> 7
     | DebugFileDelete \<Rightarrow> 8 | ArtifactRead \<Rightarrow> 9 | ArtifactWrite \<Rightarrow> 10 | ArtifactDelete \<Rightarrow> 11
     | ReleaseRead \<Rightarrow> 12 | ReleaseWrite \<Rightarrow> 13 | OrganizationAdmin \<Rightarrow> 14 | OrganizationOwner \<Rightarrow> 15
     | OrganizationDelete \<Rightarrow> 16)"

definition scope :: "permission \<Rightarrow> string" where
  "scope p = (case p of EventRead \<Rightarrow> ''event:read'' | IssueRead \<Rightarrow> ''issue:read''
     | IncidentExport \<Rightarrow> ''incident:export'' | IssueWrite \<Rightarrow> ''issue:write''
     | ProjectRead \<Rightarrow> ''project:read'' | ProjectAdmin \<Rightarrow> ''project:admin''
     | DebugFileRead \<Rightarrow> ''debug_file:read'' | DebugFileWrite \<Rightarrow> ''debug_file:write''
     | DebugFileDelete \<Rightarrow> ''debug_file:delete'' | ArtifactRead \<Rightarrow> ''artifact:read''
     | ArtifactWrite \<Rightarrow> ''artifact:write'' | ArtifactDelete \<Rightarrow> ''artifact:delete''
     | ReleaseRead \<Rightarrow> ''release:read'' | ReleaseWrite \<Rightarrow> ''release:write''
     | OrganizationAdmin \<Rightarrow> ''organization:admin'' | OrganizationOwner \<Rightarrow> ''organization:owner''
     | OrganizationDelete \<Rightarrow> ''organization:delete'')"

definition parse_scope :: "string \<Rightarrow> auth_value_error + permission" where
  "parse_scope v = ok_or UnknownScope (find (\<lambda>p. scope p = v) Permission_ALL)"

type_synonym permission_set = "32 word"

definition pset_empty :: permission_set where "pset_empty = 0"

definition pset_insert :: "permission \<Rightarrow> permission_set \<Rightarrow> permission_set" where
  "pset_insert p s = s OR push_bit (discriminant p) 1"

definition pset_contains :: "permission_set \<Rightarrow> permission \<Rightarrow> bool" where
  "pset_contains s p = (s AND push_bit (discriminant p) 1 \<noteq> 0)"

definition is_subset_of :: "permission_set \<Rightarrow> permission_set \<Rightarrow> bool" where
  "is_subset_of s t = (s AND NOT t = 0)"

definition pset_intersect :: "permission_set \<Rightarrow> permission_set \<Rightarrow> permission_set" where
  "pset_intersect s t = s AND t"

definition from_permissions :: "permission list \<Rightarrow> permission_set" where
  "from_permissions ps = fold pset_insert ps pset_empty"

definition pset_iter :: "permission_set \<Rightarrow> permission list" where
  "pset_iter s = filter (pset_contains s) Permission_ALL"

definition from_role :: "organization_role \<Rightarrow> permission_set" where
  "from_role r =
     (let s = fold pset_insert [EventRead, IssueRead, IncidentExport, ProjectRead, DebugFileRead,
                ArtifactRead, ReleaseRead] pset_empty;
          s = (if r = Member \<or> r = Admin \<or> r = Owner then pset_insert IssueWrite s else s);
          s = (if r = Admin \<or> r = Owner
               then fold pset_insert [ProjectAdmin, DebugFileWrite, DebugFileDelete, ArtifactWrite,
                      ArtifactDelete, ReleaseWrite, OrganizationAdmin] s
               else s)
      in if r = Owner then pset_insert OrganizationDelete (pset_insert OrganizationOwner s) else s)"

section \<open>Audit metadata\<close>

datatype audit_metadata_key =
  Md_Role | Md_CredentialKind | Md_Outcome | Md_ProjectId | Md_SelectedEventCount | Md_ResultSizeClass

definition audit_metadata_key_name :: "audit_metadata_key \<Rightarrow> string" where
  "audit_metadata_key_name k = (case k of Md_Role \<Rightarrow> ''role'' | Md_CredentialKind \<Rightarrow> ''credential_kind''
     | Md_Outcome \<Rightarrow> ''outcome'' | Md_ProjectId \<Rightarrow> ''project_id''
     | Md_SelectedEventCount \<Rightarrow> ''selected_event_count'' | Md_ResultSizeClass \<Rightarrow> ''result_size_class'')"

definition MAX_AUDIT_METADATA :: nat where "MAX_AUDIT_METADATA = 12"

definition AuditMetadata_new ::
  "(audit_metadata_key \<times> string) list \<Rightarrow> auth_value_error + (audit_metadata_key \<times> string) list" where
  "AuditMetadata_new vs =
     (if length vs > MAX_AUDIT_METADATA \<or> card (set (map fst vs)) \<noteq> length vs
      then Inl InvalidAuditMetadata else Inr vs)"

section \<open>The set interface\<close>

locale permission_sets =
  fixes empty :: 's
    and ins :: "'p \<Rightarrow> 's \<Rightarrow> 's"
    and contains :: "'s \<Rightarrow> 'p \<Rightarrow> bool"
    and subset_of :: "'s \<Rightarrow> 's \<Rightarrow> bool"
    and intersect :: "'s \<Rightarrow> 's \<Rightarrow> 's"
    and ok :: "'s \<Rightarrow> bool"
  assumes ok_empty: "ok empty"
    and ok_ins: "ok s \<Longrightarrow> ok (ins p s)"
    and ok_intersect: "ok s \<Longrightarrow> ok t \<Longrightarrow> ok (intersect s t)"
    and contains_empty: "\<not> contains empty p"
    and contains_ins: "contains (ins p s) q \<longleftrightarrow> q = p \<or> contains s q"
    and contains_intersect: "contains (intersect s t) p \<longleftrightarrow> contains s p \<and> contains t p"
    and subset_of_iff: "ok s \<Longrightarrow> subset_of s t \<longleftrightarrow> (\<forall>p. contains s p \<longrightarrow> contains t p)"
begin

definition members :: "'s \<Rightarrow> 'p set" where
  "members s = {p. contains s p}"

lemma fold_ins: "ok s \<Longrightarrow> ok (fold ins ps s) \<and> members (fold ins ps s) = members s \<union> set ps"
proof (induction ps arbitrary: s)
  case (Cons p ps)
  have "members (ins p s) = insert p (members s)" by (auto simp: members_def contains_ins)
  with Cons show ?case by (simp add: ok_ins)
qed simp

lemma of_list: "ok (fold ins ps empty)" "members (fold ins ps empty) = set ps"
  using fold_ins[OF ok_empty, of ps] by (auto simp: members_def contains_empty)

lemma subset_of_members: "ok s \<Longrightarrow> subset_of s t \<longleftrightarrow> members s \<subseteq> members t"
  by (auto simp: subset_of_iff members_def)

end

definition pset_ok :: "permission_set \<Rightarrow> bool" where
  "pset_ok s = (\<forall>n. bit s n \<longrightarrow> n < 17)"

lemma discriminant_less: "discriminant p < 17"
  by (cases p) (auto simp: discriminant_def)

lemma discriminant_inj: "discriminant p = discriminant q \<longleftrightarrow> p = q"
proof
  assume "discriminant p = discriminant q"
  then show "p = q" by (cases p) (cases q; simp add: discriminant_def)+
qed simp

lemma discriminant_onto: "n < 17 \<Longrightarrow> \<exists>p. discriminant p = n"
proof -
  assume "n < 17"
  moreover have "map discriminant Permission_ALL = [0..<17]"
    by (simp add: Permission_ALL_def discriminant_def upt_rec)
  ultimately have "n \<in> set (map discriminant Permission_ALL)" by (simp only: set_upt) simp
  then show ?thesis by auto
qed

lemma pset_contains_bit: "pset_contains s p \<longleftrightarrow> bit s (discriminant p)"
  by (simp add: pset_contains_def and_exp_eq_0_iff_not_bit)

lemma bit_pset_insert: "bit (pset_insert p s) n \<longleftrightarrow> bit s n \<or> n = discriminant p"
  using discriminant_less[of p]
  by (auto simp: pset_insert_def bit_or_iff bit_exp_iff possible_bit_word)

interpretation pset: permission_sets pset_empty pset_insert pset_contains is_subset_of pset_intersect pset_ok
proof
  show "pset_ok pset_empty" by (simp add: pset_ok_def pset_empty_def)
  show "pset_ok s \<Longrightarrow> pset_ok (pset_insert p s)" for p s
    using discriminant_less by (auto simp: pset_ok_def bit_pset_insert)
  show "pset_ok s \<Longrightarrow> pset_ok t \<Longrightarrow> pset_ok (pset_intersect s t)" for s t
    by (auto simp: pset_ok_def pset_intersect_def bit_and_iff)
  show "\<not> pset_contains pset_empty p" for p by (simp add: pset_contains_bit pset_empty_def)
  show "pset_contains (pset_insert p s) q \<longleftrightarrow> q = p \<or> pset_contains s q" for p s q
    by (auto simp: pset_contains_bit bit_pset_insert discriminant_inj)
  show "pset_contains (pset_intersect s t) p \<longleftrightarrow> pset_contains s p \<and> pset_contains t p" for s t p
    by (simp add: pset_contains_bit pset_intersect_def bit_and_iff)
  show "is_subset_of s t \<longleftrightarrow> (\<forall>p. pset_contains s p \<longrightarrow> pset_contains t p)" if "pset_ok s" for s t
  proof -
    have "is_subset_of s t \<longleftrightarrow> (\<forall>n<32. bit s n \<longrightarrow> bit t n)"
      by (auto simp: is_subset_of_def bit_eq_iff bit_and_iff bit_not_iff possible_bit_word)
    also have "\<dots> \<longleftrightarrow> (\<forall>p. pset_contains s p \<longrightarrow> pset_contains t p)"
    proof
      assume "\<forall>p. pset_contains s p \<longrightarrow> pset_contains t p"
      then show "\<forall>n<32. bit s n \<longrightarrow> bit t n"
        using that discriminant_onto unfolding pset_ok_def pset_contains_bit by metis
    next
      assume *: "\<forall>n<32. bit s n \<longrightarrow> bit t n"
      have "discriminant p < 32" for p using discriminant_less[of p] by simp
      with * show "\<forall>p. pset_contains s p \<longrightarrow> pset_contains t p" by (simp add: pset_contains_bit)
    qed
    finally show ?thesis .
  qed
qed

section \<open>Scopes and roles\<close>

lemma set_Permission_ALL: "set Permission_ALL = UNIV" "distinct Permission_ALL"
proof -
  have "p \<in> set Permission_ALL" for p by (cases p) (simp_all add: Permission_ALL_def)
  then show "set Permission_ALL = UNIV" by blast
  show "distinct Permission_ALL" by (simp add: Permission_ALL_def)
qed

lemma distinct_scopes: "distinct (map scope Permission_ALL)"
  by (simp add: Permission_ALL_def scope_def)

lemma scope_inj: "scope p = scope q \<longleftrightarrow> p = q"
  using distinct_scopes set_Permission_ALL(1) by (auto simp: distinct_map inj_on_def)

interpretation permission_scope: strict_wire_codec scope parse_scope
proof
  show "parse_scope (scope p) = Inr p" for p
  proof -
    have "find (\<lambda>q. scope q = scope p) Permission_ALL = Some p"
    proof (cases "find (\<lambda>q. scope q = scope p) Permission_ALL")
      case None
      with set_Permission_ALL(1) show ?thesis by (auto simp: find_None_iff)
    next
      case (Some q)
      then have "scope q = scope p" by (auto simp: find_Some_iff)
      with Some show ?thesis by (simp add: scope_inj)
    qed
    then show ?thesis by (simp add: parse_scope_def)
  qed
  show "parse_scope v = Inr p \<Longrightarrow> scope p = v" for v p
    by (auto simp: parse_scope_def result_simps find_Some_iff)
qed

definition viewer_permissions :: "permission set" where
  "viewer_permissions = {EventRead, IssueRead, IncidentExport, ProjectRead, DebugFileRead,
     ArtifactRead, ReleaseRead}"

definition admin_permissions :: "permission set" where
  "admin_permissions = {ProjectAdmin, DebugFileWrite, DebugFileDelete, ArtifactWrite, ArtifactDelete,
     ReleaseWrite, OrganizationAdmin}"

definition role_permissions :: "organization_role \<Rightarrow> permission set" where
  "role_permissions r = (case r of
       Viewer \<Rightarrow> viewer_permissions
     | Member \<Rightarrow> viewer_permissions \<union> {IssueWrite}
     | Admin \<Rightarrow> viewer_permissions \<union> {IssueWrite} \<union> admin_permissions
     | Owner \<Rightarrow> UNIV)"

lemma members_insert: "pset.members (pset_insert p s) = insert p (pset.members s)"
  by (auto simp: pset.members_def pset.contains_ins)

lemma fold_ins_members:
  "pset_ok s \<Longrightarrow> pset.members (fold pset_insert ps s) = pset.members s \<union> set ps"
  "pset_ok s \<Longrightarrow> pset_ok (fold pset_insert ps s)"
  using pset.fold_ins by blast+

lemma permission_UNIV: "(UNIV :: permission set) = set Permission_ALL"
  by (simp add: set_Permission_ALL)

lemma members_empty: "pset.members pset_empty = {}"
  by (simp add: pset.members_def pset.contains_empty)

lemma from_role_members: "pset_ok (from_role r) \<and> pset.members (from_role r) = role_permissions r"
proof
  show "pset_ok (from_role r)"
    by (simp add: from_role_def Let_def pset.ok_ins pset.ok_empty)
  have owner: "UNIV = insert OrganizationDelete (insert OrganizationOwner
      (viewer_permissions \<union> {IssueWrite} \<union> admin_permissions))"
    by (auto simp: permission_UNIV viewer_permissions_def admin_permissions_def Permission_ALL_def)
  show "pset.members (from_role r) = role_permissions r"
    by (cases r)
      (auto simp: from_role_def role_permissions_def Let_def members_insert members_empty owner
        viewer_permissions_def admin_permissions_def)
qed

text \<open>
  The permission bit-set refines sets of permissions: building from a list, membership,
  intersection, the subset test and iteration agree with the set operations, on every value that can
  be built.
\<close>
theorem permission_set_refines_sets:
  "{p. pset_contains (from_permissions ps) p} = set ps
   \<and> {p. pset_contains (pset_intersect s t) p} = {p. pset_contains s p} \<inter> {p. pset_contains t p}
   \<and> (is_subset_of (from_permissions ps) s \<longleftrightarrow> set ps \<subseteq> {p. pset_contains s p})
   \<and> set (pset_iter s) = {p. pset_contains s p} \<and> distinct (pset_iter s)"
  using pset.of_list(2)[of ps] pset.subset_of_members[OF pset.of_list(1), of ps s]
  by (auto simp: from_permissions_def pset.members_def pset.contains_intersect pset_iter_def
      set_Permission_ALL)

text \<open>
  The roles form a chain: each role has exactly the permissions listed for it, viewer is strictly
  below member, member below admin and admin below owner, and an owner has every permission.
\<close>
theorem role_hierarchy:
  "{p. pset_contains (from_role r) p} = role_permissions r
   \<and> is_subset_of (from_role Viewer) (from_role Member) \<and> \<not> is_subset_of (from_role Member) (from_role Viewer)
   \<and> is_subset_of (from_role Member) (from_role Admin) \<and> \<not> is_subset_of (from_role Admin) (from_role Member)
   \<and> is_subset_of (from_role Admin) (from_role Owner) \<and> \<not> is_subset_of (from_role Owner) (from_role Admin)
   \<and> pset_iter (from_role Owner) = Permission_ALL"
proof -
  have sub: "is_subset_of (from_role a) (from_role b) \<longleftrightarrow> role_permissions a \<subseteq> role_permissions b" for a b
    using from_role_members pset.subset_of_members by simp
  have contains: "{p. pset_contains (from_role r) p} = role_permissions r" for r
    using from_role_members[of r] by (simp add: pset.members_def)
  have "IssueWrite \<notin> viewer_permissions" "ProjectAdmin \<notin> viewer_permissions"
    "OrganizationOwner \<notin> viewer_permissions \<union> {IssueWrite} \<union> admin_permissions"
    by (auto simp: viewer_permissions_def admin_permissions_def)
  moreover have "ProjectAdmin \<in> admin_permissions" by (simp add: admin_permissions_def)
  moreover have "pset_contains (from_role Owner) p" for p
    using contains[of Owner] by (auto simp: role_permissions_def)
  ultimately show ?thesis
    using contains by (auto simp: sub role_permissions_def pset_iter_def)
qed

text \<open>
  Scope strings are a strict code for permissions: a string is accepted exactly when it is the
  scope of a permission, and then denotes that one.
\<close>
theorem parse_scope_exact: "parse_scope v = Inr p \<longleftrightarrow> v = scope p"
  by (rule permission_scope.dec_iff)

section \<open>E-mail addresses\<close>

lemma ascii_lower_classes:
  "is_ascii_control (ascii_lower c) = is_ascii_control c"
  "is_ascii_whitespace (ascii_lower c) = is_ascii_whitespace c"
  "code_of (ascii_lower c) < 128 \<longleftrightarrow> code_of c < 128"
  by (auto simp: ascii_lower_def ascii_defs of_char_of)

lemma ascii_lower_symbol:
  "\<not> is_ascii_alphabetic x \<Longrightarrow> ascii_lower c = x \<longleftrightarrow> c = x"
proof -
  assume x: "\<not> is_ascii_alphabetic x"
  show ?thesis
  proof (cases "is_ascii_uppercase c")
    case True
    then have "is_ascii_lowercase (ascii_lower c)" "is_ascii_alphabetic c"
      by (auto simp: ascii_lower_def ascii_defs of_char_of)
    with x show ?thesis by (auto simp: is_ascii_alphabetic_def)
  qed (simp add: ascii_lower_def)
qed

lemma email_text_ok_lower: "email_text_ok (to_ascii_lowercase v) = email_text_ok v"
  by (auto simp: email_text_ok_def to_ascii_lowercase_def is_ascii_def list_all_iff list_ex_iff
      ascii_lower_classes)

lemma singleton_affix:
  "prefix [x] v \<longleftrightarrow> v \<noteq> [] \<and> hd v = x"
  "suffix [x] v \<longleftrightarrow> v \<noteq> [] \<and> last v = x"
proof -
  show "prefix [x] v \<longleftrightarrow> v \<noteq> [] \<and> hd v = x" by (cases v) auto
  show "suffix [x] v \<longleftrightarrow> v \<noteq> [] \<and> last v = x" by (cases v rule: rev_cases) auto
qed

lemma lower_symbol:
  assumes "\<not> is_ascii_alphabetic x"
  shows "x \<in> set (to_ascii_lowercase v) \<longleftrightarrow> x \<in> set v"
    "prefix [x] (to_ascii_lowercase v) = prefix [x] v"
    "suffix [x] (to_ascii_lowercase v) = suffix [x] v"
proof -
  note sym = ascii_lower_symbol[OF assms]
  show "x \<in> set (to_ascii_lowercase v) \<longleftrightarrow> x \<in> set v"
    using sym by (metis image_iff set_map to_ascii_lowercase_def)
  show "prefix [x] (to_ascii_lowercase v) = prefix [x] v" "suffix [x] (to_ascii_lowercase v) = suffix [x] v"
    by (cases "v = []"; simp add: singleton_affix to_ascii_lowercase_def hd_map last_map sym)+
qed

lemma to_ascii_lowercase_Nil [simp]: "to_ascii_lowercase v = [] \<longleftrightarrow> v = []"
  by (simp add: to_ascii_lowercase_def)

lemma rsplit_once_lower:
  assumes "\<not> is_ascii_alphabetic x" "rsplit_once x v = Some (a, b)"
  shows "rsplit_once x (to_ascii_lowercase v) = Some (to_ascii_lowercase a, to_ascii_lowercase b)"
proof -
  have "v = a @ x # b" "x \<notin> set b" using assms(2) by (auto simp: rsplit_once_Some)
  moreover have "ascii_lower x = x" using assms(1) by (simp add: ascii_lower_symbol)
  ultimately show ?thesis
    using lower_symbol(1)[OF assms(1), of b] by (simp add: rsplit_once_Some to_ascii_lowercase_def)
qed

text \<open>
  The canonical form of an accepted e-mail address is itself accepted and canonical, so two
  addresses that differ only in letter case are stored under one canonical key; an accepted address
  has a non-empty local part of at most 64 bytes, one of its at-signs before a domain that contains a
  dot and neither begins nor ends with one, and at most 254 bytes in all.
\<close>
theorem email_canonical_stable:
  assumes "EmailAddress_parse v = Inr e"
  shows "em_display e = v \<and> em_canonical e = to_ascii_lowercase v \<and> length v \<le> 254
    \<and> EmailAddress_parse (em_canonical e) = Inr \<lparr>em_display = em_canonical e, em_canonical = em_canonical e\<rparr>
    \<and> (\<exists>local domain. v = local @ ''@'' @ domain \<and> CHR ''@'' \<notin> set domain \<and> local \<noteq> []
        \<and> length local \<le> 64 \<and> CHR ''.'' \<in> set domain \<and> hd domain \<noteq> CHR ''.'' \<and> last domain \<noteq> CHR ''.'')"
proof -
  from assms obtain l d where ok: "email_text_ok v" and split: "rsplit_once (CHR ''@'') v = Some (l, d)"
    and parts: "l \<noteq> []" "d \<noteq> []" "length l \<le> 64" "\<not> prefix ''.'' d" "\<not> suffix ''.'' d" "CHR ''.'' \<in> set d"
    and e: "e = \<lparr>em_display = v, em_canonical = to_ascii_lowercase v\<rparr>"
    by (auto simp: EmailAddress_parse_def split: if_splits option.splits)
  have sym: "\<not> is_ascii_alphabetic (CHR ''@'')" "\<not> is_ascii_alphabetic (CHR ''.'')"
    by (simp_all add: ascii_defs)
  have "EmailAddress_parse (em_canonical e) = Inr \<lparr>em_display = em_canonical e, em_canonical = em_canonical e\<rparr>"
    using ok parts rsplit_once_lower[OF sym(1) split] lower_symbol[OF sym(2), of d]
    by (simp add: EmailAddress_parse_def email_text_ok_lower e)
  moreover have "hd d \<noteq> CHR ''.''" "last d \<noteq> CHR ''.''"
    using parts(2,4,5) by (simp_all add: singleton_affix)
  moreover have "v = l @ ''@'' @ d" "CHR ''@'' \<notin> set d" "length v \<le> 254"
    using ok split by (auto simp: rsplit_once_Some email_text_ok_def)
  ultimately show ?thesis using parts e by auto
qed

theorem email_canonical_stable_witness:
  "EmailAddress_parse ''Ops@Example.org'' = Inr \<lparr>em_display = ''Ops@Example.org'', em_canonical = ''ops@example.org''\<rparr>
   \<and> EmailAddress_parse ''ops@example.org'' = Inr \<lparr>em_display = ''ops@example.org'', em_canonical = ''ops@example.org''\<rparr>"
proof -
  have low: "to_ascii_lowercase ''Ops@Example.org'' = ''ops@example.org''"
    by (simp add: to_ascii_lowercase_def ascii_lower_def is_ascii_uppercase_def char_of_eq_iff)
  have "email_text_ok ''Ops@Example.org''" by (simp add: email_text_ok_def is_ascii_def ascii_defs)
  then have p: "EmailAddress_parse ''Ops@Example.org'' = Inr \<lparr>em_display = ''Ops@Example.org'', em_canonical = ''ops@example.org''\<rparr>"
    by (simp add: EmailAddress_parse_def rsplit_once_def low singleton_affix)
  from email_canonical_stable[OF p, unfolded email_address.simps] p show ?thesis by blast
qed

end
