(* ===== verification/Crontab.thy ===== *)
theory Crontab
  imports Primitives
begin

text \<open>
  Crontab schedules of \<^verbatim>\<open>crates/domain/src/monitors.rs\<close>: the parser of one field into a 64-bit mask
  and the search for the next matching minute. The calendar (\<^verbatim>\<open>time::OffsetDateTime\<close>) is a
  parameter: a function from Unix seconds to broken-down time, \<open>None\<close> outside its range.
\<close>

unbundle bit_operations_syntax

datatype monitor_value_error =
    MV_InvalidText | MV_InvalidSchedule | MV_InvalidConfig | MV_InvalidStatus | MV_InvalidRun
  | MV_InvalidTime | MV_InvalidEndpoint | MV_InvalidHeader

section \<open>Fields\<close>

abbreviation parse_u8 :: "string \<Rightarrow> nat option" where
  "parse_u8 \<equiv> parse_unsigned 10 256"

definition item_step :: "string \<Rightarrow> string \<times> nat" where
  "item_step item = (case split_once (CHR ''/'') item of
     None \<Rightarrow> (item, 1) | Some (base, step) \<Rightarrow> (base, unwrap_or (parse_u8 step) 0))"

definition item_range :: "nat \<Rightarrow> nat \<Rightarrow> string \<Rightarrow> monitor_value_error + nat \<times> nat" where
  "item_range minimum maximum base =
     (if base = ''*'' then Inr (minimum, maximum)
      else case split_once (CHR ''-'') base of
        Some (s, e) \<Rightarrow>
          and_then (ok_or MV_InvalidSchedule (parse_u8 s)) (\<lambda>start.
          and_then (ok_or MV_InvalidSchedule (parse_u8 e)) (\<lambda>end'. Inr (start, end')))
      | None \<Rightarrow> and_then (ok_or MV_InvalidSchedule (parse_u8 base)) (\<lambda>exact. Inr (exact, exact)))"

text \<open>One comma-separated item: its first and last number and its step.\<close>

definition parse_item :: "nat \<Rightarrow> nat \<Rightarrow> string \<Rightarrow> monitor_value_error + nat \<times> nat \<times> nat" where
  "parse_item minimum maximum item =
     (if item = [] then Inl MV_InvalidSchedule
      else let (base, step) = item_step item in
        if step = 0 then Inl MV_InvalidSchedule
        else and_then (item_range minimum maximum base) (\<lambda>(start, end').
          if start < minimum \<or> end' > maximum \<or> start > end' then Inl MV_InvalidSchedule
          else Inr (start, end', step)))"

text \<open>\<^verbatim>\<open>(start..=end).step_by(step)\<close>.\<close>

definition step_range :: "nat \<Rightarrow> nat \<Rightarrow> nat \<Rightarrow> nat list" where
  "step_range start end' step = map (\<lambda>i. start + i * step) [0..<Suc ((end' - start) div step)]"

definition set_bits :: "nat list \<Rightarrow> 64 word \<Rightarrow> 64 word" where
  "set_bits ns bits = fold (\<lambda>n b. b OR push_bit n 1) ns bits"

fun parse_items :: "nat \<Rightarrow> nat \<Rightarrow> string list \<Rightarrow> 64 word \<Rightarrow> monitor_value_error + 64 word" where
  "parse_items minimum maximum [] bits = Inr bits"
| "parse_items minimum maximum (item # items) bits =
     and_then (parse_item minimum maximum item) (\<lambda>(start, end', step).
       parse_items minimum maximum items (set_bits (step_range start end' step) bits))"

definition parse_field :: "string \<Rightarrow> nat \<Rightarrow> nat \<Rightarrow> monitor_value_error + 64 word" where
  "parse_field v minimum maximum =
     and_then (parse_items minimum maximum (split_on (CHR '','') v) 0) (\<lambda>bits.
       if bits \<noteq> 0 then Inr bits else Inl MV_InvalidSchedule)"

definition cron_contains :: "64 word \<Rightarrow> nat \<Rightarrow> bool" where
  "cron_contains bits v = (bits AND push_bit v 1 \<noteq> 0)"

section \<open>Schedules\<close>

record compiled_crontab =
  cc_minute :: "64 word"
  cc_hour :: "64 word"
  cc_day :: "64 word"
  cc_month :: "64 word"
  cc_weekday :: "64 word"
  cc_day_wildcard :: bool
  cc_weekday_wildcard :: bool

datatype weekday = Sunday | Monday | Tuesday | Wednesday | Thursday | Friday | Saturday

definition weekday_number :: "weekday \<Rightarrow> nat" where
  "weekday_number d = (case d of Sunday \<Rightarrow> 0 | Monday \<Rightarrow> 1 | Tuesday \<Rightarrow> 2 | Wednesday \<Rightarrow> 3
     | Thursday \<Rightarrow> 4 | Friday \<Rightarrow> 5 | Saturday \<Rightarrow> 6)"

record date_time =
  dt_minute :: nat
  dt_hour :: nat
  dt_day :: nat
  dt_month :: nat
  dt_weekday :: weekday

definition cron_matches :: "compiled_crontab \<Rightarrow> date_time \<Rightarrow> bool" where
  "cron_matches c dt =
     (let weekday = weekday_number (dt_weekday dt);
          day_matches = (cron_contains (cc_day c) (dt_day dt) \<and> cron_contains (cc_weekday c) weekday);
          cron_day_matches =
            (if cc_day_wildcard c \<or> cc_weekday_wildcard c then day_matches
             else cron_contains (cc_day c) (dt_day dt) \<or> cron_contains (cc_weekday c) weekday)
      in cron_contains (cc_minute c) (dt_minute dt) \<and> cron_contains (cc_hour c) (dt_hour dt)
         \<and> cron_contains (cc_month c) (dt_month dt) \<and> cron_day_matches)"

definition checked_i64 :: "int \<Rightarrow> int option" where
  "checked_i64 v = (if -9223372036854775808 \<le> v \<and> v \<le> 9223372036854775807 then Some v else None)"

definition CRON_HORIZON_MINUTES :: int where "CRON_HORIZON_MINUTES = 2 * 366 * 24 * 60"

function cron_scan :: "(int \<Rightarrow> date_time option) \<Rightarrow> compiled_crontab \<Rightarrow> int \<Rightarrow> int
    \<Rightarrow> monitor_value_error + timestamp" where
  "cron_scan cal c next_minute offset =
     (if offset > CRON_HORIZON_MINUTES then Inl MV_InvalidSchedule
      else
        and_then (ok_or MV_InvalidTime (checked_i64 (offset * 60))) (\<lambda>delta.
        and_then (ok_or MV_InvalidTime (checked_i64 (next_minute + delta))) (\<lambda>candidate.
        and_then (ok_or MV_InvalidTime (cal candidate)) (\<lambda>dt.
        if cron_matches c dt then
          and_then (ok_or MV_InvalidTime (checked_i64 (candidate * 1000))) (\<lambda>ms.
          map_err (\<lambda>_. MV_InvalidTime) (Timestamp_from_unix_millis ms))
        else cron_scan cal c next_minute (offset + 1)))))"
  by pat_completeness auto
termination
  by (relation "measure (\<lambda>(_, _, _, offset). nat (CRON_HORIZON_MINUTES + 1 - offset))") auto

declare cron_scan.simps [simp del]

definition CompiledCrontab_next_after ::
  "(int \<Rightarrow> date_time option) \<Rightarrow> compiled_crontab \<Rightarrow> timestamp \<Rightarrow> monitor_value_error + timestamp" where
  "CompiledCrontab_next_after cal c after =
     (let seconds = after div 1000 in
      and_then (ok_or MV_InvalidTime
        (Option.bind (checked_i64 (seconds div 60 + 1)) (\<lambda>m. checked_i64 (m * 60)))) (\<lambda>next_minute.
      cron_scan cal c next_minute 0))"

section \<open>Fields denote sets of numbers\<close>

definition item_numbers :: "nat \<Rightarrow> nat \<Rightarrow> string \<Rightarrow> nat set" where
  "item_numbers minimum maximum item = (case parse_item minimum maximum item of
     Inl _ \<Rightarrow> {} | Inr (start, end', step) \<Rightarrow> {n. start \<le> n \<and> n \<le> end' \<and> (n - start) mod step = 0})"

lemma bit_set_bits: "bit (set_bits ns bits) n \<longleftrightarrow> bit bits n \<or> (n \<in> set ns \<and> n < 64)"
  unfolding set_bits_def
  by (induction ns arbitrary: bits) (auto simp: bit_or_iff bit_exp_iff possible_bit_word)

lemma set_step_range:
  assumes "0 < step" "start \<le> end'"
  shows "set (step_range start end' step) = {n. start \<le> n \<and> n \<le> end' \<and> (n - start) mod step = 0}"
proof -
  have sup: "n \<in> set (step_range start end' step)" if n: "start \<le> n" "n \<le> end'" "(n - start) mod step = 0" for n
  proof -
    have "(n - start) div step \<le> (end' - start) div step" using n by (intro div_le_mono) auto
    moreover have "n = start + (n - start) div step * step" using n by auto
    ultimately show ?thesis unfolding step_range_def set_map set_upt by (intro image_eqI) auto
  qed
  have "start + i * step \<le> end'" if "i \<le> (end' - start) div step" for i
  proof -
    have "i * step \<le> (end' - start) div step * step" using that by simp
    also have "\<dots> \<le> end' - start" by simp
    finally show ?thesis using assms by simp
  qed
  then have "set (step_range start end' step) \<subseteq> {n. start \<le> n \<and> n \<le> end' \<and> (n - start) mod step = 0}"
    unfolding step_range_def set_map set_upt by auto
  then show ?thesis
  proof (rule equalityI)
    show "{n. start \<le> n \<and> n \<le> end' \<and> (n - start) mod step = 0} \<subseteq> set (step_range start end' step)"
    proof
      fix n assume "n \<in> {n. start \<le> n \<and> n \<le> end' \<and> (n - start) mod step = 0}"
      then have "start \<le> n" "n \<le> end'" "(n - start) mod step = 0" by blast+
      then show "n \<in> set (step_range start end' step)" by (rule sup)
    qed
  qed
qed

lemma parse_item_ok:
  "parse_item mn mx item = Inr (start, end', step) \<Longrightarrow> mn \<le> start \<and> start \<le> end' \<and> end' \<le> mx \<and> 0 < step"
  by (auto simp: parse_item_def Let_def result_simps split: if_splits prod.splits)

lemma parse_items_bits:
  assumes "parse_items mn mx items bits = Inr bits'" "mx < 64"
  shows "bit bits' n \<longleftrightarrow> bit bits n \<or> (\<exists>item\<in>set items. n \<in> item_numbers mn mx item)"
  using assms(1)
proof (induction items arbitrary: bits)
  case (Cons item items)
  then obtain s e k where item: "parse_item mn mx item = Inr (s, e, k)"
    and rest: "parse_items mn mx items (set_bits (step_range s e k) bits) = Inr bits'"
    by (auto simp: result_simps)
  have "set (step_range s e k) = item_numbers mn mx item"
    using parse_item_ok[OF item] item by (simp add: set_step_range item_numbers_def)
  moreover have "n \<in> item_numbers mn mx item \<Longrightarrow> n < 64"
    using parse_item_ok[OF item] item assms(2) by (auto simp: item_numbers_def)
  ultimately show ?case using Cons.IH[OF rest] by (auto simp: bit_set_bits)
qed simp

lemma parse_items_accepts: "parse_items mn mx items bits = Inr bits' \<Longrightarrow> item \<in> set items
    \<Longrightarrow> \<exists>r. parse_item mn mx item = Inr r"
  by (induction items arbitrary: bits) (auto simp: result_simps)

lemma cron_contains_bit: "cron_contains bits n = bit bits n"
  by (simp add: cron_contains_def and_exp_eq_0_iff_not_bit)

lemma item_numbers_bounds: "n \<in> item_numbers mn mx item \<Longrightarrow> mn \<le> n \<and> n \<le> mx"
  by (auto simp: item_numbers_def dest: parse_item_ok split: sum.splits)

text \<open>
  A crontab field that is accepted denotes exactly the numbers its comma-separated items
  describe: the mask contains a number if and only if it lies on the start, end and step of some item;
  every such number is within the field's bounds and there is at least one.
\<close>
theorem parse_field_denotes:
  assumes "parse_field v mn mx = Inr bits" "mx < 64"
  shows "(\<forall>n. cron_contains bits n \<longleftrightarrow> (\<exists>item\<in>set (split_on (CHR '','') v). n \<in> item_numbers mn mx item))
    \<and> (\<forall>n. cron_contains bits n \<longrightarrow> mn \<le> n \<and> n \<le> mx) \<and> (\<exists>n. cron_contains bits n)
    \<and> (\<forall>item\<in>set (split_on (CHR '','') v). is_ok (parse_item mn mx item))"
proof -
  have items: "parse_items mn mx (split_on (CHR '','') v) 0 = Inr bits" and nz: "bits \<noteq> 0"
    using assms(1) by (auto simp: parse_field_def result_simps split: if_splits)
  have bits: "cron_contains bits n \<longleftrightarrow> (\<exists>item\<in>set (split_on (CHR '','') v). n \<in> item_numbers mn mx item)" for n
    using parse_items_bits[OF items assms(2)] by (simp add: cron_contains_bit)
  have "\<exists>n. bit bits n" using nz by (metis bit_0_eq bot_apply bot_bool_def bit_eq_iff)
  then show ?thesis
    using bits item_numbers_bounds parse_items_accepts[OF items]
    by (auto simp: cron_contains_bit is_ok_iff)
qed

theorem parse_field_denotes_witness:
  "\<exists>bits. parse_field ''1-9/4,30'' 0 59 = Inr bits \<and> cron_contains bits 5 \<and> cron_contains bits 30
     \<and> \<not> cron_contains bits 6"
proof -
  have u8: "parse_u8 ''1'' = Some 1" "parse_u8 ''9'' = Some 9" "parse_u8 ''4'' = Some 4" "parse_u8 ''30'' = Some 30"
    by (simp_all add: parse_unsigned_def strip_plus_def to_digit_def is_ascii_digit_def)
  have split: "split_on (CHR '','') ''1-9/4,30'' = [''1-9/4'', ''30'']" by simp
  have items: "parse_item 0 59 ''1-9/4'' = Inr (1, 9, 4)" "parse_item 0 59 ''30'' = Inr (30, 30, 1)"
    by (simp_all add: parse_item_def item_step_def item_range_def u8)
  have "bit (set_bits (step_range 30 30 1) (set_bits (step_range 1 9 4) 0)) 30"
    by (simp add: bit_set_bits step_range_def)
  then have "set_bits (step_range 30 30 1) (set_bits (step_range 1 9 4) 0) \<noteq> 0" by (metis bit_0_eq bot_apply bot_bool_def)
  then obtain bits where bits: "parse_field ''1-9/4,30'' 0 59 = Inr bits"
    by (simp only: parse_field_def split parse_items.simps items) simp
  from parse_field_denotes[OF bits] show ?thesis
    using bits by (auto simp: split items item_numbers_def)
qed

section \<open>The next occurrence\<close>

lemma cron_scan_sound:
  assumes "cron_scan cal c b k = Inr t" "0 \<le> k"
  shows "\<exists>j. k \<le> j \<and> j \<le> CRON_HORIZON_MINUTES \<and> t = (b + j * 60) * 1000 \<and> timestamp_ok t
    \<and> (\<exists>dt. cal (b + j * 60) = Some dt \<and> cron_matches c dt)
    \<and> (\<forall>i. k \<le> i \<and> i < j \<longrightarrow> (\<exists>dt. cal (b + i * 60) = Some dt \<and> \<not> cron_matches c dt))"
  using assms
proof (induction cal c b k rule: cron_scan.induct)
  case (1 cal c b k)
  from "1.prems"(1) have le: "k \<le> CRON_HORIZON_MINUTES"
    and delta: "checked_i64 (k * 60) = Some (k * 60)"
    and cand: "checked_i64 (b + k * 60) = Some (b + k * 60)"
    by (auto simp: cron_scan.simps[of cal c b k] result_simps checked_i64_def split: if_splits)
  from "1.prems"(1) le delta cand obtain dt where dt: "cal (b + k * 60) = Some dt"
    by (auto simp: cron_scan.simps[of cal c b k] result_simps)
  show ?case
  proof (cases "cron_matches c dt")
    case True
    with "1.prems"(1) le delta cand dt have "t = (b + k * 60) * 1000" "timestamp_ok t"
      by (auto simp: cron_scan.simps[of cal c b k] result_simps checked_i64_def timestamp.new_iff
          split: if_splits)
    with True dt le show ?thesis by (intro exI[of _ k]) auto
  next
    case False
    with "1.prems"(1) le delta cand dt have rest: "cron_scan cal c b (k + 1) = Inr t"
      by (simp add: cron_scan.simps[of cal c b k])
    have "\<not> k > CRON_HORIZON_MINUTES" using le by simp
    from "1.IH"[OF this False rest] "1.prems"(2) obtain j where
      j: "k + 1 \<le> j" "j \<le> CRON_HORIZON_MINUTES" "t = (b + j * 60) * 1000" "timestamp_ok t"
      "\<exists>dt. cal (b + j * 60) = Some dt \<and> cron_matches c dt"
      "\<forall>i. k + 1 \<le> i \<and> i < j \<longrightarrow> (\<exists>dt. cal (b + i * 60) = Some dt \<and> \<not> cron_matches c dt)"
      by auto
    have "\<exists>dt. cal (b + i * 60) = Some dt \<and> \<not> cron_matches c dt" if "k \<le> i" "i < j" for i
      using that dt False j(6) by (cases "i = k") auto
    with j show ?thesis by (intro exI[of _ j]) auto
  qed
qed

lemma cron_scan_exhausted:
  assumes "cron_scan cal c b k = Inl MV_InvalidSchedule" "0 \<le> k" "k \<le> j" "j \<le> CRON_HORIZON_MINUTES"
  shows "\<exists>dt. cal (b + j * 60) = Some dt \<and> \<not> cron_matches c dt"
  using assms
proof (induction cal c b k rule: cron_scan.induct)
  case (1 cal c b k)
  have le: "\<not> k > CRON_HORIZON_MINUTES" using "1.prems" by simp
  with "1.prems"(1) obtain dt where delta: "checked_i64 (k * 60) = Some (k * 60)"
    and cand: "checked_i64 (b + k * 60) = Some (b + k * 60)"
    and dt: "cal (b + k * 60) = Some dt" and False: "\<not> cron_matches c dt"
    and rest: "cron_scan cal c b (k + 1) = Inl MV_InvalidSchedule"
    by (auto simp: cron_scan.simps[of cal c b k] result_simps checked_i64_def
        split: if_splits)
  show ?case
  proof (cases "j = k")
    case True
    with dt False show ?thesis by auto
  next
    case False': False
    then show ?thesis using "1.IH"[OF le False rest] "1.prems" by auto
  qed
qed

lemma next_after_scan:
  assumes "timestamp_ok after"
  shows "CompiledCrontab_next_after cal c after = cron_scan cal c ((after div 60000 + 1) * 60) 0"
proof -
  have "after div 1000 div 60 = after div 60000" by (simp add: zdiv_zmult2_eq[symmetric])
  moreover have "-1035593280 \<le> after div 60000" "after div 60000 \<le> 4223371680"
    using assms by (auto simp: timestamp_ok_def MIN_TIMESTAMP_MILLIS_def MAX_TIMESTAMP_MILLIS_def)
  ultimately show ?thesis by (simp add: CompiledCrontab_next_after_def checked_i64_def)
qed

text \<open>
  C24. The next occurrence of a crontab schedule is the least one: the result is a valid timestamp on
  a whole minute, strictly later than the given instant and at most two leap years and a minute after
  it, its calendar time satisfies the schedule, and no whole minute in between does. When the search
  reports that the schedule is invalid, no whole minute of that horizon satisfies it.
\<close>
theorem cron_next_after_least:
  assumes "timestamp_ok after"
  shows "(\<forall>t. CompiledCrontab_next_after cal c after = Inr t \<longrightarrow>
      timestamp_ok t \<and> t mod 60000 = 0 \<and> after < t \<and> t \<le> after + 60000 * (CRON_HORIZON_MINUTES + 1)
      \<and> (\<exists>dt. cal (t div 1000) = Some dt \<and> cron_matches c dt)
      \<and> (\<forall>s. s mod 60000 = 0 \<and> after < s \<and> s < t \<longrightarrow>
           (\<exists>dt. cal (s div 1000) = Some dt \<and> \<not> cron_matches c dt)))
    \<and> (CompiledCrontab_next_after cal c after = Inl MV_InvalidSchedule \<longrightarrow>
      (\<forall>s. s mod 60000 = 0 \<and> after < s \<and> s \<le> after + 60000 * CRON_HORIZON_MINUTES \<longrightarrow>
           (\<exists>dt. cal (s div 1000) = Some dt \<and> \<not> cron_matches c dt)))"
proof -
  define b where "b = (after div 60000 + 1) * 60"
  have after: "after = after div 60000 * 60000 + after mod 60000" "0 \<le> after mod 60000" "after mod 60000 < 60000"
    by simp_all
  have before: "b * 1000 - 60000 \<le> after" "after < b * 1000" using after by (simp_all add: b_def)
  have minute: "\<exists>i. s = (b + i * 60) * 1000 \<and> 0 \<le> i" if "s mod 60000 = 0" "after < s" for s
  proof -
    have s: "s = s div 60000 * 60000" using that(1) by auto
    with that(2) after have "after div 60000 < s div 60000" by linarith
    with s show ?thesis
      by (intro exI[of _ "s div 60000 - (after div 60000 + 1)"]) (simp add: b_def algebra_simps)
  qed
  show ?thesis
  proof (intro conjI allI impI)
    fix t assume "CompiledCrontab_next_after cal c after = Inr t"
    then have "cron_scan cal c b 0 = Inr t" using next_after_scan[OF assms] by (simp add: b_def)
    from cron_scan_sound[OF this] obtain j where j: "0 \<le> j" "j \<le> CRON_HORIZON_MINUTES"
      "t = (b + j * 60) * 1000" "timestamp_ok t" "\<exists>dt. cal (b + j * 60) = Some dt \<and> cron_matches c dt"
      "\<forall>i. 0 \<le> i \<and> i < j \<longrightarrow> (\<exists>dt. cal (b + i * 60) = Some dt \<and> \<not> cron_matches c dt)" by auto
    show "timestamp_ok t" by fact
    have "t = (after div 60000 + 1 + j) * 60000" by (simp add: j(3) b_def algebra_simps)
    then show "t mod 60000 = 0" by simp
    show "after < t" "t \<le> after + 60000 * (CRON_HORIZON_MINUTES + 1)" using before j(1,2,3) by auto
    show "\<exists>dt. cal (t div 1000) = Some dt \<and> cron_matches c dt" using j(3,5) by (simp add: mult.commute)
    fix s assume s: "s mod 60000 = 0 \<and> after < s \<and> s < t"
    then obtain i where "s = (b + i * 60) * 1000" "0 \<le> i" using minute[of s] by auto
    with s j(3,6) show "\<exists>dt. cal (s div 1000) = Some dt \<and> \<not> cron_matches c dt"
      by (auto simp: mult.commute)
  next
    fix s assume "CompiledCrontab_next_after cal c after = Inl MV_InvalidSchedule"
      and s: "s mod 60000 = 0 \<and> after < s \<and> s \<le> after + 60000 * CRON_HORIZON_MINUTES"
    then have none: "cron_scan cal c b 0 = Inl MV_InvalidSchedule"
      using next_after_scan[OF assms] by (simp add: b_def)
    from s minute[of s] obtain i where i: "s = (b + i * 60) * 1000" "0 \<le> i" by auto
    with s before have "i \<le> CRON_HORIZON_MINUTES" by simp
    with cron_scan_exhausted[OF none _ i(2)] i show
      "\<exists>dt. cal (s div 1000) = Some dt \<and> \<not> cron_matches c dt" by (simp add: mult.commute)
  qed
qed

text \<open>A clock on which the search is evaluated: minutes and hours of a Thursday.\<close>

definition sample_clock :: "int \<Rightarrow> date_time option" where
  "sample_clock s = Some \<lparr>dt_minute = nat (s div 60 mod 60), dt_hour = nat (s div 3600 mod 24),
     dt_day = 1, dt_month = 1, dt_weekday = Thursday\<rparr>"

definition every_second_minute :: compiled_crontab where
  "every_second_minute = \<lparr>cc_minute = 4, cc_hour = -1, cc_day = -1, cc_month = -1, cc_weekday = -1,
     cc_day_wildcard = True, cc_weekday_wildcard = True\<rparr>"

lemma cron_contains_all: "n < 64 \<Longrightarrow> cron_contains (-1) n"
  by (simp add: cron_contains_bit)

theorem cron_next_after_least_witness:
  "CompiledCrontab_next_after sample_clock every_second_minute 60000 = Inr 120000
   \<and> (\<exists>dt. sample_clock 120 = Some dt \<and> cron_matches every_second_minute dt)"
proof -
  have ok: "timestamp_ok 60000"
    by (simp add: timestamp_ok_def MIN_TIMESTAMP_MILLIS_def MAX_TIMESTAMP_MILLIS_def)
  have "cron_contains 4 2" by (simp add: cron_contains_def)
  then have "cron_scan sample_clock every_second_minute 120 0 = Inr 120000"
    by (simp add: cron_scan.simps sample_clock_def every_second_minute_def cron_matches_def
        cron_contains_all weekday_number_def CRON_HORIZON_MINUTES_def checked_i64_def
        Timestamp_from_unix_millis_def MIN_TIMESTAMP_MILLIS_def MAX_TIMESTAMP_MILLIS_def)
  then have r: "CompiledCrontab_next_after sample_clock every_second_minute 60000 = Inr 120000"
    by (simp add: next_after_scan[OF ok])
  with cron_next_after_least[OF ok] have "\<exists>dt. sample_clock (120000 div 1000) = Some dt
      \<and> cron_matches every_second_minute dt" by blast
  with r show ?thesis by simp
qed

end
