(* ===== verification/Identities.thy ===== *)
theory Identities
  imports Primitives
begin

text \<open>
  Derived identities, \<^verbatim>\<open>crates/domain/src/finalization.rs\<close>: release, environment and hour-bucket
  identifiers and search tokens are prefixes of a hash of length-prefixed parts. The hash
  (\<^verbatim>\<open>blake3\<close>) is a parameter and is never assumed to be injective; what is proved is that the byte
  string that is hashed determines the kind of identity and all its inputs.
\<close>

section \<open>Length-prefixed parts\<close>

definition hash_part :: "bytes \<Rightarrow> bytes" where
  "hash_part v = be_bytes 8 (length v) @ v"

definition hash_parts :: "bytes list \<Rightarrow> bytes" where
  "hash_parts vs = concat (map hash_part vs)"

definition parts_ok :: "bytes list \<Rightarrow> bool" where
  "parts_ok vs = list_all (\<lambda>v. length v \<le> u64_max) vs"

lemma hash_part_append_inj:
  assumes "hash_part v @ r = hash_part w @ s" "length v \<le> u64_max" "length w \<le> u64_max"
  shows "v = w \<and> r = s"
proof -
  have "be_bytes 8 (length v) = be_bytes 8 (length w)" "v @ r = w @ s"
    using assms(1) by (simp_all add: hash_part_def)
  then have "length v = length w" using assms(2,3) by (simp add: be_bytes_eq_iff)
  with \<open>v @ r = w @ s\<close> show ?thesis by simp
qed

lemma hash_parts_simps [simp]: "hash_parts [] = []" "hash_parts (v # vs) = hash_part v @ hash_parts vs"
  by (simp_all add: hash_parts_def)

lemma hash_part_nonempty [simp]: "hash_part v \<noteq> []"
proof -
  have "length (hash_part v) > 0" by (simp add: hash_part_def)
  then show ?thesis by (metis length_greater_0_conv)
qed

lemma hash_parts_inj: "hash_parts vs = hash_parts ws \<Longrightarrow> parts_ok vs \<Longrightarrow> parts_ok ws \<Longrightarrow> vs = ws"
proof (induction vs arbitrary: ws)
  case Nil
  then show ?case by (cases ws) auto
next
  case (Cons v vs)
  then obtain w ws' where ws: "ws = w # ws'" by (cases ws) auto
  with Cons.prems have "v = w \<and> hash_parts vs = hash_parts ws'"
    by (intro hash_part_append_inj) (auto simp: parts_ok_def)
  with Cons ws show ?case by (auto simp: parts_ok_def)
qed

section \<open>Identity schemes\<close>

text \<open>
  A family of identities: each key has a byte string that is hashed, and the byte strings of two
  valid keys differ. Then, over any set of keys whose byte strings the hash separates, the derived
  identity determines the key.
\<close>

locale identity_scheme =
  fixes preimage :: "'k \<Rightarrow> bytes"
    and valid :: "'k \<Rightarrow> bool"
  assumes preimage_inj: "valid k \<Longrightarrow> valid k' \<Longrightarrow> preimage k = preimage k' \<Longrightarrow> k = k'"
begin

lemma preimage_iff: "valid k \<Longrightarrow> valid k' \<Longrightarrow> preimage k = preimage k' \<longleftrightarrow> k = k'"
  using preimage_inj by blast

lemma identities_separate:
  assumes "K \<subseteq> Collect valid" "inj_on hash (preimage ` K)"
  shows "inj_on (\<lambda>k. hash (preimage k)) K"
  using assms preimage_inj by (auto simp: inj_on_def subset_iff)

end

section \<open>Derived identities\<close>

definition derive_digest :: "(bytes \<Rightarrow> bytes) \<Rightarrow> string \<Rightarrow> bytes list \<Rightarrow> bytes" where
  "derive_digest blake3 domain vs = blake3 (hash_parts (as_bytes domain # vs))"

definition derive_id :: "(bytes \<Rightarrow> bytes) \<Rightarrow> string \<Rightarrow> bytes list \<Rightarrow> bytes" where
  "derive_id blake3 domain vs = take 16 (derive_digest blake3 domain vs)"

definition token :: "(bytes \<Rightarrow> bytes) \<Rightarrow> string \<Rightarrow> bytes list \<Rightarrow> int" where
  "token blake3 domain vs = from_be_signed 8 (take 8 (derive_digest blake3 domain vs))"

definition SearchToken_environment :: "(bytes \<Rightarrow> bytes) \<Rightarrow> string \<Rightarrow> int" where
  "SearchToken_environment H v = token H ''search/environment/v1'' [as_bytes v]"

definition SearchToken_release :: "(bytes \<Rightarrow> bytes) \<Rightarrow> string \<Rightarrow> int" where
  "SearchToken_release H v = token H ''search/release/v1'' [as_bytes v]"

definition SearchToken_user_id :: "(bytes \<Rightarrow> bytes) \<Rightarrow> string \<Rightarrow> int" where
  "SearchToken_user_id H v = token H ''search/user-id/v1'' [as_bytes v]"

definition SearchToken_tag_pair :: "(bytes \<Rightarrow> bytes) \<Rightarrow> string \<Rightarrow> string \<Rightarrow> int" where
  "SearchToken_tag_pair H k v = token H ''search/tag-pair/v1'' [as_bytes k, as_bytes v]"

definition derive_release_id :: "(bytes \<Rightarrow> bytes) \<Rightarrow> organization_id \<Rightarrow> string \<Rightarrow> bytes" where
  "derive_release_id H org version = derive_id H ''release-id/v1'' [be_bytes 8 org, as_bytes version]"

definition derive_environment_id :: "(bytes \<Rightarrow> bytes) \<Rightarrow> project_id \<Rightarrow> string \<Rightarrow> bytes" where
  "derive_environment_id H project name =
     derive_id H ''environment-id/v1'' [be_bytes_signed 4 project, as_bytes name]"

text \<open>\<open>None\<close> is the panic of \<^verbatim>\<open>expect\<close>; \<^verbatim>\<open>div_euclid\<close> by a positive number is \<open>div\<close>.\<close>

definition hour_start :: "timestamp \<Rightarrow> timestamp option" where
  "hour_start t = (case Timestamp_from_unix_millis (t div 3600000 * 3600000) of
     Inl _ \<Rightarrow> None | Inr s \<Rightarrow> Some s)"

definition derive_hour_bucket_id :: "(bytes \<Rightarrow> bytes) \<Rightarrow> project_id \<Rightarrow> bytes \<Rightarrow> timestamp \<Rightarrow> bytes" where
  "derive_hour_bucket_id H project issue start = derive_id H ''issue-hour/v1''
     [be_bytes_signed 4 project, issue, be_bytes_signed 8 start]"

section \<open>What is hashed determines what was meant\<close>

datatype identity_key =
    K_Release organization_id string
  | K_Environment project_id string
  | K_HourBucket project_id bytes timestamp
  | K_SearchEnvironment string
  | K_SearchRelease string
  | K_SearchUser string
  | K_SearchTag string string

fun identity_parts :: "identity_key \<Rightarrow> bytes list" where
  "identity_parts (K_Release org v) = [as_bytes ''release-id/v1'', be_bytes 8 org, as_bytes v]"
| "identity_parts (K_Environment p n) =
     [as_bytes ''environment-id/v1'', be_bytes_signed 4 p, as_bytes n]"
| "identity_parts (K_HourBucket p i t) =
     [as_bytes ''issue-hour/v1'', be_bytes_signed 4 p, i, be_bytes_signed 8 t]"
| "identity_parts (K_SearchEnvironment v) = [as_bytes ''search/environment/v1'', as_bytes v]"
| "identity_parts (K_SearchRelease v) = [as_bytes ''search/release/v1'', as_bytes v]"
| "identity_parts (K_SearchUser v) = [as_bytes ''search/user-id/v1'', as_bytes v]"
| "identity_parts (K_SearchTag k v) = [as_bytes ''search/tag-pair/v1'', as_bytes k, as_bytes v]"

fun identity_ok :: "identity_key \<Rightarrow> bool" where
  "identity_ok (K_Release org v) = (org \<le> i64_max \<and> length v \<le> u64_max)"
| "identity_ok (K_Environment p n) = (project_id_ok p \<and> length n \<le> u64_max)"
| "identity_ok (K_HourBucket p i t) = (project_id_ok p \<and> length i = 16 \<and> timestamp_ok t)"
| "identity_ok (K_SearchEnvironment v) = (length v \<le> u64_max)"
| "identity_ok (K_SearchRelease v) = (length v \<le> u64_max)"
| "identity_ok (K_SearchUser v) = (length v \<le> u64_max)"
| "identity_ok (K_SearchTag k v) = (length k \<le> u64_max \<and> length v \<le> u64_max)"

definition identity_preimage :: "identity_key \<Rightarrow> bytes" where
  "identity_preimage k = hash_parts (identity_parts k)"

lemma be_bytes_signed_inj:
  assumes "- (256 ^ k) \<le> 2 * v" "2 * v < 256 ^ k" "- (256 ^ k) \<le> 2 * w" "2 * w < 256 ^ k"
  shows "be_bytes_signed k v = be_bytes_signed k w \<longleftrightarrow> v = w"
  using from_be_bytes_signed[OF assms(1,2)] from_be_bytes_signed[OF assms(3,4)] by metis

lemma project_bytes_inj:
  "project_id_ok p \<Longrightarrow> project_id_ok q \<Longrightarrow> be_bytes_signed 4 p = be_bytes_signed 4 q \<longleftrightarrow> p = q"
  by (rule be_bytes_signed_inj) (auto simp: project_id_ok_def i32_ok_def)

lemma timestamp_bytes_inj:
  "timestamp_ok t \<Longrightarrow> timestamp_ok u \<Longrightarrow> be_bytes_signed 8 t = be_bytes_signed 8 u \<longleftrightarrow> t = u"
  by (rule be_bytes_signed_inj)
    (auto simp: timestamp_ok_def MIN_TIMESTAMP_MILLIS_def MAX_TIMESTAMP_MILLIS_def)

lemma be_bytes8_inj: "m \<le> u64_max \<Longrightarrow> n \<le> u64_max \<Longrightarrow> be_bytes 8 m = be_bytes 8 n \<longleftrightarrow> m = n"
  by (rule be_bytes_eq_iff) auto

lemma identity_parts_ok: "identity_ok k \<Longrightarrow> parts_ok (identity_parts k)"
  by (cases k) (auto simp: parts_ok_def)

lemma identity_parts_inj:
  "identity_ok k \<Longrightarrow> identity_ok k' \<Longrightarrow> identity_parts k = identity_parts k' \<Longrightarrow> k = k'"
  by (cases k; cases k')
    (simp_all add: project_bytes_inj timestamp_bytes_inj be_bytes8_inj)

interpretation identity: identity_scheme identity_preimage identity_ok
proof
  show "identity_ok k \<Longrightarrow> identity_ok k' \<Longrightarrow> identity_preimage k = identity_preimage k' \<Longrightarrow> k = k'" for k k'
    unfolding identity_preimage_def
    by (blast intro: identity_parts_inj dest: hash_parts_inj[OF _ identity_parts_ok identity_parts_ok])
qed

lemma derived_from_preimage:
  "derive_release_id H org v = take 16 (H (identity_preimage (K_Release org v)))"
  "derive_environment_id H p n = take 16 (H (identity_preimage (K_Environment p n)))"
  "derive_hour_bucket_id H p i t = take 16 (H (identity_preimage (K_HourBucket p i t)))"
  "SearchToken_environment H v = from_be_signed 8 (take 8 (H (identity_preimage (K_SearchEnvironment v))))"
  "SearchToken_release H v = from_be_signed 8 (take 8 (H (identity_preimage (K_SearchRelease v))))"
  "SearchToken_user_id H v = from_be_signed 8 (take 8 (H (identity_preimage (K_SearchUser v))))"
  "SearchToken_tag_pair H k v = from_be_signed 8 (take 8 (H (identity_preimage (K_SearchTag k v))))"
  by (simp_all add: derive_release_id_def derive_environment_id_def derive_hour_bucket_id_def
      SearchToken_environment_def SearchToken_release_def SearchToken_user_id_def
      SearchToken_tag_pair_def token_def derive_id_def derive_digest_def identity_preimage_def)

text \<open>
  C30. Derived identities are domain-separated and unambiguous: the bytes hashed for a release,
  environment, hour bucket or search token determine which of these it is and every input, and the
  derived release identifier is a function of those bytes alone. Distinct identities can coincide only
  by a collision of the hash itself.
\<close>
theorem derived_identities_unambiguous:
  assumes "identity_ok k" "identity_ok k'"
  shows "(identity_preimage k = identity_preimage k' \<longleftrightarrow> k = k')
    \<and> derive_release_id H org v = take 16 (H (identity_preimage (K_Release org v)))
    \<and> derive_environment_id H p n = take 16 (H (identity_preimage (K_Environment p n)))
    \<and> derive_hour_bucket_id H p i t = take 16 (H (identity_preimage (K_HourBucket p i t)))"
  using identity.preimage_iff[OF assms] derived_from_preimage by blast

theorem derived_identities_unambiguous_witness:
  "identity_preimage (K_SearchTag ''ab'' ''c'') \<noteq> identity_preimage (K_SearchTag ''a'' ''bc'')"
proof -
  have "identity_ok (K_SearchTag ''ab'' ''c'')" "identity_ok (K_SearchTag ''a'' ''bc'')" by simp_all
  from derived_identities_unambiguous[OF this] show ?thesis by simp
qed

lemma hour_start_total:
  assumes "timestamp_ok t"
  shows "\<exists>s. hour_start t = Some s \<and> s \<le> t \<and> t < s + 3600000 \<and> s mod 3600000 = 0 \<and> timestamp_ok s"
proof -
  let ?s = "t div 3600000 * 3600000"
  have "MIN_TIMESTAMP_MILLIS = -17259888 * 3600000" by (simp add: MIN_TIMESTAMP_MILLIS_def)
  with assms have "-17259888 * 3600000 \<le> t" by (simp add: timestamp_ok_def)
  then have "-17259888 \<le> t div 3600000" by (simp add: zdiv_mono1 flip: div_mult_self1_is_m)
  then have "timestamp_ok ?s"
    using assms by (auto simp: timestamp_ok_def MIN_TIMESTAMP_MILLIS_def MAX_TIMESTAMP_MILLIS_def)
  then show ?thesis
    by (auto simp: hour_start_def timestamp.new_accepts)
qed

end
