(* ===== verification/Monitors.thy ===== *)
theory Monitors
  imports Crontab Identities
begin

text \<open>
  Cron and uptime monitors, \<^verbatim>\<open>crates/domain/src/monitors.rs\<close>: derived identities, run states,
  uptime probe configuration, schedules and the validation of definitions, runs and updates. The
  \<^verbatim>\<open>url\<close> crate is the record of operations of \<^verbatim>\<open>Primitives\<close> with the few accessors added here.
\<close>

section \<open>Identities\<close>

definition hash16_preimage :: "string \<Rightarrow> bytes list \<Rightarrow> bytes" where
  "hash16_preimage domain parts = as_bytes domain @ hash_parts parts"

definition hash16 :: "(bytes \<Rightarrow> bytes) \<Rightarrow> string \<Rightarrow> bytes list \<Rightarrow> bytes" where
  "hash16 blake3 domain parts = take 16 (blake3 (hash16_preimage domain parts))"

definition MonitorId_derive :: "(bytes \<Rightarrow> bytes) \<Rightarrow> project_id \<Rightarrow> string \<Rightarrow> string \<Rightarrow> bytes" where
  "MonitorId_derive H p slug env =
     hash16 H ''metric/cron-monitor/v1'' [be_bytes_signed 4 p, as_bytes slug, as_bytes env]"

definition MonitorId_derive_uptime :: "(bytes \<Rightarrow> bytes) \<Rightarrow> project_id \<Rightarrow> string \<Rightarrow> string \<Rightarrow> bytes" where
  "MonitorId_derive_uptime H p slug env =
     hash16 H ''metric/uptime-monitor/v1'' [be_bytes_signed 4 p, as_bytes slug, as_bytes env]"

definition MonitorRunId_sdk :: "(bytes \<Rightarrow> bytes) \<Rightarrow> bytes \<Rightarrow> bytes \<Rightarrow> bytes" where
  "MonitorRunId_sdk H monitor check_in = hash16 H ''metric/cron-run/sdk/v1'' [monitor, check_in]"

definition MonitorRunId_missed :: "(bytes \<Rightarrow> bytes) \<Rightarrow> bytes \<Rightarrow> timestamp \<Rightarrow> bytes" where
  "MonitorRunId_missed H monitor t =
     hash16 H ''metric/cron-run/missed/v1'' [monitor, be_bytes_signed 8 t]"

definition MonitorRunId_uptime :: "(bytes \<Rightarrow> bytes) \<Rightarrow> bytes \<Rightarrow> timestamp \<Rightarrow> bytes" where
  "MonitorRunId_uptime H monitor t = hash16 H ''metric/uptime-run/v1'' [monitor, be_bytes_signed 8 t]"

section \<open>Run states\<close>

datatype run_status = R_InProgress | R_Success | R_Error | R_Timeout | R_Missed

definition run_status_as_str :: "run_status \<Rightarrow> string" where
  "run_status_as_str s = (case s of R_InProgress \<Rightarrow> ''in_progress'' | R_Success \<Rightarrow> ''success''
     | R_Error \<Rightarrow> ''error'' | R_Timeout \<Rightarrow> ''timeout'' | R_Missed \<Rightarrow> ''missed'')"

definition run_status_terminal :: "run_status \<Rightarrow> bool" where
  "run_status_terminal s = (s \<noteq> R_InProgress)"

definition run_status_parse :: "string \<Rightarrow> monitor_value_error + run_status" where
  "run_status_parse v =
     (if v = ''in_progress'' then Inr R_InProgress
      else if v = ''ok'' \<or> v = ''success'' then Inr R_Success
      else if v = ''error'' then Inr R_Error
      else if v = ''timeout'' then Inr R_Timeout
      else if v = ''missed'' then Inr R_Missed
      else Inl MV_InvalidStatus)"

datatype run_source = Src_Sdk | Src_Scheduler

datatype uptime_method = U_Get | U_Head

definition uptime_method_as_str :: "uptime_method \<Rightarrow> string" where
  "uptime_method_as_str m = (case m of U_Get \<Rightarrow> ''GET'' | U_Head \<Rightarrow> ''HEAD'')"

definition uptime_method_parse :: "string \<Rightarrow> monitor_value_error + uptime_method" where
  "uptime_method_parse v =
     (if v = ''GET'' \<or> v = ''get'' then Inr U_Get
      else if v = ''HEAD'' \<or> v = ''head'' then Inr U_Head else Inl MV_InvalidConfig)"

datatype uptime_failure =
    UF_Dns | UF_ForbiddenAddress | UF_Connect | UF_Timeout | UF_Redirect | UF_TooManyRedirects
  | UF_ResponseTooLarge | UF_UnexpectedStatus

definition uptime_failure_as_str :: "uptime_failure \<Rightarrow> string" where
  "uptime_failure_as_str f = (case f of UF_Dns \<Rightarrow> ''dns'' | UF_ForbiddenAddress \<Rightarrow> ''forbidden_address''
     | UF_Connect \<Rightarrow> ''connect'' | UF_Timeout \<Rightarrow> ''timeout'' | UF_Redirect \<Rightarrow> ''redirect''
     | UF_TooManyRedirects \<Rightarrow> ''too_many_redirects'' | UF_ResponseTooLarge \<Rightarrow> ''response_too_large''
     | UF_UnexpectedStatus \<Rightarrow> ''unexpected_status'')"

definition uptime_failure_parse :: "string \<Rightarrow> monitor_value_error + uptime_failure" where
  "uptime_failure_parse v =
     (if v = ''dns'' then Inr UF_Dns
      else if v = ''forbidden_address'' then Inr UF_ForbiddenAddress
      else if v = ''connect'' then Inr UF_Connect
      else if v = ''timeout'' then Inr UF_Timeout
      else if v = ''redirect'' then Inr UF_Redirect
      else if v = ''too_many_redirects'' then Inr UF_TooManyRedirects
      else if v = ''response_too_large'' then Inr UF_ResponseTooLarge
      else if v = ''unexpected_status'' then Inr UF_UnexpectedStatus
      else Inl MV_InvalidRun)"

interpretation run_status: wire_codec run_status_as_str run_status_parse
  by unfold_locales (auto simp: run_status_as_str_def run_status_parse_def split: run_status.split)

interpretation uptime_method: wire_codec uptime_method_as_str uptime_method_parse
  by unfold_locales (auto simp: uptime_method_as_str_def uptime_method_parse_def split: uptime_method.split)

interpretation uptime_failure: strict_wire_codec uptime_failure_as_str uptime_failure_parse
proof
  show "uptime_failure_parse (uptime_failure_as_str f) = Inr f" for f
    by (cases f) (simp_all add: uptime_failure_as_str_def uptime_failure_parse_def)
  show "uptime_failure_parse v = Inr f \<Longrightarrow> uptime_failure_as_str f = v" for v f
    by (auto simp: uptime_failure_as_str_def uptime_failure_parse_def split: if_splits)
qed

section \<open>Uptime probes\<close>

definition MAX_UPTIME_ENDPOINT_BYTES :: nat where "MAX_UPTIME_ENDPOINT_BYTES = 2048"
definition MAX_UPTIME_HEADERS :: nat where "MAX_UPTIME_HEADERS = 16"
definition MAX_UPTIME_HEADER_NAME_BYTES :: nat where "MAX_UPTIME_HEADER_NAME_BYTES = 64"
definition MAX_UPTIME_HEADER_VALUE_BYTES :: nat where "MAX_UPTIME_HEADER_VALUE_BYTES = 2048"
definition MAX_UPTIME_HEADERS_BYTES :: nat where "MAX_UPTIME_HEADERS_BYTES = 8 * 1024"
definition MAX_UPTIME_TIMEOUT_SECONDS :: nat where "MAX_UPTIME_TIMEOUT_SECONDS = 120"
definition MAX_UPTIME_REDIRECTS :: nat where "MAX_UPTIME_REDIRECTS = 3"

record 'u probe_url_ops = "'u url_ops" +
  url_password :: "'u \<Rightarrow> string option"
  url_port_or_known_default :: "'u \<Rightarrow> nat option"
  url_query_keys :: "'u \<Rightarrow> string list"
  url_clear_query :: "'u \<Rightarrow> 'u"
  url_append_pair :: "string \<Rightarrow> string \<Rightarrow> 'u \<Rightarrow> 'u"

definition UptimeEndpoint_new :: "'u probe_url_ops \<Rightarrow> string \<Rightarrow> monitor_value_error + string" where
  "UptimeEndpoint_new U v =
     (if v = [] \<or> length v > MAX_UPTIME_ENDPOINT_BYTES \<or> has_control v then Inl MV_InvalidEndpoint
      else and_then (ok_or MV_InvalidEndpoint (url_parse U v)) (\<lambda>p.
        if url_scheme U p \<notin> {''http'', ''https''} \<or> url_host_str U p = None \<or> url_username U p \<noteq> []
           \<or> url_password U p \<noteq> None \<or> url_fragment U p \<noteq> None
        then Inl MV_InvalidEndpoint else Inr v))"

definition UptimeEndpoint_host_key :: "'u probe_url_ops \<Rightarrow> string \<Rightarrow> monitor_value_error + string" where
  "UptimeEndpoint_host_key U v =
     and_then (ok_or MV_InvalidEndpoint (url_parse U v)) (\<lambda>p.
     and_then (ok_or MV_InvalidEndpoint (url_host_str U p)) (\<lambda>host.
     and_then (ok_or MV_InvalidEndpoint (url_port_or_known_default U p)) (\<lambda>port.
     Inr (to_ascii_lowercase host @ '':'' @ dec_string port))))"

definition UptimeEndpoint_redacted :: "'u probe_url_ops \<Rightarrow> string \<Rightarrow> string" where
  "UptimeEndpoint_redacted U v = (case url_parse U v of
       None \<Rightarrow> ''<invalid-url>''
     | Some p \<Rightarrow> url_to_string U
         (if url_query U p \<noteq> None
          then fold (\<lambda>key. url_append_pair U key ''<redacted>'') (url_query_keys U p) (url_clear_query U p)
          else p))"

definition SealedUptimeHeaderValue_new :: "bytes \<Rightarrow> monitor_value_error + bytes" where
  "SealedUptimeHeaderValue_new v =
     (if v = [] \<or> length v > MAX_UPTIME_HEADER_VALUE_BYTES + 64 then Inl MV_InvalidHeader else Inr v)"

definition sensitive_uptime_header :: "string \<Rightarrow> bool" where
  "sensitive_uptime_header n =
     (n \<in> {''authorization'', ''proxy-authorization'', ''cookie'', ''set-cookie'', ''x-api-key'',
          ''x-auth-token''}
      \<or> sublist ''token'' n \<or> sublist ''secret'' n \<or> sublist ''api-key'' n)"

definition forbidden_uptime_header :: "string \<Rightarrow> bool" where
  "forbidden_uptime_header n =
     (n \<in> {''host'', ''content-length'', ''transfer-encoding'', ''connection'', ''keep-alive'', ''te'',
          ''trailer'', ''upgrade'', ''forwarded'', ''via''}
      \<or> prefix ''proxy-'' n \<or> prefix ''x-forwarded-'' n)"

record uptime_header =
  uh_name :: string
  uh_value :: bytes
  uh_sensitive :: bool

definition UptimeHeader_validate :: "uptime_header \<Rightarrow> monitor_value_error + unit" where
  "UptimeHeader_validate h =
     (if uh_name h = [] \<or> length (uh_name h) > MAX_UPTIME_HEADER_NAME_BYTES
         \<or> \<not> list_all (\<lambda>c. is_ascii_lowercase c \<or> is_ascii_digit c \<or> c = CHR ''-'') (uh_name h)
         \<or> forbidden_uptime_header (uh_name h)
         \<or> uh_sensitive h \<noteq> sensitive_uptime_header (uh_name h)
      then Inl MV_InvalidHeader else Inr ())"

record uptime_config =
  uc_endpoint :: string
  uc_method :: uptime_method
  uc_status_min :: nat
  uc_status_max :: nat
  uc_timeout_seconds :: nat
  uc_max_redirects :: nat
  uc_headers :: "uptime_header list"

text \<open>The loop over the headers with the set of names seen and the running byte total.\<close>

fun check_headers :: "uptime_header list \<Rightarrow> string set \<Rightarrow> nat \<Rightarrow> monitor_value_error + nat" where
  "check_headers [] names used = Inr used"
| "check_headers (h # hs) names used =
     and_then (UptimeHeader_validate h) (\<lambda>_.
       if uh_name h \<in> names then Inl MV_InvalidHeader
       else let t = used + length (uh_name h) + length (uh_value h) in
         if t > u64_max then Inl MV_InvalidHeader
         else check_headers hs (insert (uh_name h) names) t)"

definition UptimeMonitorConfig_validate :: "uptime_config \<Rightarrow> monitor_value_error + unit" where
  "UptimeMonitorConfig_validate c =
     (if length (uc_headers c) > MAX_UPTIME_HEADERS
         \<or> \<not> (100 \<le> uc_status_min c \<and> uc_status_min c \<le> 599)
         \<or> \<not> (uc_status_min c \<le> uc_status_max c \<and> uc_status_max c \<le> 599)
         \<or> \<not> (1 \<le> uc_timeout_seconds c \<and> uc_timeout_seconds c \<le> MAX_UPTIME_TIMEOUT_SECONDS)
         \<or> uc_max_redirects c > MAX_UPTIME_REDIRECTS
      then Inl MV_InvalidConfig
      else and_then (check_headers (uc_headers c) {} 0) (\<lambda>used.
        if used > MAX_UPTIME_HEADERS_BYTES + length (uc_headers c) * 64
        then Inl MV_InvalidHeader else Inr ()))"

section \<open>Schedules\<close>

definition MAX_MONITOR_SCHEDULE_BYTES :: nat where "MAX_MONITOR_SCHEDULE_BYTES = 128"
definition MAX_MONITOR_INTERVAL_MINUTES :: nat where "MAX_MONITOR_INTERVAL_MINUTES = 366 * 24 * 60"

datatype monitor_schedule =
    Interval nat
  | Crontab string compiled_crontab

definition MonitorSchedule_interval :: "nat \<Rightarrow> monitor_value_error + monitor_schedule" where
  "MonitorSchedule_interval minutes =
     (if \<not> (1 \<le> minutes \<and> minutes \<le> MAX_MONITOR_INTERVAL_MINUTES) then Inl MV_InvalidSchedule
      else Inr (Interval minutes))"

definition compile_crontab :: "string list \<Rightarrow> monitor_value_error + compiled_crontab" where
  "compile_crontab parts =
     and_then (parse_field (parts ! 0) 0 59) (\<lambda>minute.
     and_then (parse_field (parts ! 1) 0 23) (\<lambda>hour.
     and_then (parse_field (parts ! 2) 1 31) (\<lambda>day.
     and_then (parse_field (parts ! 3) 1 12) (\<lambda>month.
     and_then (parse_field (parts ! 4) 0 6) (\<lambda>weekday.
     Inr \<lparr>cc_minute = minute, cc_hour = hour, cc_day = day, cc_month = month, cc_weekday = weekday,
          cc_day_wildcard = (parts ! 2 = ''*''), cc_weekday_wildcard = (parts ! 4 = ''*'')\<rparr>)))))"

definition MonitorSchedule_crontab :: "string \<Rightarrow> monitor_value_error + monitor_schedule" where
  "MonitorSchedule_crontab expression =
     (if expression = [] \<or> length expression > MAX_MONITOR_SCHEDULE_BYTES then Inl MV_InvalidSchedule
      else let parts = split_ascii_whitespace expression in
        if length parts \<noteq> 5 then Inl MV_InvalidSchedule
        else and_then (compile_crontab parts) (\<lambda>compiled. Inr (Crontab (join '' '' parts) compiled)))"

definition schedule_kind :: "monitor_schedule \<Rightarrow> string" where
  "schedule_kind s = (case s of Interval _ \<Rightarrow> ''interval'' | Crontab _ _ \<Rightarrow> ''crontab'')"

definition schedule_value :: "monitor_schedule \<Rightarrow> string" where
  "schedule_value s = (case s of Interval minutes \<Rightarrow> dec_string minutes | Crontab expression _ \<Rightarrow> expression)"

definition add_millis :: "timestamp \<Rightarrow> int \<Rightarrow> monitor_value_error + timestamp" where
  "add_millis t delta =
     and_then (ok_or MV_InvalidTime (checked_i64 (t + delta))) (\<lambda>v.
     map_err (\<lambda>_. MV_InvalidTime) (Timestamp_from_unix_millis v))"

definition MonitorSchedule_next_after ::
  "(int \<Rightarrow> date_time option) \<Rightarrow> monitor_schedule \<Rightarrow> timestamp \<Rightarrow> monitor_value_error + timestamp" where
  "MonitorSchedule_next_after cal s after = (case s of
       Interval minutes \<Rightarrow>
         and_then (ok_or MV_InvalidTime (checked_i64 (int minutes * 60000))) (add_millis after)
     | Crontab _ compiled \<Rightarrow> CompiledCrontab_next_after cal compiled after)"

section \<open>Configurations, definitions and runs\<close>

definition MAX_MONITOR_SLUG_BYTES :: nat where "MAX_MONITOR_SLUG_BYTES = 64"
definition MAX_MONITOR_NAME_BYTES :: nat where "MAX_MONITOR_NAME_BYTES = 128"
definition MAX_MONITOR_ENVIRONMENT_BYTES :: nat where "MAX_MONITOR_ENVIRONMENT_BYTES = 64"
definition MAX_MONITOR_MARGIN_SECONDS :: nat where "MAX_MONITOR_MARGIN_SECONDS = 24 * 60 * 60"
definition MAX_MONITOR_RUNTIME_SECONDS :: nat where "MAX_MONITOR_RUNTIME_SECONDS = 7 * 24 * 60 * 60"

record monitor_config =
  mc_schedule :: monitor_schedule
  mc_checkin_margin_seconds :: nat
  mc_max_runtime_seconds :: nat

definition MonitorConfig_validate :: "monitor_config \<Rightarrow> monitor_value_error + unit" where
  "MonitorConfig_validate c =
     (if mc_checkin_margin_seconds c > MAX_MONITOR_MARGIN_SECONDS \<or> mc_max_runtime_seconds c = 0
         \<or> mc_max_runtime_seconds c > MAX_MONITOR_RUNTIME_SECONDS
      then Inl MV_InvalidConfig else Inr ())"

definition missed_at :: "monitor_config \<Rightarrow> timestamp \<Rightarrow> monitor_value_error + timestamp" where
  "missed_at c scheduled_for = add_millis scheduled_for (int (mc_checkin_margin_seconds c) * 1000)"

definition timeout_at :: "monitor_config \<Rightarrow> timestamp \<Rightarrow> monitor_value_error + timestamp" where
  "timeout_at c started_at = add_millis started_at (int (mc_max_runtime_seconds c) * 1000)"

definition validate_text :: "string \<Rightarrow> nat \<Rightarrow> monitor_value_error + unit" where
  "validate_text v maximum =
     (if v = [] \<or> length v > maximum \<or> has_control v then Inl MV_InvalidText else Inr ())"

record monitor_definition =
  md_id :: bytes
  md_project_id :: project_id
  md_slug :: string
  md_name :: string
  md_environment_id :: bytes
  md_environment :: string
  md_enabled :: bool
  md_managed_by_web :: bool
  md_revision :: nat
  md_config :: monitor_config
  md_uptime :: "uptime_config option"
  md_next_expected_at :: timestamp
  md_last_run_id :: "bytes option"
  md_last_status :: "run_status option"
  md_last_check_in_at :: "timestamp option"
  md_created_at :: timestamp
  md_updated_at :: timestamp

definition MonitorDefinition_validate :: "monitor_definition \<Rightarrow> monitor_value_error + unit" where
  "MonitorDefinition_validate d =
     and_then (validate_text (md_slug d) MAX_MONITOR_SLUG_BYTES) (\<lambda>_.
     and_then (validate_text (md_name d) MAX_MONITOR_NAME_BYTES) (\<lambda>_.
     and_then (validate_text (md_environment d) MAX_MONITOR_ENVIRONMENT_BYTES) (\<lambda>_.
     and_then (MonitorConfig_validate (md_config d)) (\<lambda>_.
     if is_some_and (md_uptime d) (\<lambda>u. \<not> is_ok (UptimeMonitorConfig_validate u))
     then Inl MV_InvalidConfig
     else if md_revision d = 0 \<or> md_updated_at d < md_created_at d then Inl MV_InvalidConfig
     else Inr ()))))"

record monitor_run =
  mr_id :: bytes
  mr_project_id :: project_id
  mr_monitor_id :: bytes
  mr_check_in_id :: "bytes option"
  mr_status :: run_status
  mr_source :: run_source
  mr_scheduled_for :: "timestamp option"
  mr_started_at :: timestamp
  mr_finished_at :: "timestamp option"
  mr_duration_ms :: "nat option"
  mr_received_at :: timestamp
  mr_release_id :: "bytes option"
  mr_timeout_at :: "timestamp option"
  mr_delete_at :: "timestamp option"
  mr_http_status :: "nat option"
  mr_uptime_failure :: "uptime_failure option"

definition MonitorRun_validate :: "monitor_run \<Rightarrow> monitor_value_error + unit" where
  "MonitorRun_validate r =
     (if (mr_finished_at r \<noteq> None) \<noteq> run_status_terminal (mr_status r)
         \<or> is_some_and (mr_finished_at r) (\<lambda>t. t < mr_started_at r)
         \<or> is_some_and (mr_duration_ms r) (\<lambda>d. d > i64_max)
         \<or> (mr_source r = Src_Sdk) \<noteq> (mr_check_in_id r \<noteq> None)
         \<or> is_some_and (mr_http_status r) (\<lambda>s. \<not> (100 \<le> s \<and> s \<le> 599))
         \<or> ((mr_http_status r \<noteq> None \<or> mr_uptime_failure r \<noteq> None)
             \<and> (mr_source r \<noteq> Src_Scheduler \<or> \<not> run_status_terminal (mr_status r)))
      then Inl MV_InvalidRun else Inr ())"

definition MonitorUpdate_validate ::
  "monitor_definition option \<Rightarrow> monitor_run \<Rightarrow> monitor_value_error + unit" where
  "MonitorUpdate_validate d r =
     and_then (MonitorRun_validate r) (\<lambda>_.
     case d of None \<Rightarrow> Inr ()
     | Some d \<Rightarrow> and_then (MonitorDefinition_validate d) (\<lambda>_.
         if md_id d \<noteq> mr_monitor_id r \<or> md_project_id d \<noteq> mr_project_id r then Inl MV_InvalidRun
         else Inr ()))"

section \<open>Monitor identities are unambiguous\<close>

datatype monitor_key =
    MK_Cron project_id string string
  | MK_Uptime project_id string string
  | MK_RunSdk bytes bytes
  | MK_RunMissed bytes timestamp
  | MK_RunUptime bytes timestamp

fun monitor_preimage :: "monitor_key \<Rightarrow> bytes" where
  "monitor_preimage (MK_Cron p s e) =
     hash16_preimage ''metric/cron-monitor/v1'' [be_bytes_signed 4 p, as_bytes s, as_bytes e]"
| "monitor_preimage (MK_Uptime p s e) =
     hash16_preimage ''metric/uptime-monitor/v1'' [be_bytes_signed 4 p, as_bytes s, as_bytes e]"
| "monitor_preimage (MK_RunSdk m c) = hash16_preimage ''metric/cron-run/sdk/v1'' [m, c]"
| "monitor_preimage (MK_RunMissed m t) =
     hash16_preimage ''metric/cron-run/missed/v1'' [m, be_bytes_signed 8 t]"
| "monitor_preimage (MK_RunUptime m t) = hash16_preimage ''metric/uptime-run/v1'' [m, be_bytes_signed 8 t]"

fun monitor_key_ok :: "monitor_key \<Rightarrow> bool" where
  "monitor_key_ok (MK_Cron p s e) = (project_id_ok p \<and> length s \<le> u64_max \<and> length e \<le> u64_max)"
| "monitor_key_ok (MK_Uptime p s e) = (project_id_ok p \<and> length s \<le> u64_max \<and> length e \<le> u64_max)"
| "monitor_key_ok (MK_RunSdk m c) = (length m = 16 \<and> length c = 16)"
| "monitor_key_ok (MK_RunMissed m t) = (length m = 16 \<and> timestamp_ok t)"
| "monitor_key_ok (MK_RunUptime m t) = (length m = 16 \<and> timestamp_ok t)"

text \<open>The domain is not length-prefixed, so no domain may be a prefix of another.\<close>

lemma hash16_preimage_inj:
  assumes "hash16_preimage d ps = hash16_preimage d qs" "parts_ok ps" "parts_ok qs"
  shows "ps = qs"
  using assms by (auto simp: hash16_preimage_def intro: hash_parts_inj)

lemma hash16_domains_apart:
  assumes "take n (as_bytes d) \<noteq> take n (as_bytes e)" "n \<le> length d" "n \<le> length e"
  shows "hash16_preimage d ps \<noteq> hash16_preimage e qs"
proof
  assume "hash16_preimage d ps = hash16_preimage e qs"
  then have "take n (hash16_preimage d ps) = take n (hash16_preimage e qs)" by simp
  with assms show False by (simp add: hash16_preimage_def)
qed

lemma as_bytes_take: "take n (as_bytes s) = as_bytes (take n s)"
  by (simp add: as_bytes_def take_map)

lemma monitor_preimage_inj:
  assumes "monitor_key_ok k" "monitor_key_ok k'" "monitor_preimage k = monitor_preimage k'"
  shows "k = k'"
proof -
  have apart: "hash16_preimage d ps \<noteq> hash16_preimage e qs"
    if "take 20 d \<noteq> take 20 e" "20 \<le> length d" "20 \<le> length e" for d e ps qs
    using hash16_domains_apart[of 20 d e] that by (simp add: as_bytes_take)
  show ?thesis
    using assms
    by (cases k; cases k')
      (auto simp: apart parts_ok_def project_bytes_inj timestamp_bytes_inj
        dest!: hash16_preimage_inj)
qed

interpretation monitor_identity: identity_scheme monitor_preimage monitor_key_ok
  by unfold_locales (rule monitor_preimage_inj)

text \<open>
  Monitor and run identifiers are domain-separated and unambiguous: the bytes hashed for a cron
  or uptime monitor, an SDK run, a missed run or a probe run determine which of these it is and all
  its inputs.
\<close>
theorem monitor_ids_unambiguous:
  assumes "monitor_key_ok k" "monitor_key_ok k'"
  shows "(monitor_preimage k = monitor_preimage k' \<longleftrightarrow> k = k')
    \<and> MonitorId_derive H p s e = take 16 (H (monitor_preimage (MK_Cron p s e)))
    \<and> MonitorId_derive_uptime H p s e = take 16 (H (monitor_preimage (MK_Uptime p s e)))
    \<and> MonitorRunId_sdk H m c = take 16 (H (monitor_preimage (MK_RunSdk m c)))
    \<and> MonitorRunId_missed H m t = take 16 (H (monitor_preimage (MK_RunMissed m t)))
    \<and> MonitorRunId_uptime H m t = take 16 (H (monitor_preimage (MK_RunUptime m t)))"
  using monitor_identity.preimage_iff[OF assms]
  by (simp add: MonitorId_derive_def MonitorId_derive_uptime_def MonitorRunId_sdk_def
      MonitorRunId_missed_def MonitorRunId_uptime_def hash16_def)

theorem monitor_ids_unambiguous_witness:
  "monitor_preimage (MK_Cron 7 ''nightly'' ''prod'') \<noteq> monitor_preimage (MK_Uptime 7 ''nightly'' ''prod'')"
proof -
  have "monitor_key_ok (MK_Cron 7 ''nightly'' ''prod'')" "monitor_key_ok (MK_Uptime 7 ''nightly'' ''prod'')"
    by (simp_all add: project_id_ok_def i32_ok_def)
  from monitor_ids_unambiguous[OF this] show ?thesis by simp
qed

section \<open>Stored schedules\<close>

lemma crontab_parts:
  assumes "MonitorSchedule_crontab e = Inr s"
  obtains compiled where "s = Crontab (join '' '' (split_ascii_whitespace e)) compiled"
    "compile_crontab (split_ascii_whitespace e) = Inr compiled"
    "length (split_ascii_whitespace e) = 5" "length e \<le> MAX_MONITOR_SCHEDULE_BYTES"
  using assms by (auto simp: MonitorSchedule_crontab_def Let_def result_simps split: if_splits)

lemma crontab_reparse:
  assumes "MonitorSchedule_crontab e = Inr s"
  shows "MonitorSchedule_crontab (schedule_value s) = Inr s"
    and "length (schedule_value s) \<le> length e"
proof -
  from crontab_parts[OF assms] obtain compiled where
    s: "s = Crontab (join '' '' (split_ascii_whitespace e)) compiled"
    and c: "compile_crontab (split_ascii_whitespace e) = Inr compiled"
    and len: "length (split_ascii_whitespace e) = 5" "length e \<le> MAX_MONITOR_SCHEDULE_BYTES" by blast
  let ?ws = "split_ascii_whitespace e"
  have ne: "?ws \<noteq> []" using len(1) by auto
  have words: "split_ascii_whitespace (join '' '' ?ws) = ?ws"
    using ne split_ascii_whitespace_words by (rule split_ascii_whitespace_join) 
  have short: "length (join '' '' ?ws) \<le> length e" using length_join_words[OF ne] .
  have "join '' '' ?ws \<noteq> []" using words ne by (auto simp: split_ascii_whitespace_def)
  with words c len short s show "MonitorSchedule_crontab (schedule_value s) = Inr s"
    by (simp add: MonitorSchedule_crontab_def schedule_value_def)
  show "length (schedule_value s) \<le> length e" using short s by (simp add: schedule_value_def)
qed

lemma interval_next_after:
  assumes "timestamp_ok after" "MonitorSchedule_interval m = Inr s"
  shows "MonitorSchedule_next_after cal s after =
    (if after + int m * 60000 \<le> MAX_TIMESTAMP_MILLIS then Inr (after + int m * 60000) else Inl MV_InvalidTime)"
proof -
  have s: "s = Interval m" "1 \<le> m" "m \<le> 527040"
    using assms(2) by (auto simp: MonitorSchedule_interval_def MAX_MONITOR_INTERVAL_MINUTES_def split: if_splits)
  have "checked_i64 (int m * 60000) = Some (int m * 60000)"
    using s by (auto simp: checked_i64_def)
  moreover have "checked_i64 (after + int m * 60000) = Some (after + int m * 60000)"
    using s assms(1)
    by (auto simp: checked_i64_def timestamp_ok_def MIN_TIMESTAMP_MILLIS_def MAX_TIMESTAMP_MILLIS_def)
  ultimately show ?thesis
    using s assms(1)
    by (auto simp: MonitorSchedule_next_after_def add_millis_def Timestamp_from_unix_millis_def timestamp_ok_def)
qed

text \<open>
  A stored schedule reads back as itself: the text kept for an accepted crontab expression is no
  longer than the expression and compiles to the same schedule, and the text kept for an interval is
  the decimal number of minutes, from which the same interval is rebuilt.
\<close>
theorem schedule_value_round_trip:
  "(\<forall>e s. MonitorSchedule_crontab e = Inr s \<longrightarrow>
      MonitorSchedule_crontab (schedule_value s) = Inr s \<and> length (schedule_value s) \<le> length e)
   \<and> (\<forall>m s. MonitorSchedule_interval m = Inr s \<longrightarrow>
      Option.bind (parse_unsigned 10 (2 ^ 32) (schedule_value s)) (\<lambda>n. Some (MonitorSchedule_interval n))
        = Some (Inr s))"
proof (intro conjI allI impI)
  fix m s assume s: "MonitorSchedule_interval m = Inr s"
  then have "s = Interval m" "m < 2 ^ 32"
    by (auto simp: MonitorSchedule_interval_def MAX_MONITOR_INTERVAL_MINUTES_def split: if_splits)
  with s show "Option.bind (parse_unsigned 10 (2 ^ 32) (schedule_value s))
      (\<lambda>n. Some (MonitorSchedule_interval n)) = Some (Inr s)"
    by (simp add: schedule_value_def parse_unsigned_digits_of)
qed (fact crontab_reparse)+

theorem schedule_value_round_trip_witness:
  "Option.bind (parse_unsigned 10 (2 ^ 32) (schedule_value (Interval 5)))
     (\<lambda>n. Some (MonitorSchedule_interval n)) = Some (Inr (Interval 5))"
proof -
  have "MonitorSchedule_interval 5 = Inr (Interval 5)"
    by (simp add: MonitorSchedule_interval_def MAX_MONITOR_INTERVAL_MINUTES_def)
  with schedule_value_round_trip show ?thesis by blast
qed

end
