(* ===== verification/Envelope.thy ===== *)
theory Envelope
  imports Primitives
begin

text \<open>
  The Sentry envelope parser, \<^verbatim>\<open>crates/sentry-protocol/src/lib.rs\<close>. The body is a list of bytes read
  through a cursor; \<^verbatim>\<open>serde_json\<close>, \<^verbatim>\<open>url\<close> and \<^verbatim>\<open>hex\<close> are parameters, collected in a record. One
  round of the item loop is \<open>envelope_item\<close>; the loop terminates because every round moves the
  cursor forward.
\<close>

section \<open>Data\<close>

datatype protocol_error = Invalid string | TooLarge string

record envelope_limits =
  el_max_items :: nat
  el_max_event_bytes :: nat
  el_max_replay_bytes :: nat

record attachment_limits =
  al_max_count :: nat
  al_max_item_bytes :: nat
  al_max_total_bytes :: nat

record dsn_auth =
  da_key :: dsn_key
  da_project_id :: nat

datatype raw_signal_kind = RS_Log | RS_Transaction | RS_Span | RS_Session

datatype disabled_category =
    DC_Transaction | DC_Session | DC_Profile | DC_Replay | DC_CheckIn | DC_Span | DC_Statsd
  | DC_Attachment | DC_OtherKnown

definition sentry_name :: "disabled_category \<Rightarrow> string" where
  "sentry_name c = (case c of DC_Transaction \<Rightarrow> ''transaction'' | DC_Session \<Rightarrow> ''session''
     | DC_Profile \<Rightarrow> ''profile'' | DC_Replay \<Rightarrow> ''replay'' | DC_CheckIn \<Rightarrow> ''monitor''
     | DC_Span \<Rightarrow> ''span'' | DC_Statsd \<Rightarrow> ''metric_bucket'' | DC_Attachment \<Rightarrow> ''attachment''
     | DC_OtherKnown \<Rightarrow> ''default'')"

record raw_event =
  re_header_event_id :: "event_id option"
  re_bytes :: bytes

record raw_signal =
  rs_kind :: raw_signal_kind
  rs_bytes :: bytes

record raw_metric =
  rm_item_count :: nat
  rm_bytes :: bytes

record raw_replay =
  rr_event :: bytes
  rr_recording :: bytes

record raw_attachment =
  ra_position :: nat
  ra_filename :: string
  ra_content_type :: string
  ra_attachment_type :: string
  ra_bytes :: bytes

record discarded_item =
  di_category :: "disabled_category option"
  di_reason :: string

record parsed_envelope =
  pe_event_id :: "event_id option"
  pe_dsn :: "dsn_auth option"
  pe_primary :: "raw_event option"
  pe_signals :: "raw_signal list"
  pe_metrics :: "raw_metric list"
  pe_replays :: "raw_replay list"
  pe_check_ins :: "bytes list"
  pe_attachments :: "raw_attachment list"
  pe_discarded :: "discarded_item list"
  pe_client_report_quantity :: nat

record wire_envelope_header =
  wh_event_id :: "string option"
  wh_dsn :: "string option"

record wire_item_header =
  wi_kind :: "string option"
  wi_length :: "nat option"
  wi_event_id :: "string option"
  wi_filename :: "string option"
  wi_content_type :: "string option"
  wi_attachment_type :: "string option"
  wi_item_count :: "nat option"

record client_report_entry =
  ce_reason :: string
  ce_category :: string
  ce_quantity :: nat

text \<open>What the parser uses of other crates.\<close>

record 'u wire_ops =
  json_envelope_header :: "bytes \<Rightarrow> wire_envelope_header option"
  json_item_header :: "bytes \<Rightarrow> wire_item_header option"
  json_client_report :: "bytes \<Rightarrow> client_report_entry list option"
  hex_decode :: "string \<Rightarrow> bytes option"
  dsn_url :: "'u url_ops"

section \<open>Framing\<close>

definition MAX_HEADER_BYTES :: nat where "MAX_HEADER_BYTES = 8 * 1024"
definition MAX_AUTH_BYTES :: nat where "MAX_AUTH_BYTES = 2 * 1024"
definition MAX_CLIENT_REPORT_ENTRIES :: nat where "MAX_CLIENT_REPORT_ENTRIES = 100"
definition MAX_CLIENT_REPORT_TEXT_BYTES :: nat where "MAX_CLIENT_REPORT_TEXT_BYTES = 64"

abbreviation newline :: u8 where "newline \<equiv> 10"

text \<open>\<^verbatim>\<open>iter().position\<close>.\<close>

fun position :: "('a \<Rightarrow> bool) \<Rightarrow> 'a list \<Rightarrow> nat option" where
  "position p [] = None"
| "position p (x # xs) = (if p x then Some 0 else map_option Suc (position p xs))"

definition line_at :: "bytes \<Rightarrow> nat \<Rightarrow> protocol_error + bytes \<times> nat" where
  "line_at body start =
     (if start > length body then Inl (Invalid ''invalid_framing'')
      else let remaining = drop start body in
        and_then (ok_or (Invalid ''missing_header_newline'') (position (\<lambda>b. b = newline) remaining)) (\<lambda>n.
          if n > MAX_HEADER_BYTES then Inl (TooLarge ''header_too_large'')
          else Inr (take n remaining, start + n + 1)))"

definition lengthless_payload :: "bytes \<Rightarrow> nat \<Rightarrow> nat \<Rightarrow> protocol_error + bytes \<times> nat" where
  "lengthless_payload body start max_bytes =
     (if start > length body then Inl (Invalid ''truncated_item'')
      else let remaining = drop start body;
               bounded = min (length remaining) (min (max_bytes + 1) u64_max) in
        case position (\<lambda>b. b = newline) (take bounded remaining) of
          Some n \<Rightarrow> Inr (take n remaining, start + n + 1)
        | None \<Rightarrow> (if length remaining > max_bytes then Inl (TooLarge ''lengthless_item_too_large'')
                  else Inr (remaining, length body)))"

text \<open>The payload of an item and the cursor after it.\<close>

definition item_payload ::
  "envelope_limits \<Rightarrow> bytes \<Rightarrow> wire_item_header \<Rightarrow> nat \<Rightarrow> protocol_error + bytes \<times> nat" where
  "item_payload limits body h payload_start = (case wi_length h of
       Some len \<Rightarrow>
         (let payload_end = payload_start + len in
          if payload_end > u64_max then Inl (TooLarge ''item_length_overflow'')
          else if payload_end > length body then Inl (Invalid ''truncated_item'')
          else if payload_end < length body then
            (if body ! payload_end \<noteq> newline then Inl (Invalid ''missing_item_separator'')
             else Inr (take len (drop payload_start body), payload_end + 1))
          else Inr (take len (drop payload_start body), payload_end))
     | None \<Rightarrow> lengthless_payload body payload_start (el_max_event_bytes limits))"

section \<open>Fields\<close>

definition hyphen_positions :: "nat \<Rightarrow> bool" where
  "hyphen_positions i = (i = 8 \<or> i = 13 \<or> i = 18 \<or> i = 23)"

definition parse_wire_event_id :: "'u wire_ops \<Rightarrow> string \<Rightarrow> protocol_error + event_id" where
  "parse_wire_event_id W v = (case EventId_parse (hex_decode W) v of
       Inr e \<Rightarrow> Inr e
     | Inl _ \<Rightarrow>
        (if length v = 36 \<and> list_all (\<lambda>(i, c). if hyphen_positions i then c = CHR ''-''
                                                else is_ascii_hexdigit c) (enumerate 0 v)
         then map_err (\<lambda>_. Invalid ''invalid_event_id'')
                (EventId_parse (hex_decode W) (filter (\<lambda>c. c \<noteq> CHR ''-'') v))
         else Inl (Invalid ''invalid_event_id'')))"

definition parse_optional_event_id :: "'u wire_ops \<Rightarrow> string option \<Rightarrow> protocol_error + event_id option" where
  "parse_optional_event_id W v = transpose_opt (map_option (parse_wire_event_id W) v)"

definition parse_dsn :: "'u wire_ops \<Rightarrow> string \<Rightarrow> protocol_error + dsn_auth" where
  "parse_dsn W v = (let U = dsn_url W in
     if length v > MAX_AUTH_BYTES then Inl (Invalid ''dsn_too_large'')
     else and_then (ok_or (Invalid ''invalid_dsn'') (url_parse U v)) (\<lambda>dsn.
       if url_scheme U dsn \<notin> {''http'', ''https''} then Inl (Invalid ''invalid_dsn_scheme'')
       else
       and_then (map_err (\<lambda>_. Invalid ''invalid_dsn_key'') (DsnKey_parse (hex_decode W) (url_username U dsn))) (\<lambda>key.
       and_then (ok_or (Invalid ''missing_dsn_project'') (Option.bind (url_path_segments U dsn) iter_last)) (\<lambda>project.
       and_then (map_err (\<lambda>_. Invalid ''invalid_dsn_project'') (parse_ingest_project_id project)) (\<lambda>project_id.
       Inr \<lparr>da_key = key, da_project_id = project_id\<rparr>)))))"

definition saturating_add_u64 :: "nat \<Rightarrow> nat \<Rightarrow> nat" where
  "saturating_add_u64 a b = min (a + b) u64_max"

fun report_quantity :: "client_report_entry list \<Rightarrow> nat \<Rightarrow> protocol_error + nat" where
  "report_quantity [] quantity = Inr quantity"
| "report_quantity (e # es) quantity =
     (if length (ce_reason e) > MAX_CLIENT_REPORT_TEXT_BYTES
         \<or> length (ce_category e) > MAX_CLIENT_REPORT_TEXT_BYTES
      then Inl (TooLarge ''client_report_field_too_large'')
      else report_quantity es (saturating_add_u64 quantity (ce_quantity e)))"

definition parse_client_report :: "'u wire_ops \<Rightarrow> bytes \<Rightarrow> protocol_error + nat" where
  "parse_client_report W payload =
     and_then (ok_or (Invalid ''invalid_client_report'') (json_client_report W payload)) (\<lambda>entries.
       if length entries > MAX_CLIENT_REPORT_ENTRIES then Inl (TooLarge ''client_report_too_large'')
       else report_quantity entries 0)"

definition bounded_metadata :: "string \<Rightarrow> string \<Rightarrow> protocol_error + string" where
  "bounded_metadata v code =
     (if length v > 256 \<or> has_control v then Inl (TooLarge code) else Inr v)"

datatype item_class =
    IC_Event | IC_Signal raw_signal_kind | IC_Metric | IC_ReplayEvent | IC_ReplayRecording | IC_CheckIn
  | IC_ClientReport | IC_Attachment | IC_Disabled disabled_category | IC_Unknown

definition classify_item :: "string \<Rightarrow> item_class" where
  "classify_item k =
     (if k \<in> {''event'', ''feedback''} then IC_Event
      else if k = ''client_report'' then IC_ClientReport
      else if k = ''log'' then IC_Signal RS_Log
      else if k = ''transaction'' then IC_Signal RS_Transaction
      else if k = ''session'' then IC_Signal RS_Session
      else if k = ''sessions'' then IC_Disabled DC_Session
      else if k \<in> {''profile'', ''profile_chunk''} then IC_Disabled DC_Profile
      else if k = ''replay_event'' then IC_ReplayEvent
      else if k = ''replay_recording'' then IC_ReplayRecording
      else if k = ''check_in'' then IC_CheckIn
      else if k = ''span'' then IC_Signal RS_Span
      else if k = ''trace_metric'' then IC_Metric
      else if k \<in> {''statsd'', ''metric_buckets''} then IC_Disabled DC_Statsd
      else if k = ''attachment'' then IC_Attachment
      else if k = ''view_hierarchy'' then IC_Disabled DC_Attachment
      else if k \<in> {''form_data'', ''user_report'', ''security''} then IC_Disabled DC_OtherKnown
      else IC_Unknown)"

section \<open>The item loop\<close>

text \<open>The mutable variables of \<^verbatim>\<open>parse_envelope_with_attachments\<close>.\<close>

record envelope_state =
  es_cursor :: nat
  es_item_count :: nat
  es_primary :: "raw_event option"
  es_signals :: "raw_signal list"
  es_metrics :: "raw_metric list"
  es_replay_events :: "bytes list"
  es_replay_recordings :: "bytes list"
  es_check_ins :: "bytes list"
  es_attachments :: "raw_attachment list"
  es_attachment_bytes :: nat
  es_discarded :: "discarded_item list"
  es_client_report_quantity :: nat

definition envelope_start :: "nat \<Rightarrow> envelope_state" where
  "envelope_start cursor = \<lparr>es_cursor = cursor, es_item_count = 0, es_primary = None, es_signals = [],
     es_metrics = [], es_replay_events = [], es_replay_recordings = [], es_check_ins = [],
     es_attachments = [], es_attachment_bytes = 0, es_discarded = [], es_client_report_quantity = 0\<rparr>"

definition discard :: "disabled_category option \<Rightarrow> string \<Rightarrow> envelope_state \<Rightarrow> envelope_state" where
  "discard c reason s =
     s\<lparr>es_discarded := es_discarded s @ [\<lparr>di_category = c, di_reason = reason\<rparr>]\<rparr>"

definition add_event ::
  "'u wire_ops \<Rightarrow> envelope_limits \<Rightarrow> wire_item_header \<Rightarrow> bytes \<Rightarrow> envelope_state \<Rightarrow> protocol_error + envelope_state" where
  "add_event W limits h payload s =
     (if length payload > el_max_event_bytes limits then Inl (TooLarge ''event_too_large'')
      else if es_primary s \<noteq> None then Inl (Invalid ''multiple_primary_events'')
      else and_then (parse_optional_event_id W (wi_event_id h)) (\<lambda>id.
        Inr (s\<lparr>es_primary := Some \<lparr>re_header_event_id = id, re_bytes = payload\<rparr>\<rparr>)))"

definition add_attachment ::
  "attachment_limits \<Rightarrow> wire_item_header \<Rightarrow> bytes \<Rightarrow> envelope_state \<Rightarrow> protocol_error + envelope_state" where
  "add_attachment al h payload s =
     (if al_max_count al = 0 then Inr (discard (Some DC_Attachment) ''attachment_policy_disabled'' s)
      else if length (es_attachments s) \<ge> al_max_count al then Inl (TooLarge ''too_many_attachments'')
      else if length payload > al_max_item_bytes al then Inl (TooLarge ''attachment_too_large'')
      else let total' = es_attachment_bytes s + length payload in
        if total' > u64_max then Inl (TooLarge ''attachments_too_large'')
        else if total' > al_max_total_bytes al then Inl (TooLarge ''attachments_too_large'')
        else if es_item_count s > u32_max then Inl (TooLarge ''too_many_items'')
        else
        and_then (bounded_metadata (unwrap_or (wi_filename h) ''attachment'')
                    ''attachment_filename_too_large'') (\<lambda>filename.
        and_then (bounded_metadata (unwrap_or (wi_content_type h) ''application/octet-stream'')
                    ''attachment_content_type_too_large'') (\<lambda>content_type.
        and_then (bounded_metadata (unwrap_or (wi_attachment_type h) ''event.attachment'')
                    ''attachment_type_too_large'') (\<lambda>attachment_type.
        Inr (s\<lparr>es_attachment_bytes := total', es_attachments := es_attachments s @
              [\<lparr>ra_position = es_item_count s, ra_filename = filename, ra_content_type = content_type,
                ra_attachment_type = attachment_type, ra_bytes = payload\<rparr>]\<rparr>)))))"

definition add_metric ::
  "envelope_limits \<Rightarrow> wire_item_header \<Rightarrow> bytes \<Rightarrow> envelope_state \<Rightarrow> protocol_error + envelope_state" where
  "add_metric limits h payload s =
     (if length payload > el_max_event_bytes limits then Inl (TooLarge ''metric_container_too_large'')
      else if wi_content_type h \<noteq> Some ''application/vnd.sentry.items.trace-metric+json''
           then Inl (Invalid ''invalid_metric_content_type'')
      else case wi_item_count h of
          Some n \<Rightarrow> (if n > 0 then Inr (s\<lparr>es_metrics := es_metrics s @
                        [\<lparr>rm_item_count = n, rm_bytes = payload\<rparr>]\<rparr>)
                    else Inl (Invalid ''invalid_metric_item_count''))
        | None \<Rightarrow> Inl (Invalid ''invalid_metric_item_count''))"

definition bounded :: "nat \<Rightarrow> string \<Rightarrow> bytes \<Rightarrow> 'a \<Rightarrow> protocol_error + 'a" where
  "bounded maximum code payload s = (if length payload > maximum then Inl (TooLarge code) else Inr s)"

text \<open>The dispatch on the class of an item.\<close>

definition add_item ::
  "'u wire_ops \<Rightarrow> envelope_limits \<Rightarrow> attachment_limits \<Rightarrow> wire_item_header \<Rightarrow> bytes \<Rightarrow> envelope_state
     \<Rightarrow> protocol_error + envelope_state" where
  "add_item W limits al h payload s = (case classify_item (unwrap_or (wi_kind h) ''event'') of
       IC_Event \<Rightarrow> add_event W limits h payload s
     | IC_ClientReport \<Rightarrow> and_then (parse_client_report W payload) (\<lambda>q.
         Inr (s\<lparr>es_client_report_quantity := saturating_add_u64 (es_client_report_quantity s) q\<rparr>))
     | IC_Attachment \<Rightarrow> add_attachment al h payload s
     | IC_Signal k \<Rightarrow> bounded (el_max_event_bytes limits) ''signal_too_large'' payload
         (s\<lparr>es_signals := es_signals s @ [\<lparr>rs_kind = k, rs_bytes = payload\<rparr>]\<rparr>)
     | IC_Metric \<Rightarrow> add_metric limits h payload s
     | IC_ReplayEvent \<Rightarrow> bounded (el_max_event_bytes limits) ''replay_event_too_large'' payload
         (s\<lparr>es_replay_events := es_replay_events s @ [payload]\<rparr>)
     | IC_ReplayRecording \<Rightarrow> bounded (el_max_replay_bytes limits) ''replay_recording_too_large'' payload
         (s\<lparr>es_replay_recordings := es_replay_recordings s @ [payload]\<rparr>)
     | IC_CheckIn \<Rightarrow> bounded (el_max_event_bytes limits) ''check_in_too_large'' payload
         (s\<lparr>es_check_ins := es_check_ins s @ [payload]\<rparr>)
     | IC_Disabled c \<Rightarrow> Inr (discard (Some c) ''feature_disabled'' s)
     | IC_Unknown \<Rightarrow> Inr (discard None ''unknown_item_type'' s))"

definition envelope_item ::
  "'u wire_ops \<Rightarrow> envelope_limits \<Rightarrow> attachment_limits \<Rightarrow> bytes \<Rightarrow> envelope_state \<Rightarrow> protocol_error + envelope_state" where
  "envelope_item W limits al body s =
     (let count = es_item_count s + 1 in
      if count > el_max_items limits then Inl (TooLarge ''too_many_items'')
      else
      and_then (line_at body (es_cursor s)) (\<lambda>(header_bytes, payload_start).
      and_then (ok_or (Invalid ''invalid_item_header'') (json_item_header W header_bytes)) (\<lambda>h.
      and_then (item_payload limits body h payload_start) (\<lambda>(payload, next_cursor).
      and_then (add_item W limits al h payload (s\<lparr>es_item_count := count\<rparr>)) (\<lambda>s'.
      Inr (s'\<lparr>es_cursor := next_cursor\<rparr>))))))"

subsection \<open>Progress\<close>

lemma position_Some: "position p xs = Some n \<longleftrightarrow> n < length xs \<and> p (xs ! n) \<and> (\<forall>i<n. \<not> p (xs ! i))"
proof (induction xs arbitrary: n)
  case (Cons x xs)
  then show ?case by (cases n) (auto simp: less_Suc_eq_0_disj)
qed simp

lemma position_append:
  "(\<And>x. x \<in> set xs \<Longrightarrow> \<not> p x) \<Longrightarrow> p y \<Longrightarrow> position p (xs @ y # ys) = Some (length xs)"
  by (induction xs) auto

lemma line_at_ok:
  "line_at body start = Inr (l, n) \<Longrightarrow> n = start + length l + 1 \<and> n \<le> length body \<and> length l \<le> MAX_HEADER_BYTES"
  by (auto simp: line_at_def Let_def result_simps position_Some split: if_splits)

lemma item_payload_next:
  "item_payload limits body h start = Inr (p, n) \<Longrightarrow> start \<le> length body \<Longrightarrow> start \<le> n \<and> n \<le> length body"
  by (auto simp: item_payload_def lengthless_payload_def Let_def position_Some
      split: option.splits if_splits)

lemma add_item_cursor:
  "add_item W limits al h payload s = Inr s' \<Longrightarrow> es_item_count s' = es_item_count s"
  by (auto simp: add_item_def add_event_def add_attachment_def add_metric_def bounded_def discard_def
      Let_def result_simps split: item_class.splits if_splits option.splits)

lemma envelope_item_progress:
  assumes "envelope_item W limits al body s = Inr s'"
  shows "es_cursor s < es_cursor s' \<and> es_cursor s' \<le> length body"
proof -
  from assms obtain l n h p where "line_at body (es_cursor s) = Inr (l, n)"
    "item_payload limits body h n = Inr (p, es_cursor s')"
    by (auto simp: envelope_item_def Let_def result_simps split: if_splits)
  with line_at_ok[of body "es_cursor s" l n] item_payload_next[of limits body h n p "es_cursor s'"]
  show ?thesis by auto
qed

function envelope_loop ::
  "'u wire_ops \<Rightarrow> envelope_limits \<Rightarrow> attachment_limits \<Rightarrow> bytes \<Rightarrow> envelope_state \<Rightarrow> protocol_error + envelope_state" where
  "envelope_loop W limits al body s =
     (if es_cursor s < length body
      then (case envelope_item W limits al body s of
              Inl e \<Rightarrow> Inl e
            | Inr s' \<Rightarrow> envelope_loop W limits al body s')
      else Inr s)"
  by pat_completeness auto
termination
  by (relation "measure (\<lambda>(W, limits, al, body, s). length body - es_cursor s)")
    (auto dest!: envelope_item_progress)

declare envelope_loop.simps [simp del]

text \<open>What follows the loop.\<close>

definition envelope_finish ::
  "event_id option \<Rightarrow> dsn_auth option \<Rightarrow> envelope_state \<Rightarrow> protocol_error + parsed_envelope" where
  "envelope_finish event_id dsn s =
     (if es_primary s = None \<and> es_signals s = [] \<and> es_metrics s = [] \<and> es_replay_events s = []
        \<and> es_replay_recordings s = [] \<and> es_check_ins s = [] \<and> es_discarded s = []
        \<and> es_client_report_quantity s = 0
      then Inl (Invalid ''empty_envelope'')
      else if length (es_replay_events s) \<noteq> length (es_replay_recordings s)
      then Inl (Invalid ''incomplete_replay_pair'')
      else Inr \<lparr>pe_event_id = event_id, pe_dsn = dsn, pe_primary = es_primary s, pe_signals = es_signals s,
                pe_metrics = es_metrics s,
                pe_replays = map (\<lambda>(e, r). \<lparr>rr_event = e, rr_recording = r\<rparr>)
                  (zip (es_replay_events s) (es_replay_recordings s)),
                pe_check_ins = es_check_ins s, pe_attachments = es_attachments s,
                pe_discarded = es_discarded s,
                pe_client_report_quantity = es_client_report_quantity s\<rparr>)"

definition parse_envelope_with_attachments ::
  "'u wire_ops \<Rightarrow> bytes \<Rightarrow> envelope_limits \<Rightarrow> attachment_limits \<Rightarrow> protocol_error + parsed_envelope" where
  "parse_envelope_with_attachments W body limits al =
     and_then (line_at body 0) (\<lambda>(header_bytes, cursor).
     and_then (ok_or (Invalid ''invalid_envelope_header'') (json_envelope_header W header_bytes)) (\<lambda>header.
     and_then (parse_optional_event_id W (wh_event_id header)) (\<lambda>event_id.
     and_then (transpose_opt (map_option (parse_dsn W) (wh_dsn header))) (\<lambda>dsn.
     and_then (envelope_loop W limits al body (envelope_start cursor)) (envelope_finish event_id dsn)))))"

definition parse_envelope :: "'u wire_ops \<Rightarrow> bytes \<Rightarrow> envelope_limits \<Rightarrow> protocol_error + parsed_envelope" where
  "parse_envelope W body limits = parse_envelope_with_attachments W body limits
     \<lparr>al_max_count = 0, al_max_item_bytes = 0, al_max_total_bytes = 0\<rparr>"

section \<open>Single requests and credentials\<close>

definition parse_store_event :: "bytes \<Rightarrow> nat \<Rightarrow> protocol_error + raw_event" where
  "parse_store_event body max_event_bytes =
     (if length body > max_event_bytes then Inl (TooLarge ''event_too_large'')
      else if body = [] then Inl (Invalid ''empty_event'')
      else Inr \<lparr>re_header_event_id = None, re_bytes = body\<rparr>)"

fun auth_fields :: "'u wire_ops \<Rightarrow> string list \<Rightarrow> dsn_key set \<Rightarrow> protocol_error + dsn_key set" where
  "auth_fields W [] keys = Inr keys"
| "auth_fields W (f # fs) keys = (case split_once (CHR ''='') (str_trim f) of
       None \<Rightarrow> Inl (Invalid ''invalid_auth_field'')
     | Some (name, v) \<Rightarrow>
        (if str_trim name = ''sentry_key''
         then and_then (map_err (\<lambda>_. Invalid ''invalid_dsn_key'') (DsnKey_parse (hex_decode W) (str_trim v)))
                (\<lambda>k. auth_fields W fs (insert k keys))
         else auth_fields W fs keys))"

definition parse_x_sentry_auth :: "'u wire_ops \<Rightarrow> string \<Rightarrow> protocol_error + dsn_key" where
  "parse_x_sentry_auth W v =
     (if length v > MAX_AUTH_BYTES then Inl (Invalid ''auth_header_too_large'')
      else and_then (ok_or (Invalid ''invalid_auth_scheme'') (strip_prefix ''Sentry '' v)) (\<lambda>fields.
        and_then (auth_fields W (split_on (CHR '','') fields) {}) (\<lambda>keys.
        if card keys \<noteq> 1 then Inl (Invalid ''missing_or_conflicting_dsn_key'')
        else Inr (the_elem keys))))"

fun query_keys :: "'u wire_ops \<Rightarrow> (string \<times> string) list \<Rightarrow> dsn_key set \<Rightarrow> protocol_error + dsn_key set" where
  "query_keys W [] keys = Inr keys"
| "query_keys W ((name, v) # ps) keys =
     (if name = ''sentry_key''
      then and_then (map_err (\<lambda>_. Invalid ''invalid_dsn_key'') (DsnKey_parse (hex_decode W) v))
             (\<lambda>k. query_keys W ps (insert k keys))
      else query_keys W ps keys)"

text \<open>\<open>decode_pairs\<close> is \<^verbatim>\<open>url::form_urlencoded::parse\<close>.\<close>

definition parse_query_auth ::
  "'u wire_ops \<Rightarrow> (string \<Rightarrow> (string \<times> string) list) \<Rightarrow> string \<Rightarrow> protocol_error + dsn_key option" where
  "parse_query_auth W decode_pairs query =
     (if length query > MAX_AUTH_BYTES then Inl (Invalid ''auth_query_too_large'')
      else and_then (query_keys W (decode_pairs query) {}) (\<lambda>keys.
        if card keys > 1 then Inl (Invalid ''conflicting_dsn_key'')
        else Inr (if keys = {} then None else Some (the_elem keys))))"

section \<open>Limits\<close>

definition attachment_ok :: "attachment_limits \<Rightarrow> nat \<Rightarrow> raw_attachment \<Rightarrow> bool" where
  "attachment_ok al count a = (length (ra_bytes a) \<le> al_max_item_bytes al \<and> 0 < ra_position a
     \<and> ra_position a \<le> count \<and> length (ra_filename a) \<le> 256 \<and> length (ra_content_type a) \<le> 256
     \<and> length (ra_attachment_type a) \<le> 256 \<and> \<not> has_control (ra_filename a))"

definition attachments_ok :: "attachment_limits \<Rightarrow> nat \<Rightarrow> raw_attachment list \<Rightarrow> bool" where
  "attachments_ok al count as = (length as \<le> al_max_count al \<and> list_all (attachment_ok al count) as
     \<and> sum_list (map (length \<circ> ra_bytes) as) \<le> al_max_total_bytes al
     \<and> sorted_wrt (<) (map ra_position as))"

definition items_held :: "envelope_state \<Rightarrow> nat" where
  "items_held s = (if es_primary s = None then 0 else 1) + length (es_signals s) + length (es_metrics s)
     + length (es_replay_events s) + length (es_replay_recordings s) + length (es_check_ins s)
     + length (es_attachments s) + length (es_discarded s)"

definition payloads_ok :: "envelope_limits \<Rightarrow> envelope_state \<Rightarrow> bool" where
  "payloads_ok limits s =
     (is_none_or (es_primary s) (\<lambda>e. length (re_bytes e) \<le> el_max_event_bytes limits)
      \<and> list_all (\<lambda>r. length (rs_bytes r) \<le> el_max_event_bytes limits) (es_signals s)
      \<and> list_all (\<lambda>m. length (rm_bytes m) \<le> el_max_event_bytes limits \<and> 0 < rm_item_count m) (es_metrics s)
      \<and> list_all (\<lambda>b. length b \<le> el_max_event_bytes limits) (es_replay_events s)
      \<and> list_all (\<lambda>b. length b \<le> el_max_replay_bytes limits) (es_replay_recordings s)
      \<and> list_all (\<lambda>b. length b \<le> el_max_event_bytes limits) (es_check_ins s))"

definition envelope_inv :: "envelope_limits \<Rightarrow> attachment_limits \<Rightarrow> envelope_state \<Rightarrow> bool" where
  "envelope_inv limits al s = (es_item_count s \<le> el_max_items limits \<and> items_held s \<le> es_item_count s
     \<and> payloads_ok limits s \<and> attachments_ok al (es_item_count s) (es_attachments s)
     \<and> es_attachment_bytes s = sum_list (map (length \<circ> ra_bytes) (es_attachments s))
     \<and> es_client_report_quantity s \<le> u64_max)"

lemma add_item_payloads_ok:
  assumes "add_item W limits al h payload s = Inr s'" "payloads_ok limits s"
  shows "payloads_ok limits s' \<and> items_held s' \<le> Suc (items_held s)
    \<and> (es_client_report_quantity s \<le> u64_max \<longrightarrow> es_client_report_quantity s' \<le> u64_max)"
  using assms unfolding add_item_def
  by (cases "classify_item (unwrap_or (wi_kind h) ''event'')")
    (auto simp: add_event_def add_attachment_def add_metric_def bounded_def discard_def Let_def
      payloads_ok_def items_held_def result_simps saturating_add_u64_def split: if_splits option.splits)

lemma attachment_ok_mono: "attachment_ok al n a \<Longrightarrow> n \<le> m \<Longrightarrow> attachment_ok al m a"
  by (auto simp: attachment_ok_def)

lemma add_attachment_ok:
  assumes "add_attachment al h payload s = Inr s'" "attachments_ok al n (es_attachments s)"
    "es_attachment_bytes s = sum_list (map (length \<circ> ra_bytes) (es_attachments s))"
    "es_item_count s = Suc n"
  shows "attachments_ok al (Suc n) (es_attachments s')
    \<and> es_attachment_bytes s' = sum_list (map (length \<circ> ra_bytes) (es_attachments s'))"
proof (cases "al_max_count al = 0")
  case True
  with assms show ?thesis
    by (auto simp: add_attachment_def discard_def attachments_ok_def list_all_iff
        intro: attachment_ok_mono)
next
  case False
  with assms(1) obtain a where s': "es_attachments s' = es_attachments s @ [a]"
    "es_attachment_bytes s' = es_attachment_bytes s + length payload" "ra_bytes a = payload"
    and a: "ra_position a = Suc n" "attachment_ok al (Suc n) a"
      "length (es_attachments s) < al_max_count al"
      "es_attachment_bytes s + length payload \<le> al_max_total_bytes al"
    using assms(4)
    by (auto simp: add_attachment_def Let_def result_simps bounded_metadata_def attachment_ok_def
        split: if_splits)
  moreover have "ra_position b < Suc n" if "b \<in> set (es_attachments s)" for b
    using that assms(2) by (auto simp: attachments_ok_def attachment_ok_def list_all_iff)
  ultimately show ?thesis
    using assms(2,3)
    by (auto simp: attachments_ok_def list_all_iff sorted_wrt_append intro: attachment_ok_mono)
qed

lemma add_item_attachments_ok:
  assumes "add_item W limits al h payload s = Inr s'" "attachments_ok al n (es_attachments s)"
    "es_attachment_bytes s = sum_list (map (length \<circ> ra_bytes) (es_attachments s))"
    "es_item_count s = Suc n"
  shows "attachments_ok al (Suc n) (es_attachments s')
    \<and> es_attachment_bytes s' = sum_list (map (length \<circ> ra_bytes) (es_attachments s'))"
proof (cases "classify_item (unwrap_or (wi_kind h) ''event'') = IC_Attachment")
  case True
  with assms(1) have "add_attachment al h payload s = Inr s'" by (simp add: add_item_def)
  from add_attachment_ok[OF this assms(2-4)] show ?thesis .
next
  case False
  with assms(1) have "es_attachments s' = es_attachments s" "es_attachment_bytes s' = es_attachment_bytes s"
    by (auto simp: add_item_def add_event_def add_metric_def bounded_def discard_def result_simps
        split: item_class.splits if_splits option.splits)
  with assms(2,3) show ?thesis
    by (auto simp: attachments_ok_def list_all_iff intro: attachment_ok_mono)
qed

lemma envelope_item_inv:
  assumes "envelope_item W limits al body s = Inr s'" "envelope_inv limits al s"
  shows "envelope_inv limits al s'"
proof -
  let ?s = "s\<lparr>es_item_count := Suc (es_item_count s)\<rparr>"
  from assms(1) obtain h p s1 where count: "Suc (es_item_count s) \<le> el_max_items limits"
    and add: "add_item W limits al h p ?s = Inr s1" and s': "s' = s1\<lparr>es_cursor := es_cursor s'\<rparr>"
    by (auto simp: envelope_item_def Let_def result_simps split: if_splits)
  have inv: "payloads_ok limits ?s" "attachments_ok al (es_item_count s) (es_attachments ?s)"
    "es_attachment_bytes ?s = sum_list (map (length \<circ> ra_bytes) (es_attachments ?s))"
    "items_held ?s \<le> es_item_count s" "es_client_report_quantity ?s \<le> u64_max"
    using assms(2) by (auto simp: envelope_inv_def payloads_ok_def items_held_def)
  have "envelope_inv limits al s1"
    using add_item_payloads_ok[OF add inv(1)] add_item_attachments_ok[OF add inv(2,3)]
      add_item_cursor[OF add] inv count by (auto simp: envelope_inv_def)
  then show ?thesis by (subst s') (simp add: envelope_inv_def payloads_ok_def items_held_def)
qed

lemma envelope_loop_inv:
  assumes "envelope_loop W limits al body s = Inr s'" "envelope_inv limits al s"
  shows "envelope_inv limits al s'"
  using assms
proof (induction W limits al body s rule: envelope_loop.induct)
  case (1 W limits al body s)
  then show ?case
    by (subst (asm) (2) envelope_loop.simps) (auto split: if_splits sum.splits dest: envelope_item_inv)
qed

lemma envelope_start_inv: "envelope_inv limits al (envelope_start n)"
  by (simp add: envelope_inv_def envelope_start_def payloads_ok_def items_held_def attachments_ok_def)

section \<open>Framing by length\<close>

text \<open>An envelope written with explicit item lengths: header line, payload, line feed.\<close>

definition render_items :: "(bytes \<times> bytes) list \<Rightarrow> bytes" where
  "render_items its = concat (map (\<lambda>(header, payload). header @ newline # payload @ [newline]) its)"

text \<open>What the items mean, without any framing.\<close>

fun add_items :: "'u wire_ops \<Rightarrow> envelope_limits \<Rightarrow> attachment_limits \<Rightarrow> (wire_item_header \<times> bytes) list
    \<Rightarrow> envelope_state \<Rightarrow> protocol_error + envelope_state" where
  "add_items W limits al [] s = Inr s"
| "add_items W limits al ((h, payload) # its) s =
     (if es_item_count s + 1 > el_max_items limits then Inl (TooLarge ''too_many_items'')
      else and_then (add_item W limits al h payload (s\<lparr>es_item_count := es_item_count s + 1\<rparr>))
             (add_items W limits al its))"

definition framed :: "'u wire_ops \<Rightarrow> bytes \<times> bytes \<Rightarrow> wire_item_header \<Rightarrow> bool" where
  "framed W it h = (newline \<notin> set (fst it) \<and> length (fst it) \<le> MAX_HEADER_BYTES
     \<and> json_item_header W (fst it) = Some h \<and> wi_length h = Some (length (snd it)))"

lemma line_at_append:
  assumes "newline \<notin> set l" "length l \<le> MAX_HEADER_BYTES"
  shows "line_at (pre @ l @ newline # r) (length pre) = Inr (l, length pre + length l + 1)"
proof -
  have "position (\<lambda>b. b = newline) (l @ newline # r) = Some (length l)"
    using assms(1) by (intro position_append) auto
  with assms(2) show ?thesis by (simp add: line_at_def Let_def)
qed

lemma add_item_at_cursor:
  "add_item W limits al h payload (s\<lparr>es_cursor := c\<rparr>)
     = and_then (add_item W limits al h payload s) (\<lambda>s'. Inr (s'\<lparr>es_cursor := c\<rparr>))"
  by (cases "classify_item (unwrap_or (wi_kind h) ''event'')")
    (auto simp: add_item_def add_event_def add_attachment_def add_metric_def bounded_def discard_def
      Let_def and_then_def bounded_metadata_def split: sum.split option.split)

lemma envelope_item_framed:
  assumes "framed W (hb, p) h" "length (pre @ hb @ newline # p @ newline # r) \<le> u64_max"
    "es_cursor s = length pre"
  shows "envelope_item W limits al (pre @ hb @ newline # p @ newline # r) s =
    (if es_item_count s + 1 > el_max_items limits then Inl (TooLarge ''too_many_items'')
     else and_then (add_item W limits al h p (s\<lparr>es_item_count := es_item_count s + 1\<rparr>)) (\<lambda>s'.
       Inr (s'\<lparr>es_cursor := length (pre @ hb @ newline # p @ [newline])\<rparr>)))"
proof -
  let ?start = "length pre + length hb + 1" and ?body = "pre @ hb @ newline # p @ newline # r"
  have "line_at ?body (length pre) = Inr (hb, ?start)"
    using line_at_append[of hb pre "p @ newline # r"] assms(1) by (simp add: framed_def)
  moreover have "item_payload limits ?body h ?start = Inr (p, ?start + length p + 1)"
  proof -
    have "drop ?start ?body = p @ newline # r" "?body ! (?start + length p) = newline"
      by (simp_all add: nth_append)
    moreover have "?start + length p < length ?body" by simp
    moreover have "?start + length p \<le> u64_max" using assms(2) by simp
    ultimately show ?thesis using assms(1) by (simp add: item_payload_def framed_def)
  qed
  ultimately show ?thesis
    using assms(1,3) by (simp add: envelope_item_def Let_def framed_def add.assoc)
qed

lemma envelope_item_framed_at:
  assumes "framed W (hb, p) h" "length (pre @ hb @ newline # p @ newline # r) \<le> u64_max"
  shows "envelope_item W limits al (pre @ hb @ newline # p @ newline # r) (s\<lparr>es_cursor := length pre\<rparr>) =
    (if es_item_count s + 1 > el_max_items limits then Inl (TooLarge ''too_many_items'')
     else and_then (add_item W limits al h p (s\<lparr>es_item_count := es_item_count s + 1\<rparr>)) (\<lambda>s'.
       Inr (s'\<lparr>es_cursor := length (pre @ hb @ newline # p @ [newline])\<rparr>)))"
proof -
  let ?s = "s\<lparr>es_item_count := es_item_count s + 1\<rparr>"
  have swap: "s\<lparr>es_cursor := c, es_item_count := n\<rparr> = s\<lparr>es_item_count := n, es_cursor := c\<rparr>" for c n
    by simp
  have "add_item W limits al h p (s\<lparr>es_cursor := length pre, es_item_count := es_item_count s + 1\<rparr>)
      = and_then (add_item W limits al h p ?s) (\<lambda>s'. Inr (s'\<lparr>es_cursor := length pre\<rparr>))"
    unfolding swap by (rule add_item_at_cursor)
  with envelope_item_framed[OF assms, of "s\<lparr>es_cursor := length pre\<rparr>" limits al] show ?thesis
    by (cases "add_item W limits al h p ?s") simp_all
qed

lemma envelope_loop_framed:
  assumes "list_all2 (framed W) its hs" "length (pre @ render_items its) \<le> u64_max"
  shows "envelope_loop W limits al (pre @ render_items its) (s\<lparr>es_cursor := length pre\<rparr>)
    = and_then (add_items W limits al (zip hs (map snd its)) s) (\<lambda>s'.
        Inr (s'\<lparr>es_cursor := length (pre @ render_items its)\<rparr>))"
  using assms
proof (induction its hs arbitrary: pre s rule: list_all2_induct)
  case Nil
  then show ?case by (simp add: render_items_def envelope_loop.simps)
next
  case (Cons it its h hs)
  obtain hb p where it: "it = (hb, p)" by force
  let ?pre = "pre @ hb @ newline # p @ [newline]" and ?body = "pre @ render_items (it # its)"
  let ?s = "s\<lparr>es_item_count := es_item_count s + 1\<rparr>"
  have body: "?body = pre @ hb @ newline # p @ newline # render_items its" "?body = ?pre @ render_items its"
    by (simp_all add: render_items_def it)
  have item: "envelope_item W limits al ?body (s\<lparr>es_cursor := length pre\<rparr>) =
    (if es_item_count s + 1 > el_max_items limits then Inl (TooLarge ''too_many_items'')
     else and_then (add_item W limits al h p ?s) (\<lambda>s'. Inr (s'\<lparr>es_cursor := length ?pre\<rparr>)))"
    unfolding body(1) by (rule envelope_item_framed_at) (use Cons.hyps(1) Cons.prems it body in auto)
  have lt: "length pre < length ?body" by (simp add: body)
  show ?case
  proof (cases "es_item_count s + 1 > el_max_items limits")
    case True
    then show ?thesis using lt item by (simp add: envelope_loop.simps it)
  next
    case False
    show ?thesis
    proof (cases "add_item W limits al h p ?s")
      case (Inl e)
      then show ?thesis using lt item False by (simp add: envelope_loop.simps it)
    next
      case (Inr s1)
      have "envelope_loop W limits al ?body (s\<lparr>es_cursor := length pre\<rparr>)
        = envelope_loop W limits al (?pre @ render_items its) (s1\<lparr>es_cursor := length ?pre\<rparr>)"
        using lt item False Inr by (subst envelope_loop.simps) (simp add: body(2))
      also have "\<dots> = and_then (add_items W limits al (zip hs (map snd its)) s1) (\<lambda>s'.
          Inr (s'\<lparr>es_cursor := length (?pre @ render_items its)\<rparr>))"
        by (rule Cons.IH) (use Cons.prems body(2) in simp)
      finally show ?thesis using Inr False body(2) by (simp add: it)
    qed
  qed
qed

lemma envelope_finish_cursor: "envelope_finish i d (s\<lparr>es_cursor := c\<rparr>) = envelope_finish i d s"
  by (simp add: envelope_finish_def)

lemma parse_envelope_framed:
  assumes "list_all2 (framed W) its hs" "newline \<notin> set hb" "length hb \<le> MAX_HEADER_BYTES"
    "length (hb @ newline # render_items its) \<le> u64_max"
  shows "parse_envelope_with_attachments W (hb @ newline # render_items its) limits al =
    and_then (ok_or (Invalid ''invalid_envelope_header'') (json_envelope_header W hb)) (\<lambda>header.
    and_then (parse_optional_event_id W (wh_event_id header)) (\<lambda>event_id.
    and_then (transpose_opt (map_option (parse_dsn W) (wh_dsn header))) (\<lambda>dsn.
    and_then (add_items W limits al (zip hs (map snd its)) (envelope_start 0)) (envelope_finish event_id dsn))))"
proof -
  let ?body = "hb @ newline # render_items its"
  have line: "line_at ?body 0 = Inr (hb, length hb + 1)"
    using line_at_append[of hb "[]" "render_items its"] assms(2,3) by simp
  have "envelope_start (length hb + 1) = (envelope_start 0)\<lparr>es_cursor := length (hb @ [newline])\<rparr>"
    by (simp add: envelope_start_def)
  moreover have "?body = (hb @ [newline]) @ render_items its" by simp
  ultimately have loop: "envelope_loop W limits al ?body (envelope_start (length hb + 1))
      = and_then (add_items W limits al (zip hs (map snd its)) (envelope_start 0)) (\<lambda>s'.
          Inr (s'\<lparr>es_cursor := length ((hb @ [newline]) @ render_items its)\<rparr>))"
    using envelope_loop_framed[OF assms(1), of "hb @ [newline]"] assms(4) by simp
  show ?thesis
    unfolding parse_envelope_with_attachments_def line and_then_simps prod.case loop
    by (cases "add_items W limits al (zip hs (map snd its)) (envelope_start 0)")
      (simp_all add: envelope_finish_cursor)
qed

section \<open>Properties\<close>

lemma attachments_ok_mono: "attachments_ok al n as \<Longrightarrow> n \<le> m \<Longrightarrow> attachments_ok al m as"
  by (auto simp: attachments_ok_def list_all_iff intro: attachment_ok_mono)

lemma envelope_finish_ok:
  assumes "envelope_finish i d s = Inr e"
  shows "pe_primary e = es_primary s" "pe_signals e = es_signals s" "pe_metrics e = es_metrics s"
    "pe_check_ins e = es_check_ins s" "pe_attachments e = es_attachments s" "pe_discarded e = es_discarded s"
    "map rr_event (pe_replays e) = es_replay_events s"
    "map rr_recording (pe_replays e) = es_replay_recordings s"
    "pe_client_report_quantity e = es_client_report_quantity s"
  using assms by (auto simp: envelope_finish_def comp_def case_prod_unfold split: if_splits)

lemma parse_envelope_state:
  assumes "parse_envelope_with_attachments W body limits al = Inr e"
  obtains i d s where "envelope_inv limits al s" "envelope_finish i d s = Inr e"
  using assms envelope_start_inv
  by (auto simp: parse_envelope_with_attachments_def result_simps dest: envelope_loop_inv)

text \<open>A small envelope on which the properties are evaluated.\<close>

definition sample_url :: "unit url_ops" where
  "sample_url = \<lparr>url_parse = \<lambda>_. None, url_scheme = \<lambda>_. [], url_host_str = \<lambda>_. None, url_query = \<lambda>_. None,
     url_fragment = \<lambda>_. None, url_username = \<lambda>_. [], url_path_segments = \<lambda>_. None,
     url_clear_password = \<lambda>_. None, url_set_username = \<lambda>_ _. None, url_to_string = \<lambda>_. []\<rparr>"

text \<open>A header reader that takes every header for an event of two bytes.\<close>

definition sample_header :: wire_item_header where
  "sample_header = \<lparr>wi_kind = None, wi_length = Some 2, wi_event_id = None, wi_filename = None,
     wi_content_type = None, wi_attachment_type = None, wi_item_count = None\<rparr>"

definition sample_wire :: "unit wire_ops" where
  "sample_wire = \<lparr>json_envelope_header = \<lambda>_. Some \<lparr>wh_event_id = None, wh_dsn = None\<rparr>,
     json_item_header = \<lambda>_. Some sample_header, json_client_report = \<lambda>_. None,
     hex_decode = hex_decode16, dsn_url = sample_url\<rparr>"

definition sample_limits :: envelope_limits where
  "sample_limits = \<lparr>el_max_items = 1, el_max_event_bytes = 2, el_max_replay_bytes = 0\<rparr>"

definition no_attachments :: attachment_limits where
  "no_attachments = \<lparr>al_max_count = 0, al_max_item_bytes = 0, al_max_total_bytes = 0\<rparr>"

lemma sample_add_items:
  "add_items sample_wire sample_limits no_attachments [(sample_header, [10, 65])] (envelope_start 0)
     = Inr ((envelope_start 0)\<lparr>es_item_count := 1,
         es_primary := Some \<lparr>re_header_event_id = None, re_bytes = [10, 65]\<rparr>\<rparr>)"
  by (simp add: add_item_def classify_item_def add_event_def sample_header_def sample_limits_def
      envelope_start_def parse_optional_event_id_def)

lemma sample_framed: "list_all2 (framed sample_wire) [([], [10, 65])] [sample_header]"
  by (simp add: framed_def sample_wire_def sample_header_def)

definition sample_body :: bytes where
  "sample_body = [] @ newline # render_items [([], [10, 65])]"

definition sample_envelope :: parsed_envelope where
  "sample_envelope = \<lparr>pe_event_id = None, pe_dsn = None,
     pe_primary = Some \<lparr>re_header_event_id = None, re_bytes = [10, 65]\<rparr>, pe_signals = [], pe_metrics = [],
     pe_replays = [], pe_check_ins = [], pe_attachments = [], pe_discarded = [],
     pe_client_report_quantity = 0\<rparr>"

lemma sample_finish:
  "and_then (ok_or (Invalid ''invalid_envelope_header'') (json_envelope_header sample_wire [])) (\<lambda>header.
   and_then (parse_optional_event_id sample_wire (wh_event_id header)) (\<lambda>event_id.
   and_then (transpose_opt (map_option (parse_dsn sample_wire) (wh_dsn header))) (\<lambda>dsn.
   and_then (add_items sample_wire sample_limits no_attachments
       (zip [sample_header] (map snd [([] :: bytes, [10, 65])])) (envelope_start 0))
     (envelope_finish event_id dsn)))) = Inr sample_envelope"
proof -
  have "json_envelope_header sample_wire [] = Some \<lparr>wh_event_id = None, wh_dsn = None\<rparr>"
    by (simp add: sample_wire_def)
  then show ?thesis
    using sample_add_items
    by (simp add: parse_optional_event_id_def envelope_finish_def envelope_start_def sample_envelope_def)
qed

lemma sample_parse:
  "parse_envelope_with_attachments sample_wire sample_body sample_limits no_attachments = Inr sample_envelope"
  unfolding sample_body_def
  by (subst parse_envelope_framed[OF sample_framed]) (simp_all add: sample_finish[simplified] render_items_def)

text \<open>
  C18. Limits hold for everything an accepted envelope carries: no payload exceeds the bound of its
  kind, the attachments respect their count, item and total bounds and appear in item order with
  bounded metadata, replay events and recordings come in pairs, and the number of items kept is at
  most the allowed number of items.
\<close>
theorem parse_envelope_within_limits:
  assumes "parse_envelope_with_attachments W body limits al = Inr e"
  shows "is_none_or (pe_primary e) (\<lambda>p. length (re_bytes p) \<le> el_max_event_bytes limits)
    \<and> list_all (\<lambda>r. length (rs_bytes r) \<le> el_max_event_bytes limits) (pe_signals e)
    \<and> list_all (\<lambda>m. length (rm_bytes m) \<le> el_max_event_bytes limits \<and> 0 < rm_item_count m) (pe_metrics e)
    \<and> list_all (\<lambda>r. length (rr_event r) \<le> el_max_event_bytes limits
                   \<and> length (rr_recording r) \<le> el_max_replay_bytes limits) (pe_replays e)
    \<and> list_all (\<lambda>b. length b \<le> el_max_event_bytes limits) (pe_check_ins e)
    \<and> attachments_ok al (el_max_items limits) (pe_attachments e)
    \<and> (if pe_primary e = None then 0 else 1) + length (pe_signals e) + length (pe_metrics e)
      + 2 * length (pe_replays e) + length (pe_check_ins e) + length (pe_attachments e)
      + length (pe_discarded e) \<le> el_max_items limits
    \<and> pe_client_report_quantity e \<le> u64_max"
proof -
  from parse_envelope_state[OF assms] obtain i d s where inv: "envelope_inv limits al s"
    and e: "envelope_finish i d s = Inr e" .
  note fields = envelope_finish_ok[OF e]
  have "length (pe_replays e) = length (es_replay_events s)"
    "length (pe_replays e) = length (es_replay_recordings s)"
    using fields(7,8) by (metis length_map)+
  moreover have "list_all (\<lambda>r. length (rr_event r) \<le> el_max_event_bytes limits
      \<and> length (rr_recording r) \<le> el_max_replay_bytes limits) (pe_replays e)"
    using inv by (auto simp: envelope_inv_def payloads_ok_def list_all_iff fields(7,8)[symmetric])
  ultimately show ?thesis
    using inv fields(1-6,9) attachments_ok_mono[of al "es_item_count s" "es_attachments s" "el_max_items limits"]
    by (auto simp: envelope_inv_def payloads_ok_def items_held_def)
qed

theorem parse_envelope_within_limits_witness:
  "length (pe_attachments sample_envelope) = 0
   \<and> is_none_or (pe_primary sample_envelope) (\<lambda>p. length (re_bytes p) \<le> 2)"
proof -
  from parse_envelope_within_limits[OF sample_parse]
  have "is_none_or (pe_primary sample_envelope) (\<lambda>p. length (re_bytes p) \<le> el_max_event_bytes sample_limits)"
    by blast
  then show ?thesis by (simp add: sample_limits_def sample_envelope_def)
qed

text \<open>
  C19. Length-delimited framing is exact: an envelope written as header lines, payloads of the
  announced lengths and line feeds is read as exactly the sequence of those headers and payloads, in
  order, whatever bytes the payloads contain, and the result is what that sequence of items means.
\<close>
theorem envelope_framing_exact:
  assumes "list_all2 (framed W) its hs" "newline \<notin> set hb" "length hb \<le> MAX_HEADER_BYTES"
    "length (hb @ newline # render_items its) \<le> u64_max"
  shows "parse_envelope_with_attachments W (hb @ newline # render_items its) limits al =
    and_then (ok_or (Invalid ''invalid_envelope_header'') (json_envelope_header W hb)) (\<lambda>header.
    and_then (parse_optional_event_id W (wh_event_id header)) (\<lambda>event_id.
    and_then (transpose_opt (map_option (parse_dsn W) (wh_dsn header))) (\<lambda>dsn.
    and_then (add_items W limits al (zip hs (map snd its)) (envelope_start 0)) (envelope_finish event_id dsn))))"
  using assms by (rule parse_envelope_framed)

theorem envelope_framing_exact_witness:
  "parse_envelope_with_attachments sample_wire sample_body sample_limits no_attachments = Inr sample_envelope"
proof -
  have "newline \<notin> set []" "length ([] :: bytes) \<le> MAX_HEADER_BYTES"
    "length ([] @ newline # render_items [([], [10, 65])]) \<le> u64_max"
    by (simp_all add: render_items_def)
  from envelope_framing_exact[OF sample_framed this] sample_finish show ?thesis
    by (simp only: sample_body_def)
qed

section \<open>Event identifiers on the wire\<close>

text \<open>The 8-4-4-4-12 form of a 32-digit identifier.\<close>

definition hyphenate :: "string \<Rightarrow> string" where
  "hyphenate s = take 8 s @ ''-'' @ take 4 (drop 8 s) @ ''-'' @ take 4 (drop 12 s) @ ''-''
     @ take 4 (drop 16 s) @ ''-'' @ drop 20 s"

abbreviation wire_id_char :: "nat \<times> char \<Rightarrow> bool" where
  "wire_id_char \<equiv> \<lambda>(i, c). if hyphen_positions i then c = CHR ''-'' else is_ascii_hexdigit c"

lemma enumerate_hex_segment:
  assumes "list_all is_ascii_hexdigit s" "\<And>i. n \<le> i \<Longrightarrow> i < n + length s \<Longrightarrow> \<not> hyphen_positions i"
  shows "list_all wire_id_char (enumerate n s)"
  using assms by (auto simp: list_all_iff in_set_enumerate_eq)

lemma hyphenate_shape:
  assumes "length s = 32" "list_all is_ascii_hexdigit s"
  shows "length (hyphenate s) = 36" "list_all wire_id_char (enumerate 0 (hyphenate s))"
    "filter (\<lambda>c. c \<noteq> CHR ''-'') (hyphenate s) = s"
proof -
  have hex: "list_all is_ascii_hexdigit (take n (drop m s))" "list_all is_ascii_hexdigit (drop m s)"
    "list_all is_ascii_hexdigit (take n s)" for n m
    using assms(2) by (auto simp: list_all_iff dest: in_set_takeD in_set_dropD)
  show "length (hyphenate s) = 36" using assms(1) by (simp add: hyphenate_def)
  have seg: "list_all wire_id_char (enumerate n t)"
    if "list_all is_ascii_hexdigit t" "n + length t \<le> 8 \<or> (8 < n \<and> n + length t \<le> 13)
      \<or> (13 < n \<and> n + length t \<le> 18) \<or> (18 < n \<and> n + length t \<le> 23) \<or> 23 < n" for n t
    using that by (intro enumerate_hex_segment) (auto simp: hyphen_positions_def)
  show "list_all wire_id_char (enumerate 0 (hyphenate s))"
  proof -
    have "hyphen_positions 8" "hyphen_positions 13" "hyphen_positions 18" "hyphen_positions 23"
      by (simp_all add: hyphen_positions_def)
    with assms(1) show ?thesis by (simp add: hyphenate_def enumerate_append_eq hex seg)
  qed
  have nohyphen: "filter (\<lambda>c. c \<noteq> CHR ''-'') t = t" if "list_all is_ascii_hexdigit t" for t
    using that by (auto simp: filter_id_conv list_all_iff ascii_defs)
  have "take 8 s @ take 4 (drop 8 s) @ take 4 (drop 12 s) @ take 4 (drop 16 s) @ drop 20 s = s"
    using append_take_drop_id[of 4 "drop 8 s"] append_take_drop_id[of 4 "drop 12 s"]
      append_take_drop_id[of 4 "drop 16 s"] append_take_drop_id[of 8 s] by simp
  then show "filter (\<lambda>c. c \<noteq> CHR ''-'') (hyphenate s) = s"
    by (simp add: hyphenate_def nohyphen hex)
qed

text \<open>
  The hyphenated form of an event identifier denotes the same identifier as the compact form,
  and whatever text is accepted, removing its hyphens and lowering its case gives the printed form of
  the identifier it denotes.
\<close>
theorem wire_event_id_forms:
  assumes "hex_laws encode (hex_decode W)"
  shows "(\<forall>e. event_id_ok e \<longrightarrow> parse_wire_event_id W (encode e) = Inr e
      \<and> parse_wire_event_id W (hyphenate (encode e)) = Inr e)
    \<and> (\<forall>v e. parse_wire_event_id W v = Inr e \<longrightarrow> event_id_ok e
      \<and> encode e = to_ascii_lowercase (filter (\<lambda>c. c \<noteq> CHR ''-'') v))"
proof (intro conjI allI impI)
  fix e assume e: "event_id_ok e"
  note enc = parse_hex_identifier_encode[OF assms, of e]
  show compact: "parse_wire_event_id W (encode e) = Inr e"
    using enc e by (simp add: parse_wire_event_id_def EventId_parse_def event_id_ok_def)
  have s: "length (encode e) = 32" "list_all is_ascii_hexdigit (encode e)"
    using assms e by (auto simp: hex_laws_def event_id_ok_def list_all_iff lower_hex_hexdigit)
  note h = hyphenate_shape[OF s]
  have "EventId_parse (hex_decode W) (hyphenate (encode e)) = Inl PE_InvalidEventId"
    using h(1) by (simp add: EventId_parse_def parse_hex_identifier_def)
  moreover have "EventId_parse (hex_decode W) (encode e) = Inr e"
    using enc e by (simp add: EventId_parse_def event_id_ok_def)
  ultimately show "parse_wire_event_id W (hyphenate (encode e)) = Inr e"
    using h by (simp add: parse_wire_event_id_def)
next
  fix v e assume v: "parse_wire_event_id W v = Inr e"
  have ok: "event_id_ok e \<and> encode e = to_ascii_lowercase w \<and> list_all is_ascii_hexdigit w"
    if "EventId_parse (hex_decode W) w = Inr e" for w
    using that parse_hex_identifier_length[OF assms, of w e]
    by (auto simp: EventId_parse_def result_simps event_id_ok_def parse_hex_identifier_def split: if_splits)
  have nohyphen: "filter (\<lambda>c. c \<noteq> CHR ''-'') w = w" if "list_all is_ascii_hexdigit w" for w
    using that by (auto simp: filter_id_conv list_all_iff ascii_defs)
  from v consider "EventId_parse (hex_decode W) v = Inr e"
    | "EventId_parse (hex_decode W) (filter (\<lambda>c. c \<noteq> CHR ''-'') v) = Inr e"
    by (auto simp: parse_wire_event_id_def result_simps split: sum.splits if_splits)
  then show "event_id_ok e" "encode e = to_ascii_lowercase (filter (\<lambda>c. c \<noteq> CHR ''-'') v)"
    by (cases; use ok nohyphen in auto)+
qed

theorem wire_event_id_forms_witness:
  "parse_wire_event_id sample_wire (hyphenate (hex_encode16 (replicate 16 171))) = Inr (replicate 16 171)"
proof -
  have "hex_laws hex_encode16 (hex_decode sample_wire)" using hex_laws16 by (simp add: sample_wire_def)
  moreover have "event_id_ok (replicate 16 171)" by (simp add: event_id_ok_def)
  ultimately show ?thesis using wire_event_id_forms by blast
qed

end
