(* ===== verification/Events.thy ===== *)
theory Events
  imports Primitives
begin

text \<open>
  The normalized error event (\<^verbatim>\<open>crates/domain/src/event.rs\<close>) and the symbolication request and
  result (\<^verbatim>\<open>crates/domain/src/symbolication.rs\<close>): the data that the grouper and the processor
  work on. A \<^verbatim>\<open>BTreeMap\<close> is an association list read by \<open>map_of\<close>.
\<close>

section \<open>Normalized events\<close>

datatype canonical_value =
    CV_Null
  | CV_Bool bool
  | CV_Number string
  | CV_String string
  | CV_Array "canonical_value list"
  | CV_Object "(string \<times> canonical_value) list"

type_synonym canonical_map = "(string \<times> canonical_value) list"

datatype event_platform =
    Platform_Other | Platform_JavaScript | Platform_Node | Platform_Python | Platform_Java
  | Platform_DotNet | Platform_Go | Platform_Rust | Platform_Php | Platform_Ruby | Platform_Cocoa
  | Platform_Native | Platform_Dart | Platform_Custom string

fun EventPlatform_as_str :: "event_platform \<Rightarrow> string" where
  "EventPlatform_as_str Platform_Other = ''other''"
| "EventPlatform_as_str Platform_JavaScript = ''javascript''"
| "EventPlatform_as_str Platform_Node = ''node''"
| "EventPlatform_as_str Platform_Python = ''python''"
| "EventPlatform_as_str Platform_Java = ''java''"
| "EventPlatform_as_str Platform_DotNet = ''csharp''"
| "EventPlatform_as_str Platform_Go = ''go''"
| "EventPlatform_as_str Platform_Rust = ''rust''"
| "EventPlatform_as_str Platform_Php = ''php''"
| "EventPlatform_as_str Platform_Ruby = ''ruby''"
| "EventPlatform_as_str Platform_Cocoa = ''cocoa''"
| "EventPlatform_as_str Platform_Native = ''native''"
| "EventPlatform_as_str Platform_Dart = ''dart''"
| "EventPlatform_as_str (Platform_Custom v) = v"

datatype event_level = Level_Debug | Level_Info | Level_Warning | Level_Error | Level_Fatal

fun EventLevel_as_str :: "event_level \<Rightarrow> string" where
  "EventLevel_as_str Level_Debug = ''debug''"
| "EventLevel_as_str Level_Info = ''info''"
| "EventLevel_as_str Level_Warning = ''warning''"
| "EventLevel_as_str Level_Error = ''error''"
| "EventLevel_as_str Level_Fatal = ''fatal''"

record normalized_frame =
  nf_filename :: "string option"
  nf_absolute_path :: "string option"
  nf_function :: "string option"
  nf_module :: "string option"
  nf_package :: "string option"
  nf_instruction_address :: "string option"
  nf_symbol_address :: "string option"
  nf_line :: "nat option"
  nf_column :: "nat option"
  nf_in_app :: "bool option"
  nf_context_line :: "string option"
  nf_pre_context :: "string list"
  nf_post_context :: "string list"
  nf_variables :: canonical_map
  nf_unknown :: canonical_map

record normalized_exception =
  nx_ty :: "string option"
  nx_value :: "string option"
  nx_module :: "string option"
  nx_thread_id :: "string option"
  nx_mechanism :: "canonical_value option"
  nx_stacktrace :: "normalized_frame list"
  nx_raw_stacktrace :: "normalized_frame list"
  nx_unknown :: canonical_map

record normalized_tag =
  tag_key :: string
  tag_value :: string

record normalized_breadcrumb =
  bc_timestamp :: "timestamp option"
  bc_ty :: "string option"
  bc_category :: "string option"
  bc_level :: "event_level option"
  bc_message :: "string option"
  bc_data :: canonical_map
  bc_unknown :: canonical_map

record normalized_event_body =
  nb_occurred_at :: timestamp
  nb_platform :: event_platform
  nb_level :: event_level
  nb_logger :: "string option"
  nb_message :: "string option"
  nb_transaction :: "string option"
  nb_release :: "string option"
  nb_dist :: "string option"
  nb_environment :: "string option"
  nb_fingerprint :: "string list"
  nb_exceptions :: "normalized_exception list"
  nb_stacktrace :: "normalized_frame list"
  nb_tags :: "normalized_tag list"
  nb_request :: "canonical_value option"
  nb_user :: "canonical_value option"
  nb_contexts :: canonical_map
  nb_breadcrumbs :: "normalized_breadcrumb list"
  nb_unknown :: canonical_map

datatype normalization_diagnostic_code =
    ND_InvalidTimestamp | ND_InvalidFieldType | ND_InvalidLevel | ND_CollectionTruncated
  | ND_StringTruncated | ND_DuplicateTag | ND_UnknownFieldsTruncated

fun NormalizationDiagnosticCode_as_str :: "normalization_diagnostic_code \<Rightarrow> string" where
  "NormalizationDiagnosticCode_as_str ND_InvalidTimestamp = ''invalid_timestamp''"
| "NormalizationDiagnosticCode_as_str ND_InvalidFieldType = ''invalid_field_type''"
| "NormalizationDiagnosticCode_as_str ND_InvalidLevel = ''invalid_level''"
| "NormalizationDiagnosticCode_as_str ND_CollectionTruncated = ''collection_truncated''"
| "NormalizationDiagnosticCode_as_str ND_StringTruncated = ''string_truncated''"
| "NormalizationDiagnosticCode_as_str ND_DuplicateTag = ''duplicate_tag''"
| "NormalizationDiagnosticCode_as_str ND_UnknownFieldsTruncated = ''unknown_fields_truncated''"

record normalization_diagnostic =
  nd_code :: normalization_diagnostic_code
  nd_path :: string

record normalized_event =
  ne_project_id :: project_id
  ne_event_id :: event_id
  ne_received_at :: timestamp
  ne_policy_revision :: nat
  ne_body :: normalized_event_body
  ne_diagnostics :: "normalization_diagnostic list"

section \<open>Symbolication\<close>

datatype symbolication_kind = Sym_NotRequired | Sym_Native | Sym_JavaScript

fun SymbolicationKind_as_str :: "symbolication_kind \<Rightarrow> string" where
  "SymbolicationKind_as_str Sym_NotRequired = ''not_required''"
| "SymbolicationKind_as_str Sym_Native = ''native''"
| "SymbolicationKind_as_str Sym_JavaScript = ''javascript''"

datatype raw_trace_origin = Origin_Event | Origin_Exception nat | Origin_ExceptionRaw nat

record raw_stacktrace =
  rt_origin :: raw_trace_origin
  rt_frames :: "normalized_frame list"

record symbolication_module =
  sm_kind :: "string option"
  sm_debug_id :: "string option"
  sm_code_id :: "string option"
  sm_code_file :: "string option"
  sm_image_address :: "string option"
  sm_image_size :: "nat option"

record symbolication_request =
  sq_project_id :: project_id
  sq_debug_file_revision :: nat
  sq_artifact_revision :: nat
  sq_kind :: symbolication_kind
  sq_traces :: "raw_stacktrace list"
  sq_modules :: "symbolication_module list"
  sq_release :: "string option"
  sq_dist :: "string option"

record symbolicated_frame =
  sf_original_index :: nat
  sf_function :: "string option"
  sf_filename :: "string option"
  sf_module :: "string option"
  sf_line :: "nat option"
  sf_column :: "nat option"
  sf_context_line :: "string option"
  sf_pre_context :: "string list"
  sf_post_context :: "string list"

record symbolicated_stacktrace =
  st_origin :: raw_trace_origin
  st_frames :: "symbolicated_frame list"

datatype backend_symbolication_status =
  Backend_Complete | Backend_Partial | Backend_Missing | Backend_Malformed

datatype symbolication_status =
    Status_NotRequired | Status_Complete | Status_Partial | Status_Missing | Status_Malformed
  | Status_Timeout | Status_Unavailable | Status_Cancelled

fun SymbolicationStatus_as_str :: "symbolication_status \<Rightarrow> string" where
  "SymbolicationStatus_as_str Status_NotRequired = ''not_required''"
| "SymbolicationStatus_as_str Status_Complete = ''complete''"
| "SymbolicationStatus_as_str Status_Partial = ''partial''"
| "SymbolicationStatus_as_str Status_Missing = ''missing''"
| "SymbolicationStatus_as_str Status_Malformed = ''malformed''"
| "SymbolicationStatus_as_str Status_Timeout = ''timeout''"
| "SymbolicationStatus_as_str Status_Unavailable = ''unavailable''"
| "SymbolicationStatus_as_str Status_Cancelled = ''cancelled''"

datatype symbolication_disposition = Disp_Continue | Disp_Retryable | Disp_FinalizeRaw

fun SymbolicationDisposition_as_str :: "symbolication_disposition \<Rightarrow> string" where
  "SymbolicationDisposition_as_str Disp_Continue = ''continue''"
| "SymbolicationDisposition_as_str Disp_Retryable = ''retryable''"
| "SymbolicationDisposition_as_str Disp_FinalizeRaw = ''finalize_raw''"

datatype symbolication_diagnostic_code =
    SD_BackendPartial | SD_MissingDebugFile | SD_MalformedDebugFile | SD_MalformedBackendResponse
  | SD_RequestLimitExceeded | SD_BackendTimeout | SD_BackendUnavailable | SD_Cancelled
  | SD_BaselineBackendDisabled

fun SymbolicationDiagnosticCode_as_str :: "symbolication_diagnostic_code \<Rightarrow> string" where
  "SymbolicationDiagnosticCode_as_str SD_BackendPartial = ''backend_partial''"
| "SymbolicationDiagnosticCode_as_str SD_MissingDebugFile = ''missing_debug_file''"
| "SymbolicationDiagnosticCode_as_str SD_MalformedDebugFile = ''malformed_debug_file''"
| "SymbolicationDiagnosticCode_as_str SD_MalformedBackendResponse = ''malformed_backend_response''"
| "SymbolicationDiagnosticCode_as_str SD_RequestLimitExceeded = ''request_limit_exceeded''"
| "SymbolicationDiagnosticCode_as_str SD_BackendTimeout = ''backend_timeout''"
| "SymbolicationDiagnosticCode_as_str SD_BackendUnavailable = ''backend_unavailable''"
| "SymbolicationDiagnosticCode_as_str SD_Cancelled = ''cancelled''"
| "SymbolicationDiagnosticCode_as_str SD_BaselineBackendDisabled = ''baseline_backend_disabled''"

record backend_symbolication_result =
  br_status :: backend_symbolication_status
  br_derived :: "symbolicated_stacktrace list"
  br_missing_debug_ids :: "string list"
  br_diagnostics :: "symbolication_diagnostic_code list"

record symbolication_result =
  sr_kind :: symbolication_kind
  sr_status :: symbolication_status
  sr_disposition :: symbolication_disposition
  sr_raw :: "raw_stacktrace list"
  sr_derived :: "symbolicated_stacktrace list"
  sr_missing_debug_ids :: "string list"
  sr_diagnostics :: "symbolication_diagnostic_code list"

section \<open>The stored names separate the constructors\<close>

lemma EventLevel_as_str_inj: "EventLevel_as_str a = EventLevel_as_str b \<longleftrightarrow> a = b"
  by (cases a; cases b) simp_all

lemma SymbolicationStatus_as_str_inj:
  "SymbolicationStatus_as_str a = SymbolicationStatus_as_str b \<longleftrightarrow> a = b"
  by (cases a; cases b) simp_all

lemma SymbolicationDisposition_as_str_inj:
  "SymbolicationDisposition_as_str a = SymbolicationDisposition_as_str b \<longleftrightarrow> a = b"
  by (cases a; cases b) simp_all

lemma SymbolicationDiagnosticCode_as_str_inj:
  "SymbolicationDiagnosticCode_as_str a = SymbolicationDiagnosticCode_as_str b \<longleftrightarrow> a = b"
  by (cases a; cases b) simp_all

lemma NormalizationDiagnosticCode_as_str_inj:
  "NormalizationDiagnosticCode_as_str a = NormalizationDiagnosticCode_as_str b \<longleftrightarrow> a = b"
  by (cases a; cases b) simp_all

end
