(* ===== verification/Grouping.thy ===== *)
theory Grouping
  imports Events Identities "HOL-Library.Monad_Syntax"
begin

text \<open>
  Deterministic event grouping, \<^verbatim>\<open>crates/domain/src/grouping.rs\<close>: grouping keys and issue
  identifiers, the choice between the SDK fingerprint, the exception stack, the native stack and
  the message, the normalization of messages, identifiers and paths, and the length-prefixed
  encoding that is hashed. \<^verbatim>\<open>blake3::hash\<close> and \<^verbatim>\<open>hex::encode\<close> are parameters. A panic of
  the source (\<^verbatim>\<open>expect\<close>) is \<open>None\<close>; a returned error is \<open>Inl\<close>.
\<close>

section \<open>Keys and identifiers\<close>

definition REVISION_1 :: nat where "REVISION_1 = 1"
definition MAX_COMPONENTS :: nat where "MAX_COMPONENTS = 64"
definition MAX_COMPONENT_BYTES :: nat where "MAX_COMPONENT_BYTES = 2 * 1024"
definition MAX_GROUPING_FRAMES :: nat where "MAX_GROUPING_FRAMES = 8"
definition MAX_EXCEPTION_TYPES :: nat where "MAX_EXCEPTION_TYPES = 8"
definition DEFAULT_FINGERPRINT :: string where "DEFAULT_FINGERPRINT = ''{{ default }}''"

record grouping_key =
  gk_revision :: nat
  gk_digest :: bytes

datatype grouping_key_error = GK_InvalidLength | GK_InvalidRevision

definition grouping_key_ok :: "grouping_key \<Rightarrow> bool" where
  "grouping_key_ok k = (0 < gk_revision k \<and> gk_revision k \<le> 65535 \<and> length (gk_digest k) = 32)"

definition GroupingKey_parse :: "bytes \<Rightarrow> grouping_key_error + grouping_key" where
  "GroupingKey_parse bs =
     (if length bs \<noteq> 34 then Inl GK_InvalidLength
      else let revision = from_be [bs ! 0, bs ! 1] in
        if revision = 0 then Inl GK_InvalidRevision
        else Inr \<lparr>gk_revision = revision, gk_digest = drop 2 bs\<rparr>)"

definition GroupingKey_to_bytes :: "grouping_key \<Rightarrow> bytes" where
  "GroupingKey_to_bytes k = be_bytes 2 (gk_revision k) @ gk_digest k"

datatype grouping_strategy =
  GS_SdkFingerprint | GS_ExceptionStack | GS_NativeStack | GS_Message

fun GroupingStrategy_as_str :: "grouping_strategy \<Rightarrow> string" where
  "GroupingStrategy_as_str GS_SdkFingerprint = ''sdk_fingerprint''"
| "GroupingStrategy_as_str GS_ExceptionStack = ''exception_stack''"
| "GroupingStrategy_as_str GS_NativeStack = ''native_stack''"
| "GroupingStrategy_as_str GS_Message = ''message''"

fun GroupingStrategy_domain :: "grouping_strategy \<Rightarrow> string" where
  "GroupingStrategy_domain GS_SdkFingerprint = ''sdk_fingerprint/v1''"
| "GroupingStrategy_domain GS_ExceptionStack = ''exception_stack/v1''"
| "GroupingStrategy_domain GS_NativeStack = ''native_stack/v1''"
| "GroupingStrategy_domain GS_Message = ''message/v1''"

datatype grouping_component_kind =
    GC_SdkFingerprint | GC_DefaultStrategy | GC_DefaultDigest | GC_ExceptionType | GC_Frame
  | GC_FrameFunction | GC_FrameModule | GC_FramePath | GC_FrameLine | GC_NativeModule
  | GC_NativeRelativeAddress | GC_Logger | GC_Message

fun component_kind_byte :: "grouping_component_kind \<Rightarrow> u8" where
  "component_kind_byte GC_SdkFingerprint = 1"
| "component_kind_byte GC_DefaultStrategy = 2"
| "component_kind_byte GC_DefaultDigest = 3"
| "component_kind_byte GC_ExceptionType = 4"
| "component_kind_byte GC_Frame = 5"
| "component_kind_byte GC_FrameFunction = 6"
| "component_kind_byte GC_FrameModule = 7"
| "component_kind_byte GC_FramePath = 8"
| "component_kind_byte GC_FrameLine = 9"
| "component_kind_byte GC_NativeModule = 10"
| "component_kind_byte GC_NativeRelativeAddress = 11"
| "component_kind_byte GC_Logger = 12"
| "component_kind_byte GC_Message = 13"

record grouping_component =
  gc_kind :: grouping_component_kind
  gc_value :: string

record grouping_explanation =
  gx_summary :: string
  gx_components :: "grouping_component list"

record grouping_result =
  gr_key :: grouping_key
  gr_issue_id :: bytes
  gr_strategy :: grouping_strategy
  gr_explanation :: grouping_explanation

datatype grouping_error = GE_UnsupportedRevision | GE_InputLimitExceeded

record selected =
  sel_strategy :: grouping_strategy
  sel_components :: "grouping_component list"
  sel_summary :: string

section \<open>The encoder\<close>

definition Encoder_byte :: "u8 \<Rightarrow> bytes \<Rightarrow> bytes" where
  "Encoder_byte v enc = enc @ [v]"

definition Encoder_bytes :: "bytes \<Rightarrow> bytes \<Rightarrow> bytes option" where
  "Encoder_bytes v enc = (if length v \<le> u32_max then Some (enc @ be_bytes 4 (length v) @ v) else None)"

fun encode_components :: "grouping_component list \<Rightarrow> bytes \<Rightarrow> bytes option" where
  "encode_components [] enc = Some enc"
| "encode_components (c # cs) enc = do {
     enc \<leftarrow> Encoder_bytes (as_bytes (gc_value c)) (Encoder_byte (component_kind_byte (gc_kind c)) enc);
     encode_components cs enc
   }"

definition key_encoding :: "nat \<Rightarrow> grouping_strategy \<Rightarrow> grouping_component list \<Rightarrow> bytes option" where
  "key_encoding revision strategy components = do {
     enc \<leftarrow> Encoder_bytes (as_bytes (GroupingStrategy_domain strategy)) [];
     enc \<leftarrow> Encoder_bytes (be_bytes 2 revision) enc;
     encode_components components enc
   }"

definition key_for ::
  "(bytes \<Rightarrow> bytes) \<Rightarrow> nat \<Rightarrow> grouping_strategy \<Rightarrow> grouping_component list \<Rightarrow> grouping_key option" where
  "key_for blake3 revision strategy components = do {
     enc \<leftarrow> key_encoding revision strategy components;
     Some \<lparr>gk_revision = revision, gk_digest = blake3 enc\<rparr>
   }"

definition issue_encoding :: "project_id \<Rightarrow> grouping_key \<Rightarrow> bytes option" where
  "issue_encoding project key = do {
     enc \<leftarrow> Encoder_bytes (as_bytes ''issue-id/v1'') [];
     enc \<leftarrow> Encoder_bytes (be_bytes_signed 4 project) enc;
     Encoder_bytes (GroupingKey_to_bytes key) enc
   }"

definition derive_issue_id :: "(bytes \<Rightarrow> bytes) \<Rightarrow> project_id \<Rightarrow> grouping_key \<Rightarrow> bytes option" where
  "derive_issue_id blake3 project key = do {
     enc \<leftarrow> issue_encoding project key;
     Some (take 16 (blake3 enc))
   }"

definition verify_issue_id :: "(bytes \<Rightarrow> bytes) \<Rightarrow> project_id \<Rightarrow> grouping_key \<Rightarrow> bytes \<Rightarrow> bool option" where
  "verify_issue_id blake3 project key issue = do {
     derived \<leftarrow> derive_issue_id blake3 project key;
     Some (derived = issue)
   }"

section \<open>Normalization\<close>

definition normalize_identifier :: "string \<Rightarrow> string" where
  "normalize_identifier v = to_ascii_lowercase (str_trim v)"

definition normalize_path :: "string \<Rightarrow> string" where
  "normalize_path v =
     (let normalized = map (\<lambda>c. if c = CHR 0x5C then CHR ''/'' else c) v;
          without_query = takeWhile (\<lambda>c. c \<noteq> CHR ''?'' \<and> c \<noteq> CHR ''#'') normalized;
          parts = filter (\<lambda>part. part \<noteq> []) (split_on (CHR ''/'') without_query)
      in to_ascii_lowercase (join ''/'' (drop (length parts - 2) parts)))"

function boundary_at_or_below :: "string \<Rightarrow> nat \<Rightarrow> nat" where
  "boundary_at_or_below v e = (if is_char_boundary v e then e else boundary_at_or_below v (e - 1))"
  by pat_completeness auto
termination
  by (relation "measure snd") (auto simp: is_char_boundary_def)

definition truncate_utf8 :: "string \<Rightarrow> nat \<Rightarrow> string" where
  "truncate_utf8 v maximum = take (boundary_at_or_below v (min maximum (length v))) v"

definition is_uuid :: "string \<Rightarrow> bool" where
  "is_uuid v = (length v = 36 \<and> list_all (\<lambda>(i, c). if i \<in> {8, 13, 18, 23} then c = CHR ''-''
     else is_ascii_hexdigit c) (enumerate 0 v))"

definition is_address :: "string \<Rightarrow> bool" where
  "is_address v = is_some_and (opt_or (strip_prefix ''0x'' v) (strip_prefix ''0X'' v))
     (\<lambda>digits. 6 \<le> length digits \<and> list_all is_ascii_hexdigit digits)"

text \<open>A scalar value tested by an ASCII class: multi-byte characters are in none of them.\<close>

definition scalar_in :: "(char \<Rightarrow> bool) \<Rightarrow> string \<Rightarrow> bool" where
  "scalar_in p ch = (case ch of [c] \<Rightarrow> p c | _ \<Rightarrow> False)"

definition token_core :: "string \<Rightarrow> string" where
  "token_core t = trim_chars (\<lambda>ch. \<not> scalar_in is_ascii_alphanumeric ch \<and> ch \<noteq> ''-'') t"

definition normalize_message_token :: "string \<Rightarrow> string" where
  "normalize_message_token t =
     (let trimmed = token_core t in
      if is_uuid trimmed then ''{uuid}''
      else if is_address t then ''{address}''
      else if 6 \<le> length trimmed \<and> list_all is_ascii_digit trimmed then ''{number}''
      else if 16 \<le> length trimmed \<and> list_all is_ascii_alphanumeric trimmed
        \<and> list_ex is_ascii_alphabetic trimmed \<and> list_ex is_ascii_digit trimmed then ''{id}''
      else to_ascii_lowercase t)"

definition normalize_message :: "string \<Rightarrow> string" where
  "normalize_message v =
     truncate_utf8 (join '' '' (map normalize_message_token (split_whitespace v))) MAX_COMPONENT_BYTES"

section \<open>Frames\<close>

definition component :: "grouping_component_kind \<Rightarrow> string \<Rightarrow> grouping_component" where
  "component kind v = \<lparr>gc_kind = kind, gc_value = v\<rparr>"

definition push_component ::
  "grouping_component list \<Rightarrow> grouping_component_kind \<Rightarrow> string \<Rightarrow> grouping_component list" where
  "push_component cs kind v = cs @ [component kind v]"

datatype frame_identity =
    FI_Raw "string option" "string option" "string option" "nat option"
  | FI_Derived "string option" "string option" "string option" "nat option"

fun FrameIdentity_fields ::
  "frame_identity \<Rightarrow> string option \<times> string option \<times> string option \<times> nat option" where
  "FrameIdentity_fields (FI_Raw f m p l) = (f, m, p, l)"
| "FrameIdentity_fields (FI_Derived f m p l) = (f, m, p, l)"

definition raw_identity :: "normalized_frame \<Rightarrow> frame_identity option" where
  "raw_identity f =
     (if nf_instruction_address f = None \<and> nf_symbol_address f = None \<and> nf_in_app f \<noteq> Some False
         \<and> (nf_function f \<noteq> None \<or> nf_module f \<noteq> None \<or> nf_filename f \<noteq> None
            \<or> nf_absolute_path f \<noteq> None)
      then Some (FI_Raw (map_option normalize_identifier (nf_function f))
         (map_option normalize_identifier (nf_module f))
         (map_option normalize_path (opt_or (nf_filename f) (nf_absolute_path f)))
         (if nf_function f = None then nf_line f else None))
      else None)"

definition derived_identity :: "symbolicated_frame \<Rightarrow> frame_identity option" where
  "derived_identity f =
     (if sf_function f \<noteq> None \<or> sf_module f \<noteq> None \<or> sf_filename f \<noteq> None
      then Some (FI_Derived (map_option normalize_identifier (sf_function f))
         (map_option normalize_identifier (sf_module f))
         (map_option normalize_path (sf_filename f))
         (if sf_function f = None then sf_line f else None))
      else None)"

definition derived_frames ::
  "symbolication_result option \<Rightarrow> raw_trace_origin \<Rightarrow> symbolicated_frame list option" where
  "derived_frames symbolication origin = do {
     result \<leftarrow> symbolication;
     (if sr_status result = Status_Complete \<or> sr_status result = Status_Partial
      then map_option st_frames (find (\<lambda>trace. st_origin trace = origin) (sr_derived result))
      else None)
   }"

definition place_derived ::
  "symbolicated_frame option list \<Rightarrow> symbolicated_frame \<Rightarrow> symbolicated_frame option list" where
  "place_derived slots f =
     (if sf_original_index f < length slots then slots[sf_original_index f := Some f] else slots)"

definition frame_slots ::
  "normalized_frame list \<Rightarrow> symbolicated_frame list option \<Rightarrow> symbolicated_frame option list" where
  "frame_slots raw derived =
     foldl place_derived (replicate (length raw) None) (unwrap_or derived [])"

definition frame_or_derived :: "normalized_frame \<times> symbolicated_frame option \<Rightarrow> frame_identity option" where
  "frame_or_derived = (\<lambda>(raw, derived). case derived of
       Some d \<Rightarrow> derived_identity d
     | None \<Rightarrow> raw_identity raw)"

definition significant_frames ::
  "normalized_frame list \<Rightarrow> symbolicated_frame list option \<Rightarrow> frame_identity list" where
  "significant_frames raw derived =
     take MAX_GROUPING_FRAMES
       (List.map_filter frame_or_derived (rev (zip raw (frame_slots raw derived))))"

definition opt_component :: "grouping_component_kind \<Rightarrow> string option \<Rightarrow> grouping_component list" where
  "opt_component kind v = (case v of None \<Rightarrow> [] | Some s \<Rightarrow> [component kind s])"

definition frame_components :: "nat \<Rightarrow> frame_identity \<Rightarrow> grouping_component list" where
  "frame_components index f =
     (case FrameIdentity_fields f of (function, module, path, line) \<Rightarrow>
        [component GC_Frame (dec_string index)]
        @ opt_component GC_FrameFunction function @ opt_component GC_FrameModule module
        @ opt_component GC_FramePath path @ opt_component GC_FrameLine (map_option dec_string line))"

definition append_frame_components ::
  "grouping_component list \<Rightarrow> frame_identity list \<Rightarrow> grouping_component list" where
  "append_frame_components cs frames =
     foldl (\<lambda>cs (index, f). cs @ frame_components index f) cs (enumerate 0 frames)"

section \<open>Strategies\<close>

definition all_frames :: "normalized_event_body \<Rightarrow> normalized_frame list" where
  "all_frames body = concat (map nx_stacktrace (nb_exceptions body)) @ nb_stacktrace body"

definition exception_types :: "normalized_event_body \<Rightarrow> string list" where
  "exception_types body =
     rev (take MAX_EXCEPTION_TYPES (List.map_filter nx_ty (rev (nb_exceptions body))))"

definition stack_components :: "string list \<Rightarrow> frame_identity list \<Rightarrow> grouping_component list" where
  "stack_components types frames =
     append_frame_components (foldl (\<lambda>cs ty. push_component cs GC_ExceptionType ty) [] types) frames"

fun last_exception_with_frames ::
  "symbolication_result option \<Rightarrow> (nat \<times> normalized_exception) list \<Rightarrow> frame_identity list option" where
  "last_exception_with_frames symbolication [] = None"
| "last_exception_with_frames symbolication ((index, x) # rest) =
     (let frames = significant_frames (nx_stacktrace x)
            (derived_frames symbolication (Origin_Exception index)) in
      if frames = [] then last_exception_with_frames symbolication rest else Some frames)"

definition exception_summary :: "nat \<Rightarrow> nat \<Rightarrow> string" where
  "exception_summary types frames = ''exception stack with '' @ dec_string types @ '' type(s) and ''
     @ dec_string frames @ '' significant frame(s)''"

definition exception_stack :: "normalized_event_body \<Rightarrow> symbolication_result option \<Rightarrow> selected option" where
  "exception_stack body symbolication =
     (if list_ex (\<lambda>f. nf_instruction_address f \<noteq> None \<or> nf_symbol_address f \<noteq> None) (all_frames body)
      then None
      else let types = exception_types body in
        case last_exception_with_frames symbolication (rev (enumerate 0 (nb_exceptions body))) of
          Some frames \<Rightarrow> Some \<lparr>sel_strategy = GS_ExceptionStack,
            sel_components = stack_components types frames,
            sel_summary = exception_summary (length types) (length frames)\<rparr>
        | None \<Rightarrow>
            (let frames = significant_frames (nb_stacktrace body)
                   (derived_frames symbolication Origin_Event) in
             if frames = [] then None
             else Some \<lparr>sel_strategy = GS_ExceptionStack,
               sel_components = stack_components types frames,
               sel_summary = ''event stack with '' @ dec_string (length frames)
                 @ '' significant frame(s)''\<rparr>))"

record native_module =
  nm_identity :: string
  nm_base :: nat
  nm_size :: "nat option"

definition checked_add_u64 :: "nat \<Rightarrow> nat \<Rightarrow> nat option" where
  "checked_add_u64 a b = (if a + b \<le> u64_max then Some (a + b) else None)"

definition NativeModule_contains :: "native_module \<Rightarrow> nat \<Rightarrow> bool" where
  "NativeModule_contains m address = (nm_base m \<le> address
     \<and> is_none_or (nm_size m \<bind> checked_add_u64 (nm_base m)) (\<lambda>end'. address < end'))"

definition canonical_string :: "canonical_value option \<Rightarrow> string option" where
  "canonical_string v = (case v of Some (CV_String s) \<Rightarrow> Some s | _ \<Rightarrow> None)"

definition canonical_u64 :: "canonical_value option \<Rightarrow> nat option" where
  "canonical_u64 v = (case v of Some (CV_Number s) \<Rightarrow> parse_unsigned 10 (2 ^ 64) s | _ \<Rightarrow> None)"

definition parse_hex_address :: "string \<Rightarrow> nat option" where
  "parse_hex_address v =
     (let digits = unwrap_or (strip_prefix ''0x'' v) v in
      if digits \<noteq> [] then parse_unsigned 16 (2 ^ 64) digits else None)"

definition native_module_of :: "canonical_value \<Rightarrow> native_module option" where
  "native_module_of img = (case img of
       CV_Object attrs \<Rightarrow> do {
         identity \<leftarrow> opt_or (canonical_string (map_of attrs ''debug_id''))
                            (canonical_string (map_of attrs ''code_id''));
         base \<leftarrow> canonical_string (map_of attrs ''image_addr'') \<bind> parse_hex_address;
         Some \<lparr>nm_identity = normalize_identifier identity, nm_base = base,
               nm_size = canonical_u64 (map_of attrs ''image_size'')\<rparr>
       }
     | _ \<Rightarrow> None)"

definition native_modules :: "normalized_event_body \<Rightarrow> native_module list" where
  "native_modules body = (case map_of (nb_unknown body) ''debug_meta'' of
       Some (CV_Object debug_meta) \<Rightarrow>
         (case map_of debug_meta ''images'' of
            Some (CV_Array images) \<Rightarrow> sort_key nm_base (List.map_filter native_module_of images)
          | _ \<Rightarrow> [])
     | _ \<Rightarrow> [])"

fun native_pairs ::
  "native_module list \<Rightarrow> normalized_frame list \<Rightarrow> (string \<times> nat) list \<Rightarrow> (string \<times> nat) list" where
  "native_pairs modules [] pairs = pairs"
| "native_pairs modules (f # fs) pairs =
     (case nf_instruction_address f \<bind> parse_hex_address of
        None \<Rightarrow> native_pairs modules fs pairs
      | Some address \<Rightarrow>
         (case find (\<lambda>m. NativeModule_contains m address) (rev modules) of
            None \<Rightarrow> native_pairs modules fs pairs
          | Some m \<Rightarrow>
             (let pairs' = pairs @ [(nm_identity m, address - nm_base m)] in
              if length pairs' = MAX_GROUPING_FRAMES then pairs'
              else native_pairs modules fs pairs')))"

fun find_map :: "('a \<Rightarrow> 'b option) \<Rightarrow> 'a list \<Rightarrow> 'b option" where
  "find_map f [] = None"
| "find_map f (x # xs) = (case f x of None \<Rightarrow> find_map f xs | Some y \<Rightarrow> Some y)"

definition push_native_pair :: "grouping_component list \<Rightarrow> string \<times> nat \<Rightarrow> grouping_component list" where
  "push_native_pair cs = (\<lambda>(module, relative).
     push_component (push_component cs GC_NativeModule module)
       GC_NativeRelativeAddress (digits_of 16 relative))"

definition native_stack :: "normalized_event_body \<Rightarrow> selected option" where
  "native_stack body =
     (let modules = native_modules body in
      if modules = [] then None
      else let pairs = native_pairs modules (rev (all_frames body)) [] in
        if pairs = [] then None
        else Some \<lparr>sel_strategy = GS_NativeStack,
          sel_components = foldl push_native_pair
            (opt_component GC_ExceptionType (find_map nx_ty (rev (nb_exceptions body)))) pairs,
          sel_summary = ''native stack with '' @ dec_string (length pairs)
            @ '' module-relative frame(s)''\<rparr>)"

definition message_text :: "string option \<Rightarrow> string" where
  "message_text m = (case map_option normalize_message m of
       Some v \<Rightarrow> if v \<noteq> [] then v else ''<empty error>''
     | None \<Rightarrow> ''<empty error>'')"

definition message_strategy :: "normalized_event_body \<Rightarrow> selected" where
  "message_strategy body = \<lparr>sel_strategy = GS_Message,
     sel_components = push_component
       (opt_component GC_Logger (map_option normalize_identifier (nb_logger body)))
       GC_Message (message_text (nb_message body)),
     sel_summary = ''logger and normalized message''\<rparr>"

definition select_default ::
  "normalized_event_body \<Rightarrow> symbolication_result option \<Rightarrow> grouping_error + selected" where
  "select_default body symbolication = (case exception_stack body symbolication of
       Some s \<Rightarrow> Inr s
     | None \<Rightarrow> (case native_stack body of Some s \<Rightarrow> Inr s | None \<Rightarrow> Inr (message_strategy body)))"

section \<open>Grouping\<close>

definition push_fingerprint ::
  "(bytes \<Rightarrow> string) \<Rightarrow> selected option \<Rightarrow> grouping_key option \<Rightarrow> string
   \<Rightarrow> grouping_component list \<Rightarrow> grouping_component list option" where
  "push_fingerprint hex_encode dflt default_key v cs =
     (if v = DEFAULT_FINGERPRINT then do {
        s \<leftarrow> dflt;
        key \<leftarrow> default_key;
        Some (push_component (push_component cs GC_DefaultStrategy
          (GroupingStrategy_as_str (sel_strategy s))) GC_DefaultDigest (hex_encode (gk_digest key)))
      }
      else Some (push_component cs GC_SdkFingerprint v))"

fun fingerprint_components ::
  "(bytes \<Rightarrow> string) \<Rightarrow> selected option \<Rightarrow> grouping_key option \<Rightarrow> string list
   \<Rightarrow> grouping_component list \<Rightarrow> grouping_component list option" where
  "fingerprint_components hex_encode dflt default_key [] cs = Some cs"
| "fingerprint_components hex_encode dflt default_key (v # vs) cs = do {
     cs \<leftarrow> push_fingerprint hex_encode dflt default_key v cs;
     fingerprint_components hex_encode dflt default_key vs cs
   }"

definition fingerprint_summary :: "nat \<Rightarrow> string" where
  "fingerprint_summary n = ''SDK fingerprint with '' @ dec_string n @ '' component(s)''"

definition select_fingerprint ::
  "(bytes \<Rightarrow> bytes) \<Rightarrow> (bytes \<Rightarrow> string) \<Rightarrow> normalized_event_body \<Rightarrow> symbolication_result option
   \<Rightarrow> (grouping_error + selected) option" where
  "select_fingerprint blake3 hex_encode body symbolication =
     (let needs_default = list_ex (\<lambda>v. v = DEFAULT_FINGERPRINT) (nb_fingerprint body) in
      case transpose_opt (if needs_default then Some (select_default body symbolication) else None) of
        Inl e \<Rightarrow> Some (Inl e)
      | Inr dflt \<Rightarrow> do {
          default_key \<leftarrow> (case dflt of
              None \<Rightarrow> Some None
            | Some s \<Rightarrow> map_option Some (key_for blake3 REVISION_1 (sel_strategy s) (sel_components s)));
          cs \<leftarrow> fingerprint_components hex_encode dflt default_key (nb_fingerprint body) [];
          Some (Inr \<lparr>sel_strategy = GS_SdkFingerprint, sel_components = cs,
            sel_summary = fingerprint_summary (length (nb_fingerprint body))\<rparr>)
        })"

definition validate_components :: "grouping_component list \<Rightarrow> grouping_error + unit" where
  "validate_components cs =
     (if cs = [] \<or> length cs > MAX_COMPONENTS
         \<or> list_ex (\<lambda>c. length (gc_value c) > MAX_COMPONENT_BYTES) cs
      then Inl GE_InputLimitExceeded else Inr ())"

definition group_selected ::
  "(bytes \<Rightarrow> bytes) \<Rightarrow> project_id \<Rightarrow> selected \<Rightarrow> (grouping_error + grouping_result) option" where
  "group_selected blake3 project s = (case validate_components (sel_components s) of
       Inl e \<Rightarrow> Some (Inl e)
     | Inr _ \<Rightarrow> do {
         key \<leftarrow> key_for blake3 REVISION_1 (sel_strategy s) (sel_components s);
         issue \<leftarrow> derive_issue_id blake3 project key;
         Some (Inr \<lparr>gr_key = key, gr_issue_id = issue, gr_strategy = sel_strategy s,
           gr_explanation = \<lparr>gx_summary = sel_summary s, gx_components = sel_components s\<rparr>\<rparr>)
       })"

definition group_revision_1 ::
  "(bytes \<Rightarrow> bytes) \<Rightarrow> (bytes \<Rightarrow> string) \<Rightarrow> project_id \<Rightarrow> normalized_event_body
   \<Rightarrow> symbolication_result option \<Rightarrow> (grouping_error + grouping_result) option" where
  "group_revision_1 blake3 hex_encode project body symbolication = do {
     s \<leftarrow> (if nb_fingerprint body = [] then Some (select_default body symbolication)
           else select_fingerprint blake3 hex_encode body symbolication);
     (case s of Inl e \<Rightarrow> Some (Inl e) | Inr s \<Rightarrow> group_selected blake3 project s)
   }"

definition group_event ::
  "(bytes \<Rightarrow> bytes) \<Rightarrow> (bytes \<Rightarrow> string) \<Rightarrow> project_id \<Rightarrow> nat \<Rightarrow> normalized_event_body
   \<Rightarrow> symbolication_result option \<Rightarrow> (grouping_error + grouping_result) option" where
  "group_event blake3 hex_encode project pinned_revision body symbolication =
     (if pinned_revision > 65535 then Some (Inl GE_UnsupportedRevision)
      else if pinned_revision \<noteq> REVISION_1 then Some (Inl GE_UnsupportedRevision)
      else group_revision_1 blake3 hex_encode project body symbolication)"

section \<open>The encoding is unambiguous\<close>

definition encoded_part :: "bytes \<Rightarrow> bytes" where
  "encoded_part v = be_bytes 4 (length v) @ v"

definition encoded_component :: "grouping_component \<Rightarrow> bytes" where
  "encoded_component c = component_kind_byte (gc_kind c) # encoded_part (as_bytes (gc_value c))"

definition values_within :: "nat \<Rightarrow> grouping_component list \<Rightarrow> bool" where
  "values_within n cs = list_all (\<lambda>c. length (gc_value c) \<le> n) cs"

lemma values_within_simps [simp]:
  "values_within n []"
  "values_within n (c # cs) \<longleftrightarrow> length (gc_value c) \<le> n \<and> values_within n cs"
  "values_within n (cs @ ds) \<longleftrightarrow> values_within n cs \<and> values_within n ds"
  by (auto simp: values_within_def)

lemma values_within_mono: "values_within m cs \<Longrightarrow> m \<le> n \<Longrightarrow> values_within n cs"
  by (induction cs) auto

lemma Encoder_bytes_small [simp]:
  "length v \<le> u32_max \<Longrightarrow> Encoder_bytes v enc = Some (enc @ encoded_part v)"
  by (simp add: Encoder_bytes_def encoded_part_def)

lemma encode_components_eq:
  "values_within u32_max cs \<Longrightarrow>
   encode_components cs enc = Some (enc @ concat (map encoded_component cs))"
  by (induction cs arbitrary: enc) (auto simp: Encoder_byte_def encoded_component_def)

lemma domain_short: "length (GroupingStrategy_domain s) \<le> 18"
  by (cases s) simp_all

lemma key_encoding_eq:
  assumes "values_within u32_max cs"
  shows "key_encoding revision s cs = Some (encoded_part (as_bytes (GroupingStrategy_domain s))
    @ encoded_part (be_bytes 2 revision) @ concat (map encoded_component cs))"
  using domain_short[of s] by (simp add: key_encoding_def encode_components_eq[OF assms])

lemma encoded_part_append_inj:
  assumes "encoded_part v @ r = encoded_part w @ t" "length v \<le> u32_max" "length w \<le> u32_max"
  shows "v = w \<and> r = t"
proof -
  have "be_bytes 4 (length v) = be_bytes 4 (length w)" "v @ r = w @ t"
    using assms(1) by (simp_all add: encoded_part_def)
  then have "length v = length w" using assms(2,3) by (simp add: be_bytes_eq_iff)
  with \<open>v @ r = w @ t\<close> show ?thesis by simp
qed

lemma component_kind_byte_inj: "component_kind_byte a = component_kind_byte b \<longleftrightarrow> a = b"
  by (cases a; cases b) simp_all

lemma domain_inj: "GroupingStrategy_domain a = GroupingStrategy_domain b \<longleftrightarrow> a = b"
  by (cases a; cases b) simp_all

lemma encoded_components_inj:
  "concat (map encoded_component cs) = concat (map encoded_component ds) \<Longrightarrow>
   values_within u32_max cs \<Longrightarrow> values_within u32_max ds \<Longrightarrow> cs = ds"
proof (induction cs arbitrary: ds)
  case Nil
  then show ?case by (cases ds) (auto simp: encoded_component_def)
next
  case (Cons c cs)
  then obtain d ds' where ds: "ds = d # ds'" by (cases ds) (auto simp: encoded_component_def)
  have kind: "component_kind_byte (gc_kind c) = component_kind_byte (gc_kind d)"
    and parts: "encoded_part (as_bytes (gc_value c)) @ concat (map encoded_component cs)
     = encoded_part (as_bytes (gc_value d)) @ concat (map encoded_component ds')"
    using Cons.prems(1)
    by (simp_all add: ds encoded_component_def[of c] encoded_component_def[of d])
  have "length (as_bytes (gc_value c)) \<le> u32_max" "length (as_bytes (gc_value d)) \<le> u32_max"
    using Cons.prems(2,3) by (simp_all add: ds)
  from encoded_part_append_inj[OF parts this] have "gc_value c = gc_value d"
    and rest: "concat (map encoded_component cs) = concat (map encoded_component ds')" by simp_all
  with kind have "c = d" by (simp add: component_kind_byte_inj)
  moreover have "cs = ds'" using Cons.IH[OF rest] Cons.prems(2,3) by (simp add: ds)
  ultimately show ?case by (simp add: ds)
qed

type_synonym grouping_identity = "nat \<times> grouping_strategy \<times> grouping_component list"

definition grouping_preimage :: "grouping_identity \<Rightarrow> bytes" where
  "grouping_preimage = (\<lambda>(revision, s, cs). encoded_part (as_bytes (GroupingStrategy_domain s))
     @ encoded_part (be_bytes 2 revision) @ concat (map encoded_component cs))"

definition grouping_identity_ok :: "grouping_identity \<Rightarrow> bool" where
  "grouping_identity_ok = (\<lambda>(revision, s, cs). revision \<le> 65535 \<and> values_within u32_max cs)"

interpretation grouping: identity_scheme grouping_preimage grouping_identity_ok
proof
  fix k k' :: grouping_identity
  obtain r s cs r' s' cs' where k: "k = (r, s, cs)" "k' = (r', s', cs')" by (metis prod_cases3)
  assume "grouping_identity_ok k" "grouping_identity_ok k'"
  then have ok: "r \<le> 65535" "r' \<le> 65535" "values_within u32_max cs" "values_within u32_max cs'"
    by (simp_all add: k grouping_identity_ok_def)
  assume "grouping_preimage k = grouping_preimage k'"
  then have "encoded_part (as_bytes (GroupingStrategy_domain s)) @ encoded_part (be_bytes 2 r)
        @ concat (map encoded_component cs)
      = encoded_part (as_bytes (GroupingStrategy_domain s')) @ encoded_part (be_bytes 2 r')
        @ concat (map encoded_component cs')"
    by (simp add: k grouping_preimage_def)
  from encoded_part_append_inj[OF this] domain_short[of s] domain_short[of s']
  have s: "s = s'" and "encoded_part (be_bytes 2 r) @ concat (map encoded_component cs)
      = encoded_part (be_bytes 2 r') @ concat (map encoded_component cs')"
    by (simp_all add: domain_inj)
  from encoded_part_append_inj[OF this(2)] ok have "r = r'" "cs = cs'"
    by (auto simp: be_bytes_eq_iff dest: encoded_components_inj)
  with s show "k = k'" by (simp add: k)
qed

lemma key_encoding_preimage:
  "values_within u32_max cs \<Longrightarrow> key_encoding revision s cs = Some (grouping_preimage (revision, s, cs))"
  by (simp add: key_encoding_eq grouping_preimage_def)

lemma validated_components:
  "validate_components cs = Inr () \<longleftrightarrow>
     cs \<noteq> [] \<and> length cs \<le> MAX_COMPONENTS \<and> values_within MAX_COMPONENT_BYTES cs"
  by (auto simp: validate_components_def values_within_def list_all_iff list_ex_iff
      simp flip: not_le split: if_splits)

lemma validated_values: "validate_components cs = Inr () \<Longrightarrow> values_within u32_max cs"
  unfolding validated_components by (auto intro: values_within_mono simp: MAX_COMPONENT_BYTES_def)

section \<open>Component counts of the default strategies\<close>

lemma foldl_push_component: "foldl (\<lambda>cs v. push_component cs k v) cs vs = cs @ map (component k) vs"
  by (induction vs arbitrary: cs) (simp_all add: push_component_def)

lemma foldl_frame_components:
  "foldl (\<lambda>cs (i, f). cs @ frame_components i f) cs xs = cs @ concat (map (\<lambda>(i, f). frame_components i f) xs)"
  by (induction xs arbitrary: cs) auto

lemma stack_components_eq:
  "stack_components types frames = map (component GC_ExceptionType) types
     @ concat (map (\<lambda>(i, f). frame_components i f) (enumerate 0 frames))"
  by (simp add: stack_components_def append_frame_components_def foldl_push_component
      foldl_frame_components)

lemma length_opt_component: "length (opt_component k v) \<le> 1"
  by (simp add: opt_component_def split: option.splits)

lemma length_frame_components: "length (frame_components i f) \<le> 5" "frame_components i f \<noteq> []"
proof -
  obtain a b c d where f: "FrameIdentity_fields f = (a, b, c, d)" by (metis prod_cases4)
  show "length (frame_components i f) \<le> 5"
    using length_opt_component[of GC_FrameFunction a] length_opt_component[of GC_FrameModule b]
      length_opt_component[of GC_FramePath c] length_opt_component[of GC_FrameLine "map_option dec_string d"]
    by (simp add: frame_components_def f)
  show "frame_components i f \<noteq> []" by (simp add: frame_components_def f)
qed

lemma length_concat_frame_components:
  "length (concat (map (\<lambda>(i, f). frame_components i f) xs)) \<le> 5 * length xs"
proof (induction xs)
  case (Cons x xs)
  obtain i f where "x = (i, f)" by (cases x)
  then show ?case using Cons length_frame_components(1)[of i f] by simp
qed simp

lemma length_stack_components: "length (stack_components types frames) \<le> length types + 5 * length frames"
  using length_concat_frame_components[of "enumerate 0 frames"] by (simp add: stack_components_eq)

lemma stack_components_nonempty: "frames \<noteq> [] \<Longrightarrow> stack_components types frames \<noteq> []"
  by (cases frames) (auto simp: stack_components_eq length_frame_components(2))

lemma length_significant_frames: "length (significant_frames raw derived) \<le> MAX_GROUPING_FRAMES"
  by (simp add: significant_frames_def)

lemma last_exception_with_frames_bounds:
  "last_exception_with_frames symbolication xs = Some frames \<Longrightarrow>
   frames \<noteq> [] \<and> length frames \<le> MAX_GROUPING_FRAMES"
  by (induction symbolication xs rule: last_exception_with_frames.induct)
    (auto simp: Let_def length_significant_frames split: if_splits)

lemma length_exception_types: "length (exception_types body) \<le> MAX_EXCEPTION_TYPES"
  by (simp add: exception_types_def)

lemma exception_stack_bounds:
  assumes "exception_stack body symbolication = Some s"
  shows "sel_components s \<noteq> [] \<and> length (sel_components s) \<le> 48 \<and> sel_strategy s = GS_ExceptionStack"
proof -
  obtain frames where f: "frames \<noteq> []" "length frames \<le> MAX_GROUPING_FRAMES"
    and s: "sel_components s = stack_components (exception_types body) frames"
      "sel_strategy s = GS_ExceptionStack"
    using assms by (auto simp: exception_stack_def Let_def length_significant_frames
        dest: last_exception_with_frames_bounds split: if_splits option.splits)
  have "length (sel_components s) \<le> length (exception_types body) + 5 * length frames"
    using length_stack_components by (simp add: s)
  also have "\<dots> \<le> 48"
    using f(2) length_exception_types[of body]
    by (simp add: MAX_GROUPING_FRAMES_def MAX_EXCEPTION_TYPES_def)
  finally show ?thesis using stack_components_nonempty[OF f(1)] by (simp add: s)
qed

lemma length_native_pairs:
  "length pairs < MAX_GROUPING_FRAMES \<Longrightarrow> length (native_pairs modules fs pairs) \<le> MAX_GROUPING_FRAMES"
  by (induction modules fs pairs rule: native_pairs.induct) (auto simp: Let_def split: option.splits)

lemma foldl_push_native_pair:
  "foldl push_native_pair cs pairs = cs @ concat (map (\<lambda>(m, r).
     [component GC_NativeModule m, component GC_NativeRelativeAddress (digits_of 16 r)]) pairs)"
  by (induction pairs arbitrary: cs) (auto simp: push_native_pair_def push_component_def)

lemma length_native_components:
  "length (concat (map (\<lambda>(m, r).
     [component GC_NativeModule m, component GC_NativeRelativeAddress (digits_of 16 r)]) pairs))
   = 2 * length pairs"
  by (induction pairs) auto

lemma native_stack_bounds:
  assumes "native_stack body = Some s"
  shows "sel_components s \<noteq> [] \<and> length (sel_components s) \<le> 17 \<and> sel_strategy s = GS_NativeStack"
proof -
  define pairs where "pairs = native_pairs (native_modules body) (rev (all_frames body)) []"
  define ty where "ty = opt_component GC_ExceptionType (find_map nx_ty (rev (nb_exceptions body)))"
  have p: "pairs \<noteq> []" and s: "sel_components s = foldl push_native_pair ty pairs"
      "sel_strategy s = GS_NativeStack"
    using assms by (auto simp: native_stack_def Let_def pairs_def ty_def split: if_splits)
  have "length pairs \<le> 8"
    using length_native_pairs[of "[]"] by (simp add: pairs_def MAX_GROUPING_FRAMES_def)
  moreover have "length ty \<le> 1" unfolding ty_def by (rule length_opt_component)
  moreover have "length (sel_components s) = length ty + 2 * length pairs"
    by (simp only: s foldl_push_native_pair length_append length_native_components)
  ultimately show ?thesis using p by (auto simp: s(2) simp flip: length_greater_0_conv)
qed

lemma message_strategy_bounds:
  "sel_components (message_strategy body) \<noteq> [] \<and> length (sel_components (message_strategy body)) \<le> 2"
  using length_opt_component[of GC_Logger "map_option normalize_identifier (nb_logger body)"]
  by (simp add: message_strategy_def push_component_def)

lemma select_default_bounds:
  "\<exists>s. select_default body symbolication = Inr s \<and> sel_components s \<noteq> []
     \<and> length (sel_components s) \<le> 48 \<and> sel_strategy s \<noteq> GS_SdkFingerprint"
  using exception_stack_bounds[of body symbolication] native_stack_bounds[of body]
    message_strategy_bounds[of body]
  by (fastforce simp: select_default_def message_strategy_def split: option.splits)

section \<open>Grouping as a whole\<close>

lemma key_for_total:
  "values_within u32_max cs \<Longrightarrow>
   key_for H revision s cs = Some \<lparr>gk_revision = revision, gk_digest = H (grouping_preimage (revision, s, cs))\<rparr>"
  by (simp add: key_for_def key_encoding_preimage)

lemma derive_issue_id_total:
  assumes "length (gk_digest k) = 32"
  shows "\<exists>i. derive_issue_id H p k = Some (take 16 (H i))"
  using assms by (auto simp: derive_issue_id_def issue_encoding_def GroupingKey_to_bytes_def)

lemma grouping_key_round_trip:
  assumes "grouping_key_ok k"
  shows "GroupingKey_parse (GroupingKey_to_bytes k) = Inr k"
proof -
  have "[GroupingKey_to_bytes k ! 0, GroupingKey_to_bytes k ! 1] = be_bytes 2 (gk_revision k)"
    by (simp add: GroupingKey_to_bytes_def be_bytes_numeral nth_append)
  moreover have "from_be (be_bytes 2 (gk_revision k)) = gk_revision k"
    using assms by (intro from_be_bytes) (simp add: grouping_key_ok_def)
  ultimately show ?thesis
    using assms by (simp add: GroupingKey_parse_def grouping_key_ok_def GroupingKey_to_bytes_def)
qed

lemma group_selected_ok:
  assumes "validate_components (sel_components s) = Inr ()" "\<forall>b. length (H b) = 32"
  shows "\<exists>r. group_selected H p s = Some (Inr r) \<and> gr_strategy r = sel_strategy s
    \<and> gx_components (gr_explanation r) = sel_components s"
proof -
  define k where "k = \<lparr>gk_revision = REVISION_1,
    gk_digest = H (grouping_preimage (REVISION_1, sel_strategy s, sel_components s))\<rparr>"
  have "key_for H REVISION_1 (sel_strategy s) (sel_components s) = Some k"
    using key_for_total[OF validated_values[OF assms(1)]] by (simp add: k_def)
  moreover obtain i where "derive_issue_id H p k = Some i"
    using derive_issue_id_total[of k H p] assms(2) by (auto simp: k_def)
  ultimately show ?thesis using assms(1) by (simp add: group_selected_def)
qed

lemma group_selected_Some: "\<forall>b. length (H b) = 32 \<Longrightarrow> group_selected H p s \<noteq> None"
  using group_selected_ok[of s H p]
  by (cases "validate_components (sel_components s)") (auto simp: group_selected_def)

lemma fingerprint_components_plain:
  "DEFAULT_FINGERPRINT \<notin> set vs \<Longrightarrow>
   fingerprint_components X d dk vs cs = Some (cs @ map (component GC_SdkFingerprint) vs)"
  by (induction vs arbitrary: cs) (auto simp: push_fingerprint_def push_component_def)

lemma fingerprint_components_Some:
  "(DEFAULT_FINGERPRINT \<in> set vs \<longrightarrow> d \<noteq> None \<and> dk \<noteq> None) \<Longrightarrow>
   fingerprint_components X d dk vs cs \<noteq> None"
  by (induction vs arbitrary: cs) (auto simp: push_fingerprint_def)

lemma select_fingerprint_plain:
  assumes "DEFAULT_FINGERPRINT \<notin> set (nb_fingerprint body)"
  shows "select_fingerprint H X body symbolication = Some (Inr \<lparr>sel_strategy = GS_SdkFingerprint,
    sel_components = map (component GC_SdkFingerprint) (nb_fingerprint body),
    sel_summary = fingerprint_summary (length (nb_fingerprint body))\<rparr>)"
  using assms
  by (simp add: select_fingerprint_def fingerprint_components_plain list_ex_iff Let_def)

lemma select_fingerprint_total:
  assumes "select_default body symbolication = Inr s" "values_within u32_max (sel_components s)"
  shows "\<exists>t. select_fingerprint H X body symbolication = Some (Inr t) \<and> sel_strategy t = GS_SdkFingerprint"
proof (cases "DEFAULT_FINGERPRINT \<in> set (nb_fingerprint body)")
  case True
  obtain k where k: "key_for H REVISION_1 (sel_strategy s) (sel_components s) = Some k"
    using key_for_total[OF assms(2)] by blast
  obtain cs where "fingerprint_components X (Some s) (Some k) (nb_fingerprint body) [] = Some cs"
    using fingerprint_components_Some[of "nb_fingerprint body" "Some s" "Some k"] by blast
  with True show ?thesis
    by (auto simp: select_fingerprint_def list_ex_iff Let_def assms(1) k)
qed (simp add: select_fingerprint_plain)

lemma group_event_default:
  "nb_fingerprint body = [] \<Longrightarrow> select_default body symbolication = Inr s \<Longrightarrow>
   group_event H X p 1 body symbolication = group_selected H p s"
  by (simp add: group_event_def REVISION_1_def group_revision_1_def)

lemma group_event_other_revision:
  "revision \<noteq> 1 \<Longrightarrow> group_event H X p revision body symbolication = Some (Inl GE_UnsupportedRevision)"
  by (simp add: group_event_def REVISION_1_def)

lemma group_event_selected:
  assumes "group_event H X p revision body symbolication = Some (Inr r)"
  obtains s where "group_selected H p s = Some (Inr r)" "revision = 1"
proof -
  have r: "revision = 1" using assms group_event_other_revision[of revision] by fastforce
  with assms obtain x where "(case x of Inl e \<Rightarrow> Some (Inl e) | Inr s \<Rightarrow> group_selected H p s) = Some (Inr r)"
    by (auto simp: group_event_def REVISION_1_def group_revision_1_def bind_eq_Some_conv)
  then obtain s where "group_selected H p s = Some (Inr r)" by (auto split: sum.splits)
  with r that show thesis by blast
qed

lemma group_selected_sound:
  assumes "group_selected H p s = Some (Inr r)"
  shows "validate_components (gx_components (gr_explanation r)) = Inr ()
    \<and> key_for H REVISION_1 (gr_strategy r) (gx_components (gr_explanation r)) = Some (gr_key r)
    \<and> derive_issue_id H p (gr_key r) = Some (gr_issue_id r)"
  using assms by (auto simp: group_selected_def bind_eq_Some_conv split: sum.splits)

text \<open>
  C22. A grouping key is unambiguous: for component lists that pass validation, the bytes that
  are hashed exist (the encoder does not panic) and determine the strategy and every component with
  its kind, so two events share a grouping key without a hash collision exactly when the same
  strategy selected the same components.
\<close>
theorem grouping_key_unambiguous:
  assumes "validate_components cs = Inr ()" "validate_components cs' = Inr ()"
  shows "\<exists>e e'. key_for H REVISION_1 s cs = Some \<lparr>gk_revision = 1, gk_digest = H e\<rparr>
    \<and> key_for H REVISION_1 s' cs' = Some \<lparr>gk_revision = 1, gk_digest = H e'\<rparr>
    \<and> key_encoding REVISION_1 s cs = Some e \<and> key_encoding REVISION_1 s' cs' = Some e'
    \<and> (e = e' \<longleftrightarrow> s = s' \<and> cs = cs')"
proof -
  note v = assms[THEN validated_values]
  have "grouping_identity_ok (REVISION_1, s, cs)" "grouping_identity_ok (REVISION_1, s', cs')"
    using v by (simp_all add: grouping_identity_ok_def REVISION_1_def)
  from grouping.preimage_iff[OF this] show ?thesis
    using v by (simp add: key_for_total key_encoding_preimage) (simp add: REVISION_1_def)
qed

theorem grouping_key_unambiguous_witness:
  "key_encoding 1 GS_SdkFingerprint [component GC_SdkFingerprint ''ab'', component GC_SdkFingerprint ''c'']
   \<noteq> key_encoding 1 GS_SdkFingerprint [component GC_SdkFingerprint ''a'', component GC_SdkFingerprint ''bc'']"
proof -
  have "validate_components [component GC_SdkFingerprint ''ab'', component GC_SdkFingerprint ''c''] = Inr ()"
    "validate_components [component GC_SdkFingerprint ''a'', component GC_SdkFingerprint ''bc''] = Inr ()"
    by (simp_all add: validate_components_def component_def MAX_COMPONENTS_def MAX_COMPONENT_BYTES_def)
  from grouping_key_unambiguous[OF this, of id GS_SdkFingerprint GS_SdkFingerprint]
  show ?thesis by (auto simp: REVISION_1_def component_def)
qed

text \<open>
  Every grouping result is well formed: only the supported revision yields one; it holds 1
  to 64 components of at most 2048 bytes, whose key is the reported key; that key survives its
  34-byte storage form; and the reported issue identifier has 16 bytes and passes
  \<^verbatim>\<open>verify_issue_id\<close> for the same project.
\<close>
theorem group_result_verifies:
  assumes "group_event H X p revision body symbolication = Some (Inr r)" "\<forall>b. length (H b) = 32"
  shows "revision = 1
    \<and> (let cs = gx_components (gr_explanation r) in cs \<noteq> [] \<and> length cs \<le> 64
        \<and> (\<forall>c\<in>set cs. length (gc_value c) \<le> 2048)
        \<and> key_for H 1 (gr_strategy r) cs = Some (gr_key r))
    \<and> GroupingKey_parse (GroupingKey_to_bytes (gr_key r)) = Inr (gr_key r)
    \<and> length (gr_issue_id r) = 16 \<and> verify_issue_id H p (gr_key r) (gr_issue_id r) = Some True"
proof -
  obtain s where s: "group_selected H p s = Some (Inr r)" and rev: "revision = 1"
    using assms(1) by (rule group_event_selected)
  define cs where "cs = gx_components (gr_explanation r)"
  have v: "validate_components cs = Inr ()" and k: "key_for H 1 (gr_strategy r) cs = Some (gr_key r)"
    and i: "derive_issue_id H p (gr_key r) = Some (gr_issue_id r)"
    using group_selected_sound[OF s] by (simp_all add: cs_def REVISION_1_def)
  have key: "gr_key r = \<lparr>gk_revision = 1, gk_digest = H (grouping_preimage (1, gr_strategy r, cs))\<rparr>"
    using k key_for_total[OF validated_values[OF v]] by simp
  then have ok: "grouping_key_ok (gr_key r)" by (simp add: grouping_key_ok_def assms(2))
  then have "length (gr_issue_id r) = 16"
    using derive_issue_id_total[of "gr_key r" H p] i assms(2) by (auto simp: grouping_key_ok_def)
  moreover have "cs \<noteq> []" "length cs \<le> 64" "\<forall>c\<in>set cs. length (gc_value c) \<le> 2048"
    using v by (simp_all add: validated_components MAX_COMPONENTS_def MAX_COMPONENT_BYTES_def
        values_within_def list_all_iff)
  ultimately show ?thesis
    using rev k i grouping_key_round_trip[OF ok] by (simp add: cs_def verify_issue_id_def)
qed

definition empty_body :: normalized_event_body where
  "empty_body = \<lparr>nb_occurred_at = 0, nb_platform = Platform_Other, nb_level = Level_Error,
     nb_logger = Some ''App'', nb_message = None, nb_transaction = None, nb_release = None,
     nb_dist = None, nb_environment = None, nb_fingerprint = [], nb_exceptions = [],
     nb_stacktrace = [], nb_tags = [], nb_request = None, nb_user = None, nb_contexts = [],
     nb_breadcrumbs = [], nb_unknown = []\<rparr>"

lemma empty_body_default: "select_default empty_body None = Inr (message_strategy empty_body)"
  by (simp add: select_default_def exception_stack_def native_stack_def native_modules_def
      all_frames_def significant_frames_def frame_slots_def derived_frames_def map_filter_def
      empty_body_def)

lemma empty_body_values: "values_within 2048 (sel_components (message_strategy empty_body))"
  by (simp add: message_strategy_def empty_body_def push_component_def opt_component_def
      component_def message_text_def normalize_identifier_def str_trim_def trim_chars_def
      is_whitespace_def)

theorem group_result_verifies_witness:
  "\<exists>r. group_event (\<lambda>b. replicate 32 0) hex_encode16 7 1 empty_body None = Some (Inr r)
     \<and> verify_issue_id (\<lambda>b. replicate 32 0) 7 (gr_key r) (gr_issue_id r) = Some True"
proof -
  let ?H = "\<lambda>b :: bytes. replicate 32 0 :: bytes"
  have "nb_fingerprint empty_body = []" by (simp add: empty_body_def)
  note e = group_event_default[OF this empty_body_default]
  have "validate_components (sel_components (message_strategy empty_body)) = Inr ()"
    using empty_body_values message_strategy_bounds[of empty_body]
    by (simp add: validated_components MAX_COMPONENTS_def MAX_COMPONENT_BYTES_def)
  from group_selected_ok[OF this, of ?H 7]
  obtain r where "group_event ?H hex_encode16 7 1 empty_body None = Some (Inr r)"
    by (auto simp: e simp del: One_nat_def)
  moreover from group_result_verifies[OF this]
  have "verify_issue_id ?H 7 (gr_key r) (gr_issue_id r) = Some True" by simp
  ultimately show ?thesis by blast
qed

text \<open>
  Grouping without an SDK fingerprint is total: a default strategy always selects between 1
  and 48 components, so the limit of 64 never applies, and grouping returns a result unless a single
  component exceeds 2048 bytes, which is reported as an error and never as a panic.
\<close>
theorem group_default_total:
  assumes "nb_fingerprint body = []" "\<forall>b. length (H b) = 32"
  shows "\<exists>s. select_default body symbolication = Inr s
    \<and> 0 < length (sel_components s) \<and> length (sel_components s) \<le> 48
    \<and> (if \<exists>c\<in>set (sel_components s). 2048 < length (gc_value c)
       then group_event H X p 1 body symbolication = Some (Inl GE_InputLimitExceeded)
       else \<exists>r. group_event H X p 1 body symbolication = Some (Inr r)
         \<and> gr_strategy r = sel_strategy s \<and> gx_components (gr_explanation r) = sel_components s)"
proof -
  obtain s where s: "select_default body symbolication = Inr s" "sel_components s \<noteq> []"
      "length (sel_components s) \<le> 48"
    using select_default_bounds by blast
  note e = group_event_default[OF assms(1) s(1)]
  show ?thesis
  proof (cases "values_within 2048 (sel_components s)")
    case True
    then have "validate_components (sel_components s) = Inr ()"
      using s by (simp add: validated_components MAX_COMPONENTS_def MAX_COMPONENT_BYTES_def)
    from group_selected_ok[OF this assms(2)] show ?thesis
      using s True by (auto simp: e values_within_def list_all_iff simp flip: not_le simp del: One_nat_def)
  next
    case False
    then have "validate_components (sel_components s) = Inl GE_InputLimitExceeded"
      by (auto simp: validate_components_def MAX_COMPONENT_BYTES_def values_within_def
          list_all_iff list_ex_iff simp flip: not_le)
    then show ?thesis using s False
      by (auto simp: e group_selected_def values_within_def list_all_iff simp flip: not_le
          simp del: One_nat_def)
  qed
qed

theorem group_default_total_witness:
  "\<exists>r. group_event (\<lambda>b. replicate 32 0) hex_encode16 7 1 empty_body None = Some (Inr r)
     \<and> gr_strategy r = GS_Message"
proof -
  have "nb_fingerprint empty_body = []" by (simp add: empty_body_def)
  from group_default_total[OF this, of "\<lambda>b. replicate 32 0" None hex_encode16 7]
  show ?thesis using empty_body_values
    by (auto simp: empty_body_default message_strategy_def values_within_def list_all_iff
        simp flip: not_le split: if_splits)
qed

text \<open>
  C31. An explicit SDK fingerprint decides alone: unless it contains the default placeholder, two
  events of a project with the same fingerprint get the same result whatever else they hold, and the
  fingerprint is accepted exactly when it has at most 64 entries of at most 2048 bytes. With the
  placeholder, grouping still does not panic provided the default components have lengths that fit 32 bits.
\<close>
theorem group_fingerprint_decides:
  assumes "nb_fingerprint body \<noteq> []" "\<forall>b. length (H b) = 32"
  shows "(DEFAULT_FINGERPRINT \<notin> set (nb_fingerprint body) \<longrightarrow>
      (nb_fingerprint body' = nb_fingerprint body \<longrightarrow>
         group_event H X p 1 body' sy' = group_event H X p 1 body sy)
      \<and> (length (nb_fingerprint body) \<le> 64 \<and> (\<forall>v\<in>set (nb_fingerprint body). length v \<le> 2048)
         \<longleftrightarrow> (\<exists>r. group_event H X p 1 body sy = Some (Inr r))))
    \<and> ((\<forall>s. select_default body sy = Inr s \<longrightarrow> (\<forall>c\<in>set (sel_components s). length (gc_value c) \<le> u32_max))
       \<longrightarrow> group_event H X p 1 body sy \<noteq> None)"
proof (intro conjI impI)
  have g: "group_event H X p 1 b y = select_fingerprint H X b y \<bind>
      (\<lambda>s. case s of Inl e \<Rightarrow> Some (Inl e) | Inr s \<Rightarrow> group_selected H p s)"
    if "nb_fingerprint b \<noteq> []" for b y
    using that by (simp add: group_event_def REVISION_1_def group_revision_1_def)
  show "group_event H X p 1 body' sy' = group_event H X p 1 body sy"
    if "DEFAULT_FINGERPRINT \<notin> set (nb_fingerprint body)" "nb_fingerprint body' = nb_fingerprint body"
    using that assms(1) by (simp add: g select_fingerprint_plain del: One_nat_def)
  show "length (nb_fingerprint body) \<le> 64 \<and> (\<forall>v\<in>set (nb_fingerprint body). length v \<le> 2048)
      \<longleftrightarrow> (\<exists>r. group_event H X p 1 body sy = Some (Inr r))"
    if plain: "DEFAULT_FINGERPRINT \<notin> set (nb_fingerprint body)"
  proof -
    define s where "s = \<lparr>sel_strategy = GS_SdkFingerprint,
      sel_components = map (component GC_SdkFingerprint) (nb_fingerprint body),
      sel_summary = fingerprint_summary (length (nb_fingerprint body))\<rparr>"
    have e: "group_event H X p 1 body sy = group_selected H p s"
      using assms(1) plain by (simp add: g select_fingerprint_plain s_def del: One_nat_def)
    have "validate_components (sel_components s) = Inr () \<longleftrightarrow>
        length (nb_fingerprint body) \<le> 64 \<and> (\<forall>v\<in>set (nb_fingerprint body). length v \<le> 2048)"
      using assms(1) by (simp add: validated_components s_def values_within_def list_all_iff component_def
          MAX_COMPONENTS_def MAX_COMPONENT_BYTES_def)
    moreover have "(\<exists>r. group_selected H p s = Some (Inr r)) \<longleftrightarrow> validate_components (sel_components s) = Inr ()"
    proof (cases "validate_components (sel_components s)")
      case (Inl e)
      then show ?thesis by (simp add: group_selected_def)
    next
      case (Inr u)
      then show ?thesis using group_selected_ok[OF _ assms(2), of s p] by auto
    qed
    ultimately show ?thesis by (simp only: e)
  qed
  show "group_event H X p 1 body sy \<noteq> None"
    if "\<forall>s. select_default body sy = Inr s \<longrightarrow> (\<forall>c\<in>set (sel_components s). length (gc_value c) \<le> u32_max)"
  proof -
    obtain d where d: "select_default body sy = Inr d" using select_default_bounds by blast
    then have "values_within u32_max (sel_components d)"
      using that by (simp add: values_within_def list_all_iff)
    from select_fingerprint_total[OF d this] obtain t
      where "select_fingerprint H X body sy = Some (Inr t)" by blast
    then show ?thesis using group_selected_Some[OF assms(2)] by (simp add: g[OF assms(1)] del: One_nat_def)
  qed
qed

definition fingerprint_body :: normalized_event_body where
  "fingerprint_body = empty_body\<lparr>nb_fingerprint := [''checkout'', ''timeout'']\<rparr>"

theorem group_fingerprint_decides_witness:
  "group_event (\<lambda>b. replicate 32 0) hex_encode16 7 1 (fingerprint_body\<lparr>nb_message := Some ''other''\<rparr>) None
   = group_event (\<lambda>b. replicate 32 0) hex_encode16 7 1 fingerprint_body None"
proof -
  have "nb_fingerprint fingerprint_body \<noteq> []"
    "DEFAULT_FINGERPRINT \<notin> set (nb_fingerprint fingerprint_body)"
    by (simp_all add: fingerprint_body_def DEFAULT_FINGERPRINT_def)
  then show ?thesis
    using group_fingerprint_decides[of fingerprint_body "\<lambda>b. replicate 32 0"
        "fingerprint_body\<lparr>nb_message := Some ''other''\<rparr>"] by simp
qed

section \<open>Truncation and frame selection\<close>

lemma boundary_at_or_below_spec:
  "is_char_boundary v (boundary_at_or_below v e) \<and> boundary_at_or_below v e \<le> e
   \<and> (\<forall>j\<le>e. is_char_boundary v j \<longrightarrow> j \<le> boundary_at_or_below v e)"
proof (induction v e rule: boundary_at_or_below.induct)
  case (1 v e)
  show ?case
  proof (cases "is_char_boundary v e")
    case True
    then have "boundary_at_or_below v e = e" by (subst boundary_at_or_below.simps) simp
    with True show ?thesis by simp
  next
    case False
    then have step: "boundary_at_or_below v e = boundary_at_or_below v (e - 1)"
      by (subst boundary_at_or_below.simps) simp
    have "j \<le> e - 1" if "j \<le> e" "is_char_boundary v j" for j
      using that False by (cases "j = e") auto
    with 1[OF False] show ?thesis unfolding step by (meson diff_le_self le_trans)
  qed
qed

declare boundary_at_or_below.simps [simp del]

lemma utf8_valid_take:
  "utf8_valid s \<Longrightarrow> is_char_boundary s i \<Longrightarrow> utf8_valid (take i s)"
proof (induction s arbitrary: i rule: utf8_chars.induct)
  case (2 c cs)
  define ch rest where "ch = c # take (utf8_width c - 1) cs" and "rest = drop (utf8_width c - 1) cs"
  have s: "c # cs = ch @ rest" by (simp add: ch_def rest_def)
  have ok: "utf8_char_ok ch" "utf8_valid rest"
    using "2.prems"(1) by (simp_all add: utf8_valid_def ch_def rest_def)
  show ?case
  proof (cases "i < length ch")
    case True
    have "i = 0"
    proof (rule ccontr)
      assume "i \<noteq> 0"
      then have "(c # cs) ! i = tl ch ! (i - 1)" "i - 1 < length (tl ch)"
        using True by (cases i; auto simp: s nth_append ch_def)+
      then have "(c # cs) ! i \<in> set (tl ch)" by simp
      then have "is_continuation ((c # cs) ! i)" using ok(1) by (auto simp: utf8_char_ok_def list_all_iff)
      moreover have "i \<noteq> length (c # cs)" using True by (simp only: s length_append)
      ultimately show False using \<open>i \<noteq> 0\<close> "2.prems"(2) by (simp add: is_char_boundary_def)
    qed
    then show ?thesis by (simp add: utf8_valid_def)
  next
    case False
    have "is_char_boundary rest (i - length ch)"
      using "2.prems"(2) False unfolding s by (auto simp: is_char_boundary_def nth_append)
    then have "utf8_valid (take (i - length ch) rest)" using "2.IH" ok(2) by (simp add: rest_def)
    then have "utf8_valid (ch @ take (i - length ch) rest)"
      using ok(1) utf8_chars_append_ok[of ch] by (simp add: utf8_valid_def)
    with False show ?thesis unfolding s by simp
  qed
qed (simp add: utf8_valid_def)

lemma utf8_valid_append: "utf8_valid a \<Longrightarrow> utf8_valid b \<Longrightarrow> utf8_valid (a @ b)"
  using utf8_valid_concat[of "utf8_chars a @ utf8_chars b"] by (simp add: utf8_valid_def)

lemma utf8_valid_join:
  "utf8_valid sep \<Longrightarrow> \<forall>w\<in>set ws. utf8_valid w \<Longrightarrow> utf8_valid (join sep ws)"
  by (induction sep ws rule: join.induct) (auto intro: utf8_valid_append simp: utf8_valid_def[of "[]"])

lemma words_of_valid:
  "list_all utf8_char_ok acc \<Longrightarrow> list_all utf8_char_ok chs \<Longrightarrow> w \<in> set (words_of p acc chs) \<Longrightarrow> utf8_valid w"
  by (induction p acc chs rule: words_of.induct) (auto simp: utf8_valid_concat split: if_splits)

lemma ascii_lower_width [simp]:
  "utf8_width (ascii_lower c) = utf8_width c" "is_continuation (ascii_lower c) = is_continuation c"
  by (auto simp: ascii_lower_def is_ascii_uppercase_def utf8_width_def is_continuation_def of_char_of)

lemma utf8_char_ok_lower: "utf8_char_ok ch \<Longrightarrow> utf8_char_ok (map ascii_lower ch)"
  by (cases ch) (auto simp: utf8_char_ok_def list_all_iff)

lemma utf8_valid_lower: "utf8_valid s \<Longrightarrow> utf8_valid (to_ascii_lowercase s)"
proof -
  assume "utf8_valid s"
  then have "list_all utf8_char_ok (map (map ascii_lower) (utf8_chars s))"
    by (auto simp: utf8_valid_def list_all_iff intro: utf8_char_ok_lower)
  from utf8_valid_concat[OF this] show ?thesis
    by (simp add: to_ascii_lowercase_def flip: map_concat)
qed

lemma utf8_valid_ascii: "is_ascii s \<Longrightarrow> utf8_valid s"
  by (auto simp: utf8_valid_def utf8_chars_ascii list_all_iff utf8_char_ok_def is_ascii_def
      is_continuation_def)

lemma utf8_valid_token: "utf8_valid t \<Longrightarrow> utf8_valid (normalize_message_token t)"
  by (auto simp: normalize_message_token_def Let_def utf8_valid_lower intro!: utf8_valid_ascii)
    (simp_all add: is_ascii_def)

lemma truncate_utf8_spec:
  "prefix (truncate_utf8 v n) v" "length (truncate_utf8 v n) \<le> n"
  "utf8_valid v \<Longrightarrow> utf8_valid (truncate_utf8 v n)"
  "length v \<le> n \<Longrightarrow> truncate_utf8 v n = v"
  "j \<le> n \<Longrightarrow> j \<le> length v \<Longrightarrow> is_char_boundary v j \<Longrightarrow> j \<le> length (truncate_utf8 v n)"
proof -
  let ?b = "boundary_at_or_below v (min n (length v))"
  have b: "is_char_boundary v ?b" "?b \<le> min n (length v)"
    and greatest: "\<And>j. j \<le> min n (length v) \<Longrightarrow> is_char_boundary v j \<Longrightarrow> j \<le> ?b"
    using boundary_at_or_below_spec[of v "min n (length v)"] by blast+
  have len: "length (truncate_utf8 v n) = ?b" using b(2) by (simp add: truncate_utf8_def)
  show "prefix (truncate_utf8 v n) v" by (simp add: truncate_utf8_def take_is_prefix)
  show "length (truncate_utf8 v n) \<le> n" using b(2) by (simp add: len)
  show "utf8_valid v \<Longrightarrow> utf8_valid (truncate_utf8 v n)"
    unfolding truncate_utf8_def by (rule utf8_valid_take[OF _ b(1)])
  show "j \<le> n \<Longrightarrow> j \<le> length v \<Longrightarrow> is_char_boundary v j \<Longrightarrow> j \<le> length (truncate_utf8 v n)"
    using greatest[of j] by (simp add: len)
  show "truncate_utf8 v n = v" if "length v \<le> n"
  proof -
    have "length v \<le> ?b" using that by (intro greatest) (simp_all add: is_char_boundary_def)
    then show ?thesis by (simp add: truncate_utf8_def)
  qed
qed

text \<open>
  The normalized message is valid UTF-8 of at most 2048 bytes, and nothing is cut that need not
  be: it is the longest prefix of the joined normalized tokens that fits and ends on a character
  boundary (all of them when they fit).
\<close>
theorem normalize_message_bounded:
  assumes "utf8_valid v"
  shows "utf8_valid (normalize_message v) \<and> length (normalize_message v) \<le> 2048
    \<and> (let tokens = join '' '' (map normalize_message_token (split_whitespace v)) in
        prefix (normalize_message v) tokens
        \<and> (length tokens \<le> 2048 \<longrightarrow> normalize_message v = tokens)
        \<and> (\<forall>j\<le>2048. j \<le> length tokens \<and> is_char_boundary tokens j \<longrightarrow> j \<le> length (normalize_message v)))"
proof -
  let ?tokens = "join '' '' (map normalize_message_token (split_whitespace v))"
  have "utf8_valid ?tokens"
    using assms words_of_valid[of "[]" "utf8_chars v" _ is_whitespace]
    by (intro utf8_valid_join)
      (auto simp: split_whitespace_def utf8_valid_def[of v] utf8_valid_token,
       simp add: utf8_valid_ascii is_ascii_def)
  then show ?thesis
    using truncate_utf8_spec[where v = ?tokens and n = 2048]
    by (simp add: normalize_message_def MAX_COMPONENT_BYTES_def Let_def)
qed

theorem normalize_message_bounded_witness:
  "utf8_valid (normalize_message ''Order 1234567 failed'')
   \<and> normalize_message ''Order 1234567 failed'' = ''order {number} failed''"
proof -
  have "utf8_valid ''Order 1234567 failed''" by (rule utf8_valid_ascii) (simp add: is_ascii_def)
  note bounded = normalize_message_bounded[OF this]
  have "join '' '' (map normalize_message_token (split_whitespace ''Order 1234567 failed''))
      = ''order {number} failed''"
    by (simp add: split_whitespace_def is_whitespace_def normalize_message_token_def token_core_def
        trim_chars_def scalar_in_def Let_def is_uuid_def is_address_def strip_prefix_def
        to_ascii_lowercase_def ascii_lower_def ascii_defs char_of_eq_iff)
  then have "normalize_message ''Order 1234567 failed'' = ''order {number} failed''"
    using bounded by (simp add: Let_def)
  with bounded show ?thesis by blast
qed

lemma length_place_derived [simp]: "length (place_derived slots d) = length slots"
  by (simp add: place_derived_def)

lemma length_foldl_place [simp]: "length (foldl place_derived slots ds) = length slots"
  by (induction ds arbitrary: slots) simp_all

lemma foldl_place_nth:
  "i < length slots \<Longrightarrow> foldl place_derived slots ds ! i
     = opt_or (find (\<lambda>d. sf_original_index d = i) (rev ds)) (slots ! i)"
proof (induction ds rule: rev_induct)
  case (snoc d ds)
  then show ?case by (simp add: place_derived_def[of "foldl place_derived slots ds"])
qed simp

lemma map_filter_map: "List.map_filter f (map g xs) = List.map_filter (f \<circ> g) xs"
  by (induction xs) (simp_all add: map_filter_simps split: option.splits)

lemma zip_nth_map:
  assumes "length xs = length ys"
  shows "zip xs ys = map (\<lambda>i. (xs ! i, ys ! i)) [0..<length xs]"
  by (rule nth_equalityI) (simp_all add: assms)

definition frame_at ::
  "normalized_frame list \<Rightarrow> symbolicated_frame list \<Rightarrow> nat \<Rightarrow> frame_identity option" where
  "frame_at raw ds i = (case find (\<lambda>d. sf_original_index d = i) (rev ds) of
     Some d \<Rightarrow> derived_identity d | None \<Rightarrow> raw_identity (raw ! i))"

text \<open>
  Frame selection: walking the raw frames from the most recent one, each contributes the
  identity of the last symbolicated frame that names its index, or its own identity where none does,
  and the first eight that are significant are kept. Symbolicated frames with an index outside the
  trace have no effect.
\<close>
theorem significant_frames_selects:
  "significant_frames raw derived
     = take 8 (List.map_filter (frame_at raw (unwrap_or derived [])) (rev [0..<length raw]))"
proof -
  let ?slots = "frame_slots raw derived"
  have len: "length raw = length ?slots" by (simp add: frame_slots_def)
  have "(frame_or_derived \<circ> (\<lambda>i. (raw ! i, ?slots ! i))) i = frame_at raw (unwrap_or derived []) i"
    if "i < length raw" for i
    using that by (simp add: frame_or_derived_def frame_at_def frame_slots_def foldl_place_nth
        opt_or_def split: option.splits)
  then have "List.map_filter (frame_or_derived \<circ> (\<lambda>i. (raw ! i, ?slots ! i))) is
      = List.map_filter (frame_at raw (unwrap_or derived [])) is" if "set is \<subseteq> {..<length raw}" for "is"
    using that by (induction "is") (auto simp: map_filter_simps split: option.splits)
  then show ?thesis
    by (simp add: significant_frames_def MAX_GROUPING_FRAMES_def zip_nth_map[OF len] rev_map map_filter_map
        subset_iff)
qed

end
