(* ===== verification/Processor.thy ===== *)
theory Processor
  imports Grouping
begin

text \<open>
  Post-acceptance processing of an event, \<^verbatim>\<open>crates/application/src/processor.rs\<close> with the
  data of \<^verbatim>\<open>crates/domain/src/processing.rs\<close> and the failure update of the two event stores
  (\<^verbatim>\<open>crates/postgres/src/events.rs\<close>, \<^verbatim>\<open>crates/mongo/src/event.rs\<close>).

  The stages are calls into other components: what a stage call does is an observation (when it
  started, and whether cancellation, the deadline or its result came first), supplied by the
  environment as a function of the arguments the processor passes. \<open>execute\<close> returns the calls it
  made next to its result. Durations and instants are nanoseconds.
\<close>

section \<open>Data\<close>

record pending_event =
  pe_event :: accepted_event
  pe_attempts :: nat

definition PendingEvent_fresh :: "accepted_event \<Rightarrow> pending_event" where
  "PendingEvent_fresh e = \<lparr>pe_event = e, pe_attempts = 0\<rparr>"

definition PendingEvent_key :: "pending_event \<Rightarrow> event_key" where
  "PendingEvent_key p = EventKey_new (ae_project_id (pe_event p)) (ae_event_id (pe_event p))"

record processing_project =
  pp_project_id :: project_id
  pp_state :: project_acceptance_state
  pp_error_events_enabled :: bool
  pp_grouping_revision :: nat
  pp_debug_file_revision :: nat
  pp_artifact_revision :: nat

datatype processing_error_code =
    EC_ProjectUnavailable | EC_ProjectNotFound | EC_ProjectFenced | EC_ErrorCapabilityDisabled
  | EC_ProjectInvalidData | EC_Cancelled | EC_TotalDeadline | EC_StageDeadline
  | EC_NormalizationInvalidJson | EC_NormalizationInvalidRoot | EC_NormalizationTooComplex
  | EC_NormalizationIdentityTooLarge | EC_SymbolicationRetryable | EC_GroupingUnsupportedRevision
  | EC_GroupingInputLimit | EC_IssueInvalidIdentity | EC_IssueInvalidSummary
  | EC_FinalizerInvalidData | EC_FinalizerIdentityCollision | EC_FinalizerUnavailable
  | EC_RetryExhausted

fun ProcessingErrorCode_stored :: "processing_error_code \<Rightarrow> int" where
  "ProcessingErrorCode_stored EC_ProjectUnavailable = 1"
| "ProcessingErrorCode_stored EC_ProjectNotFound = 2"
| "ProcessingErrorCode_stored EC_ProjectFenced = 3"
| "ProcessingErrorCode_stored EC_ErrorCapabilityDisabled = 4"
| "ProcessingErrorCode_stored EC_ProjectInvalidData = 5"
| "ProcessingErrorCode_stored EC_Cancelled = 6"
| "ProcessingErrorCode_stored EC_TotalDeadline = 7"
| "ProcessingErrorCode_stored EC_StageDeadline = 8"
| "ProcessingErrorCode_stored EC_NormalizationInvalidJson = 10"
| "ProcessingErrorCode_stored EC_NormalizationInvalidRoot = 11"
| "ProcessingErrorCode_stored EC_NormalizationTooComplex = 12"
| "ProcessingErrorCode_stored EC_NormalizationIdentityTooLarge = 13"
| "ProcessingErrorCode_stored EC_SymbolicationRetryable = 20"
| "ProcessingErrorCode_stored EC_GroupingUnsupportedRevision = 30"
| "ProcessingErrorCode_stored EC_GroupingInputLimit = 31"
| "ProcessingErrorCode_stored EC_IssueInvalidIdentity = 40"
| "ProcessingErrorCode_stored EC_IssueInvalidSummary = 41"
| "ProcessingErrorCode_stored EC_FinalizerInvalidData = 50"
| "ProcessingErrorCode_stored EC_FinalizerIdentityCollision = 51"
| "ProcessingErrorCode_stored EC_FinalizerUnavailable = 52"
| "ProcessingErrorCode_stored EC_RetryExhausted = 60"

fun ProcessingErrorCode_as_str :: "processing_error_code \<Rightarrow> string" where
  "ProcessingErrorCode_as_str EC_ProjectUnavailable = ''project_unavailable''"
| "ProcessingErrorCode_as_str EC_ProjectNotFound = ''project_not_found''"
| "ProcessingErrorCode_as_str EC_ProjectFenced = ''project_fenced''"
| "ProcessingErrorCode_as_str EC_ErrorCapabilityDisabled = ''error_capability_disabled''"
| "ProcessingErrorCode_as_str EC_ProjectInvalidData = ''project_invalid_data''"
| "ProcessingErrorCode_as_str EC_Cancelled = ''cancelled''"
| "ProcessingErrorCode_as_str EC_TotalDeadline = ''total_deadline''"
| "ProcessingErrorCode_as_str EC_StageDeadline = ''stage_deadline''"
| "ProcessingErrorCode_as_str EC_NormalizationInvalidJson = ''normalization_invalid_json''"
| "ProcessingErrorCode_as_str EC_NormalizationInvalidRoot = ''normalization_invalid_root''"
| "ProcessingErrorCode_as_str EC_NormalizationTooComplex = ''normalization_too_complex''"
| "ProcessingErrorCode_as_str EC_NormalizationIdentityTooLarge = ''normalization_identity_too_large''"
| "ProcessingErrorCode_as_str EC_SymbolicationRetryable = ''symbolication_retryable''"
| "ProcessingErrorCode_as_str EC_GroupingUnsupportedRevision = ''grouping_unsupported_revision''"
| "ProcessingErrorCode_as_str EC_GroupingInputLimit = ''grouping_input_limit''"
| "ProcessingErrorCode_as_str EC_IssueInvalidIdentity = ''issue_invalid_identity''"
| "ProcessingErrorCode_as_str EC_IssueInvalidSummary = ''issue_invalid_summary''"
| "ProcessingErrorCode_as_str EC_FinalizerInvalidData = ''finalizer_invalid_data''"
| "ProcessingErrorCode_as_str EC_FinalizerIdentityCollision = ''finalizer_identity_collision''"
| "ProcessingErrorCode_as_str EC_FinalizerUnavailable = ''finalizer_unavailable''"
| "ProcessingErrorCode_as_str EC_RetryExhausted = ''retry_exhausted''"

datatype processing_failure_disposition = RetryAt timestamp | PermanentlyFailed

record processing_failure =
  pf_key :: event_key
  pf_expected_attempts :: nat
  pf_new_attempts :: nat
  pf_code :: processing_error_code
  pf_disposition :: processing_failure_disposition

datatype processing_state_change = Updated | StaleOrCompleted

datatype processing_state_error = State_InvalidData | State_Unavailable

datatype processing_project_error =
  ProjectLoad_NotFound | ProjectLoad_InvalidData | ProjectLoad_Unavailable

section \<open>Configuration\<close>

definition secs :: "nat \<Rightarrow> duration" where "secs n = n * 1000000000"
definition millis :: "nat \<Rightarrow> duration" where "millis n = n * 1000000"

definition HARD_MAX_CONCURRENCY :: nat where "HARD_MAX_CONCURRENCY = 4096"
definition HARD_MAX_ATTEMPTS :: nat where "HARD_MAX_ATTEMPTS = 100"
definition HARD_MAX_DURATION :: duration where "HARD_MAX_DURATION = secs (10 * 60)"

record processor_config =
  pc_max_concurrency :: nat
  pc_max_attempts :: nat
  pc_retry_base :: duration
  pc_retry_max :: duration
  pc_stage_timeout :: duration
  pc_total_timeout :: duration
  pc_state_timeout :: duration

definition ProcessorConfig_default :: processor_config where
  "ProcessorConfig_default = \<lparr>pc_max_concurrency = 32, pc_max_attempts = 5, pc_retry_base = secs 1,
     pc_retry_max = secs (5 * 60), pc_stage_timeout = secs 15, pc_total_timeout = secs 60,
     pc_state_timeout = secs 5\<rparr>"

definition ProcessorConfig_validate :: "processor_config \<Rightarrow> unit + processor_config" where
  "ProcessorConfig_validate c =
     (let durations = [pc_retry_base c, pc_retry_max c, pc_stage_timeout c, pc_total_timeout c,
            pc_state_timeout c];
          valid = (1 \<le> pc_max_concurrency c \<and> pc_max_concurrency c \<le> HARD_MAX_CONCURRENCY)
            \<and> (1 \<le> pc_max_attempts c \<and> pc_max_attempts c \<le> HARD_MAX_ATTEMPTS)
            \<and> list_all (\<lambda>d. d \<noteq> 0 \<and> d \<le> HARD_MAX_DURATION) durations
            \<and> pc_retry_base c \<le> pc_retry_max c
            \<and> pc_stage_timeout c \<le> pc_total_timeout c
            \<and> pc_state_timeout c \<le> pc_total_timeout c
      in if valid then Inr c else Inl ())"

section \<open>Stage failures\<close>

datatype stage_failure_class = Temporary | Permanent

record stage_failure =
  fl_class :: stage_failure_class
  fl_code :: processing_error_code

definition temporary :: "processing_error_code \<Rightarrow> stage_failure" where
  "temporary code = \<lparr>fl_class = Temporary, fl_code = code\<rparr>"

definition permanent :: "processing_error_code \<Rightarrow> stage_failure" where
  "permanent code = \<lparr>fl_class = Permanent, fl_code = code\<rparr>"

fun map_project_error :: "processing_project_error \<Rightarrow> stage_failure" where
  "map_project_error ProjectLoad_NotFound = permanent EC_ProjectNotFound"
| "map_project_error ProjectLoad_InvalidData = permanent EC_ProjectInvalidData"
| "map_project_error ProjectLoad_Unavailable = temporary EC_ProjectUnavailable"

datatype normalization_error = NE_InvalidJson | NE_InvalidRoot | NE_TooComplex | NE_IdentityFieldTooLarge

fun map_normalization_error :: "normalization_error \<Rightarrow> stage_failure" where
  "map_normalization_error NE_InvalidJson = permanent EC_NormalizationInvalidJson"
| "map_normalization_error NE_InvalidRoot = permanent EC_NormalizationInvalidRoot"
| "map_normalization_error NE_TooComplex = permanent EC_NormalizationTooComplex"
| "map_normalization_error NE_IdentityFieldTooLarge = permanent EC_NormalizationIdentityTooLarge"

fun map_grouping_error :: "grouping_error \<Rightarrow> stage_failure" where
  "map_grouping_error GE_UnsupportedRevision = permanent EC_GroupingUnsupportedRevision"
| "map_grouping_error GE_InputLimitExceeded = permanent EC_GroupingInputLimit"

datatype issue_service_error =
    IS_InvalidGroupingIdentity | IS_InvalidSummary | IS_IdentityCollision | IS_NotFound
  | IS_InvalidData | IS_Unavailable

fun map_issue_error :: "issue_service_error \<Rightarrow> stage_failure" where
  "map_issue_error IS_InvalidGroupingIdentity = permanent EC_IssueInvalidIdentity"
| "map_issue_error IS_InvalidSummary = permanent EC_IssueInvalidSummary"
| "map_issue_error IS_IdentityCollision = permanent EC_IssueInvalidIdentity"
| "map_issue_error IS_NotFound = permanent EC_IssueInvalidIdentity"
| "map_issue_error IS_InvalidData = permanent EC_IssueInvalidIdentity"
| "map_issue_error IS_Unavailable = permanent EC_IssueInvalidIdentity"

datatype finalizer_error =
    FE_InvalidConfig | FE_InvalidBatch | FE_DuplicateEvent | FE_InvalidIdentity | FE_OutputTooLarge
  | FE_IdentityCollision | FE_Unavailable

fun map_finalizer_error :: "finalizer_error \<Rightarrow> stage_failure" where
  "map_finalizer_error FE_Unavailable = temporary EC_FinalizerUnavailable"
| "map_finalizer_error FE_IdentityCollision = permanent EC_FinalizerIdentityCollision"
| "map_finalizer_error FE_InvalidConfig = permanent EC_FinalizerInvalidData"
| "map_finalizer_error FE_InvalidBatch = permanent EC_FinalizerInvalidData"
| "map_finalizer_error FE_DuplicateEvent = permanent EC_FinalizerInvalidData"
| "map_finalizer_error FE_InvalidIdentity = permanent EC_FinalizerInvalidData"
| "map_finalizer_error FE_OutputTooLarge = permanent EC_FinalizerInvalidData"

definition GrouperStage_group ::
  "(bytes \<Rightarrow> bytes) \<Rightarrow> (bytes \<Rightarrow> string) \<Rightarrow> normalized_event \<Rightarrow> symbolication_result \<Rightarrow> nat
   \<Rightarrow> (stage_failure + grouping_result) option" where
  "GrouperStage_group blake3 hex_encode e symbolication revision =
     map_option (map_err map_grouping_error)
       (group_event blake3 hex_encode (ne_project_id e) revision (ne_body e) (Some symbolication))"

section \<open>Running a stage\<close>

text \<open>
  What the select of \<^verbatim>\<open>run_stage\<close> sees: the cancellation first, the result with the instant
  read after it, or the expired timer.
\<close>

datatype 'a stage_run = Run_Cancelled | Run_Finished 'a nat | Run_TimedOut

definition deadline_failure :: "nat \<Rightarrow> nat \<Rightarrow> stage_failure" where
  "deadline_failure stage_deadline total_deadline =
     (if stage_deadline = total_deadline then temporary EC_TotalDeadline
      else temporary EC_StageDeadline)"

definition run_stage :: "duration \<Rightarrow> nat \<Rightarrow> nat \<times> 'a stage_run \<Rightarrow> stage_failure + 'a" where
  "run_stage stage_timeout total_deadline = (\<lambda>(started, observed).
     let stage_deadline = min (started + stage_timeout) total_deadline in
     case observed of
       Run_Cancelled \<Rightarrow> Inl (temporary EC_Cancelled)
     | Run_Finished v now \<Rightarrow>
         (if stage_deadline \<le> now then Inl (deadline_failure stage_deadline total_deadline) else Inr v)
     | Run_TimedOut \<Rightarrow> Inl (deadline_failure stage_deadline total_deadline))"

text \<open>
  The six stages as the processor calls them; \<open>'i\<close> is the prepared issue occurrence.
\<close>

record 'i stages =
  load_project :: "project_id \<Rightarrow> nat \<times> (processing_project_error + processing_project) stage_run"
  normalize_stage :: "accepted_event \<Rightarrow> nat \<times> (stage_failure + normalized_event) stage_run"
  symbolicate_stage ::
    "normalized_event \<Rightarrow> nat \<Rightarrow> nat \<Rightarrow> nat \<times> (stage_failure + symbolication_result) stage_run"
  group_stage ::
    "normalized_event \<Rightarrow> symbolication_result \<Rightarrow> nat \<Rightarrow> nat \<times> (stage_failure + grouping_result) stage_run"
  prepare_stage :: "normalized_event \<Rightarrow> grouping_result \<Rightarrow> nat \<times> (stage_failure + 'i) stage_run"
  finalize_stage ::
    "normalized_event \<Rightarrow> symbolication_result \<Rightarrow> grouping_result \<Rightarrow> 'i
     \<Rightarrow> nat \<times> (stage_failure + unit) stage_run"

datatype 'i call =
    Call_Project project_id
  | Call_Normalize accepted_event
  | Call_Symbolicate normalized_event nat nat
  | Call_Group normalized_event symbolication_result nat
  | Call_Prepare normalized_event grouping_result
  | Call_Finalize normalized_event symbolication_result grouping_result 'i

type_synonym ('i, 'a) traced = "'i call list \<times> (stage_failure + 'a)"

definition fails :: "stage_failure \<Rightarrow> ('i, 'a) traced" where
  "fails f = ([], Inl f)"

definition then_call ::
  "'i call \<Rightarrow> stage_failure + 'a \<Rightarrow> ('a \<Rightarrow> ('i, 'b) traced) \<Rightarrow> ('i, 'b) traced" where
  "then_call c r k = (case r of
       Inl f \<Rightarrow> ([c], Inl f)
     | Inr v \<Rightarrow> (case k v of (cs, res) \<Rightarrow> (c # cs, res)))"

text \<open>A stage whose own result is again a result: the two question marks of the source.\<close>

definition flat :: "stage_failure + (stage_failure + 'a) \<Rightarrow> stage_failure + 'a" where
  "flat r = and_then r (\<lambda>inner. inner)"

definition saturating_add_u32 :: "nat \<Rightarrow> nat \<Rightarrow> nat" where
  "saturating_add_u32 a b = min (a + b) u32_max"

definition should_retry_symbolication :: "symbolication_result \<Rightarrow> nat \<Rightarrow> nat \<Rightarrow> bool" where
  "should_retry_symbolication result completed_attempts maximum_attempts =
     (sr_disposition result = Disp_Retryable
      \<and> saturating_add_u32 completed_attempts 1 < maximum_attempts)"

definition project_gate :: "pending_event \<Rightarrow> processing_project \<Rightarrow> stage_failure option" where
  "project_gate pending project =
     (if pp_project_id project \<noteq> ae_project_id (pe_event pending) then Some (permanent EC_ProjectInvalidData)
      else if pp_state project \<noteq> Project_Active then Some (permanent EC_ProjectFenced)
      else if \<not> pp_error_events_enabled project then Some (permanent EC_ErrorCapabilityDisabled)
      else None)"

definition execute_finish ::
  "processor_config \<Rightarrow> 'i stages \<Rightarrow> processing_project \<Rightarrow> nat \<Rightarrow> normalized_event
   \<Rightarrow> symbolication_result \<Rightarrow> ('i, unit) traced" where
  "execute_finish c st project total_deadline normalized symbolication =
     then_call (Call_Group normalized symbolication (pp_grouping_revision project))
        (flat (run_stage (pc_stage_timeout c) total_deadline
          (group_stage st normalized symbolication (pp_grouping_revision project)))) (\<lambda>grouping.
      then_call (Call_Prepare normalized grouping)
        (flat (run_stage (pc_stage_timeout c) total_deadline (prepare_stage st normalized grouping)))
        (\<lambda>issue.
      then_call (Call_Finalize normalized symbolication grouping issue)
        (flat (run_stage (pc_stage_timeout c) total_deadline
          (finalize_stage st normalized symbolication grouping issue))) (\<lambda>_. ([], Inr ()))))"

definition execute ::
  "processor_config \<Rightarrow> 'i stages \<Rightarrow> pending_event \<Rightarrow> nat \<Rightarrow> ('i, unit) traced" where
  "execute c st pending total_deadline =
     then_call (Call_Project (ae_project_id (pe_event pending)))
       (and_then (run_stage (pc_stage_timeout c) total_deadline
          (load_project st (ae_project_id (pe_event pending)))) (map_err map_project_error)) (\<lambda>project.
     case project_gate pending project of
       Some failure \<Rightarrow> fails failure
     | None \<Rightarrow>
     then_call (Call_Normalize (pe_event pending))
       (flat (run_stage (pc_stage_timeout c) total_deadline (normalize_stage st (pe_event pending))))
       (\<lambda>normalized.
     then_call (Call_Symbolicate normalized (pp_debug_file_revision project) (pp_artifact_revision project))
       (flat (run_stage (pc_stage_timeout c) total_deadline
         (symbolicate_stage st normalized (pp_debug_file_revision project) (pp_artifact_revision project))))
       (\<lambda>symbolication.
     if should_retry_symbolication symbolication (pe_attempts pending) (pc_max_attempts c)
     then fails (temporary EC_SymbolicationRetryable)
     else execute_finish c st project total_deadline normalized symbolication)))"

section \<open>Recording a failure\<close>

definition checked_shl_u32 :: "nat \<Rightarrow> nat \<Rightarrow> nat option" where
  "checked_shl_u32 v n = (if n < 32 then Some (v * 2 ^ n mod 2 ^ 32) else None)"

definition DURATION_MAX :: duration where "DURATION_MAX = u64_max * 1000000000 + 999999999"

definition checked_mul_duration :: "duration \<Rightarrow> nat \<Rightarrow> duration option" where
  "checked_mul_duration d n = (if d * n \<le> DURATION_MAX then Some (d * n) else None)"

definition checked_add_i64 :: "int \<Rightarrow> int \<Rightarrow> int option" where
  "checked_add_i64 a b = (if - (2 ^ 63) \<le> a + b \<and> a + b < 2 ^ 63 then Some (a + b) else None)"

definition retry_delay :: "nat \<Rightarrow> processor_config \<Rightarrow> duration" where
  "retry_delay attempts c =
     (let exponent = min (attempts - 1) 31;
          multiplier = unwrap_or (checked_shl_u32 1 exponent) u32_max
      in min (unwrap_or (checked_mul_duration (pc_retry_base c) multiplier) (pc_retry_max c))
           (pc_retry_max c))"

definition retry_at :: "timestamp \<Rightarrow> nat \<Rightarrow> processor_config \<Rightarrow> timestamp option" where
  "retry_at now attempts c =
     (let ms = retry_delay attempts c div 1000000 in
      if ms > i64_max then None
      else do {
        at \<leftarrow> checked_add_i64 now (int ms);
        (case Timestamp_from_unix_millis at of Inl _ \<Rightarrow> None | Inr t \<Rightarrow> Some t)
      })"

datatype processor_outcome =
  Out_Processed | Out_RetryScheduled | Out_PermanentlyFailed | Out_StaleOrCompleted | Out_StateUnavailable

fun outcome_name :: "processor_outcome \<Rightarrow> string" where
  "outcome_name Out_Processed = ''processed''"
| "outcome_name Out_RetryScheduled = ''retry''"
| "outcome_name Out_PermanentlyFailed = ''failed''"
| "outcome_name Out_StaleOrCompleted = ''stale''"
| "outcome_name Out_StateUnavailable = ''state_unavailable''"

text \<open>
  The state store behind \<^verbatim>\<open>record_processing_failure\<close>: a function on its own state \<open>'t\<close>; no
  answer within the state timeout is \<open>None\<close>.
\<close>

type_synonym 't state_store =
  "processing_failure \<Rightarrow> 't \<Rightarrow> (processing_state_error + processing_state_change) option \<times> 't"

definition failure_update ::
  "pending_event \<Rightarrow> stage_failure \<Rightarrow> nat \<Rightarrow> timestamp option \<Rightarrow> processing_failure" where
  "failure_update pending failure new_attempts at =
     \<lparr>pf_key = PendingEvent_key pending, pf_expected_attempts = pe_attempts pending,
      pf_new_attempts = new_attempts, pf_code = fl_code failure,
      pf_disposition = (case at of None \<Rightarrow> PermanentlyFailed | Some t \<Rightarrow> RetryAt t)\<rparr>"

definition write_failure ::
  "'t state_store \<Rightarrow> pending_event \<Rightarrow> stage_failure \<Rightarrow> nat \<Rightarrow> timestamp option \<Rightarrow> 't
   \<Rightarrow> processor_outcome \<times> 't" where
  "write_failure store pending failure new_attempts at t =
     (case store (failure_update pending failure new_attempts at) t of (answer, t') \<Rightarrow>
        (case answer of
           Some (Inr Updated) \<Rightarrow> (if at \<noteq> None then Out_RetryScheduled else Out_PermanentlyFailed)
         | Some (Inr StaleOrCompleted) \<Rightarrow> Out_StaleOrCompleted
         | Some (Inl _) \<Rightarrow> Out_StateUnavailable
         | None \<Rightarrow> Out_StateUnavailable, t'))"

definition checked_add_u32 :: "nat \<Rightarrow> nat \<Rightarrow> nat option" where
  "checked_add_u32 a b = (if a + b \<le> u32_max then Some (a + b) else None)"

definition classify_failure ::
  "processor_config \<Rightarrow> timestamp \<Rightarrow> nat \<Rightarrow> stage_failure \<Rightarrow> stage_failure \<times> timestamp option" where
  "classify_failure c now new_attempts failure =
     (let exhausted = pc_max_attempts c \<le> new_attempts;
          failure = (if exhausted \<and> fl_class failure = Temporary then failure\<lparr>fl_class := Permanent\<rparr>
                     else failure)
      in if fl_class failure = Temporary
         then (case retry_at now new_attempts c of
             Some at \<Rightarrow> (failure, Some at)
           | None \<Rightarrow> (permanent EC_RetryExhausted, None))
         else (failure, None))"

definition persist_failure ::
  "processor_config \<Rightarrow> 't state_store \<Rightarrow> timestamp \<Rightarrow> pending_event \<Rightarrow> stage_failure \<Rightarrow> 't
   \<Rightarrow> processor_outcome \<times> 't" where
  "persist_failure c store now pending failure t =
     (case checked_add_u32 (pe_attempts pending) 1 of
        None \<Rightarrow> write_failure store pending (permanent EC_RetryExhausted) u32_max None t
      | Some new_attempts \<Rightarrow>
          (case classify_failure c now new_attempts failure of (failure', at) \<Rightarrow>
             write_failure store pending failure' new_attempts at t))"

datatype permit_run = Permit_Cancelled | Permit_Granted | Permit_Closed | Permit_TimedOut

definition process ::
  "processor_config \<Rightarrow> 'i stages \<Rightarrow> 't state_store \<Rightarrow> nat \<Rightarrow> permit_run \<Rightarrow> timestamp
   \<Rightarrow> pending_event \<Rightarrow> 't \<Rightarrow> 'i call list \<times> processor_outcome \<times> 't" where
  "process c st store started permit now pending t =
     (let total_deadline = started + pc_total_timeout c in
      case permit of
        Permit_Cancelled \<Rightarrow> ([], persist_failure c store now pending (temporary EC_Cancelled) t)
      | Permit_Closed \<Rightarrow> ([], persist_failure c store now pending (temporary EC_Cancelled) t)
      | Permit_TimedOut \<Rightarrow> ([], persist_failure c store now pending (temporary EC_TotalDeadline) t)
      | Permit_Granted \<Rightarrow>
          (case execute c st pending total_deadline of
             (calls, Inr _) \<Rightarrow> (calls, Out_Processed, t)
           | (calls, Inl failure) \<Rightarrow> (calls, persist_failure c store now pending failure t)))"

section \<open>The two state stores\<close>

record event_row =
  er_state :: int
  er_attempts :: int
  er_next_attempt_at :: "timestamp option"
  er_error_code :: "int option"

type_synonym error_events = "event_key \<Rightarrow> event_row option"

definition i32_of_u32 :: "nat \<Rightarrow> processing_state_error + int" where
  "i32_of_u32 n = (if n < 2 ^ 31 then Inr (int n) else Inl State_InvalidData)"

definition failed_row :: "processing_failure \<Rightarrow> int \<Rightarrow> event_row" where
  "failed_row f next =
     (case pf_disposition f of
        RetryAt at \<Rightarrow> \<lparr>er_state = 0, er_attempts = next, er_next_attempt_at = Some at,
          er_error_code = Some (ProcessingErrorCode_stored (pf_code f))\<rparr>
      | PermanentlyFailed \<Rightarrow> \<lparr>er_state = 1, er_attempts = next, er_next_attempt_at = None,
          er_error_code = Some (ProcessingErrorCode_stored (pf_code f))\<rparr>)"

definition update_pending ::
  "processing_failure \<Rightarrow> int \<Rightarrow> int \<Rightarrow> error_events \<Rightarrow> processing_state_change \<times> error_events" where
  "update_pending f expected next table =
     (case table (pf_key f) of
        Some row \<Rightarrow> (if er_state row = 0 \<and> er_attempts row = expected
          then (Updated, table(pf_key f \<mapsto> failed_row f next)) else (StaleOrCompleted, table))
      | None \<Rightarrow> (StaleOrCompleted, table))"

definition postgres_checks :: "processing_failure \<Rightarrow> processing_state_error + int \<times> int" where
  "postgres_checks f =
     and_then (i32_of_u32 (pf_expected_attempts f)) (\<lambda>expected.
     and_then (i32_of_u32 (pf_new_attempts f)) (\<lambda>next.
       if expected + 1 < 2 ^ 31 \<and> expected + 1 = next then Inr (expected, next)
       else Inl State_InvalidData))"

definition mongo_checks :: "processing_failure \<Rightarrow> processing_state_error + int \<times> int" where
  "mongo_checks f =
     and_then (i32_of_u32 (pf_expected_attempts f)) (\<lambda>expected.
     and_then (i32_of_u32 (pf_new_attempts f)) (\<lambda>next.
       if pf_new_attempts f \<noteq> saturating_add_u32 (pf_expected_attempts f) 1 then Inl State_InvalidData
       else Inr (expected, next)))"

definition postgres_record_processing_failure ::
  "processing_failure \<Rightarrow> error_events
   \<Rightarrow> (processing_state_error + processing_state_change) \<times> error_events" where
  "postgres_record_processing_failure f table = (case postgres_checks f of
       Inl e \<Rightarrow> (Inl e, table)
     | Inr (expected, next) \<Rightarrow>
         (case update_pending f expected next table of (change, table') \<Rightarrow> (Inr change, table')))"

definition mongo_record_processing_failure ::
  "processing_failure \<Rightarrow> error_events
   \<Rightarrow> (processing_state_error + processing_state_change) \<times> error_events" where
  "mongo_record_processing_failure f table = (case mongo_checks f of
       Inl e \<Rightarrow> (Inl e, table)
     | Inr (expected, next) \<Rightarrow>
         (case update_pending f expected next table of (change, table') \<Rightarrow> (Inr change, table')))"

section \<open>Coalesced project loads\<close>

text \<open>
  Concurrent loads of one project share a flight. A flight is identified by a number (the address
  compared by \<^verbatim>\<open>Arc::ptr_eq\<close>); \<open>fresh\<close> is the number of a newly allocated one.
\<close>

type_synonym flights = "project_id \<Rightarrow> nat option"

definition join_flight :: "project_id \<Rightarrow> nat \<Rightarrow> flights \<Rightarrow> nat \<times> flights" where
  "join_flight p fresh flights = (case flights p of
       Some f \<Rightarrow> (f, flights)
     | None \<Rightarrow> (fresh, flights(p \<mapsto> fresh)))"

definition leave_flight :: "project_id \<Rightarrow> nat \<Rightarrow> flights \<Rightarrow> flights" where
  "leave_flight p f flights = (if flights p = Some f then flights(p := None) else flights)"

lemma leave_keeps_newer: "flights p = Some g \<Longrightarrow> g \<noteq> f \<Longrightarrow> leave_flight p f flights = flights"
  by (simp add: leave_flight_def)

lemma join_shares:
  "fst (join_flight p m (snd (join_flight p n flights))) = fst (join_flight p n flights)"
  by (simp add: join_flight_def split: option.splits)

section \<open>Batched finalization\<close>

record finalizer_batch_config =
  fb_channel_capacity :: nat
  fb_max_wait :: duration
  fb_max_events :: nat
  fb_shutdown_drain :: duration

definition FinalizerBatchConfig_default :: finalizer_batch_config where
  "FinalizerBatchConfig_default = \<lparr>fb_channel_capacity = 4096, fb_max_wait = millis 5,
     fb_max_events = 256, fb_shutdown_drain = secs 10\<rparr>"

definition FinalizerBatcher_start_ok :: "finalizer_batch_config \<Rightarrow> bool" where
  "FinalizerBatcher_start_ok c = (\<not> (fb_channel_capacity c = 0 \<or> fb_channel_capacity c > 100000
     \<or> fb_max_events c = 0 \<or> fb_max_events c > 10000 \<or> fb_max_events c > fb_channel_capacity c
     \<or> fb_max_wait c = 0 \<or> fb_max_wait c > secs 1
     \<or> fb_shutdown_drain c = 0 \<or> fb_shutdown_drain c > HARD_MAX_DURATION))"

text \<open>
  The receives of a batch until the deadline: each is a request, or the end (the channel closed or
  the deadline passed).
\<close>

fun collect_batch :: "nat \<Rightarrow> 'r list \<Rightarrow> 'r option list \<Rightarrow> 'r list" where
  "collect_batch max_events requests [] = requests"
| "collect_batch max_events requests (r # rs) =
     (if length requests < max_events
      then (case r of Some request \<Rightarrow> collect_batch max_events (requests @ [request]) rs
            | None \<Rightarrow> requests)
      else requests)"

definition finalize_one_batch ::
  "('e list \<Rightarrow> finalizer_error + unit) \<Rightarrow> finalizer_batch_config \<Rightarrow> 'e \<times> 'k \<Rightarrow> ('e \<times> 'k) option list
   \<Rightarrow> 'e list \<times> ('k \<times> (stage_failure + unit)) list" where
  "finalize_one_batch finalizer c first receives =
     (let requests = collect_batch (fb_max_events c) [first] receives;
          events = map fst requests;
          result = map_err map_finalizer_error (finalizer events)
      in (events, map (\<lambda>(_, response). (response, result)) requests))"

lemma collect_batch_bounds:
  "length requests \<le> n \<Longrightarrow> prefix requests (collect_batch n requests rs)
     \<and> length (collect_batch n requests rs) \<le> n"
  by (induction n requests rs rule: collect_batch.induct)
    (auto split: option.splits intro: append_prefixD)

lemma collect_batch_received:
  "\<exists>k. collect_batch n requests rs = requests @ map the (take k rs) \<and> None \<notin> set (take k rs)"
proof (induction n requests rs rule: collect_batch.induct)
  case (2 n requests r rs)
  show ?case
  proof (cases "length requests < n \<and> r \<noteq> None")
    case True
    then obtain x where x: "r = Some x" by blast
    with 2 True obtain k where "collect_batch n (requests @ [x]) rs = (requests @ [x]) @ map the (take k rs)"
      "None \<notin> set (take k rs)" by blast
    with x True show ?thesis by (intro exI[of _ "Suc k"]) simp
  qed (intro exI[of _ 0], auto)
qed simp

lemma finalize_one_batch_answers:
  assumes "FinalizerBatcher_start_ok c" "finalize_one_batch finalizer c first receives = (events, answers)"
  shows "length events = length answers \<and> 0 < length events \<and> length events \<le> fb_max_events c
    \<and> hd events = fst first \<and> hd answers = (snd first, map_err map_finalizer_error (finalizer events))
    \<and> (\<forall>(response, result)\<in>set answers. result = map_err map_finalizer_error (finalizer events))"
proof -
  let ?rs = "collect_batch (fb_max_events c) [first] receives"
  have "prefix [first] ?rs" "length ?rs \<le> fb_max_events c"
    using collect_batch_bounds[of "[first]" "fb_max_events c" receives] assms(1)
    by (auto simp: FinalizerBatcher_start_ok_def)
  moreover from this(1) obtain rest where "?rs = first # rest" by (auto simp: prefix_def)
  ultimately show ?thesis
    using assms(2) by (auto simp: finalize_one_batch_def Let_def split: prod.splits)
qed

section \<open>Retry times\<close>

lemma config_valid:
  assumes "ProcessorConfig_validate c = Inr c"
  shows "1 \<le> pc_max_attempts c" "pc_max_attempts c \<le> 100" "0 < pc_retry_base c"
    "pc_retry_base c \<le> pc_retry_max c" "pc_retry_max c \<le> 600000000000"
  using assms
  by (auto simp: ProcessorConfig_validate_def Let_def HARD_MAX_ATTEMPTS_def HARD_MAX_DURATION_def secs_def
      split: if_splits)

lemma retry_delay_eq:
  assumes "ProcessorConfig_validate c = Inr c"
  shows "retry_delay n c = min (pc_retry_base c * 2 ^ min (n - 1) 31) (pc_retry_max c)"
proof -
  define e where "e = min (n - 1) 31"
  have e: "e < 32" by (simp add: e_def)
  have le: "(2::nat) ^ e \<le> 2 ^ 31" using e by (intro power_increasing) auto
  then have "checked_shl_u32 1 e = Some (2 ^ e)" using e by (simp add: checked_shl_u32_def)
  moreover have "pc_retry_base c * 2 ^ e \<le> DURATION_MAX"
  proof -
    have "pc_retry_base c * 2 ^ e \<le> 600000000000 * 2 ^ 31"
      using config_valid(4,5)[OF assms] le by (intro mult_le_mono) auto
    then show ?thesis by (simp add: DURATION_MAX_def)
  qed
  ultimately show ?thesis
    unfolding retry_delay_def Let_def e_def[symmetric] by (simp add: checked_mul_duration_def)
qed

lemma retry_at_eq:
  assumes "ProcessorConfig_validate c = Inr c" "timestamp_ok now" "now + 600000 \<le> MAX_TIMESTAMP_MILLIS"
  shows "retry_at now n c = Some (now + int (retry_delay n c div 1000000))"
proof -
  have "retry_delay n c \<le> 600000000000"
    using config_valid(5)[OF assms(1)] by (simp add: retry_delay_eq[OF assms(1)])
  then have d: "retry_delay n c div 1000000 \<le> 600000" by simp
  define d' where "d' = int (retry_delay n c div 1000000)"
  have d'': "0 \<le> d'" "d' \<le> 600000" using d by (simp_all add: d'_def)
  have "timestamp_ok (now + d')"
    using assms(2,3) d'' by (simp add: timestamp_ok_def)
  then show ?thesis
    using d d'' assms(3) timestamp.new_accepts[of "now + d'"]
    by (simp add: retry_at_def Let_def checked_add_i64_def d'_def timestamp_ok_def
        MIN_TIMESTAMP_MILLIS_def MAX_TIMESTAMP_MILLIS_def)
qed

text \<open>
  Retries back off exponentially within bounds: for a validated configuration and a clock ten
  minutes short of the last timestamp, the retry time always exists, lies the capped exponential delay
  after now (no multiplication overflows), never exceeds the maximal delay, and grows with the attempts.
\<close>
theorem retry_at_backoff:
  assumes "ProcessorConfig_validate c = Inr c" "timestamp_ok now" "now + 600000 \<le> MAX_TIMESTAMP_MILLIS"
  shows "retry_at now n c
      = Some (now + int (min (pc_retry_base c * 2 ^ min (n - 1) 31) (pc_retry_max c) div 1000000))
    \<and> (\<exists>t. retry_at now n c = Some t \<and> now \<le> t \<and> t \<le> now + int (pc_retry_max c div 1000000))
    \<and> (m \<le> n \<longrightarrow> the (retry_at now m c) \<le> the (retry_at now n c))"
proof -
  have "retry_delay m c \<le> retry_delay n c" if "m \<le> n"
  proof -
    have "(2::nat) ^ min (m - 1) 31 \<le> 2 ^ min (n - 1) 31" using that by (intro power_increasing) auto
    then show ?thesis unfolding retry_delay_eq[OF assms(1)] by (intro min.mono mult_le_mono) auto
  qed
  moreover have "retry_delay n c \<le> pc_retry_max c" by (simp add: retry_delay_eq[OF assms(1)])
  ultimately show ?thesis
    unfolding retry_delay_eq[OF assms(1), symmetric] by (simp add: retry_at_eq[OF assms] div_le_mono)
qed

lemma default_config_valid: "ProcessorConfig_validate ProcessorConfig_default = Inr ProcessorConfig_default"
  by (simp add: ProcessorConfig_validate_def ProcessorConfig_default_def Let_def secs_def
      HARD_MAX_CONCURRENCY_def HARD_MAX_ATTEMPTS_def HARD_MAX_DURATION_def)

theorem retry_at_backoff_witness:
  "retry_at 1000 4 ProcessorConfig_default = Some 9000"
proof -
  have "timestamp_ok 1000" "(1000 :: int) + 600000 \<le> MAX_TIMESTAMP_MILLIS"
    by (simp_all add: timestamp_ok_def MIN_TIMESTAMP_MILLIS_def MAX_TIMESTAMP_MILLIS_def)
  from retry_at_backoff[OF default_config_valid this, of 4]
  have "retry_at 1000 4 ProcessorConfig_default = Some (1000 + int (min (pc_retry_base ProcessorConfig_default
    * 2 ^ min (4 - 1) 31) (pc_retry_max ProcessorConfig_default) div 1000000))" by blast
  then show ?thesis by (simp add: ProcessorConfig_default_def secs_def)
qed

section \<open>Failures come to an end\<close>

text \<open>
  What the processor relies on of a state store: an update that names another number of attempts
  than the stored one changes nothing, and one that names the stored number and its successor is
  applied: the event stays pending with the new number, or leaves the pending events.
\<close>

locale attempt_store =
  fixes put :: "processing_failure \<Rightarrow> 't \<Rightarrow> (processing_state_error + processing_state_change) \<times> 't"
    and attempts_of :: "'t \<Rightarrow> event_key \<Rightarrow> nat option"
  assumes put_stale: "attempts_of t (pf_key f) \<noteq> Some (pf_expected_attempts f) \<Longrightarrow> snd (put f t) = t"
    and put_next: "attempts_of t (pf_key f) = Some (pf_expected_attempts f) \<Longrightarrow>
      pf_new_attempts f = Suc (pf_expected_attempts f) \<Longrightarrow> pf_new_attempts f < 2 ^ 31 \<Longrightarrow>
      fst (put f t) = Inr Updated
      \<and> attempts_of (snd (put f t)) = (attempts_of t)(pf_key f :=
          (case pf_disposition f of RetryAt _ \<Rightarrow> Some (pf_new_attempts f) | PermanentlyFailed \<Rightarrow> None))"

definition answering ::
  "(processing_failure \<Rightarrow> 't \<Rightarrow> (processing_state_error + processing_state_change) \<times> 't) \<Rightarrow> 't state_store" where
  "answering put = (\<lambda>f t. (Some (fst (put f t)), snd (put f t)))"

fun failing_runs ::
  "processor_config \<Rightarrow> 't state_store \<Rightarrow> ('t \<Rightarrow> event_key \<Rightarrow> nat option)
   \<Rightarrow> (timestamp \<times> stage_failure) list \<Rightarrow> accepted_event \<Rightarrow> 't \<Rightarrow> 't" where
  "failing_runs c store attempts_of [] e t = t"
| "failing_runs c store attempts_of ((now, failure) # rs) e t =
     (case attempts_of t (PendingEvent_key (PendingEvent_fresh e)) of
        None \<Rightarrow> t
      | Some a \<Rightarrow> failing_runs c store attempts_of rs e
          (snd (persist_failure c store now \<lparr>pe_event = e, pe_attempts = a\<rparr> failure t)))"

abbreviation key_of :: "accepted_event \<Rightarrow> event_key" where
  "key_of e \<equiv> PendingEvent_key (PendingEvent_fresh e)"

lemma pending_key [simp]: "PendingEvent_key \<lparr>pe_event = e, pe_attempts = a\<rparr> = key_of e"
  by (simp add: PendingEvent_key_def PendingEvent_fresh_def)

lemma classify_exhausted: "pc_max_attempts c \<le> n \<Longrightarrow> snd (classify_failure c now n f) = None"
  by (cases "fl_class f") (auto simp: classify_failure_def Let_def)

lemma classify_permanent: "fl_class f = Permanent \<Longrightarrow> classify_failure c now n f = (f, None)"
  by (simp add: classify_failure_def Let_def)

lemma classify_temporary:
  "fl_class f = Temporary \<Longrightarrow> n < pc_max_attempts c \<Longrightarrow> retry_at now n c = Some at \<Longrightarrow>
   classify_failure c now n f = (f, Some at)"
  by (simp add: classify_failure_def Let_def)

context attempt_store
begin

lemma persist_step:
  assumes "attempts_of t (key_of e) = Some a" "Suc a < 2 ^ 31"
  shows "attempts_of (snd (persist_failure c (answering put) now \<lparr>pe_event = e, pe_attempts = a\<rparr> f t))
      = (attempts_of t)(key_of e := (if snd (classify_failure c now (Suc a) f) = None then None else Some (Suc a)))
    \<and> fst (persist_failure c (answering put) now \<lparr>pe_event = e, pe_attempts = a\<rparr> f t)
      = (if snd (classify_failure c now (Suc a) f) = None then Out_PermanentlyFailed else Out_RetryScheduled)"
proof -
  obtain f' at where cl: "classify_failure c now (Suc a) f = (f', at)" by fastforce
  let ?u = "failure_update \<lparr>pe_event = e, pe_attempts = a\<rparr> f' (Suc a) at"
  have u: "pf_key ?u = key_of e" "pf_expected_attempts ?u = a" "pf_new_attempts ?u = Suc a"
    "pf_disposition ?u = (case at of None \<Rightarrow> PermanentlyFailed | Some t \<Rightarrow> RetryAt t)"
    by (simp_all add: failure_update_def)
  have n: "fst (put ?u t) = Inr Updated \<and> attempts_of (snd (put ?u t)) = (attempts_of t)(key_of e :=
      (case pf_disposition ?u of RetryAt _ \<Rightarrow> Some (Suc a) | PermanentlyFailed \<Rightarrow> None))"
    using put_next[of t ?u, unfolded u] assms by (simp add: u(4))
  have "checked_add_u32 a 1 = Some (Suc a)" using assms(2) by (simp add: checked_add_u32_def)
  then show ?thesis
    using n by (auto simp: persist_failure_def cl write_failure_def answering_def u split: option.splits)
qed

lemma failing_runs_done:
  "attempts_of t (key_of e) = None \<Longrightarrow> failing_runs c store attempts_of rs e t = t"
  by (cases rs) auto

lemma failing_runs_frame:
  assumes "\<And>a. attempts_of t (key_of e) = Some a \<Longrightarrow> a + length rs < 2 ^ 31" "k \<noteq> key_of e"
  shows "attempts_of (failing_runs c (answering put) attempts_of rs e t) k = attempts_of t k"
  using assms(1)
proof (induction rs arbitrary: t)
  case (Cons r rs)
  obtain now f where r: "r = (now, f)" by (cases r)
  show ?case
  proof (cases "attempts_of t (key_of e)")
    case (Some a)
    then have "Suc a < 2 ^ 31" using Cons.prems by fastforce
    note step = persist_step[OF Some this, of c now f]
    let ?t = "snd (persist_failure c (answering put) now \<lparr>pe_event = e, pe_attempts = a\<rparr> f t)"
    have "attempts_of (failing_runs c (answering put) attempts_of rs e ?t) k = attempts_of ?t k"
      using step Cons.prems[OF Some] by (intro Cons.IH) (auto split: if_splits)
    then show ?thesis using step assms(2) by (simp add: r Some)
  qed (simp add: r failing_runs_done)
qed simp

lemma failing_runs_end:
  assumes "attempts_of t (key_of e) = Some a" "a + length rs < 2 ^ 31" "rs \<noteq> []"
    "pc_max_attempts c \<le> a + length rs"
  shows "attempts_of (failing_runs c (answering put) attempts_of rs e t) (key_of e) = None"
  using assms
proof (induction rs arbitrary: t a)
  case (Cons r rs)
  obtain now f where r: "r = (now, f)" by (cases r)
  let ?t = "snd (persist_failure c (answering put) now \<lparr>pe_event = e, pe_attempts = a\<rparr> f t)"
  have "Suc a < 2 ^ 31" using Cons.prems(2) by simp
  note step = persist_step[OF Cons.prems(1) this, of c now f]
  show ?case
  proof (cases "snd (classify_failure c now (Suc a) f) = None")
    case True
    then have "attempts_of ?t (key_of e) = None" using step by simp
    then show ?thesis by (simp add: r Cons.prems(1) failing_runs_done)
  next
    case False
    then have t: "attempts_of ?t (key_of e) = Some (Suc a)" and m: "\<not> pc_max_attempts c \<le> Suc a"
      using step classify_exhausted[of c "Suc a"] by auto
    with Cons.prems have "rs \<noteq> []" by auto
    with Cons.IH[OF t] Cons.prems show ?thesis by (simp add: r)
  qed
qed simp

lemma failing_runs_retry:
  assumes "attempts_of t (key_of e) = Some a" "a + length rs < pc_max_attempts c"
    "ProcessorConfig_validate c = Inr c"
    "\<forall>(now, f)\<in>set rs. fl_class f = Temporary \<and> timestamp_ok now \<and> now + 600000 \<le> MAX_TIMESTAMP_MILLIS"
  shows "attempts_of (failing_runs c (answering put) attempts_of rs e t) (key_of e) = Some (a + length rs)"
  using assms(1,2,4)
proof (induction rs arbitrary: t a)
  case (Cons r rs)
  obtain now f where r: "r = (now, f)" by (cases r)
  let ?t = "snd (persist_failure c (answering put) now \<lparr>pe_event = e, pe_attempts = a\<rparr> f t)"
  have a: "Suc a < 2 ^ 31" "Suc a < pc_max_attempts c"
    using Cons.prems(2) config_valid(2)[OF assms(3)] by auto
  have "classify_failure c now (Suc a) f = (f, Some (now + int (retry_delay (Suc a) c div 1000000)))"
    using Cons.prems(3) a(2) by (intro classify_temporary retry_at_eq[OF assms(3)]) (auto simp: r)
  then have "attempts_of ?t (key_of e) = Some (Suc a)"
    using persist_step[OF Cons.prems(1) a(1), of c now f] by simp
  from Cons.IH[OF this] Cons.prems show ?case by (simp add: r)
qed simp

end

definition row_attempts :: "error_events \<Rightarrow> event_key \<Rightarrow> nat option" where
  "row_attempts table k = (case table k of
       Some row \<Rightarrow> (if er_state row = 0 \<and> 0 \<le> er_attempts row then Some (nat (er_attempts row)) else None)
     | None \<Rightarrow> None)"

lemma checks_agree: "mongo_checks f = postgres_checks f"
  by (auto simp: mongo_checks_def postgres_checks_def i32_of_u32_def saturating_add_u32_def)

lemma postgres_checks_next:
  "pf_new_attempts f = Suc (pf_expected_attempts f) \<Longrightarrow> pf_new_attempts f < 2 ^ 31 \<Longrightarrow>
   postgres_checks f = Inr (int (pf_expected_attempts f), int (pf_new_attempts f))"
  by (simp add: postgres_checks_def i32_of_u32_def)

lemma postgres_checks_expected:
  "postgres_checks f = Inr (expected, next) \<Longrightarrow> expected = int (pf_expected_attempts f)"
  by (auto simp: postgres_checks_def i32_of_u32_def split: if_splits)

lemma row_attempts_pending:
  "row_attempts table k = Some a \<longleftrightarrow>
     (\<exists>row. table k = Some row \<and> er_state row = 0 \<and> er_attempts row = int a)"
  by (auto simp: row_attempts_def split: option.splits)

lemma update_pending_stale:
  "row_attempts table (pf_key f) \<noteq> Some (pf_expected_attempts f) \<Longrightarrow>
   update_pending f (int (pf_expected_attempts f)) next table = (StaleOrCompleted, table)"
  by (auto simp: update_pending_def row_attempts_pending split: option.splits)

lemma row_attempts_failed_row:
  "row_attempts (table(k \<mapsto> failed_row f (int n)))
     = (row_attempts table)(k := (case pf_disposition f of RetryAt _ \<Rightarrow> Some n | PermanentlyFailed \<Rightarrow> None))"
  by (auto simp: fun_eq_iff row_attempts_def failed_row_def split: processing_failure_disposition.splits)

interpretation postgres: attempt_store postgres_record_processing_failure row_attempts
proof
  fix t f
  show "snd (postgres_record_processing_failure f t) = t"
    if "row_attempts t (pf_key f) \<noteq> Some (pf_expected_attempts f)"
  proof (cases "postgres_checks f")
    case (Inr p)
    then obtain expected "next" where p: "postgres_checks f = Inr (expected, next)" by (cases p) auto
    with update_pending_stale[OF that, of "next"] postgres_checks_expected[OF p] show ?thesis
      by (simp add: postgres_record_processing_failure_def)
  qed (simp add: postgres_record_processing_failure_def)
  show "fst (postgres_record_processing_failure f t) = Inr Updated
      \<and> row_attempts (snd (postgres_record_processing_failure f t)) = (row_attempts t)(pf_key f :=
          (case pf_disposition f of RetryAt _ \<Rightarrow> Some (pf_new_attempts f) | PermanentlyFailed \<Rightarrow> None))"
    if "row_attempts t (pf_key f) = Some (pf_expected_attempts f)"
      "pf_new_attempts f = Suc (pf_expected_attempts f)" "pf_new_attempts f < 2 ^ 31"
    using that(1) postgres_checks_next[OF that(2,3)] row_attempts_failed_row[of t "pf_key f" f "pf_new_attempts f"]
    by (auto simp: postgres_record_processing_failure_def update_pending_def row_attempts_pending)
qed

lemma stores_agree: "mongo_record_processing_failure = postgres_record_processing_failure"
  by (intro ext) (simp add: mongo_record_processing_failure_def postgres_record_processing_failure_def checks_agree)

interpretation mongo: attempt_store mongo_record_processing_failure row_attempts
  unfolding stores_agree by (rule postgres.attempt_store_axioms)

text \<open>
  C4. Failing events neither loop forever nor are given up early: on both state stores, if every
  run of a pending event fails, it leaves the pending events after the configured number of attempts
  at the latest, whatever the failures are; while every failure is temporary and fewer runs have
  happened, it stays pending with exactly that many attempts; other events are never touched.
\<close>
theorem failing_event_terminates:
  assumes "ProcessorConfig_validate c = Inr c" "row_attempts table (key_of e) = Some a"
    "a + length rs < 2 ^ 31" "rs \<noteq> []"
    "put = postgres_record_processing_failure \<or> put = mongo_record_processing_failure"
  shows "let after = row_attempts (failing_runs c (answering put) row_attempts rs e table) in
    (pc_max_attempts c \<le> a + length rs \<longrightarrow> after (key_of e) = None)
    \<and> (a + length rs < pc_max_attempts c \<and> (\<forall>(now, f)\<in>set rs. fl_class f = Temporary \<and> timestamp_ok now
          \<and> now + 600000 \<le> MAX_TIMESTAMP_MILLIS) \<longrightarrow> after (key_of e) = Some (a + length rs))
    \<and> (\<forall>k. k \<noteq> key_of e \<longrightarrow> after k = row_attempts table k)"
proof -
  have put: "put = postgres_record_processing_failure" using assms(5) stores_agree by auto
  show ?thesis
    unfolding put Let_def
    using postgres.failing_runs_end[OF assms(2-4)] postgres.failing_runs_retry[OF assms(2) _ assms(1)]
      postgres.failing_runs_frame[of table e rs] assms(2,3) by auto
qed

definition sample_event :: accepted_event where
  "sample_event = \<lparr>ae_project_id = 7, ae_event_id = replicate 16 0, ae_received_at = 0,
     ae_policy_revision = 1, ae_payload = []\<rparr>"

definition sample_table :: error_events where
  "sample_table = (\<lambda>_. None)(key_of sample_event \<mapsto> \<lparr>er_state = 0, er_attempts = 0,
     er_next_attempt_at = Some 0, er_error_code = None\<rparr>)"

theorem failing_event_terminates_witness:
  "row_attempts (failing_runs ProcessorConfig_default (answering postgres_record_processing_failure)
     row_attempts (replicate 5 (0, temporary EC_FinalizerUnavailable)) sample_event sample_table)
     (key_of sample_event) = None
   \<and> row_attempts (failing_runs ProcessorConfig_default (answering mongo_record_processing_failure)
     row_attempts (replicate 4 (0, temporary EC_FinalizerUnavailable)) sample_event sample_table)
     (key_of sample_event) = Some 4"
proof -
  have t: "row_attempts sample_table (key_of sample_event) = Some 0"
    by (simp add: row_attempts_def sample_table_def)
  have m: "pc_max_attempts ProcessorConfig_default = 5" by (simp add: ProcessorConfig_default_def)
  have "timestamp_ok 0" "600000 \<le> MAX_TIMESTAMP_MILLIS"
    by (simp_all add: timestamp_ok_def MIN_TIMESTAMP_MILLIS_def MAX_TIMESTAMP_MILLIS_def)
  moreover have "fl_class (temporary EC_FinalizerUnavailable) = Temporary" by (simp add: temporary_def)
  ultimately show ?thesis
    using failing_event_terminates[OF default_config_valid t,
        of "replicate 5 (0, temporary EC_FinalizerUnavailable)" postgres_record_processing_failure]
      failing_event_terminates[OF default_config_valid t,
        of "replicate 4 (0, temporary EC_FinalizerUnavailable)" mongo_record_processing_failure]
    by (simp add: m Let_def)
qed

section \<open>The order of the stages\<close>

lemma then_call_eq:
  "then_call c r k = (calls, res) \<longleftrightarrow>
     (\<exists>f. r = Inl f \<and> calls = [c] \<and> res = Inl f)
     \<or> (\<exists>v cs. r = Inr v \<and> k v = (cs, res) \<and> calls = c # cs)"
  by (cases r) (auto simp: then_call_def split: prod.splits)

lemma then_call_Inr [simp]: "then_call c (Inr v) k = (c # fst (k v), snd (k v))"
  by (simp add: then_call_def split: prod.splits)

lemma fails_eq [simp]: "fails f = (calls, res) \<longleftrightarrow> calls = [] \<and> res = Inl f"
  by (auto simp: fails_def)

lemma flat_eq_Inr [simp]: "flat r = Inr v \<longleftrightarrow> r = Inr (Inr v)"
  by (auto simp: flat_def result_simps)

lemma project_gate_None:
  "project_gate p project = None \<longleftrightarrow> pp_project_id project = ae_project_id (pe_event p)
     \<and> pp_state project = Project_Active \<and> pp_error_events_enabled project"
  by (simp add: project_gate_def)

abbreviation in_time :: "processor_config \<Rightarrow> nat \<Rightarrow> nat \<times> 'a stage_run \<Rightarrow> 'a \<Rightarrow> bool" where
  "in_time c deadline observed v \<equiv> run_stage (pc_stage_timeout c) deadline observed = Inr v"

lemma execute_finish_finalize:
  assumes "execute_finish c st project td m s = (calls, r)"
  shows "Call_Finalize n' s' g i \<in> set calls \<Longrightarrow> n' = m \<and> s' = s
      \<and> in_time c td (group_stage st m s (pp_grouping_revision project)) (Inr g)
      \<and> in_time c td (prepare_stage st m g) (Inr i)
      \<and> calls = [Call_Group m s (pp_grouping_revision project), Call_Prepare m g, Call_Finalize m s g i]"
    and "r = Inr () \<Longrightarrow> \<exists>g i. Call_Finalize m s g i \<in> set calls
      \<and> in_time c td (finalize_stage st m s g i) (Inr ())"
    and "\<exists>cs. calls = Call_Group m s (pp_grouping_revision project) # cs"
  using assms by (auto simp: execute_finish_def then_call_eq)

lemma execute_cases:
  assumes "execute c st p td = (calls, r)"
  shows "(\<exists>f. r = Inl f \<and> (\<forall>n s g i. Call_Finalize n s g i \<notin> set calls))
    \<or> (\<exists>project m s cs. in_time c td (load_project st (ae_project_id (pe_event p))) (Inr project)
        \<and> project_gate p project = None
        \<and> in_time c td (normalize_stage st (pe_event p)) (Inr m)
        \<and> in_time c td (symbolicate_stage st m (pp_debug_file_revision project) (pp_artifact_revision project)) (Inr s)
        \<and> \<not> should_retry_symbolication s (pe_attempts p) (pc_max_attempts c)
        \<and> execute_finish c st project td m s = (cs, r)
        \<and> calls = Call_Project (ae_project_id (pe_event p)) # Call_Normalize (pe_event p)
            # Call_Symbolicate m (pp_debug_file_revision project) (pp_artifact_revision project) # cs)"
  using assms unfolding execute_def then_call_eq
  by (auto simp: then_call_eq result_simps split: option.splits if_splits)

text \<open>
  C5. Nothing is finalized past a closed gate or out of order: if the finalizer is called, then the
  project was loaded in time for the event's own project, is active and accepts error events, and the
  calls are exactly the six stages in order, each on the in-time results of the earlier ones; and an
  event counts as processed only if that finalizer call succeeded within its deadline.
\<close>
theorem finalize_only_through_gates:
  assumes "execute c st p td = (calls, r)"
  shows "(Call_Finalize n s g i \<in> set calls \<longrightarrow>
      (\<exists>project. in_time c td (load_project st (ae_project_id (pe_event p))) (Inr project)
        \<and> pp_project_id project = ae_project_id (pe_event p) \<and> pp_state project = Project_Active
        \<and> pp_error_events_enabled project
        \<and> in_time c td (normalize_stage st (pe_event p)) (Inr n)
        \<and> in_time c td (symbolicate_stage st n (pp_debug_file_revision project)
            (pp_artifact_revision project)) (Inr s)
        \<and> in_time c td (group_stage st n s (pp_grouping_revision project)) (Inr g)
        \<and> in_time c td (prepare_stage st n g) (Inr i)
        \<and> calls = [Call_Project (ae_project_id (pe_event p)), Call_Normalize (pe_event p),
            Call_Symbolicate n (pp_debug_file_revision project) (pp_artifact_revision project),
            Call_Group n s (pp_grouping_revision project), Call_Prepare n g, Call_Finalize n s g i]))
    \<and> (r = Inr () \<longrightarrow> (\<exists>n s g i. Call_Finalize n s g i \<in> set calls
        \<and> in_time c td (finalize_stage st n s g i) (Inr ())))"
  using execute_cases[OF assms]
proof (elim disjE exE conjE)
  fix project m y cs
  assume gate: "project_gate p project = None" and fin: "execute_finish c st project td m y = (cs, r)"
    and calls: "calls = Call_Project (ae_project_id (pe_event p)) # Call_Normalize (pe_event p)
      # Call_Symbolicate m (pp_debug_file_revision project) (pp_artifact_revision project) # cs"
    and loaded: "in_time c td (load_project st (ae_project_id (pe_event p))) (Inr project)"
      "in_time c td (normalize_stage st (pe_event p)) (Inr m)"
      "in_time c td (symbolicate_stage st m (pp_debug_file_revision project) (pp_artifact_revision project)) (Inr y)"
  have "Call_Finalize n s g i \<in> set calls \<longleftrightarrow> Call_Finalize n s g i \<in> set cs" by (simp add: calls)
  moreover have "\<exists>g i. Call_Finalize m y g i \<in> set calls \<and> in_time c td (finalize_stage st m y g i) (Inr ())"
    if "r = Inr ()"
    using execute_finish_finalize(2)[OF fin that] by (auto simp: calls)
  ultimately show ?thesis
    using gate loaded execute_finish_finalize(1)[OF fin, of n s g i] by (auto simp: project_gate_None calls)
qed auto

definition sample_project :: processing_project where
  "sample_project = \<lparr>pp_project_id = 7, pp_state = Project_Active, pp_error_events_enabled = True,
     pp_grouping_revision = 1, pp_debug_file_revision = 1, pp_artifact_revision = 1\<rparr>"

definition sample_symbolication :: symbolication_result where
  "sample_symbolication = \<lparr>sr_kind = Sym_Native, sr_status = Status_Unavailable,
     sr_disposition = Disp_Retryable, sr_raw = [], sr_derived = [], sr_missing_debug_ids = [],
     sr_diagnostics = [SD_BackendUnavailable]\<rparr>"

definition sample_normalized :: normalized_event where
  "sample_normalized = \<lparr>ne_project_id = 7, ne_event_id = replicate 16 0, ne_received_at = 0,
     ne_policy_revision = 1, ne_body = empty_body, ne_diagnostics = []\<rparr>"

definition sample_stages :: "grouping_result \<Rightarrow> unit stages" where
  "sample_stages g = \<lparr>load_project = (\<lambda>_. (0, Run_Finished (Inr sample_project) 1)),
     normalize_stage = (\<lambda>_. (1, Run_Finished (Inr sample_normalized) 2)),
     symbolicate_stage = (\<lambda>_ _ _. (2, Run_Finished (Inr sample_symbolication) 3)),
     group_stage = (\<lambda>_ _ _. (3, Run_Finished (Inr g) 4)),
     prepare_stage = (\<lambda>_ _. (4, Run_Finished (Inr ()) 5)),
     finalize_stage = (\<lambda>_ _ _ _. (5, Run_Finished (Inr ()) 6))\<rparr>"

definition last_attempt :: pending_event where
  "last_attempt = \<lparr>pe_event = sample_event, pe_attempts = 4\<rparr>"

lemma sample_in_time:
  "in_time ProcessorConfig_default 60000000000 (load_project (sample_stages g) k) (Inr sample_project)"
  "in_time ProcessorConfig_default 60000000000 (normalize_stage (sample_stages g) e) (Inr sample_normalized)"
  "in_time ProcessorConfig_default 60000000000 (symbolicate_stage (sample_stages g) n d a) (Inr sample_symbolication)"
  "in_time ProcessorConfig_default 60000000000 (group_stage (sample_stages g) n s d) (Inr g)"
  "in_time ProcessorConfig_default 60000000000 (prepare_stage (sample_stages g) n h) (Inr ())"
  "in_time ProcessorConfig_default 60000000000 (finalize_stage (sample_stages g) n s h i) (Inr ())"
  by (simp_all add: sample_stages_def run_stage_def ProcessorConfig_default_def secs_def)

lemma sample_gate: "project_gate last_attempt sample_project = None"
  by (simp add: project_gate_def last_attempt_def sample_event_def sample_project_def)

theorem finalize_only_through_gates_witness:
  "\<forall>g. \<exists>n s h i. Call_Finalize n s h i
     \<in> set (fst (execute ProcessorConfig_default (sample_stages g) last_attempt 60000000000))"
proof
  fix g
  have "\<not> should_retry_symbolication sample_symbolication (pe_attempts last_attempt)
      (pc_max_attempts ProcessorConfig_default)"
    by (simp add: should_retry_symbolication_def saturating_add_u32_def last_attempt_def
        ProcessorConfig_default_def)
  then have "snd (execute ProcessorConfig_default (sample_stages g) last_attempt 60000000000) = Inr ()"
    by (simp add: execute_def execute_finish_def sample_in_time sample_gate flat_def)
  then show "\<exists>n s h i. Call_Finalize n s h i
     \<in> set (fst (execute ProcessorConfig_default (sample_stages g) last_attempt 60000000000))"
    using finalize_only_through_gates[of ProcessorConfig_default "sample_stages g" last_attempt 60000000000]
    by (metis prod.collapse)
qed

text \<open>
  Unavailable symbols delay an event but never lose it: when symbolication asks for a retry, the
  event is retried (and that retry can be scheduled) as long as attempts are left, and on the last
  attempt the same result goes on to grouping, so the event is finalized with its raw frames.
\<close>
theorem symbolication_retry_then_raw:
  assumes "ProcessorConfig_validate c = Inr c" "timestamp_ok now" "now + 600000 \<le> MAX_TIMESTAMP_MILLIS"
    "in_time c td (load_project st (ae_project_id (pe_event p))) (Inr project)"
    "project_gate p project = None"
    "in_time c td (normalize_stage st (pe_event p)) (Inr n)"
    "in_time c td (symbolicate_stage st n (pp_debug_file_revision project) (pp_artifact_revision project)) (Inr s)"
    "sr_disposition s = Disp_Retryable"
  shows "if Suc (pe_attempts p) < pc_max_attempts c
    then snd (execute c st p td) = Inl (temporary EC_SymbolicationRetryable)
      \<and> (\<exists>at. classify_failure c now (Suc (pe_attempts p)) (temporary EC_SymbolicationRetryable)
           = (temporary EC_SymbolicationRetryable, Some at))
    else \<exists>before after. fst (execute c st p td)
           = before @ Call_Group n s (pp_grouping_revision project) # after"
proof (cases "Suc (pe_attempts p) < pc_max_attempts c")
  case True
  then have "should_retry_symbolication s (pe_attempts p) (pc_max_attempts c)"
    using assms(8) config_valid(2)[OF assms(1)]
    by (simp add: should_retry_symbolication_def saturating_add_u32_def)
  with True show ?thesis
    using classify_temporary[OF _ True retry_at_eq[OF assms(1-3)]]
    by (simp add: execute_def assms(4-7) flat_def fails_def) (simp add: temporary_def)
next
  case False
  then have "\<not> should_retry_symbolication s (pe_attempts p) (pc_max_attempts c)"
    using config_valid(2)[OF assms(1)]
    by (auto simp: should_retry_symbolication_def saturating_add_u32_def)
  then have "fst (execute c st p td) = [Call_Project (ae_project_id (pe_event p)), Call_Normalize (pe_event p),
      Call_Symbolicate n (pp_debug_file_revision project) (pp_artifact_revision project)]
      @ fst (execute_finish c st project td n s)"
    by (simp add: execute_def assms(4-7) flat_def)
  moreover obtain cs where "fst (execute_finish c st project td n s) = Call_Group n s (pp_grouping_revision project) # cs"
    using execute_finish_finalize(3)[of c st project td n s] by (metis prod.collapse)
  ultimately show ?thesis using False by metis
qed

theorem symbolication_retry_then_raw_witness:
  "\<forall>g. \<exists>before after. fst (execute ProcessorConfig_default (sample_stages g) last_attempt 60000000000)
     = before @ Call_Group sample_normalized sample_symbolication 1 # after"
proof
  fix g
  have "timestamp_ok 0" "(0 :: int) + 600000 \<le> MAX_TIMESTAMP_MILLIS"
    by (simp_all add: timestamp_ok_def MIN_TIMESTAMP_MILLIS_def MAX_TIMESTAMP_MILLIS_def)
  moreover have "sr_disposition sample_symbolication = Disp_Retryable" by (simp add: sample_symbolication_def)
  moreover have "\<not> Suc (pe_attempts last_attempt) < pc_max_attempts ProcessorConfig_default"
    "pp_grouping_revision sample_project = 1"
    by (simp_all add: last_attempt_def ProcessorConfig_default_def sample_project_def)
  ultimately show "\<exists>before after. fst (execute ProcessorConfig_default (sample_stages g) last_attempt 60000000000)
     = before @ Call_Group sample_normalized sample_symbolication 1 # after"
    using symbolication_retry_then_raw[OF default_config_valid _ _ sample_in_time(1) sample_gate
        sample_in_time(2,3), of 0 g] by (simp del: One_nat_def)
qed

section \<open>Stored codes\<close>

lemma ProcessingErrorCode_stored_inj:
  "ProcessingErrorCode_stored a = ProcessingErrorCode_stored b \<longleftrightarrow> a = b"
  by (cases a; cases b) simp_all

lemma ProcessingErrorCode_as_str_inj:
  "ProcessingErrorCode_as_str a = ProcessingErrorCode_as_str b \<longleftrightarrow> a = b"
  by (cases a; cases b) simp_all

section \<open>One run\<close>

lemma write_failure_not_processed: "fst (write_failure store p f n at t) \<noteq> Out_Processed"
  by (auto simp: write_failure_def split: prod.splits option.splits sum.splits processing_state_change.splits)

lemma persist_failure_not_processed: "fst (persist_failure c store now p f t) \<noteq> Out_Processed"
  by (auto simp: persist_failure_def write_failure_not_processed split: option.splits prod.splits)

lemma process_processed:
  "fst (snd (process c st store started permit now p t)) = Out_Processed \<longleftrightarrow>
     permit = Permit_Granted \<and> snd (execute c st p (started + pc_total_timeout c)) = Inr ()"
  by (auto simp: process_def Let_def persist_failure_not_processed
      split: permit_run.splits prod.splits sum.splits)

lemma process_keeps_state:
  "fst (snd (process c st store started permit now p t)) = Out_Processed \<Longrightarrow>
   snd (snd (process c st store started permit now p t)) = t"
  using persist_failure_not_processed[of c store now p _ t]
  by (auto simp: process_def Let_def split: permit_run.splits prod.splits sum.splits)

end
