(* ===== verification/Dispatcher.thy ===== *)
theory Dispatcher
  imports Processor "HOL-Library.Multiset"
begin

text \<open>
  Scheduling of pending events inside one process, \<^verbatim>\<open>crates/application/src/dispatcher.rs\<close>: the
  admission of events with the set of scheduled keys, the bounded queue and workers, refills from the
  durable backlog, the backlog guard and the shutdown drain.

  Offers come from other threads: between inserting its key and sending, an offer is suspended while
  anything else happens. The step relation therefore has an admission and a send step, and the
  invariant is proved over every interleaving of them with the dispatcher task.
\<close>

section \<open>Configuration\<close>

record dispatcher_config =
  dc_queue_capacity :: nat
  dc_worker_concurrency :: nat
  dc_low_watermark :: nat
  dc_refill_target :: nat
  dc_refill_batch_size :: nat
  dc_poll_interval :: duration
  dc_metrics_interval :: duration
  dc_source_timeout :: duration
  dc_shutdown_drain :: duration
  dc_max_pending_events :: "nat option"
  dc_max_oldest_pending_age :: "duration option"

definition DispatcherConfig_default :: dispatcher_config where
  "DispatcherConfig_default = \<lparr>dc_queue_capacity = 4096, dc_worker_concurrency = 32,
     dc_low_watermark = 1024, dc_refill_target = 3072, dc_refill_batch_size = 512,
     dc_poll_interval = millis 100, dc_metrics_interval = secs 5, dc_source_timeout = secs 5,
     dc_shutdown_drain = secs 10, dc_max_pending_events = None,
     dc_max_oldest_pending_age = Some (secs (60 * 60))\<rparr>"

datatype dispatcher_start_error =
  InvalidConfiguration | BacklogUnavailable | BacklogInvalidData

definition validate_dispatcher_config :: "dispatcher_config \<Rightarrow> dispatcher_start_error + unit" where
  "validate_dispatcher_config c =
     (let valid = (1 \<le> dc_queue_capacity c \<and> dc_queue_capacity c \<le> 100000)
            \<and> (1 \<le> dc_worker_concurrency c \<and> dc_worker_concurrency c \<le> 4096)
            \<and> dc_worker_concurrency c \<le> dc_queue_capacity c
            \<and> dc_low_watermark c < dc_refill_target c
            \<and> dc_refill_target c \<le> dc_queue_capacity c
            \<and> (1 \<le> dc_refill_batch_size c \<and> dc_refill_batch_size c \<le> min (dc_refill_target c) 32768)
            \<and> dc_poll_interval c \<noteq> 0 \<and> dc_metrics_interval c \<noteq> 0 \<and> dc_source_timeout c \<noteq> 0
            \<and> dc_shutdown_drain c \<noteq> 0;
          valid = valid \<and> is_none_or (dc_max_pending_events c) (\<lambda>m. m > 0)
            \<and> is_none_or (dc_max_oldest_pending_age c) (\<lambda>m. m \<noteq> 0)
      in if valid then Inr () else Inl InvalidConfiguration)"

section \<open>The backlog guard\<close>

record backlog_observation =
  bo_pending_count :: nat
  bo_oldest_pending_at :: "timestamp option"

record backlog_guard =
  bg_critical :: bool
  bg_max_pending_events :: "nat option"
  bg_max_oldest_pending_age :: "duration option"

definition BacklogGuard_new :: "dispatcher_config \<Rightarrow> backlog_guard" where
  "BacklogGuard_new c = \<lparr>bg_critical = False, bg_max_pending_events = dc_max_pending_events c,
     bg_max_oldest_pending_age = dc_max_oldest_pending_age c\<rparr>"

definition saturating_sub_i64 :: "int \<Rightarrow> int \<Rightarrow> int" where
  "saturating_sub_i64 a b = max (- (2 ^ 63)) (min (2 ^ 63 - 1) (a - b))"

definition pending_age :: "backlog_observation \<Rightarrow> timestamp \<Rightarrow> duration" where
  "pending_age ob now = (case bo_oldest_pending_at ob of
       None \<Rightarrow> 0
     | Some oldest \<Rightarrow> millis (nat (max (saturating_sub_i64 now oldest) 0)))"

definition guard_crossed :: "backlog_guard \<Rightarrow> backlog_observation \<Rightarrow> duration \<Rightarrow> bool" where
  "guard_crossed g ob age = (is_some_and (bg_max_pending_events g) (\<lambda>m. m \<le> bo_pending_count ob)
     \<or> is_some_and (bg_max_oldest_pending_age g) (\<lambda>m. m \<le> age))"

definition saturating_mul_u64 :: "nat \<Rightarrow> nat \<Rightarrow> nat" where
  "saturating_mul_u64 a b = min (a * b) u64_max"

definition guard_recovered :: "backlog_guard \<Rightarrow> backlog_observation \<Rightarrow> duration \<Rightarrow> bool" where
  "guard_recovered g ob age =
     (is_none_or (bg_max_pending_events g) (\<lambda>m. bo_pending_count ob \<le> saturating_mul_u64 m 4 div 5)
      \<and> is_none_or (bg_max_oldest_pending_age g)
          (\<lambda>m. age \<le> unwrap_or (checked_mul_duration m 4) m div 5))"

definition BacklogGuard_observe :: "backlog_observation \<Rightarrow> timestamp \<Rightarrow> backlog_guard \<Rightarrow> backlog_guard" where
  "BacklogGuard_observe ob now g =
     (let age = pending_age ob now;
          crossed = guard_crossed g ob age;
          recovered = guard_recovered g ob age;
          critical = (if bg_critical g then \<not> recovered else crossed)
      in if critical \<noteq> bg_critical g then g\<lparr>bg_critical := critical\<rparr> else g)"

datatype durable_outcome = Durable_Accepted | Durable_Duplicate
datatype event_sink_error = Sink_Unavailable | Sink_Ambiguous

definition BacklogGuardedEventSink_persist ::
  "(accepted_event \<Rightarrow> event_sink_error + durable_outcome) \<Rightarrow> backlog_guard \<Rightarrow> accepted_event
   \<Rightarrow> event_sink_error + durable_outcome" where
  "BacklogGuardedEventSink_persist inner g e =
     (if bg_critical g then Inl Sink_Unavailable else inner e)"

section \<open>Admission, workers and refill\<close>

record dispatcher =
  d_offers :: "pending_event list"
  d_queue :: "pending_event list"
  d_closed :: bool
  d_keys :: "event_key set"
  d_accepting :: bool
  d_cancelled :: bool
  d_running :: "event_key list"
  d_lost :: "event_key list"

text \<open>
  \<open>d_offers\<close> are the offers between their two critical sections; \<open>d_lost\<close> is a ghost list of the keys
  of work that was aborted, which the source never removes from \<open>d_keys\<close>.
\<close>

definition Dispatcher_init :: dispatcher where
  "Dispatcher_init = \<lparr>d_offers = [], d_queue = [], d_closed = False, d_keys = {}, d_accepting = True,
     d_cancelled = False, d_running = [], d_lost = []\<rparr>"

definition Dispatcher_is_accepting :: "dispatcher \<Rightarrow> bool" where
  "Dispatcher_is_accepting d = (d_accepting d \<and> \<not> d_cancelled d)"

definition queued_depth :: "dispatcher \<Rightarrow> nat" where
  "queued_depth d = length (d_queue d)"

datatype admission = Admission_Closed | Admission_Duplicate | Admission_Reserved

definition offer_admit :: "pending_event \<Rightarrow> dispatcher \<Rightarrow> admission \<times> dispatcher" where
  "offer_admit p d =
     (if \<not> Dispatcher_is_accepting d then (Admission_Closed, d)
      else if PendingEvent_key p \<in> d_keys d then (Admission_Duplicate, d)
      else (Admission_Reserved, d\<lparr>d_keys := insert (PendingEvent_key p) (d_keys d),
              d_offers := p # d_offers d\<rparr>))"

definition offer_send ::
  "dispatcher_config \<Rightarrow> pending_event \<Rightarrow> dispatcher \<Rightarrow> (pending_event + unit) \<times> dispatcher" where
  "offer_send c p d =
     (let d = d\<lparr>d_offers := remove1 p (d_offers d)\<rparr> in
      if d_closed d \<or> \<not> length (d_queue d) < dc_queue_capacity c
      then (Inl p, d\<lparr>d_keys := d_keys d - {PendingEvent_key p}\<rparr>)
      else (Inr (), d\<lparr>d_queue := d_queue d @ [p]\<rparr>))"

definition offer_pending_with_source ::
  "dispatcher_config \<Rightarrow> pending_event \<Rightarrow> dispatcher \<Rightarrow> (pending_event + unit) \<times> dispatcher" where
  "offer_pending_with_source c p d = (case offer_admit p d of
       (Admission_Closed, d') \<Rightarrow> (Inl p, d')
     | (Admission_Duplicate, d') \<Rightarrow> (Inr (), d')
     | (Admission_Reserved, d') \<Rightarrow> offer_send c p d')"

definition Dispatcher_offer ::
  "dispatcher_config \<Rightarrow> accepted_event \<Rightarrow> dispatcher \<Rightarrow> (accepted_event + unit) \<times> dispatcher" where
  "Dispatcher_offer c e d = (case offer_pending_with_source c (PendingEvent_fresh e) d of
     (r, d') \<Rightarrow> (map_err pe_event r, d'))"

definition spawn_work :: "dispatcher \<Rightarrow> dispatcher" where
  "spawn_work d = (case d_queue d of
       [] \<Rightarrow> d
     | p # q \<Rightarrow> d\<lparr>d_queue := q, d_running := d_running d @ [PendingEvent_key p]\<rparr>)"

text \<open>What \<^verbatim>\<open>join_next\<close> reports: a finished task with its key, or one that was cancelled.\<close>

datatype join_result = Join_Ok event_key bool | Join_Err event_key

definition complete_work :: "join_result option \<Rightarrow> dispatcher \<Rightarrow> dispatcher" where
  "complete_work completed d = (case completed of
       Some (Join_Ok k _) \<Rightarrow> d\<lparr>d_running := remove1 k (d_running d), d_keys := d_keys d - {k}\<rparr>
     | Some (Join_Err k) \<Rightarrow> d\<lparr>d_running := remove1 k (d_running d), d_lost := k # d_lost d\<rparr>
     | None \<Rightarrow> d)"

definition refill_wanted :: "dispatcher_config \<Rightarrow> dispatcher \<Rightarrow> nat" where
  "refill_wanted c d = min (dc_refill_target c - queued_depth d) (dc_refill_batch_size c)"

datatype event_backlog_error = Backlog_Unavailable | Backlog_InvalidData

definition offer_refill :: "dispatcher_config \<Rightarrow> pending_event \<Rightarrow> dispatcher \<Rightarrow> dispatcher" where
  "offer_refill c p d = snd (offer_pending_with_source c p d)"

text \<open>\<open>load_due\<close> is the backlog query with its timeout (\<open>None\<close>).\<close>

definition refill_once ::
  "(nat \<Rightarrow> event_key set \<Rightarrow> (event_backlog_error + pending_event list) option)
   \<Rightarrow> dispatcher_config \<Rightarrow> bool \<Rightarrow> dispatcher \<Rightarrow> (dispatcher_start_error + unit) \<times> dispatcher" where
  "refill_once load_due c startup d =
     (if dc_refill_target c \<le> queued_depth d then (Inr (), d)
      else case load_due (refill_wanted c d) (d_keys d) of
        Some (Inr events) \<Rightarrow> (Inr (), fold (offer_refill c) events d)
      | Some (Inl Backlog_InvalidData) \<Rightarrow> (if startup then Inl BacklogInvalidData else Inr (), d)
      | Some (Inl Backlog_Unavailable) \<Rightarrow> (if startup then Inl BacklogUnavailable else Inr (), d)
      | None \<Rightarrow> (if startup then Inl BacklogUnavailable else Inr (), d))"

definition stop_accepting :: "dispatcher \<Rightarrow> dispatcher" where
  "stop_accepting d = d\<lparr>d_accepting := False, d_closed := True\<rparr>"

section \<open>The drain\<close>

fun fill_workers :: "nat \<Rightarrow> dispatcher_config \<Rightarrow> dispatcher \<Rightarrow> dispatcher" where
  "fill_workers 0 c d = d"
| "fill_workers (Suc n) c d =
     (if length (d_running d) < dc_worker_concurrency c \<and> d_queue d \<noteq> []
      then fill_workers n c (spawn_work d) else d)"

definition abort_all :: "dispatcher \<Rightarrow> dispatcher" where
  "abort_all d = d\<lparr>d_running := [], d_lost := d_running d @ d_lost d\<rparr>"

text \<open>
  Each round of the drain sees the next joined task or the deadline. \<open>fuel\<close> counts rounds.
\<close>

datatype drain_run = Drain_Joined join_result | Drain_Deadline

fun drain_dispatcher ::
  "nat \<Rightarrow> (event_key list \<Rightarrow> drain_run) \<Rightarrow> dispatcher_config \<Rightarrow> dispatcher \<Rightarrow> dispatcher option" where
  "drain_dispatcher 0 joined c d = None"
| "drain_dispatcher (Suc fuel) joined c d =
     (let d = fill_workers (length (d_queue d)) c d in
      if d_running d = [] \<and> d_queue d = [] then Some d
      else case joined (d_running d) of
        Drain_Joined r \<Rightarrow> drain_dispatcher fuel joined c (complete_work (Some r) d)
      | Drain_Deadline \<Rightarrow> Some (abort_all d))"

section \<open>Interleavings\<close>

inductive dispatcher_step :: "dispatcher_config \<Rightarrow> dispatcher \<Rightarrow> dispatcher \<Rightarrow> bool" for c where
  admit: "offer_admit p d = (a, d') \<Longrightarrow> dispatcher_step c d d'"
| send: "p \<in> set (d_offers d) \<Longrightarrow> offer_send c p d = (r, d') \<Longrightarrow> dispatcher_step c d d'"
| spawn: "length (d_running d) < dc_worker_concurrency c \<Longrightarrow> dispatcher_step c d (spawn_work d)"
| complete: "k \<in> set (d_running d) \<Longrightarrow> dispatcher_step c d (complete_work (Some (Join_Ok k ok)) d)"
| task_error: "k \<in> set (d_running d) \<Longrightarrow> dispatcher_step c d (complete_work (Some (Join_Err k)) d)"
| cancel: "dispatcher_step c d (d\<lparr>d_cancelled := True\<rparr>)"
| stop: "dispatcher_step c d (stop_accepting d)"
| abort: "dispatcher_step c d (abort_all d)"

inductive dispatcher_reachable :: "dispatcher_config \<Rightarrow> dispatcher \<Rightarrow> bool" for c where
  start: "dispatcher_reachable c Dispatcher_init"
| step: "dispatcher_reachable c d \<Longrightarrow> dispatcher_step c d d' \<Longrightarrow> dispatcher_reachable c d'"

definition scheduled :: "dispatcher \<Rightarrow> event_key list" where
  "scheduled d = map PendingEvent_key (d_offers d) @ map PendingEvent_key (d_queue d)
     @ d_running d @ d_lost d"

definition dispatcher_inv :: "dispatcher_config \<Rightarrow> dispatcher \<Rightarrow> bool" where
  "dispatcher_inv c d = (distinct (scheduled d) \<and> d_keys d = set (scheduled d)
     \<and> length (d_queue d) \<le> dc_queue_capacity c \<and> length (d_running d) \<le> dc_worker_concurrency c)"

lemma dispatcher_inv_init: "dispatcher_inv c Dispatcher_init"
  by (simp add: dispatcher_inv_def scheduled_def Dispatcher_init_def)

section \<open>Scheduled keys are unique\<close>

lemma mset_keys_remove1:
  "p \<in> set ps \<Longrightarrow> mset (map PendingEvent_key ps)
     = add_mset (PendingEvent_key p) (mset (map PendingEvent_key (remove1 p ps)))"
  by (metis image_mset_add_mset insert_DiffM mset_map mset_remove1 set_mset_mset)

lemma mset_remove1_add: "k \<in> set ks \<Longrightarrow> mset ks = add_mset k (mset (remove1 k ks))"
  by simp

lemma inv_same:
  assumes "dispatcher_inv c d" "mset (scheduled d') = mset (scheduled d)" "d_keys d' = d_keys d"
    "length (d_queue d') \<le> dc_queue_capacity c" "length (d_running d') \<le> dc_worker_concurrency c"
  shows "dispatcher_inv c d'"
  using assms mset_eq_imp_distinct_iff[OF assms(2)] mset_eq_setD[OF assms(2)]
  by (simp add: dispatcher_inv_def)

lemma inv_without:
  assumes "dispatcher_inv c d" "mset (scheduled d) = add_mset k (mset (scheduled d'))"
    "d_keys d' = d_keys d - {k}"
    "length (d_queue d') \<le> dc_queue_capacity c" "length (d_running d') \<le> dc_worker_concurrency c"
  shows "dispatcher_inv c d'"
proof -
  have "mset (scheduled d) = mset (k # scheduled d')" using assms(2) by simp
  from mset_eq_imp_distinct_iff[OF this] mset_eq_setD[OF this] show ?thesis
    using assms by (auto simp: dispatcher_inv_def)
qed

lemma inv_lengths:
  "dispatcher_inv c d \<Longrightarrow> length (d_queue d) \<le> dc_queue_capacity c"
  "dispatcher_inv c d \<Longrightarrow> length (d_running d) \<le> dc_worker_concurrency c"
  by (simp_all add: dispatcher_inv_def)

lemma inv_admit:
  assumes "dispatcher_inv c d" "offer_admit p d = (a, d')"
  shows "dispatcher_inv c d'"
proof (cases "Dispatcher_is_accepting d \<and> PendingEvent_key p \<notin> d_keys d")
  case True
  then have d': "d' = d\<lparr>d_keys := insert (PendingEvent_key p) (d_keys d), d_offers := p # d_offers d\<rparr>"
    using assms(2) by (simp add: offer_admit_def)
  have s: "scheduled d' = PendingEvent_key p # scheduled d" by (simp add: d' scheduled_def)
  show ?thesis using assms(1) True unfolding dispatcher_inv_def s by (simp add: d')
next
  case False
  then have "d' = d" using assms(2) by (auto simp: offer_admit_def split: if_splits)
  with assms(1) show ?thesis by simp
qed

lemma offer_send_refused:
  "d_closed d \<or> \<not> length (d_queue d) < dc_queue_capacity c \<Longrightarrow> offer_send c p d = (Inl p,
     d\<lparr>d_offers := remove1 p (d_offers d), d_keys := d_keys d - {PendingEvent_key p}\<rparr>)"
  by (simp add: offer_send_def)

lemma offer_send_queued:
  "\<not> d_closed d \<Longrightarrow> length (d_queue d) < dc_queue_capacity c \<Longrightarrow> offer_send c p d = (Inr (),
     d\<lparr>d_offers := remove1 p (d_offers d), d_queue := d_queue d @ [p]\<rparr>)"
  by (simp add: offer_send_def)

lemma scheduled_offer:
  assumes "p \<in> set (d_offers d)"
  shows "mset (scheduled d) = add_mset (PendingEvent_key p)
    (mset (scheduled (d\<lparr>d_offers := remove1 p (d_offers d)\<rparr>)))"
proof -
  have "mset (scheduled d) = mset (map PendingEvent_key (d_offers d))
      + mset (map PendingEvent_key (d_queue d) @ d_running d @ d_lost d)"
    by (simp add: scheduled_def)
  also have "\<dots> = add_mset (PendingEvent_key p) (mset (map PendingEvent_key (remove1 p (d_offers d)))
      + mset (map PendingEvent_key (d_queue d) @ d_running d @ d_lost d))"
    by (simp only: mset_keys_remove1[OF assms] union_mset_add_mset_left)
  finally show ?thesis by (simp add: scheduled_def)
qed

lemma inv_send:
  assumes "dispatcher_inv c d" "p \<in> set (d_offers d)" "offer_send c p d = (r, d')"
  shows "dispatcher_inv c d'"
proof (cases "d_closed d \<or> \<not> length (d_queue d) < dc_queue_capacity c")
  case True
  from assms(3) have d': "d' = d\<lparr>d_offers := remove1 p (d_offers d), d_keys := d_keys d - {PendingEvent_key p}\<rparr>"
    unfolding offer_send_refused[OF True] by simp
  show ?thesis
  proof (rule inv_without[OF assms(1)])
    show "mset (scheduled d) = add_mset (PendingEvent_key p) (mset (scheduled d'))"
      unfolding scheduled_offer[OF assms(2)] d' by (simp add: scheduled_def)
  qed (use inv_lengths[OF assms(1)] in \<open>simp_all add: d'\<close>)
next
  case False
  then have f: "\<not> d_closed d" "length (d_queue d) < dc_queue_capacity c" by simp_all
  from assms(3) have d': "d' = d\<lparr>d_offers := remove1 p (d_offers d), d_queue := d_queue d @ [p]\<rparr>"
    unfolding offer_send_queued[OF f] by simp
  show ?thesis
  proof (rule inv_same[OF assms(1)])
    show "mset (scheduled d') = mset (scheduled d)"
      unfolding scheduled_offer[OF assms(2)] d' by (simp add: scheduled_def)
  qed (use inv_lengths[OF assms(1)] f in \<open>simp_all add: d'\<close>)
qed

lemma inv_spawn:
  assumes "dispatcher_inv c d" "length (d_running d) < dc_worker_concurrency c"
  shows "dispatcher_inv c (spawn_work d)"
proof (cases "d_queue d")
  case (Cons p q)
  then show ?thesis
    using inv_lengths[OF assms(1)] assms(2)
    by (intro inv_same[OF assms(1)]) (simp_all add: spawn_work_def scheduled_def)
qed (simp add: spawn_work_def assms(1))

lemma inv_complete:
  assumes "dispatcher_inv c d" "k \<in> set (d_running d)"
  shows "dispatcher_inv c (complete_work (Some (Join_Ok k ok)) d)"
    and "dispatcher_inv c (complete_work (Some (Join_Err k)) d)"
proof -
  have len: "length (remove1 k (d_running d)) \<le> dc_worker_concurrency c"
    using inv_lengths(2)[OF assms(1)] by (auto simp: length_remove1)
  show "dispatcher_inv c (complete_work (Some (Join_Ok k ok)) d)"
    using inv_lengths[OF assms(1)] len mset_remove1_add[OF assms(2)]
    by (intro inv_without[OF assms(1), of k]) (simp_all add: complete_work_def scheduled_def)
  show "dispatcher_inv c (complete_work (Some (Join_Err k)) d)"
    using inv_lengths[OF assms(1)] len mset_remove1_add[OF assms(2)]
    by (intro inv_same[OF assms(1)]) (simp_all add: complete_work_def scheduled_def)
qed

lemma inv_abort: "dispatcher_inv c d \<Longrightarrow> dispatcher_inv c (abort_all d)"
  by (rule inv_same) (auto simp: abort_all_def scheduled_def dest: inv_lengths)

lemma dispatcher_step_inv: "dispatcher_step c d d' \<Longrightarrow> dispatcher_inv c d \<Longrightarrow> dispatcher_inv c d'"
proof (induction rule: dispatcher_step.induct)
  case (cancel d)
  then show ?case by (simp add: dispatcher_inv_def scheduled_def)
next
  case (stop d)
  then show ?case by (simp add: dispatcher_inv_def scheduled_def stop_accepting_def)
qed (auto intro: inv_admit inv_send inv_spawn inv_complete inv_abort)

lemma dispatcher_reachable_inv: "dispatcher_reachable c d \<Longrightarrow> dispatcher_inv c d"
  by (induction rule: dispatcher_reachable.induct) (auto intro: dispatcher_inv_init dispatcher_step_inv)

inductive_simps dispatcher_reachable_unfold: "dispatcher_reachable c d"

lemma offer_is_two_steps:
  assumes "dispatcher_reachable c d"
  shows "dispatcher_reachable c (snd (offer_pending_with_source c p d))"
proof (cases "offer_admit p d")
  case (Pair a d')
  then have r: "dispatcher_reachable c d'" by (rule dispatcher_reachable.step[OF assms dispatcher_step.admit])
  show ?thesis
  proof (cases a)
    case Admission_Reserved
    then have "p \<in> set (d_offers d')" using Pair by (auto simp: offer_admit_def split: if_splits)
    moreover obtain res d'' where s: "offer_send c p d' = (res, d'')" by fastforce
    ultimately have "dispatcher_reachable c d''"
      by (rule dispatcher_reachable.step[OF r dispatcher_step.send])
    then show ?thesis by (simp add: offer_pending_with_source_def Pair Admission_Reserved s)
  qed (simp_all add: offer_pending_with_source_def Pair r)
qed

text \<open>
  C3. An event is never scheduled twice: in every state the dispatcher can reach, under every
  interleaving of offers from other threads with its own work, no key occurs twice among the pending
  offers, the queue, the running tasks and the aborted ones, the key set is exactly these keys, and the
  queue and the running tasks stay within the configured capacities.
\<close>
theorem dispatcher_schedules_once:
  assumes "dispatcher_reachable c d"
  shows "distinct (map PendingEvent_key (d_queue d) @ d_running d)
    \<and> d_keys d = set (scheduled d) \<and> distinct (scheduled d)
    \<and> length (d_queue d) \<le> dc_queue_capacity c \<and> length (d_running d) \<le> dc_worker_concurrency c
    \<and> (\<forall>p. PendingEvent_key p \<in> set (d_running d) \<longrightarrow>
         d_queue (snd (offer_pending_with_source c p d)) = d_queue d)"
proof -
  have inv: "dispatcher_inv c d" using assms by (rule dispatcher_reachable_inv)
  then have "PendingEvent_key p \<in> set (d_running d) \<Longrightarrow>
      d_queue (snd (offer_pending_with_source c p d)) = d_queue d" for p
    by (auto simp: offer_pending_with_source_def offer_admit_def dispatcher_inv_def scheduled_def)
  with inv show ?thesis by (auto simp: dispatcher_inv_def scheduled_def)
qed

definition pending_sample :: pending_event where
  "pending_sample = PendingEvent_fresh sample_event"

theorem dispatcher_schedules_once_witness:
  "let d = spawn_work (snd (offer_pending_with_source DispatcherConfig_default pending_sample Dispatcher_init)) in
   d_running d = [PendingEvent_key pending_sample]
   \<and> d_queue (snd (offer_pending_with_source DispatcherConfig_default pending_sample d)) = []"
proof -
  let ?c = DispatcherConfig_default
  let ?d = "spawn_work (snd (offer_pending_with_source ?c pending_sample Dispatcher_init))"
  have r: "d_running ?d = [PendingEvent_key pending_sample]" "d_queue ?d = []"
    by (simp_all add: offer_pending_with_source_def offer_admit_def offer_send_def spawn_work_def
        Dispatcher_init_def Dispatcher_is_accepting_def DispatcherConfig_default_def)
  have "dispatcher_reachable ?c (snd (offer_pending_with_source ?c pending_sample Dispatcher_init))"
    by (rule offer_is_two_steps) (rule dispatcher_reachable.start)
  then have "dispatcher_reachable ?c ?d"
    by (rule dispatcher_reachable.step[OF _ dispatcher_step.spawn])
      (simp add: offer_pending_with_source_def offer_admit_def offer_send_def Dispatcher_init_def
        Dispatcher_is_accepting_def DispatcherConfig_default_def)
  from dispatcher_schedules_once[OF this] show ?thesis by (simp add: r Let_def)
qed

section \<open>The drain terminates\<close>

definition in_work :: "dispatcher \<Rightarrow> event_key set" where
  "in_work d = PendingEvent_key ` set (d_queue d) \<union> set (d_running d)"

definition work_left :: "dispatcher \<Rightarrow> nat" where
  "work_left d = length (d_queue d) + length (d_running d)"

fun joined_key :: "join_result \<Rightarrow> event_key" where
  "joined_key (Join_Ok k ok) = k"
| "joined_key (Join_Err k) = k"

lemma spawn_work_keeps:
  "in_work (spawn_work d) = in_work d" "work_left (spawn_work d) = work_left d"
  "d_keys (spawn_work d) = d_keys d"
  by (auto simp: spawn_work_def in_work_def work_left_def split: list.splits)

lemma fill_workers_keeps:
  "in_work (fill_workers n c d) = in_work d \<and> work_left (fill_workers n c d) = work_left d
   \<and> d_keys (fill_workers n c d) = d_keys d"
  by (induction n c d rule: fill_workers.induct) (simp_all add: spawn_work_keeps)

lemma spawn_work_running: "d_queue d \<noteq> [] \<Longrightarrow> d_running (spawn_work d) \<noteq> []"
  by (simp add: spawn_work_def split: list.splits)

lemma fill_workers_running: "d_running d \<noteq> [] \<Longrightarrow> d_running (fill_workers n c d) \<noteq> []"
  by (induction n c d rule: fill_workers.induct) (simp_all add: spawn_work_running)

lemma fill_workers_starts:
  assumes "1 \<le> dc_worker_concurrency c" "work_left d \<noteq> 0"
  shows "d_running (fill_workers (length (d_queue d)) c d) \<noteq> []"
proof (cases "d_running d")
  case Nil
  then obtain n where n: "length (d_queue d) = Suc n" and q: "d_queue d \<noteq> []"
    using assms(2) by (cases "d_queue d") (auto simp: work_left_def)
  show ?thesis
    using Nil assms(1) q fill_workers_running[OF spawn_work_running[OF q]] by (simp add: n)
qed (simp add: fill_workers_running)

lemma complete_work_less:
  assumes "joined_key r \<in> set (d_running d)"
  shows "work_left (complete_work (Some r) d) < work_left d"
  using assms length_pos_if_in_set[OF assms]
  by (cases r) (simp_all add: complete_work_def work_left_def length_remove1)

lemma complete_work_keys:
  "k \<in> set (d_running d) \<Longrightarrow> d_keys d' = d_keys (complete_work (Some (Join_Ok k ok)) d)
     - in_work (complete_work (Some (Join_Ok k ok)) d) \<Longrightarrow> d_keys d' = d_keys d - in_work d"
  by (cases "k \<in> set (remove1 k (d_running d))")
    (auto simp: complete_work_def in_work_def dest: notin_set_remove1 in_set_remove1[THEN iffD1, rotated])

declare drain_dispatcher.simps(2) [simp del]

lemma drain_terminates_aux:
  assumes "1 \<le> dc_worker_concurrency c"
    "\<And>ks r. ks \<noteq> [] \<Longrightarrow> joined ks = Drain_Joined r \<Longrightarrow> joined_key r \<in> set ks"
    "work_left d < fuel"
  shows "\<exists>d'. drain_dispatcher fuel joined c d = Some d' \<and> d_running d' = []
    \<and> ((\<forall>ks. \<exists>k ok. joined ks = Drain_Joined (Join_Ok k ok)) \<longrightarrow> d_queue d' = [] \<and> d_keys d' = d_keys d - in_work d)"
  using assms(3)
proof (induction fuel arbitrary: d)
  case (Suc fuel)
  define e where "e = fill_workers (length (d_queue d)) c d"
  have e: "in_work e = in_work d" "work_left e = work_left d" "d_keys e = d_keys d"
    using fill_workers_keeps[of "length (d_queue d)" c d] by (simp_all add: e_def)
  have unfold: "drain_dispatcher (Suc fuel) joined c d = (if d_running e = [] \<and> d_queue e = [] then Some e
      else case joined (d_running e) of
        Drain_Joined r \<Rightarrow> drain_dispatcher fuel joined c (complete_work (Some r) e)
      | Drain_Deadline \<Rightarrow> Some (abort_all e))"
    unfolding e_def by (simp only: drain_dispatcher.simps Let_def)
  show ?case
  proof (cases "work_left e = 0")
    case True
    then have "d_running e = []" "d_queue e = []" by (simp_all add: work_left_def)
    then show ?thesis using e(1,3) by (simp add: unfold) (simp add: in_work_def)
  next
    case False
    then have r: "d_running e \<noteq> []" using fill_workers_starts[OF assms(1)] e(2) by (simp add: e_def)
    show ?thesis
    proof (cases "joined (d_running e)")
      case (Drain_Joined res)
      then have k: "joined_key res \<in> set (d_running e)" using assms(2)[OF r] by simp
      have "work_left (complete_work (Some res) e) < fuel"
        using complete_work_less[OF k] Suc.prems e(2) by simp
      from Suc.IH[OF this] obtain d' where d': "drain_dispatcher fuel joined c (complete_work (Some res) e) = Some d'"
        "d_running d' = []" "(\<forall>ks. \<exists>k ok. joined ks = Drain_Joined (Join_Ok k ok)) \<longrightarrow>
          d_queue d' = [] \<and> d_keys d' = d_keys (complete_work (Some res) e) - in_work (complete_work (Some res) e)"
        by blast
      have "d_queue d' = [] \<and> d_keys d' = d_keys d - in_work d"
        if all: "\<forall>ks. \<exists>k ok. joined ks = Drain_Joined (Join_Ok k ok)"
      proof -
        obtain k' ok where res: "res = Join_Ok k' ok"
          using all[rule_format, of "d_running e"] Drain_Joined by auto
        show ?thesis using d'(3) all complete_work_keys[of k' e d' ok] k e by (simp add: res)
      qed
      then show ?thesis using d'(1,2) r by (simp add: unfold Drain_Joined)
    next
      case Drain_Deadline
      then have "\<not> (\<forall>ks. \<exists>k ok. joined ks = Drain_Joined (Join_Ok k ok))"
        by (metis drain_run.distinct(1))
      with Drain_Deadline r show ?thesis by (simp add: unfold abort_all_def) blast
    qed
  qed
qed simp

lemma dispatcher_config_valid:
  assumes "validate_dispatcher_config c = Inr ()"
  shows "1 \<le> dc_worker_concurrency c" "dc_refill_target c \<le> dc_queue_capacity c"
    "is_none_or (dc_max_pending_events c) (\<lambda>m. m > 0)"
    "is_none_or (dc_max_oldest_pending_age c) (\<lambda>m. m \<noteq> 0)"
  using assms by (auto simp: validate_dispatcher_config_def Let_def split: if_splits)


lemma default_dispatcher_config_valid: "validate_dispatcher_config DispatcherConfig_default = Inr ()"
  by (simp add: validate_dispatcher_config_def DispatcherConfig_default_def Let_def secs_def millis_def)


section \<open>The guard has hysteresis\<close>

lemma recovered_below:
  "0 < m \<Longrightarrow> m \<le> u64_max \<Longrightarrow> saturating_mul_u64 m 4 div 5 < m"
  by (auto simp: saturating_mul_u64_def min_def)

lemma recovered_age_below: "0 < m \<Longrightarrow> unwrap_or (checked_mul_duration m 4) m div 5 < m"
  by (auto simp: checked_mul_duration_def)

definition guard_ok :: "backlog_guard \<Rightarrow> bool" where
  "guard_ok g = (is_none_or (bg_max_pending_events g) (\<lambda>m. 0 < m \<and> m \<le> u64_max)
     \<and> is_none_or (bg_max_oldest_pending_age g) (\<lambda>m. 0 < m))"

lemma crossed_not_recovered: "guard_ok g \<Longrightarrow> guard_crossed g ob age \<Longrightarrow> \<not> guard_recovered g ob age"
  using recovered_below recovered_age_below
  by (cases "bg_max_pending_events g"; cases "bg_max_oldest_pending_age g")
    (auto simp: guard_ok_def guard_crossed_def guard_recovered_def dest: le_less_trans leD)

lemma observe_fields [simp]:
  "bg_max_pending_events (BacklogGuard_observe ob now g) = bg_max_pending_events g"
  "bg_max_oldest_pending_age (BacklogGuard_observe ob now g) = bg_max_oldest_pending_age g"
  by (simp_all add: BacklogGuard_observe_def Let_def)

lemma observe_critical:
  "bg_critical (BacklogGuard_observe ob now g) =
     (if bg_critical g then \<not> guard_recovered g ob (pending_age ob now) else guard_crossed g ob (pending_age ob now))"
  by (simp add: BacklogGuard_observe_def Let_def)

text \<open>
  The backlog guard is consistent and has hysteresis: with positive limits, an observation
  over a limit always leaves it critical (then every event is refused as unavailable), one at or below
  four fifths of every limit always leaves it open, and in between it keeps its state; without limits
  it never becomes critical.
\<close>
theorem backlog_guard_hysteresis:
  assumes "guard_ok g"
  shows "let g' = BacklogGuard_observe ob now g; age = pending_age ob now in
    (guard_crossed g ob age \<longrightarrow> bg_critical g' \<and> BacklogGuardedEventSink_persist inner g' e = Inl Sink_Unavailable)
    \<and> (guard_recovered g ob age \<longrightarrow> \<not> bg_critical g' \<and> BacklogGuardedEventSink_persist inner g' e = inner e)
    \<and> (\<not> guard_crossed g ob age \<and> \<not> guard_recovered g ob age \<longrightarrow> bg_critical g' = bg_critical g)
    \<and> (bg_max_pending_events g = None \<and> bg_max_oldest_pending_age g = None \<and> \<not> bg_critical g \<longrightarrow> \<not> bg_critical g')
    \<and> guard_ok g'"
  using crossed_not_recovered[OF assms, of ob "pending_age ob now"] assms
  by (auto simp: Let_def observe_critical BacklogGuardedEventSink_persist_def guard_crossed_def guard_ok_def)

theorem backlog_guard_hysteresis_witness:
  "bg_critical (BacklogGuard_observe \<lparr>bo_pending_count = 85, bo_oldest_pending_at = None\<rparr> 0
     (BacklogGuard_observe \<lparr>bo_pending_count = 100, bo_oldest_pending_at = None\<rparr> 0
       \<lparr>bg_critical = False, bg_max_pending_events = Some 100, bg_max_oldest_pending_age = None\<rparr>))"
proof -
  let ?g = "\<lparr>bg_critical = False, bg_max_pending_events = Some 100, bg_max_oldest_pending_age = None\<rparr>"
  let ?o = "\<lambda>n. \<lparr>bo_pending_count = n, bo_oldest_pending_at = None\<rparr>"
  have ok: "guard_ok ?g" by (simp add: guard_ok_def)
  have "bg_critical (BacklogGuard_observe (?o 100) 0 ?g)" "guard_ok (BacklogGuard_observe (?o 100) 0 ?g)"
    using backlog_guard_hysteresis[OF ok, of "?o 100" 0] by (simp_all add: Let_def guard_crossed_def)
  with backlog_guard_hysteresis[of "BacklogGuard_observe (?o 100) 0 ?g" "?o 85" 0]
  show ?thesis by (simp add: Let_def guard_crossed_def guard_recovered_def saturating_mul_u64_def)
qed

section \<open>Refills fit the queue\<close>

lemma offer_refill_fits:
  assumes "Dispatcher_is_accepting d" "\<not> d_closed d" "length (d_queue d) < dc_queue_capacity c"
  shows "let d' = offer_refill c p d in PendingEvent_key p \<in> d_keys d' \<and> d_keys d \<subseteq> d_keys d'
    \<and> length (d_queue d') \<le> Suc (length (d_queue d)) \<and> Dispatcher_is_accepting d' \<and> \<not> d_closed d'"
  using assms by (auto simp: offer_refill_def offer_pending_with_source_def offer_admit_def Let_def
      offer_send_queued Dispatcher_is_accepting_def)

lemma fold_offer_refill:
  "Dispatcher_is_accepting d \<Longrightarrow> \<not> d_closed d \<Longrightarrow> length (d_queue d) + length ps \<le> dc_queue_capacity c \<Longrightarrow>
   PendingEvent_key ` set ps \<subseteq> d_keys (fold (offer_refill c) ps d) \<and> d_keys d \<subseteq> d_keys (fold (offer_refill c) ps d)
   \<and> length (d_queue (fold (offer_refill c) ps d)) \<le> length (d_queue d) + length ps"
proof (induction ps arbitrary: d)
  case (Cons p ps)
  define d' where "d' = offer_refill c p d"
  have d': "PendingEvent_key p \<in> d_keys d'" "d_keys d \<subseteq> d_keys d'" "length (d_queue d') \<le> Suc (length (d_queue d))"
    "Dispatcher_is_accepting d'" "\<not> d_closed d'"
    using offer_refill_fits[of d c p] Cons.prems by (simp_all add: Let_def d'_def)
  have "length (d_queue d') + length ps \<le> dc_queue_capacity c" using d'(3) Cons.prems(3) by simp
  from Cons.IH[OF d'(4,5) this] d' show ?case by (auto simp flip: d'_def)
qed simp

lemma refill_schedules_all:
  assumes "validate_dispatcher_config c = Inr ()" "Dispatcher_is_accepting d" "\<not> d_closed d"
    "load_due (refill_wanted c d) (d_keys d) = Some (Inr ps)" "length ps \<le> refill_wanted c d"
    "queued_depth d < dc_refill_target c"
  shows "PendingEvent_key ` set ps \<subseteq> d_keys (snd (refill_once load_due c startup d))
    \<and> length (d_queue (snd (refill_once load_due c startup d))) \<le> dc_refill_target c"
proof -
  have "length (d_queue d) + length ps \<le> dc_refill_target c"
    using assms(5,6) by (auto simp: refill_wanted_def queued_depth_def)
  moreover have "dc_refill_target c \<le> dc_queue_capacity c" by (rule dispatcher_config_valid(2)[OF assms(1)])
  ultimately show ?thesis
    using fold_offer_refill[OF assms(2,3), of ps c] assms(4,6) by (simp add: refill_once_def)
qed

end
