(* ===== verification/Signals.thy ===== *)
theory Signals
  imports Identities
begin

text \<open>
  Values of structured logs and spans, \<^verbatim>\<open>crates/domain/src/signals.rs\<close>: trace and span identifiers,
  deterministic record identifiers, severities and span operation classes with their codes and names.
  \<^verbatim>\<open>hex\<close> and \<^verbatim>\<open>blake3\<close> are parameters. The performance bucket (floating point) is left out.
\<close>

datatype signal_primitive_error =
  Signal_InvalidTraceId | Signal_InvalidSpanId | Signal_InvalidTime | Signal_InvalidText

type_synonym trace_id = bytes
type_synonym span_id = bytes
type_synonym log_id = bytes
type_synonym span_record_id = bytes

section \<open>Identifiers\<close>

text \<open>\<^verbatim>\<open>hex::decode_to_slice\<close> into an array of \<open>n\<close> bytes.\<close>

definition hex_digits_to :: "(string \<Rightarrow> bytes option) \<Rightarrow> nat \<Rightarrow> string \<Rightarrow> bytes option" where
  "hex_digits_to hex_decode n v =
     (if length v \<noteq> 2 * n \<or> \<not> list_all is_ascii_hexdigit v then None else hex_decode v)"

definition TraceId_parse :: "(string \<Rightarrow> bytes option) \<Rightarrow> string \<Rightarrow> signal_primitive_error + trace_id" where
  "TraceId_parse hex_decode v = (case hex_digits_to hex_decode 16 v of
       None \<Rightarrow> Inl Signal_InvalidTraceId
     | Some b \<Rightarrow> if b = replicate 16 0 then Inl Signal_InvalidTraceId else Inr b)"

definition SpanId_parse :: "(string \<Rightarrow> bytes option) \<Rightarrow> string \<Rightarrow> signal_primitive_error + span_id" where
  "SpanId_parse hex_decode v = (case hex_digits_to hex_decode 8 v of
       None \<Rightarrow> Inl Signal_InvalidSpanId
     | Some b \<Rightarrow> if b = replicate 8 0 then Inl Signal_InvalidSpanId else Inr b)"

definition LogId_parse :: "(string \<Rightarrow> bytes option) \<Rightarrow> string \<Rightarrow> primitive_error + log_id" where
  "LogId_parse hex_decode v = ok_or PE_InvalidEventId (hex_digits_to hex_decode 16 v)"

definition log_preimage :: "project_id \<Rightarrow> int \<Rightarrow> bytes \<Rightarrow> bytes" where
  "log_preimage project occurred_at_ns payload =
     as_bytes ''structured-log/v1'' @ be_bytes_signed 4 project @ be_bytes_signed 8 occurred_at_ns @ payload"

definition LogId_deterministic ::
  "(bytes \<Rightarrow> bytes) \<Rightarrow> project_id \<Rightarrow> timestamp \<Rightarrow> int \<Rightarrow> bytes \<Rightarrow> log_id" where
  "LogId_deterministic blake3 project received_at occurred_at_ns payload =
     be_bytes_signed 8 received_at @ take 8 (blake3 (log_preimage project occurred_at_ns payload))"

definition span_preimage :: "project_id \<Rightarrow> trace_id \<Rightarrow> span_id \<Rightarrow> bytes" where
  "span_preimage project trace span = as_bytes ''span-record/v1'' @ be_bytes_signed 4 project @ trace @ span"

definition SpanRecordId_deterministic ::
  "(bytes \<Rightarrow> bytes) \<Rightarrow> project_id \<Rightarrow> trace_id \<Rightarrow> span_id \<Rightarrow> span_record_id" where
  "SpanRecordId_deterministic blake3 project trace span = take 16 (blake3 (span_preimage project trace span))"

section \<open>Severities and operation classes\<close>

datatype log_severity = Sev_Trace | Sev_Debug | Sev_Info | Sev_Warn | Sev_Error | Sev_Fatal

definition LogSeverity_from_wire :: "string \<Rightarrow> log_severity" where
  "LogSeverity_from_wire v =
     (let v = to_ascii_lowercase v in
      if v = ''trace'' then Sev_Trace
      else if v = ''debug'' then Sev_Debug
      else if v = ''warn'' \<or> v = ''warning'' then Sev_Warn
      else if v = ''error'' then Sev_Error
      else if v = ''fatal'' then Sev_Fatal
      else Sev_Info)"

fun LogSeverity_as_str :: "log_severity \<Rightarrow> string" where
  "LogSeverity_as_str Sev_Trace = ''trace''"
| "LogSeverity_as_str Sev_Debug = ''debug''"
| "LogSeverity_as_str Sev_Info = ''info''"
| "LogSeverity_as_str Sev_Warn = ''warn''"
| "LogSeverity_as_str Sev_Error = ''error''"
| "LogSeverity_as_str Sev_Fatal = ''fatal''"

fun LogSeverity_code :: "log_severity \<Rightarrow> int" where
  "LogSeverity_code Sev_Trace = 1"
| "LogSeverity_code Sev_Debug = 2"
| "LogSeverity_code Sev_Info = 3"
| "LogSeverity_code Sev_Warn = 4"
| "LogSeverity_code Sev_Error = 5"
| "LogSeverity_code Sev_Fatal = 6"

definition LogSeverity_from_code :: "int \<Rightarrow> signal_primitive_error + log_severity" where
  "LogSeverity_from_code v =
     (if v = 1 then Inr Sev_Trace else if v = 2 then Inr Sev_Debug else if v = 3 then Inr Sev_Info
      else if v = 4 then Inr Sev_Warn else if v = 5 then Inr Sev_Error else if v = 6 then Inr Sev_Fatal
      else Inl Signal_InvalidText)"

datatype span_operation_class =
    Op_Other | Op_HttpServer | Op_HttpClient | Op_Database | Op_Cache | Op_Queue | Op_File | Op_Rpc
  | Op_Function | Op_Task | Op_Ui | Op_Resource

definition str_contains :: "string \<Rightarrow> string \<Rightarrow> bool" where
  "str_contains v w = list_ex (\<lambda>i. prefix w (drop i v)) [0..<Suc (length v)]"

definition SpanOperationClass_from_operation :: "string \<Rightarrow> span_operation_class" where
  "SpanOperationClass_from_operation v =
     (let v = to_ascii_lowercase v in
      if prefix ''http.server'' v \<or> prefix ''server'' v then Op_HttpServer
      else if prefix ''http'' v then Op_HttpClient
      else if prefix ''db'' v \<or> str_contains v ''database'' then Op_Database
      else if prefix ''cache'' v then Op_Cache
      else if prefix ''queue'' v \<or> prefix ''messaging'' v then Op_Queue
      else if prefix ''file'' v then Op_File
      else if prefix ''rpc'' v then Op_Rpc
      else if prefix ''function'' v then Op_Function
      else if prefix ''task'' v then Op_Task
      else if prefix ''ui'' v \<or> prefix ''navigation'' v then Op_Ui
      else if prefix ''resource'' v then Op_Resource
      else Op_Other)"

fun SpanOperationClass_code :: "span_operation_class \<Rightarrow> int" where
  "SpanOperationClass_code Op_Other = 0"
| "SpanOperationClass_code Op_HttpServer = 1"
| "SpanOperationClass_code Op_HttpClient = 2"
| "SpanOperationClass_code Op_Database = 3"
| "SpanOperationClass_code Op_Cache = 4"
| "SpanOperationClass_code Op_Queue = 5"
| "SpanOperationClass_code Op_File = 6"
| "SpanOperationClass_code Op_Rpc = 7"
| "SpanOperationClass_code Op_Function = 8"
| "SpanOperationClass_code Op_Task = 9"
| "SpanOperationClass_code Op_Ui = 10"
| "SpanOperationClass_code Op_Resource = 11"

definition SpanOperationClass_from_code :: "int \<Rightarrow> signal_primitive_error + span_operation_class" where
  "SpanOperationClass_from_code v =
     (if v = 0 then Inr Op_Other else if v = 1 then Inr Op_HttpServer
      else if v = 2 then Inr Op_HttpClient else if v = 3 then Inr Op_Database
      else if v = 4 then Inr Op_Cache else if v = 5 then Inr Op_Queue
      else if v = 6 then Inr Op_File else if v = 7 then Inr Op_Rpc
      else if v = 8 then Inr Op_Function else if v = 9 then Inr Op_Task
      else if v = 10 then Inr Op_Ui else if v = 11 then Inr Op_Resource
      else Inl Signal_InvalidText)"

fun SpanOperationClass_as_str :: "span_operation_class \<Rightarrow> string" where
  "SpanOperationClass_as_str Op_Other = ''other''"
| "SpanOperationClass_as_str Op_HttpServer = ''http.server''"
| "SpanOperationClass_as_str Op_HttpClient = ''http.client''"
| "SpanOperationClass_as_str Op_Database = ''database''"
| "SpanOperationClass_as_str Op_Cache = ''cache''"
| "SpanOperationClass_as_str Op_Queue = ''queue''"
| "SpanOperationClass_as_str Op_File = ''file''"
| "SpanOperationClass_as_str Op_Rpc = ''rpc''"
| "SpanOperationClass_as_str Op_Function = ''function''"
| "SpanOperationClass_as_str Op_Task = ''task''"
| "SpanOperationClass_as_str Op_Ui = ''ui''"
| "SpanOperationClass_as_str Op_Resource = ''resource''"

section \<open>Records\<close>

type_synonym signal_body = bytes

record log_record =
  lr_id :: log_id
  lr_project_id :: project_id
  lr_received_at :: timestamp
  lr_occurred_at_ns :: int
  lr_severity :: log_severity
  lr_message :: string
  lr_trace_id :: "trace_id option"
  lr_span_id :: "span_id option"
  lr_environment :: "string option"
  lr_release :: "string option"
  lr_service :: "string option"
  lr_body :: signal_body

record span_record =
  sn_id :: span_record_id
  sn_project_id :: project_id
  sn_received_at :: timestamp
  sn_started_at_ns :: int
  sn_duration_ns :: int
  sn_trace_id :: trace_id
  sn_span_id :: span_id
  sn_parent_span_id :: "span_id option"
  sn_is_segment :: bool
  sn_operation_class :: span_operation_class
  sn_operation :: string
  sn_status :: string
  sn_name :: string
  sn_environment :: "string option"
  sn_release :: "string option"
  sn_service :: "string option"
  sn_insight_flags :: nat
  sn_body :: signal_body

section \<open>Codes, names and identifiers\<close>

interpretation severity: strict_wire_codec LogSeverity_code LogSeverity_from_code
proof
  show "LogSeverity_from_code (LogSeverity_code s) = Inr s" for s
    by (cases s) (simp_all add: LogSeverity_from_code_def)
  show "LogSeverity_from_code v = Inr s \<Longrightarrow> LogSeverity_code s = v" for v s
    by (auto simp: LogSeverity_from_code_def split: if_splits)
qed

interpretation operation: strict_wire_codec SpanOperationClass_code SpanOperationClass_from_code
proof
  show "SpanOperationClass_from_code (SpanOperationClass_code s) = Inr s" for s
    by (cases s) (simp_all add: SpanOperationClass_from_code_def)
  show "SpanOperationClass_from_code v = Inr s \<Longrightarrow> SpanOperationClass_code s = v" for v s
    by (auto simp: SpanOperationClass_from_code_def split: if_splits)
qed

lemma severity_wire_round_trip: "LogSeverity_from_wire (LogSeverity_as_str s) = s"
  by (cases s) (simp_all add: LogSeverity_from_wire_def to_ascii_lowercase_def ascii_lower_def
      is_ascii_uppercase_def)

lemma operation_wire_round_trip: "SpanOperationClass_from_operation (SpanOperationClass_as_str s) = s"
  by (cases s) (simp_all add: SpanOperationClass_from_operation_def to_ascii_lowercase_def ascii_lower_def
      is_ascii_uppercase_def str_contains_def)

lemma severity_case_insensitive: "LogSeverity_from_wire (to_ascii_lowercase v) = LogSeverity_from_wire v"
  by (simp add: LogSeverity_from_wire_def)

lemma hex_digits_to_encode:
  "hex_laws encode decode \<Longrightarrow> length b = n \<Longrightarrow> hex_digits_to decode n (encode b) = Some b"
  by (auto simp: hex_laws_def hex_digits_to_def list_all_iff lower_hex_hexdigit)

lemma trace_id_round_trip:
  "hex_laws encode decode \<Longrightarrow> length b = 16 \<Longrightarrow> b \<noteq> replicate 16 0 \<Longrightarrow> TraceId_parse decode (encode b) = Inr b"
  by (simp add: TraceId_parse_def hex_digits_to_encode)

lemma span_id_round_trip:
  "hex_laws encode decode \<Longrightarrow> length b = 8 \<Longrightarrow> b \<noteq> replicate 8 0 \<Longrightarrow> SpanId_parse decode (encode b) = Inr b"
  by (simp add: SpanId_parse_def hex_digits_to_encode)

lemma log_id_round_trip:
  "hex_laws encode decode \<Longrightarrow> length b = 16 \<Longrightarrow> LogId_parse decode (encode b) = Inr b"
  by (simp add: LogId_parse_def hex_digits_to_encode)

lemma zero_ids_refused:
  "hex_laws encode decode \<Longrightarrow> TraceId_parse decode (encode (replicate 16 0)) = Inl Signal_InvalidTraceId"
  "hex_laws encode decode \<Longrightarrow> SpanId_parse decode (encode (replicate 8 0)) = Inl Signal_InvalidSpanId"
  by (simp_all add: TraceId_parse_def SpanId_parse_def hex_digits_to_encode)

datatype signal_key = K_Log project_id int bytes | K_Span project_id trace_id span_id

fun signal_preimage :: "signal_key \<Rightarrow> bytes" where
  "signal_preimage (K_Log p t payload) = log_preimage p t payload"
| "signal_preimage (K_Span p tr sp) = span_preimage p tr sp"

fun signal_key_ok :: "signal_key \<Rightarrow> bool" where
  "signal_key_ok (K_Log p t payload) = (project_id_ok p \<and> - (2 ^ 63) \<le> t \<and> t < 2 ^ 63)"
| "signal_key_ok (K_Span p tr sp) = (project_id_ok p \<and> length tr = 16 \<and> length sp = 8)"

lemma log_span_domains: "as_bytes ''structured-log/v1'' @ xs \<noteq> as_bytes ''span-record/v1'' @ ys"
  by (simp add: as_bytes_def)

interpretation signal: identity_scheme signal_preimage signal_key_ok
proof
  fix k k'
  assume ok: "signal_key_ok k" "signal_key_ok k'" and eq: "signal_preimage k = signal_preimage k'"
  have time: "be_bytes_signed 8 t = be_bytes_signed 8 u \<longleftrightarrow> t = u"
    if "- (2 ^ 63) \<le> t" "t < 2 ^ 63" "- (2 ^ 63) \<le> u" "u < 2 ^ 63" for t u :: int
    using that by (intro be_bytes_signed_inj) simp_all
  show "k = k'"
  proof (cases k; cases k')
    fix p t b p' t' b'
    assume "k = K_Log p t b" "k' = K_Log p' t' b'"
    with ok eq show ?thesis by (simp add: log_preimage_def project_bytes_inj time)
  next
    fix p a b p' a' b'
    assume "k = K_Span p a b" "k' = K_Span p' a' b'"
    with ok eq show ?thesis by (simp add: span_preimage_def project_bytes_inj)
  next
    fix p t b p' a' b'
    assume "k = K_Log p t b" "k' = K_Span p' a' b'"
    with eq log_span_domains show ?thesis by (simp add: log_preimage_def span_preimage_def)
  next
    fix p a b p' t' b'
    assume "k = K_Span p a b" "k' = K_Log p' t' b'"
    with eq log_span_domains show ?thesis by (metis log_preimage_def span_preimage_def signal_preimage.simps)
  qed
qed

text \<open>
  Log and span record identifiers are deterministic and unambiguous: the hashed bytes of a log
  or span determine which of the two it is and all of its inputs, the two identifiers are functions of
  those bytes (and, for logs, of the receive time, which every identifier determines), so redelivered
  records get the same identifier and different ones collide only with the hash.
\<close>
theorem signal_ids_unambiguous:
  assumes "signal_key_ok k" "signal_key_ok k'" "timestamp_ok r" "timestamp_ok r'"
  shows "(signal_preimage k = signal_preimage k' \<longleftrightarrow> k = k')
    \<and> LogId_deterministic H p r t b = be_bytes_signed 8 r @ take 8 (H (signal_preimage (K_Log p t b)))
    \<and> SpanRecordId_deterministic H p tr sp = take 16 (H (signal_preimage (K_Span p tr sp)))
    \<and> (LogId_deterministic H p r t b = LogId_deterministic H p' r' t' b' \<longrightarrow> r = r')"
  using signal.preimage_iff[OF assms(1,2)] timestamp_bytes_inj[OF assms(3,4)]
  by (auto simp: LogId_deterministic_def SpanRecordId_deterministic_def)

theorem signal_ids_unambiguous_witness:
  "signal_preimage (K_Log 7 1 [1]) \<noteq> signal_preimage (K_Log 7 2 [1])"
proof -
  have "signal_key_ok (K_Log 7 1 [1])" "signal_key_ok (K_Log 7 2 [1])" "timestamp_ok 0"
    by (simp_all add: project_id_ok_def i32_ok_def timestamp_ok_def MIN_TIMESTAMP_MILLIS_def
        MAX_TIMESTAMP_MILLIS_def)
  from signal_ids_unambiguous[OF this(1,2,3,3)] show ?thesis by simp
qed

end
