(* ===== verification/Writers.thy ===== *)
theory Writers
  imports Dispatcher Signals
begin

text \<open>
  Durable micro-batching: the event, log and span writers
  (\<^verbatim>\<open>crates/application/src/writer.rs\<close>, \<^verbatim>\<open>log_writer.rs\<close>, \<^verbatim>\<open>span_writer.rs\<close>), which share one actor
  loop, and the session writer (\<^verbatim>\<open>session_writer.rs\<close>).

  What the actor's select sees is a list of wake-ups; the store is a function on its own state, and
  no answer in time is \<open>None\<close>. A response channel is a number, an answer a pair of that number and the
  result sent; a response that is dropped has no answer.
\<close>

section \<open>Commands and batches\<close>

record 'p command =
  cmd_payload :: 'p
  cmd_bytes :: nat
  cmd_response :: nat

record 'p batch =
  bt_events :: "'p list"
  bt_responses :: "nat list"
  bt_bytes :: nat

definition saturating_add_usize :: "nat \<Rightarrow> nat \<Rightarrow> nat" where
  "saturating_add_usize a b = min (a + b) u64_max"

definition Batch_new :: "'p command \<Rightarrow> 'p batch" where
  "Batch_new c = \<lparr>bt_events = [cmd_payload c], bt_responses = [cmd_response c], bt_bytes = cmd_bytes c\<rparr>"

definition Batch_push :: "'p command \<Rightarrow> 'p batch \<Rightarrow> 'p batch" where
  "Batch_push c b = \<lparr>bt_events = bt_events b @ [cmd_payload c],
     bt_responses = bt_responses b @ [cmd_response c],
     bt_bytes = saturating_add_usize (bt_bytes b) (cmd_bytes c)\<rparr>"

record writer_config =
  wc_channel_capacity :: nat
  wc_max_wait :: duration
  wc_max_documents :: nat
  wc_max_bytes :: nat
  wc_operation_timeout :: duration
  wc_shutdown_drain :: duration

definition WriterConfig_default :: writer_config where
  "WriterConfig_default = \<lparr>wc_channel_capacity = 512, wc_max_wait = millis 20, wc_max_documents = 250,
     wc_max_bytes = 8 * 1024 * 1024, wc_operation_timeout = secs 10, wc_shutdown_drain = secs 10\<rparr>"

definition durations_ok :: "writer_config \<Rightarrow> bool" where
  "durations_ok c = (wc_max_wait c \<noteq> 0 \<and> wc_operation_timeout c \<noteq> 0 \<and> wc_shutdown_drain c \<noteq> 0)"

definition validate_event_writer_config :: "writer_config \<Rightarrow> bool" where
  "validate_event_writer_config c = (0 < wc_channel_capacity c
     \<and> (100 \<le> wc_max_documents c \<and> wc_max_documents c \<le> 500) \<and> 0 < wc_max_bytes c \<and> durations_ok c)"

definition LOG_RECORD_OVERHEAD_BYTES :: nat where "LOG_RECORD_OVERHEAD_BYTES = 192"
definition SPAN_RECORD_OVERHEAD_BYTES :: nat where "SPAN_RECORD_OVERHEAD_BYTES = 224"

definition validate_log_writer_config :: "writer_config \<Rightarrow> bool" where
  "validate_log_writer_config c = (0 < wc_channel_capacity c
     \<and> (1 \<le> wc_max_documents c \<and> wc_max_documents c \<le> 500)
     \<and> LOG_RECORD_OVERHEAD_BYTES \<le> wc_max_bytes c \<and> durations_ok c)"

definition validate_span_writer_config :: "writer_config \<Rightarrow> bool" where
  "validate_span_writer_config c = (0 < wc_channel_capacity c
     \<and> (1 \<le> wc_max_documents c \<and> wc_max_documents c \<le> 500)
     \<and> SPAN_RECORD_OVERHEAD_BYTES \<le> wc_max_bytes c \<and> durations_ok c)"

definition EventBatch_can_push :: "writer_config \<Rightarrow> 'p batch \<Rightarrow> 'p command \<Rightarrow> bool" where
  "EventBatch_can_push c b cmd = (length (bt_events b) < wc_max_documents c
     \<and> (bt_events b = [] \<or> saturating_add_usize (bt_bytes b) (cmd_bytes cmd) \<le> wc_max_bytes c))"

definition LogBatch_can_push :: "writer_config \<Rightarrow> 'p batch \<Rightarrow> 'p command \<Rightarrow> bool" where
  "LogBatch_can_push c b cmd = (length (bt_events b) < wc_max_documents c
     \<and> saturating_add_usize (bt_bytes b) (cmd_bytes cmd) \<le> wc_max_bytes c)"

definition opt_len :: "string option \<Rightarrow> nat" where
  "opt_len v = (case v of None \<Rightarrow> 0 | Some s \<Rightarrow> length s)"

definition estimated_log_bytes :: "log_record \<Rightarrow> nat" where
  "estimated_log_bytes r = foldl saturating_add_usize 0
     [length (lr_message r), opt_len (lr_environment r), opt_len (lr_release r), opt_len (lr_service r),
      length (lr_body r), LOG_RECORD_OVERHEAD_BYTES]"

definition estimated_span_bytes :: "span_record \<Rightarrow> nat" where
  "estimated_span_bytes r = foldl saturating_add_usize 0
     [length (sn_operation r), length (sn_status r), length (sn_name r), opt_len (sn_environment r),
      opt_len (sn_release r), opt_len (sn_service r), length (sn_body r), SPAN_RECORD_OVERHEAD_BYTES]"

section \<open>The actor loop\<close>

text \<open>
  \<open>W_Shutdown q\<close> is the shutdown signal, with \<open>q\<close> the commands still in the channel.
\<close>

datatype 'c wake = W_Shutdown "'c list" | W_Deadline | W_Command 'c | W_Closed

type_synonym 'r answers = "(nat \<times> 'r) list"
type_synonym ('p, 'r, 's) flusher = "'p batch \<Rightarrow> 's \<Rightarrow> 'r answers \<times> 's"

record ('p, 'c) gathered =
  g_batch :: "'p batch"
  g_carry :: "'c option"
  g_shutdown :: "'c list option"
  g_rest :: "'c wake list"

fun gather ::
  "('p batch \<Rightarrow> 'p command \<Rightarrow> bool) \<Rightarrow> nat \<Rightarrow> 'p batch \<Rightarrow> 'p command wake list
   \<Rightarrow> ('p, 'p command) gathered" where
  "gather can_push max_documents b [] =
     \<lparr>g_batch = b, g_carry = None, g_shutdown = None, g_rest = []\<rparr>"
| "gather can_push max_documents b (w # ws) =
     (if length (bt_events b) < max_documents
      then case w of
          W_Shutdown q \<Rightarrow> \<lparr>g_batch = b, g_carry = None, g_shutdown = Some q, g_rest = ws\<rparr>
        | W_Deadline \<Rightarrow> \<lparr>g_batch = b, g_carry = None, g_shutdown = None, g_rest = ws\<rparr>
        | W_Command c \<Rightarrow>
            (if can_push b c then gather can_push max_documents (Batch_push c b) ws
             else \<lparr>g_batch = b, g_carry = Some c, g_shutdown = None, g_rest = ws\<rparr>)
        | W_Closed \<Rightarrow> \<lparr>g_batch = b, g_carry = None, g_shutdown = None, g_rest = w # ws\<rparr>
      else \<lparr>g_batch = b, g_carry = None, g_shutdown = None, g_rest = w # ws\<rparr>)"

fun drain_gather ::
  "('p batch \<Rightarrow> 'p command \<Rightarrow> bool) \<Rightarrow> nat \<Rightarrow> 'p batch \<Rightarrow> 'p command list
   \<Rightarrow> 'p batch \<times> 'p command option \<times> 'p command list" where
  "drain_gather can_push max_documents b [] = (b, None, [])"
| "drain_gather can_push max_documents b (c # q) =
     (if length (bt_events b) < max_documents
      then (if can_push b c then drain_gather can_push max_documents (Batch_push c b) q
            else (b, Some c, q))
      else (b, None, c # q))"

lemma drain_gather_shorter:
  "drain_gather can_push n b q = (b', carry, q') \<Longrightarrow>
   length q' + (case carry of None \<Rightarrow> 0 | Some _ \<Rightarrow> 1) \<le> length q"
  by (induction can_push n b q rule: drain_gather.induct) (auto split: if_splits)

definition carried :: "'c option \<Rightarrow> 'c list" where
  "carried carry = (case carry of None \<Rightarrow> [] | Some c \<Rightarrow> [c])"

text \<open>
  The drain: \<open>expired\<close> says whether the drain deadline passed while a batch was flushed, and the state
  that leaves; then the batch's responses are dropped, and \<open>reject_carry\<close> says whether the writer still answers the command
  it had carried over. Returns the answers, the flushed batches and the state.
\<close>

function drain_writer ::
  "bool \<Rightarrow> ('p batch \<Rightarrow> 'p command \<Rightarrow> bool) \<Rightarrow> nat \<Rightarrow> ('p batch \<Rightarrow> 's \<Rightarrow> 's option) \<Rightarrow> 'r
   \<Rightarrow> ('p, 'r, 's) flusher \<Rightarrow> 'p command list \<Rightarrow> 's \<Rightarrow> 'r answers \<times> 'p batch list \<times> 's" where
  "drain_writer reject_carry can_push n expired unavailable flush [] s = ([], [], s)"
| "drain_writer reject_carry can_push n expired unavailable flush (first # q) s =
     (case drain_gather can_push n (Batch_new first) q of (b, carry, q') \<Rightarrow>
        (case expired b s of
           Some s' \<Rightarrow>
            (map (\<lambda>c. (cmd_response c, unavailable)) ((if reject_carry then carried carry else []) @ q'),
             [b], s')
         | None \<Rightarrow> (case flush b s of (answers, s') \<Rightarrow>
          (case drain_writer reject_carry can_push n expired unavailable flush (carried carry @ q') s' of
             (answers', bs, s'') \<Rightarrow> (answers @ answers', b # bs, s'')))))"
  by pat_completeness auto
termination
  by (relation "measure (\<lambda>(_, _, _, _, _, _, q, _). length q)")
    (auto simp: carried_def dest!: drain_gather_shorter[OF sym] split: option.splits)

lemma gather_shorter:
  "length (g_rest (gather can_push n b ws)) + length (carried (g_carry (gather can_push n b ws)))
   \<le> length ws"
  by (induction can_push n b ws rule: gather.induct)
    (auto simp: carried_def split: wake.splits)

function run_writer ::
  "bool \<Rightarrow> ('p batch \<Rightarrow> 'p command \<Rightarrow> bool) \<Rightarrow> nat \<Rightarrow> ('p batch \<Rightarrow> 's \<Rightarrow> 's option) \<Rightarrow> 'r
   \<Rightarrow> ('p, 'r, 's) flusher \<Rightarrow> 'p command option \<Rightarrow> 'p command wake list \<Rightarrow> 's
   \<Rightarrow> 'r answers \<times> 'p batch list \<times> 's" where
  "run_writer reject_carry can_push n expired unavailable flush None [] s = ([], [], s)"
| "run_writer reject_carry can_push n expired unavailable flush None (W_Shutdown q # ws) s =
     drain_writer reject_carry can_push n expired unavailable flush q s"
| "run_writer reject_carry can_push n expired unavailable flush None (W_Closed # ws) s = ([], [], s)"
| "run_writer reject_carry can_push n expired unavailable flush None (W_Deadline # ws) s =
     run_writer reject_carry can_push n expired unavailable flush None ws s"
| "run_writer reject_carry can_push n expired unavailable flush None (W_Command first # ws) s =
     run_writer reject_carry can_push n expired unavailable flush (Some first) ws s"
| "run_writer reject_carry can_push n expired unavailable flush (Some first) ws s =
     (let g = gather can_push n (Batch_new first) ws in
      case flush (g_batch g) s of (answers, s') \<Rightarrow>
        (case (case g_shutdown g of
             Some q \<Rightarrow> (case drain_writer reject_carry can_push n expired unavailable flush q s' of
                 (answers', bs, s'') \<Rightarrow>
                   (map (\<lambda>c. (cmd_response c, unavailable)) (carried (g_carry g)) @ answers', bs, s''))
           | None \<Rightarrow> run_writer reject_carry can_push n expired unavailable flush (g_carry g) (g_rest g) s') of
          (answers', bs, s'') \<Rightarrow> (answers @ answers', g_batch g # bs, s'')))"
  by pat_completeness auto
termination
proof (relation "measure (\<lambda>(_, _, _, _, _, _, carry, ws, _). 2 * length ws + length (carried carry))",
    goal_cases)
  case (4 reject_carry can_push n expired unavailable flush first ws s)
  then show ?case using gather_shorter[of can_push n "Batch_new first" ws] by (simp add: carried_def)
qed (auto simp: carried_def)

section \<open>Flushing\<close>

datatype event_write_status = Write_Inserted | Write_Duplicate | Write_Rejected
datatype event_store_error = Store_Unavailable | Store_Ambiguous

type_synonym event_result = "event_sink_error + durable_outcome"

fun write_answer :: "event_write_status \<Rightarrow> event_result" where
  "write_answer Write_Inserted = Inr Durable_Accepted"
| "write_answer Write_Duplicate = Inr Durable_Duplicate"
| "write_answer Write_Rejected = Inl Sink_Unavailable"

definition reject_batch :: "'p batch \<Rightarrow> 'r \<Rightarrow> 'r answers" where
  "reject_batch b e = map (\<lambda>r. (r, e)) (bt_responses b)"

text \<open>The loop over the statuses: an inserted event is offered to the dispatcher, then answered.\<close>

fun deliver ::
  "('p \<Rightarrow> accepted_event) \<Rightarrow> (accepted_event \<Rightarrow> 'h \<Rightarrow> 'h) \<Rightarrow> ('p \<times> nat \<times> event_write_status) list \<Rightarrow> 'h
   \<Rightarrow> event_result answers \<times> 'h" where
  "deliver into_event offer [] h = ([], h)"
| "deliver into_event offer ((p, r, status) # rest) h =
     (case deliver into_event offer rest
             (if status = Write_Inserted then offer (into_event p) h else h) of
        (answers, h') \<Rightarrow> ((r, write_answer status) # answers, h'))"

definition EventWriter_flush_batch ::
  "('p \<Rightarrow> accepted_event)
   \<Rightarrow> ('p list \<Rightarrow> 't \<Rightarrow> (event_store_error + event_write_status list) option \<times> 't)
   \<Rightarrow> (accepted_event \<Rightarrow> 'h \<Rightarrow> 'h) \<Rightarrow> ('p, event_result, 't \<times> 'h) flusher" where
  "EventWriter_flush_batch into_event insert_batch offer b = (\<lambda>(t, h).
     case insert_batch (bt_events b) t of (result, t') \<Rightarrow>
       (case result of
          Some (Inr statuses) \<Rightarrow>
            (if length statuses = length (bt_events b)
             then (case deliver into_event offer (zip (bt_events b) (zip (bt_responses b) statuses)) h of
                 (answers, h') \<Rightarrow> (answers, (t', h')))
             else (reject_batch b (Inl Sink_Ambiguous), (t', h)))
        | Some (Inl Store_Unavailable) \<Rightarrow> (reject_batch b (Inl Sink_Unavailable), (t', h))
        | Some (Inl Store_Ambiguous) \<Rightarrow> (reject_batch b (Inl Sink_Ambiguous), (t', h))
        | None \<Rightarrow> (reject_batch b (Inl Sink_Ambiguous), (t', h))))"

datatype signal_store_error =
  Signal_NotFound | Signal_Conflict | Signal_InvalidData | Signal_Capacity | Signal_Unavailable

type_synonym signal_result = "signal_store_error + durable_outcome"

definition SignalWriter_flush_batch ::
  "('p list \<Rightarrow> 't \<Rightarrow> (signal_store_error + durable_outcome list) option \<times> 't)
   \<Rightarrow> ('p, signal_result, 't) flusher" where
  "SignalWriter_flush_batch store b t = (case store (bt_events b) t of (result, t') \<Rightarrow>
     (case result of
        Some (Inr outcomes) \<Rightarrow>
          (if length outcomes = length (bt_events b) then zip (bt_responses b) (map Inr outcomes)
           else reject_batch b (Inl Signal_Unavailable))
      | Some (Inl e) \<Rightarrow> reject_batch b (Inl e)
      | None \<Rightarrow> reject_batch b (Inl Signal_Unavailable), t'))"

definition EventWriter_run ::
  "writer_config \<Rightarrow> ('p \<Rightarrow> accepted_event)
   \<Rightarrow> ('p list \<Rightarrow> 't \<Rightarrow> (event_store_error + event_write_status list) option \<times> 't)
   \<Rightarrow> (accepted_event \<Rightarrow> 'h \<Rightarrow> 'h) \<Rightarrow> ('p batch \<Rightarrow> 't \<times> 'h \<Rightarrow> ('t \<times> 'h) option)
   \<Rightarrow> 'p command wake list \<Rightarrow> 't \<times> 'h \<Rightarrow> event_result answers \<times> 'p batch list \<times> 't \<times> 'h" where
  "EventWriter_run c into_event insert_batch offer expired =
     run_writer False (EventBatch_can_push c) (wc_max_documents c) expired (Inl Sink_Unavailable)
       (EventWriter_flush_batch into_event insert_batch offer) None"

definition LogWriter_run ::
  "writer_config \<Rightarrow> (log_record list \<Rightarrow> 't \<Rightarrow> (signal_store_error + durable_outcome list) option \<times> 't)
   \<Rightarrow> (log_record batch \<Rightarrow> 't \<Rightarrow> 't option) \<Rightarrow> log_record command wake list \<Rightarrow> 't
   \<Rightarrow> signal_result answers \<times> log_record batch list \<times> 't" where
  "LogWriter_run c store expired =
     run_writer False (LogBatch_can_push c) (wc_max_documents c) expired (Inl Signal_Unavailable)
       (SignalWriter_flush_batch store) None"

definition SpanWriter_run ::
  "writer_config \<Rightarrow> (span_record list \<Rightarrow> 't \<Rightarrow> (signal_store_error + durable_outcome list) option \<times> 't)
   \<Rightarrow> (span_record batch \<Rightarrow> 't \<Rightarrow> 't option) \<Rightarrow> span_record command wake list \<Rightarrow> 't
   \<Rightarrow> signal_result answers \<times> span_record batch list \<times> 't" where
  "SpanWriter_run c store expired =
     run_writer True (LogBatch_can_push c) (wc_max_documents c) expired (Inl Signal_Unavailable)
       (SignalWriter_flush_batch store) None"

section \<open>Admission\<close>

text \<open>
  \<open>sent\<close> is whether the channel took the command, \<open>answer\<close> what its response channel delivered
  (\<open>None\<close> when it was dropped).
\<close>

definition EventWriter_persist ::
  "(accepted_event \<Rightarrow> 'x + 'p) \<Rightarrow> bool \<Rightarrow> bool \<Rightarrow> event_result option \<Rightarrow> accepted_event \<Rightarrow> event_result" where
  "EventWriter_persist prepare accepting sent answer e =
     (if \<not> accepting then Inl Sink_Unavailable
      else case prepare e of
        Inl _ \<Rightarrow> Inl Sink_Unavailable
      | Inr _ \<Rightarrow> (if \<not> sent then Inl Sink_Unavailable else unwrap_or answer (Inl Sink_Unavailable)))"

fun sized_records :: "('r \<Rightarrow> nat) \<Rightarrow> nat \<Rightarrow> 'r list \<Rightarrow> signal_store_error + ('r \<times> nat) list" where
  "sized_records estimate max_batch_bytes [] = Inr []"
| "sized_records estimate max_batch_bytes (r # rs) =
     (if estimate r > max_batch_bytes then Inl Signal_InvalidData
      else and_then (sized_records estimate max_batch_bytes rs) (\<lambda>xs. Inr ((r, estimate r) # xs)))"

fun await_all :: "signal_result option list \<Rightarrow> signal_store_error + durable_outcome list" where
  "await_all [] = Inr []"
| "await_all (None # rs) = Inl Signal_Unavailable"
| "await_all (Some (Inl e) # rs) = Inl e"
| "await_all (Some (Inr x) # rs) = and_then (await_all rs) (\<lambda>xs. Inr (x # xs))"

text \<open>
  \<open>free\<close> is the number of free channel slots; \<open>respond\<close> gives the answers to the commands sent, in
  their order.
\<close>

definition persist_signals ::
  "('r \<Rightarrow> nat) \<Rightarrow> nat \<Rightarrow> bool \<Rightarrow> nat \<Rightarrow> (('r \<times> nat) list \<Rightarrow> signal_result option list) \<Rightarrow> 'r list
   \<Rightarrow> signal_store_error + durable_outcome list" where
  "persist_signals estimate max_batch_bytes accepting free respond rs =
     (if rs = [] then Inr []
      else if \<not> accepting then Inl Signal_Unavailable
      else and_then (sized_records estimate max_batch_bytes rs) (\<lambda>sized.
        if free < length sized then Inl Signal_Capacity else await_all (respond sized)))"

definition persist_logs ::
  "nat \<Rightarrow> bool \<Rightarrow> nat \<Rightarrow> ((log_record \<times> nat) list \<Rightarrow> signal_result option list) \<Rightarrow> log_record list
   \<Rightarrow> signal_store_error + durable_outcome list" where
  "persist_logs = persist_signals estimated_log_bytes"

definition persist_spans ::
  "nat \<Rightarrow> bool \<Rightarrow> nat \<Rightarrow> ((span_record \<times> nat) list \<Rightarrow> signal_result option list) \<Rightarrow> span_record list
   \<Rightarrow> signal_store_error + durable_outcome list" where
  "persist_spans = persist_signals estimated_span_bytes"

section \<open>Every command is answered\<close>

fun received :: "'c wake list \<Rightarrow> 'c list" where
  "received [] = []"
| "received (W_Command c # ws) = c # received ws"
| "received (W_Deadline # ws) = received ws"
| "received (W_Closed # ws) = []"
| "received (W_Shutdown q # ws) = q"

lemma carried_simps [simp]: "carried None = []" "carried (Some c) = [c]"
  by (simp_all add: carried_def)

lemma batch_new_simps [simp]:
  "bt_events (Batch_new c) = [cmd_payload c]" "bt_responses (Batch_new c) = [cmd_response c]"
  "bt_bytes (Batch_new c) = cmd_bytes c"
  by (simp_all add: Batch_new_def)

lemma batch_push_simps [simp]:
  "bt_events (Batch_push c b) = bt_events b @ [cmd_payload c]"
  "bt_responses (Batch_push c b) = bt_responses b @ [cmd_response c]"
  "bt_bytes (Batch_push c b) = saturating_add_usize (bt_bytes b) (cmd_bytes c)"
  by (simp_all add: Batch_push_def)

definition batch_ok :: "nat \<Rightarrow> nat \<Rightarrow> 'p batch \<Rightarrow> bool" where
  "batch_ok n max_bytes b = (bt_events b \<noteq> [] \<and> length (bt_events b) = length (bt_responses b)
     \<and> length (bt_events b) \<le> n \<and> (length (bt_events b) = 1 \<or> bt_bytes b \<le> max_bytes))"

definition upcoming :: "('p, 'c) gathered \<Rightarrow> 'c list" where
  "upcoming g = (case g_shutdown g of Some q \<Rightarrow> q | None \<Rightarrow> received (g_rest g))"

lemma gather_responses:
  "bt_responses b @ map cmd_response (received ws) = bt_responses (g_batch (gather can_push n b ws))
     @ map cmd_response (carried (g_carry (gather can_push n b ws)))
     @ map cmd_response (upcoming (gather can_push n b ws))"
  by (induction can_push n b ws rule: gather.induct) (auto simp: upcoming_def split: wake.splits)

lemma gather_shutdown: "g_shutdown (gather can_push n b ws) = Some q \<Longrightarrow> g_carry (gather can_push n b ws) = None"
  by (induction can_push n b ws rule: gather.induct) (auto split: wake.splits if_splits)

lemma drain_gather_responses:
  "drain_gather can_push n b q = (b', carry, q') \<Longrightarrow> bt_responses b @ map cmd_response q
     = bt_responses b' @ map cmd_response (carried carry @ q')"
  by (induction can_push n b q rule: drain_gather.induct) (auto split: if_splits)

text \<open>
  What the actor loop relies on of a writer: a command joins a non-empty batch only within both
  limits, and a flush answers the responses of its batch, each once and in order.
\<close>

locale batch_writer =
  fixes can_push :: "'p batch \<Rightarrow> 'p command \<Rightarrow> bool"
    and n :: nat
    and max_bytes :: nat
    and flush :: "('p, 'r, 's) flusher"
  assumes can_push_limits: "can_push b c \<Longrightarrow> bt_events b \<noteq> [] \<Longrightarrow>
      length (bt_events b) < n \<and> saturating_add_usize (bt_bytes b) (cmd_bytes c) \<le> max_bytes"
    and flush_answers: "length (bt_events b) = length (bt_responses b) \<Longrightarrow>
      map fst (fst (flush b s)) = bt_responses b"
    and room: "1 \<le> n"
begin

lemma batch_new_ok: "batch_ok n max_bytes (Batch_new c)"
  using room by (simp add: batch_ok_def)

lemma batch_push_ok: "batch_ok n max_bytes b \<Longrightarrow> can_push b c \<Longrightarrow> batch_ok n max_bytes (Batch_push c b)"
  using can_push_limits[of b c] by (auto simp: batch_ok_def)

lemma gather_ok: "batch_ok n max_bytes b \<Longrightarrow> batch_ok n max_bytes (g_batch (gather can_push n b ws))"
  by (induction ws arbitrary: b) (auto simp: batch_push_ok split: wake.splits)

lemma drain_gather_ok:
  "batch_ok n max_bytes b \<Longrightarrow> drain_gather can_push n b q = (b', carry, q') \<Longrightarrow> batch_ok n max_bytes b'"
  by (induction q arbitrary: b) (auto split: if_splits dest: batch_push_ok)

lemma flush_ok_answers: "batch_ok n max_bytes b \<Longrightarrow> map fst (fst (flush b s)) = bt_responses b"
  by (rule flush_answers) (simp add: batch_ok_def)

lemma drain_writer_answers:
  "drain_writer rc can_push n expired u flush q s = (answers, bs, s') \<Longrightarrow>
   subseq (map fst answers) (map cmd_response q) \<and> list_all (batch_ok n max_bytes) bs
   \<and> ((\<forall>b s. expired b s = None) \<longrightarrow> map fst answers = map cmd_response q)"
proof (induction q arbitrary: s answers bs s' rule: length_induct)
  case (1 q)
  show ?case
  proof (cases q)
    case (Cons first r)
    obtain b carry r' where g: "drain_gather can_push n (Batch_new first) r = (b, carry, r')"
      by (metis prod_cases3)
    have b: "batch_ok n max_bytes b" by (rule drain_gather_ok[OF batch_new_ok g])
    have q: "map cmd_response q = bt_responses b @ map cmd_response (carried carry) @ map cmd_response r'"
      using drain_gather_responses[OF g] by (simp add: Cons)
    show ?thesis
    proof (cases "expired b s")
      case (Some t)
      then have "answers = map (\<lambda>c. (cmd_response c, u)) ((if rc then carried carry else []) @ r')" "bs = [b]"
        using "1.prems" by (simp_all add: Cons g)
      moreover have "\<not> (\<forall>b s. expired b s = None)" using Some by (metis option.distinct(1))
      ultimately show ?thesis using b by (auto simp: q o_def intro: list_emb_append2)
    next
      case None
      obtain a t where f: "flush b s = (a, t)" by fastforce
      obtain a' bs' t' where d: "drain_writer rc can_push n expired u flush (carried carry @ r') t = (a', bs', t')"
        by (metis prod_cases3)
      have "length (carried carry @ r') < length q"
        using drain_gather_shorter[OF g] by (simp add: Cons carried_def split: option.splits)
      note IH = "1.IH"[rule_format, OF this d]
      have "answers = a @ a'" "bs = b # bs'" using "1.prems" by (simp_all add: Cons g None f d)
      moreover have "map fst a = bt_responses b" using flush_ok_answers[OF b, of s] by (simp add: f)
      ultimately show ?thesis using IH b by (auto simp: q list_emb_append_mono)
    qed
  qed (use "1.prems" in simp)
qed

lemma run_writer_answers:
  "run_writer rc can_push n expired u flush carry ws s = (answers, bs, s') \<Longrightarrow>
   subseq (map fst answers) (map cmd_response (carried carry @ received ws))
   \<and> list_all (batch_ok n max_bytes) bs
   \<and> ((\<forall>b s. expired b s = None) \<longrightarrow> map fst answers = map cmd_response (carried carry @ received ws))"
proof (induction "2 * length ws + length (carried carry)" arbitrary: carry ws s answers bs s' rule: less_induct)
  case less
  show ?case
  proof (cases carry)
    case None
    show ?thesis
    proof (cases ws)
      case (Cons w r)
      then show ?thesis
      proof (cases w)
        case (W_Shutdown q)
        then show ?thesis using less.prems drain_writer_answers by (fastforce simp: None Cons)
      next
        case W_Deadline
        then show ?thesis using less.hyps[of r None s] less.prems by (simp add: None Cons)
      next
        case (W_Command c)
        then show ?thesis using less.hyps[of r "Some c" s] less.prems by (simp add: None Cons)
      qed (use less.prems in \<open>simp add: None Cons\<close>)
    qed (use less.prems in \<open>simp add: None\<close>)
  next
    case (Some first)
    define g where "g = gather can_push n (Batch_new first) ws"
    have b: "batch_ok n max_bytes (g_batch g)" unfolding g_def by (rule gather_ok[OF batch_new_ok])
    obtain a t where f: "flush (g_batch g) s = (a, t)" by fastforce
    have a: "map fst a = bt_responses (g_batch g)" using flush_ok_answers[OF b, of s] by (simp add: f)
    have q: "map cmd_response (carried carry @ received ws) = bt_responses (g_batch g)
        @ map cmd_response (carried (g_carry g))
        @ map cmd_response (upcoming g)"
      using gather_responses[of "Batch_new first" ws can_push n] by (simp add: Some g_def)
    have "\<exists>a' bs'. answers = a @ a' \<and> bs = g_batch g # bs'
      \<and> subseq (map fst a') (map cmd_response (carried (g_carry g) @ upcoming g))
      \<and> list_all (batch_ok n max_bytes) bs'
      \<and> ((\<forall>b s. expired b s = None) \<longrightarrow> map fst a' = map cmd_response (carried (g_carry g) @ upcoming g))"
    proof (cases "g_shutdown g")
      case None
      obtain a' bs' t' where r: "run_writer rc can_push n expired u flush (g_carry g) (g_rest g) t = (a', bs', t')"
        by (metis prod_cases3)
      have "2 * length (g_rest g) + length (carried (g_carry g)) < 2 * length ws + length (carried carry)"
        using gather_shorter[of can_push n "Batch_new first" ws] by (simp add: g_def Some)
      from less.hyps[OF this r] less.prems show ?thesis
        by (auto simp: Some None f r Let_def upcoming_def simp flip: g_def)
    next
      case (Some q)
      obtain a' bs' t' where r: "drain_writer rc can_push n expired u flush q t = (a', bs', t')"
        by (metis prod_cases3)
      have "g_carry g = None" using gather_shutdown Some by (simp add: g_def)
      with drain_writer_answers[OF r] less.prems show ?thesis
        by (auto simp: \<open>carry = Some first\<close> Some f r Let_def upcoming_def simp flip: g_def)
    qed
    then show ?thesis using b a unfolding q by (auto simp: list_emb_append_mono)
  qed
qed

end

lemma deliver_answers:
  "deliver into_event offer xs h = (answers, h') \<Longrightarrow>
   answers = map (\<lambda>(p, r, status). (r, write_answer status)) xs
   \<and> h' = fold offer (map (\<lambda>(p, r, status). into_event p) (filter (\<lambda>(p, r, status). status = Write_Inserted) xs)) h"
  by (induction into_event offer xs h arbitrary: answers h' rule: deliver.induct) (auto split: prod.splits)

lemma reject_batch_answers: "map fst (reject_batch b e) = bt_responses b"
  by (simp add: reject_batch_def o_def)

lemma event_flush_answers:
  assumes "length (bt_events b) = length (bt_responses b)"
  shows "map fst (fst (EventWriter_flush_batch into_event insert_batch offer b s)) = bt_responses b"
proof -
  obtain t h where s: "s = (t, h)" by (cases s)
  obtain result t' where i: "insert_batch (bt_events b) t = (result, t')" by fastforce
  have "map fst (fst (deliver into_event offer (zip (bt_events b) (zip (bt_responses b) statuses)) h))
      = bt_responses b" if "length statuses = length (bt_events b)" for statuses
  proof -
    obtain a h' where d: "deliver into_event offer (zip (bt_events b) (zip (bt_responses b) statuses)) h = (a, h')"
      by fastforce
    have "map fst a = map (fst \<circ> snd) (zip (bt_events b) (zip (bt_responses b) statuses))"
      using deliver_answers[OF d] by (auto simp: o_def split: prod.splits)
    also have "\<dots> = bt_responses b"
      using that assms by (simp flip: map_map)
    finally show ?thesis by (simp add: d)
  qed
  then show ?thesis
    by (fastforce simp: EventWriter_flush_batch_def s i reject_batch_answers
        split: option.splits sum.splits event_store_error.splits prod.splits)
qed

lemma signal_flush_answers:
  "length (bt_events b) = length (bt_responses b) \<Longrightarrow>
   map fst (fst (SignalWriter_flush_batch store b s)) = bt_responses b"
  by (auto simp: SignalWriter_flush_batch_def reject_batch_answers split: option.splits sum.splits prod.splits)

lemma event_batch_writer:
  "validate_event_writer_config c \<Longrightarrow> batch_writer (EventBatch_can_push c) (wc_max_documents c) (wc_max_bytes c)
     (EventWriter_flush_batch into_event insert_batch offer)"
  by unfold_locales
    (auto simp: EventBatch_can_push_def validate_event_writer_config_def event_flush_answers)

lemma log_batch_writer:
  "1 \<le> wc_max_documents c \<Longrightarrow> batch_writer (LogBatch_can_push c) (wc_max_documents c) (wc_max_bytes c)
     (SignalWriter_flush_batch store)"
  by unfold_locales (auto simp: LogBatch_can_push_def signal_flush_answers)

interpretation event_writer: batch_writer "EventBatch_can_push WriterConfig_default" 250 8388608
  "EventWriter_flush_batch into_event insert_batch offer" for into_event insert_batch offer
  using event_batch_writer[of WriterConfig_default into_event insert_batch offer]
  by (simp add: WriterConfig_default_def validate_event_writer_config_def durations_ok_def secs_def millis_def)

definition all_answered ::
  "writer_config \<Rightarrow> ('p batch \<Rightarrow> 's \<Rightarrow> 's option) \<Rightarrow> 'p command wake list \<Rightarrow> 'r answers \<Rightarrow> 'p batch list \<Rightarrow> bool" where
  "all_answered c expired ws answers bs \<longleftrightarrow>
     subseq (map fst answers) (map cmd_response (received ws))
     \<and> ((\<forall>b s. expired b s = None) \<longrightarrow> map fst answers = map cmd_response (received ws))
     \<and> list_all (batch_ok (wc_max_documents c) (wc_max_bytes c)) bs"

lemma event_run_answers:
  assumes "validate_event_writer_config c"
    "EventWriter_run c into_event insert_batch offer expired ws s = (answers, bs, s')"
  shows "all_answered c expired ws answers bs"
  using batch_writer.run_writer_answers[OF event_batch_writer[OF assms(1)]
      assms(2)[unfolded EventWriter_run_def]]
  by (simp add: all_answered_def)

lemma log_run_answers:
  assumes "validate_log_writer_config c" "LogWriter_run c store expired ws t = (answers, bs, t')"
  shows "all_answered c expired ws answers bs"
proof -
  have "1 \<le> wc_max_documents c" using assms(1) by (simp add: validate_log_writer_config_def)
  from batch_writer.run_writer_answers[OF log_batch_writer[OF this] assms(2)[unfolded LogWriter_run_def]]
  show ?thesis by (simp add: all_answered_def)
qed

lemma span_run_answers:
  assumes "validate_span_writer_config c" "SpanWriter_run c store expired ws t = (answers, bs, t')"
  shows "all_answered c expired ws answers bs"
proof -
  have "1 \<le> wc_max_documents c" using assms(1) by (simp add: validate_span_writer_config_def)
  from batch_writer.run_writer_answers[OF log_batch_writer[OF this] assms(2)[unfolded SpanWriter_run_def]]
  show ?thesis by (simp add: all_answered_def)
qed


definition sample_command :: "nat \<Rightarrow> accepted_event command" where
  "sample_command r = \<lparr>cmd_payload = sample_event, cmd_bytes = 100, cmd_response = r\<rparr>"

lemma default_event_writer_valid: "validate_event_writer_config WriterConfig_default"
  by (simp add: WriterConfig_default_def validate_event_writer_config_def durations_ok_def secs_def millis_def)


lemma inserted_zip:
  "length ps = length rs \<Longrightarrow> length rs = length sts \<Longrightarrow>
   map (\<lambda>(p, r, status). f p) (filter (\<lambda>(p, r, status). status = Write_Inserted) (zip ps (zip rs sts)))
   = map (f \<circ> fst) (filter (\<lambda>(p, status). status = Write_Inserted) (zip ps sts))"
  by (induction ps rs sts rule: list_induct3) auto

lemma event_flush_delivers:
  assumes "insert_batch (bt_events b) t = (Some (Inr statuses), t')" "length statuses = length (bt_events b)"
    "length (bt_events b) = length (bt_responses b)"
  shows "EventWriter_flush_batch into_event insert_batch offer b (t, h)
    = (zip (bt_responses b) (map write_answer statuses),
       t', fold offer (map (into_event \<circ> fst) (filter (\<lambda>(p, status). status = Write_Inserted) (zip (bt_events b) statuses))) h)"
proof -
  let ?xs = "zip (bt_events b) (zip (bt_responses b) statuses)"
  obtain a h' where d: "deliver into_event offer ?xs h = (a, h')" by fastforce
  have "map (\<lambda>(p, r, status). (r, write_answer status)) ?xs = zip (bt_responses b) (map write_answer statuses)"
    by (rule nth_equalityI) (simp_all add: assms(2,3))
  moreover have "map (\<lambda>(p, r, status). into_event p) (filter (\<lambda>(p, r, status). status = Write_Inserted) ?xs)
      = map (into_event \<circ> fst) (filter (\<lambda>(p, status). status = Write_Inserted) (zip (bt_events b) statuses))"
    using assms(2,3) by (intro inserted_zip) simp_all
  ultimately show ?thesis
    using deliver_answers[OF d] assms by (simp add: EventWriter_flush_batch_def d)
qed

text \<open>
  C6. Acknowledgements are durable: when a flush of the event writer answers that an event was
  accepted, the store reported exactly that event as inserted in a complete answer within the time
  limit; a missing, late or incomplete store answer is reported as ambiguous; and exactly the inserted
  events are handed to the dispatcher, in order.
\<close>
theorem event_ack_is_durable:
  assumes "length (bt_events b) = length (bt_responses b)" "insert_batch (bt_events b) t = (result, t')"
    "EventWriter_flush_batch into_event insert_batch offer b (t, h) = (answers, s')"
  shows "((r, Inr Durable_Accepted) \<in> set answers \<longrightarrow> (\<exists>statuses i. result = Some (Inr statuses)
      \<and> length statuses = length (bt_events b) \<and> i < length (bt_events b)
      \<and> bt_responses b ! i = r \<and> statuses ! i = Write_Inserted))
    \<and> (result = None \<or> result = Some (Inl Store_Ambiguous) \<longrightarrow>
        answers = map (\<lambda>r. (r, Inl Sink_Ambiguous)) (bt_responses b) \<and> s' = (t', h))
    \<and> (\<forall>statuses. result = Some (Inr statuses) \<and> length statuses = length (bt_events b) \<longrightarrow>
        snd s' = fold offer (map (into_event \<circ> fst)
          (filter (\<lambda>(p, status). status = Write_Inserted) (zip (bt_events b) statuses))) h)"
proof (cases "\<exists>statuses. result = Some (Inr statuses) \<and> length statuses = length (bt_events b)")
  case True
  then obtain statuses where st: "result = Some (Inr statuses)" "length statuses = length (bt_events b)" by blast
  from event_flush_delivers[of insert_batch b t statuses t' into_event offer h] assms st
  have a: "answers = zip (bt_responses b) (map write_answer statuses)"
    and s': "snd s' = fold offer (map (into_event \<circ> fst)
          (filter (\<lambda>(p, status). status = Write_Inserted) (zip (bt_events b) statuses))) h" by auto
  have "\<exists>i. i < length (bt_events b) \<and> bt_responses b ! i = r \<and> statuses ! i = Write_Inserted"
    if acc: "(r, Inr Durable_Accepted) \<in> set answers"
  proof -
    obtain i where i: "i < length (bt_events b)" "bt_responses b ! i = r"
      "write_answer (statuses ! i) = Inr Durable_Accepted"
      using acc st(2) assms(1) by (auto simp: a set_zip)
    then have "statuses ! i = Write_Inserted" by (cases "statuses ! i") simp_all
    with i show ?thesis by blast
  qed
  with st s' show ?thesis by auto
next
  case False
  then show ?thesis
    using assms(2,3)
    by (auto simp: EventWriter_flush_batch_def reject_batch_def
        split: option.splits sum.splits event_store_error.splits if_splits)
qed

theorem event_ack_is_durable_witness:
  "fst (EventWriter_flush_batch id (\<lambda>ps t. (None, t)) (\<lambda>e h. h) (Batch_new (sample_command 1)) ((), ()))
   = [(1, Inl Sink_Ambiguous)]"
proof -
  let ?b = "Batch_new (sample_command 1)"
  let ?i = "\<lambda>(ps :: accepted_event list) (t :: unit).
    (None :: (event_store_error + event_write_status list) option, t)"
  obtain a s' where r: "EventWriter_flush_batch id ?i (\<lambda>e h. h) ?b ((), ()) = (a, s' :: unit \<times> unit)"
    by (meson surj_pair)
  have "length (bt_events ?b) = length (bt_responses ?b)" "?i (bt_events ?b) () = (None, ())" by simp_all
  from event_ack_is_durable[OF this r] have "a = [(1, Inl Sink_Ambiguous)]" by (simp add: sample_command_def)
  then show ?thesis unfolding r by simp
qed

section \<open>The session writer\<close>

record 'u session_command =
  sc_updates :: "'u list"
  sc_response :: nat

record session_writer_config =
  sw_channel_capacity :: nat
  sw_max_wait :: duration
  sw_max_updates :: nat
  sw_operation_timeout :: duration
  sw_shutdown_drain :: duration

definition SessionWriterConfig_default :: session_writer_config where
  "SessionWriterConfig_default = \<lparr>sw_channel_capacity = 512, sw_max_wait = millis 20, sw_max_updates = 250,
     sw_operation_timeout = secs 10, sw_shutdown_drain = secs 10\<rparr>"

definition SessionWriter_start_ok :: "session_writer_config \<Rightarrow> bool" where
  "SessionWriter_start_ok c = (\<not> (sw_channel_capacity c = 0 \<or> sw_max_updates c = 0 \<or> sw_max_wait c = 0
     \<or> sw_operation_timeout c = 0 \<or> sw_shutdown_drain c = 0))"

type_synonym session_result = "signal_store_error + durable_outcome list"

definition persist_sessions ::
  "nat \<Rightarrow> bool \<Rightarrow> bool \<Rightarrow> session_result option \<Rightarrow> 'u list \<Rightarrow> session_result" where
  "persist_sessions max_updates accepting reserved answer updates =
     (if updates = [] then Inr []
      else if length updates > max_updates then Inl Signal_InvalidData
      else if \<not> accepting then Inl Signal_Unavailable
      else if \<not> reserved then Inl Signal_Capacity
      else unwrap_or answer (Inl Signal_Unavailable))"

fun split_counts :: "nat list \<Rightarrow> 'x list \<Rightarrow> 'x list list" where
  "split_counts [] xs = []"
| "split_counts (n # ns) xs = take n xs # split_counts ns (drop n xs)"

definition reject_sessions :: "'u session_command list \<Rightarrow> signal_store_error \<Rightarrow> session_result answers" where
  "reject_sessions cs e = map (\<lambda>c. (sc_response c, Inl e)) cs"

definition SessionWriter_flush ::
  "('u list \<Rightarrow> 't \<Rightarrow> (signal_store_error + durable_outcome list) option \<times> 't)
   \<Rightarrow> 'u session_command list \<Rightarrow> 't \<Rightarrow> session_result answers \<times> 't" where
  "SessionWriter_flush store cs t =
     (let counts = map (length \<circ> sc_updates) cs; updates = concat (map sc_updates cs) in
      case store updates t of (result, t') \<Rightarrow>
        (case result of
           Some (Inr outcomes) \<Rightarrow>
             (if length outcomes = length updates
              then zip (map sc_response cs) (map Inr (split_counts counts outcomes))
              else reject_sessions cs Signal_Unavailable)
         | Some (Inl e) \<Rightarrow> reject_sessions cs e
         | None \<Rightarrow> reject_sessions cs Signal_Unavailable, t'))"

fun session_gather ::
  "nat \<Rightarrow> 'u session_command list \<Rightarrow> nat \<Rightarrow> 'u session_command wake list
   \<Rightarrow> 'u session_command list list \<times> 'u session_command list option \<times> 'u session_command wake list" where
  "session_gather max_updates cs n [] = ([cs], None, [])"
| "session_gather max_updates cs n (w # ws) =
     (if n < max_updates
      then case w of
          W_Shutdown q \<Rightarrow> ([cs], Some q, ws)
        | W_Deadline \<Rightarrow> ([cs], None, ws)
        | W_Command c \<Rightarrow>
            (if n + length (sc_updates c) \<le> max_updates
             then session_gather max_updates (cs @ [c]) (n + length (sc_updates c)) ws
             else ([cs, [c]], None, ws))
        | W_Closed \<Rightarrow> ([cs], None, w # ws)
      else ([cs], None, w # ws))"

fun session_drain_take ::
  "nat \<Rightarrow> 'u session_command list \<Rightarrow> nat \<Rightarrow> 'u session_command list
   \<Rightarrow> 'u session_command list \<times> 'u session_command list \<times> 'u session_command list" where
  "session_drain_take max_updates cs n [] = (cs, [], [])"
| "session_drain_take max_updates cs n (c # q) =
     (if n < max_updates
      then (if n + length (sc_updates c) > max_updates then (cs, [c], q)
            else session_drain_take max_updates (cs @ [c]) (n + length (sc_updates c)) q)
      else (cs, [], c # q))"

lemma session_drain_take_shorter:
  "session_drain_take m cs n q = (cs', rejected, q') \<Longrightarrow> length q' \<le> length q"
  by (induction m cs n q rule: session_drain_take.induct) (auto split: if_splits)

text \<open>\<open>in_time\<close> is the elapsed-time test of the drain loop.\<close>

function session_drain ::
  "nat \<Rightarrow> ('t \<Rightarrow> bool) \<Rightarrow> ('u session_command list \<Rightarrow> 't \<Rightarrow> session_result answers \<times> 't)
   \<Rightarrow> 'u session_command list \<Rightarrow> 't \<Rightarrow> session_result answers \<times> 't" where
  "session_drain m before_deadline flush [] t = ([], t)"
| "session_drain m before_deadline flush (first # q) t =
     (if \<not> before_deadline t then (reject_sessions (first # q) Signal_Unavailable, t)
      else case session_drain_take m [first] (length (sc_updates first)) q of (cs, rejected, q') \<Rightarrow>
        (case flush cs t of (answers, t') \<Rightarrow>
          (case session_drain m before_deadline flush q' t' of (answers', t'') \<Rightarrow>
             (reject_sessions rejected Signal_Unavailable @ answers @ answers', t''))))"
  by pat_completeness auto
termination
  by (relation "measure (\<lambda>(_, _, _, q, _). length q)")
    (auto dest!: session_drain_take_shorter[OF sym])

lemma session_gather_shorter:
  "session_gather m cs n ws = (groups, shutdown, rest) \<Longrightarrow> length rest \<le> length ws"
  by (induction m cs n ws rule: session_gather.induct) (auto split: wake.splits if_splits)

fun flush_groups ::
  "('u session_command list \<Rightarrow> 't \<Rightarrow> session_result answers \<times> 't) \<Rightarrow> 'u session_command list list \<Rightarrow> 't
   \<Rightarrow> session_result answers \<times> 't" where
  "flush_groups flush [] t = ([], t)"
| "flush_groups flush (cs # groups) t =
     (case flush cs t of (answers, t') \<Rightarrow>
       (case flush_groups flush groups t' of (answers', t'') \<Rightarrow> (answers @ answers', t'')))"

text \<open>\<open>elapsed t0 t\<close> is whether the drain time is used up in state \<open>t\<close> of a drain that began in \<open>t0\<close>.\<close>

function session_actor ::
  "nat \<Rightarrow> ('t \<Rightarrow> 't \<Rightarrow> bool) \<Rightarrow> ('u session_command list \<Rightarrow> 't \<Rightarrow> session_result answers \<times> 't)
   \<Rightarrow> 'u session_command wake list \<Rightarrow> 't \<Rightarrow> session_result answers \<times> 't" where
  "session_actor m elapsed flush [] t = ([], t)"
| "session_actor m elapsed flush (W_Shutdown q # ws) t = session_drain m (\<lambda>t'. \<not> elapsed t t') flush q t"
| "session_actor m elapsed flush (W_Closed # ws) t = ([], t)"
| "session_actor m elapsed flush (W_Deadline # ws) t = session_actor m elapsed flush ws t"
| "session_actor m elapsed flush (W_Command first # ws) t =
     (case session_gather m [first] (length (sc_updates first)) ws of (groups, shutdown, rest) \<Rightarrow>
        (case flush_groups flush groups t of (answers, t') \<Rightarrow>
          (case (case shutdown of
               Some q \<Rightarrow> session_drain m (\<lambda>t''. \<not> elapsed t' t'') flush q t'
             | None \<Rightarrow> session_actor m elapsed flush rest t') of
             (answers', t'') \<Rightarrow> (answers @ answers', t''))))"
  by pat_completeness auto
termination
  by (relation "measure (\<lambda>(_, _, _, ws, _). length ws)")
    (auto dest!: session_gather_shorter[OF sym])

lemma split_counts_spec:
  "sum_list ns = length xs \<Longrightarrow> concat (split_counts ns xs) = xs \<and> map length (split_counts ns xs) = ns"
  by (induction ns xs rule: split_counts.induct) (auto simp: min_def)

lemma length_split_counts [simp]: "length (split_counts ns xs) = length ns"
  by (induction ns xs rule: split_counts.induct) simp_all

lemma session_flush_answers: "map fst (fst (SessionWriter_flush store cs t)) = map sc_response cs"
  by (auto simp: SessionWriter_flush_def reject_sessions_def Let_def o_def split: prod.splits option.splits sum.splits)

lemma session_drain_take_keeps:
  "session_drain_take m cs n q = (cs', rejected, q') \<Longrightarrow> cs @ q = cs' @ rejected @ q'"
  by (induction m cs n q rule: session_drain_take.induct) (auto split: if_splits)

lemma session_drain_answers:
  assumes "\<And>cs t. map fst (fst (flush cs t)) = map sc_response cs"
  shows "mset (map fst (fst (session_drain m before_deadline flush q t))) = mset (map sc_response q)"
proof (induction q arbitrary: t rule: length_induct)
  case (1 q)
  show ?case
  proof (cases q)
    case (Cons first r)
    show ?thesis
    proof (cases "before_deadline t")
      case True
      obtain cs rejected r' where d: "session_drain_take m [first] (length (sc_updates first)) r = (cs, rejected, r')"
        by (metis prod_cases3)
      obtain a t' where f: "flush cs t = (a, t')" by fastforce
      obtain a' t'' where rest: "session_drain m before_deadline flush r' t' = (a', t'')" by fastforce
      have "length r' < length q" using session_drain_take_shorter[OF d] by (simp add: Cons)
      then have "mset (map fst a') = mset (map sc_response r')" using 1 rest by (metis fst_conv)
      moreover have "map fst a = map sc_response cs" using assms[of cs t] by (simp add: f)
      moreover have "q = cs @ rejected @ r'" using session_drain_take_keeps[OF d] by (simp add: Cons)
      moreover have "fst (session_drain m before_deadline flush q t)
          = reject_sessions rejected Signal_Unavailable @ a @ a'"
        by (simp add: Cons True d f rest)
      moreover have "map fst (reject_sessions rejected Signal_Unavailable) = map sc_response rejected"
        by (simp add: reject_sessions_def)
      ultimately show ?thesis by (simp only: map_append mset_append) (simp only: union_ac)
    qed (simp add: Cons reject_sessions_def o_def)
  qed simp
qed

lemma session_gather_keeps:
  "session_gather m cs n ws = (groups, shutdown, rest) \<Longrightarrow>
   cs @ received ws = concat groups @ (case shutdown of Some q \<Rightarrow> q | None \<Rightarrow> received rest)"
  by (induction m cs n ws rule: session_gather.induct) (auto split: wake.splits if_splits)

lemma flush_groups_answers:
  assumes "\<And>cs t. map fst (fst (flush cs t)) = map sc_response cs"
  shows "map fst (fst (flush_groups flush groups t)) = map sc_response (concat groups)"
  using assms by (induction groups arbitrary: t) (auto split: prod.splits, metis fst_conv)

lemma session_actor_answers:
  assumes flush: "\<And>cs t. map fst (fst (flush cs t)) = map sc_response cs"
  shows "mset (map fst (fst (session_actor m elapsed flush ws t))) = mset (map sc_response (received ws))"
proof (induction ws arbitrary: t rule: length_induct)
  case (1 ws)
  show ?case
  proof (cases ws)
    case (Cons w r)
    show ?thesis
    proof (cases w)
      case (W_Command first)
      obtain groups shutdown rest where
        g: "session_gather m [first] (length (sc_updates first)) r = (groups, shutdown, rest)"
        by (metis prod_cases3)
      obtain a t' where f: "flush_groups flush groups t = (a, t')" by fastforce
      define tail where "tail = (case shutdown of
               Some q \<Rightarrow> session_drain m (\<lambda>t''. \<not> elapsed t' t'') flush q t'
             | None \<Rightarrow> session_actor m elapsed flush rest t')"
      have "length rest < length ws" using session_gather_shorter[OF g] by (simp add: Cons)
      then have "mset (map fst (fst tail))
          = mset (map sc_response (case shutdown of Some q \<Rightarrow> q | None \<Rightarrow> received rest))"
        using 1 session_drain_answers[of flush, OF flush] by (cases shutdown) (simp_all add: tail_def)
      moreover have "map fst a = map sc_response (concat groups)"
        using flush_groups_answers[of flush groups t, OF flush] by (simp add: f)
      moreover have "first # received r = concat groups @ (case shutdown of Some q \<Rightarrow> q | None \<Rightarrow> received rest)"
        using session_gather_keeps[OF g] by simp
      moreover have "fst (session_actor m elapsed flush ws t) = a @ fst tail"
        by (simp add: Cons W_Command g f tail_def split: prod.splits)
      ultimately show ?thesis
        by (simp only: Cons W_Command received.simps map_append mset_append)
    next
      case (W_Shutdown q)
      then show ?thesis using session_drain_answers[of flush, OF flush] by (simp add: Cons)
    qed (use 1 in \<open>simp_all add: Cons\<close>)
  qed simp
qed

text \<open>
  C32. The session writer returns to each command exactly the outcomes of its own updates: after a
  complete store answer, command \<open>i\<close> of the flush gets as many outcomes as it has updates, and the
  outcomes of all commands joined in order are the store's outcomes; and the actor, its
  shutdown drain included, answers every command it receives exactly once.
\<close>
theorem session_outcomes_partition:
  assumes "store (concat (map sc_updates cs)) t = (Some (Inr outcomes), t')"
    "length outcomes = length (concat (map sc_updates cs))"
  shows "\<exists>parts. SessionWriter_flush store cs t = (zip (map sc_response cs) (map Inr parts), t')
      \<and> concat parts = outcomes \<and> map length parts = map (length \<circ> sc_updates) cs
    \<and> mset (map fst (fst (session_actor m elapsed (SessionWriter_flush store) ws u)))
        = mset (map sc_response (received ws))"
proof -
  have "sum_list (map (length \<circ> sc_updates) cs) = length outcomes"
    by (simp add: assms(2) length_concat o_def)
  note parts = split_counts_spec[OF this]
  have "mset (map fst (fst (session_actor m elapsed (SessionWriter_flush store) ws u)))
      = mset (map sc_response (received ws))"
    by (rule session_actor_answers) (rule session_flush_answers)
  with parts show ?thesis
    using assms by (auto simp: SessionWriter_flush_def Let_def)
qed

theorem session_outcomes_partition_witness:
  "\<exists>parts. SessionWriter_flush (\<lambda>us t. (Some (Inr [Durable_Accepted, Durable_Duplicate, Durable_Accepted]), t))
     [\<lparr>sc_updates = [1 :: nat, 2], sc_response = 10\<rparr>, \<lparr>sc_updates = [3], sc_response = 11\<rparr>] ()
     = (zip [10, 11] (map Inr parts), ()) \<and> map length parts = [2, 1]"
proof -
  let ?store = "\<lambda>(us :: nat list) (t :: unit). (Some (Inr [Durable_Accepted, Durable_Duplicate, Durable_Accepted]
      :: session_result), t)"
  let ?cs = "[\<lparr>sc_updates = [1 :: nat, 2], sc_response = 10\<rparr>, \<lparr>sc_updates = [3], sc_response = 11\<rparr>]"
  let ?out = "[Durable_Accepted, Durable_Duplicate, Durable_Accepted]"
  have "?store (concat (map sc_updates ?cs)) () = (Some (Inr ?out), ())"
    "length ?out = length (concat (map sc_updates ?cs))" by simp_all
  from session_outcomes_partition[where store = ?store and cs = ?cs and t = "()" and outcomes = ?out and t' = "()"
      and m = 2 and elapsed = "\<lambda>_ _. False" and ws = "[]" and u = "()", OF this]
  show ?thesis by (elim exE conjE, intro exI conjI) (simp_all add: numeral_2_eq_2)
qed

end
