(* ===== verification/Json_Values.thy ===== *)
theory Json_Values
  imports Metric_Text "HOL-Library.List_Lexorder" "HOL-Library.Char_ord"
begin

text \<open>
  Ordered maps and JSON values as the sources use them: \<^verbatim>\<open>BTreeMap\<close> is an association list sorted by
  key, \<^verbatim>\<open>serde_json::Value\<close> a datatype whose objects are such maps (the crate's default map).
  Keys are compared bytewise. A number is a non-negative or negative integer or a float, the latter
  given by its printed form.
\<close>

section \<open>Ordered maps\<close>

type_synonym ('k, 'v) btree_map = "('k \<times> 'v) list"

fun bt_insert :: "'k::linorder \<Rightarrow> 'v \<Rightarrow> ('k, 'v) btree_map \<Rightarrow> ('k, 'v) btree_map" where
  "bt_insert k v [] = [(k, v)]"
| "bt_insert k v ((k', v') # m) =
     (if k < k' then (k, v) # (k', v') # m else if k = k' then (k, v) # m else (k', v') # bt_insert k v m)"

definition bt_ok :: "('k::linorder, 'v) btree_map \<Rightarrow> bool" where
  "bt_ok m = sorted_wrt (<) (map fst m)"

text \<open>\<^verbatim>\<open>collect\<close> into a map: later pairs replace earlier ones.\<close>

definition bt_collect :: "('k::linorder \<times> 'v) list \<Rightarrow> ('k, 'v) btree_map" where
  "bt_collect kvs = foldl (\<lambda>m (k, v). bt_insert k v m) [] kvs"

text \<open>\<^verbatim>\<open>entry(key).or_insert_with(Vec::new).push(value)\<close> over a slice.\<close>

definition bt_push :: "'k::linorder \<Rightarrow> 'v \<Rightarrow> ('k, 'v list) btree_map \<Rightarrow> ('k, 'v list) btree_map" where
  "bt_push k v m = bt_insert k (unwrap_or (map_of m k) [] @ [v]) m"

definition bt_group :: "('v \<Rightarrow> 'k::linorder) \<Rightarrow> 'v list \<Rightarrow> ('k, 'v list) btree_map" where
  "bt_group key vs = foldl (\<lambda>m v. bt_push (key v) v m) [] vs"

text \<open>The interface of an ordered map and its interpretation on sorted lists.\<close>

locale ordered_map =
  fixes lookup :: "'m \<Rightarrow> 'k \<Rightarrow> 'v option"
    and emp :: 'm
    and ins :: "'k \<Rightarrow> 'v \<Rightarrow> 'm \<Rightarrow> 'm"
    and ok :: "'m \<Rightarrow> bool"
  assumes lookup_emp: "lookup emp = Map.empty"
    and lookup_ins: "ok m \<Longrightarrow> lookup (ins k v m) = (lookup m)(k \<mapsto> v)"
    and ok_emp: "ok emp"
    and ok_ins: "ok m \<Longrightarrow> ok (ins k v m)"
begin

lemma ok_foldl: "ok m \<Longrightarrow> ok (foldl (\<lambda>m (k, v). ins k v m) m kvs)"
  by (induction kvs arbitrary: m) (auto simp: ok_ins)

lemma lookup_foldl:
  "ok m \<Longrightarrow> lookup (foldl (\<lambda>m (k, v). ins k v m) m kvs) = lookup m ++ map_of (rev kvs)"
proof (induction kvs arbitrary: m)
  case (Cons kv kvs)
  obtain k v where kv: "kv = (k, v)" by fastforce
  have "lookup m ++ map_of (rev (kv # kvs)) = (lookup m)(k \<mapsto> v) ++ map_of (rev kvs)"
    by (auto simp: kv map_add_def fun_eq_iff split: option.splits)
  with Cons.IH[of "ins k v m"] Cons.prems kv show ?case
    by (simp only: foldl_Cons prod.case ok_ins lookup_ins)
qed (simp add: map_add_def)

end

lemma map_of_bt_insert [simp]: "map_of (bt_insert k v m) = (map_of m)(k \<mapsto> v)"
  by (induction m) auto

lemma set_bt_insert_keys: "fst ` set (bt_insert k v m) = insert k (fst ` set m)"
proof (induction m)
  case (Cons p m)
  then show ?case by (cases p) (simp add: insert_commute)
qed simp

lemma bt_ok_Nil [simp]: "bt_ok []" by (simp add: bt_ok_def)

lemma bt_ok_Cons: "bt_ok ((k, v) # m) \<longleftrightarrow> (\<forall>k'\<in>fst ` set m. k < k') \<and> bt_ok m"
  by (auto simp: bt_ok_def)

lemma bt_ok_insert: "bt_ok m \<Longrightarrow> bt_ok (bt_insert k v m)"
proof (induction m)
  case (Cons p m)
  obtain k' v' where p: "p = (k', v')" by fastforce
  from Cons.prems have m: "bt_ok m" and lt: "\<forall>x\<in>fst ` set m. k' < x" by (auto simp: p bt_ok_Cons)
  note IH = Cons.IH[OF m]
  have "\<forall>x\<in>fst ` set (bt_insert k v m). k' < x" if "\<not> k < k'" "k \<noteq> k'"
    using lt that by (auto simp: set_bt_insert_keys)
  with IH m lt show ?case by (auto simp: p bt_ok_Cons)
qed (simp add: bt_ok_def)

interpretation btree: ordered_map map_of "[]" "bt_insert :: 'k::linorder \<Rightarrow> _" bt_ok
  by unfold_locales (auto simp: bt_ok_insert)

lemma bt_collect_ok: "bt_ok (bt_collect kvs)"
  unfolding bt_collect_def by (rule btree.ok_foldl) simp

lemma map_of_bt_collect: "map_of (bt_collect kvs) = map_of (rev kvs)"
  unfolding bt_collect_def by (subst btree.lookup_foldl) (simp_all add: map_add_def)

lemma bt_ok_distinct: "bt_ok m \<Longrightarrow> distinct (map fst m)"
  unfolding bt_ok_def by (simp only: strict_sorted_iff)

lemma length_bt_insert: "length (bt_insert k v m) \<le> Suc (length m)"
  by (induction m) auto

lemma length_bt_collect: "length (bt_collect kvs) \<le> length kvs"
proof -
  have "length (foldl (\<lambda>m (k, v). bt_insert k v m) m kvs) \<le> length m + length kvs" for m :: "('a \<times> 'b) list"
  proof (induction kvs arbitrary: m)
    case (Cons p kvs)
    obtain k v where p: "p = (k, v)" by fastforce
    show ?case using Cons[of "bt_insert k v m"] length_bt_insert[of k v m] by (simp add: p)
  qed simp
  from this[of "[]"] show ?thesis by (simp add: bt_collect_def)
qed

lemma bt_insert_greatest: "\<forall>k'\<in>fst ` set m. k' < k \<Longrightarrow> bt_insert k v m = m @ [(k, v)]"
  by (induction m) auto

text \<open>Collecting the pairs of a map, in its order, gives the map back.\<close>

lemma bt_collect_id: "bt_ok m \<Longrightarrow> bt_collect m = m"
proof -
  have "bt_ok (acc @ m) \<Longrightarrow> foldl (\<lambda>m (k, v). bt_insert k v m) acc m = acc @ m" for acc
  proof (induction m arbitrary: acc)
    case (Cons p m)
    obtain k v where p: "p = (k, v)" by fastforce
    have "\<forall>k'\<in>fst ` set acc. k' < k"
      using Cons.prems by (auto simp: p bt_ok_def sorted_wrt_append)
    then have "bt_insert k v acc = acc @ [(k, v)]" by (rule bt_insert_greatest)
    then show ?case using Cons.IH[of "acc @ [p]"] Cons.prems by (simp add: p)
  qed simp
  from this[of "[]"] show "bt_ok m \<Longrightarrow> bt_collect m = m" by (simp add: bt_collect_def)
qed

lemma bt_map_values: "bt_ok m \<Longrightarrow> bt_ok (map (\<lambda>(k, v). (k, f k v)) m)"
  by (simp add: bt_ok_def case_prod_unfold comp_def)

lemma bt_ok_take: "bt_ok m \<Longrightarrow> bt_ok (take n m)"
  by (simp add: bt_ok_def take_map[symmetric] sorted_wrt_take)

lemma bt_ok_filter: "bt_ok m \<Longrightarrow> bt_ok (filter p m)"
  by (induction m) (auto simp: bt_ok_def)

lemma bt_group_ok: "bt_ok (bt_group key vs)"
proof -
  have "bt_ok m \<Longrightarrow> bt_ok (foldl (\<lambda>m v. bt_push (key v) v m) m vs)" for m
    by (induction vs arbitrary: m) (auto simp: bt_push_def bt_ok_insert)
  then show ?thesis by (simp add: bt_group_def)
qed

lemma map_of_bt_group:
  "map_of (bt_group key vs) k = (if \<exists>v\<in>set vs. key v = k then Some (filter (\<lambda>v. key v = k) vs) else None)"
proof -
  have "map_of (foldl (\<lambda>m v. bt_push (key v) v m) m vs) k =
      (if \<exists>v\<in>set vs. key v = k then Some (unwrap_or (map_of m k) [] @ filter (\<lambda>v. key v = k) vs)
       else map_of m k)" for m
    by (induction vs arbitrary: m) (auto simp: bt_push_def)
  from this[of "[]"] show ?thesis by (simp add: bt_group_def)
qed

section \<open>JSON values\<close>

datatype json_number = JN_PosInt nat | JN_NegInt int | JN_Float string

datatype json =
    J_Null
  | J_Bool bool
  | J_Number json_number
  | J_String string
  | J_Array "json list"
  | J_Object "(string \<times> json) list"

type_synonym json_map = "(string, json) btree_map"

fun json_as_object :: "json \<Rightarrow> json_map option" where
  "json_as_object (J_Object m) = Some m"
| "json_as_object _ = None"

fun json_as_array :: "json \<Rightarrow> json list option" where
  "json_as_array (J_Array vs) = Some vs"
| "json_as_array _ = None"

fun json_as_str :: "json \<Rightarrow> string option" where
  "json_as_str (J_String s) = Some s"
| "json_as_str _ = None"

fun json_as_bool :: "json \<Rightarrow> bool option" where
  "json_as_bool (J_Bool b) = Some b"
| "json_as_bool _ = None"

fun json_as_u64 :: "json \<Rightarrow> nat option" where
  "json_as_u64 (J_Number (JN_PosInt n)) = Some n"
| "json_as_u64 _ = None"

end
