(* ===== verification/Normalizer.thy ===== *)
theory Normalizer
  imports Processor Crontab Json_Values
begin

text \<open>
  The normalizer of error events, \<^verbatim>\<open>crates/application/src/normalizer.rs\<close>: a JSON object becomes a
  \<^verbatim>\<open>NormalizedEvent\<close> within configured limits, and a normalized body has a canonical JSON projection.

  The context (a node counter and the diagnostics) is passed explicitly; a fallible operation is a
  function from the context to an error or a value with the next context. Parsing and printing of
  JSON text and floating point numbers are parameters (\<open>json_ops\<close>).
\<close>

section \<open>Limits\<close>

definition HARD_MAX_DEPTH :: nat where "HARD_MAX_DEPTH = 32"
definition HARD_MAX_NODES :: nat where "HARD_MAX_NODES = 65536"
definition HARD_MAX_COLLECTION :: nat where "HARD_MAX_COLLECTION = 4096"
definition HARD_MAX_DIAGNOSTICS :: nat where "HARD_MAX_DIAGNOSTICS = 256"
definition HARD_MAX_STRING_BYTES :: nat where "HARD_MAX_STRING_BYTES = 1024 * 1024"
definition MAX_RELEASE_BYTES :: nat where "MAX_RELEASE_BYTES = 200"
definition MAX_DIST_BYTES :: nat where "MAX_DIST_BYTES = 64"
definition MAX_ENVIRONMENT_BYTES :: nat where "MAX_ENVIRONMENT_BYTES = 64"
definition MAX_PLATFORM_BYTES :: nat where "MAX_PLATFORM_BYTES = 64"
definition MAX_LOGGER_BYTES :: nat where "MAX_LOGGER_BYTES = 256"
definition MAX_MESSAGE_BYTES :: nat where "MAX_MESSAGE_BYTES = 8 * 1024"
definition MAX_FIELD_BYTES :: nat where "MAX_FIELD_BYTES = 2 * 1024"
definition MAX_CONTEXT_LINE_BYTES :: nat where "MAX_CONTEXT_LINE_BYTES = 4 * 1024"
definition MAX_TAG_KEY_BYTES :: nat where "MAX_TAG_KEY_BYTES = 200"
definition MAX_TAG_VALUE_BYTES :: nat where "MAX_TAG_VALUE_BYTES = 200"

record normalizer_limits =
  nl_max_depth :: nat
  nl_max_nodes :: nat
  nl_max_diagnostics :: nat
  nl_max_exceptions :: nat
  nl_max_frames :: nat
  nl_max_tags :: nat
  nl_max_breadcrumbs :: nat
  nl_max_fingerprint :: nat
  nl_max_unknown_fields :: nat
  nl_max_object_fields :: nat
  nl_max_array_items :: nat
  nl_max_string_bytes :: nat

definition NormalizerLimits_default :: normalizer_limits where
  "NormalizerLimits_default = \<lparr>nl_max_depth = 16, nl_max_nodes = 16384, nl_max_diagnostics = 64,
     nl_max_exceptions = 64, nl_max_frames = 512, nl_max_tags = 200, nl_max_breadcrumbs = 100,
     nl_max_fingerprint = 32, nl_max_unknown_fields = 128, nl_max_object_fields = 256,
     nl_max_array_items = 512, nl_max_string_bytes = 16 * 1024\<rparr>"

datatype normalizer_config_error = NC_OutOfRange

definition NormalizerLimits_validate :: "normalizer_limits \<Rightarrow> normalizer_config_error + normalizer_limits" where
  "NormalizerLimits_validate l =
     (let collections = [nl_max_exceptions l, nl_max_frames l, nl_max_tags l, nl_max_breadcrumbs l,
            nl_max_fingerprint l, nl_max_unknown_fields l, nl_max_object_fields l, nl_max_array_items l];
          vals = [nl_max_depth l, nl_max_nodes l, nl_max_diagnostics l] @ collections @ [nl_max_string_bytes l]
      in if 0 \<in> set vals \<or> nl_max_depth l > HARD_MAX_DEPTH \<or> nl_max_nodes l > HARD_MAX_NODES
           \<or> nl_max_diagnostics l > HARD_MAX_DIAGNOSTICS
           \<or> list_ex (\<lambda>v. v > HARD_MAX_COLLECTION) collections
           \<or> nl_max_string_bytes l > HARD_MAX_STRING_BYTES
         then Inl NC_OutOfRange else Inr l)"

section \<open>The context\<close>

record norm_context =
  cx_nodes :: nat
  cx_diagnostics :: "normalization_diagnostic list"

definition Context_new :: norm_context where
  "Context_new = \<lparr>cx_nodes = 0, cx_diagnostics = []\<rparr>"

type_synonym 'a norm = "norm_context \<Rightarrow> normalization_error + 'a \<times> norm_context"

definition ret :: "'a \<Rightarrow> 'a norm" where
  "ret x = (\<lambda>c. Inr (x, c))"

definition bindN :: "'a norm \<Rightarrow> ('a \<Rightarrow> 'b norm) \<Rightarrow> 'b norm" where
  "bindN m f = (\<lambda>c. and_then (m c) (\<lambda>(x, c'). f x c'))"

definition failN :: "normalization_error \<Rightarrow> 'a norm" where
  "failN e = (\<lambda>c. Inl e)"

fun mapN :: "('a \<Rightarrow> 'b norm) \<Rightarrow> 'a list \<Rightarrow> 'b list norm" where
  "mapN f [] = ret []"
| "mapN f (x # xs) = bindN (f x) (\<lambda>y. bindN (mapN f xs) (\<lambda>ys. ret (y # ys)))"

definition filter_mapN :: "('a \<Rightarrow> 'b option norm) \<Rightarrow> 'a list \<Rightarrow> 'b list norm" where
  "filter_mapN f xs = bindN (mapN f xs) (\<lambda>ys. ret (List.map_filter id ys))"

definition visit :: "normalizer_limits \<Rightarrow> nat \<Rightarrow> unit norm" where
  "visit l depth = (\<lambda>c.
     let nodes = min (cx_nodes c + 1) u64_max in
     if depth > nl_max_depth l \<or> nodes > nl_max_nodes l then Inl NE_TooComplex
     else Inr ((), c\<lparr>cx_nodes := nodes\<rparr>))"

definition diagnostic :: "normalizer_limits \<Rightarrow> normalization_diagnostic_code \<Rightarrow> string \<Rightarrow> unit norm" where
  "diagnostic l code path = (\<lambda>c. Inr ((),
     if length (cx_diagnostics c) < nl_max_diagnostics l
        \<and> \<not> list_ex (\<lambda>d. nd_code d = code \<and> nd_path d = path) (cx_diagnostics c)
     then c\<lparr>cx_diagnostics := cx_diagnostics c @ [\<lparr>nd_code = code, nd_path = path\<rparr>]\<rparr> else c))"

definition diagnostic_if :: "bool \<Rightarrow> normalizer_limits \<Rightarrow> normalization_diagnostic_code \<Rightarrow> string \<Rightarrow> unit norm" where
  "diagnostic_if b l code path = (if b then diagnostic l code path else ret ())"

section \<open>Strings and levels\<close>

definition identity_string :: "json_map \<Rightarrow> string \<Rightarrow> nat \<Rightarrow> string option norm" where
  "identity_string root key maximum = (case map_of root key of
       Some (J_String v) \<Rightarrow>
         (if v = [] then ret None
          else if length v \<le> maximum then ret (Some v)
          else failN NE_IdentityFieldTooLarge)
     | _ \<Rightarrow> ret None)"

definition value_string :: "normalizer_limits \<Rightarrow> json \<Rightarrow> nat \<Rightarrow> string \<Rightarrow> string option norm" where
  "value_string l v maximum path = (case v of
       J_Null \<Rightarrow> ret None
     | J_String s \<Rightarrow>
         (if s = [] then ret None
          else let maximum = min maximum (nl_max_string_bytes l) in
            if length s \<le> maximum then ret (Some s)
            else bindN (diagnostic l ND_StringTruncated path) (\<lambda>_. ret (Some (truncate_utf8 s maximum))))
     | _ \<Rightarrow> bindN (diagnostic l ND_InvalidFieldType path) (\<lambda>_. ret None))"

definition optional_string :: "normalizer_limits \<Rightarrow> json_map \<Rightarrow> string \<Rightarrow> nat \<Rightarrow> string \<Rightarrow> string option norm" where
  "optional_string l root key maximum path = (case map_of root key of
       None \<Rightarrow> ret None
     | Some v \<Rightarrow> value_string l v maximum path)"

definition message_field :: "normalizer_limits \<Rightarrow> json option \<Rightarrow> string \<Rightarrow> string option norm" where
  "message_field l v path = (case v of
       None \<Rightarrow> ret None
     | Some v \<Rightarrow>
         (case (case v of
              J_Object entry \<Rightarrow> opt_or (map_of entry ''formatted'') (map_of entry ''message'')
            | v \<Rightarrow> Some v) of
            None \<Rightarrow> ret None
          | Some v \<Rightarrow> value_string l v MAX_MESSAGE_BYTES path))"

definition normalize_event_message :: "normalizer_limits \<Rightarrow> json_map \<Rightarrow> string option norm" where
  "normalize_event_message l root =
     bindN (message_field l (map_of root ''message'') ''message'') (\<lambda>m. case m of
       Some m \<Rightarrow> ret (Some m)
     | None \<Rightarrow> message_field l (map_of root ''logentry'') ''logentry'')"

definition platform_of :: "string \<Rightarrow> event_platform" where
  "platform_of v =
     (if v = ''other'' then Platform_Other
      else if v = ''javascript'' then Platform_JavaScript
      else if v = ''node'' then Platform_Node
      else if v = ''python'' then Platform_Python
      else if v = ''java'' \<or> v = ''android'' then Platform_Java
      else if v = ''csharp'' \<or> v = ''dotnet'' then Platform_DotNet
      else if v = ''go'' then Platform_Go
      else if v = ''rust'' then Platform_Rust
      else if v = ''php'' then Platform_Php
      else if v = ''ruby'' then Platform_Ruby
      else if v = ''cocoa'' \<or> v = ''objc'' \<or> v = ''swift'' then Platform_Cocoa
      else if v = ''native'' \<or> v = ''c'' \<or> v = ''cpp'' then Platform_Native
      else if v = ''dart'' \<or> v = ''flutter'' then Platform_Dart
      else Platform_Custom v)"

definition normalize_platform :: "normalizer_limits \<Rightarrow> json option \<Rightarrow> event_platform norm" where
  "normalize_platform l v = (case v of
       None \<Rightarrow> ret Platform_Other
     | Some v \<Rightarrow> bindN (value_string l v MAX_PLATFORM_BYTES ''platform'') (\<lambda>s. case s of
         None \<Rightarrow> ret Platform_Other
       | Some s \<Rightarrow> ret (platform_of s)))"

definition level_of :: "string \<Rightarrow> event_level option" where
  "level_of v =
     (if v = ''debug'' then Some Level_Debug
      else if v = ''info'' \<or> v = ''log'' then Some Level_Info
      else if v = ''warning'' \<or> v = ''warn'' then Some Level_Warning
      else if v = ''error'' then Some Level_Error
      else if v = ''fatal'' then Some Level_Fatal
      else None)"

definition normalize_level :: "normalizer_limits \<Rightarrow> json option \<Rightarrow> string \<Rightarrow> event_level option norm" where
  "normalize_level l v path = (case v of
       None \<Rightarrow> ret None
     | Some v \<Rightarrow> (case json_as_str v of
         None \<Rightarrow> bindN (diagnostic l ND_InvalidFieldType path) (\<lambda>_. ret None)
       | Some s \<Rightarrow> (case level_of s of
           Some level \<Rightarrow> ret (Some level)
         | None \<Rightarrow> bindN (diagnostic l ND_InvalidLevel path) (\<lambda>_. ret None))))"

definition normalize_string_array ::
  "normalizer_limits \<Rightarrow> json option \<Rightarrow> nat \<Rightarrow> nat \<Rightarrow> string \<Rightarrow> string list norm" where
  "normalize_string_array l v maximum string_maximum path = (case v of
       None \<Rightarrow> ret []
     | Some v \<Rightarrow> (case json_as_array v of
         None \<Rightarrow> bindN (diagnostic l ND_InvalidFieldType path) (\<lambda>_. ret [])
       | Some vs \<Rightarrow>
           bindN (diagnostic_if (length vs > maximum) l ND_CollectionTruncated path) (\<lambda>_.
           filter_mapN (\<lambda>v. value_string l v string_maximum path) (take maximum vs))))"

section \<open>Canonical values\<close>

record json_ops =
  jo_from_slice :: "bytes \<Rightarrow> json option"
  jo_to_vec :: "json \<Rightarrow> bytes"
  jo_number_to_string :: "json_number \<Rightarrow> string"
  jo_number_from_str :: "string \<Rightarrow> json option"
  jo_number_millis :: "json_number \<Rightarrow> (unit + int) option"
  jo_millis_number :: "int \<Rightarrow> json_number"

lemma mapN_cong [fundef_cong]:
  "xs = ys \<Longrightarrow> (\<And>x. x \<in> set ys \<Longrightarrow> f x = g x) \<Longrightarrow> mapN f xs = mapN g ys"
  by (induction xs arbitrary: ys) auto

lemma json_in_array: "v \<in> set vs \<Longrightarrow> size v < size (J_Array vs)"
  by (simp add: size_list_estimation' less_Suc_eq_le)

lemma json_in_object: "kv \<in> set m \<Longrightarrow> size (snd kv) < size (J_Object m)"
proof -
  assume "kv \<in> set m"
  then have "size_prod (\<lambda>_. 0) size kv \<le> size_list (size_prod (\<lambda>_. 0) size) m"
    by (simp add: size_list_estimation')
  moreover have "size (snd kv) \<le> size_prod (\<lambda>_. 0) size kv" by (cases kv) simp
  ultimately show ?thesis by simp
qed

function canonicalize :: "json_ops \<Rightarrow> normalizer_limits \<Rightarrow> json \<Rightarrow> nat \<Rightarrow> string \<Rightarrow> canonical_value norm" where
  "canonicalize J l v depth path = bindN (visit l depth) (\<lambda>_. case v of
       J_Null \<Rightarrow> ret CV_Null
     | J_Bool b \<Rightarrow> ret (CV_Bool b)
     | J_Number n \<Rightarrow> ret (CV_Number (jo_number_to_string J n))
     | J_String s \<Rightarrow>
         bindN (diagnostic_if (length s > nl_max_string_bytes l) l ND_StringTruncated path) (\<lambda>_.
         ret (CV_String (truncate_utf8 s (nl_max_string_bytes l))))
     | J_Array vs \<Rightarrow>
         bindN (diagnostic_if (length vs > nl_max_array_items l) l ND_CollectionTruncated path) (\<lambda>_.
         bindN (mapN (\<lambda>v. canonicalize J l v (depth + 1) path) (take (nl_max_array_items l) vs)) (\<lambda>xs.
         ret (CV_Array xs)))
     | J_Object m \<Rightarrow>
         bindN (diagnostic_if (length m > nl_max_object_fields l) l ND_CollectionTruncated path) (\<lambda>_.
         bindN (mapN (\<lambda>kv. bindN (canonicalize J l (snd kv) (depth + 1) path) (\<lambda>x. ret (fst kv, x)))
           (take (nl_max_object_fields l) m)) (\<lambda>xs.
         ret (CV_Object (bt_collect xs)))))"
  by pat_completeness auto
termination
proof (relation "measure (\<lambda>(J, l, v, depth, path). size v)", goal_cases)
  case (2 J l v depth path _ vs _ x)
  then show ?case using json_in_array[of x vs, OF in_set_takeD] by simp
next
  case (3 J l v depth path _ m _ kv)
  then show ?case using json_in_object[of kv m, OF in_set_takeD] by simp
qed simp

declare canonicalize.simps [simp del]

definition normalize_optional_object ::
  "json_ops \<Rightarrow> normalizer_limits \<Rightarrow> json option \<Rightarrow> string \<Rightarrow> canonical_value option norm" where
  "normalize_optional_object J l v path = (case v of
       None \<Rightarrow> ret None
     | Some J_Null \<Rightarrow> ret None
     | Some (J_Object m) \<Rightarrow> bindN (canonicalize J l (J_Object m) 0 path) (\<lambda>x. ret (Some x))
     | Some _ \<Rightarrow> bindN (diagnostic l ND_InvalidFieldType path) (\<lambda>_. ret None))"

definition canonicalize_entries ::
  "json_ops \<Rightarrow> normalizer_limits \<Rightarrow> json_map \<Rightarrow> string \<Rightarrow> canonical_map norm" where
  "canonicalize_entries J l m path =
     bindN (mapN (\<lambda>kv. bindN (canonicalize J l (snd kv) 1 path) (\<lambda>x. ret (fst kv, x))) m) (\<lambda>xs.
     ret (bt_collect xs))"

definition normalize_named_object ::
  "json_ops \<Rightarrow> normalizer_limits \<Rightarrow> json option \<Rightarrow> string \<Rightarrow> canonical_map norm" where
  "normalize_named_object J l v path = (case v of
       None \<Rightarrow> ret []
     | Some J_Null \<Rightarrow> ret []
     | Some (J_Object m) \<Rightarrow>
         bindN (diagnostic_if (length m > nl_max_object_fields l) l ND_CollectionTruncated path) (\<lambda>_.
         canonicalize_entries J l (take (nl_max_object_fields l) m) path)
     | Some _ \<Rightarrow> bindN (diagnostic l ND_InvalidFieldType path) (\<lambda>_. ret []))"

definition normalize_unknown ::
  "json_ops \<Rightarrow> normalizer_limits \<Rightarrow> json_map \<Rightarrow> string list \<Rightarrow> string \<Rightarrow> canonical_map norm" where
  "normalize_unknown J l m known path =
     (let unknown = filter (\<lambda>kv. fst kv \<notin> set known) m in
      bindN (diagnostic_if (length unknown > nl_max_unknown_fields l) l ND_UnknownFieldsTruncated path) (\<lambda>_.
      canonicalize_entries J l (take (nl_max_unknown_fields l) unknown) path))"

definition bounded_scalar_string ::
  "json_ops \<Rightarrow> normalizer_limits \<Rightarrow> json \<Rightarrow> nat \<Rightarrow> string \<Rightarrow> string option norm" where
  "bounded_scalar_string J l v maximum path = (case v of
       J_String s \<Rightarrow>
         (if length s \<le> maximum then ret (Some s)
          else bindN (diagnostic l ND_StringTruncated path) (\<lambda>_. ret None))
     | J_Number n \<Rightarrow>
         (let s = jo_number_to_string J n in ret (if length s \<le> maximum then Some s else None))
     | J_Bool b \<Rightarrow> ret (Some (if b then ''true'' else ''false''))
     | _ \<Rightarrow> ret None)"

section \<open>Timestamps\<close>

definition days_in_month :: "int \<Rightarrow> int \<Rightarrow> int" where
  "days_in_month year month =
     (if month = 4 \<or> month = 6 \<or> month = 9 \<or> month = 11 then 30
      else if month = 2 \<and> year mod 4 = 0 \<and> (year mod 100 \<noteq> 0 \<or> year mod 400 = 0) then 29
      else if month = 2 then 28
      else 31)"

text \<open>
  Division of machine integers truncates; every dividend below is non-negative, the negative era
  being adjusted by the source itself.
\<close>

definition days_from_civil :: "int \<Rightarrow> int \<Rightarrow> int \<Rightarrow> int" where
  "days_from_civil year month day =
     (let year = year - (if month \<le> 2 then 1 else 0);
          era = (if year \<ge> 0 then year div 400 else - ((399 - year) div 400));
          year_of_era = year - era * 400;
          day_of_year = (153 * (month + (if month > 2 then -3 else 9)) + 2) div 5 + day - 1;
          day_of_era = year_of_era * 365 + year_of_era div 4 - year_of_era div 100 + day_of_year
      in era * 146097 + day_of_era - 719468)"

text \<open>\<^verbatim>\<open>str::get\<close> of a range, digits only; \<open>None\<close> when the range is out of bounds or not all digits.\<close>

definition parse_digits_at :: "string \<Rightarrow> nat \<Rightarrow> nat \<Rightarrow> primitive_error + int" where
  "parse_digits_at v start len =
     (if start + len \<le> length v \<and> is_char_boundary v start \<and> is_char_boundary v (start + len)
         \<and> list_all is_ascii_digit (take len (drop start v))
      then ok_or PE_TimestampOutOfRange
        (map_option int (parse_unsigned 10 (2 ^ 32) (take len (drop start v))))
      else Inl PE_TimestampOutOfRange)"

definition byte_at :: "string \<Rightarrow> nat \<Rightarrow> char option" where
  "byte_at v i = (if i < length v then Some (v ! i) else None)"

definition rfc3339_fraction :: "string \<Rightarrow> primitive_error + int \<times> nat" where
  "rfc3339_fraction v =
     (if byte_at v 19 = Some (CHR ''.'') then
        (let fraction = takeWhile is_ascii_digit (drop 20 v); first_three = take 3 fraction in
         if fraction = [] then Inl PE_TimestampOutOfRange
         else and_then (ok_or PE_TimestampOutOfRange (parse_signed 10 (2 ^ 63) first_three)) (\<lambda>millis.
           Inr (millis * 10 ^ (3 - length first_three), 20 + length fraction)))
      else Inr (0, 19))"

definition rfc3339_offset :: "string \<Rightarrow> nat \<Rightarrow> primitive_error + int" where
  "rfc3339_offset v cursor =
     (if (byte_at v cursor = Some (CHR ''Z'') \<or> byte_at v cursor = Some (CHR ''z'')) \<and> cursor + 1 = length v
      then Inr 0
      else if (byte_at v cursor = Some (CHR ''+'') \<or> byte_at v cursor = Some (CHR ''-''))
           \<and> cursor + 6 = length v \<and> byte_at v (cursor + 3) = Some (CHR '':'')
      then and_then (parse_digits_at v (cursor + 1) 2) (\<lambda>hours.
           and_then (parse_digits_at v (cursor + 4) 2) (\<lambda>minutes.
             if hours > 23 \<or> minutes > 59 then Inl PE_TimestampOutOfRange
             else let offset = hours * 3600 + minutes * 60 in
               Inr (if byte_at v cursor = Some (CHR ''-'') then - offset else offset)))
      else Inl PE_TimestampOutOfRange)"

definition rfc3339_seconds :: "int \<Rightarrow> int \<Rightarrow> int \<Rightarrow> int \<Rightarrow> int \<Rightarrow> int \<Rightarrow> int \<Rightarrow> int option" where
  "rfc3339_seconds year month day hour minute second offset =
     Option.bind (checked_i64 (days_from_civil year month day * 86400)) (\<lambda>s.
     Option.bind (checked_i64 (s + (hour * 3600 + minute * 60 + second))) (\<lambda>s.
     checked_i64 (s - offset)))"

definition parse_rfc3339_millis :: "string \<Rightarrow> primitive_error + int" where
  "parse_rfc3339_millis v =
     (if length v < 20 \<or> byte_at v 4 \<noteq> Some (CHR ''-'') \<or> byte_at v 7 \<noteq> Some (CHR ''-'')
         \<or> \<not> (byte_at v 10 = Some (CHR ''T'') \<or> byte_at v 10 = Some (CHR ''t'') \<or> byte_at v 10 = Some (CHR '' ''))
         \<or> byte_at v 13 \<noteq> Some (CHR '':'') \<or> byte_at v 16 \<noteq> Some (CHR '':'')
      then Inl PE_TimestampOutOfRange
      else
        and_then (parse_digits_at v 0 4) (\<lambda>year.
        and_then (parse_digits_at v 5 2) (\<lambda>month.
        and_then (parse_digits_at v 8 2) (\<lambda>day.
        and_then (parse_digits_at v 11 2) (\<lambda>hour.
        and_then (parse_digits_at v 14 2) (\<lambda>minute.
        and_then (parse_digits_at v 17 2) (\<lambda>second.
        if \<not> (1 \<le> month \<and> month \<le> 12) \<or> day = 0 \<or> day > days_in_month year month
           \<or> hour > 23 \<or> minute > 59 \<or> second > 59
        then Inl PE_TimestampOutOfRange
        else
          and_then (rfc3339_fraction v) (\<lambda>(millis, cursor).
          and_then (rfc3339_offset v cursor) (\<lambda>offset.
          ok_or PE_TimestampOutOfRange
            (Option.bind (rfc3339_seconds year month day hour minute second offset) (\<lambda>s.
             Option.bind (checked_i64 (s * 1000)) (\<lambda>ms. checked_i64 (ms + millis)))))))))))))"

definition parse_timestamp :: "json_ops \<Rightarrow> json \<Rightarrow> (unit + timestamp) option" where
  "parse_timestamp J v = (case v of
       J_Number n \<Rightarrow> map_option (\<lambda>r. and_then r (\<lambda>ms. map_err (\<lambda>_. ()) (Timestamp_from_unix_millis ms)))
         (jo_number_millis J n)
     | J_String s \<Rightarrow> Some (map_err (\<lambda>_. ()) (and_then (parse_rfc3339_millis s) Timestamp_from_unix_millis))
     | _ \<Rightarrow> Some (Inl ()))"


section \<open>Frames, exceptions, tags and breadcrumbs\<close>

definition FRAME_FIELDS :: "string list" where
  "FRAME_FIELDS = [''filename'', ''abs_path'', ''function'', ''module'', ''package'', ''instruction_addr'',
     ''symbol_addr'', ''lineno'', ''colno'', ''in_app'', ''context_line'', ''pre_context'',
     ''post_context'', ''vars'']"

definition normalize_frame :: "json_ops \<Rightarrow> normalizer_limits \<Rightarrow> json_map \<Rightarrow> normalized_frame norm" where
  "normalize_frame J l frame =
     bindN (optional_string l frame ''filename'' MAX_FIELD_BYTES ''frame.filename'') (\<lambda>filename.
     bindN (optional_string l frame ''abs_path'' MAX_FIELD_BYTES ''frame.abs_path'') (\<lambda>absolute_path.
     bindN (optional_string l frame ''function'' MAX_FIELD_BYTES ''frame.function'') (\<lambda>func.
     bindN (optional_string l frame ''module'' MAX_FIELD_BYTES ''frame.module'') (\<lambda>module.
     bindN (optional_string l frame ''package'' MAX_FIELD_BYTES ''frame.package'') (\<lambda>package.
     bindN (optional_string l frame ''instruction_addr'' MAX_FIELD_BYTES ''frame.instruction_addr'')
       (\<lambda>instruction_address.
     bindN (optional_string l frame ''symbol_addr'' MAX_FIELD_BYTES ''frame.symbol_addr'') (\<lambda>symbol_address.
     bindN (optional_string l frame ''context_line'' MAX_CONTEXT_LINE_BYTES ''frame.context_line'')
       (\<lambda>context_line.
     bindN (normalize_string_array l (map_of frame ''pre_context'') 32 MAX_CONTEXT_LINE_BYTES
       ''frame.pre_context'') (\<lambda>pre_context.
     bindN (normalize_string_array l (map_of frame ''post_context'') 32 MAX_CONTEXT_LINE_BYTES
       ''frame.post_context'') (\<lambda>post_context.
     bindN (normalize_named_object J l (map_of frame ''vars'') ''frame.vars'') (\<lambda>variables.
     bindN (normalize_unknown J l frame FRAME_FIELDS ''frame.unknown'') (\<lambda>unknown.
     ret \<lparr>nf_filename = filename, nf_absolute_path = absolute_path, nf_function = func,
       nf_module = module, nf_package = package, nf_instruction_address = instruction_address,
       nf_symbol_address = symbol_address,
       nf_line = Option.bind (map_of frame ''lineno'') json_as_u64,
       nf_column = Option.bind (map_of frame ''colno'') json_as_u64,
       nf_in_app = Option.bind (map_of frame ''in_app'') json_as_bool,
       nf_context_line = context_line, nf_pre_context = pre_context, nf_post_context = post_context,
       nf_variables = variables, nf_unknown = unknown\<rparr>))))))))))))"

text \<open>\<^verbatim>\<open>value.as_object().and_then(|o| o.get(key)).unwrap_or(value)\<close>.\<close>

definition unwrap_list :: "string \<Rightarrow> json \<Rightarrow> json" where
  "unwrap_list key v = unwrap_or (Option.bind (json_as_object v) (\<lambda>m. map_of m key)) v"

definition normalize_objects ::
  "normalizer_limits \<Rightarrow> string \<Rightarrow> nat \<Rightarrow> string \<Rightarrow> string \<Rightarrow> (json_map \<Rightarrow> 'a norm) \<Rightarrow> json option \<Rightarrow> 'a list norm" where
  "normalize_objects l key maximum path truncated f v = (case v of
       None \<Rightarrow> ret []
     | Some v \<Rightarrow> (case json_as_array (unwrap_list key v) of
         None \<Rightarrow> bindN (diagnostic l ND_InvalidFieldType path) (\<lambda>_. ret [])
       | Some vs \<Rightarrow>
           bindN (diagnostic_if (length vs > maximum) l ND_CollectionTruncated truncated) (\<lambda>_.
           mapN f (List.map_filter json_as_object (take maximum vs)))))"

definition normalize_stacktrace ::
  "json_ops \<Rightarrow> normalizer_limits \<Rightarrow> json option \<Rightarrow> string \<Rightarrow> normalized_frame list norm" where
  "normalize_stacktrace J l v path =
     normalize_objects l ''frames'' (nl_max_frames l) path path (normalize_frame J l) v"

definition EXCEPTION_FIELDS :: "string list" where
  "EXCEPTION_FIELDS = [''type'', ''value'', ''module'', ''thread_id'', ''mechanism'', ''stacktrace'',
     ''raw_stacktrace'']"

definition normalize_exception :: "json_ops \<Rightarrow> normalizer_limits \<Rightarrow> json_map \<Rightarrow> normalized_exception norm" where
  "normalize_exception J l ex =
     bindN (case map_of ex ''thread_id'' of None \<Rightarrow> ret None
       | Some v \<Rightarrow> bounded_scalar_string J l v MAX_FIELD_BYTES ''exception.thread_id'') (\<lambda>thread_id.
     bindN (optional_string l ex ''type'' MAX_FIELD_BYTES ''exception.type'') (\<lambda>ty.
     bindN (optional_string l ex ''value'' MAX_MESSAGE_BYTES ''exception.value'') (\<lambda>val.
     bindN (optional_string l ex ''module'' MAX_FIELD_BYTES ''exception.module'') (\<lambda>module.
     bindN (case map_of ex ''mechanism'' of None \<Rightarrow> ret None
       | Some v \<Rightarrow> bindN (canonicalize J l v 1 ''exception.mechanism'') (\<lambda>x. ret (Some x))) (\<lambda>mechanism.
     bindN (normalize_stacktrace J l (map_of ex ''stacktrace'') ''exception.stacktrace'') (\<lambda>stacktrace.
     bindN (normalize_stacktrace J l (map_of ex ''raw_stacktrace'') ''exception.raw_stacktrace'')
       (\<lambda>raw_stacktrace.
     bindN (normalize_unknown J l ex EXCEPTION_FIELDS ''exception.unknown'') (\<lambda>unknown.
     ret \<lparr>nx_ty = ty, nx_value = val, nx_module = module, nx_thread_id = thread_id,
       nx_mechanism = mechanism, nx_stacktrace = stacktrace, nx_raw_stacktrace = raw_stacktrace,
       nx_unknown = unknown\<rparr>))))))))"

definition normalize_exceptions ::
  "json_ops \<Rightarrow> normalizer_limits \<Rightarrow> json option \<Rightarrow> normalized_exception list norm" where
  "normalize_exceptions J l v =
     normalize_objects l ''values'' (nl_max_exceptions l) ''exception'' ''exception.values''
       (normalize_exception J l) v"

text \<open>The two loops over the wire tags; the flag records a key inserted twice.\<close>

fun tags_of_object ::
  "json_ops \<Rightarrow> normalizer_limits \<Rightarrow> json_map \<Rightarrow> (string, string) btree_map \<Rightarrow> (string, string) btree_map norm" where
  "tags_of_object J l [] tags = ret tags"
| "tags_of_object J l ((k, v) # m) tags =
     bindN (bounded_scalar_string J l v MAX_TAG_VALUE_BYTES ''tags'') (\<lambda>s. case s of
       Some s \<Rightarrow> tags_of_object J l m (bt_insert k s tags)
     | None \<Rightarrow> tags_of_object J l m tags)"

definition tag_pair :: "json \<Rightarrow> (string \<times> string) option" where
  "tag_pair v = (case json_as_array v of
       Some (a # b # _) \<Rightarrow> Option.bind (json_as_str a) (\<lambda>k. map_option (\<lambda>s. (k, s)) (json_as_str b))
     | _ \<Rightarrow> None)"

definition tag_ok :: "string \<Rightarrow> string \<Rightarrow> bool" where
  "tag_ok k v = (\<not> (k = [] \<or> length k > MAX_TAG_KEY_BYTES \<or> length v > MAX_TAG_VALUE_BYTES))"

fun tags_of_array ::
  "normalizer_limits \<Rightarrow> json list \<Rightarrow> (string, string) btree_map \<Rightarrow> bool
   \<Rightarrow> ((string, string) btree_map \<times> bool) norm" where
  "tags_of_array l [] tags dup = ret (tags, dup)"
| "tags_of_array l (v # vs) tags dup = (case tag_pair v of
       None \<Rightarrow> tags_of_array l vs tags dup
     | Some (k, s) \<Rightarrow>
         (if \<not> tag_ok k s
          then bindN (diagnostic l ND_StringTruncated ''tags'') (\<lambda>_. tags_of_array l vs tags dup)
          else tags_of_array l vs (bt_insert k s tags) (dup \<or> map_of tags k \<noteq> None)))"

definition keep_tag :: "normalizer_limits \<Rightarrow> string \<times> string \<Rightarrow> normalized_tag option norm" where
  "keep_tag l kv = (if \<not> tag_ok (fst kv) (snd kv)
     then bindN (diagnostic l ND_StringTruncated ''tags'') (\<lambda>_. ret None)
     else ret (Some \<lparr>tag_key = fst kv, tag_value = snd kv\<rparr>))"

definition normalize_tags :: "json_ops \<Rightarrow> normalizer_limits \<Rightarrow> json option \<Rightarrow> normalized_tag list norm" where
  "normalize_tags J l v = (case v of
       None \<Rightarrow> ret []
     | Some v \<Rightarrow>
         bindN (case v of
             J_Object m \<Rightarrow> bindN (tags_of_object J l m []) (\<lambda>tags. ret (tags, False))
           | J_Array vs \<Rightarrow> tags_of_array l vs [] False
           | _ \<Rightarrow> bindN (diagnostic l ND_InvalidFieldType ''tags'') (\<lambda>_. ret ([], False))) (\<lambda>(tags, dup).
         bindN (diagnostic_if dup l ND_DuplicateTag ''tags'') (\<lambda>_.
         bindN (diagnostic_if (length tags > nl_max_tags l) l ND_CollectionTruncated ''tags'') (\<lambda>_.
         filter_mapN (keep_tag l) (take (nl_max_tags l) tags)))))"

definition BREADCRUMB_FIELDS :: "string list" where
  "BREADCRUMB_FIELDS = [''timestamp'', ''type'', ''category'', ''level'', ''message'', ''data'']"

definition normalize_breadcrumb :: "json_ops \<Rightarrow> normalizer_limits \<Rightarrow> json_map \<Rightarrow> normalized_breadcrumb norm" where
  "normalize_breadcrumb J l b =
     bindN (case transpose_opt (Option.bind (map_of b ''timestamp'') (parse_timestamp J)) of
         Inr t \<Rightarrow> ret t
       | Inl _ \<Rightarrow> bindN (diagnostic l ND_InvalidTimestamp ''breadcrumb.timestamp'') (\<lambda>_. ret None)) (\<lambda>time.
     bindN (optional_string l b ''type'' MAX_FIELD_BYTES ''breadcrumb.type'') (\<lambda>ty.
     bindN (optional_string l b ''category'' MAX_FIELD_BYTES ''breadcrumb.category'') (\<lambda>category.
     bindN (normalize_level l (map_of b ''level'') ''breadcrumb.level'') (\<lambda>level.
     bindN (optional_string l b ''message'' MAX_MESSAGE_BYTES ''breadcrumb.message'') (\<lambda>message.
     bindN (normalize_named_object J l (map_of b ''data'') ''breadcrumb.data'') (\<lambda>data.
     bindN (normalize_unknown J l b BREADCRUMB_FIELDS ''breadcrumb.unknown'') (\<lambda>unknown.
     ret \<lparr>bc_timestamp = time, bc_ty = ty, bc_category = category, bc_level = level,
       bc_message = message, bc_data = data, bc_unknown = unknown\<rparr>)))))))"

definition normalize_breadcrumbs ::
  "json_ops \<Rightarrow> normalizer_limits \<Rightarrow> json option \<Rightarrow> normalized_breadcrumb list norm" where
  "normalize_breadcrumbs J l v =
     normalize_objects l ''values'' (nl_max_breadcrumbs l) ''breadcrumbs'' ''breadcrumbs''
       (normalize_breadcrumb J l) v"

section \<open>The event\<close>

definition ROOT_FIELDS :: "string list" where
  "ROOT_FIELDS = [''event_id'', ''timestamp'', ''platform'', ''level'', ''logger'', ''message'', ''logentry'',
     ''transaction'', ''release'', ''dist'', ''environment'', ''fingerprint'', ''exception'', ''stacktrace'',
     ''tags'', ''request'', ''user'', ''contexts'', ''breadcrumbs'']"

definition normalize_occurred_at :: "json_ops \<Rightarrow> normalizer_limits \<Rightarrow> json_map \<Rightarrow> timestamp \<Rightarrow> timestamp norm" where
  "normalize_occurred_at J l root received_at =
     (case transpose_opt (Option.bind (map_of root ''timestamp'') (parse_timestamp J)) of
        Inr (Some t) \<Rightarrow> ret t
      | Inr None \<Rightarrow> bindN (diagnostic_if (map_of root ''timestamp'' \<noteq> None) l ND_InvalidTimestamp ''timestamp'')
          (\<lambda>_. ret received_at)
      | Inl _ \<Rightarrow> bindN (diagnostic l ND_InvalidTimestamp ''timestamp'') (\<lambda>_. ret received_at))"

definition normalize_body :: "json_ops \<Rightarrow> normalizer_limits \<Rightarrow> json_map \<Rightarrow> timestamp \<Rightarrow> normalized_event_body norm" where
  "normalize_body J l root received_at =
     bindN (normalize_occurred_at J l root received_at) (\<lambda>occurred_at.
     bindN (identity_string root ''release'' MAX_RELEASE_BYTES) (\<lambda>release.
     bindN (identity_string root ''dist'' MAX_DIST_BYTES) (\<lambda>dist.
     bindN (identity_string root ''environment'' MAX_ENVIRONMENT_BYTES) (\<lambda>environment.
     bindN (normalize_platform l (map_of root ''platform'')) (\<lambda>platform.
     bindN (normalize_level l (map_of root ''level'') ''level'') (\<lambda>level.
     bindN (optional_string l root ''logger'' MAX_LOGGER_BYTES ''logger'') (\<lambda>logger.
     bindN (normalize_event_message l root) (\<lambda>message.
     bindN (optional_string l root ''transaction'' MAX_FIELD_BYTES ''transaction'') (\<lambda>transaction.
     bindN (normalize_string_array l (map_of root ''fingerprint'') (nl_max_fingerprint l) MAX_FIELD_BYTES
       ''fingerprint'') (\<lambda>fingerprint.
     bindN (normalize_exceptions J l (map_of root ''exception'')) (\<lambda>exceptions.
     bindN (normalize_stacktrace J l (map_of root ''stacktrace'') ''stacktrace'') (\<lambda>stacktrace.
     bindN (normalize_tags J l (map_of root ''tags'')) (\<lambda>tags.
     bindN (normalize_optional_object J l (map_of root ''request'') ''request'') (\<lambda>request.
     bindN (normalize_optional_object J l (map_of root ''user'') ''user'') (\<lambda>user.
     bindN (normalize_named_object J l (map_of root ''contexts'') ''contexts'') (\<lambda>contexts.
     bindN (normalize_breadcrumbs J l (map_of root ''breadcrumbs'')) (\<lambda>breadcrumbs.
     bindN (normalize_unknown J l root ROOT_FIELDS ''unknown'') (\<lambda>unknown.
     ret \<lparr>nb_occurred_at = occurred_at, nb_platform = platform, nb_level = unwrap_or level Level_Error,
       nb_logger = logger, nb_message = message, nb_transaction = transaction, nb_release = release,
       nb_dist = dist, nb_environment = environment, nb_fingerprint = fingerprint,
       nb_exceptions = exceptions, nb_stacktrace = stacktrace, nb_tags = tags, nb_request = request,
       nb_user = user, nb_contexts = contexts, nb_breadcrumbs = breadcrumbs, nb_unknown = unknown\<rparr>))))))))))))))))))"

definition Normalizer_normalize ::
  "json_ops \<Rightarrow> normalizer_limits \<Rightarrow> accepted_event \<Rightarrow> normalization_error + normalized_event" where
  "Normalizer_normalize J l e =
     and_then (ok_or NE_InvalidJson (jo_from_slice J (ae_payload e))) (\<lambda>v.
     and_then (ok_or NE_InvalidRoot (json_as_object v)) (\<lambda>root.
     and_then (normalize_body J l root (ae_received_at e) Context_new) (\<lambda>(body, c).
     Inr \<lparr>ne_project_id = ae_project_id e, ne_event_id = ae_event_id e, ne_received_at = ae_received_at e,
       ne_policy_revision = ae_policy_revision e, ne_body = body, ne_diagnostics = cx_diagnostics c\<rparr>)))"

section \<open>The canonical projection\<close>

fun canonical_to_value :: "json_ops \<Rightarrow> canonical_value \<Rightarrow> json" where
  "canonical_to_value J CV_Null = J_Null"
| "canonical_to_value J (CV_Bool b) = J_Bool b"
| "canonical_to_value J (CV_Number s) = unwrap_or (jo_number_from_str J s) J_Null"
| "canonical_to_value J (CV_String s) = J_String s"
| "canonical_to_value J (CV_Array vs) = J_Array (map (canonical_to_value J) vs)"
| "canonical_to_value J (CV_Object m) = J_Object (bt_collect (map (\<lambda>kv. (fst kv, canonical_to_value J (snd kv))) m))"

definition canonical_map_to_json_map :: "json_ops \<Rightarrow> canonical_map \<Rightarrow> json_map" where
  "canonical_map_to_json_map J m = bt_collect (map (\<lambda>kv. (fst kv, canonical_to_value J (snd kv))) m)"

definition canonical_map_to_value :: "json_ops \<Rightarrow> canonical_map \<Rightarrow> json" where
  "canonical_map_to_value J m = J_Object (canonical_map_to_json_map J m)"

text \<open>Guarded insertions into an object, in the order of the source.\<close>

definition insert_some :: "string \<Rightarrow> json option \<Rightarrow> json_map \<Rightarrow> json_map" where
  "insert_some k v m = (case v of None \<Rightarrow> m | Some v \<Rightarrow> bt_insert k v m)"

definition insert_optional :: "string \<Rightarrow> string option \<Rightarrow> json_map \<Rightarrow> json_map" where
  "insert_optional k v m = insert_some k (map_option J_String v) m"

definition insert_list :: "string \<Rightarrow> ('a list \<Rightarrow> json) \<Rightarrow> 'a list \<Rightarrow> json_map \<Rightarrow> json_map" where
  "insert_list k f xs m = (if xs = [] then m else bt_insert k (f xs) m)"

definition strings_value :: "string list \<Rightarrow> json" where
  "strings_value ss = J_Array (map J_String ss)"

definition seconds_value :: "json_ops \<Rightarrow> timestamp \<Rightarrow> json" where
  "seconds_value J t = J_Number (jo_millis_number J t)"

definition u64_value :: "nat \<Rightarrow> json" where
  "u64_value n = J_Number (JN_PosInt n)"

definition frame_to_value :: "json_ops \<Rightarrow> normalized_frame \<Rightarrow> json" where
  "frame_to_value J f = J_Object (
     (insert_list ''vars'' (canonical_map_to_value J) (nf_variables f) \<circ>
      insert_list ''post_context'' strings_value (nf_post_context f) \<circ>
      insert_list ''pre_context'' strings_value (nf_pre_context f) \<circ>
      insert_optional ''context_line'' (nf_context_line f) \<circ>
      insert_some ''in_app'' (map_option J_Bool (nf_in_app f)) \<circ>
      insert_some ''colno'' (map_option u64_value (nf_column f)) \<circ>
      insert_some ''lineno'' (map_option u64_value (nf_line f)) \<circ>
      insert_optional ''symbol_addr'' (nf_symbol_address f) \<circ>
      insert_optional ''instruction_addr'' (nf_instruction_address f) \<circ>
      insert_optional ''package'' (nf_package f) \<circ>
      insert_optional ''module'' (nf_module f) \<circ>
      insert_optional ''function'' (nf_function f) \<circ>
      insert_optional ''abs_path'' (nf_absolute_path f) \<circ>
      insert_optional ''filename'' (nf_filename f)) (canonical_map_to_json_map J (nf_unknown f)))"

definition frames_to_value :: "json_ops \<Rightarrow> normalized_frame list \<Rightarrow> json" where
  "frames_to_value J fs = J_Object [(''frames'', J_Array (map (frame_to_value J) fs))]"

definition exception_to_value :: "json_ops \<Rightarrow> normalized_exception \<Rightarrow> json" where
  "exception_to_value J x = J_Object (
     (insert_list ''raw_stacktrace'' (frames_to_value J) (nx_raw_stacktrace x) \<circ>
      insert_list ''stacktrace'' (frames_to_value J) (nx_stacktrace x) \<circ>
      insert_some ''mechanism'' (map_option (canonical_to_value J) (nx_mechanism x)) \<circ>
      insert_optional ''thread_id'' (nx_thread_id x) \<circ>
      insert_optional ''module'' (nx_module x) \<circ>
      insert_optional ''value'' (nx_value x) \<circ>
      insert_optional ''type'' (nx_ty x)) (canonical_map_to_json_map J (nx_unknown x)))"

definition breadcrumb_to_value :: "json_ops \<Rightarrow> normalized_breadcrumb \<Rightarrow> json" where
  "breadcrumb_to_value J b = J_Object (
     (insert_list ''data'' (canonical_map_to_value J) (bc_data b) \<circ>
      insert_optional ''message'' (bc_message b) \<circ>
      insert_optional ''level'' (map_option EventLevel_as_str (bc_level b)) \<circ>
      insert_optional ''category'' (bc_category b) \<circ>
      insert_optional ''type'' (bc_ty b) \<circ>
      insert_some ''timestamp'' (map_option (seconds_value J) (bc_timestamp b)))
     (canonical_map_to_json_map J (bc_unknown b)))"

definition tag_to_value :: "normalized_tag \<Rightarrow> json" where
  "tag_to_value t = J_Array [J_String (tag_key t), J_String (tag_value t)]"

definition body_known :: "json_ops \<Rightarrow> normalized_event_body \<Rightarrow> json_map" where
  "body_known J b =
     (insert_list ''breadcrumbs'' (\<lambda>bs. J_Object [(''values'', J_Array (map (breadcrumb_to_value J) bs))])
        (nb_breadcrumbs b) \<circ>
      insert_list ''contexts'' (canonical_map_to_value J) (nb_contexts b) \<circ>
      insert_some ''user'' (map_option (canonical_to_value J) (nb_user b)) \<circ>
      insert_some ''request'' (map_option (canonical_to_value J) (nb_request b)) \<circ>
      insert_list ''tags'' (\<lambda>ts. J_Array (map tag_to_value ts)) (nb_tags b) \<circ>
      insert_list ''stacktrace'' (frames_to_value J) (nb_stacktrace b) \<circ>
      insert_list ''exception'' (\<lambda>xs. J_Object [(''values'', J_Array (map (exception_to_value J) xs))])
        (nb_exceptions b) \<circ>
      insert_list ''fingerprint'' strings_value (nb_fingerprint b) \<circ>
      insert_optional ''environment'' (nb_environment b) \<circ>
      insert_optional ''dist'' (nb_dist b) \<circ>
      insert_optional ''release'' (nb_release b) \<circ>
      insert_optional ''transaction'' (nb_transaction b) \<circ>
      insert_optional ''message'' (nb_message b) \<circ>
      insert_optional ''logger'' (nb_logger b) \<circ>
      insert_optional ''level'' (if nb_level b \<noteq> Level_Error then Some (EventLevel_as_str (nb_level b)) else None) \<circ>
      insert_optional ''platform''
        (if nb_platform b \<noteq> Platform_Other then Some (EventPlatform_as_str (nb_platform b)) else None) \<circ>
      bt_insert ''timestamp'' (seconds_value J (nb_occurred_at b))) []"

definition body_to_value :: "json_ops \<Rightarrow> normalized_event_body \<Rightarrow> json" where
  "body_to_value J b =
     J_Object (foldl (\<lambda>m kv. bt_insert (fst kv) (canonical_to_value J (snd kv)) m) (body_known J b) (nb_unknown b))"

definition canonical_json :: "json_ops \<Rightarrow> normalized_event_body \<Rightarrow> bytes" where
  "canonical_json J b = jo_to_vec J (body_to_value J b)"

section \<open>Triples for the normalizer\<close>

definition context_ok :: "normalizer_limits \<Rightarrow> norm_context \<Rightarrow> bool" where
  "context_ok l c = (cx_nodes c \<le> nl_max_nodes l \<and> length (cx_diagnostics c) \<le> nl_max_diagnostics l
     \<and> distinct (cx_diagnostics c))"

text \<open>
  From a valid context the operation leaves a valid one; it fails only with an error of \<open>E\<close>, and
  otherwise \<open>Q\<close> holds of the result and the number of nodes visited.
\<close>

definition norm_spec :: "normalizer_limits \<Rightarrow> normalization_error set \<Rightarrow> 'a norm \<Rightarrow> ('a \<Rightarrow> nat \<Rightarrow> bool) \<Rightarrow> bool" where
  "norm_spec l E m Q = (\<forall>c. context_ok l c \<longrightarrow> (case m c of
       Inl e \<Rightarrow> e \<in> E
     | Inr (x, c') \<Rightarrow> context_ok l c' \<and> cx_nodes c \<le> cx_nodes c' \<and> Q x (cx_nodes c' - cx_nodes c)))"

named_theorems norm_rules \<open>triples of the normalizer's operations\<close>

lemma norm_specE:
  assumes "norm_spec l E m Q" "context_ok l c" "m c = Inr (x, c')"
  shows "context_ok l c' \<and> cx_nodes c \<le> cx_nodes c' \<and> Q x (cx_nodes c' - cx_nodes c)"
proof -
  have "case m c of Inl e \<Rightarrow> e \<in> E
     | Inr (x, c') \<Rightarrow> context_ok l c' \<and> cx_nodes c \<le> cx_nodes c' \<and> Q x (cx_nodes c' - cx_nodes c)"
    using assms(1,2) unfolding norm_spec_def by blast
  then show ?thesis by (simp add: assms(3))
qed

lemma norm_spec_error: "norm_spec l E m Q \<Longrightarrow> context_ok l c \<Longrightarrow> m c = Inl e \<Longrightarrow> e \<in> E"
  by (force simp: norm_spec_def)

lemma norm_specI:
  assumes "\<And>c e. context_ok l c \<Longrightarrow> m c = Inl e \<Longrightarrow> e \<in> E"
    and "\<And>c x c'. context_ok l c \<Longrightarrow> m c = Inr (x, c') \<Longrightarrow>
      context_ok l c' \<and> cx_nodes c \<le> cx_nodes c' \<and> Q x (cx_nodes c' - cx_nodes c)"
  shows "norm_spec l E m Q"
  unfolding norm_spec_def using assms by (auto split: sum.splits)

lemma norm_ret: "Q x 0 \<Longrightarrow> norm_spec l E (ret x) Q"
  by (simp add: norm_spec_def ret_def)

lemma norm_fail: "e \<in> E \<Longrightarrow> norm_spec l E (failN e) Q"
  by (simp add: norm_spec_def failN_def)

lemma norm_weaken: "norm_spec l E m Q \<Longrightarrow> (\<And>x n. Q x n \<Longrightarrow> Q' x n) \<Longrightarrow> norm_spec l E m Q'"
  by (rule norm_specI) (blast dest: norm_spec_error norm_specE)+

lemma norm_bind:
  assumes m: "norm_spec l E m P" and f: "\<And>x k. P x k \<Longrightarrow> norm_spec l E (f x) (\<lambda>y n. Q y (k + n))"
  shows "norm_spec l E (bindN m f) Q"
proof (rule norm_specI)
  fix c e
  assume c: "context_ok l c" and "bindN m f c = Inl e"
  then consider "m c = Inl e" | x c1 where "m c = Inr (x, c1)" "f x c1 = Inl e"
    by (auto simp: bindN_def result_simps)
  then show "e \<in> E"
  proof cases
    case 1
    with m c show ?thesis by (rule norm_spec_error)
  next
    case (2 x c1)
    note s = norm_specE[OF m c 2(1)]
    with f[of x] 2(2) show ?thesis by (blast intro: norm_spec_error)
  qed
next
  fix c y c'
  assume c: "context_ok l c" and "bindN m f c = Inr (y, c')"
  then obtain x c1 where 1: "m c = Inr (x, c1)" and 2: "f x c1 = Inr (y, c')"
    by (auto simp: bindN_def result_simps)
  note s = norm_specE[OF m c 1]
  then have "norm_spec l E (f x) (\<lambda>y n. Q y (cx_nodes c1 - cx_nodes c + n))" using f by blast
  note t = norm_specE[OF this _ 2]
  with s have "cx_nodes c1 - cx_nodes c + (cx_nodes c' - cx_nodes c1) = cx_nodes c' - cx_nodes c" by simp
  with s t show "context_ok l c' \<and> cx_nodes c \<le> cx_nodes c' \<and> Q y (cx_nodes c' - cx_nodes c)"
    by (metis le_trans)
qed

text \<open>The form used in proofs: the triple of the first operation, then the rest.\<close>

lemma norm_mapN:
  assumes "\<And>x. x \<in> set xs \<Longrightarrow> norm_spec l E (f x) (\<lambda>y n. P y \<and> w y \<le> n)"
  shows "norm_spec l E (mapN f xs)
    (\<lambda>ys n. length ys = length xs \<and> list_all P ys \<and> sum_list (map w ys) \<le> (n :: nat))"
  using assms
proof (induction xs)
  case (Cons x xs)
  show ?case
    unfolding mapN.simps
    by (rule norm_bind[OF Cons.prems], simp, rule norm_bind[OF Cons.IH], rule Cons.prems, simp)
      (rule norm_ret, auto)
qed (simp add: norm_ret)

lemma norm_filter_mapN:
  assumes "\<And>x. x \<in> set xs \<Longrightarrow> norm_spec l E (f x) (\<lambda>y n. is_none_or y P)"
  shows "norm_spec l E (filter_mapN f xs) (\<lambda>ys n. length ys \<le> length xs \<and> list_all P ys)"
proof -
  have "norm_spec l E (mapN f xs) (\<lambda>ys n. length ys = length xs \<and> list_all (\<lambda>y. is_none_or y P) ys
      \<and> sum_list (map (\<lambda>_. 0) ys) \<le> n)"
    by (rule norm_mapN, rule norm_weaken, rule assms) simp_all
  then show ?thesis unfolding filter_mapN_def
    by (rule norm_bind, intro norm_ret)
      (auto simp: List.map_filter_def list_all_iff intro: order_trans[OF length_filter_le])
qed

lemma norm_diagnostic [norm_rules]: "norm_spec l E (diagnostic l code path) (\<lambda>_ n. n = 0)"
  by (auto simp: norm_spec_def diagnostic_def context_ok_def list_ex_iff)

lemma norm_diagnostic_if [norm_rules]: "norm_spec l E (diagnostic_if b l code path) (\<lambda>_ n. n = 0)"
  by (simp add: diagnostic_if_def norm_diagnostic norm_ret)

lemma norm_visit [norm_rules]:
  "NE_TooComplex \<in> E \<Longrightarrow> nl_max_nodes l < u64_max \<Longrightarrow>
   norm_spec l E (visit l depth) (\<lambda>_ n. depth \<le> nl_max_depth l \<and> n = 1)"
  by (auto simp: norm_spec_def visit_def context_ok_def Let_def min_def)

section \<open>Canonical values are within the limits\<close>

fun cv_nodes :: "canonical_value \<Rightarrow> nat" where
  "cv_nodes (CV_Array vs) = Suc (sum_list (map cv_nodes vs))"
| "cv_nodes (CV_Object m) = Suc (sum_list (map (\<lambda>kv. cv_nodes (snd kv)) m))"
| "cv_nodes _ = 1"

fun cv_within :: "normalizer_limits \<Rightarrow> nat \<Rightarrow> canonical_value \<Rightarrow> bool" where
  "cv_within l d (CV_String s) = (d \<le> nl_max_depth l \<and> length s \<le> nl_max_string_bytes l)"
| "cv_within l d (CV_Array vs) =
     (d \<le> nl_max_depth l \<and> length vs \<le> nl_max_array_items l \<and> list_all (\<lambda>v. cv_within l (Suc d) v) vs)"
| "cv_within l d (CV_Object m) =
     (d \<le> nl_max_depth l \<and> length m \<le> nl_max_object_fields l \<and> bt_ok m
      \<and> list_all (\<lambda>kv. cv_within l (Suc d) (snd kv)) m)"
| "cv_within l d _ = (d \<le> nl_max_depth l)"

definition map_nodes :: "canonical_map \<Rightarrow> nat" where
  "map_nodes m = sum_list (map (\<lambda>kv. cv_nodes (snd kv)) m)"

definition map_within :: "normalizer_limits \<Rightarrow> nat \<Rightarrow> canonical_map \<Rightarrow> bool" where
  "map_within l n m = (length m \<le> n \<and> bt_ok m \<and> list_all (\<lambda>kv. cv_within l 1 (snd kv)) m)"

lemma sum_bt_insert: "sum_list (map w (bt_insert k v m)) \<le> w (k, v) + (sum_list (map w m) :: nat)"
  by (induction m) auto

lemma sum_bt_collect: "sum_list (map w (bt_collect xs)) \<le> (sum_list (map w xs) :: nat)"
proof -
  have "sum_list (map w (foldl (\<lambda>m (k, v). bt_insert k v m) m xs)) \<le> sum_list (map w m) + sum_list (map w xs)" for m
  proof (induction xs arbitrary: m)
    case (Cons x xs)
    obtain k v where x: "x = (k, v)" by fastforce
    show ?case using Cons[of "bt_insert k v m"] sum_bt_insert[of w k v m] by (simp add: x)
  qed simp
  from this[of "[]"] show ?thesis by (simp add: bt_collect_def)
qed

lemma set_bt_insert: "set (bt_insert k v m) \<subseteq> insert (k, v) (set m)"
  by (induction m) (auto split: if_splits)

lemma set_bt_collect: "set (bt_collect xs) \<subseteq> set xs"
proof -
  have "set (foldl (\<lambda>m (k, v). bt_insert k v m) m xs) \<subseteq> set m \<union> set xs" for m
  proof (induction xs arbitrary: m)
    case (Cons x xs)
    obtain k v where x: "x = (k, v)" by fastforce
    show ?case using Cons[of "bt_insert k v m"] set_bt_insert[of k v m] by (auto simp: x)
  qed simp
  from this[of "[]"] show ?thesis by (simp add: bt_collect_def)
qed

lemma list_all_bt_collect: "list_all p xs \<Longrightarrow> list_all p (bt_collect xs)"
  using set_bt_collect[of xs] by (auto simp: list_all_iff)

lemmas bt_collect_facts = list_all_bt_collect bt_collect_ok order_trans[OF length_bt_collect]
  order_trans[OF sum_bt_collect]

lemma norm_entries:
  assumes "\<And>kv. kv \<in> set m \<Longrightarrow> norm_spec l E (f (snd kv)) (\<lambda>y n. P y \<and> cv_nodes y \<le> n)"
  shows "norm_spec l E (mapN (\<lambda>kv. bindN (f (snd kv)) (\<lambda>x. ret (fst kv, x))) m)
    (\<lambda>xs n. length xs = length m \<and> list_all (\<lambda>kv. P (snd kv)) xs \<and> map_nodes xs \<le> n)"
  unfolding map_nodes_def
  by (rule norm_mapN, rule norm_bind, rule assms, assumption, rule norm_ret) simp

lemma norm_canonicalize [norm_rules]:
  assumes E: "NE_TooComplex \<in> E" and l: "nl_max_nodes l < u64_max"
  shows "norm_spec l E (canonicalize J l v depth path) (\<lambda>x n. cv_within l depth x \<and> cv_nodes x \<le> n)"
  using l
proof (induction J l v depth path rule: canonicalize.induct)
  case (1 J l v depth path)
  show ?case
  proof (subst canonicalize.simps, rule norm_bind[OF norm_visit])
    fix u k
    assume "depth \<le> nl_max_depth l \<and> k = (1 :: nat)"
    then have d: "depth \<le> nl_max_depth l" and k: "k = 1" by simp_all
    show "norm_spec l E (case v of
       J_Null \<Rightarrow> ret CV_Null
     | J_Bool b \<Rightarrow> ret (CV_Bool b)
     | J_Number n \<Rightarrow> ret (CV_Number (jo_number_to_string J n))
     | J_String s \<Rightarrow>
         bindN (diagnostic_if (length s > nl_max_string_bytes l) l ND_StringTruncated path) (\<lambda>_.
         ret (CV_String (truncate_utf8 s (nl_max_string_bytes l))))
     | J_Array vs \<Rightarrow>
         bindN (diagnostic_if (length vs > nl_max_array_items l) l ND_CollectionTruncated path) (\<lambda>_.
         bindN (mapN (\<lambda>v. canonicalize J l v (depth + 1) path) (take (nl_max_array_items l) vs)) (\<lambda>xs.
         ret (CV_Array xs)))
     | J_Object m \<Rightarrow>
         bindN (diagnostic_if (length m > nl_max_object_fields l) l ND_CollectionTruncated path) (\<lambda>_.
         bindN (mapN (\<lambda>kv. bindN (canonicalize J l (snd kv) (depth + 1) path) (\<lambda>x. ret (fst kv, x)))
           (take (nl_max_object_fields l) m)) (\<lambda>xs.
         ret (CV_Object (bt_collect xs)))))
       (\<lambda>x n. cv_within l depth x \<and> cv_nodes x \<le> k + n)"
    proof (cases v)
      case (J_Array vs)
      have "norm_spec l E (mapN (\<lambda>v. canonicalize J l v (depth + 1) path) (take (nl_max_array_items l) vs))
          (\<lambda>ys n. length ys = length (take (nl_max_array_items l) vs) \<and> list_all (\<lambda>v. cv_within l (depth + 1) v) ys
            \<and> sum_list (map cv_nodes ys) \<le> n)"
        by (rule norm_mapN, rule "1.IH"(1)) (use J_Array "1.prems" in simp_all)
      then have "norm_spec l E (bindN (mapN (\<lambda>v. canonicalize J l v (depth + 1) path)
          (take (nl_max_array_items l) vs)) (\<lambda>xs. ret (CV_Array xs))) (\<lambda>x n. cv_within l depth x \<and> cv_nodes x \<le> k + n)"
        by (rule norm_bind, intro norm_ret) (use d k in auto)
      then show ?thesis
        unfolding J_Array json.case by (intro norm_bind[OF norm_diagnostic_if]) simp
    next
      case (J_Object m)
      have "norm_spec l E (mapN (\<lambda>kv. bindN (canonicalize J l (snd kv) (depth + 1) path) (\<lambda>x. ret (fst kv, x)))
          (take (nl_max_object_fields l) m))
          (\<lambda>xs n. length xs = length (take (nl_max_object_fields l) m) \<and> list_all (\<lambda>kv. cv_within l (depth + 1) (snd kv)) xs
            \<and> map_nodes xs \<le> n)"
        by (rule norm_entries, rule "1.IH"(2)) (use J_Object "1.prems" in simp_all)
      then have "norm_spec l E (bindN (mapN (\<lambda>kv. bindN (canonicalize J l (snd kv) (depth + 1) path) (\<lambda>x. ret (fst kv, x)))
          (take (nl_max_object_fields l) m)) (\<lambda>xs. ret (CV_Object (bt_collect xs))))
          (\<lambda>x n. cv_within l depth x \<and> cv_nodes x \<le> k + n)"
        by (rule norm_bind, intro norm_ret) (use d k in \<open>auto simp: map_nodes_def intro!: bt_collect_facts\<close>)
      then show ?thesis
        unfolding J_Object json.case by (intro norm_bind[OF norm_diagnostic_if]) simp
    qed (use d k in \<open>auto intro!: norm_ret norm_bind[OF norm_diagnostic_if] truncate_utf8_spec(2)\<close>)
  qed (use E "1.prems" in auto)
qed

section \<open>Normalized events are within the limits\<close>

definition str_within :: "normalizer_limits \<Rightarrow> nat \<Rightarrow> string option \<Rightarrow> bool" where
  "str_within l n s = is_none_or s (\<lambda>v. length v \<le> min n (nl_max_string_bytes l))"

definition strs_within :: "normalizer_limits \<Rightarrow> nat \<Rightarrow> nat \<Rightarrow> string list \<Rightarrow> bool" where
  "strs_within l count n ss = (length ss \<le> count \<and> list_all (\<lambda>v. length v \<le> min n (nl_max_string_bytes l)) ss)"

definition frame_nodes :: "normalized_frame \<Rightarrow> nat" where
  "frame_nodes f = map_nodes (nf_variables f) + map_nodes (nf_unknown f)"

definition frame_within :: "normalizer_limits \<Rightarrow> normalized_frame \<Rightarrow> bool" where
  "frame_within l f =
     (list_all (str_within l MAX_FIELD_BYTES)
        [nf_filename f, nf_absolute_path f, nf_function f, nf_module f, nf_package f,
         nf_instruction_address f, nf_symbol_address f]
      \<and> str_within l MAX_CONTEXT_LINE_BYTES (nf_context_line f)
      \<and> strs_within l 32 MAX_CONTEXT_LINE_BYTES (nf_pre_context f)
      \<and> strs_within l 32 MAX_CONTEXT_LINE_BYTES (nf_post_context f)
      \<and> map_within l (nl_max_object_fields l) (nf_variables f)
      \<and> map_within l (nl_max_unknown_fields l) (nf_unknown f))"

definition frames_within :: "normalizer_limits \<Rightarrow> normalized_frame list \<Rightarrow> bool" where
  "frames_within l fs = (length fs \<le> nl_max_frames l \<and> list_all (frame_within l) fs)"

definition exception_nodes :: "normalized_exception \<Rightarrow> nat" where
  "exception_nodes x = (case nx_mechanism x of None \<Rightarrow> 0 | Some m \<Rightarrow> cv_nodes m)
     + sum_list (map frame_nodes (nx_stacktrace x)) + sum_list (map frame_nodes (nx_raw_stacktrace x))
     + map_nodes (nx_unknown x)"

definition exception_within :: "normalizer_limits \<Rightarrow> normalized_exception \<Rightarrow> bool" where
  "exception_within l x =
     (str_within l MAX_FIELD_BYTES (nx_ty x) \<and> str_within l MAX_MESSAGE_BYTES (nx_value x)
      \<and> str_within l MAX_FIELD_BYTES (nx_module x)
      \<and> is_none_or (nx_thread_id x) (\<lambda>v. length v \<le> MAX_FIELD_BYTES)
      \<and> is_none_or (nx_mechanism x) (cv_within l 1)
      \<and> frames_within l (nx_stacktrace x) \<and> frames_within l (nx_raw_stacktrace x)
      \<and> map_within l (nl_max_unknown_fields l) (nx_unknown x))"

definition breadcrumb_nodes :: "normalized_breadcrumb \<Rightarrow> nat" where
  "breadcrumb_nodes b = map_nodes (bc_data b) + map_nodes (bc_unknown b)"

definition breadcrumb_within :: "normalizer_limits \<Rightarrow> normalized_breadcrumb \<Rightarrow> bool" where
  "breadcrumb_within l b =
     (str_within l MAX_FIELD_BYTES (bc_ty b) \<and> str_within l MAX_FIELD_BYTES (bc_category b)
      \<and> str_within l MAX_MESSAGE_BYTES (bc_message b)
      \<and> map_within l (nl_max_object_fields l) (bc_data b)
      \<and> map_within l (nl_max_unknown_fields l) (bc_unknown b))"

definition tags_within :: "normalizer_limits \<Rightarrow> normalized_tag list \<Rightarrow> bool" where
  "tags_within l ts = (length ts \<le> nl_max_tags l \<and> list_all (\<lambda>t. tag_ok (tag_key t) (tag_value t)) ts)"

definition identity_within :: "nat \<Rightarrow> string option \<Rightarrow> bool" where
  "identity_within n s = is_none_or s (\<lambda>v. v \<noteq> [] \<and> length v \<le> n)"

definition body_nodes :: "normalized_event_body \<Rightarrow> nat" where
  "body_nodes b = sum_list (map exception_nodes (nb_exceptions b)) + sum_list (map frame_nodes (nb_stacktrace b))
     + (case nb_request b of None \<Rightarrow> 0 | Some v \<Rightarrow> cv_nodes v)
     + (case nb_user b of None \<Rightarrow> 0 | Some v \<Rightarrow> cv_nodes v)
     + map_nodes (nb_contexts b) + sum_list (map breadcrumb_nodes (nb_breadcrumbs b)) + map_nodes (nb_unknown b)"

definition body_within :: "normalizer_limits \<Rightarrow> normalized_event_body \<Rightarrow> bool" where
  "body_within l b =
     (identity_within MAX_RELEASE_BYTES (nb_release b) \<and> identity_within MAX_DIST_BYTES (nb_dist b)
      \<and> identity_within MAX_ENVIRONMENT_BYTES (nb_environment b)
      \<and> str_within l MAX_LOGGER_BYTES (nb_logger b) \<and> str_within l MAX_MESSAGE_BYTES (nb_message b)
      \<and> str_within l MAX_FIELD_BYTES (nb_transaction b)
      \<and> strs_within l (nl_max_fingerprint l) MAX_FIELD_BYTES (nb_fingerprint b)
      \<and> length (nb_exceptions b) \<le> nl_max_exceptions l \<and> list_all (exception_within l) (nb_exceptions b)
      \<and> frames_within l (nb_stacktrace b) \<and> tags_within l (nb_tags b)
      \<and> is_none_or (nb_request b) (cv_within l 0) \<and> is_none_or (nb_user b) (cv_within l 0)
      \<and> map_within l (nl_max_object_fields l) (nb_contexts b)
      \<and> length (nb_breadcrumbs b) \<le> nl_max_breadcrumbs l \<and> list_all (breadcrumb_within l) (nb_breadcrumbs b)
      \<and> map_within l (nl_max_unknown_fields l) (nb_unknown b))"

definition can_fail :: "normalizer_limits \<Rightarrow> normalization_error set \<Rightarrow> bool" where
  "can_fail l E = (NE_TooComplex \<in> E \<and> nl_max_nodes l < u64_max)"

lemma norm_value_string: "norm_spec l E (value_string l v n path) (\<lambda>s k. str_within l n s \<and> k = 0)"
  using truncate_utf8_spec(2)[of _ "min n (nl_max_string_bytes l)"]
  by (auto simp: value_string_def Let_def str_within_def split: json.split
      intro!: norm_ret norm_bind[OF norm_diagnostic])

lemma str_within_None [simp]: "str_within l n None"
  by (simp add: str_within_def)

lemma norm_optional_string: "norm_spec l E (optional_string l m key n path) (\<lambda>s k. str_within l n s \<and> k = 0)"
  by (auto simp: optional_string_def split: option.split intro!: norm_ret norm_value_string)

lemma norm_identity_string:
  "NE_IdentityFieldTooLarge \<in> E \<Longrightarrow>
   norm_spec l E (identity_string m key n) (\<lambda>s k. identity_within n s \<and> k = 0)"
  by (auto simp: identity_string_def identity_within_def split: option.split json.split intro!: norm_ret norm_fail)

lemma norm_message: "norm_spec l E (normalize_event_message l m) (\<lambda>s k. str_within l MAX_MESSAGE_BYTES s \<and> k = 0)"
proof -
  have "norm_spec l E (message_field l v path) (\<lambda>s k. str_within l MAX_MESSAGE_BYTES s \<and> k = 0)" for v path
    by (auto simp: message_field_def split: option.split intro!: norm_value_string norm_ret)
  note field = this
  show ?thesis
    unfolding normalize_event_message_def
    by (rule norm_bind[OF field]) (auto split: option.split intro!: norm_ret field)
qed

lemma norm_platform: "norm_spec l E (normalize_platform l v) (\<lambda>_ k. k = 0)"
  unfolding normalize_platform_def
  by (auto split: option.split intro!: norm_ret norm_bind[OF norm_value_string])

lemma norm_level: "norm_spec l E (normalize_level l v path) (\<lambda>_ k. k = 0)"
  unfolding normalize_level_def
  by (auto split: option.split intro!: norm_ret norm_bind[OF norm_diagnostic])

lemma norm_string_array:
  "norm_spec l E (normalize_string_array l v count n path) (\<lambda>ss k. strs_within l count n ss)"
proof -
  have "norm_spec l E (value_string l x n path) (\<lambda>y k. is_none_or y (\<lambda>v. length v \<le> min n (nl_max_string_bytes l)))" for x
    using norm_value_string[of l E x n path] by (rule norm_weaken) (simp add: str_within_def)
  then have "norm_spec l E (filter_mapN (\<lambda>x. value_string l x n path) (take count vs)) (\<lambda>ss k. strs_within l count n ss)" for vs
    by (intro norm_weaken[OF norm_filter_mapN]) (auto simp: strs_within_def)
  then show ?thesis
    unfolding normalize_string_array_def
    by (auto split: option.split intro!: norm_ret norm_bind[OF norm_diagnostic] norm_bind[OF norm_diagnostic_if])
      (simp_all add: strs_within_def)
qed

lemma norm_canonicalize_entries:
  assumes "can_fail l E"
  shows "norm_spec l E (canonicalize_entries J l m path) (\<lambda>m' k. map_within l (length m) m' \<and> map_nodes m' \<le> k)"
proof -
  have "norm_spec l E (canonicalize J l v 1 path) (\<lambda>y k. cv_within l 1 y \<and> cv_nodes y \<le> k)" for v
    using assms by (intro norm_canonicalize) (simp_all add: can_fail_def)
  then show ?thesis
    unfolding canonicalize_entries_def
    by (intro norm_bind[OF norm_entries]) (auto simp: map_within_def map_nodes_def intro!: norm_ret bt_collect_facts)
qed

lemma map_within_mono: "map_within l n m \<Longrightarrow> n \<le> n' \<Longrightarrow> map_within l n' m"
  by (auto simp: map_within_def)

lemma map_empty_within [simp]: "map_within l n []" "map_nodes [] = 0"
  by (simp_all add: map_within_def map_nodes_def)

lemma norm_named_object:
  assumes "can_fail l E"
  shows "norm_spec l E (normalize_named_object J l v path)
    (\<lambda>m k. map_within l (nl_max_object_fields l) m \<and> map_nodes m \<le> k)"
  unfolding normalize_named_object_def
  by (auto split: option.split json.split intro: map_within_mono intro!: norm_ret norm_bind[OF norm_diagnostic]
      norm_bind[OF norm_diagnostic_if] norm_weaken[OF norm_canonicalize_entries[OF assms]])

lemma norm_unknown:
  assumes "can_fail l E"
  shows "norm_spec l E (normalize_unknown J l m known path)
    (\<lambda>m k. map_within l (nl_max_unknown_fields l) m \<and> map_nodes m \<le> k)"
  unfolding normalize_unknown_def Let_def
  by (auto intro: map_within_mono intro!: norm_bind[OF norm_diagnostic_if]
      norm_weaken[OF norm_canonicalize_entries[OF assms]])

lemma norm_optional_object:
  assumes "can_fail l E"
  shows "norm_spec l E (normalize_optional_object J l v path)
    (\<lambda>x k. is_none_or x (cv_within l 0) \<and> (case x of None \<Rightarrow> 0 | Some y \<Rightarrow> cv_nodes y) \<le> k)"
proof -
  have c: "norm_spec l E (canonicalize J l v 0 path) (\<lambda>y k. cv_within l 0 y \<and> cv_nodes y \<le> k)" for v
    using assms by (intro norm_canonicalize) (simp_all add: can_fail_def)
  show ?thesis
    unfolding normalize_optional_object_def
    by (auto split: option.split json.split intro!: norm_ret norm_bind[OF norm_diagnostic] norm_bind[OF c])
qed

lemma norm_frame:
  assumes H: "can_fail l E"
  shows "norm_spec l E (normalize_frame J l m) (\<lambda>f k. frame_within l f \<and> frame_nodes f \<le> k)"
  unfolding normalize_frame_def
  by (intro norm_bind[OF norm_optional_string] norm_bind[OF norm_string_array] norm_bind[OF norm_named_object[OF H]]
      norm_bind[OF norm_unknown[OF H]] norm_ret)
    (simp add: frame_within_def frame_nodes_def)

lemma norm_objects:
  assumes "\<And>m. norm_spec l E (f m) (\<lambda>y n. P y \<and> w y \<le> n)"
  shows "norm_spec l E (normalize_objects l key count path truncated f v)
    (\<lambda>ys n. (length ys \<le> count \<and> list_all P ys) \<and> sum_list (map w ys) \<le> (n :: nat))"
proof -
  have len: "length (List.map_filter json_as_object (take count vs)) \<le> count" for vs
    using length_filter_le[of "\<lambda>v. json_as_object v \<noteq> None" "take count vs"] by (simp add: List.map_filter_def)
  have "norm_spec l E (mapN f (List.map_filter json_as_object (take count vs)))
      (\<lambda>ys n. (length ys \<le> count \<and> list_all P ys) \<and> sum_list (map w ys) \<le> n)" for vs
    by (rule norm_weaken[OF norm_mapN[OF assms]]) (use len[of vs] in auto)
  then show ?thesis
    unfolding normalize_objects_def
    by (auto split: option.split intro!: norm_ret norm_bind[OF norm_diagnostic] norm_bind[OF norm_diagnostic_if])
qed

lemma norm_stacktrace:
  assumes "can_fail l E"
  shows "norm_spec l E (normalize_stacktrace J l v path)
    (\<lambda>fs k. frames_within l fs \<and> sum_list (map frame_nodes fs) \<le> k)"
  unfolding normalize_stacktrace_def frames_within_def by (rule norm_objects[OF norm_frame[OF assms]])

lemma norm_bounded_scalar: "norm_spec l E (bounded_scalar_string J l v n path) (\<lambda>s k. is_none_or s (\<lambda>s. length s \<le> max n 5) \<and> k = 0)"
  by (auto simp: bounded_scalar_string_def Let_def split: json.split intro!: norm_ret norm_bind[OF norm_diagnostic])

lemma norm_exception:
  assumes H: "can_fail l E"
  shows "norm_spec l E (normalize_exception J l m) (\<lambda>x k. exception_within l x \<and> exception_nodes x \<le> k)"
proof -
  have thread: "norm_spec l E (case map_of m ''thread_id'' of None \<Rightarrow> ret None
       | Some v \<Rightarrow> bounded_scalar_string J l v MAX_FIELD_BYTES ''exception.thread_id'')
      (\<lambda>s k. is_none_or s (\<lambda>s. length s \<le> MAX_FIELD_BYTES) \<and> k = 0)"
    using norm_bounded_scalar[of l E J _ MAX_FIELD_BYTES]
    by (auto simp: MAX_FIELD_BYTES_def split: option.split intro!: norm_ret)
  have c: "norm_spec l E (canonicalize J l v 1 path) (\<lambda>y k. cv_within l 1 y \<and> cv_nodes y \<le> k)" for v path
    using H by (intro norm_canonicalize) (simp_all add: can_fail_def)
  have mechanism: "norm_spec l E (case map_of m ''mechanism'' of None \<Rightarrow> ret None
       | Some v \<Rightarrow> bindN (canonicalize J l v 1 ''exception.mechanism'') (\<lambda>x. ret (Some x)))
      (\<lambda>x k. is_none_or x (cv_within l 1) \<and> (case x of None \<Rightarrow> 0 | Some y \<Rightarrow> cv_nodes y) \<le> k)"
    by (cases "map_of m ''mechanism''") (simp_all add: norm_ret norm_bind[OF c] del: One_nat_def)
  show ?thesis
    unfolding normalize_exception_def
    by (intro norm_bind[OF thread] norm_bind[OF mechanism] norm_bind[OF norm_optional_string]
        norm_bind[OF norm_stacktrace[OF H]] norm_bind[OF norm_unknown[OF H]] norm_ret)
      (auto simp: exception_within_def exception_nodes_def)
qed

lemma norm_breadcrumb:
  assumes H: "can_fail l E"
  shows "norm_spec l E (normalize_breadcrumb J l m) (\<lambda>x k. breadcrumb_within l x \<and> breadcrumb_nodes x \<le> k)"
proof -
  have time: "norm_spec l E (case r of Inr t \<Rightarrow> ret t
       | Inl _ \<Rightarrow> bindN (diagnostic l ND_InvalidTimestamp ''breadcrumb.timestamp'') (\<lambda>_. ret None)) (\<lambda>_ k. k = 0)"
    for r :: "unit + timestamp option"
    by (auto split: sum.split intro!: norm_ret norm_bind[OF norm_diagnostic])
  show ?thesis
    unfolding normalize_breadcrumb_def
    by (intro norm_bind[OF time] norm_bind[OF norm_level] norm_bind[OF norm_optional_string]
        norm_bind[OF norm_named_object[OF H]] norm_bind[OF norm_unknown[OF H]] norm_ret)
      (auto simp: breadcrumb_within_def breadcrumb_nodes_def)
qed

lemma norm_tags: "norm_spec l E (normalize_tags J l v) (\<lambda>ts k. tags_within l ts)"
proof -
  have obj: "norm_spec l E (tags_of_object J l m tags) (\<lambda>_ _. True)" for m tags
    by (induction m arbitrary: tags) (auto split: option.split intro!: norm_ret norm_bind[OF norm_bounded_scalar])
  have arr: "norm_spec l E (tags_of_array l vs tags dup) (\<lambda>_ _. True)" for vs tags dup
    by (induction vs arbitrary: tags dup) (auto split: option.split intro!: norm_ret norm_bind[OF norm_diagnostic])
  have keep: "norm_spec l E (keep_tag l kv) (\<lambda>y n. is_none_or y (\<lambda>t. tag_ok (tag_key t) (tag_value t)))" for kv
    by (auto simp: keep_tag_def intro!: norm_ret norm_bind[OF norm_diagnostic])
  have rest: "norm_spec l E (bindN (diagnostic_if dup l ND_DuplicateTag ''tags'') (\<lambda>_.
         bindN (diagnostic_if (length tags > nl_max_tags l) l ND_CollectionTruncated ''tags'') (\<lambda>_.
         filter_mapN (keep_tag l) (take (nl_max_tags l) tags)))) (\<lambda>ts k. tags_within l ts)" for tags dup
    by (intro norm_bind[OF norm_diagnostic_if] norm_weaken[OF norm_filter_mapN[OF keep]]) (auto simp: tags_within_def)
  have wire: "norm_spec l E (case v of
             J_Object m \<Rightarrow> bindN (tags_of_object J l m []) (\<lambda>tags. ret (tags, False))
           | J_Array vs \<Rightarrow> tags_of_array l vs [] False
           | _ \<Rightarrow> bindN (diagnostic l ND_InvalidFieldType ''tags'') (\<lambda>_. ret ([], False))) (\<lambda>_ _. True)" for v
    by (auto split: json.split intro!: arr norm_ret norm_bind[OF norm_diagnostic] norm_bind[OF obj])
  show ?thesis
    unfolding normalize_tags_def
    by (auto split: option.split intro!: norm_ret norm_bind[OF wire] rest) (simp add: tags_within_def)
qed

lemma norm_occurred_at: "norm_spec l E (normalize_occurred_at J l m t) (\<lambda>_ k. k = 0)"
  unfolding normalize_occurred_at_def
  by (auto split: sum.split option.split intro!: norm_ret norm_bind[OF norm_diagnostic] norm_bind[OF norm_diagnostic_if])

lemma norm_body:
  assumes H: "can_fail l E" and I: "NE_IdentityFieldTooLarge \<in> E"
  shows "norm_spec l E (normalize_body J l m t) (\<lambda>b k. body_within l b \<and> body_nodes b \<le> k)"
  unfolding normalize_body_def normalize_exceptions_def normalize_breadcrumbs_def
  by (intro norm_bind[OF norm_occurred_at] norm_bind[OF norm_identity_string[OF I]] norm_bind[OF norm_platform]
      norm_bind[OF norm_level] norm_bind[OF norm_optional_string] norm_bind[OF norm_message]
      norm_bind[OF norm_string_array] norm_bind[OF norm_objects[OF norm_exception[OF H]]]
      norm_bind[OF norm_stacktrace[OF H]] norm_bind[OF norm_tags] norm_bind[OF norm_optional_object[OF H]]
      norm_bind[OF norm_named_object[OF H]] norm_bind[OF norm_objects[OF norm_breadcrumb[OF H]]]
      norm_bind[OF norm_unknown[OF H]] norm_ret)
    (auto simp: body_within_def body_nodes_def)


section \<open>Events within the limits are accepted\<close>

fun json_nodes :: "json \<Rightarrow> nat" where
  "json_nodes (J_Array vs) = Suc (sum_list (map json_nodes vs))"
| "json_nodes (J_Object m) = Suc (sum_list (map (\<lambda>kv. json_nodes (snd kv)) m))"
| "json_nodes _ = 1"

fun json_height :: "json \<Rightarrow> nat" where
  "json_height (J_Array vs) = Suc (foldr (\<lambda>v h. max (json_height v) h) vs 0)"
| "json_height (J_Object m) = Suc (foldr (\<lambda>kv h. max (json_height (snd kv)) h) m 0)"
| "json_height _ = 0"

definition entries_nodes :: "json_map \<Rightarrow> nat" where
  "entries_nodes m = sum_list (map (\<lambda>kv. json_nodes (snd kv)) m)"

definition norm_cheap :: "normalizer_limits \<Rightarrow> nat \<Rightarrow> 'a norm \<Rightarrow> bool" where
  "norm_cheap l k m = (\<forall>c. cx_nodes c + k \<le> nl_max_nodes l \<longrightarrow>
     (\<exists>x c'. m c = Inr (x, c') \<and> cx_nodes c' \<le> cx_nodes c + k))"

lemma cheap_ret: "norm_cheap l k (ret x)"
  by (simp add: norm_cheap_def ret_def)

lemma cheap_mono: "norm_cheap l k m \<Longrightarrow> k \<le> k' \<Longrightarrow> norm_cheap l k' m"
  unfolding norm_cheap_def by (metis add_le_mono1 le_trans nat_add_left_cancel_le)

lemma cheap_bind:
  assumes "norm_cheap l a m" "a \<le> k" "\<And>x. norm_cheap l (k - a) (f x)"
  shows "norm_cheap l k (bindN m f)"
  unfolding norm_cheap_def
proof (intro allI impI)
  fix c :: norm_context
  assume "cx_nodes c + k \<le> nl_max_nodes l"
  moreover obtain x c1 where 1: "m c = Inr (x, c1)" "cx_nodes c1 \<le> cx_nodes c + a"
    using assms(1,2) calculation unfolding norm_cheap_def by (metis add_le_cancel_left le_trans)
  ultimately obtain y c2 where "f x c1 = Inr (y, c2)" "cx_nodes c2 \<le> cx_nodes c1 + (k - a)"
    using assms(2) assms(3)[of x] unfolding norm_cheap_def
    by (metis (no_types, lifting) add.assoc add_le_mono1 le_add_diff_inverse le_trans)
  with 1 assms(2) show "\<exists>x c'. bindN m f c = Inr (x, c') \<and> cx_nodes c' \<le> cx_nodes c + k"
    by (auto simp: bindN_def)
qed

lemma cheap_bind0: "norm_cheap l 0 m \<Longrightarrow> (\<And>x. norm_cheap l k (f x)) \<Longrightarrow> norm_cheap l k (bindN m f)"
  by (rule cheap_bind[of l 0]) simp_all

lemma cheap_mapN:
  "(\<And>x. x \<in> set xs \<Longrightarrow> norm_cheap l (w x) (f x)) \<Longrightarrow> norm_cheap l (sum_list (map w xs)) (mapN f xs)"
proof (induction xs)
  case (Cons x xs)
  show ?case
    unfolding mapN.simps
    by (rule cheap_bind[of _ "w x"], rule Cons.prems, simp, simp,
        rule cheap_bind[of _ "sum_list (map w xs)"], rule Cons.IH, rule Cons.prems) (simp_all add: cheap_ret)
qed (simp add: cheap_ret)

lemma cheap_diagnostic: "norm_cheap l k (diagnostic l code path)"
  by (simp add: norm_cheap_def diagnostic_def)

lemma cheap_diagnostic_if: "norm_cheap l k (diagnostic_if b l code path)"
  by (simp add: diagnostic_if_def cheap_diagnostic cheap_ret)

lemma cheap_visit: "depth \<le> nl_max_depth l \<Longrightarrow> norm_cheap l 1 (visit l depth)"
  by (auto simp: norm_cheap_def visit_def Let_def min_def)

lemma json_height_array: "v \<in> set vs \<Longrightarrow> json_height v < json_height (J_Array vs)"
proof -
  have "v \<in> set vs \<Longrightarrow> json_height v \<le> foldr (\<lambda>v h. max (json_height v) h) vs 0" by (induction vs) auto
  then show "v \<in> set vs \<Longrightarrow> ?thesis" by simp
qed

lemma json_height_object: "kv \<in> set m \<Longrightarrow> json_height (snd kv) < json_height (J_Object m)"
proof -
  have "kv \<in> set m \<Longrightarrow> json_height (snd kv) \<le> foldr (\<lambda>kv h. max (json_height (snd kv)) h) m 0" by (induction m) auto
  then show "kv \<in> set m \<Longrightarrow> ?thesis" by simp
qed

lemma sum_take_le: "sum_list (map w (take n xs)) \<le> (sum_list (map w xs) :: nat)"
  by (metis append_take_drop_id le_add1 map_append sum_list_append)

lemma sum_filter_le: "sum_list (map w (filter p xs)) \<le> (sum_list (map w xs) :: nat)"
  by (induction xs) auto

lemma cheap_canonicalize:
  "depth + json_height v \<le> nl_max_depth l \<Longrightarrow> norm_cheap l (json_nodes v) (canonicalize J l v depth path)"
proof (induction J l v depth path rule: canonicalize.induct)
  case (1 J l v depth path)
  have d: "depth \<le> nl_max_depth l" using "1.prems" by simp
  show ?case
  proof (cases v)
    case (J_Array vs)
    have "norm_cheap l (sum_list (map json_nodes (take (nl_max_array_items l) vs)))
        (mapN (\<lambda>v. canonicalize J l v (depth + 1) path) (take (nl_max_array_items l) vs))"
    proof (rule cheap_mapN, rule "1.IH"(1)[OF J_Array])
      fix x assume x: "x \<in> set (take (nl_max_array_items l) vs)"
      then show "x \<in> set (take (nl_max_array_items l) vs)" .
      show "depth + 1 + json_height x \<le> nl_max_depth l"
        using json_height_array[OF in_set_takeD[OF x]] "1.prems" J_Array by simp
    qed
    then have "norm_cheap l (json_nodes v - 1) (mapN (\<lambda>v. canonicalize J l v (depth + 1) path) (take (nl_max_array_items l) vs))"
      by (rule cheap_mono) (simp add: J_Array sum_take_le)
    then show ?thesis
      by (subst canonicalize.simps, intro cheap_bind[OF cheap_visit[OF d]])
        (auto simp: J_Array intro!: cheap_bind0[OF cheap_diagnostic_if] cheap_bind cheap_ret)
  next
    case (J_Object m)
    have "norm_cheap l (sum_list (map (\<lambda>kv. json_nodes (snd kv)) (take (nl_max_object_fields l) m)))
        (mapN (\<lambda>kv. bindN (canonicalize J l (snd kv) (depth + 1) path) (\<lambda>x. ret (fst kv, x))) (take (nl_max_object_fields l) m))"
    proof (rule cheap_mapN, rule cheap_bind, rule "1.IH"(2)[OF J_Object])
      fix kv assume x: "kv \<in> set (take (nl_max_object_fields l) m)"
      then show "kv \<in> set (take (nl_max_object_fields l) m)" .
      show "depth + 1 + json_height (snd kv) \<le> nl_max_depth l"
        using json_height_object[OF in_set_takeD[OF x]] "1.prems" J_Object by simp
    qed (simp_all add: cheap_ret)
    then have "norm_cheap l (json_nodes v - 1)
        (mapN (\<lambda>kv. bindN (canonicalize J l (snd kv) (depth + 1) path) (\<lambda>x. ret (fst kv, x))) (take (nl_max_object_fields l) m))"
      by (rule cheap_mono) (simp add: J_Object sum_take_le)
    then show ?thesis
      by (subst canonicalize.simps, intro cheap_bind[OF cheap_visit[OF d]])
        (auto simp: J_Object intro!: cheap_bind0[OF cheap_diagnostic_if] cheap_bind cheap_ret)
  qed (subst canonicalize.simps, auto intro!: cheap_bind[OF cheap_visit[OF d]] cheap_bind0[OF cheap_diagnostic_if] cheap_ret)+
qed

definition field_nodes :: "json_map \<Rightarrow> string \<Rightarrow> nat" where
  "field_nodes m k = (case map_of m k of None \<Rightarrow> 0 | Some v \<Rightarrow> json_nodes v)"

lemma sum_if_le:
  "distinct ks \<Longrightarrow> sum_list (map (\<lambda>k'. if k' = k then a else f k') ks)
   \<le> (if k \<in> set ks then a else 0) + (sum_list (map f ks) :: nat)"
  by (induction ks) auto

lemma fields_split:
  assumes "distinct ks" "set ks \<subseteq> set known"
  shows "sum_list (map (field_nodes m) ks) + entries_nodes (filter (\<lambda>kv. fst kv \<notin> set known) m) \<le> entries_nodes m"
proof (induction m)
  case (Cons kv m)
  obtain k v where kv: "kv = (k, v)" by fastforce
  have eq: "field_nodes (kv # m) = (\<lambda>k'. if k' = k then json_nodes v else field_nodes m k')"
    by (auto simp: field_nodes_def kv)
  have "sum_list (map (field_nodes (kv # m)) ks) \<le> (if k \<in> set ks then json_nodes v else 0) + sum_list (map (field_nodes m) ks)"
    unfolding eq by (rule sum_if_le[OF assms(1)])
  with Cons assms(2) show ?case by (auto simp: entries_nodes_def kv split: if_splits)
qed (simp add: field_nodes_def entries_nodes_def)

lemma json_nodes_pos: "0 < json_nodes v"
  by (cases v) simp_all

lemma cheap_value_string: "norm_cheap l k (value_string l v n path)"
  by (auto simp: value_string_def Let_def split: json.split intro!: cheap_ret cheap_bind0[OF cheap_diagnostic])

lemma cheap_optional_string: "norm_cheap l k (optional_string l m key n path)"
  by (auto simp: optional_string_def split: option.split intro!: cheap_ret cheap_value_string)

lemma cheap_string_array: "norm_cheap l k (normalize_string_array l v count n path)"
proof -
  have "norm_cheap l 0 (mapN (\<lambda>v. value_string l v n path) vs)" for vs
    using cheap_mapN[of vs l "\<lambda>_. 0" "\<lambda>v. value_string l v n path"] by (simp add: cheap_value_string)
  then have "norm_cheap l k (filter_mapN (\<lambda>v. value_string l v n path) vs)" for vs
    unfolding filter_mapN_def by (rule cheap_bind0) (rule cheap_ret)
  then show ?thesis
    unfolding normalize_string_array_def
    by (auto split: option.split intro!: cheap_ret cheap_bind0[OF cheap_diagnostic] cheap_bind0[OF cheap_diagnostic_if])
qed

lemma cheap_message: "norm_cheap l k (normalize_event_message l m)"
proof -
  have field: "norm_cheap l k (message_field l v path)" for k v path
    by (auto simp: message_field_def split: option.split intro!: cheap_value_string cheap_ret)
  show ?thesis
    unfolding normalize_event_message_def
    by (rule cheap_bind0[OF field]) (auto split: option.split intro!: cheap_ret field)
qed

lemma cheap_platform: "norm_cheap l k (normalize_platform l v)"
  unfolding normalize_platform_def
  by (auto split: option.split intro!: cheap_ret cheap_bind0[OF cheap_value_string])

lemma cheap_level: "norm_cheap l k (normalize_level l v path)"
  unfolding normalize_level_def
  by (auto split: option.split intro!: cheap_ret cheap_bind0[OF cheap_diagnostic])

lemma cheap_bounded_scalar: "norm_cheap l k (bounded_scalar_string J l v n path)"
  by (auto simp: bounded_scalar_string_def Let_def split: json.split intro!: cheap_ret cheap_bind0[OF cheap_diagnostic])

lemma cheap_tags: "norm_cheap l k (normalize_tags J l v)"
proof -
  have obj: "norm_cheap l k (tags_of_object J l m tags)" for k m tags
    by (induction m arbitrary: tags) (auto split: option.split intro!: cheap_ret cheap_bind0[OF cheap_bounded_scalar])
  have arr: "norm_cheap l k (tags_of_array l vs tags dup)" for k vs tags dup
    by (induction vs arbitrary: tags dup) (auto split: option.split intro!: cheap_ret cheap_bind0[OF cheap_diagnostic])
  have "norm_cheap l 0 (mapN (keep_tag l) kvs)" for kvs
    using cheap_mapN[of kvs l "\<lambda>_. 0" "keep_tag l"]
    by (simp add: keep_tag_def cheap_bind0[OF cheap_diagnostic] cheap_ret)
  then have keep: "norm_cheap l k (filter_mapN (keep_tag l) kvs)" for k kvs
    unfolding filter_mapN_def by (rule cheap_bind0) (rule cheap_ret)
  have wire: "norm_cheap l k (case v of
             J_Object m \<Rightarrow> bindN (tags_of_object J l m []) (\<lambda>tags. ret (tags, False))
           | J_Array vs \<Rightarrow> tags_of_array l vs [] False
           | _ \<Rightarrow> bindN (diagnostic l ND_InvalidFieldType ''tags'') (\<lambda>_. ret ([], False)))" for k v
    by (auto split: json.split intro!: arr cheap_ret cheap_bind0[OF cheap_diagnostic] cheap_bind0[OF obj])
  show ?thesis
    unfolding normalize_tags_def
    by (auto split: option.split intro!: cheap_ret cheap_bind0[OF wire] cheap_bind0[OF cheap_diagnostic_if] keep)
qed

lemma cheap_occurred_at: "norm_cheap l k (normalize_occurred_at J l m t)"
  unfolding normalize_occurred_at_def
  by (auto split: sum.split option.split intro!: cheap_ret cheap_bind0[OF cheap_diagnostic] cheap_bind0[OF cheap_diagnostic_if])

definition identity_fits :: "json_map \<Rightarrow> string \<Rightarrow> nat \<Rightarrow> bool" where
  "identity_fits root key n = (case map_of root key of Some (J_String v) \<Rightarrow> length v \<le> n | _ \<Rightarrow> True)"

lemma cheap_identity: "identity_fits root key n \<Longrightarrow> norm_cheap l k (identity_string root key n)"
  by (auto simp: identity_string_def identity_fits_def split: option.split json.splits intro!: cheap_ret)

lemma field_height: "map_of m k = Some v \<Longrightarrow> json_height v < json_height (J_Object m)"
  using json_height_object[of "(k, v)" m] by (auto dest: map_of_SomeD)

lemma cheap_entries:
  assumes "json_height (J_Object m') \<le> nl_max_depth l" "set m \<subseteq> set m'"
  shows "norm_cheap l (entries_nodes m) (canonicalize_entries J l m path)"
proof -
  have "norm_cheap l (json_nodes (snd kv)) (bindN (canonicalize J l (snd kv) 1 path) (\<lambda>x. ret (fst kv, x)))" if "kv \<in> set m" for kv
    using json_height_object[of kv m'] that assms
    by (intro cheap_bind[OF cheap_canonicalize] cheap_ret) (auto simp del: json_height.simps)
  then have "norm_cheap l (entries_nodes m) (mapN (\<lambda>kv. bindN (canonicalize J l (snd kv) 1 path) (\<lambda>x. ret (fst kv, x))) m)"
    unfolding entries_nodes_def by (rule cheap_mapN)
  then show ?thesis unfolding canonicalize_entries_def by (rule cheap_bind) (simp_all add: cheap_ret)
qed

lemma cheap_unknown:
  assumes "json_height (J_Object m) \<le> nl_max_depth l"
  shows "norm_cheap l (entries_nodes (filter (\<lambda>kv. fst kv \<notin> set known) m)) (normalize_unknown J l m known path)"
proof -
  have "set (take n (filter p m)) \<subseteq> set m" for n p using set_take_subset[of n "filter p m"] by auto
  then show ?thesis unfolding normalize_unknown_def Let_def
    by (intro cheap_bind0[OF cheap_diagnostic_if] cheap_mono[OF cheap_entries[OF assms]])
      (auto simp: entries_nodes_def sum_take_le)
qed

lemma cheap_named_object:
  assumes "json_height (J_Object m) \<le> nl_max_depth l"
  shows "norm_cheap l (field_nodes m key) (normalize_named_object J l (map_of m key) path)"
proof (cases "map_of m key")
  case (Some v)
  have h: "json_height v < nl_max_depth l" using field_height[OF Some] assms by simp
  show ?thesis
  proof (cases v)
    case (J_Object m')
    have "norm_cheap l (entries_nodes (take n m')) (canonicalize_entries J l (take n m') path)" for n
      using h J_Object set_take_subset[of n m'] by (intro cheap_entries[of m']) auto
    then have "norm_cheap l (json_nodes v) (canonicalize_entries J l (take n m') path)" for n
      by (rule cheap_mono) (simp add: J_Object entries_nodes_def sum_take_le le_SucI)
    then show ?thesis unfolding normalize_named_object_def
      by (simp add: Some J_Object field_nodes_def cheap_bind0[OF cheap_diagnostic_if] del: json_nodes.simps)
  qed (auto simp: normalize_named_object_def Some intro!: cheap_ret cheap_bind0[OF cheap_diagnostic])
qed (simp add: normalize_named_object_def cheap_ret)

lemma cheap_optional_object:
  assumes "json_height (J_Object m) \<le> nl_max_depth l"
  shows "norm_cheap l (field_nodes m key) (normalize_optional_object J l (map_of m key) path)"
proof (cases "map_of m key")
  case (Some v)
  have h: "0 + json_height v \<le> nl_max_depth l" using field_height[OF Some] assms by simp
  show ?thesis
    using cheap_canonicalize[OF h, of J path]
    by (cases v) (auto simp: normalize_optional_object_def Some field_nodes_def simp del: json_nodes.simps
        intro!: cheap_ret cheap_bind0[OF cheap_diagnostic] cheap_bind)
qed (simp add: normalize_optional_object_def cheap_ret)

lemma cheap_frame:
  assumes h: "json_height (J_Object m) \<le> nl_max_depth l"
  shows "norm_cheap l (entries_nodes m) (normalize_frame J l m)"
proof (rule cheap_mono)
  show "norm_cheap l (field_nodes m ''vars'' + entries_nodes (filter (\<lambda>kv. fst kv \<notin> set FRAME_FIELDS) m))
      (normalize_frame J l m)"
    unfolding normalize_frame_def
    by (intro cheap_bind0[OF cheap_optional_string] cheap_bind0[OF cheap_string_array]
        cheap_bind[OF cheap_named_object[OF h]] cheap_bind[OF cheap_unknown[OF h]] cheap_ret) simp_all
  show "field_nodes m ''vars'' + entries_nodes (filter (\<lambda>kv. fst kv \<notin> set FRAME_FIELDS) m) \<le> entries_nodes m"
    using fields_split[of "[''vars'']" FRAME_FIELDS m] by (simp add: FRAME_FIELDS_def)
qed

text \<open>A list of objects: every element costs at most its own nodes.\<close>

lemma cheap_objects:
  assumes h: "json_height (J_Object m) \<le> nl_max_depth l"
    and f: "\<And>x. json_height (J_Object x) \<le> nl_max_depth l \<Longrightarrow> norm_cheap l (entries_nodes x) (f x)"
  shows "norm_cheap l (field_nodes m key) (normalize_objects l list_key count path truncated f (map_of m key))"
proof (cases "map_of m key")
  case (Some v)
  show ?thesis
  proof (cases "json_as_array (unwrap_list list_key v)")
    case vs: (Some vs)
    then have arr: "unwrap_list list_key v = J_Array vs" by (cases "unwrap_list list_key v") simp_all
    have "json_nodes (unwrap_list list_key v) \<le> json_nodes v \<and> json_height (unwrap_list list_key v) \<le> json_height v"
    proof (cases v)
      case (J_Object m')
      show ?thesis
      proof (cases "map_of m' list_key")
        case (Some w)
        have "json_nodes w \<le> sum_list (map (\<lambda>kv. json_nodes (snd kv)) m')"
          using member_le_sum_list[of "json_nodes w" "map (\<lambda>kv. json_nodes (snd kv)) m'"] map_of_SomeD[OF Some] by force
        then show ?thesis using field_height[OF Some] by (simp add: J_Object unwrap_list_def Some del: json_height.simps)
      qed (simp add: J_Object unwrap_list_def)
    qed (simp_all add: unwrap_list_def)
    then have n: "json_nodes (J_Array vs) \<le> field_nodes m key" and hv: "json_height (J_Array vs) < json_height (J_Object m)"
      using field_height[OF Some] arr by (simp_all add: field_nodes_def Some del: json_height.simps json_nodes.simps)
    let ?xs = "List.map_filter json_as_object (take count vs)"
    have mem: "J_Object x \<in> set vs" if "x \<in> set ?xs" for x
    proof -
      from that obtain v where "v \<in> set (take count vs)" "json_as_object v = Some x"
        by (auto simp: List.map_filter_def)
      then show ?thesis by (cases v rule: json.exhaust) (auto dest: in_set_takeD)
    qed
    have "norm_cheap l (entries_nodes x) (f x)" if "x \<in> set ?xs" for x
      using json_height_array[OF mem[OF that]] hv h by (intro f) linarith
    then have c: "norm_cheap l (sum_list (map entries_nodes ?xs)) (mapN f ?xs)" by (rule cheap_mapN)
    have "sum_list (map entries_nodes (List.map_filter json_as_object ys)) \<le> sum_list (map json_nodes ys)" for ys
    proof (induction ys)
      case (Cons y ys)
      then show ?case by (cases y) (auto simp: List.map_filter_simps entries_nodes_def)
    qed (simp add: List.map_filter_simps)
    from le_trans[OF this sum_take_le] have "sum_list (map entries_nodes ?xs) \<le> field_nodes m key"
      using n by (simp add: le_Suc_eq) (metis Suc_leD le_trans)
    with c have "norm_cheap l (field_nodes m key) (mapN f ?xs)" by (rule cheap_mono)
    then show ?thesis
      by (simp add: normalize_objects_def Some vs cheap_bind0[OF cheap_diagnostic_if])
  qed (simp add: normalize_objects_def Some cheap_ret cheap_bind0[OF cheap_diagnostic])
qed (simp add: normalize_objects_def cheap_ret)

lemma cheap_stacktrace:
  assumes "json_height (J_Object m) \<le> nl_max_depth l"
  shows "norm_cheap l (field_nodes m key) (normalize_stacktrace J l (map_of m key) path)"
  unfolding normalize_stacktrace_def by (rule cheap_objects[OF assms cheap_frame])

lemma cheap_exception:
  assumes h: "json_height (J_Object m) \<le> nl_max_depth l"
  shows "norm_cheap l (entries_nodes m) (normalize_exception J l m)"
proof (rule cheap_mono)
  have thread: "norm_cheap l 0 (case map_of m ''thread_id'' of None \<Rightarrow> ret None
       | Some v \<Rightarrow> bounded_scalar_string J l v MAX_FIELD_BYTES ''exception.thread_id'')"
    by (auto split: option.split intro!: cheap_ret cheap_bounded_scalar)
  have mechanism: "norm_cheap l (field_nodes m ''mechanism'') (case map_of m ''mechanism'' of None \<Rightarrow> ret None
       | Some v \<Rightarrow> bindN (canonicalize J l v 1 ''exception.mechanism'') (\<lambda>x. ret (Some x)))"
  proof (cases "map_of m ''mechanism''")
    case (Some v)
    then have "1 + json_height v \<le> nl_max_depth l" using field_height[OF Some] h by simp
    from cheap_bind[OF cheap_canonicalize[OF this] order_refl cheap_ret] show ?thesis
      by (simp add: Some field_nodes_def del: One_nat_def)
  qed (simp add: cheap_ret)
  let ?ks = "[''mechanism'', ''stacktrace'', ''raw_stacktrace'']"
  show "norm_cheap l (field_nodes m ''mechanism'' + field_nodes m ''stacktrace'' + field_nodes m ''raw_stacktrace''
      + entries_nodes (filter (\<lambda>kv. fst kv \<notin> set EXCEPTION_FIELDS) m)) (normalize_exception J l m)"
    unfolding normalize_exception_def
    by (intro cheap_bind0[OF thread] cheap_bind[OF mechanism] cheap_bind0[OF cheap_optional_string]
        cheap_bind[OF cheap_stacktrace[OF h]] cheap_bind[OF cheap_unknown[OF h]] cheap_ret) simp_all
  show "field_nodes m ''mechanism'' + field_nodes m ''stacktrace'' + field_nodes m ''raw_stacktrace''
      + entries_nodes (filter (\<lambda>kv. fst kv \<notin> set EXCEPTION_FIELDS) m) \<le> entries_nodes m"
    using fields_split[of ?ks EXCEPTION_FIELDS m] by (simp add: EXCEPTION_FIELDS_def)
qed

lemma cheap_breadcrumb:
  assumes h: "json_height (J_Object m) \<le> nl_max_depth l"
  shows "norm_cheap l (entries_nodes m) (normalize_breadcrumb J l m)"
proof (rule cheap_mono)
  have time: "norm_cheap l 0 (case r of Inr t \<Rightarrow> ret t
       | Inl _ \<Rightarrow> bindN (diagnostic l ND_InvalidTimestamp ''breadcrumb.timestamp'') (\<lambda>_. ret None))"
    for r :: "unit + timestamp option"
    by (auto split: sum.split intro!: cheap_ret cheap_bind0[OF cheap_diagnostic])
  show "norm_cheap l (field_nodes m ''data'' + entries_nodes (filter (\<lambda>kv. fst kv \<notin> set BREADCRUMB_FIELDS) m))
      (normalize_breadcrumb J l m)"
    unfolding normalize_breadcrumb_def
    by (intro cheap_bind0[OF time] cheap_bind0[OF cheap_level] cheap_bind0[OF cheap_optional_string]
        cheap_bind[OF cheap_named_object[OF h]] cheap_bind[OF cheap_unknown[OF h]] cheap_ret) simp_all
  show "field_nodes m ''data'' + entries_nodes (filter (\<lambda>kv. fst kv \<notin> set BREADCRUMB_FIELDS) m) \<le> entries_nodes m"
    using fields_split[of "[''data'']" BREADCRUMB_FIELDS m] by (simp add: BREADCRUMB_FIELDS_def)
qed

lemma cheap_body:
  assumes h: "json_height (J_Object m) \<le> nl_max_depth l"
    and r: "identity_fits m ''release'' MAX_RELEASE_BYTES" "identity_fits m ''dist'' MAX_DIST_BYTES"
      "identity_fits m ''environment'' MAX_ENVIRONMENT_BYTES"
  shows "norm_cheap l (entries_nodes m) (normalize_body J l m t)"
proof (rule cheap_mono)
  let ?ks = "[''exception'', ''stacktrace'', ''request'', ''user'', ''contexts'', ''breadcrumbs'']"
  let ?sum = "field_nodes m ''exception'' + field_nodes m ''stacktrace'' + field_nodes m ''request'' + field_nodes m ''user''
      + field_nodes m ''contexts'' + field_nodes m ''breadcrumbs'' + entries_nodes (filter (\<lambda>kv. fst kv \<notin> set ROOT_FIELDS) m)"
  show "norm_cheap l ?sum (normalize_body J l m t)"
    unfolding normalize_body_def normalize_exceptions_def normalize_breadcrumbs_def
    by (intro cheap_bind0[OF cheap_occurred_at] cheap_bind0[OF cheap_identity[OF r(1)]] cheap_bind0[OF cheap_identity[OF r(2)]]
        cheap_bind0[OF cheap_identity[OF r(3)]] cheap_bind0[OF cheap_platform]
        cheap_bind0[OF cheap_level] cheap_bind0[OF cheap_optional_string] cheap_bind0[OF cheap_message]
        cheap_bind0[OF cheap_string_array] cheap_bind[OF cheap_objects[OF h cheap_exception]]
        cheap_bind[OF cheap_stacktrace[OF h]] cheap_bind0[OF cheap_tags] cheap_bind[OF cheap_optional_object[OF h]]
        cheap_bind[OF cheap_named_object[OF h]] cheap_bind[OF cheap_objects[OF h cheap_breadcrumb]]
        cheap_bind[OF cheap_unknown[OF h]] cheap_ret) simp_all
  show "?sum \<le> entries_nodes m"
    using fields_split[of ?ks ROOT_FIELDS m] by (simp add: ROOT_FIELDS_def)
qed

lemma body_succeeds:
  assumes "json_nodes (J_Object root) \<le> nl_max_nodes l" "json_height (J_Object root) \<le> nl_max_depth l"
    "identity_fits root ''release'' MAX_RELEASE_BYTES" "identity_fits root ''dist'' MAX_DIST_BYTES"
    "identity_fits root ''environment'' MAX_ENVIRONMENT_BYTES"
  shows "\<exists>b c. normalize_body J l root t Context_new = Inr (b, c)"
proof -
  have "norm_cheap l (entries_nodes root) (normalize_body J l root t)"
    by (rule cheap_body) (use assms in simp_all)
  moreover have "cx_nodes Context_new + entries_nodes root \<le> nl_max_nodes l"
    using assms(1) by (simp add: Context_new_def entries_nodes_def)
  ultimately show ?thesis unfolding norm_cheap_def by blast
qed

text \<open>
  An event whose payload is a JSON object of at most \<open>max_nodes\<close> nodes and height at most
  \<open>max_depth\<close>, with a release, dist and environment within their bounds, is always normalized: wrong
  field types, bad timestamps, long strings and long collections never reject it.
\<close>
theorem normalize_accepts:
  assumes "jo_from_slice J (ae_payload e) = Some (J_Object root)"
    "json_nodes (J_Object root) \<le> nl_max_nodes l" "json_height (J_Object root) \<le> nl_max_depth l"
    "identity_fits root ''release'' MAX_RELEASE_BYTES" "identity_fits root ''dist'' MAX_DIST_BYTES"
    "identity_fits root ''environment'' MAX_ENVIRONMENT_BYTES"
  shows "\<exists>n. Normalizer_normalize J l e = Inr n"
  using body_succeeds[OF assms(2-6), of J "ae_received_at e"] assms(1)
  by (auto simp: Normalizer_normalize_def)

definition sample_root :: json_map where
  "sample_root = [(''level'', J_String ''warning''), (''message'', J_Object [(''formatted'', J_String ''boom'')]),
     (''tags'', J_Array [J_Array [J_String ''a'', J_String ''b'']]), (''zone'', J_Array [J_Null])]"

definition sample_json :: json_ops where
  "sample_json = \<lparr>jo_from_slice = (\<lambda>_. Some (J_Object sample_root)), jo_to_vec = (\<lambda>_. []),
     jo_number_to_string = (\<lambda>_. ''0''), jo_number_from_str = (\<lambda>_. None), jo_number_millis = (\<lambda>_. None),
     jo_millis_number = (\<lambda>_. JN_PosInt 0)\<rparr>"

lemma default_limits_valid: "NormalizerLimits_validate NormalizerLimits_default = Inr NormalizerLimits_default"
  by (simp add: NormalizerLimits_validate_def NormalizerLimits_default_def HARD_MAX_DEPTH_def HARD_MAX_NODES_def
      HARD_MAX_DIAGNOSTICS_def HARD_MAX_COLLECTION_def HARD_MAX_STRING_BYTES_def)

theorem normalize_accepts_witness:
  "\<exists>n. Normalizer_normalize sample_json NormalizerLimits_default sample_event = Inr n"
  by (rule normalize_accepts[where root = sample_root])
    (simp_all add: sample_json_def sample_root_def NormalizerLimits_default_def identity_fits_def)


section \<open>Civil time\<close>

definition next_day :: "int \<Rightarrow> int \<Rightarrow> int \<Rightarrow> int \<times> int \<times> int" where
  "next_day y m d = (if d < days_in_month y m then (y, m, d + 1)
     else if m < 12 then (y, m + 1, 1) else (y + 1, 1, 1))"

definition valid_date :: "int \<Rightarrow> int \<Rightarrow> int \<Rightarrow> bool" where
  "valid_date y m d = (1 \<le> m \<and> m \<le> 12 \<and> 1 \<le> d \<and> d \<le> days_in_month y m)"

lemma div_step: "0 < k \<Longrightarrow> y div k - (y - 1) div k = (if y mod k = 0 then 1 else (0 :: int))"
proof -
  assume k: "0 < k"
  have y: "y = k * (y div k) + y mod k" and r: "0 \<le> y mod k" "y mod k < k" using k by simp_all
  have "(y - 1) div k = (if y mod k = 0 then y div k - 1 else y div k)"
  proof (cases "y mod k = 0")
    case True
    then show ?thesis using y k by (simp add: int_div_pos_eq[of "y - 1" k "y div k - 1" "k - 1"] algebra_simps)
  next
    case False
    then show ?thesis using y r by (simp add: int_div_pos_eq[of "y - 1" k "y div k" "y mod k - 1"])
  qed
  then show ?thesis by simp
qed

lemma truncated_era: "(if y \<ge> 0 then y div 400 else - ((399 - y) div 400)) = (y :: int) div 400"
proof (cases "y \<ge> 0")
  case False
  have y: "y = 400 * (y div 400) + y mod 400" and r: "0 \<le> y mod 400" "y mod 400 < 400" by simp_all
  have "(399 - y) div 400 = - (y div 400)"
    using y r by (intro int_div_pos_eq[of _ _ _ "399 - y mod 400"]) linarith+
  with False show ?thesis by simp
qed simp

lemma days_from_civil_closed:
  "days_from_civil y m d = (let y' = y - (if m \<le> 2 then 1 else 0) in
     365 * y' + y' div 4 - y' div 100 + y' div 400
     + (153 * (m + (if m > 2 then -3 else 9)) + 2) div 5 + d - 719469)"
proof -
  define y' where "y' = y - (if m \<le> 2 then 1 else 0)"
  define era where "era = y' div 400"
  define yoe where "yoe = y' mod 400"
  have era: "(if y' \<ge> 0 then y' div 400 else - ((399 - y') div 400)) = era"
    unfolding era_def by (rule truncated_era)
  have y': "y' = 400 * era + yoe" by (simp add: era_def yoe_def)
  have q: "y' div 4 = 100 * era + yoe div 4" "y' div 100 = 4 * era + yoe div 100"
    using div_mult_self2[of 4 yoe "100 * era"] div_mult_self2[of 100 yoe "4 * era"]
    by (simp_all add: y' add.commute)
  have yoe: "y' - era * 400 = yoe" using y' by simp
  have "days_from_civil y m d = era * 146097 + (yoe * 365 + yoe div 4 - yoe div 100
      + ((153 * (m + (if m > 2 then -3 else 9)) + 2) div 5 + d - 1)) - 719468"
    by (simp only: days_from_civil_def Let_def y'_def[symmetric] era yoe)
  then show ?thesis
    unfolding Let_def y'_def[symmetric] q era_def[symmetric] using y' by linarith
qed

lemma leap_nest: "(y :: int) mod 400 = 0 \<Longrightarrow> y mod 100 = 0" "(y :: int) mod 100 = 0 \<Longrightarrow> y mod 4 = 0"
  by (auto simp: mod_eq_0_iff_dvd elim: dvd_trans[rotated])

lemma days_next_day:
  assumes "valid_date y m d"
  shows "(case next_day y m d of (y', m', d') \<Rightarrow> days_from_civil y' m' d') = days_from_civil y m d + 1"
proof (cases "d < days_in_month y m")
  case True
  then show ?thesis by (simp add: next_day_def days_from_civil_closed Let_def)
next
  case False
  then have d: "d = days_in_month y m" and months: "1 \<le> m" "m \<le> 12"
    using assms by (simp_all add: valid_date_def)
  show ?thesis
  proof (cases "m = 2")
    case True
    have "days_in_month y 2 = 28 + (y div 4 - (y - 1) div 4) - (y div 100 - (y - 1) div 100) + (y div 400 - (y - 1) div 400)"
      unfolding div_step[of 4 y, simplified] div_step[of 100 y, simplified] div_step[of 400 y, simplified]
        days_in_month_def
      using leap_nest[of y] by (cases "y mod 400 = 0"; cases "y mod 100 = 0"; cases "y mod 4 = 0") simp_all
    with True d show ?thesis by (simp add: next_day_def days_from_civil_closed Let_def)
  next
    case False
    then have "m = 1 \<or> m = 3 \<or> m = 4 \<or> m = 5 \<or> m = 6 \<or> m = 7 \<or> m = 8 \<or> m = 9 \<or> m = 10 \<or> m = 11 \<or> m = 12"
      using months by presburger
    then show ?thesis
      by (elim disjE) (simp_all add: d next_day_def days_from_civil_closed Let_def days_in_month_def)
  qed
qed

fun pad :: "nat \<Rightarrow> nat \<Rightarrow> string" where
  "pad 0 v = []"
| "pad (Suc k) v = pad k (v div 10) @ [digit_char (v mod 10)]"

definition rfc3339_text :: "nat \<Rightarrow> nat \<Rightarrow> nat \<Rightarrow> nat \<Rightarrow> nat \<Rightarrow> nat \<Rightarrow> nat \<Rightarrow> bool \<Rightarrow> nat \<Rightarrow> nat \<Rightarrow> string" where
  "rfc3339_text y mo d h mi s ms west oh om =
     pad 4 y @ ''-'' @ pad 2 mo @ ''-'' @ pad 2 d @ ''T'' @ pad 2 h @ '':'' @ pad 2 mi @ '':'' @ pad 2 s
     @ ''.'' @ pad 3 ms @ (if west then ''-'' else ''+'') @ pad 2 oh @ '':'' @ pad 2 om"

lemma length_pad [simp]: "length (pad k v) = k"
  by (induction k arbitrary: v) simp_all

lemma digit_char_digit: "d < 10 \<Longrightarrow> is_ascii_digit (digit_char d)"
  by (simp add: digit_char_def is_ascii_digit_def of_char_of)

lemma set_pad: "c \<in> set (pad k v) \<Longrightarrow> is_ascii_digit c"
  by (induction k arbitrary: v) (auto simp: digit_char_digit)

lemma parse_digits_pad:
  "v < 10 ^ k \<Longrightarrow> acc * 10 ^ k + v < bound \<Longrightarrow> parse_digits 10 bound acc (pad k v) = Some (acc * 10 ^ k + v)"
proof (induction k arbitrary: v acc)
  case (Suc k)
  have "acc * 10 ^ k + v div 10 < bound" using Suc.prems(2) by (simp add: algebra_simps)
  with Suc.prems have "parse_digits 10 bound acc (pad k (v div 10)) = Some (acc * 10 ^ k + v div 10)"
    by (intro Suc.IH) (simp_all add: less_mult_imp_div_less mult.commute)
  moreover have "(acc * 10 ^ k + v div 10) * 10 + v mod 10 = acc * 10 ^ Suc k + v" by (simp add: algebra_simps)
  ultimately show ?case using Suc.prems(2) by (simp add: parse_digits_append to_digit_digit_char)
qed simp

lemma strip_plus_digits: "(\<And>c. c \<in> set w \<Longrightarrow> is_ascii_digit c) \<Longrightarrow> strip_plus w = w"
  by (cases w) (force simp: strip_plus_def is_ascii_digit_def)+

lemma parse_unsigned_pad:
  "0 < k \<Longrightarrow> v < 10 ^ k \<Longrightarrow> v < bound \<Longrightarrow> parse_unsigned 10 bound (pad k v) = Some v"
proof -
  assume k: "0 < k" "v < 10 ^ k" "v < bound"
  have "pad k v \<noteq> []" using k by (metis length_greater_0_conv length_pad)
  moreover have "strip_plus (pad k v) = pad k v"
    by (rule strip_plus_digits) (rule set_pad)
  moreover have "parse_digits 10 bound 0 (pad k v) = Some v" using parse_digits_pad[of v k 0 bound] k by simp
  ultimately show ?thesis by (simp add: parse_unsigned_def)
qed

lemma ascii_boundary: "i \<le> length v \<Longrightarrow> \<forall>c\<in>set v. code_of c < 128 \<Longrightarrow> is_char_boundary v i"
proof (cases "i < length v")
  case True
  assume "\<forall>c\<in>set v. code_of c < 128"
  then have "code_of (v ! i) < 128" using True by (simp add: nth_mem)
  with True show ?thesis by (simp add: is_char_boundary_def is_continuation_def)
qed (simp add: is_char_boundary_def)

text \<open>A field of digits at a known place of an ASCII text.\<close>

lemma parse_digits_at_pad:
  assumes "v = pre @ pad k n @ post" "0 < k" "n < 10 ^ k" "k \<le> 4" "\<forall>c\<in>set v. code_of c < 128"
  shows "parse_digits_at v (length pre) k = Inr (int n)"
proof -
  have "(10 :: nat) ^ k \<le> 10 ^ 4" using assms(4) by (intro power_increasing) simp_all
  then have "parse_unsigned 10 (2 ^ 32) (pad k n) = Some n"
    using assms(2,3) by (intro parse_unsigned_pad) auto
  moreover have "take k (drop (length pre) v) = pad k n" by (simp add: assms(1))
  moreover have "list_all is_ascii_digit (pad k n)" using set_pad by (auto simp: list_all_iff)
  moreover have "is_char_boundary v (length pre)" "is_char_boundary v (length pre + k)"
    by (rule ascii_boundary; use assms in simp)+
  ultimately show ?thesis by (simp add: parse_digits_at_def assms(1))
qed

lemma civil_epoch: "days_from_civil 1970 1 1 = 0"
  by (simp add: days_from_civil_def)

lemma days_from_civil_bounds:
  assumes "0 \<le> y" "y \<le> 9999" "valid_date y m d"
  shows "- 800000 \<le> days_from_civil y m d \<and> days_from_civil y m d \<le> 3000000"
proof -
  define y' where "y' = y - (if m \<le> 2 then 1 else 0)"
  have y': "-1 \<le> y'" "y' \<le> 9999" using assms by (auto simp: y'_def)
  have q: "-1 \<le> y' div 4" "y' div 4 \<le> 2499" "-1 \<le> y' div 100" "y' div 100 \<le> 99" "-1 \<le> y' div 400" "y' div 400 \<le> 24"
    using y' zdiv_mono1[of "-1" y'] zdiv_mono1[of y' 9999] by (force simp: zdiv_mono1)+
  have m: "1 \<le> m" "m \<le> 12" "1 \<le> d" "d \<le> 31"
    using assms(3) by (auto simp: valid_date_def days_in_month_def split: if_splits)
  have "0 \<le> (153 * (m + (if m > 2 then -3 else 9)) + 2) div 5" "(153 * (m + (if m > 2 then -3 else 9)) + 2) div 5 \<le> 400"
    using m by (auto simp: pos_imp_zdiv_nonneg_iff)
  then show ?thesis
    unfolding days_from_civil_closed Let_def y'_def[symmetric] using y' q m by linarith
qed

lemma byte_at_mid: "v = pre @ c # post \<Longrightarrow> length pre = i \<Longrightarrow> byte_at v i = Some c"
  by (auto simp: byte_at_def nth_append)

lemma parse_signed_pad:
  assumes "0 < k" "v < 10 ^ k" "v < bound"
  shows "parse_signed 10 bound (pad k v) = Some (int v)"
proof -
  obtain c cs where c: "pad k v = c # cs" using assms(1) by (metis length_greater_0_conv length_pad neq_Nil_conv)
  have "c \<noteq> CHR ''-''" using set_pad[of c k v] c by (auto simp: is_ascii_digit_def)
  then show ?thesis using parse_unsigned_pad[OF assms] by (simp add: parse_signed_def c)
qed

lemma rfc3339_text_ascii: "\<forall>c\<in>set (rfc3339_text y mo d h mi s ms west oh om). code_of c < 128"
proof -
  have "code_of c < 128" if "c \<in> set (pad k v)" for c k v
    using set_pad[OF that] by (simp add: is_ascii_digit_def)
  then show ?thesis by (auto simp: rfc3339_text_def)
qed

lemma rfc3339_fields:
  fixes y mo d h mi s ms oh om :: nat and west :: bool
  defines "v \<equiv> rfc3339_text y mo d h mi s ms west oh om"
  assumes "y < 10000" "mo < 100" "d < 100" "h < 100" "mi < 100" "s < 100" "oh < 100" "om < 100"
  shows "parse_digits_at v 0 4 = Inr (int y)" "parse_digits_at v 5 2 = Inr (int mo)"
    "parse_digits_at v 8 2 = Inr (int d)" "parse_digits_at v 11 2 = Inr (int h)"
    "parse_digits_at v 14 2 = Inr (int mi)" "parse_digits_at v 17 2 = Inr (int s)"
    "parse_digits_at v 24 2 = Inr (int oh)" "parse_digits_at v 27 2 = Inr (int om)"
proof -
  let ?sign = "if west then ''-'' else ''+''"
  have ascii: "\<forall>c\<in>set v. code_of c < 128" unfolding v_def by (rule rfc3339_text_ascii)
  have at: "parse_digits_at v i k = Inr (int n)"
    if "v = pre @ pad k n @ post" "length pre = i" "0 < k" "n < 10 ^ k" "k \<le> 4" for pre k n post i
    using parse_digits_at_pad[OF that(1,3,4,5) ascii] that(2) by simp
  show "parse_digits_at v 0 4 = Inr (int y)"
    by (rule at[where pre = "[]"]) (use assms in \<open>simp_all add: rfc3339_text_def\<close>)
  show "parse_digits_at v 5 2 = Inr (int mo)"
    by (rule at[where pre = "pad 4 y @ ''-''"]) (use assms in \<open>simp_all add: rfc3339_text_def\<close>)
  show "parse_digits_at v 8 2 = Inr (int d)"
    by (rule at[where pre = "pad 4 y @ ''-'' @ pad 2 mo @ ''-''"]) (use assms in \<open>simp_all add: rfc3339_text_def\<close>)
  show "parse_digits_at v 11 2 = Inr (int h)"
    by (rule at[where pre = "pad 4 y @ ''-'' @ pad 2 mo @ ''-'' @ pad 2 d @ ''T''"])
      (use assms in \<open>simp_all add: rfc3339_text_def\<close>)
  show "parse_digits_at v 14 2 = Inr (int mi)"
    by (rule at[where pre = "pad 4 y @ ''-'' @ pad 2 mo @ ''-'' @ pad 2 d @ ''T'' @ pad 2 h @ '':''"])
      (use assms in \<open>simp_all add: rfc3339_text_def\<close>)
  show "parse_digits_at v 17 2 = Inr (int s)"
    by (rule at[where pre = "pad 4 y @ ''-'' @ pad 2 mo @ ''-'' @ pad 2 d @ ''T'' @ pad 2 h @ '':'' @ pad 2 mi @ '':''"])
      (use assms in \<open>simp_all add: rfc3339_text_def\<close>)
  show "parse_digits_at v 24 2 = Inr (int oh)"
    by (rule at[where pre = "pad 4 y @ ''-'' @ pad 2 mo @ ''-'' @ pad 2 d @ ''T'' @ pad 2 h @ '':'' @ pad 2 mi @ '':''
        @ pad 2 s @ ''.'' @ pad 3 ms @ ?sign"])
      (use assms in \<open>simp_all add: rfc3339_text_def\<close>)
  show "parse_digits_at v 27 2 = Inr (int om)"
    by (rule at[where pre = "pad 4 y @ ''-'' @ pad 2 mo @ ''-'' @ pad 2 d @ ''T'' @ pad 2 h @ '':'' @ pad 2 mi @ '':''
        @ pad 2 s @ ''.'' @ pad 3 ms @ ?sign @ pad 2 oh @ '':''"])
      (use assms in \<open>simp_all add: rfc3339_text_def\<close>)
qed

lemma rfc3339_bytes:
  fixes y mo d h mi s ms oh om :: nat and west :: bool
  defines "v \<equiv> rfc3339_text y mo d h mi s ms west oh om"
  shows "length v = 29" "byte_at v 4 = Some (CHR ''-'')" "byte_at v 7 = Some (CHR ''-'')"
    "byte_at v 10 = Some (CHR ''T'')" "byte_at v 13 = Some (CHR '':'')" "byte_at v 16 = Some (CHR '':'')"
    "byte_at v 19 = Some (CHR ''.'')" "byte_at v 23 = Some (if west then CHR ''-'' else CHR ''+'')"
    "byte_at v 26 = Some (CHR '':'')"
proof -
  show "length v = 29" by (simp add: v_def rfc3339_text_def)
  show "byte_at v 4 = Some (CHR ''-'')"
    by (rule byte_at_mid[where pre = "pad 4 y"]) (simp_all add: v_def rfc3339_text_def)
  show "byte_at v 7 = Some (CHR ''-'')"
    by (rule byte_at_mid[where pre = "pad 4 y @ ''-'' @ pad 2 mo"]) (simp_all add: v_def rfc3339_text_def)
  show "byte_at v 10 = Some (CHR ''T'')"
    by (rule byte_at_mid[where pre = "pad 4 y @ ''-'' @ pad 2 mo @ ''-'' @ pad 2 d"])
      (simp_all add: v_def rfc3339_text_def)
  show "byte_at v 13 = Some (CHR '':'')"
    by (rule byte_at_mid[where pre = "pad 4 y @ ''-'' @ pad 2 mo @ ''-'' @ pad 2 d @ ''T'' @ pad 2 h"])
      (simp_all add: v_def rfc3339_text_def)
  show "byte_at v 16 = Some (CHR '':'')"
    by (rule byte_at_mid[where pre = "pad 4 y @ ''-'' @ pad 2 mo @ ''-'' @ pad 2 d @ ''T'' @ pad 2 h @ '':'' @ pad 2 mi"])
      (simp_all add: v_def rfc3339_text_def)
  show "byte_at v 19 = Some (CHR ''.'')"
    by (rule byte_at_mid[where pre = "pad 4 y @ ''-'' @ pad 2 mo @ ''-'' @ pad 2 d @ ''T'' @ pad 2 h @ '':'' @ pad 2 mi @ '':''
        @ pad 2 s"]) (simp_all add: v_def rfc3339_text_def)
  show "byte_at v 23 = Some (if west then CHR ''-'' else CHR ''+'')"
    by (rule byte_at_mid[where pre = "pad 4 y @ ''-'' @ pad 2 mo @ ''-'' @ pad 2 d @ ''T'' @ pad 2 h @ '':'' @ pad 2 mi @ '':''
        @ pad 2 s @ ''.'' @ pad 3 ms"]) (simp_all add: v_def rfc3339_text_def)
  show "byte_at v 26 = Some (CHR '':'')"
    by (rule byte_at_mid[where pre = "pad 4 y @ ''-'' @ pad 2 mo @ ''-'' @ pad 2 d @ ''T'' @ pad 2 h @ '':'' @ pad 2 mi @ '':''
        @ pad 2 s @ ''.'' @ pad 3 ms @ (if west then ''-'' else ''+'') @ pad 2 oh"]) (simp_all add: v_def rfc3339_text_def)
qed

lemma rfc3339_fraction_text:
  fixes y mo d h mi s ms oh om :: nat and west :: bool
  defines "v \<equiv> rfc3339_text y mo d h mi s ms west oh om"
  assumes "ms < 1000"
  shows "rfc3339_fraction v = Inr (int ms, 23)"
proof -
  have "drop 20 v = pad 3 ms @ (if west then ''-'' else ''+'') @ pad 2 oh @ '':'' @ pad 2 om"
    by (simp add: v_def rfc3339_text_def)
  moreover have "takeWhile is_ascii_digit (pad 3 ms @ (if west then ''-'' else ''+'') @ pad 2 oh @ '':'' @ pad 2 om) = pad 3 ms"
    using set_pad[of _ 3 ms] by (subst takeWhile_append2) (auto simp: is_ascii_digit_def)
  ultimately have f: "takeWhile is_ascii_digit (drop 20 v) = pad 3 ms" by simp
  have ne: "pad 3 ms \<noteq> []" by (metis length_pad list.size(3) zero_neq_numeral)
  have "parse_signed 10 (2 ^ 63) (pad 3 ms) = Some (int ms)" using assms by (intro parse_signed_pad) simp_all
  then show ?thesis
    unfolding rfc3339_fraction_def v_def[symmetric] Let_def f
    using rfc3339_bytes(7)[of y mo d h mi s ms west oh om] ne by (simp add: v_def)
qed

lemma rfc3339_offset_text:
  fixes y mo d h mi s ms oh om :: nat and west :: bool
  defines "v \<equiv> rfc3339_text y mo d h mi s ms west oh om"
  assumes "oh \<le> 23" "om \<le> 59" "y < 10000" "mo < 100" "d < 100" "h < 100" "mi < 100" "s < 100"
  shows "rfc3339_offset v 23 = Inr ((if west then -1 else 1) * (int oh * 3600 + int om * 60))"
  unfolding rfc3339_offset_def
  using rfc3339_fields(7,8)[of y mo d h mi s oh om ms west] rfc3339_bytes[of y mo d h mi s ms west oh om] assms
  by (auto simp: v_def Let_def)

text \<open>
  A timestamp \<open>yyyy-mm-ddThh:mm:ss.mmm+hh:mm\<close> with a valid date, time and offset is read as the exact
  number of milliseconds; the day number it rests on is 0 on 1970-01-01 and grows by one from every
  date of the proleptic Gregorian calendar to the next.
\<close>
theorem rfc3339_exact:
  fixes y mo d h mi s ms oh om :: nat
  assumes "y < 10000" "valid_date (int y) (int mo) (int d)" "h \<le> 23" "mi \<le> 59" "s \<le> 59" "ms < 1000"
    "oh \<le> 23" "om \<le> 59"
  shows "parse_rfc3339_millis (rfc3339_text y mo d h mi s ms west oh om) =
      Inr ((((days_from_civil (int y) (int mo) (int d) * 24 + int h) * 60 + int mi) * 60 + int s
        - (if west then -1 else 1) * (int oh * 3600 + int om * 60)) * 1000 + int ms)
    \<and> days_from_civil 1970 1 1 = 0
    \<and> (case next_day (int y) (int mo) (int d) of (y', m', d') \<Rightarrow> days_from_civil y' m' d')
        = days_from_civil (int y) (int mo) (int d) + 1"
proof -
  define D where "D = days_from_civil (int y) (int mo) (int d)"
  have date: "1 \<le> int mo" "int mo \<le> 12" "1 \<le> int d" "int d \<le> days_in_month (int y) (int mo)" "int d \<le> 31"
    using assms(2) by (auto simp: valid_date_def days_in_month_def split: if_splits)
  have D: "- 800000 \<le> D" "D \<le> 3000000"
    using days_from_civil_bounds[OF _ _ assms(2)] assms(1) by (simp_all add: D_def)
  have small: "mo < 100" "d < 100" "h < 100" "mi < 100" "s < 100" "oh < 100" "om < 100"
    using date assms by simp_all
  define off where "off = (if west then -1 else 1) * (int oh * 3600 + int om * 60)"
  have off: "- 90000 \<le> off" "off \<le> 90000" using assms(7,8) by (auto simp: off_def)
  have secs: "rfc3339_seconds (int y) (int mo) (int d) (int h) (int mi) (int s) off
      = Some (D * 86400 + (int h * 3600 + int mi * 60 + int s) - off)"
    unfolding rfc3339_seconds_def D_def[symmetric] using D off assms(3-5) by (simp add: checked_i64_def)
  note facts = rfc3339_fields[OF assms(1) small, of ms west]
    rfc3339_bytes[of y mo d h mi s ms west oh om]
    rfc3339_fraction_text[OF assms(6), of y mo d h mi s west oh om]
    rfc3339_offset_text[OF assms(7,8,1) small(1-5), of ms west]
  have "parse_rfc3339_millis (rfc3339_text y mo d h mi s ms west oh om)
      = Inr ((D * 86400 + (int h * 3600 + int mi * 60 + int s) - off) * 1000 + int ms)"
    unfolding parse_rfc3339_millis_def
    using D off assms date by (simp add: facts secs off_def[symmetric] checked_i64_def)
  moreover have "(D * 86400 + (int h * 3600 + int mi * 60 + int s) - off) * 1000 + int ms
      = (((D * 24 + int h) * 60 + int mi) * 60 + int s - off) * 1000 + int ms" by simp
  ultimately show ?thesis
    using days_next_day[OF assms(2)] civil_epoch by (simp only: D_def off_def)
qed

lemma pad_digits:
  "pad 2 v = [digit_char (v div 10 mod 10), digit_char (v mod 10)]"
  "pad 3 v = [digit_char (v div 10 div 10 mod 10), digit_char (v div 10 mod 10), digit_char (v mod 10)]"
  "pad 4 v = [digit_char (v div 10 div 10 div 10 mod 10), digit_char (v div 10 div 10 mod 10),
     digit_char (v div 10 mod 10), digit_char (v mod 10)]"
proof -
  have three: "(3 :: nat) = Suc 2" and four: "(4 :: nat) = Suc 3" by simp_all
  show 2: "pad 2 v = [digit_char (v div 10 mod 10), digit_char (v mod 10)]" for v
    unfolding numeral_2_eq_2 by (simp only: pad.simps append.simps)
  show 3: "pad 3 v = [digit_char (v div 10 div 10 mod 10), digit_char (v div 10 mod 10), digit_char (v mod 10)]" for v
    unfolding three by (simp only: pad.simps 2 append.simps)
  show "pad 4 v = [digit_char (v div 10 div 10 div 10 mod 10), digit_char (v div 10 div 10 mod 10),
     digit_char (v div 10 mod 10), digit_char (v mod 10)]"
    unfolding four by (simp only: pad.simps 3 append.simps)
qed

lemma digit_chars:
  "digit_char 0 = CHR ''0''" "digit_char 2 = CHR ''2''" "digit_char 5 = CHR ''5''" "digit_char 7 = CHR ''7''"
  "digit_char 1 = CHR ''1''"
  by (simp_all add: digit_char_def char_of_eq_iff take_bit_eq_mod)

theorem rfc3339_exact_witness:
  "parse_rfc3339_millis ''2025-07-22T12:00:00.500+02:00'' = Inr 1753178400500"
proof -
  have "valid_date (int 2025) (int 7) (int 22)" by (simp add: valid_date_def days_in_month_def)
  from rfc3339_exact[OF _ this, of 12 0 0 500 2 0 False]
  have "parse_rfc3339_millis (rfc3339_text 2025 7 22 12 0 0 500 False 2 0) = Inr 1753178400500"
    by (simp add: days_from_civil_def)
  moreover have "rfc3339_text 2025 7 22 12 0 0 500 False 2 0 = ''2025-07-22T12:00:00.500+02:00''"
    by (simp add: rfc3339_text_def pad_digits digit_chars[unfolded One_nat_def] digit_chars)
  ultimately show ?thesis by simp
qed

end
