(* ===== verification/Row_Codec.thy ===== *)
theory Row_Codec
  imports Normalizer
begin

text \<open>
  The versioned body codec of the PostgreSQL adapter, \<^verbatim>\<open>crates/postgres/src/codec.rs\<close>: canonical JSON
  behind a version byte and a compression flag. \<^verbatim>\<open>zstd\<close> is a parameter, as is JSON text.
\<close>

record zstd_ops =
  z_compress :: "bytes \<Rightarrow> bytes option"
  z_decompress :: "bytes \<Rightarrow> nat \<Rightarrow> bytes option"

datatype postgres_error =
    PG_InvalidUri | PG_UriPolicyConflict | PG_InvalidPolicy | PG_InsecureConnectionNotAcknowledged | PG_TlsFailure
  | PG_Unavailable | PG_Timeout | PG_PermissionDenied | PG_Constraint | PG_UnknownSchema | PG_MigrationRequired
  | PG_NewerSchema | PG_MigrationMismatch | PG_MigrationBusy | PG_InvalidData

definition encode_json ::
  "json_ops \<Rightarrow> zstd_ops \<Rightarrow> json \<Rightarrow> nat \<Rightarrow> nat \<Rightarrow> postgres_error + bytes \<times> bytes" where
  "encode_json J Z v minimum_savings maximum =
     (let canonical = jo_to_vec J v in
      if length canonical > maximum then Inl PG_InvalidData
      else and_then (ok_or PG_InvalidData (z_compress Z canonical)) (\<lambda>compressed.
        let use_compressed = min (length compressed + minimum_savings) u64_max \<le> length canonical;
            bs = (if use_compressed then compressed else canonical)
        in Inr ([1, if use_compressed then 1 else 0] @ bs, canonical)))"

definition decode_json :: "json_ops \<Rightarrow> zstd_ops \<Rightarrow> bytes \<Rightarrow> nat \<Rightarrow> postgres_error + bytes" where
  "decode_json J Z body maximum =
     (case body of
        version # flag # rest \<Rightarrow>
          (if version \<noteq> 1 then Inl PG_InvalidData
           else and_then
             (if flag = 0 \<and> length rest \<le> maximum then Inr rest
              else if flag = 1 then ok_or PG_InvalidData (z_decompress Z rest maximum)
              else Inl PG_InvalidData) (\<lambda>bs.
             and_then (ok_or PG_InvalidData (jo_from_slice J bs)) (\<lambda>v.
             if jo_to_vec J v \<noteq> bs then Inl PG_InvalidData else Inr bs)))
      | _ \<Rightarrow> Inl PG_InvalidData)"

text \<open>
  What the codec relies on for a value: its JSON text is read back (which holds of the values that
  reading yields), and compression is reversible within its bound.
\<close>

definition codec_laws :: "json_ops \<Rightarrow> zstd_ops \<Rightarrow> json \<Rightarrow> bool" where
  "codec_laws J Z v = (jo_from_slice J (jo_to_vec J v) = Some v
     \<and> (\<forall>b c m. z_compress Z b = Some c \<and> length b \<le> m \<longrightarrow> z_decompress Z c m = Some b))"

lemma decode_encode_json:
  assumes "codec_laws J Z v" "encode_json J Z v savings maximum = Inr (enc, canonical)"
  shows "decode_json J Z enc maximum = Inr canonical \<and> canonical = jo_to_vec J v \<and> length canonical \<le> maximum"
proof -
  have len: "length (jo_to_vec J v) \<le> maximum"
    using assms(2) by (simp add: encode_json_def Let_def split: if_splits)
  then obtain c where c: "z_compress Z (jo_to_vec J v) = Some c"
    using assms(2) by (cases "z_compress Z (jo_to_vec J v)") (simp_all add: encode_json_def Let_def)
  have e: "enc = 1 # 1 # c \<or> enc = 1 # 0 # jo_to_vec J v" and can: "canonical = jo_to_vec J v"
    using assms(2) len by (auto simp: encode_json_def Let_def c split: if_splits)
  have "jo_from_slice J (jo_to_vec J v) = Some v" "z_decompress Z c maximum = Some (jo_to_vec J v)"
    using assms(1) c len unfolding codec_laws_def by blast+
  with e len can show ?thesis by (elim disjE) (simp_all add: decode_json_def)
qed

lemma encode_json_minimum:
  assumes "encode_json J Z v savings maximum = Inr (enc, canonical)"
  shows "2 \<le> length enc"
  using assms by (cases "z_compress Z (jo_to_vec J v)") (auto simp: encode_json_def Let_def split: if_splits)

end
