(* ===== verification/Issues.thy ===== *)
theory Issues
  imports Row_Codec Identities "HOL-Library.Product_Lexorder"
begin

text \<open>
  Issues: their values and identities (\<^verbatim>\<open>crates/domain/src/issue.rs\<close>) and the summary of an
  occurrence (\<^verbatim>\<open>crates/application/src/issues.rs\<close>). \<^verbatim>\<open>blake3\<close> is a parameter.
\<close>

section \<open>Values\<close>

definition MAX_ISSUE_TITLE_BYTES :: nat where "MAX_ISSUE_TITLE_BYTES = 512"
definition MAX_ISSUE_CULPRIT_BYTES :: nat where "MAX_ISSUE_CULPRIT_BYTES = 256"
definition MAX_ISSUE_RELEASE_BYTES :: nat where "MAX_ISSUE_RELEASE_BYTES = 200"
definition MAX_ISSUE_SEARCH_BYTES :: nat where "MAX_ISSUE_SEARCH_BYTES = 512"
definition MAX_ISSUE_SEARCH_RESULTS :: nat where "MAX_ISSUE_SEARCH_RESULTS = 100"

datatype issue_value_error = IV_Empty | IV_TooLong | IV_InvalidSearchLimit

definition bounded_issue_text :: "nat \<Rightarrow> string \<Rightarrow> issue_value_error + string" where
  "bounded_issue_text maximum v =
     (if v = [] then Inl IV_Empty else if length v > maximum then Inl IV_TooLong else Inr v)"

definition IssueTitle_new :: "string \<Rightarrow> issue_value_error + string" where
  "IssueTitle_new = bounded_issue_text MAX_ISSUE_TITLE_BYTES"

definition IssueCulprit_new :: "string \<Rightarrow> issue_value_error + string" where
  "IssueCulprit_new = bounded_issue_text MAX_ISSUE_CULPRIT_BYTES"

definition IssueRelease_new :: "string \<Rightarrow> issue_value_error + string" where
  "IssueRelease_new = bounded_issue_text MAX_ISSUE_RELEASE_BYTES"

interpretation issue_text: smart_constructor "bounded_issue_text maximum" "\<lambda>v. v \<noteq> [] \<and> length v \<le> maximum"
  by unfold_locales (auto simp: bounded_issue_text_def)

datatype actor_kind = Actor_User | Actor_ApiCredential | Actor_System

fun actor_kind_code :: "actor_kind \<Rightarrow> u8" where
  "actor_kind_code Actor_User = 1"
| "actor_kind_code Actor_ApiCredential = 2"
| "actor_kind_code Actor_System = 3"

definition ActorKind_from_code :: "u8 \<Rightarrow> actor_kind option" where
  "ActorKind_from_code code = (if code = 1 then Some Actor_User else if code = 2 then Some Actor_ApiCredential
     else if code = 3 then Some Actor_System else None)"

record actor_ref =
  ac_kind :: actor_kind
  ac_id :: bytes

definition ActorRef_system :: actor_ref where
  "ActorRef_system = \<lparr>ac_kind = Actor_System, ac_id = replicate 16 0\<rparr>"

definition ActorRef_to_bytes :: "actor_ref \<Rightarrow> bytes" where
  "ActorRef_to_bytes a = actor_kind_code (ac_kind a) # ac_id a"

text \<open>The array of 17 bytes is a list; the stored bytes become one by \<^verbatim>\<open>try_into\<close>.\<close>

definition ActorRef_from_bytes :: "bytes \<Rightarrow> actor_ref option" where
  "ActorRef_from_bytes bs = (if length bs \<noteq> 17 then None
     else map_option (\<lambda>k. \<lparr>ac_kind = k, ac_id = tl bs\<rparr>) (ActorKind_from_code (hd bs)))"

datatype issue_status = Issue_Open | Issue_Resolved | Issue_Ignored

record issue_workflow =
  wf_at :: timestamp
  wf_actor :: actor_ref

record regression_summary =
  rg_at :: timestamp
  rg_event_id :: event_id
  rg_count :: nat
  rg_release :: "string option"

record issue_grouping_detail =
  ig_strategy :: grouping_strategy
  ig_explanation :: grouping_explanation

record issue_occurrence =
  io_project_id :: project_id
  io_issue_id :: bytes
  io_grouping_key :: grouping_key
  io_event_id :: event_id
  io_occurred_at :: timestamp
  io_received_at :: timestamp
  io_release :: "string option"
  io_title :: string
  io_culprit :: "string option"
  io_grouping :: issue_grouping_detail
  io_increment :: nat

record issue_snapshot =
  is_project_id :: project_id
  is_issue_id :: bytes
  is_grouping_key :: grouping_key
  is_title :: string
  is_culprit :: "string option"
  is_first_seen :: timestamp
  is_last_seen :: timestamp
  is_first_event_id :: event_id
  is_latest_event_id :: event_id
  is_representative_event_id :: event_id
  is_occurrence_count :: nat
  is_status :: issue_status
  is_assignee :: "actor_ref option"
  is_workflow :: "issue_workflow option"
  is_regression :: "regression_summary option"
  is_first_release :: "string option"
  is_last_release :: "string option"
  is_grouping :: issue_grouping_detail

datatype issue_mutation_kind = Mutation_Created | Mutation_Updated | Mutation_Regressed

datatype issue_command_action = Cmd_Resolve | Cmd_Ignore | Cmd_Reopen | Cmd_Assign "actor_ref option"

fun IssueCommandAction_code :: "issue_command_action \<Rightarrow> nat" where
  "IssueCommandAction_code Cmd_Resolve = 1"
| "IssueCommandAction_code Cmd_Ignore = 2"
| "IssueCommandAction_code Cmd_Reopen = 3"
| "IssueCommandAction_code (Cmd_Assign (Some _)) = 4"
| "IssueCommandAction_code (Cmd_Assign None) = 5"

record issue_command =
  ic_project_id :: project_id
  ic_issue_id :: bytes
  ic_idempotency_key :: bytes
  ic_actor :: actor_ref
  ic_at :: timestamp
  ic_action :: issue_command_action

definition IssueSearchQuery_new :: "string \<Rightarrow> nat \<Rightarrow> issue_value_error + string \<times> nat" where
  "IssueSearchQuery_new txt limit =
     (if txt = [] then Inl IV_Empty
      else if length txt > MAX_ISSUE_SEARCH_BYTES then Inl IV_TooLong
      else if \<not> (1 \<le> limit \<and> limit \<le> MAX_ISSUE_SEARCH_RESULTS) then Inl IV_InvalidSearchLimit
      else Inr (txt, limit))"

section \<open>Identities\<close>

datatype issue_notification_kind = Notify_NewIssue | Notify_Regression | Notify_Resolved

fun notification_kind_code :: "issue_notification_kind \<Rightarrow> nat" where
  "notification_kind_code Notify_NewIssue = 1"
| "notification_kind_code Notify_Regression = 2"
| "notification_kind_code Notify_Resolved = 3"

definition transition_preimage :: "project_id \<Rightarrow> bytes \<Rightarrow> issue_notification_kind \<Rightarrow> event_id \<Rightarrow> bytes" where
  "transition_preimage project issue kind event = hash_parts [as_bytes ''issue-notification/v1'',
     be_bytes_signed 4 project, issue, [word_of_nat (notification_kind_code kind)], event]"

definition notification_transition_id ::
  "(bytes \<Rightarrow> bytes) \<Rightarrow> project_id \<Rightarrow> bytes \<Rightarrow> issue_notification_kind \<Rightarrow> event_id \<Rightarrow> bytes" where
  "notification_transition_id blake3 project issue kind event =
     take 16 (blake3 (transition_preimage project issue kind event))"

definition activity_preimage :: "project_id \<Rightarrow> bytes \<Rightarrow> nat \<Rightarrow> bytes \<Rightarrow> bytes" where
  "activity_preimage project issue kind material =
     as_bytes ''issue-activity/v1'' @ be_bytes_signed 4 project @ issue @ [word_of_nat kind] @ material"

definition activity_id :: "(bytes \<Rightarrow> bytes) \<Rightarrow> project_id \<Rightarrow> bytes \<Rightarrow> nat \<Rightarrow> bytes \<Rightarrow> bytes" where
  "activity_id blake3 project issue kind material = take 16 (blake3 (activity_preimage project issue kind material))"

definition command_activity_id :: "(bytes \<Rightarrow> bytes) \<Rightarrow> issue_command \<Rightarrow> bytes" where
  "command_activity_id blake3 c = activity_id blake3 (ic_project_id c) (ic_issue_id c)
     (IssueCommandAction_code (ic_action c)) (ic_idempotency_key c)"

definition regression_activity_id :: "(bytes \<Rightarrow> bytes) \<Rightarrow> project_id \<Rightarrow> bytes \<Rightarrow> event_id \<Rightarrow> bytes" where
  "regression_activity_id blake3 project issue event = activity_id blake3 project issue 6 event"

section \<open>Summaries\<close>

fun summary_loop :: "nat \<Rightarrow> string \<Rightarrow> bool \<Rightarrow> string list \<Rightarrow> string" where
  "summary_loop maximum out pending_space [] = out"
| "summary_loop maximum out pending_space (ch # chs) =
     (if is_whitespace ch \<or> is_control ch then summary_loop maximum out (out \<noteq> []) chs
      else let required = (if pending_space then 1 else 0) + length ch in
        if length out + required > maximum then out
        else summary_loop maximum (out @ (if pending_space then '' '' else []) @ ch) False chs)"

definition normalize_summary :: "string \<Rightarrow> nat \<Rightarrow> string" where
  "normalize_summary v maximum =
     (let out = summary_loop maximum [] False (utf8_chars v) in if out = [] then ''Error event'' else out)"

definition frame_summary :: "normalized_frame \<Rightarrow> string option" where
  "frame_summary f = opt_or (nf_function f) (opt_or (nf_module f) (opt_or (nf_filename f) (nf_absolute_path f)))"

definition select_frame :: "normalized_frame list \<Rightarrow> normalized_frame option" where
  "select_frame frames =
     opt_or (find (\<lambda>f. nf_in_app f = Some True \<and> frame_summary f \<noteq> None) (rev frames))
       (opt_or (find (\<lambda>f. nf_in_app f \<noteq> Some False \<and> frame_summary f \<noteq> None) (rev frames))
         (find (\<lambda>f. frame_summary f \<noteq> None) (rev frames)))"

definition last_exception :: "normalized_event_body \<Rightarrow> normalized_exception option" where
  "last_exception b = (if nb_exceptions b = [] then None else Some (last (nb_exceptions b)))"

definition exception_title :: "normalized_exception \<Rightarrow> string option" where
  "exception_title x = (case (nx_ty x, nx_value x) of
       (Some ty, Some v) \<Rightarrow> Some (ty @ '': '' @ v)
     | (Some ty, None) \<Rightarrow> Some ty
     | (None, Some v) \<Rightarrow> Some v
     | (None, None) \<Rightarrow> None)"

definition build_title :: "normalized_event_body \<Rightarrow> issue_service_error + string" where
  "build_title b =
     (let candidate = unwrap_or (opt_or (Option.bind (last_exception b) exception_title)
            (opt_or (nb_message b) (nb_logger b))) ''Error event''
      in map_err (\<lambda>_. IS_InvalidSummary) (IssueTitle_new (normalize_summary candidate MAX_ISSUE_TITLE_BYTES)))"

definition build_culprit :: "normalized_event_body \<Rightarrow> issue_service_error + string option" where
  "build_culprit b =
     (let exception_frames = (case last_exception b of None \<Rightarrow> [] | Some x \<Rightarrow> nx_stacktrace x);
          frame = opt_or (select_frame exception_frames) (select_frame (nb_stacktrace b))
      in transpose_opt (map_option (\<lambda>v. map_err (\<lambda>_. IS_InvalidSummary)
           (IssueCulprit_new (normalize_summary v MAX_ISSUE_CULPRIT_BYTES))) (Option.bind frame frame_summary)))"

definition prepare_issue_occurrence ::
  "(bytes \<Rightarrow> bytes) \<Rightarrow> normalized_event \<Rightarrow> grouping_result \<Rightarrow> issue_service_error + issue_occurrence" where
  "prepare_issue_occurrence H e g =
     (if verify_issue_id H (ne_project_id e) (gr_key g) (gr_issue_id g) \<noteq> Some True
      then Inl IS_InvalidGroupingIdentity
      else
        and_then (map_err (\<lambda>_. IS_InvalidSummary)
          (transpose_opt (map_option IssueRelease_new (nb_release (ne_body e))))) (\<lambda>release.
        and_then (build_title (ne_body e)) (\<lambda>title.
        and_then (build_culprit (ne_body e)) (\<lambda>culprit.
        Inr \<lparr>io_project_id = ne_project_id e, io_issue_id = gr_issue_id g, io_grouping_key = gr_key g,
          io_event_id = ne_event_id e, io_occurred_at = nb_occurred_at (ne_body e),
          io_received_at = ne_received_at e, io_release = release, io_title = title, io_culprit = culprit,
          io_grouping = \<lparr>ig_strategy = gr_strategy g, ig_explanation = gr_explanation g\<rparr>,
          io_increment = 1\<rparr>))))"

subsection \<open>A summary is the words of the text\<close>

definition summary_words :: "string \<Rightarrow> string list" where
  "summary_words v = words_of (\<lambda>ch. is_whitespace ch \<or> is_control ch) [] (utf8_chars v)"

fun summary_full :: "string \<Rightarrow> bool \<Rightarrow> string list \<Rightarrow> string" where
  "summary_full out pending_space [] = out"
| "summary_full out pending_space (ch # chs) =
     (if is_whitespace ch \<or> is_control ch then summary_full out (out \<noteq> []) chs
      else summary_full (out @ (if pending_space then '' '' else []) @ ch) False chs)"

lemma summary_full_prefix: "prefix out (summary_full out p chs)"
  by (induction out p chs rule: summary_full.induct) (auto dest: append_prefixD)

lemma summary_loop_full:
  "length out \<le> n \<Longrightarrow> prefix (summary_loop n out p chs) (summary_full out p chs)
     \<and> length (summary_loop n out p chs) \<le> n
     \<and> (length (summary_full out p chs) \<le> n \<longrightarrow> summary_loop n out p chs = summary_full out p chs)"
proof (induction n out p chs rule: summary_loop.induct)
  case (2 n out p ch chs)
  show ?case
  proof (cases "is_whitespace ch \<or> is_control ch")
    case True
    then show ?thesis using 2 by simp
  next
    case False
    let ?out = "out @ (if p then '' '' else []) @ ch"
    show ?thesis
    proof (cases "length ?out > n")
      case True
      have "prefix ?out (summary_full ?out False chs)" by (rule summary_full_prefix)
      then have "prefix out (summary_full ?out False chs)" "length ?out \<le> length (summary_full ?out False chs)"
        by (auto dest: append_prefixD prefix_length_le)
      with False True 2(3) show ?thesis by (auto simp: Let_def split: if_splits)
    next
      case fits: False
      then show ?thesis using 2(2)[OF False refl] False by (auto simp: Let_def split: if_splits)
    qed
  qed
qed simp

lemma join_snoc: "ws \<noteq> [] \<Longrightarrow> join sep (ws @ [w]) = join sep ws @ sep @ w"
  by (induction sep ws rule: join.induct) auto

lemma join_nonempty: "ws \<noteq> [] \<Longrightarrow> [] \<notin> set ws \<Longrightarrow> join sep ws \<noteq> []"
  by (induction sep ws rule: join.induct) auto

lemma summary_full_join:
  assumes "[] \<notin> set chs" "[] \<notin> set ws"
  shows "acc \<noteq> [] \<Longrightarrow> concat acc \<noteq> [] \<Longrightarrow> summary_full (join '' '' (ws @ [concat acc])) False chs
      = join '' '' (ws @ words_of (\<lambda>ch. is_whitespace ch \<or> is_control ch) acc chs)"
    and "summary_full (join '' '' ws) (ws \<noteq> []) chs = join '' '' (ws @ words_of (\<lambda>ch. is_whitespace ch \<or> is_control ch) [] chs)"
  using assms
proof (induction chs arbitrary: ws acc)
  case (Cons ch chs)
  { case 1
    have ne: "join '' '' (ws @ [concat acc]) \<noteq> []" using 1 by (intro join_nonempty) auto
    show ?case
    proof (cases "is_whitespace ch \<or> is_control ch")
      case True
      then show ?thesis using Cons.IH(2)[of "ws @ [concat acc]"] 1 ne by simp
    next
      case False
      have "join '' '' (ws @ [concat acc]) @ ch = join '' '' (ws @ [concat (acc @ [ch])])"
        by (cases "ws = []") (simp_all add: join_snoc)
      with False show ?thesis using Cons.IH(1)[of "acc @ [ch]" ws] 1 by simp
    qed
  next
    case 2
    have e: "(join '' '' ws \<noteq> []) = (ws \<noteq> [])" using 2(2) join_nonempty[of ws] by auto
    show ?case
    proof (cases "is_whitespace ch \<or> is_control ch")
      case True
      then show ?thesis using Cons.IH(2)[of ws] 2 by (simp add: e)
    next
      case False
      have "join '' '' ws @ (if ws \<noteq> [] then '' '' else []) @ ch = join '' '' (ws @ [concat [ch]])"
        by (cases "ws = []") (simp_all add: join_snoc)
      with False show ?thesis using Cons.IH(1)[of "[ch]" ws] 2 by auto
    qed
  }
qed auto

lemma normalize_summary_spec:
  fixes v :: string
  defines "full \<equiv> join '' '' (summary_words v)"
  assumes "11 \<le> n"
  shows "normalize_summary v n \<noteq> []" "length (normalize_summary v n) \<le> n"
    "normalize_summary v n = ''Error event'' \<or> prefix (normalize_summary v n) full"
    "full \<noteq> [] \<Longrightarrow> length full \<le> n \<Longrightarrow> normalize_summary v n = full"
proof -
  have "[] \<notin> set (utf8_chars v)" using utf8_chars_nonempty by auto
  then have f: "summary_full [] False (utf8_chars v) = full"
    using summary_full_join(2)[of "utf8_chars v" "[]"] by (simp add: full_def summary_words_def)
  note l = summary_loop_full[of "[]" n False "utf8_chars v", unfolded f]
  show "normalize_summary v n \<noteq> []" by (simp add: normalize_summary_def Let_def)
  show "length (normalize_summary v n) \<le> n" using l assms(2) by (simp add: normalize_summary_def Let_def)
  show "normalize_summary v n = ''Error event'' \<or> prefix (normalize_summary v n) full"
    using l by (simp add: normalize_summary_def Let_def)
  show "full \<noteq> [] \<Longrightarrow> length full \<le> n \<Longrightarrow> normalize_summary v n = full"
    using l by (simp add: normalize_summary_def Let_def)
qed

definition title_text :: "normalized_event_body \<Rightarrow> string" where
  "title_text b = unwrap_or (opt_or (Option.bind (last_exception b) exception_title)
     (opt_or (nb_message b) (nb_logger b))) ''Error event''"

lemma build_title_ok: "build_title b = Inr (normalize_summary (title_text b) MAX_ISSUE_TITLE_BYTES)"
  using normalize_summary_spec(1,2)[of MAX_ISSUE_TITLE_BYTES "title_text b"]
  by (simp add: build_title_def Let_def title_text_def IssueTitle_new_def bounded_issue_text_def MAX_ISSUE_TITLE_BYTES_def)

lemma build_culprit_ok: "\<exists>c. build_culprit b = Inr c \<and> is_none_or c (\<lambda>v. v \<noteq> [] \<and> length v \<le> MAX_ISSUE_CULPRIT_BYTES)"
proof -
  have "normalize_summary v 256 \<noteq> []" "\<not> 256 < length (normalize_summary v 256)" for v
    using normalize_summary_spec(1,2)[of 256 v] by simp_all
  then show ?thesis
    by (auto simp: build_culprit_def Let_def IssueCulprit_new_def bounded_issue_text_def MAX_ISSUE_CULPRIT_BYTES_def
        transpose_opt_def is_none_or_def not_less[symmetric] split: option.split)
qed

text \<open>
  For a normalized event and a grouping result that verifies, preparing the occurrence always
  succeeds: it carries the identity of the event and of the grouping, its title is the words of the
  exception, message or logger text joined by single spaces, cut to 512 bytes and never empty, and its
  culprit has 1 to 256 bytes.
\<close>
theorem occurrence_summary:
  assumes "verify_issue_id H (ne_project_id e) (gr_key g) (gr_issue_id g) = Some True"
    "identity_within MAX_RELEASE_BYTES (nb_release (ne_body e))"
  shows "\<exists>occ. prepare_issue_occurrence H e g = Inr occ
    \<and> io_project_id occ = ne_project_id e \<and> io_event_id occ = ne_event_id e \<and> io_issue_id occ = gr_issue_id g
    \<and> io_grouping_key occ = gr_key g \<and> io_release occ = nb_release (ne_body e) \<and> io_increment occ = 1
    \<and> io_title occ \<noteq> [] \<and> length (io_title occ) \<le> 512
    \<and> (let full = join '' '' (summary_words (title_text (ne_body e))) in
        (io_title occ = ''Error event'' \<or> prefix (io_title occ) full)
        \<and> (full \<noteq> [] \<and> length full \<le> 512 \<longrightarrow> io_title occ = full))
    \<and> is_none_or (io_culprit occ) (\<lambda>v. v \<noteq> [] \<and> length v \<le> 256)"
proof -
  obtain c where c: "build_culprit (ne_body e) = Inr c" "is_none_or c (\<lambda>v. v \<noteq> [] \<and> length v \<le> MAX_ISSUE_CULPRIT_BYTES)"
    using build_culprit_ok by blast
  have r: "transpose_opt (map_option IssueRelease_new (nb_release (ne_body e))) = Inr (nb_release (ne_body e))"
    using assms(2) by (cases "nb_release (ne_body e)")
      (simp_all add: IssueRelease_new_def bounded_issue_text_def identity_within_def MAX_ISSUE_RELEASE_BYTES_def
        MAX_RELEASE_BYTES_def)
  note s = normalize_summary_spec[of MAX_ISSUE_TITLE_BYTES "title_text (ne_body e)"]
  show ?thesis
    using s c(2) by (simp add: prepare_issue_occurrence_def assms(1) r build_title_ok c(1) Let_def
        MAX_ISSUE_TITLE_BYTES_def MAX_ISSUE_CULPRIT_BYTES_def)
qed

definition sample_grouping_result :: grouping_result where
  "sample_grouping_result = \<lparr>gr_key = \<lparr>gk_revision = 1, gk_digest = replicate 32 0\<rparr>, gr_issue_id = replicate 16 0,
     gr_strategy = GS_Message, gr_explanation = \<lparr>gx_summary = ''m'', gx_components = []\<rparr>\<rparr>"

definition sample_issue_event :: normalized_event where
  "sample_issue_event = \<lparr>ne_project_id = 7, ne_event_id = replicate 16 1, ne_received_at = 5, ne_policy_revision = 1,
     ne_body = empty_body, ne_diagnostics = []\<rparr>"

theorem occurrence_summary_witness:
  "\<exists>occ. prepare_issue_occurrence (\<lambda>_. replicate 32 0) sample_issue_event sample_grouping_result = Inr occ
     \<and> io_event_id occ = replicate 16 1 \<and> io_title occ \<noteq> []"
proof -
  have "derive_issue_id (\<lambda>_. replicate 32 0) 7 \<lparr>gk_revision = 1, gk_digest = replicate 32 0\<rparr>
      = Some (take 16 (replicate 32 0))"
    using derive_issue_id_total[of "\<lparr>gk_revision = 1, gk_digest = replicate 32 0\<rparr>" "\<lambda>_. replicate 32 0" 7] by auto
  then have "verify_issue_id (\<lambda>_. replicate 32 0) (ne_project_id sample_issue_event) (gr_key sample_grouping_result)
      (gr_issue_id sample_grouping_result) = Some True"
    by (simp add: verify_issue_id_def sample_issue_event_def sample_grouping_result_def)
  from occurrence_summary[OF this] show ?thesis
    by (auto simp: sample_issue_event_def empty_body_def identity_within_def)
qed

end
