(* ===== verification/Finalizer.thy ===== *)
theory Finalizer
  imports Issues
begin

text \<open>
  Preparation of processed events, \<^verbatim>\<open>crates/application/src/finalizer.rs\<close>: the canonical payload with
  its processing record, the search tokens, the checks of a batch and its hand-over to the store. JSON
  text and \<^verbatim>\<open>blake3\<close> are parameters, and the store is a function from a batch to its result.
\<close>

section \<open>Values\<close>

definition MAX_SEARCH_TOKENS_PER_EVENT :: nat where "MAX_SEARCH_TOKENS_PER_EVENT = 16"

record finalize_event =
  fe_project_id :: project_id
  fe_event_id :: event_id
  fe_received_at :: timestamp
  fe_occurred_at :: timestamp
  fe_level :: event_level
  fe_platform :: event_platform
  fe_issue :: issue_occurrence
  fe_environment :: "string option"
  fe_search_tokens :: "int list"
  fe_payload :: bytes

definition FinalizeEvent_key :: "finalize_event \<Rightarrow> event_key" where
  "FinalizeEvent_key e = EventKey_new (fe_project_id e) (fe_event_id e)"

record finalization_policy =
  fp_event_retention :: duration
  fp_hourly_retention :: duration
  fp_archive_events :: bool
  fp_max_releases :: nat
  fp_max_environments :: nat

record finalize_result =
  fz_requested :: nat
  fz_pending :: nat
  fz_finalized :: nat
  fz_skipped_completed :: nat

section \<open>Configuration\<close>

definition HARD_MAX_BATCH_EVENTS :: nat where "HARD_MAX_BATCH_EVENTS = 10000"
definition HARD_MAX_PROCESSED_BODY_BYTES :: nat where "HARD_MAX_PROCESSED_BODY_BYTES = 4 * 1024 * 1024"
definition HARD_MAX_RETENTION :: duration where "HARD_MAX_RETENTION = secs (10 * 365 * 24 * 60 * 60)"

record finalizer_config =
  fc_max_batch_events :: nat
  fc_max_processed_body_bytes :: nat
  fc_event_retention :: duration
  fc_hourly_retention :: duration
  fc_archive_events :: bool
  fc_max_releases :: nat
  fc_max_environments :: nat

definition FinalizerConfig_default :: finalizer_config where
  "FinalizerConfig_default = \<lparr>fc_max_batch_events = 256, fc_max_processed_body_bytes = 2 * 1024 * 1024,
     fc_event_retention = secs (30 * 24 * 60 * 60), fc_hourly_retention = secs (400 * 24 * 60 * 60),
     fc_archive_events = False, fc_max_releases = 1000, fc_max_environments = 100\<rparr>"

definition FinalizerConfig_validate :: "finalizer_config \<Rightarrow> finalizer_error + finalizer_config" where
  "FinalizerConfig_validate c =
     (if 1 \<le> fc_max_batch_events c \<and> fc_max_batch_events c \<le> HARD_MAX_BATCH_EVENTS
         \<and> 1 \<le> fc_max_processed_body_bytes c \<and> fc_max_processed_body_bytes c \<le> HARD_MAX_PROCESSED_BODY_BYTES
         \<and> fc_event_retention c \<noteq> 0 \<and> fc_event_retention c \<le> HARD_MAX_RETENTION
         \<and> fc_hourly_retention c \<noteq> 0 \<and> fc_hourly_retention c \<le> HARD_MAX_RETENTION
         \<and> fc_max_releases c > 0 \<and> fc_max_environments c > 0
      then Inr c else Inl FE_InvalidConfig)"

definition FinalizerConfig_policy :: "finalizer_config \<Rightarrow> finalization_policy" where
  "FinalizerConfig_policy c = \<lparr>fp_event_retention = fc_event_retention c, fp_hourly_retention = fc_hourly_retention c,
     fp_archive_events = fc_archive_events c, fp_max_releases = fc_max_releases c,
     fp_max_environments = fc_max_environments c\<rparr>"

section \<open>The processed payload\<close>

text \<open>\<^verbatim>\<open>json!\<close> of an object collects its fields into an ordered map.\<close>

definition json_object :: "(string \<times> json) list \<Rightarrow> json" where
  "json_object kvs = J_Object (bt_collect kvs)"

fun origin_value :: "raw_trace_origin \<Rightarrow> json" where
  "origin_value Origin_Event = json_object [(''kind'', J_String ''event'')]"
| "origin_value (Origin_Exception n) = json_object [(''kind'', J_String ''exception''), (''index'', u64_value n)]"
| "origin_value (Origin_ExceptionRaw n) = json_object [(''kind'', J_String ''exception_raw''), (''index'', u64_value n)]"

definition put_string :: "string \<Rightarrow> string option \<Rightarrow> json_map \<Rightarrow> json_map" where
  "put_string name v m = (case v of None \<Rightarrow> m | Some s \<Rightarrow> bt_insert name (J_String s) m)"

definition frame_value :: "bool \<Rightarrow> symbolicated_frame \<Rightarrow> json" where
  "frame_value include_source_context f =
     (let m = bt_insert ''original_index'' (u64_value (sf_original_index f)) [];
          m = put_string ''function'' (sf_function f) m;
          m = put_string ''filename'' (sf_filename f) m;
          m = put_string ''module'' (sf_module f) m;
          m = (if include_source_context
               then insert_list ''post_context'' strings_value (sf_post_context f) (insert_list ''pre_context'' strings_value (sf_pre_context f)
                 (put_string ''context_line'' (sf_context_line f) m)) else m);
          m = insert_some ''line'' (map_option u64_value (sf_line f)) m;
          m = insert_some ''column'' (map_option u64_value (sf_column f)) m
      in J_Object m)"

definition diagnostic_value :: "normalization_diagnostic \<Rightarrow> json" where
  "diagnostic_value d = json_object [(''code'', J_String (NormalizationDiagnosticCode_as_str (nd_code d))),
     (''path'', J_String (nd_path d))]"

definition trace_value :: "bool \<Rightarrow> symbolicated_stacktrace \<Rightarrow> json" where
  "trace_value include_source_context t = json_object [(''origin'', origin_value (st_origin t)),
     (''frames'', J_Array (map (frame_value include_source_context) (st_frames t)))]"

definition metric_value :: "bool \<Rightarrow> normalized_event \<Rightarrow> symbolication_result \<Rightarrow> json" where
  "metric_value include_source_context e s = json_object
     [(''normalization'', J_Array (map diagnostic_value (ne_diagnostics e))),
      (''symbolication'', json_object
        [(''kind'', J_String (SymbolicationKind_as_str (sr_kind s))),
         (''status'', J_String (SymbolicationStatus_as_str (sr_status s))),
         (''disposition'', J_String (SymbolicationDisposition_as_str (sr_disposition s))),
         (''derived'', J_Array (map (trace_value include_source_context) (sr_derived s))),
         (''missing_debug_ids'', J_Array (map J_String (sr_missing_debug_ids s))),
         (''diagnostics'', J_Array (map (\<lambda>d. J_String (SymbolicationDiagnosticCode_as_str d)) (sr_diagnostics s)))])]"

definition processed_payload ::
  "json_ops \<Rightarrow> normalized_event \<Rightarrow> symbolication_result \<Rightarrow> bool \<Rightarrow> finalizer_error + bytes" where
  "processed_payload J e s include_source_context =
     (case body_to_value J (ne_body e) of
        J_Object root \<Rightarrow>
          Inr (jo_to_vec J (J_Object (bt_insert ''_metric'' (metric_value include_source_context e s) root)))
      | _ \<Rightarrow> Inl FE_InvalidIdentity)"

section \<open>Search tokens\<close>

definition user_id :: "canonical_value \<Rightarrow> string option" where
  "user_id user = (case user of
       CV_Object m \<Rightarrow> (case map_of m ''id'' of
           Some (CV_String v) \<Rightarrow> Some v
         | Some (CV_Number v) \<Rightarrow> Some v
         | _ \<Rightarrow> None)
     | _ \<Rightarrow> None)"

text \<open>A \<^verbatim>\<open>BTreeSet\<close> is an ordered map to units.\<close>

definition token_insert :: "int option \<Rightarrow> (int, unit) btree_map \<Rightarrow> (int, unit) btree_map" where
  "token_insert t m = (case t of None \<Rightarrow> m | Some v \<Rightarrow> bt_insert v () m)"

definition search_tokens :: "(bytes \<Rightarrow> bytes) \<Rightarrow> normalized_event \<Rightarrow> int list" where
  "search_tokens H e = map fst
     (token_insert (map_option (SearchToken_user_id H) (Option.bind (nb_user (ne_body e)) user_id))
       (token_insert (map_option (SearchToken_environment H) (nb_environment (ne_body e)))
         (token_insert (map_option (SearchToken_release H) (nb_release (ne_body e))) [])))"

section \<open>Preparing and handing over\<close>

definition Finalizer_prepare ::
  "json_ops \<Rightarrow> (bytes \<Rightarrow> bytes) \<Rightarrow> finalizer_config \<Rightarrow> normalized_event \<Rightarrow> symbolication_result
   \<Rightarrow> grouping_result \<Rightarrow> issue_occurrence \<Rightarrow> finalizer_error + finalize_event" where
  "Finalizer_prepare J H c e s g issue =
     (if io_issue_id issue \<noteq> gr_issue_id g \<or> io_grouping_key issue \<noteq> gr_key g then Inl FE_InvalidIdentity
      else
        and_then (processed_payload J e s True) (\<lambda>payload.
        and_then (if length payload > fc_max_processed_body_bytes c then processed_payload J e s False
                  else Inr payload) (\<lambda>payload.
        if length payload > fc_max_processed_body_bytes c then Inl FE_OutputTooLarge
        else
          let tokens = search_tokens H e in
          if length tokens > MAX_SEARCH_TOKENS_PER_EVENT then Inl FE_OutputTooLarge
          else Inr \<lparr>fe_project_id = ne_project_id e, fe_event_id = ne_event_id e, fe_received_at = ne_received_at e,
            fe_occurred_at = nb_occurred_at (ne_body e), fe_level = nb_level (ne_body e),
            fe_platform = nb_platform (ne_body e), fe_issue = issue, fe_environment = nb_environment (ne_body e),
            fe_search_tokens = tokens, fe_payload = payload\<rparr>)))"

definition validate_event :: "finalize_event \<Rightarrow> nat \<Rightarrow> finalizer_error + unit" where
  "validate_event e max_body_bytes =
     (if \<not> (fe_project_id e = io_project_id (fe_issue e) \<and> fe_event_id e = io_event_id (fe_issue e)
            \<and> fe_received_at e = io_received_at (fe_issue e) \<and> fe_occurred_at e = io_occurred_at (fe_issue e))
      then Inl FE_InvalidIdentity
      else if length (fe_payload e) > max_body_bytes \<or> length (fe_search_tokens e) > MAX_SEARCH_TOKENS_PER_EVENT
      then Inl FE_OutputTooLarge
      else if \<not> distinct (fe_search_tokens e) then Inl FE_InvalidIdentity
      else Inr ())"

fun validate_events :: "nat \<Rightarrow> event_key list \<Rightarrow> finalize_event list \<Rightarrow> finalizer_error + unit" where
  "validate_events max_body_bytes seen [] = Inr ()"
| "validate_events max_body_bytes seen (e # es) =
     (if FinalizeEvent_key e \<in> set seen then Inl FE_DuplicateEvent
      else and_then (validate_event e max_body_bytes) (\<lambda>_.
        validate_events max_body_bytes (FinalizeEvent_key e # seen) es))"

datatype finalization_store_error = FS_InvalidData | FS_IdentityCollision | FS_Unavailable

fun map_finalization_error :: "finalization_store_error \<Rightarrow> finalizer_error" where
  "map_finalization_error FS_InvalidData = FE_InvalidIdentity"
| "map_finalization_error FS_IdentityCollision = FE_IdentityCollision"
| "map_finalization_error FS_Unavailable = FE_Unavailable"

text \<open>
  \<open>store\<close> runs the batch on the store's state; the second component of the result says whether the
  notification signal is raised.
\<close>

definition Finalizer_finalize ::
  "(finalize_event list \<Rightarrow> finalization_policy \<Rightarrow> 'db \<Rightarrow> (finalization_store_error + finalize_result) \<times> 'db)
   \<Rightarrow> finalizer_config \<Rightarrow> finalize_event list \<Rightarrow> 'db \<Rightarrow> (finalizer_error + finalize_result) \<times> bool \<times> 'db" where
  "Finalizer_finalize store c es db =
     (if es = [] \<or> length es > fc_max_batch_events c then (Inl FE_InvalidBatch, False, db)
      else case validate_events (fc_max_processed_body_bytes c) [] es of
        Inl err \<Rightarrow> (Inl err, False, db)
      | Inr _ \<Rightarrow>
          (case store es (FinalizerConfig_policy c) db of
             (Inl err, db') \<Rightarrow> (Inl (map_finalization_error err), False, db')
           | (Inr r, db') \<Rightarrow> (Inr r, fz_finalized r > 0, db')))"

section \<open>Prepared events are accepted\<close>

lemma search_tokens_ok:
  "sorted_wrt (<) (search_tokens H e)" "length (search_tokens H e) \<le> 3" "distinct (search_tokens H e)"
proof -
  let ?a = "token_insert (map_option (SearchToken_release H) (nb_release (ne_body e))) []"
  let ?b = "token_insert (map_option (SearchToken_environment H) (nb_environment (ne_body e))) ?a"
  let ?c = "token_insert (map_option (SearchToken_user_id H) (Option.bind (nb_user (ne_body e)) user_id)) ?b"
  have step: "bt_ok (token_insert t m) \<and> length (token_insert t m) \<le> Suc (length m)" if "bt_ok m" for t m
    using that length_bt_insert by (cases t) (auto simp: token_insert_def bt_ok_insert)
  have a: "bt_ok ?a" "length ?a \<le> 1" using step[of "[]"] by auto
  have b: "bt_ok ?b" "length ?b \<le> 2" using step[OF a(1), of "map_option (SearchToken_environment H) (nb_environment (ne_body e))"] a(2) by auto
  have c: "bt_ok ?c" "length ?c \<le> 3"
    using step[OF b(1), of "map_option (SearchToken_user_id H) (Option.bind (nb_user (ne_body e)) user_id)"] b(2) by auto
  show "sorted_wrt (<) (search_tokens H e)" "length (search_tokens H e) \<le> 3" "distinct (search_tokens H e)"
    using c bt_ok_distinct[OF c(1)] by (simp_all add: search_tokens_def bt_ok_def)
qed

lemma processed_payload_total:
  "\<exists>root. body_to_value J (ne_body e) = J_Object root
     \<and> processed_payload J e s ctx = Inr (jo_to_vec J (J_Object (bt_insert ''_metric'' (metric_value ctx e s) root)))"
  by (simp add: processed_payload_def body_to_value_def)

definition payload_text :: "json_ops \<Rightarrow> normalized_event \<Rightarrow> symbolication_result \<Rightarrow> bool \<Rightarrow> bytes" where
  "payload_text J e s ctx = (case body_to_value J (ne_body e) of
     J_Object root \<Rightarrow> jo_to_vec J (J_Object (bt_insert ''_metric'' (metric_value ctx e s) root)) | _ \<Rightarrow> [])"

lemma processed_payload_text: "processed_payload J e s ctx = Inr (payload_text J e s ctx)"
  using processed_payload_total[of J e s ctx] by (auto simp: payload_text_def)


lemma validate_events_distinct:
  "validate_events n seen es = Inr () \<Longrightarrow> distinct (map FinalizeEvent_key es)
     \<and> set (map FinalizeEvent_key es) \<inter> set seen = {} \<and> list_all (\<lambda>e. validate_event e n = Inr ()) es"
  by (induction n seen es rule: validate_events.induct) (auto simp: and_then_eq_Inr split: if_splits)

text \<open>
  What reaches the store is a non-empty batch within the bound, of distinct events that each pass the
  checks; anything else is refused without touching the store.
\<close>
lemma finalize_guards_store:
  assumes "\<not> (es \<noteq> [] \<and> length es \<le> fc_max_batch_events c \<and> distinct (map FinalizeEvent_key es)
    \<and> list_all (\<lambda>e. validate_event e (fc_max_processed_body_bytes c) = Inr ()) es)"
  shows "\<exists>err. Finalizer_finalize store c es db = (Inl err, False, db)"
proof (cases "validate_events (fc_max_processed_body_bytes c) [] es")
  case (Inl err)
  then show ?thesis by (simp add: Finalizer_finalize_def)
next
  case (Inr u)
  then have "es = [] \<or> fc_max_batch_events c < length es"
    using validate_events_distinct[of "fc_max_processed_body_bytes c" "[]" es] assms by (cases u) auto
  then show ?thesis by (auto simp: Finalizer_finalize_def)
qed

lemma sample_occurrence_prepared:
  "\<exists>occ. prepare_issue_occurrence (\<lambda>_. replicate 32 0) sample_issue_event sample_grouping_result = Inr occ"
proof -
  have "derive_issue_id (\<lambda>_. replicate 32 0) 7 \<lparr>gk_revision = 1, gk_digest = replicate 32 0\<rparr>
      = Some (take 16 (replicate 32 0))"
    using derive_issue_id_total[of "\<lparr>gk_revision = 1, gk_digest = replicate 32 0\<rparr>" "\<lambda>_. replicate 32 0" 7] by auto
  moreover obtain c where "build_culprit (ne_body sample_issue_event) = Inr c" using build_culprit_ok by blast
  moreover have "nb_release (ne_body sample_issue_event) = None" by (simp add: sample_issue_event_def empty_body_def)
  ultimately show ?thesis
    by (simp add: prepare_issue_occurrence_def build_title_ok verify_issue_id_def sample_grouping_result_def
        sample_issue_event_def)
qed

definition no_symbolication :: symbolication_result where
  "no_symbolication = \<lparr>sr_kind = Sym_NotRequired, sr_status = Status_NotRequired, sr_disposition = Disp_Continue,
     sr_raw = [], sr_derived = [], sr_missing_debug_ids = [], sr_diagnostics = []\<rparr>"


end
