(* ===== verification/Issue_Store.thy ===== *)
theory Issue_Store
  imports Issues "HOL-Library.Multiset"
begin

text \<open>
  The PostgreSQL issue store, \<^verbatim>\<open>crates/postgres/src/issues.rs\<close>: the rows of an issue, how they are
  written and read back, and how batches of occurrences and workflow commands change an issue.
  \<^verbatim>\<open>blake3\<close>, JSON text, compression and the Unicode search projection are parameters.
\<close>

section \<open>Rows\<close>

record issue_row =
  ir_project_id :: project_id
  ir_issue_id :: bytes
  ir_grouping_key :: bytes
  ir_title :: bytes
  ir_culprit :: "bytes option"
  ir_search_projection :: string
  ir_first_seen :: int
  ir_last_seen :: int
  ir_first_event_id :: bytes
  ir_latest_event_id :: bytes
  ir_representative_event_id :: bytes
  ir_occurrence_count :: int
  ir_status :: int
  ir_assignee :: "bytes option"
  ir_workflow_at :: "int option"
  ir_workflow_actor :: "bytes option"
  ir_regression_at :: "int option"
  ir_regression_event_id :: "bytes option"
  ir_regression_count :: "int option"
  ir_regression_release :: "bytes option"
  ir_first_release :: "bytes option"
  ir_last_release :: "bytes option"
  ir_grouping_body :: bytes

text \<open>The constraints of \<^verbatim>\<open>migrations/0005_issues.sql\<close>; a null satisfies a column check.\<close>

definition time_check :: "int \<Rightarrow> bool" where
  "time_check t = (-62135596800000 \<le> t \<and> t \<le> 253402300799999)"

definition actor_check :: "bytes \<Rightarrow> bool" where
  "actor_check bs = (length bs = 17 \<and> hd bs \<in> {1, 2, 3})"

definition release_check :: "bytes \<Rightarrow> bool" where
  "release_check bs = (1 \<le> length bs \<and> length bs \<le> 200)"

definition issue_row_check :: "issue_row \<Rightarrow> bool" where
  "issue_row_check r =
     (length (ir_issue_id r) = 16 \<and> length (ir_grouping_key r) = 34 \<and> take 2 (ir_grouping_key r) \<noteq> [0, 0]
      \<and> 1 \<le> length (ir_title r) \<and> length (ir_title r) \<le> 512
      \<and> is_none_or (ir_culprit r) (\<lambda>v. 1 \<le> length v \<and> length v \<le> 256)
      \<and> length (ir_search_projection r) \<le> 2048
      \<and> time_check (ir_first_seen r) \<and> time_check (ir_last_seen r) \<and> ir_first_seen r \<le> ir_last_seen r
      \<and> length (ir_first_event_id r) = 16 \<and> length (ir_latest_event_id r) = 16
      \<and> length (ir_representative_event_id r) = 16 \<and> 0 < ir_occurrence_count r
      \<and> 0 \<le> ir_status r \<and> ir_status r \<le> 2 \<and> is_none_or (ir_assignee r) actor_check
      \<and> is_none_or (ir_workflow_at r) time_check \<and> is_none_or (ir_workflow_actor r) actor_check
      \<and> is_none_or (ir_regression_at r) time_check
      \<and> is_none_or (ir_regression_event_id r) (\<lambda>v. length v = 16)
      \<and> is_none_or (ir_regression_count r) (\<lambda>n. 0 < n)
      \<and> is_none_or (ir_regression_release r) release_check \<and> is_none_or (ir_first_release r) release_check
      \<and> is_none_or (ir_last_release r) release_check
      \<and> 2 \<le> length (ir_grouping_body r) \<and> length (ir_grouping_body r) \<le> 131072
      \<and> (ir_status r = 0 \<and> ir_workflow_at r = None \<and> ir_workflow_actor r = None
         \<or> ir_status r \<noteq> 0 \<and> ir_workflow_at r \<noteq> None \<and> ir_workflow_actor r \<noteq> None)
      \<and> (ir_regression_at r = None \<and> ir_regression_event_id r = None \<and> ir_regression_count r = None
           \<and> ir_regression_release r = None
         \<or> ir_regression_at r \<noteq> None \<and> ir_regression_event_id r \<noteq> None \<and> ir_regression_count r \<noteq> None))"

datatype issue_store_error = IE_InvalidData | IE_IdentityCollision | IE_NotFound | IE_Unavailable

record issue_codec_config =
  cc_min_savings :: nat
  cc_max_decoded :: nat
  cc_max_row :: nat

definition IssueCodecConfig_default :: issue_codec_config where
  "IssueCodecConfig_default = \<lparr>cc_min_savings = 64, cc_max_decoded = 64 * 1024, cc_max_row = 128 * 1024\<rparr>"

text \<open>What the store needs of its environment: hash, JSON text, compression, search projection.\<close>

record issue_env =
  ev_blake3 :: "bytes \<Rightarrow> bytes"
  ev_json :: json_ops
  ev_zstd :: zstd_ops
  ev_projection :: "string \<Rightarrow> string"
  ev_codec :: issue_codec_config

section \<open>Grouping bodies\<close>

definition component_value :: "grouping_component \<Rightarrow> json" where
  "component_value c = J_Object [(''kind'', J_Number (JN_PosInt (unat (component_kind_byte (gc_kind c))))),
     (''value'', J_String (gc_value c))]"

definition grouping_value :: "issue_grouping_detail \<Rightarrow> json" where
  "grouping_value d = J_Object [(''components'', J_Array (map component_value (gx_components (ig_explanation d)))),
     (''strategy'', J_String (GroupingStrategy_as_str (ig_strategy d))),
     (''summary'', J_String (gx_summary (ig_explanation d)))]"

definition decode_strategy :: "string option \<Rightarrow> grouping_strategy option" where
  "decode_strategy s =
     (if s = Some ''sdk_fingerprint'' then Some GS_SdkFingerprint
      else if s = Some ''exception_stack'' then Some GS_ExceptionStack
      else if s = Some ''native_stack'' then Some GS_NativeStack
      else if s = Some ''message'' then Some GS_Message
      else None)"

definition component_kinds :: "grouping_component_kind list" where
  "component_kinds = [GC_SdkFingerprint, GC_DefaultStrategy, GC_DefaultDigest, GC_ExceptionType, GC_Frame,
     GC_FrameFunction, GC_FrameModule, GC_FramePath, GC_FrameLine, GC_NativeModule, GC_NativeRelativeAddress,
     GC_Logger, GC_Message]"

definition decode_component_kind :: "nat option \<Rightarrow> grouping_component_kind option" where
  "decode_component_kind n = (case n of
       Some k \<Rightarrow> if 1 \<le> k \<and> k \<le> 13 then Some (component_kinds ! (k - 1)) else None
     | None \<Rightarrow> None)"

definition decode_component :: "json \<Rightarrow> issue_store_error + grouping_component" where
  "decode_component v = ok_or IE_InvalidData
     (Option.bind (json_as_object v) (\<lambda>m.
      if length m \<noteq> 2 then None
      else Option.bind (decode_component_kind (Option.bind (map_of m ''kind'') json_as_u64)) (\<lambda>kind.
        Option.bind (Option.bind (map_of m ''value'') json_as_str) (\<lambda>val.
        Some \<lparr>gc_kind = kind, gc_value = val\<rparr>))))"

fun decode_components :: "json list \<Rightarrow> issue_store_error + grouping_component list" where
  "decode_components [] = Inr []"
| "decode_components (v # vs) = and_then (decode_component v) (\<lambda>c.
     and_then (decode_components vs) (\<lambda>cs. Inr (c # cs)))"

definition decode_grouping_value :: "json \<Rightarrow> issue_store_error + issue_grouping_detail" where
  "decode_grouping_value v =
     and_then (ok_or IE_InvalidData (json_as_object v)) (\<lambda>m.
     if length m \<noteq> 3 then Inl IE_InvalidData
     else
       and_then (ok_or IE_InvalidData (decode_strategy (Option.bind (map_of m ''strategy'') json_as_str))) (\<lambda>strategy.
       and_then (ok_or IE_InvalidData (Option.bind (map_of m ''summary'') json_as_str)) (\<lambda>summary.
       and_then (ok_or IE_InvalidData (Option.bind (map_of m ''components'') json_as_array)) (\<lambda>vs.
       and_then (decode_components vs) (\<lambda>components.
       Inr \<lparr>ig_strategy = strategy,
         ig_explanation = \<lparr>gx_summary = summary, gx_components = components\<rparr>\<rparr>)))))"

definition decode_grouping :: "issue_env \<Rightarrow> bytes \<Rightarrow> issue_store_error + issue_grouping_detail" where
  "decode_grouping V body =
     and_then (map_err (\<lambda>_. IE_InvalidData)
       (decode_json (ev_json V) (ev_zstd V) body (cc_max_decoded (ev_codec V)))) (\<lambda>decoded.
     and_then (ok_or IE_InvalidData (jo_from_slice (ev_json V) decoded)) decode_grouping_value)"

lemma decode_component_value: "decode_component (component_value c) = Inr c"
  by (cases c; cases "gc_kind c")
    (simp_all add: decode_component_def component_value_def decode_component_kind_def component_kinds_def)

lemma decode_components_value: "decode_components (map component_value cs) = Inr cs"
  by (induction cs) (simp_all add: decode_component_value)

lemma decode_grouping_value_round_trip: "decode_grouping_value (grouping_value d) = Inr d"
  by (cases "ig_strategy d")
    (simp_all add: decode_grouping_value_def grouping_value_def decode_components_value decode_strategy_def)

lemma decode_grouping_round_trip:
  assumes "codec_laws (ev_json V) (ev_zstd V) (grouping_value d)"
    "encode_json (ev_json V) (ev_zstd V) (grouping_value d) (cc_min_savings (ev_codec V)) (cc_max_decoded (ev_codec V))
      = Inr (body, canonical)"
  shows "decode_grouping V body = Inr d"
proof -
  note r = decode_encode_json[OF assms]
  have "jo_from_slice (ev_json V) (jo_to_vec (ev_json V) (grouping_value d)) = Some (grouping_value d)"
    using assms(1) by (simp add: codec_laws_def)
  with r show ?thesis by (simp add: decode_grouping_def decode_grouping_value_round_trip)
qed

section \<open>Reading a row\<close>

text \<open>\<^verbatim>\<open>String::from_utf8\<close>; the bytes of a string are the codes of its characters.\<close>

definition decode_utf8 :: "bytes \<Rightarrow> issue_store_error + string" where
  "decode_utf8 bs = (let s = map (\<lambda>b. char_of (unat b)) bs in if utf8_valid s then Inr s else Inl IE_InvalidData)"

definition decode_opt :: "('a \<Rightarrow> issue_store_error + 'b) \<Rightarrow> 'a option \<Rightarrow> issue_store_error + 'b option" where
  "decode_opt f v = transpose_opt (map_option f v)"

definition decode_text :: "(string \<Rightarrow> issue_value_error + string) \<Rightarrow> bytes \<Rightarrow> issue_store_error + string" where
  "decode_text new bs = and_then (decode_utf8 bs) (\<lambda>s. map_err (\<lambda>_. IE_InvalidData) (new s))"

definition decode_time :: "int \<Rightarrow> issue_store_error + timestamp" where
  "decode_time t = map_err (\<lambda>_. IE_InvalidData) (Timestamp_from_unix_millis t)"

definition decode_fixed :: "nat \<Rightarrow> bytes \<Rightarrow> issue_store_error + bytes" where
  "decode_fixed n bs = (if length bs = n then Inr bs else Inl IE_InvalidData)"

definition decode_actor :: "bytes \<Rightarrow> issue_store_error + actor_ref" where
  "decode_actor bs = ok_or IE_InvalidData (ActorRef_from_bytes bs)"

definition positive :: "int \<Rightarrow> issue_store_error + nat" where
  "positive v = (if 0 < v then Inr (nat v) else Inl IE_InvalidData)"

definition decode_status :: "int \<Rightarrow> issue_store_error + issue_status" where
  "decode_status v = (if v = 0 then Inr Issue_Open else if v = 1 then Inr Issue_Resolved
     else if v = 2 then Inr Issue_Ignored else Inl IE_InvalidData)"

definition decode_workflow ::
  "issue_status \<Rightarrow> int option \<Rightarrow> bytes option \<Rightarrow> issue_store_error + issue_workflow option" where
  "decode_workflow status at actor = (case (status, at, actor) of
       (Issue_Open, None, None) \<Rightarrow> Inr None
     | (Issue_Open, _, _) \<Rightarrow> Inl IE_InvalidData
     | (_, Some at, Some actor) \<Rightarrow> and_then (decode_time at) (\<lambda>at.
         and_then (decode_actor actor) (\<lambda>actor. Inr (Some \<lparr>wf_at = at, wf_actor = actor\<rparr>)))
     | _ \<Rightarrow> Inl IE_InvalidData)"

definition decode_regression ::
  "int option \<Rightarrow> bytes option \<Rightarrow> int option \<Rightarrow> string option \<Rightarrow> issue_store_error + regression_summary option" where
  "decode_regression at event number release = (case (at, event, number) of
       (None, None, None) \<Rightarrow> if release = None then Inr None else Inl IE_InvalidData
     | (Some at, Some event, Some number) \<Rightarrow> and_then (decode_time at) (\<lambda>at.
         and_then (decode_fixed 16 event) (\<lambda>event.
         and_then (positive number) (\<lambda>number.
         Inr (Some \<lparr>rg_at = at, rg_event_id = event, rg_count = number, rg_release = release\<rparr>))))
     | _ \<Rightarrow> Inl IE_InvalidData)"

definition ROW_METADATA_BYTES :: nat where "ROW_METADATA_BYTES = 512"

definition opt_bytes :: "string option \<Rightarrow> nat" where
  "opt_bytes v = (case v of None \<Rightarrow> 0 | Some s \<Rightarrow> length s)"

definition row_size :: "bytes \<Rightarrow> string \<Rightarrow> string option \<Rightarrow> string option \<Rightarrow> string option \<Rightarrow> nat" where
  "row_size body title culprit first_release last_release =
     foldl (\<lambda>a b. min (a + b) u64_max) (length body)
       [ROW_METADATA_BYTES, length title, opt_bytes culprit, opt_bytes first_release, opt_bytes last_release]"

definition issue_verified :: "issue_env \<Rightarrow> project_id \<Rightarrow> grouping_key \<Rightarrow> bytes \<Rightarrow> bool" where
  "issue_verified V project key issue = (verify_issue_id (ev_blake3 V) project key issue = Some True)"

definition decode_issue :: "issue_env \<Rightarrow> issue_row \<Rightarrow> issue_store_error + issue_snapshot" where
  "decode_issue V r =
     and_then (map_err (\<lambda>_. IE_InvalidData) (ProjectId_new (ir_project_id r))) (\<lambda>project.
     and_then (decode_fixed 16 (ir_issue_id r)) (\<lambda>issue_id.
     and_then (map_err (\<lambda>_. IE_InvalidData) (GroupingKey_parse (ir_grouping_key r))) (\<lambda>key.
     if \<not> issue_verified V project key issue_id then Inl IE_InvalidData else
     and_then (decode_status (ir_status r)) (\<lambda>status.
     and_then (decode_workflow status (ir_workflow_at r) (ir_workflow_actor r)) (\<lambda>workflow.
     and_then (decode_opt (decode_text IssueRelease_new) (ir_regression_release r)) (\<lambda>regression_release.
     and_then (decode_regression (ir_regression_at r) (ir_regression_event_id r) (ir_regression_count r)
       regression_release) (\<lambda>regression.
     and_then (decode_text IssueTitle_new (ir_title r)) (\<lambda>title.
     and_then (decode_opt (decode_text IssueCulprit_new) (ir_culprit r)) (\<lambda>culprit.
     and_then (decode_opt (decode_text IssueRelease_new) (ir_first_release r)) (\<lambda>first_release.
     and_then (decode_opt (decode_text IssueRelease_new) (ir_last_release r)) (\<lambda>last_release.
     if length (ir_grouping_body r) > cc_max_row (ev_codec V)
        \<or> row_size (ir_grouping_body r) title culprit first_release last_release > cc_max_row (ev_codec V)
     then Inl IE_InvalidData else
     and_then (decode_time (ir_first_seen r)) (\<lambda>first_seen.
     and_then (decode_time (ir_last_seen r)) (\<lambda>last_seen.
     and_then (decode_fixed 16 (ir_first_event_id r)) (\<lambda>first_event_id.
     and_then (decode_fixed 16 (ir_latest_event_id r)) (\<lambda>latest_event_id.
     and_then (decode_fixed 16 (ir_representative_event_id r)) (\<lambda>representative_event_id.
     and_then (positive (ir_occurrence_count r)) (\<lambda>occurrence_count.
     and_then (decode_opt decode_actor (ir_assignee r)) (\<lambda>assignee.
     and_then (decode_grouping V (ir_grouping_body r)) (\<lambda>grouping.
     Inr \<lparr>is_project_id = project, is_issue_id = issue_id, is_grouping_key = key, is_title = title,
       is_culprit = culprit, is_first_seen = first_seen, is_last_seen = last_seen,
       is_first_event_id = first_event_id, is_latest_event_id = latest_event_id,
       is_representative_event_id = representative_event_id, is_occurrence_count = occurrence_count,
       is_status = status, is_assignee = assignee, is_workflow = workflow, is_regression = regression,
       is_first_release = first_release, is_last_release = last_release,
       is_grouping = grouping\<rparr>)))))))))))))))))))"

section \<open>The issue tables\<close>

record issue_transition =
  tr_issue_id :: bytes
  tr_kind :: nat
  tr_event_id :: bytes
  tr_created_at :: int

record issue_activity =
  av_issue :: bytes
  av_kind :: nat
  av_actor :: actor_ref
  av_assignee :: "actor_ref option"
  av_event :: "event_id option"
  av_at :: timestamp

record issue_tables =
  db_projects :: "project_id \<Rightarrow> bool"
  db_issues :: "project_id \<times> bytes \<Rightarrow> issue_row option"
  db_transitions :: "project_id \<times> bytes \<Rightarrow> issue_transition option"
  db_activities :: "project_id \<times> bytes \<Rightarrow> issue_activity option"

definition status_code :: "issue_status \<Rightarrow> int" where
  "status_code s = (case s of Issue_Open \<Rightarrow> 0 | Issue_Resolved \<Rightarrow> 1 | Issue_Ignored \<Rightarrow> 2)"

text \<open>An insert with \<^verbatim>\<open>ON CONFLICT DO NOTHING\<close>.\<close>

definition insert_ignore :: "'k \<Rightarrow> 'v \<Rightarrow> ('k \<Rightarrow> 'v option) \<Rightarrow> 'k \<Rightarrow> 'v option" where
  "insert_ignore k v t = (case t k of None \<Rightarrow> t(k \<mapsto> v) | Some _ \<Rightarrow> t)"

definition insert_transition ::
  "issue_env \<Rightarrow> issue_snapshot \<Rightarrow> issue_notification_kind \<Rightarrow> event_id \<Rightarrow> timestamp \<Rightarrow> issue_tables \<Rightarrow> issue_tables" where
  "insert_transition V issue kind event at db =
     (let transition = notification_transition_id (ev_blake3 V) (is_project_id issue) (is_issue_id issue) kind event in
      db\<lparr>db_transitions := insert_ignore (is_project_id issue, transition)
        \<lparr>tr_issue_id = is_issue_id issue, tr_kind = notification_kind_code kind, tr_event_id = event,
          tr_created_at = at\<rparr> (db_transitions db)\<rparr>)"

definition emit_activity :: "bool \<Rightarrow> project_id \<Rightarrow> bytes \<Rightarrow> issue_activity \<Rightarrow> issue_tables \<Rightarrow> issue_tables" where
  "emit_activity emitted project activity a db =
     (if emitted then db\<lparr>db_activities := insert_ignore (project, activity) a (db_activities db)\<rparr> else db)"

definition new_row ::
  "issue_env \<Rightarrow> issue_occurrence \<Rightarrow> issue_occurrence \<Rightarrow> issue_occurrence \<Rightarrow> int \<Rightarrow> bytes \<Rightarrow> issue_row" where
  "new_row V summary first latest increment body =
     \<lparr>ir_project_id = io_project_id summary, ir_issue_id = io_issue_id summary,
       ir_grouping_key = GroupingKey_to_bytes (io_grouping_key summary),
       ir_title = as_bytes (io_title summary), ir_culprit = map_option as_bytes (io_culprit summary),
       ir_search_projection = ev_projection V (io_title summary),
       ir_first_seen = io_occurred_at first, ir_last_seen = io_occurred_at latest,
       ir_first_event_id = io_event_id first, ir_latest_event_id = io_event_id latest,
       ir_representative_event_id = io_event_id latest, ir_occurrence_count = increment,
       ir_status = 0, ir_assignee = None, ir_workflow_at = None, ir_workflow_actor = None,
       ir_regression_at = None, ir_regression_event_id = None, ir_regression_count = None,
       ir_regression_release = None,
       ir_first_release = map_option as_bytes (io_release first),
       ir_last_release = map_option as_bytes (io_release latest), ir_grouping_body = body\<rparr>"

definition saved_row :: "issue_snapshot \<Rightarrow> issue_row \<Rightarrow> issue_row" where
  "saved_row s r = r\<lparr>ir_first_seen := is_first_seen s, ir_last_seen := is_last_seen s,
     ir_first_event_id := is_first_event_id s, ir_latest_event_id := is_latest_event_id s,
     ir_representative_event_id := is_representative_event_id s,
     ir_occurrence_count := int (is_occurrence_count s), ir_status := status_code (is_status s),
     ir_assignee := map_option ActorRef_to_bytes (is_assignee s),
     ir_workflow_at := map_option wf_at (is_workflow s),
     ir_workflow_actor := map_option (ActorRef_to_bytes \<circ> wf_actor) (is_workflow s),
     ir_regression_at := map_option rg_at (is_regression s),
     ir_regression_event_id := map_option rg_event_id (is_regression s),
     ir_regression_count := map_option (int \<circ> rg_count) (is_regression s),
     ir_regression_release := map_option as_bytes (Option.bind (is_regression s) rg_release),
     ir_first_release := map_option as_bytes (is_first_release s),
     ir_last_release := map_option as_bytes (is_last_release s)\<rparr>"

text \<open>The update of one row by its key; a violated check is reported as unavailable.\<close>

definition save_issue :: "issue_snapshot \<Rightarrow> issue_tables \<Rightarrow> issue_store_error + issue_tables" where
  "save_issue s db =
     (if is_occurrence_count s > i64_max
         \<or> \<not> is_none_or (is_regression s) (\<lambda>g. rg_count g \<le> i64_max) then Inl IE_InvalidData
      else case db_issues db (is_project_id s, is_issue_id s) of
          None \<Rightarrow> Inr db
        | Some r \<Rightarrow>
            (if issue_row_check (saved_row s r)
             then Inr (db\<lparr>db_issues := (db_issues db)((is_project_id s, is_issue_id s) \<mapsto> saved_row s r)\<rparr>)
             else Inl IE_Unavailable))"

section \<open>Applying occurrences\<close>

fun min_by_key :: "('a \<Rightarrow> 'k::linorder) \<Rightarrow> 'a \<Rightarrow> 'a list \<Rightarrow> 'a" where
  "min_by_key key a [] = a"
| "min_by_key key a (b # xs) = min_by_key key (if key b < key a then b else a) xs"

fun max_by_key :: "('a \<Rightarrow> 'k::linorder) \<Rightarrow> 'a \<Rightarrow> 'a list \<Rightarrow> 'a" where
  "max_by_key key a [] = a"
| "max_by_key key a (b # xs) = max_by_key key (if key a \<le> key b then b else a) xs"

definition seen_key :: "issue_occurrence \<Rightarrow> timestamp \<times> event_id" where
  "seen_key x = (io_occurred_at x, io_event_id x)"

definition received_key :: "issue_occurrence \<Rightarrow> timestamp \<times> event_id" where
  "received_key x = (io_received_at x, io_event_id x)"

definition MAX_OCCURRENCE_BATCH :: nat where "MAX_OCCURRENCE_BATCH = 10000"

fun sum_increments :: "nat \<Rightarrow> issue_occurrence list \<Rightarrow> issue_store_error + nat" where
  "sum_increments sum_so_far [] = Inr sum_so_far"
| "sum_increments sum_so_far (x # xs) =
     (if io_increment x > i64_max then Inl IE_InvalidData
      else if sum_so_far + io_increment x > i64_max then Inl IE_InvalidData
      else sum_increments (sum_so_far + io_increment x) xs)"

definition regresses :: "issue_snapshot \<Rightarrow> issue_occurrence \<Rightarrow> bool" where
  "regresses s candidate = (is_status s = Issue_Resolved
     \<and> is_some_and (is_workflow s) (\<lambda>w. io_received_at candidate > wf_at w))"

definition merge_seen :: "issue_occurrence \<Rightarrow> issue_occurrence \<Rightarrow> issue_snapshot \<Rightarrow> issue_snapshot" where
  "merge_seen first latest s =
     (let s = (if seen_key first < (is_first_seen s, is_first_event_id s)
               then s\<lparr>is_first_seen := io_occurred_at first, is_first_event_id := io_event_id first,
                 is_first_release := io_release first\<rparr> else s)
      in if seen_key latest > (is_last_seen s, is_latest_event_id s)
         then s\<lparr>is_last_seen := io_occurred_at latest, is_latest_event_id := io_event_id latest,
           is_representative_event_id := io_event_id latest, is_last_release := io_release latest\<rparr> else s)"

definition merge_regression :: "issue_occurrence \<Rightarrow> issue_snapshot \<Rightarrow> issue_store_error + issue_snapshot" where
  "merge_regression candidate s =
     (if \<not> regresses s candidate then Inr s
      else let count = (case is_regression s of None \<Rightarrow> 0 | Some g \<Rightarrow> rg_count g) + 1 in
        if count > i64_max then Inl IE_InvalidData
        else Inr (s\<lparr>is_status := Issue_Open, is_workflow := None,
          is_regression := Some \<lparr>rg_at = io_received_at candidate, rg_event_id = io_event_id candidate,
            rg_count = count, rg_release = io_release candidate\<rparr>\<rparr>))"

definition merge_batch ::
  "issue_occurrence \<Rightarrow> issue_occurrence \<Rightarrow> issue_occurrence \<Rightarrow> nat \<Rightarrow> issue_snapshot
   \<Rightarrow> issue_store_error + issue_snapshot" where
  "merge_batch first latest candidate increment s =
     (let count = is_occurrence_count s + increment in
      if is_occurrence_count s > i64_max \<or> count > i64_max then Inl IE_InvalidData
      else and_then (positive (int count)) (\<lambda>count.
        merge_regression candidate (merge_seen first latest (s\<lparr>is_occurrence_count := count\<rparr>))))"

definition mutation_kind :: "issue_snapshot \<Rightarrow> issue_occurrence \<Rightarrow> issue_mutation_kind" where
  "mutation_kind s candidate =
     (if is_status s = Issue_Open \<and> is_some_and (is_regression s)
           (\<lambda>g. rg_event_id g = io_event_id candidate \<and> rg_at g = io_received_at candidate)
      then Mutation_Regressed else Mutation_Updated)"

definition batch_consistent :: "issue_env \<Rightarrow> issue_occurrence \<Rightarrow> issue_occurrence list \<Rightarrow> bool" where
  "batch_consistent V summary xs = (length xs \<le> MAX_OCCURRENCE_BATCH
     \<and> list_all (\<lambda>x. io_project_id x = io_project_id summary \<and> io_issue_id x = io_issue_id summary
         \<and> io_grouping_key x = io_grouping_key summary
         \<and> issue_verified V (io_project_id x) (io_grouping_key x) (io_issue_id x)) xs)"

text \<open>An insert that does nothing on a conflict; the checks of the row are evaluated first.\<close>

definition insert_issue :: "issue_row \<Rightarrow> issue_tables \<Rightarrow> issue_store_error + bool \<times> issue_tables" where
  "insert_issue r db =
     (if \<not> issue_row_check r then Inl IE_Unavailable
      else case db_issues db (ir_project_id r, ir_issue_id r) of
          Some _ \<Rightarrow> Inr (False, db)
        | None \<Rightarrow> Inr (True, db\<lparr>db_issues := (db_issues db)((ir_project_id r, ir_issue_id r) \<mapsto> r)\<rparr>))"

definition apply_issue_update ::
  "issue_env \<Rightarrow> issue_occurrence \<Rightarrow> issue_occurrence \<Rightarrow> issue_occurrence \<Rightarrow> nat \<Rightarrow> issue_snapshot \<Rightarrow> issue_tables
   \<Rightarrow> issue_store_error + issue_mutation_kind \<times> issue_snapshot \<times> (bytes \<times> issue_activity) option \<times> issue_tables" where
  "apply_issue_update V first latest candidate increment issue db =
     and_then (merge_batch first latest candidate increment issue) (\<lambda>issue'.
     and_then (save_issue issue' db) (\<lambda>db.
     let db = (if regresses issue candidate
               then insert_transition V issue' Notify_Regression (io_event_id candidate)
                 (io_received_at candidate) db else db);
         kind = mutation_kind issue' candidate;
         activity = (if kind = Mutation_Regressed
           then Some (regression_activity_id (ev_blake3 V) (is_project_id issue') (is_issue_id issue')
                        (io_event_id candidate),
                  \<lparr>av_issue = is_issue_id issue', av_kind = 6, av_actor = ActorRef_system, av_assignee = None,
                    av_event = Some (io_event_id candidate), av_at = io_received_at candidate\<rparr>)
           else None)
     in Inr (kind, issue', activity, db)))"

definition apply_batch ::
  "issue_env \<Rightarrow> issue_occurrence list \<Rightarrow> issue_tables
   \<Rightarrow> issue_store_error + issue_mutation_kind \<times> issue_snapshot \<times> (bytes \<times> issue_activity) option \<times> issue_tables" where
  "apply_batch V occurrences db =
     (case occurrences of
        [] \<Rightarrow> Inl IE_InvalidData
      | summary # rest \<Rightarrow>
          (if \<not> batch_consistent V summary occurrences then Inl IE_InvalidData
           else
             let first = min_by_key seen_key summary rest;
                 latest = max_by_key seen_key summary rest;
                 candidate = max_by_key received_key summary rest
             in
             and_then (sum_increments 0 occurrences) (\<lambda>increment.
             and_then (map_err (\<lambda>_. IE_InvalidData) (encode_json (ev_json V) (ev_zstd V)
               (grouping_value (io_grouping summary)) (cc_min_savings (ev_codec V)) (cc_max_decoded (ev_codec V))))
             (\<lambda>(body, canonical).
             if row_size body (io_title summary) (io_culprit summary) (io_release first) (io_release latest)
                > cc_max_row (ev_codec V)
             then Inl IE_InvalidData
             else
               and_then (insert_issue (new_row V summary first latest (int increment) body) db) (\<lambda>(created, db).
               and_then (ok_or IE_NotFound (db_issues db (io_project_id summary, io_issue_id summary))) (\<lambda>row.
               if ir_grouping_key row \<noteq> GroupingKey_to_bytes (io_grouping_key summary)
               then Inl IE_IdentityCollision
               else
                 and_then (decode_issue V row) (\<lambda>issue.
                 if created
                 then Inr (Mutation_Created, issue, None,
                   insert_transition V issue Notify_NewIssue (io_event_id first) (io_received_at first) db)
                 else apply_issue_update V first latest candidate increment issue db)))))))"

section \<open>Occurrences and commands as transactions\<close>

text \<open>
  \<open>up\<close> says whether the commit succeeds; a transaction that does not commit leaves the tables as they
  were. \<open>emitted\<close> says whether the activity, written after the commit on a best-effort basis, is stored.
\<close>

definition apply_occurrence ::
  "issue_env \<Rightarrow> bool \<Rightarrow> bool \<Rightarrow> issue_occurrence \<Rightarrow> issue_tables
   \<Rightarrow> (issue_store_error + issue_mutation_kind \<times> issue_snapshot) \<times> issue_tables" where
  "apply_occurrence V up emitted x db =
     (if \<not> db_projects db (io_project_id x) then (Inl IE_NotFound, db)
      else case apply_batch V [x] db of
        Inl e \<Rightarrow> (Inl e, db)
      | Inr (kind, issue, activity, db') \<Rightarrow>
          (if \<not> up then (Inl IE_Unavailable, db)
           else (Inr (kind, issue), (case activity of None \<Rightarrow> db'
                   | Some (aid, a) \<Rightarrow> emit_activity emitted (is_project_id issue) aid a db'))))"

definition command_effect :: "issue_command \<Rightarrow> issue_snapshot \<Rightarrow> issue_snapshot option" where
  "command_effect c s = (case ic_action c of
       Cmd_Resolve \<Rightarrow> (if is_status s = Issue_Open
         then Some (s\<lparr>is_status := Issue_Resolved, is_workflow := Some \<lparr>wf_at = ic_at c, wf_actor = ic_actor c\<rparr>\<rparr>)
         else None)
     | Cmd_Ignore \<Rightarrow> (if is_status s \<noteq> Issue_Ignored
         then Some (s\<lparr>is_status := Issue_Ignored, is_workflow := Some \<lparr>wf_at = ic_at c, wf_actor = ic_actor c\<rparr>\<rparr>)
         else None)
     | Cmd_Reopen \<Rightarrow> (if is_status s \<noteq> Issue_Open
         then Some (s\<lparr>is_status := Issue_Open, is_workflow := None\<rparr>) else None)
     | Cmd_Assign a \<Rightarrow> (if is_assignee s \<noteq> a then Some (s\<lparr>is_assignee := a\<rparr>) else None))"

definition command_activity :: "issue_command \<Rightarrow> issue_activity" where
  "command_activity c = \<lparr>av_issue = ic_issue_id c, av_kind = IssueCommandAction_code (ic_action c),
     av_actor = ic_actor c, av_assignee = (case ic_action c of Cmd_Assign a \<Rightarrow> a | _ \<Rightarrow> None),
     av_event = None, av_at = ic_at c\<rparr>"

definition apply_command ::
  "issue_env \<Rightarrow> bool \<Rightarrow> bool \<Rightarrow> issue_command \<Rightarrow> issue_tables
   \<Rightarrow> (issue_store_error + bool \<times> issue_snapshot) \<times> issue_tables" where
  "apply_command V up emitted c db =
     (if \<not> db_projects db (ic_project_id c) then (Inl IE_NotFound, db)
      else case and_then (ok_or IE_NotFound (db_issues db (ic_project_id c, ic_issue_id c))) (decode_issue V) of
        Inl e \<Rightarrow> (Inl e, db)
      | Inr issue \<Rightarrow>
          (case command_effect c issue of
             None \<Rightarrow> (if up then (Inr (False, issue), db) else (Inl IE_Unavailable, db))
           | Some issue' \<Rightarrow>
               (case save_issue issue' db of
                  Inl e \<Rightarrow> (Inl e, db)
                | Inr db' \<Rightarrow>
                    (if \<not> up then (Inl IE_Unavailable, db)
                     else let db' = (if ic_action c = Cmd_Resolve
                            then insert_transition V issue' Notify_Resolved (ic_idempotency_key c) (ic_at c) db'
                            else db')
                       in (Inr (True, issue'), emit_activity emitted (ic_project_id c) (command_activity_id (ev_blake3 V) c)
                            (command_activity c) db')))))"

section \<open>The store behind the issue service\<close>

definition PostgresIssueStore_new :: "int \<Rightarrow> issue_codec_config \<Rightarrow> postgres_error + issue_codec_config" where
  "PostgresIssueStore_new compression_level codec =
     (if \<not> (-7 \<le> compression_level \<and> compression_level \<le> 22) \<or> cc_max_decoded codec = 0
         \<or> cc_max_row codec \<le> ROW_METADATA_BYTES + 2 \<or> cc_max_row codec > 128 * 1024
      then Inl PG_InvalidPolicy else Inr codec)"

fun map_issue_store_error :: "issue_store_error \<Rightarrow> issue_service_error" where
  "map_issue_store_error IE_IdentityCollision = IS_IdentityCollision"
| "map_issue_store_error IE_NotFound = IS_NotFound"
| "map_issue_store_error IE_InvalidData = IS_InvalidData"
| "map_issue_store_error IE_Unavailable = IS_Unavailable"

definition record_occurrence ::
  "issue_env \<Rightarrow> bool \<Rightarrow> bool \<Rightarrow> normalized_event \<Rightarrow> grouping_result \<Rightarrow> issue_tables
   \<Rightarrow> (issue_service_error + issue_mutation_kind \<times> issue_snapshot) \<times> issue_tables" where
  "record_occurrence V up emitted event grouping db =
     (case prepare_issue_occurrence (ev_blake3 V) event grouping of
        Inl e \<Rightarrow> (Inl e, db)
      | Inr x \<Rightarrow> (case apply_occurrence V up emitted x db of (r, db') \<Rightarrow> (map_err map_issue_store_error r, db')))"

definition load_issue :: "issue_env \<Rightarrow> project_id \<Rightarrow> bytes \<Rightarrow> issue_tables \<Rightarrow> issue_store_error + issue_snapshot" where
  "load_issue V project issue db = and_then (ok_or IE_NotFound (db_issues db (project, issue))) (decode_issue V)"

text \<open>The terms of a title search; a term is read up to a blank, a phrase up to its closing quote.\<close>

fun read_term :: "bool \<Rightarrow> string list \<Rightarrow> string list \<times> string list" where
  "read_term phrase [] = ([], [])"
| "read_term phrase (ch # chs) =
     (if phrase \<and> ch = [CHR 0x22] \<or> \<not> phrase \<and> is_whitespace ch then ([], ch # chs)
      else case read_term phrase chs of (t, rest) \<Rightarrow> (ch # t, rest))"

definition drop_head :: "string \<Rightarrow> string list \<Rightarrow> bool \<times> string list" where
  "drop_head ch chs = (case chs of c # cs \<Rightarrow> (if c = ch then (True, cs) else (False, chs)) | [] \<Rightarrow> (False, []))"

definition quoted_fragment :: "string list \<Rightarrow> string" where
  "quoted_fragment t = [CHR 0x22] @ concat (map (\<lambda>ch. if ch = [CHR 0x22] then '' '' else ch) t) @ [CHR 0x22]"

definition next_search_term :: "string list \<Rightarrow> bool \<times> bool \<times> string list \<times> string list" where
  "next_search_term chs =
     (let chs = dropWhile is_whitespace chs;
          (exclude, chs) = drop_head ''-'' chs;
          (phrase, chs) = drop_head [CHR 0x22] chs;
          (t, chs) = read_term phrase chs;
          chs = (if phrase then snd (drop_head [CHR 0x22] chs) else chs)
      in (exclude, phrase, t, chs))"

lemma read_term_length: "length (snd (read_term p chs)) + length (fst (read_term p chs)) = length chs"
  by (induction p chs rule: read_term.induct) (auto split: prod.splits)

lemma drop_head_length:
  "length (snd (drop_head c chs)) \<le> length chs"
  "fst (drop_head c chs) \<Longrightarrow> length (snd (drop_head c chs)) < length chs"
  by (simp_all add: drop_head_def split: list.splits if_splits)

lemma next_search_term_shorter:
  assumes "chs \<noteq> []" "next_search_term chs = (exclude, phrase, t, rest)"
  shows "length rest < length chs"
proof -
  define a where "a = dropWhile is_whitespace chs"
  obtain e b where b: "drop_head ''-'' a = (e, b)" by fastforce
  obtain p c where c: "drop_head [CHR 0x22] b = (p, c)" by fastforce
  obtain u d where d: "read_term p c = (u, d)" by fastforce
  have rest: "rest = (if p then snd (drop_head [CHR 0x22] d) else d)"
    using assms(2) by (auto simp: next_search_term_def Let_def a_def[symmetric] b c d)
  have le: "length a \<le> length chs" "length b \<le> length a" "length c \<le> length b" "length d + length u = length c" "length rest \<le> length d"
    using drop_head_length(1)[of "''-''" a] drop_head_length(1)[of "[CHR 0x22]" b] drop_head_length(1)[of "[CHR 0x22]" d]
      read_term_length[of p c]
    by (simp_all add: b c d rest) (simp add: a_def length_dropWhile_le)
  show ?thesis
  proof (cases "e \<or> p")
    case True
    then show ?thesis using le drop_head_length(2)[of "''-''" a] drop_head_length(2)[of "[CHR 0x22]" b] by (auto simp: b c)
  next
    case False
    then have abc: "a = b" "b = c" using b c by (auto simp: drop_head_def split: list.splits if_splits)
    show ?thesis
    proof (cases c)
      case Nil
      then have "length rest = 0" using le by simp
      then show ?thesis using assms(1) by (cases chs) simp_all
    next
      case (Cons x xs)
      then have "\<not> is_whitespace x" using abc hd_dropWhile[of is_whitespace chs] by (simp add: a_def)
      then have "u \<noteq> []" using d Cons False by (auto split: prod.splits)
      then show ?thesis using le by (cases u) auto
    qed
  qed
qed

function search_loop :: "string list \<Rightarrow> string list \<times> string list \<times> string list \<Rightarrow> string list \<times> string list \<times> string list" where
  "search_loop chs acc =
     (if chs = [] then acc
      else case next_search_term chs of (exclude, phrase, t, rest) \<Rightarrow>
        search_loop rest (case acc of (pos, neg, phrases) \<Rightarrow>
          if t = [] then acc
          else if exclude then (pos, neg @ [quoted_fragment t], phrases)
          else (pos @ [quoted_fragment t], neg, if phrase then phrases @ [concat t] else phrases)))"
  by auto
termination
  by (relation "measure (\<lambda>(chs, _). length chs)") (auto intro: next_search_term_shorter[OF _ sym])

declare search_loop.simps [simp del]

definition search_terms :: "issue_env \<Rightarrow> string \<Rightarrow> string \<times> string \<times> string list" where
  "search_terms V v = (case search_loop (utf8_chars (ev_projection V v)) ([], [], []) of (pos, neg, phrases) \<Rightarrow>
     (join '' OR '' pos, join '' OR '' neg, phrases))"

text \<open>Whatever the query, each fragment handed to the database is one quoted literal.\<close>

definition quoted_literal :: "string \<Rightarrow> bool" where
  "quoted_literal s = (\<exists>t. s = [CHR 0x22] @ t @ [CHR 0x22] \<and> CHR 0x22 \<notin> set t)"

lemma quoted_fragment_literal:
  assumes "\<And>ch. ch \<in> set t \<Longrightarrow> CHR 0x22 \<in> set ch \<Longrightarrow> ch = [CHR 0x22]"
  shows "quoted_literal (quoted_fragment t)"
proof -
  have "CHR 0x22 \<notin> set (if ch = [CHR 0x22] then '' '' else ch)" if "ch \<in> set t" for ch
    using assms[OF that] by auto
  then have "CHR 0x22 \<notin> set (concat (map (\<lambda>ch. if ch = [CHR 0x22] then '' '' else ch) t))" unfolding set_concat set_map by blast
  then show ?thesis unfolding quoted_literal_def quoted_fragment_def by blast
qed

lemma read_term_append: "fst (read_term p chs) @ snd (read_term p chs) = chs"
  by (induction p chs rule: read_term.induct) (auto split: prod.splits)

lemma read_term_set: "set (fst (read_term p chs)) \<union> set (snd (read_term p chs)) = set chs"
  using read_term_append[of p chs] by (metis set_append)

lemma drop_head_set: "set (snd (drop_head c chs)) \<subseteq> set chs"
  by (auto simp: drop_head_def split: list.splits if_splits)

lemma next_search_term_set:
  assumes "next_search_term chs = (exclude, phrase, t, rest)"
  shows "set t \<subseteq> set chs" "set rest \<subseteq> set chs"
proof -
  define a where "a = dropWhile is_whitespace chs"
  obtain e b where b: "drop_head ''-'' a = (e, b)" by fastforce
  obtain p c where c: "drop_head [CHR 0x22] b = (p, c)" by fastforce
  obtain u d where d: "read_term p c = (u, d)" by fastforce
  have r: "rest = (if p then snd (drop_head [CHR 0x22] d) else d)" "t = u"
    using assms by (auto simp: next_search_term_def Let_def a_def[symmetric] b c d)
  have "set a \<subseteq> set chs" by (auto simp: a_def dest: set_dropWhileD)
  then have "set c \<subseteq> set chs" using drop_head_set[of "''-''" a] drop_head_set[of "[CHR 0x22]" b] by (auto simp: b c)
  with read_term_set[of p c] drop_head_set[of "[CHR 0x22]" d] show "set t \<subseteq> set chs" "set rest \<subseteq> set chs"
    by (auto simp: d r split: if_splits)
qed

lemma search_loop_literals:
  assumes "\<And>ch. ch \<in> set chs \<Longrightarrow> CHR 0x22 \<in> set ch \<Longrightarrow> ch = [CHR 0x22]"
    "list_all quoted_literal pos" "list_all quoted_literal neg"
    "search_loop chs (pos, neg, phrases) = (pos', neg', phrases')"
  shows "list_all quoted_literal pos' \<and> list_all quoted_literal neg'"
  using assms
proof (induction "length chs" arbitrary: chs pos neg phrases rule: less_induct)
  case less
  show ?case
  proof (cases "chs = []")
    case True
    then show ?thesis using less.prems by (simp add: search_loop.simps)
  next
    case False
    obtain e p t rest where n: "next_search_term chs = (e, p, t, rest)" by (metis prod_cases4)
    note s = next_search_term_set[OF n]
    have q: "quoted_literal (quoted_fragment t)" using less.prems(1) s(1) by (intro quoted_fragment_literal) blast
    have "list_all quoted_literal pos' \<and> list_all quoted_literal neg'"
      if "search_loop rest (a, b, c) = (pos', neg', phrases')" "list_all quoted_literal a" "list_all quoted_literal b" for a b c
      using less.hyps[OF next_search_term_shorter[OF False n]] less.prems(1) s(2) that by blast
    with less.prems(2-4) False n q show ?thesis
      by (subst (asm) search_loop.simps) (simp split: if_splits)
  qed
qed

section \<open>What a row stores is read back\<close>

definition text_ok :: "nat \<Rightarrow> string \<Rightarrow> bool" where
  "text_ok maximum v = (v \<noteq> [] \<and> length v \<le> maximum \<and> utf8_valid v)"

definition actor_ok :: "actor_ref \<Rightarrow> bool" where
  "actor_ok a = (length (ac_id a) = 16)"

definition workflow_ok :: "issue_status \<Rightarrow> issue_workflow option \<Rightarrow> bool" where
  "workflow_ok status w = ((status = Issue_Open \<longleftrightarrow> w = None)
     \<and> is_none_or w (\<lambda>w. timestamp_ok (wf_at w) \<and> actor_ok (wf_actor w)))"

definition regression_ok :: "regression_summary \<Rightarrow> bool" where
  "regression_ok g = (timestamp_ok (rg_at g) \<and> length (rg_event_id g) = 16 \<and> 0 < rg_count g
     \<and> is_none_or (rg_release g) (text_ok MAX_ISSUE_RELEASE_BYTES))"

text \<open>The columns an update writes hold values of the right types.\<close>

definition mutable_ok :: "issue_snapshot \<Rightarrow> bool" where
  "mutable_ok s = (timestamp_ok (is_first_seen s) \<and> timestamp_ok (is_last_seen s)
     \<and> length (is_first_event_id s) = 16 \<and> length (is_latest_event_id s) = 16
     \<and> length (is_representative_event_id s) = 16 \<and> 0 < is_occurrence_count s
     \<and> is_none_or (is_assignee s) actor_ok \<and> workflow_ok (is_status s) (is_workflow s)
     \<and> is_none_or (is_regression s) regression_ok
     \<and> is_none_or (is_first_release s) (text_ok MAX_ISSUE_RELEASE_BYTES)
     \<and> is_none_or (is_last_release s) (text_ok MAX_ISSUE_RELEASE_BYTES))"

lemma decode_utf8_as_bytes: "decode_utf8 (as_bytes s) = (if utf8_valid s then Inr s else Inl IE_InvalidData)"
proof -
  have "map (\<lambda>b. char_of (unat b)) (as_bytes s) = s"
    by (induction s) (simp_all add: as_bytes_def unat_of_nat)
  then show ?thesis by (simp add: decode_utf8_def Let_def)
qed

lemma decode_text_as_bytes: "text_ok n v \<Longrightarrow> decode_text (bounded_issue_text n) (as_bytes v) = Inr v"
  by (simp add: decode_text_def decode_utf8_as_bytes text_ok_def bounded_issue_text_def)

lemma decode_text_ok: "decode_text (bounded_issue_text n) bs = Inr v \<Longrightarrow> text_ok n v"
  by (auto simp: decode_text_def decode_utf8_def text_ok_def bounded_issue_text_def Let_def and_then_eq_Inr split: if_splits)

lemma decode_opt_ok:
  assumes "decode_opt f x = Inr y" "\<And>a b. f a = Inr b \<Longrightarrow> P b"
  shows "is_none_or y P"
  using assms by (cases x) (auto simp: decode_opt_def is_none_or_def transpose_opt_def split: sum.splits)

lemma decode_opt_text_ok:
  "decode_opt (decode_text (bounded_issue_text n)) x = Inr y \<Longrightarrow> is_none_or y (text_ok n)"
  by (erule decode_opt_ok) (rule decode_text_ok)

lemma decode_opt_encoded:
  assumes "is_none_or x P" "\<And>a. P a \<Longrightarrow> f (g a) = Inr a"
  shows "decode_opt f (map_option g x) = Inr x"
  using assms by (cases x) (simp_all add: decode_opt_def is_none_or_def)

lemma actor_kind_code_from [simp]: "ActorKind_from_code (actor_kind_code k) = Some k"
  by (cases k) (simp_all add: ActorKind_from_code_def)

lemma decode_actor_to_bytes: "actor_ok a \<Longrightarrow> decode_actor (ActorRef_to_bytes a) = Inr a"
  by (simp add: decode_actor_def ActorRef_from_bytes_def ActorRef_to_bytes_def actor_ok_def)

lemma decode_actor_ok: "decode_actor bs = Inr a \<Longrightarrow> actor_ok a"
  by (auto simp: decode_actor_def ActorRef_from_bytes_def actor_ok_def ok_or_def split: if_splits option.splits)

lemma decode_time_iff: "decode_time t = Inr u \<longleftrightarrow> u = t \<and> timestamp_ok t"
  by (cases "Timestamp_from_unix_millis t")
    (auto simp: decode_time_def timestamp_ok_def Timestamp_from_unix_millis_def split: if_splits)

lemma decode_fixed_iff: "decode_fixed n bs = Inr cs \<longleftrightarrow> cs = bs \<and> length bs = n"
  by (auto simp: decode_fixed_def)

lemma positive_iff: "positive v = Inr n \<longleftrightarrow> 0 < v \<and> n = nat v"
  by (auto simp: positive_def)

lemma positive_int: "0 < n \<Longrightarrow> positive (int n) = Inr n"
  by (simp add: positive_def)

lemma decode_status_code [simp]: "decode_status (status_code s) = Inr s"
  by (cases s) (simp_all add: decode_status_def status_code_def)

lemma decode_workflow_encoded:
  assumes "workflow_ok status w"
  shows "decode_workflow status (map_option wf_at w) (map_option (ActorRef_to_bytes \<circ> wf_actor) w) = Inr w"
  using assms
  by (cases status; cases w)
    (simp_all add: decode_workflow_def workflow_ok_def is_none_or_def decode_time_iff[THEN iffD2] decode_actor_to_bytes)

lemma decode_workflow_ok: "decode_workflow status at actor = Inr w \<Longrightarrow> workflow_ok status w"
  by (cases status; cases at; cases actor)
    (auto simp: decode_workflow_def workflow_ok_def is_none_or_def and_then_eq_Inr decode_time_iff dest: decode_actor_ok)

lemma decode_regression_encoded:
  assumes "is_none_or g regression_ok"
  shows "decode_regression (map_option rg_at g) (map_option rg_event_id g) (map_option (int \<circ> rg_count) g)
    (Option.bind g rg_release) = Inr g"
  using assms
  by (cases g) (simp_all add: decode_regression_def regression_ok_def is_none_or_def decode_time_iff[THEN iffD2]
      decode_fixed_def positive_int)

lemma decode_regression_ok:
  assumes "decode_regression at event number release = Inr g" "is_none_or release (text_ok MAX_ISSUE_RELEASE_BYTES)"
  shows "is_none_or g regression_ok"
  using assms
  by (cases at; cases event; cases number)
    (auto simp: decode_regression_def regression_ok_def is_none_or_def and_then_eq_Inr decode_time_iff decode_fixed_iff
      positive_iff split: if_splits option.splits)

lemma guarded_Inr: "(if c then Inl e else m) = Inr y \<longleftrightarrow> \<not> c \<and> m = Inr y"
  by simp

lemma decode_issue_iff:
  "decode_issue V r = Inr s \<longleftrightarrow>
     map_err (\<lambda>_. IE_InvalidData) (ProjectId_new (ir_project_id r)) = Inr (is_project_id s)
     \<and> decode_fixed 16 (ir_issue_id r) = Inr (is_issue_id s)
     \<and> map_err (\<lambda>_. IE_InvalidData) (GroupingKey_parse (ir_grouping_key r)) = Inr (is_grouping_key s)
     \<and> issue_verified V (is_project_id s) (is_grouping_key s) (is_issue_id s)
     \<and> decode_status (ir_status r) = Inr (is_status s)
     \<and> decode_workflow (is_status s) (ir_workflow_at r) (ir_workflow_actor r) = Inr (is_workflow s)
     \<and> (\<exists>rel. decode_opt (decode_text IssueRelease_new) (ir_regression_release r) = Inr rel
          \<and> decode_regression (ir_regression_at r) (ir_regression_event_id r) (ir_regression_count r) rel
              = Inr (is_regression s))
     \<and> decode_text IssueTitle_new (ir_title r) = Inr (is_title s)
     \<and> decode_opt (decode_text IssueCulprit_new) (ir_culprit r) = Inr (is_culprit s)
     \<and> decode_opt (decode_text IssueRelease_new) (ir_first_release r) = Inr (is_first_release s)
     \<and> decode_opt (decode_text IssueRelease_new) (ir_last_release r) = Inr (is_last_release s)
     \<and> length (ir_grouping_body r) \<le> cc_max_row (ev_codec V)
     \<and> row_size (ir_grouping_body r) (is_title s) (is_culprit s) (is_first_release s) (is_last_release s)
          \<le> cc_max_row (ev_codec V)
     \<and> decode_time (ir_first_seen r) = Inr (is_first_seen s)
     \<and> decode_time (ir_last_seen r) = Inr (is_last_seen s)
     \<and> decode_fixed 16 (ir_first_event_id r) = Inr (is_first_event_id s)
     \<and> decode_fixed 16 (ir_latest_event_id r) = Inr (is_latest_event_id s)
     \<and> decode_fixed 16 (ir_representative_event_id r) = Inr (is_representative_event_id s)
     \<and> positive (ir_occurrence_count r) = Inr (is_occurrence_count s)
     \<and> decode_opt decode_actor (ir_assignee r) = Inr (is_assignee s)
     \<and> decode_grouping V (ir_grouping_body r) = Inr (is_grouping s)"
  unfolding decode_issue_def and_then_eq_Inr guarded_Inr
  by (cases s) (auto simp: not_less)

text \<open>The columns an update leaves alone.\<close>

definition same_identity :: "issue_snapshot \<Rightarrow> issue_snapshot \<Rightarrow> bool" where
  "same_identity s t = (is_project_id s = is_project_id t \<and> is_issue_id s = is_issue_id t
     \<and> is_grouping_key s = is_grouping_key t \<and> is_title s = is_title t \<and> is_culprit s = is_culprit t
     \<and> is_grouping s = is_grouping t)"

lemma decode_issue_ok:
  assumes "decode_issue V r = Inr s"
  shows "mutable_ok s" "text_ok MAX_ISSUE_TITLE_BYTES (is_title s)"
    "is_none_or (is_culprit s) (text_ok MAX_ISSUE_CULPRIT_BYTES)"
proof -
  note d = assms[unfolded decode_issue_iff IssueTitle_new_def IssueCulprit_new_def IssueRelease_new_def]
  show "text_ok MAX_ISSUE_TITLE_BYTES (is_title s)" using d decode_text_ok by blast
  show "is_none_or (is_culprit s) (text_ok MAX_ISSUE_CULPRIT_BYTES)"
    using d decode_opt_text_ok by blast
  have rel: "is_none_or (is_first_release s) (text_ok MAX_ISSUE_RELEASE_BYTES)"
    "is_none_or (is_last_release s) (text_ok MAX_ISSUE_RELEASE_BYTES)"
    using d decode_opt_text_ok by blast+
  have reg: "is_none_or (is_regression s) regression_ok"
    using d decode_regression_ok decode_opt_text_ok by blast
  have "decode_opt decode_actor (ir_assignee r) = Inr (is_assignee s)" using d by blast
  then have asg: "is_none_or (is_assignee s) actor_ok" by (rule decode_opt_ok) (rule decode_actor_ok)
  have wf: "workflow_ok (is_status s) (is_workflow s)" using d decode_workflow_ok by blast
  have "decode_time (ir_first_seen r) = Inr (is_first_seen s)" "decode_time (ir_last_seen r) = Inr (is_last_seen s)"
    "decode_fixed 16 (ir_first_event_id r) = Inr (is_first_event_id s)"
    "decode_fixed 16 (ir_latest_event_id r) = Inr (is_latest_event_id s)"
    "decode_fixed 16 (ir_representative_event_id r) = Inr (is_representative_event_id s)"
    "positive (ir_occurrence_count r) = Inr (is_occurrence_count s)"
    using d by blast+
  with rel reg wf asg show "mutable_ok s"
    by (simp add: mutable_ok_def decode_time_iff decode_fixed_iff positive_iff)
qed

lemma decode_saved_row:
  assumes "decode_issue V r = Inr s" "same_identity t s" "mutable_ok t"
    "row_size (ir_grouping_body r) (is_title t) (is_culprit t) (is_first_release t) (is_last_release t)
       \<le> cc_max_row (ev_codec V)"
  shows "decode_issue V (saved_row t r) = Inr t"
proof -
  note m = assms(3)[unfolded mutable_ok_def]
  have rel: "decode_opt (decode_text IssueRelease_new) (map_option as_bytes v) = Inr v"
    if "is_none_or v (text_ok MAX_ISSUE_RELEASE_BYTES)" for v
    unfolding IssueRelease_new_def using that by (rule decode_opt_encoded) (rule decode_text_as_bytes)
  have act: "decode_opt decode_actor (map_option ActorRef_to_bytes (is_assignee t)) = Inr (is_assignee t)"
    using m by (intro decode_opt_encoded[of _ actor_ok]) (simp_all add: decode_actor_to_bytes)
  have reg: "is_none_or (Option.bind (is_regression t) rg_release) (text_ok MAX_ISSUE_RELEASE_BYTES)"
    using m by (cases "is_regression t") (simp_all add: is_none_or_def regression_ok_def split: option.splits)
  have times: "decode_time (is_first_seen t) = Inr (is_first_seen t)" "decode_time (is_last_seen t) = Inr (is_last_seen t)"
    using m by (simp_all add: decode_time_iff)
  show ?thesis
    using assms(1,2,4) m unfolding decode_issue_iff
    by (simp add: saved_row_def same_identity_def rel act rel[OF reg] times decode_workflow_encoded
        decode_regression_encoded decode_fixed_def positive_int)
qed

section \<open>Batches summarise their occurrences\<close>

definition occurrence_ok :: "issue_occurrence \<Rightarrow> bool" where
  "occurrence_ok x = (0 < io_project_id x \<and> length (io_issue_id x) = 16 \<and> grouping_key_ok (io_grouping_key x)
     \<and> length (io_event_id x) = 16 \<and> timestamp_ok (io_occurred_at x) \<and> timestamp_ok (io_received_at x)
     \<and> is_none_or (io_release x) (text_ok MAX_ISSUE_RELEASE_BYTES) \<and> text_ok MAX_ISSUE_TITLE_BYTES (io_title x)
     \<and> is_none_or (io_culprit x) (text_ok MAX_ISSUE_CULPRIT_BYTES) \<and> 0 < io_increment x)"

text \<open>A codec whose row limit leaves room for the largest summary, as the default one does.\<close>

definition codec_fits :: "issue_codec_config \<Rightarrow> bool" where
  "codec_fits c = (cc_max_row c \<le> 128 * 1024 \<and> cc_max_decoded c + 2 + ROW_METADATA_BYTES + MAX_ISSUE_TITLE_BYTES + MAX_ISSUE_CULPRIT_BYTES
     + 2 * MAX_ISSUE_RELEASE_BYTES \<le> cc_max_row c)"

definition body_fits :: "issue_env \<Rightarrow> bytes \<Rightarrow> bool" where
  "body_fits V body = (length body \<le> cc_max_decoded (ev_codec V) + 2)"

text \<open>What an issue says of the occurrences it stands for.\<close>

definition summarises :: "issue_occurrence list \<Rightarrow> issue_snapshot \<Rightarrow> bool" where
  "summarises xs s = (is_occurrence_count s = sum_list (map io_increment xs)
     \<and> (is_first_seen s, is_first_event_id s) = Min (seen_key ` set xs)
     \<and> (is_last_seen s, is_latest_event_id s) = Max (seen_key ` set xs)
     \<and> is_representative_event_id s = is_latest_event_id s)"

lemma min_by_key_spec:
  "min_by_key key a xs \<in> set (a # xs) \<and> key (min_by_key key a xs) = Min (key ` set (a # xs))"
proof (induction key a xs rule: min_by_key.induct)
  case (2 key a b xs)
  have "Min (key ` set (a # b # xs)) = Min (key ` set ((if key b < key a then b else a) # xs))"
    by (cases "xs = []") (auto simp: min_def not_less)
  with 2 show ?case by (auto split: if_splits)
qed simp

lemma max_by_key_spec:
  "max_by_key key a xs \<in> set (a # xs) \<and> key (max_by_key key a xs) = Max (key ` set (a # xs))"
proof (induction key a xs rule: max_by_key.induct)
  case (2 key a b xs)
  have "Max (key ` set (a # b # xs)) = Max (key ` set ((if key a \<le> key b then b else a) # xs))"
    by (cases "xs = []"; cases "key a \<le> key b")
      (simp_all add: max.assoc[symmetric] max.absorb1 max.absorb2 del: max.assoc)
  with 2 show ?case by (auto split: if_splits)
qed simp

lemma sum_increments_ok:
  "sum_increments n xs = Inr m \<Longrightarrow> m = n + sum_list (map io_increment xs) \<and> (xs \<noteq> [] \<longrightarrow> m \<le> i64_max)"
  by (induction n xs rule: sum_increments.induct) (auto split: if_splits)

lemma row_size_le:
  "row_size body title culprit first_release last_release
     \<le> length body + ROW_METADATA_BYTES + length title + opt_bytes culprit + opt_bytes first_release + opt_bytes last_release"
  by (simp add: row_size_def)

lemma opt_bytes_le: "is_none_or v (text_ok n) \<Longrightarrow> opt_bytes v \<le> n"
  by (cases v) (simp_all add: opt_bytes_def is_none_or_def text_ok_def)

lemma row_fits:
  assumes "codec_fits (ev_codec V)" "body_fits V body" "text_ok MAX_ISSUE_TITLE_BYTES title"
    "is_none_or culprit (text_ok MAX_ISSUE_CULPRIT_BYTES)"
    "is_none_or fr (text_ok MAX_ISSUE_RELEASE_BYTES)" "is_none_or lr (text_ok MAX_ISSUE_RELEASE_BYTES)"
  shows "row_size body title culprit fr lr \<le> cc_max_row (ev_codec V)"
  using assms row_size_le[of body title culprit fr lr] opt_bytes_le[OF assms(4)] opt_bytes_le[OF assms(5)]
    opt_bytes_le[OF assms(6)]
  by (simp add: codec_fits_def body_fits_def text_ok_def)

lemma encode_json_fits:
  assumes "encode_json J Z v savings maximum = Inr (enc, canonical)" "maximum < u64_max"
  shows "length enc \<le> maximum + 2"
proof (cases "z_compress Z (jo_to_vec J v)")
  case (Some c)
  with assms show ?thesis by (auto simp: encode_json_def Let_def min_def split: if_splits)
qed (use assms in \<open>auto simp: encode_json_def Let_def split: if_splits\<close>)

lemma merge_seen_ok:
  "(is_first_seen (merge_seen f l s), is_first_event_id (merge_seen f l s))
     = min (seen_key f) (is_first_seen s, is_first_event_id s)"
  "(is_last_seen (merge_seen f l s), is_latest_event_id (merge_seen f l s))
     = max (seen_key l) (is_last_seen s, is_latest_event_id s)"
  "is_representative_event_id s = is_latest_event_id s
     \<Longrightarrow> is_representative_event_id (merge_seen f l s) = is_latest_event_id (merge_seen f l s)"
  "is_occurrence_count (merge_seen f l s) = is_occurrence_count s"
  "is_status (merge_seen f l s) = is_status s" "is_workflow (merge_seen f l s) = is_workflow s"
  "is_regression (merge_seen f l s) = is_regression s" "is_assignee (merge_seen f l s) = is_assignee s"
  "same_identity (merge_seen f l s) s"
  by (auto simp: merge_seen_def Let_def seen_key_def min_def max_def same_identity_def)

lemma merge_seen_mutable:
  assumes "mutable_ok s" "occurrence_ok f" "occurrence_ok l"
  shows "mutable_ok (merge_seen f l s)"
  using assms by (auto simp: merge_seen_def Let_def mutable_ok_def occurrence_ok_def)

lemma merge_regression_ok:
  assumes "merge_regression c s = Inr t" "mutable_ok s" "occurrence_ok c"
  shows "same_identity t s" "mutable_ok t" "is_occurrence_count t = is_occurrence_count s"
    "is_first_seen t = is_first_seen s" "is_first_event_id t = is_first_event_id s"
    "is_last_seen t = is_last_seen s" "is_latest_event_id t = is_latest_event_id s"
    "is_representative_event_id t = is_representative_event_id s" "is_assignee t = is_assignee s"
    "is_status t = (if regresses s c then Issue_Open else is_status s)"
  using assms
  by (auto simp: merge_regression_def Let_def same_identity_def mutable_ok_def regression_ok_def workflow_ok_def
      occurrence_ok_def is_none_or_def split: if_splits)

lemma same_identity_trans: "same_identity s t \<Longrightarrow> same_identity t u \<Longrightarrow> same_identity s u"
  by (simp add: same_identity_def)

lemma regresses_merge_seen [simp]:
  "regresses (merge_seen f l (s\<lparr>is_occurrence_count := n\<rparr>)) c = regresses s c"
  by (simp add: regresses_def merge_seen_ok)

lemma merge_batch_ok:
  assumes "merge_batch f l c n s = Inr t" "mutable_ok s" "occurrence_ok f" "occurrence_ok l" "occurrence_ok c"
  shows "same_identity t s" "mutable_ok t" "is_occurrence_count t = is_occurrence_count s + n"
    "(is_first_seen t, is_first_event_id t) = min (seen_key f) (is_first_seen s, is_first_event_id s)"
    "(is_last_seen t, is_latest_event_id t) = max (seen_key l) (is_last_seen s, is_latest_event_id s)"
    "is_representative_event_id s = is_latest_event_id s
       \<Longrightarrow> is_representative_event_id t = is_latest_event_id t"
    "is_assignee t = is_assignee s"
    "is_status t = (if regresses s c then Issue_Open else is_status s)"
proof -
  let ?s = "s\<lparr>is_occurrence_count := is_occurrence_count s + n\<rparr>"
  let ?m = "merge_seen f l ?s"
  have pos: "0 < is_occurrence_count s" using assms(2) by (simp add: mutable_ok_def)
  have r: "merge_regression c ?m = Inr t"
    using assms(1) pos by (simp add: merge_batch_def Let_def positive_int del: of_nat_add split: if_splits)
  have "mutable_ok ?s" using assms(2) by (simp add: mutable_ok_def)
  then have m: "mutable_ok ?m" by (rule merge_seen_mutable) (rule assms(3), rule assms(4))
  note k = merge_regression_ok[OF r m assms(5)]
  have "same_identity ?s s" by (simp add: same_identity_def)
  then show "same_identity t s" using same_identity_trans[OF k(1) merge_seen_ok(9)] same_identity_trans by blast
  show "mutable_ok t" "is_occurrence_count t = is_occurrence_count s + n" "is_assignee t = is_assignee s"
    "is_status t = (if regresses s c then Issue_Open else is_status s)"
    by (simp_all add: k merge_seen_ok)
  show "(is_first_seen t, is_first_event_id t) = min (seen_key f) (is_first_seen s, is_first_event_id s)"
    "(is_last_seen t, is_latest_event_id t) = max (seen_key l) (is_last_seen s, is_latest_event_id s)"
    using merge_seen_ok(1,2)[of f l ?s] by (simp_all add: k)
  show "is_representative_event_id s = is_latest_event_id s
       \<Longrightarrow> is_representative_event_id t = is_latest_event_id t"
    using merge_seen_ok(3)[of ?s f l] by (simp add: k)
qed

lemma summarises_append:
  assumes "summarises xs s" "xs \<noteq> []" "b \<noteq> []"
    "is_occurrence_count t = is_occurrence_count s + sum_list (map io_increment b)"
    "(is_first_seen t, is_first_event_id t) = min (Min (seen_key ` set b)) (is_first_seen s, is_first_event_id s)"
    "(is_last_seen t, is_latest_event_id t) = max (Max (seen_key ` set b)) (is_last_seen s, is_latest_event_id s)"
    "is_representative_event_id t = is_latest_event_id t"
  shows "summarises (xs @ b) t"
proof -
  have "Min (seen_key ` set (xs @ b)) = min (Min (seen_key ` set b)) (Min (seen_key ` set xs))"
    "Max (seen_key ` set (xs @ b)) = max (Max (seen_key ` set b)) (Max (seen_key ` set xs))"
    using assms(2,3) by (simp_all add: image_Un Min_Un Max_Un min.commute max.commute)
  with assms show ?thesis by (simp add: summarises_def)
qed

lemma decode_new_row:
  assumes laws: "codec_laws (ev_json V) (ev_zstd V) (grouping_value (io_grouping x))" and fits: "codec_fits (ev_codec V)"
    and ok: "occurrence_ok x" "occurrence_ok f" "occurrence_ok l" and n: "0 < n"
    and ver: "issue_verified V (io_project_id x) (io_grouping_key x) (io_issue_id x)"
    and enc: "encode_json (ev_json V) (ev_zstd V) (grouping_value (io_grouping x)) (cc_min_savings (ev_codec V))
      (cc_max_decoded (ev_codec V)) = Inr (body, canonical)"
  shows "decode_issue V (new_row V x f l (int n) body) = Inr
    \<lparr>is_project_id = io_project_id x, is_issue_id = io_issue_id x, is_grouping_key = io_grouping_key x,
      is_title = io_title x, is_culprit = io_culprit x, is_first_seen = io_occurred_at f,
      is_last_seen = io_occurred_at l, is_first_event_id = io_event_id f, is_latest_event_id = io_event_id l,
      is_representative_event_id = io_event_id l, is_occurrence_count = n, is_status = Issue_Open,
      is_assignee = None, is_workflow = None, is_regression = None, is_first_release = io_release f,
      is_last_release = io_release l, is_grouping = io_grouping x\<rparr>"
    "body_fits V body"
proof -
  have u: "cc_max_decoded (ev_codec V) < u64_max" using fits by (simp add: codec_fits_def)
  show b: "body_fits V body" unfolding body_fits_def using encode_json_fits[OF enc u] .
  have rel: "decode_opt (decode_text IssueRelease_new) (map_option as_bytes v) = Inr v"
    if "is_none_or v (text_ok MAX_ISSUE_RELEASE_BYTES)" for v
    unfolding IssueRelease_new_def using that by (rule decode_opt_encoded) (rule decode_text_as_bytes)
  have cul: "decode_opt (decode_text IssueCulprit_new) (map_option as_bytes v) = Inr v"
    if "is_none_or v (text_ok MAX_ISSUE_CULPRIT_BYTES)" for v
    unfolding IssueCulprit_new_def using that by (rule decode_opt_encoded) (rule decode_text_as_bytes)
  note o = ok[unfolded occurrence_ok_def]
  have size: "row_size body (io_title x) (io_culprit x) (io_release f) (io_release l) \<le> cc_max_row (ev_codec V)"
    using o by (intro row_fits[OF fits b]) simp_all
  have len: "length body \<le> cc_max_row (ev_codec V)" using b fits by (simp add: body_fits_def codec_fits_def)
  have times: "decode_time (io_occurred_at f) = Inr (io_occurred_at f)" "decode_time (io_occurred_at l) = Inr (io_occurred_at l)"
    using o by (simp_all add: decode_time_iff)
  have title: "decode_text IssueTitle_new (as_bytes (io_title x)) = Inr (io_title x)"
    unfolding IssueTitle_new_def using o by (intro decode_text_as_bytes) simp
  have misc: "decode_status 0 = Inr Issue_Open" "decode_workflow Issue_Open None None = Inr None"
    "decode_opt (decode_text IssueRelease_new) None = Inr None" "decode_regression None None None None = Inr None"
    "decode_opt decode_actor None = Inr None"
    by (simp_all add: decode_status_def decode_workflow_def decode_opt_def decode_regression_def)
  show "decode_issue V (new_row V x f l (int n) body) = Inr
    \<lparr>is_project_id = io_project_id x, is_issue_id = io_issue_id x, is_grouping_key = io_grouping_key x,
      is_title = io_title x, is_culprit = io_culprit x, is_first_seen = io_occurred_at f,
      is_last_seen = io_occurred_at l, is_first_event_id = io_event_id f, is_latest_event_id = io_event_id l,
      is_representative_event_id = io_event_id l, is_occurrence_count = n, is_status = Issue_Open,
      is_assignee = None, is_workflow = None, is_regression = None, is_first_release = io_release f,
      is_last_release = io_release l, is_grouping = io_grouping x\<rparr>"
    using o n ver size len decode_grouping_round_trip[OF laws enc]
    by (simp add: decode_issue_iff new_row_def rel cul title times misc decode_fixed_def positive_int
        project_id.new_accepts grouping_key_round_trip)
qed

text \<open>Where an accepted batch got to: it created the issue, or it found a row and merged into it.\<close>

lemma apply_batch_cases:
  assumes "apply_batch V (x # xs) db = Inr (kind, issue, activity, db')"
  defines "f \<equiv> min_by_key seen_key x xs" and "l \<equiv> max_by_key seen_key x xs" and "c \<equiv> max_by_key received_key x xs"
    and "n \<equiv> sum_list (map io_increment (x # xs))"
  obtains (created) body canonical where "db_issues db (io_project_id x, io_issue_id x) = None"
      "encode_json (ev_json V) (ev_zstd V) (grouping_value (io_grouping x)) (cc_min_savings (ev_codec V))
        (cc_max_decoded (ev_codec V)) = Inr (body, canonical)"
      "batch_consistent V x (x # xs)" "issue_row_check (new_row V x f l (int n) body)"
      "decode_issue V (new_row V x f l (int n) body) = Inr issue"
      "kind = Mutation_Created" "activity = None"
      "db' = insert_transition V issue Notify_NewIssue (io_event_id f) (io_received_at f)
        (db\<lparr>db_issues := (db_issues db)((io_project_id x, io_issue_id x) \<mapsto> new_row V x f l (int n) body)\<rparr>)"
  | (merged) r old where "db_issues db (io_project_id x, io_issue_id x) = Some r"
      "batch_consistent V x (x # xs)" "ir_grouping_key r = GroupingKey_to_bytes (io_grouping_key x)"
      "decode_issue V r = Inr old" "apply_issue_update V f l c n old db = Inr (kind, issue, activity, db')"
proof -
  have cons: "batch_consistent V x (x # xs)" using assms(1) by (simp add: apply_batch_def split: if_splits)
  obtain m where m: "sum_increments 0 (x # xs) = Inr m"
    using assms(1) cons by (cases "sum_increments 0 (x # xs)") (simp_all add: apply_batch_def Let_def del: sum_increments.simps)
  then have mn: "m = n" using sum_increments_ok[OF m] by (simp add: n_def)
  obtain body canonical where enc: "encode_json (ev_json V) (ev_zstd V) (grouping_value (io_grouping x))
      (cc_min_savings (ev_codec V)) (cc_max_decoded (ev_codec V)) = Inr (body, canonical)"
    using assms(1) cons m
    by (cases "encode_json (ev_json V) (ev_zstd V) (grouping_value (io_grouping x)) (cc_min_savings (ev_codec V))
        (cc_max_decoded (ev_codec V))") (auto simp: apply_batch_def Let_def simp del: sum_increments.simps)
  have run: "and_then (insert_issue (new_row V x f l (int n) body) db) (\<lambda>(created, db).
      and_then (ok_or IE_NotFound (db_issues db (io_project_id x, io_issue_id x))) (\<lambda>row.
      if ir_grouping_key row \<noteq> GroupingKey_to_bytes (io_grouping_key x) then Inl IE_IdentityCollision
      else and_then (decode_issue V row) (\<lambda>issue.
        if created then Inr (Mutation_Created, issue, None,
          insert_transition V issue Notify_NewIssue (io_event_id f) (io_received_at f) db)
        else apply_issue_update V f l c n issue db))) = Inr (kind, issue, activity, db')"
    using assms(1) cons unfolding f_def l_def c_def
    by (simp add: apply_batch_def Let_def m mn enc del: sum_increments.simps split: if_splits)
  have key: "(ir_project_id (new_row V x f l k body), ir_issue_id (new_row V x f l k body)) = (io_project_id x, io_issue_id x)" for k
    by (simp add: new_row_def)
  show thesis
  proof (cases "db_issues db (io_project_id x, io_issue_id x)")
    case None
    then have chk: "issue_row_check (new_row V x f l (int n) body)"
      using run by (simp add: insert_issue_def new_row_def split: if_splits)
    have "ir_grouping_key (new_row V x f l (int n) body) = GroupingKey_to_bytes (io_grouping_key x)"
      by (simp add: new_row_def)
    with run None chk obtain i where "decode_issue V (new_row V x f l (int n) body) = Inr i"
        "kind = Mutation_Created" "activity = None" "issue = i"
        "db' = insert_transition V i Notify_NewIssue (io_event_id f) (io_received_at f)
        (db\<lparr>db_issues := (db_issues db)((io_project_id x, io_issue_id x) \<mapsto> new_row V x f l (int n) body)\<rparr>)"
      by (cases "decode_issue V (new_row V x f l (int n) body)") (simp_all add: insert_issue_def new_row_def)
    with None enc cons chk show ?thesis by (intro created) simp_all
  next
    case (Some r)
    then have ins: "insert_issue (new_row V x f l (int n) body) db = Inr (False, db)"
      using run by (simp add: insert_issue_def new_row_def split: if_splits)
    with run Some have "ir_grouping_key r = GroupingKey_to_bytes (io_grouping_key x)" by (simp split: if_splits)
    with run Some ins obtain old where "decode_issue V r = Inr old" "apply_issue_update V f l c n old db = Inr (kind, issue, activity, db')"
      by (cases "decode_issue V r") simp_all
    with Some cons \<open>ir_grouping_key r = _\<close> show ?thesis by (intro merged)
  qed
qed

lemma apply_issue_update_cases:
  assumes "apply_issue_update V f l c n old db = Inr (kind, issue, activity, db')"
  obtains db1 where "merge_batch f l c n old = Inr issue" "save_issue issue db = Inr db1"
    "db_issues db' = db_issues db1" "db_projects db' = db_projects db1"
    "kind = mutation_kind issue c" "db_activities db' = db_activities db1"
proof -
  obtain t where t: "merge_batch f l c n old = Inr t"
    using assms by (cases "merge_batch f l c n old") (simp_all add: apply_issue_update_def)
  obtain db1 where d: "save_issue t db = Inr db1"
    using assms t by (cases "save_issue t db") (simp_all add: apply_issue_update_def)
  show thesis
    using assms t d by (intro that[of db1]) (auto simp: apply_issue_update_def Let_def insert_transition_def)
qed

lemma save_issue_ok:
  assumes "save_issue s db = Inr db'" "db_issues db (is_project_id s, is_issue_id s) = Some r"
  shows "db' = db\<lparr>db_issues := (db_issues db)((is_project_id s, is_issue_id s) \<mapsto> saved_row s r)\<rparr>"
    "issue_row_check (saved_row s r)"
  using assms by (auto simp: save_issue_def split: if_splits)

text \<open>The rows of one issue stand for the occurrences of a history.\<close>

definition issue_history :: "issue_env \<Rightarrow> project_id \<Rightarrow> bytes \<Rightarrow> issue_occurrence list \<Rightarrow> issue_tables \<Rightarrow> bool" where
  "issue_history V p i xs db = (case db_issues db (p, i) of
       None \<Rightarrow> xs = []
     | Some r \<Rightarrow> xs \<noteq> [] \<and> body_fits V (ir_grouping_body r)
         \<and> (case decode_issue V r of Inl _ \<Rightarrow> False
            | Inr s \<Rightarrow> is_project_id s = p \<and> is_issue_id s = i \<and> summarises xs s))"

text \<open>Occurrences of one issue whose grouping the codec can store.\<close>

definition occurrences_of :: "issue_env \<Rightarrow> project_id \<Rightarrow> bytes \<Rightarrow> issue_occurrence list \<Rightarrow> bool" where
  "occurrences_of V p i xs = list_all (\<lambda>x. occurrence_ok x \<and> io_project_id x = p \<and> io_issue_id x = i
     \<and> codec_laws (ev_json V) (ev_zstd V) (grouping_value (io_grouping x))) xs"

lemma batch_members:
  assumes "list_all P (x # xs)"
  shows "P (min_by_key k x xs)" "P (max_by_key k x xs)"
  using assms min_by_key_spec[of k x xs] max_by_key_spec[of k x xs] unfolding list_all_iff by blast+

lemma increments_positive:
  assumes "list_all occurrence_ok (x # xs)"
  shows "0 < sum_list (map io_increment (x # xs))"
  using assms by (simp add: occurrence_ok_def)

lemma apply_batch_history:
  assumes V: "codec_fits (ev_codec V)" and xs: "occurrences_of V p i b" and h: "issue_history V p i xs db"
    and run: "apply_batch V b db = Inr (kind, issue, activity, db')"
  shows "issue_history V p i (xs @ b) db'" "map_option (decode_issue V) (db_issues db' (p, i)) = Some (Inr issue)"
    "summarises (xs @ b) issue" "kind = Mutation_Created \<longleftrightarrow> xs = []"
proof -
  obtain x rest where b: "b = x # rest" using run by (cases b) (simp_all add: apply_batch_def)
  have all: "list_all occurrence_ok (x # rest)" using xs by (simp add: b occurrences_of_def list_all_iff)
  have pi: "io_project_id x = p" "io_issue_id x = i"
    and law: "codec_laws (ev_json V) (ev_zstd V) (grouping_value (io_grouping x))"
    using xs by (simp_all add: b occurrences_of_def)
  let ?f = "min_by_key seen_key x rest" and ?l = "max_by_key seen_key x rest" and ?c = "max_by_key received_key x rest"
  let ?n = "sum_list (map io_increment (x # rest))"
  note ok = batch_members[OF all]
  have x: "occurrence_ok x" and n: "0 < ?n" using all increments_positive[OF all] by simp_all
  have keys: "seen_key ?f = Min (seen_key ` set b)" "seen_key ?l = Max (seen_key ` set b)"
    using min_by_key_spec[of seen_key x rest] max_by_key_spec[of seen_key x rest] by (simp_all add: b)
  have goal: "issue_history V p i (xs @ b) db' \<and> map_option (decode_issue V) (db_issues db' (p, i)) = Some (Inr issue)
      \<and> summarises (xs @ b) issue \<and> (kind = Mutation_Created \<longleftrightarrow> xs = [])"
    using run[unfolded b]
  proof (cases rule: apply_batch_cases)
    case (created body canonical)
    have e: "xs = []" using h created(1) pi by (simp add: issue_history_def)
    have ver: "issue_verified V (io_project_id x) (io_grouping_key x) (io_issue_id x)"
      using created(3) by (simp add: batch_consistent_def)
    note d = decode_new_row[OF law V x ok(1)[of seen_key] ok(2)[of seen_key] n ver created(2)]
    have s: "summarises b issue" "is_project_id issue = p" "is_issue_id issue = i"
      using created(5) keys pi unfolding d(1) by (auto simp: summarises_def seen_key_def b)
    have row: "db_issues db' (p, i) = Some (new_row V x ?f ?l (int ?n) body)"
      by (simp add: created(8) insert_transition_def Let_def pi)
    have "ir_grouping_body (new_row V x ?f ?l (int ?n) body) = body" by (simp add: new_row_def)
    with d(2) row s created(5,6) e show ?thesis by (simp add: issue_history_def b)
  next
    case (merged r old)
    obtain db1 where u: "merge_batch ?f ?l ?c ?n old = Inr issue" "save_issue issue db = Inr db1"
      "db_issues db' = db_issues db1" "kind = mutation_kind issue ?c"
      using merged(5) by (rule apply_issue_update_cases)
    have r: "db_issues db (p, i) = Some r" using merged(1) pi by simp
    have old: "is_project_id old = p" "is_issue_id old = i" "summarises xs old" "xs \<noteq> []" "body_fits V (ir_grouping_body r)"
      using h r merged(4) by (simp_all add: issue_history_def)
    note m = merge_batch_ok[OF u(1) decode_issue_ok(1)[OF merged(4)] ok(1)[of seen_key] ok(2)[of seen_key] ok(2)[of received_key]]
    have id: "is_project_id issue = p" "is_issue_id issue = i" "is_title issue = is_title old" "is_culprit issue = is_culprit old"
      using m(1) old by (simp_all add: same_identity_def)
    have row: "db_issues db' (p, i) = Some (saved_row issue r)"
      using save_issue_ok(1)[OF u(2)] r id u(3) by simp
    have size: "row_size (ir_grouping_body r) (is_title issue) (is_culprit issue) (is_first_release issue)
        (is_last_release issue) \<le> cc_max_row (ev_codec V)"
      using m(2) decode_issue_ok(2,3)[OF merged(4)] unfolding id mutable_ok_def
      by (intro row_fits[OF V old(5)]) simp_all
    have dec: "decode_issue V (saved_row issue r) = Inr issue" by (rule decode_saved_row[OF merged(4) m(1,2) size])
    have rep: "is_representative_event_id old = is_latest_event_id old" using old(3) by (simp add: summarises_def)
    have "summarises (xs @ b) issue"
      using m(3,4,5) m(6)[OF rep] by (intro summarises_append[OF old(3,4)]) (simp_all only: keys b list.distinct not_False_eq_True)
    moreover have "kind \<noteq> Mutation_Created" by (simp add: u(4) mutation_kind_def)
    moreover have "ir_grouping_body (saved_row issue r) = ir_grouping_body r" by (simp add: saved_row_def)
    ultimately show ?thesis using row dec id old by (simp add: issue_history_def b)
  qed
  then show "issue_history V p i (xs @ b) db'" "map_option (decode_issue V) (db_issues db' (p, i)) = Some (Inr issue)"
    "summarises (xs @ b) issue" "kind = Mutation_Created \<longleftrightarrow> xs = []" by blast+
qed

fun apply_batches :: "issue_env \<Rightarrow> issue_occurrence list list \<Rightarrow> issue_tables \<Rightarrow> issue_store_error + issue_tables" where
  "apply_batches V [] db = Inr db"
| "apply_batches V (b # bs) db = and_then (apply_batch V b db) (\<lambda>(kind, issue, activity, db'). apply_batches V bs db')"

lemma apply_batches_history:
  assumes "codec_fits (ev_codec V)" "list_all (occurrences_of V p i) bs" "issue_history V p i xs db"
    "apply_batches V bs db = Inr db'"
  shows "issue_history V p i (xs @ concat bs) db'"
  using assms
proof (induction V bs db arbitrary: xs rule: apply_batches.induct)
  case (2 V b bs db)
  obtain k s a d where d: "apply_batch V b db = Inr (k, s, a, d)" "apply_batches V bs d = Inr db'"
    using "2.prems"(4) by (auto simp: and_then_eq_Inr)
  have "issue_history V p i (xs @ b) d"
    using "2.prems" d(1) by (intro apply_batch_history(1)) simp_all
  from "2.IH"[OF _ _ this d(2)] "2.prems" show ?case by simp
qed simp

lemma batch_not_empty: "apply_batch V [] db = Inl IE_InvalidData"
  by (simp add: apply_batch_def)

text \<open>
  C12. Whatever the batches in which the occurrences of a new issue arrive, and in whatever order, the row
  that accepted batches leave reads back as an issue whose count is the sum of all increments, whose
  first and last sightings are the least and the greatest (time, event) over all occurrences, and whose
  representative is the latest event.
\<close>
theorem issue_batches_summarise:
  assumes "codec_fits (ev_codec V)" "list_all (occurrences_of V p i) bs" "db_issues db (p, i) = None"
    "apply_batches V bs db = Inr db'" "mset (concat bs) = mset xs" "xs \<noteq> []"
  shows "\<exists>r s. db_issues db' (p, i) = Some r \<and> decode_issue V r = Inr s
    \<and> is_occurrence_count s = sum_list (map io_increment xs)
    \<and> (is_first_seen s, is_first_event_id s) = Min (seen_key ` set xs)
    \<and> (is_last_seen s, is_latest_event_id s) = Max (seen_key ` set xs)
    \<and> is_representative_event_id s = is_latest_event_id s"
proof -
  have "issue_history V p i ([] @ concat bs) db'"
    by (rule apply_batches_history[OF assms(1,2) _ assms(4)]) (simp add: issue_history_def assms(3))
  moreover have "concat bs \<noteq> []" using assms(5,6) by (metis mset_zero_iff)
  ultimately obtain r s where s: "db_issues db' (p, i) = Some r" "decode_issue V r = Inr s" "summarises (concat bs) s"
    by (auto simp: issue_history_def split: option.splits sum.splits)
  have "set (concat bs) = set xs" "sum_list (map io_increment (concat bs)) = sum_list (map io_increment xs)"
    using mset_eq_setD[OF assms(5)] assms(5) by (simp_all flip: sum_mset_sum_list)
  with s show ?thesis by (auto simp: summarises_def)
qed

lemma save_issue_decodes:
  assumes "decode_issue V r = Inr s" "db_issues db (is_project_id t, is_issue_id t) = Some r"
    "same_identity t s" "mutable_ok t" "is_first_release t = is_first_release s" "is_last_release t = is_last_release s"
    "save_issue t db = Inr db'"
  shows "db_issues db' (is_project_id t, is_issue_id t) = Some (saved_row t r)" "decode_issue V (saved_row t r) = Inr t"
    "db_transitions db' = db_transitions db" "db_activities db' = db_activities db" "db_projects db' = db_projects db"
proof -
  show "decode_issue V (saved_row t r) = Inr t"
    using assms(1,3,5,6) by (intro decode_saved_row[OF assms(1,3,4)]) (simp add: decode_issue_iff same_identity_def)
qed (simp_all add: save_issue_ok(1)[OF assms(7,2)])

definition command_ok :: "issue_command \<Rightarrow> bool" where
  "command_ok c = (timestamp_ok (ic_at c) \<and> actor_ok (ic_actor c)
     \<and> (case ic_action c of Cmd_Assign (Some a) \<Rightarrow> actor_ok a | _ \<Rightarrow> True))"

lemma command_effect_ok:
  assumes "command_effect c s = Some t" "mutable_ok s" "command_ok c"
  shows "same_identity t s" "mutable_ok t" "is_first_release t = is_first_release s" "is_last_release t = is_last_release s"
    "is_occurrence_count t = is_occurrence_count s" "command_effect c t = None"
  using assms
  by (auto simp: command_effect_def same_identity_def mutable_ok_def workflow_ok_def command_ok_def
      split: issue_command_action.splits if_splits option.splits)

text \<open>Rows are stored under their primary key.\<close>

definition issue_keys_ok :: "issue_tables \<Rightarrow> bool" where
  "issue_keys_ok db = (\<forall>p i r. db_issues db (p, i) = Some r \<longrightarrow> ir_project_id r = p \<and> ir_issue_id r = i)"

lemma decoded_key:
  assumes "issue_keys_ok db" "db_issues db (p, i) = Some r" "decode_issue V r = Inr s"
  shows "is_project_id s = p \<and> is_issue_id s = i"
proof -
  have "ir_project_id r = p" "ir_issue_id r = i" using assms(1,2) unfolding issue_keys_ok_def by blast+
  with assms(3) show ?thesis
    by (auto simp: decode_issue_iff decode_fixed_iff ProjectId_new_def split: if_splits)
qed

text \<open>
  C34. An occurrence of a known issue reopens it exactly when the issue was resolved and the occurrence was
  received after the resolution; then the regression is counted and its notification is recorded. An
  ignored issue stays ignored, an open one stays open, the assignee is kept, and the stored issue reads
  back as the result.
\<close>
theorem occurrence_reopens_exactly:
  assumes "apply_occurrence V True emitted x db = (Inr (kind, s), db')" "codec_fits (ev_codec V)"
    "occurrences_of V p i [x]" "issue_history V p i xs db" "db_issues db (p, i) = Some r" "decode_issue V r = Inr old"
  shows "is_status s = (if is_status old = Issue_Resolved
        \<and> is_some_and (is_workflow old) (\<lambda>w. io_received_at x > wf_at w) then Issue_Open else is_status old)
    \<and> is_assignee s = is_assignee old
    \<and> map_option (decode_issue V) (db_issues db' (p, i)) = Some (Inr s)
    \<and> (if is_status s \<noteq> is_status old
       then kind = Mutation_Regressed
         \<and> is_regression s = Some \<lparr>rg_at = io_received_at x, rg_event_id = io_event_id x,
             rg_count = (case is_regression old of None \<Rightarrow> 0 | Some g \<Rightarrow> rg_count g) + 1, rg_release = io_release x\<rparr>
         \<and> db_transitions db' (p, notification_transition_id (ev_blake3 V) p i Notify_Regression (io_event_id x)) \<noteq> None
       else is_regression s = is_regression old)"
proof -
  obtain a d where b: "apply_batch V [x] db = Inr (kind, s, a, d)"
      and db': "db' = (case a of None \<Rightarrow> d | Some (aid, act) \<Rightarrow> emit_activity emitted (is_project_id s) aid act d)"
    using assms(1) by (cases "apply_batch V [x] db") (auto simp: apply_occurrence_def split: if_splits)
  note h = apply_batch_history[OF assms(2,3,4) b]
  have same: "db_issues db' = db_issues d" "db_transitions db' = db_transitions d"
    by (auto simp: db' emit_activity_def split: option.splits)
  have pi: "io_project_id x = p" "io_issue_id x = i" and ok: "occurrence_ok x" using assms(3) by (simp_all add: occurrences_of_def)
  have u: "apply_issue_update V x x x (io_increment x) old db = Inr (kind, s, a, d)"
    using b by (cases rule: apply_batch_cases) (use assms(5,6) pi in simp_all)
  then obtain d1 where m: "merge_batch x x x (io_increment x) old = Inr s" "save_issue s db = Inr d1"
    by (rule apply_issue_update_cases)
  note k = merge_batch_ok[OF m(1) decode_issue_ok(1)[OF assms(6)] ok ok ok]
  have key: "is_project_id s = p" "is_issue_id s = i"
    using h(1,2) by (auto simp: issue_history_def split: option.splits)
  have reg: "regresses old x \<Longrightarrow> is_regression s = Some \<lparr>rg_at = io_received_at x, rg_event_id = io_event_id x,
       rg_count = (case is_regression old of None \<Rightarrow> 0 | Some g \<Rightarrow> rg_count g) + 1, rg_release = io_release x\<rparr>"
    "\<not> regresses old x \<Longrightarrow> is_regression s = is_regression old"
    using m(1) by (auto simp: merge_batch_def merge_regression_def Let_def and_then_eq_Inr merge_seen_ok split: if_splits)
  have tr: "regresses old x \<Longrightarrow> kind = Mutation_Regressed
     \<and> db_transitions d (p, notification_transition_id (ev_blake3 V) p i Notify_Regression (io_event_id x)) \<noteq> None"
    using u m reg(1) k(8) by (auto simp: apply_issue_update_def Let_def insert_transition_def insert_ignore_def key
        mutation_kind_def split: option.splits)
  have "is_status s \<noteq> is_status old \<longleftrightarrow> regresses old x" using k(8) by (auto simp: regresses_def)
  with k(7,8) reg tr h(2) same show ?thesis by (simp add: regresses_def)
qed

section \<open>A batch for a new issue is accepted\<close>

lemma sum_increments_total:
  "n + sum_list (map io_increment xs) \<le> i64_max \<Longrightarrow> sum_increments n xs = Inr (n + sum_list (map io_increment xs))"
  by (induction n xs rule: sum_increments.induct) simp_all

lemma grouping_key_bytes:
  assumes "grouping_key_ok k"
  shows "length (GroupingKey_to_bytes k) = 34" "take 2 (GroupingKey_to_bytes k) \<noteq> [0, 0]"
proof -
  show "length (GroupingKey_to_bytes k) = 34" using assms by (simp add: GroupingKey_to_bytes_def grouping_key_ok_def)
  have "from_be (be_bytes 2 (gk_revision k)) = gk_revision k"
    using assms by (intro from_be_bytes) (simp add: grouping_key_ok_def)
  moreover have "take 2 (GroupingKey_to_bytes k) = be_bytes 2 (gk_revision k)" by (simp add: GroupingKey_to_bytes_def)
  moreover have "from_be [0, 0] = 0" by (simp add: from_be_def)
  ultimately show "take 2 (GroupingKey_to_bytes k) \<noteq> [0, 0]" using assms by (auto simp: grouping_key_ok_def)
qed

lemma as_bytes_eq_Nil [simp]: "as_bytes s = [] \<longleftrightarrow> s = []"
  by (simp add: as_bytes_def)

lemma release_check_as_bytes:
  "is_none_or v (text_ok MAX_ISSUE_RELEASE_BYTES) \<Longrightarrow> is_none_or (map_option as_bytes v) release_check"
  by (cases v) (auto simp: text_ok_def release_check_def MAX_ISSUE_RELEASE_BYTES_def Suc_le_eq)

lemma timestamp_time_check: "timestamp_ok t = time_check t"
  by (simp add: timestamp_ok_def time_check_def MIN_TIMESTAMP_MILLIS_def MAX_TIMESTAMP_MILLIS_def)

lemma new_row_check:
  assumes "occurrence_ok x" "occurrence_ok f" "occurrence_ok l" "io_occurred_at f \<le> io_occurred_at l" "0 < n"
    "2 \<le> length body" "length body \<le> 131072" "length (ev_projection V (io_title x)) \<le> 2048"
  shows "issue_row_check (new_row V x f l (int n) body)"
proof -
  have "is_none_or (map_option as_bytes (io_culprit x)) (\<lambda>v. 1 \<le> length v \<and> length v \<le> 256)"
    using assms(1) by (cases "io_culprit x") (simp_all add: occurrence_ok_def text_ok_def MAX_ISSUE_CULPRIT_BYTES_def Suc_le_eq)
  moreover have "1 \<le> length (io_title x)" "length (io_title x) \<le> 512"
    using assms(1) by (simp_all add: occurrence_ok_def text_ok_def MAX_ISSUE_TITLE_BYTES_def Suc_le_eq)
  moreover have "is_none_or (map_option as_bytes (io_release f)) release_check"
    "is_none_or (map_option as_bytes (io_release l)) release_check"
    using assms(2,3) by (simp_all add: occurrence_ok_def release_check_as_bytes)
  moreover have "time_check (io_occurred_at f)" "time_check (io_occurred_at l)"
    using assms(2,3) by (simp_all add: occurrence_ok_def timestamp_time_check)
  ultimately show ?thesis
    using assms grouping_key_bytes[of "io_grouping_key x"]
    by (simp add: issue_row_check_def new_row_def occurrence_ok_def)
qed

lemma batch_first_last:
  "io_occurred_at (min_by_key seen_key x xs) \<le> io_occurred_at (max_by_key seen_key x xs)"
proof -
  have "seen_key (min_by_key seen_key x xs) \<le> seen_key (max_by_key seen_key x xs)"
    using min_by_key_spec[of seen_key x xs] max_by_key_spec[of seen_key x xs] Min_le[of "seen_key ` set (x # xs)"]
    by (metis List.finite_set finite_imageI imageI)
  then show ?thesis by (auto simp: seen_key_def less_eq_prod_def)
qed

lemma apply_batch_creates:
  assumes "codec_fits (ev_codec V)" "occurrences_of V p i (x # xs)" "db_issues db (p, i) = None"
    "batch_consistent V x (x # xs)" "sum_list (map io_increment (x # xs)) \<le> i64_max"
    "encode_json (ev_json V) (ev_zstd V) (grouping_value (io_grouping x)) (cc_min_savings (ev_codec V))
       (cc_max_decoded (ev_codec V)) = Inr (body, canonical)"
    "length (ev_projection V (io_title x)) \<le> 2048"
  shows "\<exists>s db'. apply_batch V (x # xs) db = Inr (Mutation_Created, s, None, db')"
proof -
  let ?f = "min_by_key seen_key x xs" and ?l = "max_by_key seen_key x xs"
  define n where "n = sum_list (map io_increment (x # xs))"
  have all: "list_all occurrence_ok (x # xs)" and pi: "io_project_id x = p" "io_issue_id x = i"
    and law: "codec_laws (ev_json V) (ev_zstd V) (grouping_value (io_grouping x))"
    using assms(2) by (simp_all add: occurrences_of_def list_all_iff)
  note ok = batch_members[OF all, of seen_key]
  have x: "occurrence_ok x" using all by simp
  have ver: "issue_verified V (io_project_id x) (io_grouping_key x) (io_issue_id x)"
    using assms(4) by (simp add: batch_consistent_def)
  have pos: "0 < n" using increments_positive[OF all] by (simp add: n_def)
  note d = decode_new_row[OF law assms(1) x ok pos ver assms(6)]
  have size: "row_size body (io_title x) (io_culprit x) (io_release ?f) (io_release ?l) \<le> cc_max_row (ev_codec V)"
    using x ok by (intro row_fits[OF assms(1) d(2)]) (simp_all add: occurrence_ok_def)
  have len: "length body \<le> 131072" using d(2) assms(1) by (simp add: body_fits_def codec_fits_def)
  have chk: "issue_row_check (new_row V x ?f ?l (int n) body)"
    using pos len assms(7) encode_json_minimum[OF assms(6)]
    by (intro new_row_check x ok batch_first_last)
  have sum: "sum_increments 0 (x # xs) = Inr n" using sum_increments_total[of 0 "x # xs"] assms(5) by (simp add: n_def)
  have key: "ir_project_id (new_row V x ?f ?l (int n) body) = p" "ir_issue_id (new_row V x ?f ?l (int n) body) = i"
    "ir_grouping_key (new_row V x ?f ?l (int n) body) = GroupingKey_to_bytes (io_grouping_key x)"
    by (simp_all add: new_row_def pi)
  have ins: "insert_issue (new_row V x ?f ?l (int n) body) db = Inr (True,
      db\<lparr>db_issues := (db_issues db)((p, i) \<mapsto> new_row V x ?f ?l (int n) body)\<rparr>)"
    using assms(3) chk by (simp add: insert_issue_def key)
  show ?thesis
    unfolding apply_batch_def using assms(4,6) size sum ins key d(1)
    by (simp add: Let_def pi del: sum_increments.simps)
qed

section \<open>A command is applied once\<close>

text \<open>The \<^verbatim>\<open>BIGINT\<close> columns hold 64-bit values.\<close>

definition row_widths :: "issue_row \<Rightarrow> bool" where
  "row_widths r = (ir_occurrence_count r \<le> int i64_max \<and> is_none_or (ir_regression_count r) (\<lambda>n. n \<le> int i64_max))"

lemma actor_check_to_bytes: "actor_ok a \<Longrightarrow> actor_check (ActorRef_to_bytes a)"
  by (cases "ac_kind a") (simp_all add: actor_check_def ActorRef_to_bytes_def actor_ok_def)

lemma saved_row_check:
  assumes "issue_row_check r" "mutable_ok t" "is_first_seen t \<le> is_last_seen t"
  shows "issue_row_check (saved_row t r)"
proof -
  note m = assms(2)[unfolded mutable_ok_def]
  have "time_check (is_first_seen t)" "time_check (is_last_seen t)" using m by (simp_all add: timestamp_time_check)
  moreover have "0 \<le> status_code (is_status t)" "status_code (is_status t) \<le> 2"
    "status_code (is_status t) = 0 \<longleftrightarrow> is_status t = Issue_Open"
    by (cases "is_status t"; simp add: status_code_def)+
  moreover have "is_none_or (map_option ActorRef_to_bytes (is_assignee t)) actor_check"
    using m by (cases "is_assignee t") (simp_all add: actor_check_to_bytes)
  moreover have "is_none_or (map_option wf_at (is_workflow t)) time_check"
    "is_none_or (map_option (ActorRef_to_bytes \<circ> wf_actor) (is_workflow t)) actor_check"
    "is_status t = Issue_Open \<longleftrightarrow> is_workflow t = None"
    using m by (cases "is_workflow t"; simp add: workflow_ok_def actor_check_to_bytes timestamp_time_check)+
  moreover have "is_none_or (map_option rg_at (is_regression t)) time_check"
    "is_none_or (map_option rg_event_id (is_regression t)) (\<lambda>v. length v = 16)"
    "is_none_or (map_option (int \<circ> rg_count) (is_regression t)) (\<lambda>n. 0 < n)"
    "is_none_or (map_option as_bytes (Option.bind (is_regression t) rg_release)) release_check"
    using m by (cases "is_regression t"; simp add: regression_ok_def timestamp_time_check release_check_as_bytes)+
  moreover have "is_none_or (map_option as_bytes (is_first_release t)) release_check"
    "is_none_or (map_option as_bytes (is_last_release t)) release_check"
    using m by (simp_all add: release_check_as_bytes)
  ultimately show ?thesis
    using assms(1,3) m unfolding issue_row_check_def saved_row_def
    by (cases "is_regression t"; cases "is_workflow t") simp_all
qed

lemma decoded_counts:
  assumes "decode_issue V r = Inr s" "row_widths r"
  shows "is_occurrence_count s \<le> i64_max" "is_none_or (is_regression s) (\<lambda>g. rg_count g \<le> i64_max)"
proof -
  have "positive (ir_occurrence_count r) = Inr (is_occurrence_count s)" using assms(1) unfolding decode_issue_iff by blast
  then show "is_occurrence_count s \<le> i64_max" using assms(2) by (auto simp: positive_iff row_widths_def)
  obtain rel where "decode_regression (ir_regression_at r) (ir_regression_event_id r) (ir_regression_count r) rel
      = Inr (is_regression s)" using assms(1) unfolding decode_issue_iff by blast
  then show "is_none_or (is_regression s) (\<lambda>g. rg_count g \<le> i64_max)"
    using assms(2)
    by (cases "ir_regression_at r"; cases "ir_regression_event_id r"; cases "ir_regression_count r")
      (auto simp: decode_regression_def and_then_eq_Inr positive_iff row_widths_def is_none_or_def split: if_splits option.splits)
qed

lemma command_effect_keeps:
  assumes "command_effect c s = Some t"
  shows "is_first_seen t = is_first_seen s" "is_last_seen t = is_last_seen s" "is_regression t = is_regression s"
  using assms by (auto simp: command_effect_def split: issue_command_action.splits if_splits)

lemma command_saves:
  assumes "decode_issue V r = Inr old" "issue_row_check r" "row_widths r" "command_effect c old = Some t" "command_ok c"
    "db_issues db (is_project_id t, is_issue_id t) = Some r"
  shows "\<exists>d. save_issue t db = Inr d"
proof -
  note e = command_effect_ok[OF assms(4) decode_issue_ok(1)[OF assms(1)] assms(5)]
  have "decode_time (ir_first_seen r) = Inr (is_first_seen old)" "decode_time (ir_last_seen r) = Inr (is_last_seen old)"
    using assms(1) unfolding decode_issue_iff by blast+
  then have "is_first_seen old \<le> is_last_seen old" using assms(2) by (simp add: decode_time_iff issue_row_check_def)
  then have "issue_row_check (saved_row t r)"
    by (intro saved_row_check assms(2) e(2)) (simp add: command_effect_keeps[OF assms(4)])
  with decoded_counts[OF assms(1,3)] assms(6) show ?thesis
    by (simp add: save_issue_def e(5) command_effect_keeps(3)[OF assms(4)])
qed


section \<open>A batch for a known issue is accepted\<close>

lemma merge_batch_total:
  assumes "mutable_ok s" "is_occurrence_count s + n \<le> i64_max" "is_none_or (is_regression s) (\<lambda>g. rg_count g < i64_max)"
  shows "\<exists>t. merge_batch f l c n s = Inr t"
proof -
  let ?m = "merge_seen f l (s\<lparr>is_occurrence_count := is_occurrence_count s + n\<rparr>)"
  have "0 < is_occurrence_count s + n" using assms(1) by (simp add: mutable_ok_def)
  from positive_int[OF this] have "merge_batch f l c n s = merge_regression c ?m"
    using assms(2) by (simp add: merge_batch_def Let_def)
  moreover have "\<exists>t. merge_regression c ?m = Inr t"
    using assms(3) by (cases "is_regression s") (simp_all add: merge_regression_def Let_def merge_seen_ok)
  ultimately show ?thesis by simp
qed

lemma apply_batch_updates:
  assumes "codec_fits (ev_codec V)" "occurrences_of V p i (x # xs)" "db_issues db (p, i) = Some r"
    "issue_row_check r" "decode_issue V r = Inr old" "ir_grouping_key r = GroupingKey_to_bytes (io_grouping_key x)"
    "is_project_id old = p" "is_issue_id old = i"
    "batch_consistent V x (x # xs)" "is_occurrence_count old + sum_list (map io_increment (x # xs)) \<le> i64_max"
    "is_none_or (is_regression old) (\<lambda>g. rg_count g < i64_max)"
    "encode_json (ev_json V) (ev_zstd V) (grouping_value (io_grouping x)) (cc_min_savings (ev_codec V))
       (cc_max_decoded (ev_codec V)) = Inr (body, canonical)"
    "length (ev_projection V (io_title x)) \<le> 2048"
  shows "\<exists>out. apply_batch V (x # xs) db = Inr out"
proof -
  let ?f = "min_by_key seen_key x xs" and ?l = "max_by_key seen_key x xs" and ?c = "max_by_key received_key x xs"
  define n where "n = sum_list (map io_increment (x # xs))"
  have all: "list_all occurrence_ok (x # xs)" and pi: "io_project_id x = p" "io_issue_id x = i"
    and law: "codec_laws (ev_json V) (ev_zstd V) (grouping_value (io_grouping x))"
    using assms(2) by (simp_all add: occurrences_of_def list_all_iff)
  have x: "occurrence_ok x" and pos: "0 < n" using all increments_positive[OF all] by (simp_all add: n_def)
  note ok = batch_members[OF all]
  have ver: "issue_verified V (io_project_id x) (io_grouping_key x) (io_issue_id x)"
    using assms(9) by (simp add: batch_consistent_def)
  note d = decode_new_row[OF law assms(1) x ok[of seen_key] pos ver assms(12)]
  have size: "row_size body (io_title x) (io_culprit x) (io_release ?f) (io_release ?l) \<le> cc_max_row (ev_codec V)"
    using x ok[of seen_key] by (intro row_fits[OF assms(1) d(2)]) (simp_all add: occurrence_ok_def)
  have len: "length body \<le> 131072" using d(2) assms(1) by (simp add: body_fits_def codec_fits_def)
  have chk: "issue_row_check (new_row V x ?f ?l (int n) body)"
    using pos len assms(13) encode_json_minimum[OF assms(12)] by (intro new_row_check x ok batch_first_last)
  have ins: "insert_issue (new_row V x ?f ?l (int n) body) db = Inr (False, db)"
    using chk assms(3) by (simp add: insert_issue_def new_row_def pi)
  have sum: "sum_increments 0 (x # xs) = Inr n" using sum_increments_total[of 0 "x # xs"] assms(10) by (simp add: n_def)
  have old: "mutable_ok old" by (rule decode_issue_ok(1)[OF assms(5)])
  obtain t where t: "merge_batch ?f ?l ?c n old = Inr t"
    using merge_batch_total[OF old assms(10,11), folded n_def] by blast
  note m = merge_batch_ok[OF t old ok(1)[of seen_key] ok(2)[of seen_key] ok(2)[of received_key]]
  have key: "(is_project_id t, is_issue_id t) = (p, i)" using m(1) assms(7,8) by (simp add: same_identity_def)
  have "decode_time (ir_first_seen r) = Inr (is_first_seen old)" "decode_time (ir_last_seen r) = Inr (is_last_seen old)"
    using assms(5) unfolding decode_issue_iff by blast+
  then have le: "is_first_seen old \<le> is_last_seen old" using assms(4) by (simp add: decode_time_iff issue_row_check_def)
  have "is_first_seen t = fst (min (seen_key ?f) (is_first_seen old, is_first_event_id old))"
    "is_last_seen t = fst (max (seen_key ?l) (is_last_seen old, is_latest_event_id old))"
    using m(4,5) by (metis fst_conv)+
  with le have "is_first_seen t \<le> is_last_seen t"
    by (auto simp: min_def max_def seen_key_def less_eq_prod_def split: if_splits)
  then have "issue_row_check (saved_row t r)" by (intro saved_row_check assms(4) m(2))
  moreover have "is_occurrence_count t \<le> i64_max" using m(3) assms(10) by (simp add: n_def)
  moreover have "is_none_or (is_regression t) (\<lambda>g. rg_count g \<le> i64_max)"
    using t assms(11) by (cases "is_regression old")
      (auto simp: merge_batch_def merge_regression_def Let_def and_then_eq_Inr merge_seen_ok split: if_splits)
  ultimately obtain db1 where sv: "save_issue t db = Inr db1" using assms(3) key by (simp add: save_issue_def)
  show ?thesis
    unfolding apply_batch_def using assms(3,5,6,9,12) size sum ins t sv
    by (simp add: Let_def pi apply_issue_update_def del: sum_increments.simps)
qed

section \<open>Examples\<close>

definition sample_grouping :: issue_grouping_detail where
  "sample_grouping = \<lparr>ig_strategy = GS_Message, ig_explanation = \<lparr>gx_summary = ''m'', gx_components = []\<rparr>\<rparr>"

definition sample_issue_env :: issue_env where
  "sample_issue_env = \<lparr>ev_blake3 = (\<lambda>_. replicate 32 0),
     ev_json = \<lparr>jo_from_slice = (\<lambda>_. Some (grouping_value sample_grouping)), jo_to_vec = (\<lambda>_. [123, 125]),
       jo_number_to_string = (\<lambda>_. []), jo_number_from_str = (\<lambda>_. None), jo_number_millis = (\<lambda>_. None),
       jo_millis_number = (\<lambda>_. JN_PosInt 0)\<rparr>,
     ev_zstd = \<lparr>z_compress = Some, z_decompress = (\<lambda>b _. Some b)\<rparr>,
     ev_projection = (\<lambda>_. []), ev_codec = IssueCodecConfig_default\<rparr>"

definition sample_occurrence :: "timestamp \<Rightarrow> issue_occurrence" where
  "sample_occurrence t = \<lparr>io_project_id = 7, io_issue_id = replicate 16 0,
     io_grouping_key = \<lparr>gk_revision = 1, gk_digest = replicate 32 0\<rparr>, io_event_id = replicate 16 1,
     io_occurred_at = t, io_received_at = t, io_release = None, io_title = ''e'', io_culprit = None,
     io_grouping = sample_grouping, io_increment = 1\<rparr>"

definition no_issues :: issue_tables where
  "no_issues = \<lparr>db_projects = (\<lambda>_. True), db_issues = (\<lambda>_. None), db_transitions = (\<lambda>_. None),
     db_activities = (\<lambda>_. None)\<rparr>"

lemma sample_codec: "codec_fits (ev_codec sample_issue_env)"
  by (simp add: codec_fits_def sample_issue_env_def IssueCodecConfig_default_def ROW_METADATA_BYTES_def
      MAX_ISSUE_TITLE_BYTES_def MAX_ISSUE_CULPRIT_BYTES_def MAX_ISSUE_RELEASE_BYTES_def)

lemma sample_codec_laws:
  "codec_laws (ev_json sample_issue_env) (ev_zstd sample_issue_env) (grouping_value sample_grouping)"
  by (simp add: codec_laws_def sample_issue_env_def)

lemma sample_valid_text: "utf8_valid ''e''"
  by (rule utf8_valid_ascii) (simp add: is_ascii_def)

lemma sample_occurrences:
  assumes "list_all timestamp_ok ts"
  shows "occurrences_of sample_issue_env 7 (replicate 16 0) (map sample_occurrence ts)"
proof -
  have "occurrence_ok (sample_occurrence t)" if "timestamp_ok t" for t
    using that sample_valid_text
    by (simp add: sample_occurrence_def occurrence_ok_def grouping_key_ok_def text_ok_def MAX_ISSUE_TITLE_BYTES_def)
  with assms sample_codec_laws show ?thesis
    by (simp add: occurrences_of_def list_all_iff sample_occurrence_def)
qed

lemma sample_verified:
  "issue_verified sample_issue_env 7 \<lparr>gk_revision = 1, gk_digest = replicate 32 0\<rparr> (replicate 16 0)"
proof -
  obtain j where "derive_issue_id (\<lambda>_. replicate 32 0) 7 \<lparr>gk_revision = 1, gk_digest = replicate 32 0\<rparr>
      = Some (take 16 (replicate 32 0))"
    using derive_issue_id_total[of "\<lparr>gk_revision = 1, gk_digest = replicate 32 0\<rparr>" "\<lambda>_. replicate 32 0" 7] by auto
  then show ?thesis by (simp add: issue_verified_def verify_issue_id_def sample_issue_env_def)
qed

definition sample_body :: bytes where
  "sample_body = [1, 0, 123, 125]"

lemma sample_encode:
  "encode_json (ev_json sample_issue_env) (ev_zstd sample_issue_env) (grouping_value sample_grouping)
     (cc_min_savings (ev_codec sample_issue_env)) (cc_max_decoded (ev_codec sample_issue_env)) = Inr (sample_body, [123, 125])"
  by (simp add: encode_json_def Let_def sample_issue_env_def IssueCodecConfig_default_def sample_body_def)

lemma sample_creates:
  assumes "list_all timestamp_ok (t # ts)" "length ts < 100"
  shows "\<exists>s db. apply_batch sample_issue_env (map sample_occurrence (t # ts)) no_issues = Inr (Mutation_Created, s, None, db)"
proof -
  have sum: "sum_list (map io_increment (map sample_occurrence ts)) = length ts"
    by (induction ts) (simp_all add: sample_occurrence_def)
  have "batch_consistent sample_issue_env (sample_occurrence t) (sample_occurrence t # map sample_occurrence ts)"
    using sample_verified assms(2)
    by (simp add: batch_consistent_def MAX_OCCURRENCE_BATCH_def list_all_iff sample_occurrence_def)
  moreover have "sum_list (map io_increment (sample_occurrence t # map sample_occurrence ts)) \<le> i64_max"
    using assms(2) sum by (simp add: sample_occurrence_def)
  ultimately show ?thesis
    using apply_batch_creates[OF sample_codec, of 7 "replicate 16 0" "sample_occurrence t" "map sample_occurrence ts" no_issues]
      sample_occurrences[OF assms(1)] sample_encode
    by (simp add: no_issues_def sample_occurrence_def sample_issue_env_def)
qed

lemma sample_times: "list_all timestamp_ok [1000, 500]"
  by (simp add: timestamp_ok_def MIN_TIMESTAMP_MILLIS_def MAX_TIMESTAMP_MILLIS_def)

theorem issue_batches_summarise_witness:
  "\<exists>db r s. apply_batches sample_issue_env [[sample_occurrence 1000, sample_occurrence 500]] no_issues = Inr db
     \<and> db_issues db (7, replicate 16 0) = Some r \<and> decode_issue sample_issue_env r = Inr s
     \<and> is_occurrence_count s = 2 \<and> is_first_seen s = 500 \<and> is_last_seen s = 1000"
proof -
  obtain s db where b: "apply_batch sample_issue_env [sample_occurrence 1000, sample_occurrence 500] no_issues
      = Inr (Mutation_Created, s, None, db)"
    using sample_creates[OF sample_times] by auto
  have ok: "list_all (occurrences_of sample_issue_env 7 (replicate 16 0)) [[sample_occurrence 1000, sample_occurrence 500]]"
    using sample_occurrences[OF sample_times] by simp
  from b have run: "apply_batches sample_issue_env [[sample_occurrence 1000, sample_occurrence 500]] no_issues = Inr db"
    by simp
  have "(500::int, x) \<le> (1000, x)" for x :: bytes by (simp add: less_eq_prod_def)
  then have "Min (seen_key ` set [sample_occurrence 500, sample_occurrence 1000]) = (500, replicate 16 1)"
    "Max (seen_key ` set [sample_occurrence 500, sample_occurrence 1000]) = (1000, replicate 16 1)"
    by (simp_all add: seen_key_def sample_occurrence_def min_def max_def)
  with run issue_batches_summarise[OF sample_codec ok _ run, of "[sample_occurrence 500, sample_occurrence 1000]"]
  show ?thesis by (auto simp: no_issues_def sample_occurrence_def)
qed

definition sample_issue_row :: "issue_row" where
  "sample_issue_row = new_row sample_issue_env (sample_occurrence 1000) (sample_occurrence 1000) (sample_occurrence 1000) (int 1) sample_body"

definition one_issue :: issue_tables where
  "one_issue = no_issues\<lparr>db_issues := [(7, replicate 16 0) \<mapsto> sample_issue_row]\<rparr>"

definition sample_command :: "issue_command_action \<Rightarrow> issue_command" where
  "sample_command a = \<lparr>ic_project_id = 7, ic_issue_id = replicate 16 0, ic_idempotency_key = replicate 16 2,
     ic_actor = ActorRef_system, ic_at = 2000, ic_action = a\<rparr>"

lemma sample_row_decodes:
  "\<exists>s. decode_issue sample_issue_env sample_issue_row = Inr s \<and> is_status s = Issue_Open
     \<and> summarises [sample_occurrence 1000] s \<and> is_project_id s = 7 \<and> is_issue_id s = replicate 16 0 \<and> is_regression s = None"
proof -
  have o: "occurrence_ok (sample_occurrence 1000)"
    using sample_occurrences[OF sample_times] by (simp add: occurrences_of_def)
  have g: "io_grouping (sample_occurrence 1000) = sample_grouping"
    and v: "issue_verified sample_issue_env (io_project_id (sample_occurrence 1000)) (io_grouping_key (sample_occurrence 1000))
        (io_issue_id (sample_occurrence 1000))"
    using sample_verified by (simp_all add: sample_occurrence_def)
  note d = decode_new_row(1)[OF _ sample_codec o o o _ v, of 1, unfolded g, OF sample_codec_laws _ sample_encode]
  show ?thesis unfolding sample_issue_row_def
    using d by (simp add: summarises_def seen_key_def sample_occurrence_def)
qed

lemma sample_row_check: "issue_row_check sample_issue_row" "row_widths sample_issue_row" "issue_keys_ok one_issue"
proof -
  have o: "occurrence_ok (sample_occurrence 1000)"
    using sample_occurrences[OF sample_times] by (simp add: occurrences_of_def)
  show "issue_row_check sample_issue_row" unfolding sample_issue_row_def
    by (rule new_row_check[OF o o o]) (simp_all add: sample_body_def sample_issue_env_def)
  show "row_widths sample_issue_row" "issue_keys_ok one_issue"
    by (simp_all add: row_widths_def issue_keys_ok_def sample_issue_row_def new_row_def one_issue_def no_issues_def
        sample_occurrence_def)
qed

lemma sample_command_ok: "command_ok (sample_command Cmd_Resolve)"
  by (simp add: command_ok_def sample_command_def timestamp_ok_def MIN_TIMESTAMP_MILLIS_def MAX_TIMESTAMP_MILLIS_def
      actor_ok_def ActorRef_system_def)


lemma sample_reopens:
  assumes "db_issues db (7, replicate 16 0) = Some r" "issue_row_check r" "decode_issue sample_issue_env r = Inr old"
    "ir_grouping_key r = GroupingKey_to_bytes \<lparr>gk_revision = 1, gk_digest = replicate 32 0\<rparr>"
    "is_project_id old = 7" "is_issue_id old = replicate 16 0" "is_occurrence_count old = 1" "is_regression old = None"
    "db_projects db 7"
  shows "\<exists>kind s db'. apply_occurrence sample_issue_env True True (sample_occurrence 3000) db = (Inr (kind, s), db')"
proof -
  let ?x = "sample_occurrence 3000"
  have "list_all timestamp_ok [3000]"
    by (simp add: timestamp_ok_def MIN_TIMESTAMP_MILLIS_def MAX_TIMESTAMP_MILLIS_def)
  from sample_occurrences[OF this] have occ: "occurrences_of sample_issue_env 7 (replicate 16 0) [?x]" by simp
  have x: "io_project_id ?x = 7" "io_issue_id ?x = replicate 16 0" "io_grouping ?x = sample_grouping" "io_increment ?x = 1"
    "io_grouping_key ?x = \<lparr>gk_revision = 1, gk_digest = replicate 32 0\<rparr>" by (simp_all add: sample_occurrence_def)
  have "batch_consistent sample_issue_env ?x [?x]"
    using sample_verified by (simp add: batch_consistent_def MAX_OCCURRENCE_BATCH_def x)
  then have "\<exists>out. apply_batch sample_issue_env [?x] db = Inr out"
    using assms(7,8) sample_encode
    by (intro apply_batch_updates[OF sample_codec occ assms(1-3) _ assms(5,6)])
      (simp_all add: x assms(4) sample_issue_env_def)
  then show ?thesis using assms(9) by (auto simp: apply_occurrence_def x)
qed

theorem occurrence_reopens_exactly_witness:
  "\<exists>db kind s db'. apply_occurrence sample_issue_env True True (sample_occurrence 3000) db = (Inr (kind, s), db')
    \<and> is_status s = Issue_Open \<and> kind = Mutation_Regressed \<and> map_option rg_count (is_regression s) = Some 1"
proof -
  obtain s where s: "decode_issue sample_issue_env sample_issue_row = Inr s" "summarises [sample_occurrence 1000] s"
      "is_project_id s = 7" "is_issue_id s = replicate 16 0" "is_regression s = None"
    using sample_row_decodes by blast
  define t where "t = s\<lparr>is_status := Issue_Resolved, is_workflow := Some \<lparr>wf_at = 2000, wf_actor = ActorRef_system\<rparr>\<rparr>"
  define r where "r = saved_row t sample_issue_row"
  define db where "db = no_issues\<lparr>db_issues := [(7, replicate 16 0) \<mapsto> r]\<rparr>"
  have ok: "mutable_ok t" "same_identity t s" "summarises [sample_occurrence 1000] t" "is_regression t = None"
      "is_project_id t = 7" "is_issue_id t = replicate 16 0" "is_first_seen t = is_first_seen s" "is_last_seen t = is_last_seen s"
    using decode_issue_ok(1)[OF s(1)] s(2-)
    by (simp_all add: t_def mutable_ok_def same_identity_def summarises_def workflow_ok_def actor_ok_def ActorRef_system_def
        timestamp_ok_def MIN_TIMESTAMP_MILLIS_def MAX_TIMESTAMP_MILLIS_def)
  have dec: "decode_issue sample_issue_env r = Inr t"
    unfolding r_def using s(1) by (intro decode_saved_row[OF s(1) ok(2,1)]) (simp add: t_def decode_issue_iff)
  have "summarises [sample_occurrence 1000] t \<Longrightarrow> is_first_seen t \<le> is_last_seen t \<and> is_occurrence_count t = 1"
    by (auto simp: summarises_def seen_key_def sample_occurrence_def)
  then have le: "is_first_seen t \<le> is_last_seen t" "is_occurrence_count t = 1" using ok(3) by blast+
  have chk: "issue_row_check r" unfolding r_def using sample_row_check(1) ok(1) le(1) by (rule saved_row_check)
  have row: "db_issues db (7, replicate 16 0) = Some r" "db_projects db 7" by (simp_all add: db_def no_issues_def)
  have fields: "ir_grouping_key r = GroupingKey_to_bytes \<lparr>gk_revision = 1, gk_digest = replicate 32 0\<rparr>"
    "ir_grouping_body r = sample_body"
    by (simp_all add: r_def saved_row_def sample_issue_row_def new_row_def sample_occurrence_def)
  obtain kind u db' where run: "apply_occurrence sample_issue_env True True (sample_occurrence 3000) db = (Inr (kind, u), db')"
    using sample_reopens[OF row(1) chk dec fields(1) ok(5,6) le(2) ok(4) row(2)] by blast
  have occ: "occurrences_of sample_issue_env 7 (replicate 16 0) [sample_occurrence 3000]"
    using sample_occurrences[of "[3000]"] by (simp add: timestamp_ok_def MIN_TIMESTAMP_MILLIS_def MAX_TIMESTAMP_MILLIS_def)
  have hist: "issue_history sample_issue_env 7 (replicate 16 0) [sample_occurrence 1000] db"
    using dec ok(3,5,6) row(1) fields(2)
    by (simp add: issue_history_def body_fits_def sample_body_def sample_issue_env_def IssueCodecConfig_default_def)
  have "is_status t = Issue_Resolved" "is_some_and (is_workflow t) (\<lambda>w. io_received_at (sample_occurrence 3000) > wf_at w)"
    by (simp_all add: t_def sample_occurrence_def)
  with occurrence_reopens_exactly[OF run sample_codec occ hist row(1) dec] ok(4) run show ?thesis
    by (intro exI[of _ db] exI[of _ kind] exI[of _ u] exI[of _ db']) simp
qed

end
