(* ===== verification/Finalization.thy ===== *)
theory Finalization
  imports Finalizer Issue_Store Signals
begin

text \<open>
  The PostgreSQL finalization store, \<^verbatim>\<open>crates/postgres/src/finalization.rs\<close>: one transaction that turns
  pending events into finalized ones and, for exactly those events, updates the issues, the hourly
  counters and the release and environment catalogs within their quotas. A transaction is a function on
  the tables that either yields new tables or an error; how the commit ends is an argument.
\<close>

section \<open>Tables\<close>

record catalog_usage =
  cu_release_day :: "int option"
  cu_release_count :: nat
  cu_environment_count :: nat

text \<open>The columns of an event that finalization reads or writes.\<close>

record stored_event =
  se_received_at :: int
  se_state :: int
  se_next_attempt_at :: "int option"
  se_error_code :: "int option"
  se_body :: bytes
  se_issue :: "bytes option"
  se_occurred_at :: "int option"
  se_level :: "int option"
  se_platform :: "int option"
  se_tokens :: "int list"
  se_expire_at :: "int option"
  se_archive_due :: "int option"
  se_archive_segment :: "bytes option"
  se_release :: "bytes option"
  se_environment :: "bytes option"
  se_trace :: "bytes option"
  se_span :: "bytes option"

record hourly_row =
  hr_bucket_id :: bytes
  hr_count :: int
  hr_expire_at :: int

text \<open>
  The sighting columns of a release are null together, so they are two optional pairs.
\<close>

record release_row =
  rl_version :: bytes
  rl_created_at :: int
  rl_activity_at :: int
  rl_first :: "(int \<times> bytes) option"
  rl_last :: "(int \<times> bytes) option"

record environment_row =
  en_name :: bytes
  en_first_seen :: int
  en_last_seen :: int

record finalization_tables =
  ft_projects :: "project_id \<Rightarrow> (nat \<times> int) option"
  ft_usage :: "project_id \<Rightarrow> catalog_usage option"
  ft_events :: "project_id \<times> event_id \<Rightarrow> stored_event option"
  ft_issues :: issue_tables
  ft_hourly :: "project_id \<times> bytes \<times> int \<Rightarrow> hourly_row option"
  ft_releases :: "nat \<times> bytes \<Rightarrow> release_row option"
  ft_release_projects :: "nat \<times> bytes \<Rightarrow> project_id list"
  ft_environments :: "project_id \<times> bytes \<Rightarrow> environment_row option"

record finalize_scope =
  sc_organization :: organization_id
  sc_release_day :: "int option"
  sc_release_count :: nat
  sc_environments :: nat

type_synonym finalize_scopes = "(project_id, finalize_scope) btree_map"

record prepared_event =
  pp_event :: finalize_event
  pp_body :: bytes
  pp_expire :: int
  pp_trace :: "(bytes \<times> bytes) option"

text \<open>What the store needs of its environment beside that of the issue store.\<close>

record finalization_env =
  fv_issues :: issue_env
  fv_codec :: issue_codec_config
  fv_hex_decode :: "string \<Rightarrow> bytes option"

section \<open>Validation\<close>

definition FINALIZE_MAX_BATCH :: nat where "FINALIZE_MAX_BATCH = 10000"
definition DAY_MILLIS :: int where "DAY_MILLIS = 86400000"
definition MAX_RELEASE_PROJECTS :: nat where "MAX_RELEASE_PROJECTS = 256"

definition as_millis :: "duration \<Rightarrow> nat" where "as_millis d = d div 1000000"

definition validate_policy :: "finalization_policy \<Rightarrow> finalization_store_error + unit" where
  "validate_policy p =
     (if fp_event_retention p = 0 \<or> fp_hourly_retention p = 0 \<or> fp_max_releases p = 0 \<or> fp_max_environments p = 0
         \<or> as_millis (fp_event_retention p) > i64_max \<or> as_millis (fp_hourly_retention p) > i64_max
      then Inl FS_InvalidData else Inr ())"

definition add_duration :: "timestamp \<Rightarrow> duration \<Rightarrow> finalization_store_error + int" where
  "add_duration t d =
     (if as_millis d > i64_max then Inl FS_InvalidData
      else let v = t + int (as_millis d) in
        if v > int i64_max then Inl FS_InvalidData
        else map_err (\<lambda>_. FS_InvalidData) (Timestamp_from_unix_millis v))"

text \<open>The start of the hour of a valid time, where \<open>hour_start\<close> does not panic.\<close>

definition hour_of :: "timestamp \<Rightarrow> timestamp" where
  "hour_of t = unwrap_or (hour_start t) t"

definition json_get :: "json \<Rightarrow> string \<Rightarrow> json option" where
  "json_get v k = Option.bind (json_as_object v) (\<lambda>m. map_of m k)"

definition result_ok :: "'e + 'a \<Rightarrow> 'a option" where
  "result_ok r = (case r of Inl _ \<Rightarrow> None | Inr x \<Rightarrow> Some x)"

definition trace_ids :: "finalization_env \<Rightarrow> json \<Rightarrow> (bytes \<times> bytes) option" where
  "trace_ids V v =
     Option.bind (Option.bind (json_get v ''contexts'') (\<lambda>c. json_get c ''trace'')) (\<lambda>trace.
     Option.bind (Option.bind (json_get trace ''trace_id'') json_as_str) (\<lambda>t.
     Option.bind (result_ok (TraceId_parse (fv_hex_decode V) t)) (\<lambda>trace_id.
     Option.bind (Option.bind (json_get trace ''span_id'') json_as_str) (\<lambda>s.
     Option.bind (result_ok (SpanId_parse (fv_hex_decode V) s)) (\<lambda>span_id.
     Some (trace_id, span_id))))))"

definition finalize_row_size :: "bytes \<Rightarrow> nat \<Rightarrow> nat" where
  "finalize_row_size body tokens = min (min (length body + 256) u64_max + tokens * 8) u64_max"

definition prepare_finalize ::
  "finalization_env \<Rightarrow> finalization_policy \<Rightarrow> finalize_event \<Rightarrow> finalization_store_error + prepared_event" where
  "prepare_finalize V policy e =
     (let J = ev_json (fv_issues V); Z = ev_zstd (fv_issues V); x = fe_issue e in
      if io_project_id x \<noteq> fe_project_id e \<or> io_event_id x \<noteq> fe_event_id e
         \<or> io_received_at x \<noteq> fe_received_at e \<or> io_occurred_at x \<noteq> fe_occurred_at e
         \<or> \<not> issue_verified (fv_issues V) (fe_project_id e) (io_grouping_key x) (io_issue_id x)
         \<or> length (fe_search_tokens e) > 16 \<or> \<not> distinct (fe_search_tokens e)
         \<or> is_some_and (fe_environment e) (\<lambda>v. v = [] \<or> length v > 64)
         \<or> length (fe_payload e) > cc_max_decoded (fv_codec V)
      then Inl FS_InvalidData
      else
        and_then (ok_or FS_InvalidData (jo_from_slice J (fe_payload e))) (\<lambda>v.
        if json_as_object v = None then Inl FS_InvalidData
        else
          and_then (map_err (\<lambda>_. FS_InvalidData)
            (encode_json J Z v (cc_min_savings (fv_codec V)) (cc_max_decoded (fv_codec V)))) (\<lambda>(body, canonical).
          if canonical \<noteq> fe_payload e
             \<or> finalize_row_size body (length (fe_search_tokens e)) > cc_max_row (fv_codec V)
          then Inl FS_InvalidData
          else
            and_then (add_duration (fe_received_at e) (fp_event_retention policy)) (\<lambda>expire.
            and_then (add_duration (hour_of (fe_occurred_at e)) (fp_hourly_retention policy)) (\<lambda>_.
            Inr \<lparr>pp_event = e, pp_body = body, pp_expire = expire, pp_trace = trace_ids V v\<rparr>)))))"

fun prepare_batch ::
  "finalization_env \<Rightarrow> finalization_policy \<Rightarrow> (event_key, prepared_event) btree_map \<Rightarrow> finalize_event list
   \<Rightarrow> finalization_store_error + (event_key, prepared_event) btree_map" where
  "prepare_batch V policy m [] = Inr m"
| "prepare_batch V policy m (e # es) =
     and_then (prepare_finalize V policy e) (\<lambda>v.
     if map_of m (FinalizeEvent_key e) \<noteq> None then Inl FS_InvalidData
     else prepare_batch V policy (bt_insert (FinalizeEvent_key e) v m) es)"

section \<open>Scopes and pending events\<close>

fun read_scopes :: "finalization_tables \<Rightarrow> project_id list \<Rightarrow> finalization_store_error + finalize_scopes" where
  "read_scopes db [] = Inr []"
| "read_scopes db (p # ps) = (case ft_projects db p of
       None \<Rightarrow> read_scopes db ps
     | Some (org, state) \<Rightarrow>
         (if state \<noteq> 0 \<and> state \<noteq> 1 then read_scopes db ps
          else and_then (map_err (\<lambda>_. FS_InvalidData) (OrganizationId_new org)) (\<lambda>org.
            and_then (read_scopes db ps) (\<lambda>scopes.
            Inr ((p, \<lparr>sc_organization = org, sc_release_day = None, sc_release_count = 0, sc_environments = 0\<rparr>)
              # scopes)))))"

definition no_usage :: catalog_usage where
  "no_usage = \<lparr>cu_release_day = None, cu_release_count = 0, cu_environment_count = 0\<rparr>"

definition ensure_usage :: "project_id list \<Rightarrow> finalization_tables \<Rightarrow> finalization_tables" where
  "ensure_usage ps db = db\<lparr>ft_usage := foldl (\<lambda>t p. insert_ignore p no_usage t) (ft_usage db) ps\<rparr>"

definition load_usage :: "finalization_tables \<Rightarrow> finalize_scopes \<Rightarrow> finalize_scopes" where
  "load_usage db scopes = map (\<lambda>(p, s). (p, case ft_usage db p of
       None \<Rightarrow> s
     | Some u \<Rightarrow> s\<lparr>sc_release_day := cu_release_day u, sc_release_count := cu_release_count u,
         sc_environments := cu_environment_count u\<rparr>)) scopes"

text \<open>
  The rows of the batch's keys in the eligible projects that are still pending, in key order. The key
  column is generated from the project and the event, so only the time of receipt can disagree.
\<close>

fun select_pending ::
  "finalize_scopes \<Rightarrow> finalization_tables \<Rightarrow> (event_key, prepared_event) btree_map
   \<Rightarrow> finalization_store_error + prepared_event list" where
  "select_pending scopes db [] = Inr []"
| "select_pending scopes db ((k, v) # m) =
     (let e = pp_event v in
      if map_of scopes (fe_project_id e) = None then select_pending scopes db m
      else case ft_events db (fe_project_id e, fe_event_id e) of
          None \<Rightarrow> select_pending scopes db m
        | Some row \<Rightarrow>
            (if se_state row \<noteq> 0 then select_pending scopes db m
             else if se_received_at row \<noteq> fe_received_at e then Inl FS_InvalidData
             else and_then (select_pending scopes db m) (\<lambda>vs. Inr (v # vs))))"

section \<open>Issues and hourly counters\<close>

fun issue_error :: "issue_store_error \<Rightarrow> finalization_store_error" where
  "issue_error IE_IdentityCollision = FS_IdentityCollision"
| "issue_error IE_InvalidData = FS_InvalidData"
| "issue_error IE_NotFound = FS_InvalidData"
| "issue_error IE_Unavailable = FS_Unavailable"

definition issue_key :: "prepared_event \<Rightarrow> project_id \<times> bytes" where
  "issue_key v = (fe_project_id (pp_event v), io_issue_id (fe_issue (pp_event v)))"

definition occurrence_groups :: "prepared_event list \<Rightarrow> issue_occurrence list list" where
  "occurrence_groups vs = map (\<lambda>(k, g). map (\<lambda>v. fe_issue (pp_event v)) g) (bt_group issue_key vs)"

text \<open>The activities to be emitted after the commit, with the project and the identity they belong to.\<close>

type_synonym pending_activity = "project_id \<times> bytes \<times> issue_activity"

fun apply_groups ::
  "issue_env \<Rightarrow> issue_occurrence list list \<Rightarrow> issue_tables
   \<Rightarrow> finalization_store_error + pending_activity list \<times> issue_tables" where
  "apply_groups V [] db = Inr ([], db)"
| "apply_groups V (g # gs) db =
     and_then (map_err issue_error (apply_batch V g db)) (\<lambda>(kind, issue, activity, db).
     and_then (apply_groups V gs db) (\<lambda>(rest, db).
     Inr ((case activity of None \<Rightarrow> [] | Some (aid, a) \<Rightarrow> [(is_project_id issue, aid, a)]) @ rest, db)))"

definition hour_key :: "prepared_event \<Rightarrow> project_id \<times> bytes \<times> timestamp" where
  "hour_key v = (fe_project_id (pp_event v), io_issue_id (fe_issue (pp_event v)), hour_of (fe_occurred_at (pp_event v)))"

definition add_hour ::
  "finalization_env \<Rightarrow> finalization_policy \<Rightarrow> project_id \<times> bytes \<times> timestamp \<Rightarrow> nat \<Rightarrow> finalization_tables
   \<Rightarrow> finalization_store_error + finalization_tables" where
  "add_hour V policy k n db =
     (case k of (project, issue, bucket) \<Rightarrow>
      let bucket_id = derive_hour_bucket_id (ev_blake3 (fv_issues V)) project issue bucket in
      and_then (add_duration bucket (fp_hourly_retention policy)) (\<lambda>expire.
      case ft_hourly db k of
        None \<Rightarrow> Inr (db\<lparr>ft_hourly := (ft_hourly db)(k \<mapsto>
          \<lparr>hr_bucket_id = bucket_id, hr_count = int n, hr_expire_at = expire\<rparr>)\<rparr>)
      | Some h \<Rightarrow>
          (if hr_bucket_id h \<noteq> bucket_id then Inl FS_IdentityCollision
           else if hr_count h + int n > int i64_max then Inl FS_InvalidData
           else Inr (db\<lparr>ft_hourly := (ft_hourly db)(k \<mapsto> h\<lparr>hr_count := hr_count h + int n\<rparr>)\<rparr>))))"

fun update_hourly ::
  "finalization_env \<Rightarrow> finalization_policy \<Rightarrow> (project_id \<times> bytes \<times> timestamp, prepared_event list) btree_map
   \<Rightarrow> finalization_tables \<Rightarrow> finalization_store_error + finalization_tables" where
  "update_hourly V policy [] db = Inr db"
| "update_hourly V policy ((k, g) # gs) db =
     and_then (add_hour V policy k (length g) db) (update_hourly V policy gs)"

section \<open>Catalogs\<close>

definition release_key ::
  "finalization_env \<Rightarrow> finalize_scopes \<Rightarrow> prepared_event \<Rightarrow> (nat \<times> bytes) option" where
  "release_key V scopes v =
     (case (io_release (fe_issue (pp_event v)), map_of scopes (fe_project_id (pp_event v))) of
        (Some version, Some scope) \<Rightarrow>
          Some (sc_organization scope, derive_release_id (ev_blake3 (fv_issues V)) (sc_organization scope) version)
      | _ \<Rightarrow> None)"

text \<open>Events of a project without a scope are invalid; events without a release are left out.\<close>

definition release_groups ::
  "finalization_env \<Rightarrow> finalize_scopes \<Rightarrow> prepared_event list
   \<Rightarrow> finalization_store_error + (nat \<times> bytes, finalize_event list) btree_map" where
  "release_groups V scopes vs =
     (let released = filter (\<lambda>v. io_release (fe_issue (pp_event v)) \<noteq> None) vs in
      if list_ex (\<lambda>v. map_of scopes (fe_project_id (pp_event v)) = None) released then Inl FS_InvalidData
      else Inr (map (\<lambda>(k, g). (k, map pp_event g)) (bt_group (\<lambda>v. the (release_key V scopes v)) released)))"

definition received_day :: "finalize_event \<Rightarrow> int" where
  "received_day e = fe_received_at e div DAY_MILLIS * DAY_MILLIS"

definition release_days :: "finalize_event list \<Rightarrow> (project_id, int) btree_map" where
  "release_days es = foldl (\<lambda>m e. bt_insert (fe_project_id e)
     (case map_of m (fe_project_id e) of None \<Rightarrow> received_day e | Some old \<Rightarrow> min old (received_day e)) m) [] es"

fun admitted_project ::
  "finalize_scopes \<Rightarrow> nat \<Rightarrow> (project_id, int) btree_map \<Rightarrow> (project_id \<times> int) option" where
  "admitted_project scopes limit [] = None"
| "admitted_project scopes limit ((p, day) # ds) =
     (case map_of scopes p of
        Some s \<Rightarrow> (if sc_release_day s \<noteq> Some day \<or> sc_release_count s < limit then Some (p, day)
                   else admitted_project scopes limit ds)
      | None \<Rightarrow> admitted_project scopes limit ds)"

definition occurred_key :: "finalize_event \<Rightarrow> timestamp \<times> event_key" where
  "occurred_key e = (fe_occurred_at e, FinalizeEvent_key e)"

definition count_release ::
  "project_id \<times> int \<Rightarrow> finalize_scopes \<times> finalization_tables
   \<Rightarrow> finalization_store_error + finalize_scopes \<times> finalization_tables" where
  "count_release a st =
     (case (a, st) of ((p, day), (scopes, db)) \<Rightarrow>
      and_then (ok_or FS_InvalidData (map_of scopes p)) (\<lambda>s.
      let n = (if sc_release_day s = Some day then sc_release_count s + 1 else 1) in
      if n > i64_max then Inl FS_InvalidData
      else Inr (bt_insert p (s\<lparr>sc_release_count := n, sc_release_day := Some day\<rparr>) scopes,
        (case ft_usage db p of None \<Rightarrow> db
         | Some u \<Rightarrow> db\<lparr>ft_usage := (ft_usage db)(p \<mapsto> u\<lparr>cu_release_day := Some day, cu_release_count := n\<rparr>)\<rparr>))))"

definition see_release :: "finalize_event \<Rightarrow> finalize_event \<Rightarrow> release_row \<Rightarrow> release_row" where
  "see_release first latest r = r\<lparr>
     rl_first := (case rl_first r of None \<Rightarrow> Some (occurred_key first)
       | Some k \<Rightarrow> Some (if occurred_key first < k then occurred_key first else k)),
     rl_last := (case rl_last r of None \<Rightarrow> Some (occurred_key latest)
       | Some k \<Rightarrow> Some (if occurred_key latest > k then occurred_key latest else k)),
     rl_activity_at := max (rl_activity_at r) (fe_occurred_at latest)\<rparr>"

definition link_projects ::
  "nat \<times> bytes \<Rightarrow> project_id list \<Rightarrow> finalization_tables \<Rightarrow> finalization_store_error + finalization_tables" where
  "link_projects k ps db =
     (let linked = take 257 (ft_release_projects db k);
          projects = remdups (linked @ ps)
      in if length projects > MAX_RELEASE_PROJECTS then Inl FS_InvalidData
         else Inr (db\<lparr>ft_release_projects := (ft_release_projects db)(k :=
           sort (remdups (ft_release_projects db k @ ps)))\<rparr>))"

definition new_release :: "string \<Rightarrow> finalize_event \<Rightarrow> finalize_event \<Rightarrow> release_row" where
  "new_release version first latest =
     \<lparr>rl_version = as_bytes version, rl_created_at = fe_received_at first, rl_activity_at = fe_occurred_at latest,
       rl_first = Some (occurred_key first), rl_last = Some (occurred_key latest)\<rparr>"

definition materialize_release ::
  "nat \<Rightarrow> (nat \<times> bytes) \<times> finalize_event list \<Rightarrow> finalize_scopes \<times> finalization_tables
   \<Rightarrow> finalization_store_error + finalize_scopes \<times> finalization_tables" where
  "materialize_release limit g st =
     (case (g, st) of ((k, es), (scopes, db)) \<Rightarrow>
      case es of [] \<Rightarrow> Inl FS_InvalidData | e # rest \<Rightarrow>
      and_then (ok_or FS_InvalidData (io_release (fe_issue e))) (\<lambda>version.
      if list_ex (\<lambda>x. io_release (fe_issue x) \<noteq> Some version) es then Inl FS_IdentityCollision
      else
        let days = release_days es; admitted = admitted_project scopes limit days;
            first = min_by_key occurred_key e rest; latest = max_by_key occurred_key e rest
        in
        if ft_releases db k = None \<and> admitted = None then Inr (scopes, db)
        else
          and_then (case ft_releases db k of
              None \<Rightarrow> and_then (ok_or FS_InvalidData admitted) (\<lambda>a.
                count_release a (scopes, db\<lparr>ft_releases := (ft_releases db)(k \<mapsto> new_release version first latest)\<rparr>))
            | Some r \<Rightarrow> (if rl_version r \<noteq> as_bytes version then Inl FS_IdentityCollision else Inr (scopes, db)))
          (\<lambda>(scopes, db).
          and_then (ok_or FS_Unavailable (ft_releases db k)) (\<lambda>r.
          and_then (link_projects k (map fst days)
            (db\<lparr>ft_releases := (ft_releases db)(k \<mapsto> see_release first latest r)\<rparr>)) (\<lambda>db.
          Inr (scopes, db))))))"

definition environment_groups ::
  "finalization_env \<Rightarrow> prepared_event list \<Rightarrow> (project_id \<times> bytes, finalize_event list) btree_map" where
  "environment_groups V vs = map (\<lambda>(k, g). (k, map pp_event g))
     (bt_group (\<lambda>v. (fe_project_id (pp_event v),
        derive_environment_id (ev_blake3 (fv_issues V)) (fe_project_id (pp_event v)) (the (fe_environment (pp_event v)))))
       (filter (\<lambda>v. fe_environment (pp_event v) \<noteq> None) vs))"

definition materialize_environment ::
  "nat \<Rightarrow> (project_id \<times> bytes) \<times> finalize_event list \<Rightarrow> finalize_scopes \<times> finalization_tables
   \<Rightarrow> finalization_store_error + finalize_scopes \<times> finalization_tables" where
  "materialize_environment limit g st =
     (case (g, st) of (((p, eid), es), (scopes, db)) \<Rightarrow>
      case es of [] \<Rightarrow> Inl FS_InvalidData | e # rest \<Rightarrow>
      and_then (ok_or FS_InvalidData (fe_environment e)) (\<lambda>name.
      if list_ex (\<lambda>x. fe_environment x \<noteq> Some name) es then Inl FS_IdentityCollision
      else
        let found = ft_environments db (p, eid) in
        if is_some_and found (\<lambda>r. en_name r \<noteq> as_bytes name) then Inl FS_IdentityCollision
        else and_then (ok_or FS_InvalidData (map_of scopes p)) (\<lambda>s.
        if found = None \<and> sc_environments s \<ge> limit then Inr (scopes, db)
        else
          let first = foldl min (fe_occurred_at e) (map fe_occurred_at rest);
              last = foldl max (fe_occurred_at e) (map fe_occurred_at rest)
          in case found of
               Some r \<Rightarrow> Inr (scopes, db\<lparr>ft_environments := (ft_environments db)((p, eid) \<mapsto>
                 r\<lparr>en_first_seen := min (en_first_seen r) first, en_last_seen := max (en_last_seen r) last\<rparr>)\<rparr>)
             | None \<Rightarrow>
                 (let n = sc_environments s + 1 in
                  if n > i64_max then Inl FS_InvalidData
                  else Inr (bt_insert p (s\<lparr>sc_environments := n\<rparr>) scopes,
                    db\<lparr>ft_environments := (ft_environments db)((p, eid) \<mapsto>
                        \<lparr>en_name = as_bytes name, en_first_seen = first, en_last_seen = last\<rparr>),
                      ft_usage := (case ft_usage db p of None \<Rightarrow> ft_usage db
                        | Some u \<Rightarrow> (ft_usage db)(p \<mapsto> u\<lparr>cu_environment_count := n\<rparr>))\<rparr>)))))"

section \<open>Finalizing the rows\<close>

fun level_code :: "event_level \<Rightarrow> int" where
  "level_code Level_Error = 0"
| "level_code Level_Debug = 1"
| "level_code Level_Info = 2"
| "level_code Level_Warning = 3"
| "level_code Level_Fatal = 4"

fun platform_code :: "event_platform \<Rightarrow> int" where
  "platform_code Platform_Python = 1"
| "platform_code Platform_JavaScript = 2"
| "platform_code Platform_Node = 2"
| "platform_code Platform_Native = 3"
| "platform_code Platform_Cocoa = 3"
| "platform_code Platform_Java = 4"
| "platform_code Platform_Php = 5"
| "platform_code Platform_Ruby = 6"
| "platform_code Platform_DotNet = 7"
| "platform_code Platform_Go = 8"
| "platform_code Platform_Rust = 9"
| "platform_code Platform_Other = 0"
| "platform_code Platform_Dart = 0"
| "platform_code (Platform_Custom _) = 0"

definition finalized_row ::
  "finalization_env \<Rightarrow> finalize_scopes \<Rightarrow> finalization_policy \<Rightarrow> prepared_event \<Rightarrow> stored_event \<Rightarrow> stored_event" where
  "finalized_row V scopes policy v row =
     (let e = pp_event v; H = ev_blake3 (fv_issues V) in
      row\<lparr>se_state := 2, se_next_attempt_at := None, se_error_code := None, se_body := pp_body v,
        se_issue := Some (io_issue_id (fe_issue e)), se_occurred_at := Some (fe_occurred_at e),
        se_level := Some (level_code (fe_level e)), se_platform := Some (platform_code (fe_platform e)),
        se_tokens := fe_search_tokens e,
        se_expire_at := (if fp_archive_events policy then None else Some (pp_expire v)),
        se_archive_due := (if fp_archive_events policy then Some (pp_expire v) else None),
        se_archive_segment := None,
        se_release := Option.bind (io_release (fe_issue e)) (\<lambda>r. map_option
          (\<lambda>s. derive_release_id H (sc_organization s) r) (map_of scopes (fe_project_id e))),
        se_environment := map_option (derive_environment_id H (fe_project_id e)) (fe_environment e),
        se_trace := map_option fst (pp_trace v), se_span := map_option snd (pp_trace v)\<rparr>)"

fun finalize_rows ::
  "finalization_env \<Rightarrow> finalize_scopes \<Rightarrow> finalization_policy \<Rightarrow> prepared_event list \<Rightarrow> finalization_tables
   \<Rightarrow> nat \<times> finalization_tables" where
  "finalize_rows V scopes policy [] db = (0, db)"
| "finalize_rows V scopes policy (v # vs) db =
     (let k = (fe_project_id (pp_event v), fe_event_id (pp_event v)) in
      case ft_events db k of
        Some row \<Rightarrow>
          (if se_state row = 0
           then (case finalize_rows V scopes policy vs
                   (db\<lparr>ft_events := (ft_events db)(k \<mapsto> finalized_row V scopes policy v row)\<rparr>) of
                   (n, db) \<Rightarrow> (n + 1, db))
           else finalize_rows V scopes policy vs db)
      | None \<Rightarrow> finalize_rows V scopes policy vs db)"

section \<open>The transaction\<close>

text \<open>A commit is acknowledged, takes effect with its acknowledgement lost, or fails.\<close>

datatype commit_outcome = Commit_Acknowledged | Commit_Lost | Commit_Failed

definition batch_projects :: "(event_key, prepared_event) btree_map \<Rightarrow> project_id list" where
  "batch_projects m = map fst (bt_collect (map (\<lambda>(k, v). (fe_project_id (pp_event v), ())) m))"

definition finalize_pending ::
  "finalization_env \<Rightarrow> finalization_policy \<Rightarrow> finalize_scopes \<Rightarrow> prepared_event list \<Rightarrow> finalization_tables
   \<Rightarrow> finalization_store_error + pending_activity list \<times> finalization_tables" where
  "finalize_pending V policy scopes pending db =
     and_then (apply_groups (fv_issues V) (occurrence_groups pending) (ft_issues db)) (\<lambda>(activities, issues).
     and_then (update_hourly V policy (bt_group hour_key pending) (db\<lparr>ft_issues := issues\<rparr>)) (\<lambda>db.
     and_then (release_groups V scopes pending) (\<lambda>releases.
     and_then (try_fold (materialize_release (fp_max_releases policy)) releases (scopes, db)) (\<lambda>(scopes, db).
     and_then (try_fold (materialize_environment (fp_max_environments policy)) (environment_groups V pending)
       (scopes, db)) (\<lambda>(scopes, db).
     case finalize_rows V scopes policy pending db of (finalized, db) \<Rightarrow>
       if finalized \<noteq> length pending then Inl FS_Unavailable else Inr (activities, db))))))"

definition emit_activities ::
  "(bytes \<Rightarrow> bool) \<Rightarrow> pending_activity list \<Rightarrow> issue_tables \<Rightarrow> issue_tables" where
  "emit_activities emitted as db = foldl (\<lambda>db (project, aid, a). emit_activity (emitted aid) project aid a db) db as"

definition finalize_inner ::
  "finalization_env \<Rightarrow> finalization_policy \<Rightarrow> commit_outcome \<Rightarrow> (bytes \<Rightarrow> bool) \<Rightarrow> finalize_event list
   \<Rightarrow> finalization_tables \<Rightarrow> (finalization_store_error + finalize_result) \<times> finalization_tables" where
  "finalize_inner V policy outcome emitted es db =
     (let requested = length es in
      case and_then (validate_policy policy) (\<lambda>_.
        if \<not> (1 \<le> requested \<and> requested \<le> FINALIZE_MAX_BATCH) then Inl FS_InvalidData
        else and_then (prepare_batch V policy [] es) (\<lambda>prepared.
          and_then (read_scopes db (batch_projects prepared)) (\<lambda>scopes.
          let db1 = ensure_usage (map fst scopes) db; scopes = load_usage db1 scopes in
          and_then (select_pending scopes db1 prepared) (\<lambda>pending.
          Inr (scopes, db1, pending))))) of
        Inl err \<Rightarrow> (Inl err, db)
      | Inr (scopes, db1, pending) \<Rightarrow>
          (if pending = []
           then (if outcome = Commit_Acknowledged
                 then (Inr \<lparr>fz_requested = requested, fz_pending = 0, fz_finalized = 0,
                   fz_skipped_completed = requested\<rparr>, db)
                 else (Inl FS_Unavailable, db))
           else case finalize_pending V policy scopes pending db1 of
               Inl err \<Rightarrow> (Inl err, db)
             | Inr (activities, db') \<Rightarrow>
                 (case outcome of
                    Commit_Failed \<Rightarrow> (Inl FS_Unavailable, db)
                  | Commit_Lost \<Rightarrow> (Inl FS_Unavailable, db')
                  | Commit_Acknowledged \<Rightarrow>
                      (Inr \<lparr>fz_requested = requested, fz_pending = length pending, fz_finalized = length pending,
                         fz_skipped_completed = requested - length pending\<rparr>,
                       db'\<lparr>ft_issues := emit_activities emitted activities (ft_issues db')\<rparr>))))"

end
