(* ===== verification/Finalization_Accounting.thy ===== *)
theory Finalization_Accounting
  imports Finalization
begin

text \<open>
  What the finalization transaction guarantees: every event is accounted for exactly once. The tables
  are related to the list of events finalized so far, and the relation is kept by every call, whatever
  becomes of its commit.
\<close>

section \<open>Preparing a batch\<close>

definition event_row_key :: "finalize_event \<Rightarrow> project_id \<times> event_id" where
  "event_row_key e = (fe_project_id e, fe_event_id e)"

lemma FinalizeEvent_key_row_key: "event_row_key a = event_row_key b \<Longrightarrow> FinalizeEvent_key a = FinalizeEvent_key b"
  by (simp add: event_row_key_def FinalizeEvent_key_def)

lemma distinct_row_keys: "distinct (map FinalizeEvent_key es) \<Longrightarrow> distinct (map event_row_key es)"
  by (induction es) (auto dest: FinalizeEvent_key_row_key)

lemma prepare_finalize_event:
  assumes "prepare_finalize V policy e = Inr v"
  shows "pp_event v = e" "io_project_id (fe_issue e) = fe_project_id e"
    "io_occurred_at (fe_issue e) = fe_occurred_at e"
    "\<exists>t. add_duration (hour_of (fe_occurred_at e)) (fp_hourly_retention policy) = Inr t"
  using assms
  by (auto simp: prepare_finalize_def Let_def and_then_eq_Inr split: if_splits)

lemma prepare_batch_ok:
  assumes "prepare_batch V policy m es = Inr m'" "bt_ok m" "\<forall>(k, v)\<in>set m. k = FinalizeEvent_key (pp_event v)"
  shows "bt_ok m' \<and> (\<forall>(k, v)\<in>set m'. k = FinalizeEvent_key (pp_event v))
    \<and> pp_event ` snd ` set m' = pp_event ` snd ` set m \<union> set es \<and> distinct (map FinalizeEvent_key es)
    \<and> length m' = length m + length es"
proof -
  have fresh: "set (bt_insert k v m) = insert (k, v) (set m) \<and> length (bt_insert k v m) = Suc (length m)"
    if "map_of m k = None" for k v and m :: "(event_key, prepared_event) btree_map"
    using that by (induction m) (auto split: if_splits)
  have "bt_ok m' \<and> (\<forall>(k, v)\<in>set m'. k = FinalizeEvent_key (pp_event v))
    \<and> pp_event ` snd ` set m' = pp_event ` snd ` set m \<union> set es \<and> distinct (map FinalizeEvent_key es)
    \<and> (\<forall>e\<in>set es. map_of m (FinalizeEvent_key e) = None) \<and> length m' = length m + length es"
    using assms
  proof (induction V policy m es rule: prepare_batch.induct)
    case (2 V policy m e es)
    obtain v where v: "prepare_finalize V policy e = Inr v" "map_of m (FinalizeEvent_key e) = None"
        "prepare_batch V policy (bt_insert (FinalizeEvent_key e) v m) es = Inr m'"
      using "2.prems"(1) by (auto simp: and_then_eq_Inr split: if_splits)
    note pe = prepare_finalize_event(1)[OF v(1)]
    have "\<forall>(k, v)\<in>set (bt_insert (FinalizeEvent_key e) v m). k = FinalizeEvent_key (pp_event v)"
      using "2.prems"(3) by (auto simp: fresh[OF v(2)] pe)
    from "2.IH"[OF _ v(3) bt_ok_insert[OF "2.prems"(2)] this] v(2)
    have ih: "bt_ok m'" "\<forall>(k, v)\<in>set m'. k = FinalizeEvent_key (pp_event v)"
      "pp_event ` snd ` set m' = pp_event ` snd ` set (bt_insert (FinalizeEvent_key e) v m) \<union> set es"
      "distinct (map FinalizeEvent_key es)" "\<forall>x\<in>set es. map_of (bt_insert (FinalizeEvent_key e) v m) (FinalizeEvent_key x) = None"
      "length m' = length (bt_insert (FinalizeEvent_key e) v m) + length es"
      by simp_all
    have "FinalizeEvent_key e \<notin> FinalizeEvent_key ` set es" "\<forall>x\<in>set es. map_of m (FinalizeEvent_key x) = None"
      using ih(5) by (auto split: if_splits)
    with ih v(2) show ?case by (auto simp: fresh[OF v(2)] pe)
  qed simp
  then show ?thesis by blast
qed

section \<open>Pending events\<close>

definition is_pending :: "finalize_scopes \<Rightarrow> finalization_tables \<Rightarrow> prepared_event \<Rightarrow> bool" where
  "is_pending scopes db v = (map_of scopes (fe_project_id (pp_event v)) \<noteq> None
     \<and> is_some_and (ft_events db (event_row_key (pp_event v))) (\<lambda>r. se_state r = 0))"

lemma select_pending_exact:
  "select_pending scopes db m = Inr vs \<Longrightarrow> vs = filter (is_pending scopes db) (map snd m)"
  by (induction scopes db m arbitrary: vs rule: select_pending.induct)
    (auto simp: is_pending_def event_row_key_def Let_def and_then_eq_Inr split: if_splits option.splits)

section \<open>Issues\<close>

definition prepared_ok :: "finalization_env \<Rightarrow> prepared_event \<Rightarrow> bool" where
  "prepared_ok V v = occurrences_of (fv_issues V) (fe_project_id (pp_event v)) (io_issue_id (fe_issue (pp_event v)))
     [fe_issue (pp_event v)]"

lemma apply_batch_frame:
  assumes V: "codec_fits (ev_codec V)" and xs: "occurrences_of V p i b" and h: "issue_history V p i xs db"
    and run: "apply_batch V b db = Inr (kind, issue, activity, db')" and k: "k \<noteq> (p, i)"
  shows "db_issues db' k = db_issues db k"
proof -
  obtain x rest where b: "b = x # rest" using run by (cases b) (simp_all add: apply_batch_def)
  have pi: "io_project_id x = p" "io_issue_id x = i" using xs by (simp_all add: b occurrences_of_def)
  have key: "is_project_id issue = p" "is_issue_id issue = i"
    using apply_batch_history(1,2)[OF V xs h run] by (auto simp: issue_history_def split: option.splits)
  show ?thesis using run[unfolded b]
  proof (cases rule: apply_batch_cases)
    case (created body canonical)
    then show ?thesis using k by (simp add: insert_transition_def Let_def pi)
  next
    case (merged r old)
    obtain db1 where u: "save_issue issue db = Inr db1" "db_issues db' = db_issues db1"
      using merged(5) by (rule apply_issue_update_cases)
    then show ?thesis using k save_issue_ok(1)[OF u(1)] merged(1) by (simp add: key pi)
  qed
qed

lemma issue_history_cong:
  "db_issues db (p, i) = db_issues db' (p, i) \<Longrightarrow> issue_history V p i xs db = issue_history V p i xs db'"
  by (simp add: issue_history_def)

lemma apply_groups_history:
  assumes "codec_fits (ev_codec V)" "distinct (map fst m)"
    "\<forall>((p, i), g)\<in>set m. occurrences_of V p i g"
    "\<forall>p i. issue_history V p i (h (p, i)) db"
    "apply_groups V (map snd m) db = Inr (as, db')"
  shows "issue_history V p i (h (p, i) @ unwrap_or (map_of m (p, i)) []) db'"
  using assms
proof (induction m arbitrary: db as h p i)
  case (Cons kg m)
  obtain q j g where kg: "kg = ((q, j), g)" by (metis prod.exhaust)
  obtain kind issue a d where d: "apply_batch V g db = Inr (kind, issue, a, d)" "\<exists>as. apply_groups V (map snd m) d = Inr (as, db')"
    using Cons.prems(5) by (auto simp: kg and_then_eq_Inr map_err_def split: sum.splits)
  have g: "occurrences_of V q j g" and hq: "issue_history V q j (h (q, j)) db"
    using Cons.prems(3,4) by (auto simp: kg)
  let ?h = "h((q, j) := h (q, j) @ g)"
  have hist: "\<forall>p i. issue_history V p i (?h (p, i)) d"
  proof (intro allI)
    fix p i
    show "issue_history V p i (?h (p, i)) d"
    proof (cases "(p, i) = (q, j)")
      case True
      then show ?thesis using apply_batch_history(1)[OF Cons.prems(1) g hq d(1)] by simp
    next
      case False
      then show ?thesis
        using Cons.prems(4) issue_history_cong[of d p i db V] apply_batch_frame[OF Cons.prems(1) g hq d(1) False] by auto
    qed
  qed
  have "map_of m (q, j) = None" using Cons.prems(2) by (auto simp: kg map_of_eq_None_iff)
  with Cons.IH[of ?h d _ p i] d(2) hist Cons.prems(1-3) show ?case
    by (cases "(p, i) = (q, j)") (auto simp: kg)
qed simp

lemma occurrence_groups_snd:
  "occurrence_groups vs = map snd (map (\<lambda>(k, g). (k, map (\<lambda>v. fe_issue (pp_event v)) g)) (bt_group issue_key vs))"
  by (simp add: occurrence_groups_def case_prod_unfold)

lemma bt_group_member:
  assumes "(k, g) \<in> set (bt_group key vs)"
  shows "g = filter (\<lambda>v. key v = k) vs"
proof -
  have "map_of (bt_group key vs) k = Some g"
    using bt_ok_distinct[OF bt_group_ok] assms by (rule map_of_is_SomeI)
  then show ?thesis by (auto simp: map_of_bt_group split: if_splits)
qed

section \<open>Hourly counters\<close>

definition hour_count :: "finalization_tables \<Rightarrow> project_id \<times> bytes \<times> timestamp \<Rightarrow> int" where
  "hour_count db k = (case ft_hourly db k of None \<Rightarrow> 0 | Some h \<Rightarrow> hr_count h)"

lemma add_hour_ok:
  assumes "add_hour V policy k n db = Inr db'"
  shows "hour_count db' q = hour_count db q + (if q = k then int n else 0)"
    "ft_events db' = ft_events db" "ft_issues db' = ft_issues db" "ft_projects db' = ft_projects db"
proof -
  obtain p i b where k: "k = (p, i, b)" by (cases k)
  have "hour_count db' q = hour_count db q + (if q = k then int n else 0)
    \<and> ft_events db' = ft_events db \<and> ft_issues db' = ft_issues db \<and> ft_projects db' = ft_projects db"
    using assms
    by (cases "ft_hourly db k") (auto simp: k add_hour_def hour_count_def and_then_eq_Inr Let_def split: if_splits)
  then show "hour_count db' q = hour_count db q + (if q = k then int n else 0)"
    "ft_events db' = ft_events db" "ft_issues db' = ft_issues db" "ft_projects db' = ft_projects db" by blast+
qed

lemma update_hourly_ok:
  assumes "update_hourly V policy m db = Inr db'" "distinct (map fst m)"
  shows "hour_count db' q = hour_count db q + int (length (unwrap_or (map_of m q) []))"
    "ft_events db' = ft_events db" "ft_issues db' = ft_issues db" "ft_projects db' = ft_projects db"
proof -
  have "hour_count db' q = hour_count db q + int (length (unwrap_or (map_of m q) []))
    \<and> ft_events db' = ft_events db \<and> ft_issues db' = ft_issues db \<and> ft_projects db' = ft_projects db"
    using assms
  proof (induction V policy m db rule: update_hourly.induct)
    case (2 V policy k g gs db)
    obtain d where d: "add_hour V policy k (length g) db = Inr d" "update_hourly V policy gs d = Inr db'"
      using "2.prems"(1) by (auto simp: and_then_eq_Inr)
    have "map_of gs k = None" using "2.prems"(2) by (simp add: map_of_eq_None_iff)
    with "2.IH"[OF d(2)] "2.prems"(2) add_hour_ok[OF d(1)] show ?case by simp
  qed simp
  then show "hour_count db' q = hour_count db q + int (length (unwrap_or (map_of m q) []))"
    "ft_events db' = ft_events db" "ft_issues db' = ft_issues db" "ft_projects db' = ft_projects db" by blast+
qed

section \<open>Catalogs\<close>

text \<open>The tables the catalogs leave alone.\<close>

definition core_tables where
  "core_tables db = (ft_events db, ft_issues db, ft_projects db, ft_hourly db)"

lemma count_release_core:
  "count_release a (scopes, db) = Inr (scopes', db') \<Longrightarrow> core_tables db' = core_tables db \<and> ft_releases db' = ft_releases db"
  by (auto simp: count_release_def core_tables_def and_then_eq_Inr Let_def split: prod.splits option.splits if_splits)

lemma link_projects_core:
  "link_projects k ps db = Inr db' \<Longrightarrow> core_tables db' = core_tables db \<and> ft_usage db' = ft_usage db"
  by (auto simp: link_projects_def core_tables_def Let_def split: if_splits)

lemma materialize_release_cases:
  assumes "materialize_release limit (k, es) (scopes, db) = Inr (scopes', db')"
  obtains (refused) "ft_releases db k = None" "admitted_project scopes limit (release_days es) = None"
      "scopes' = scopes" "db' = db"
  | (known) r first latest where "ft_releases db k = Some r" "scopes' = scopes"
      "link_projects k (map fst (release_days es)) (db\<lparr>ft_releases := (ft_releases db)(k \<mapsto> see_release first latest r)\<rparr>) = Inr db'"
  | (created) a r d version first latest where "ft_releases db k = None" "admitted_project scopes limit (release_days es) = Some a"
      "count_release a (scopes, db\<lparr>ft_releases := (ft_releases db)(k \<mapsto> new_release version first latest)\<rparr>) = Inr (scopes', d)"
      "link_projects k (map fst (release_days es)) (d\<lparr>ft_releases := (ft_releases d)(k \<mapsto> see_release first latest r)\<rparr>) = Inr db'"
proof (cases es)
  case Nil
  then show ?thesis using assms by (simp add: materialize_release_def)
next
  case (Cons e rest)
  obtain version where v: "io_release (fe_issue e) = Some version"
    using assms by (cases "io_release (fe_issue e)") (simp_all add: materialize_release_def Cons)
  let ?first = "min_by_key occurred_key e rest" and ?latest = "max_by_key occurred_key e rest"
  have same: "\<not> list_ex (\<lambda>x. io_release (fe_issue x) \<noteq> Some version) es"
    using assms unfolding materialize_release_def Cons by (simp add: v split: if_splits)
  show ?thesis
  proof (cases "ft_releases db k")
    case (Some r)
    have "rl_version r = as_bytes version"
      using assms same by (simp add: materialize_release_def Cons v Some split: if_splits)
    then have "link_projects k (map fst (release_days es)) (db\<lparr>ft_releases := (ft_releases db)(k \<mapsto> see_release ?first ?latest r)\<rparr>) = Inr db'
        \<and> scopes' = scopes"
      using assms same by (simp add: materialize_release_def Cons v Some Let_def and_then_eq_Inr)
    then show ?thesis using Some by (intro known[of r ?first ?latest]) simp_all
  next
    case None
    show ?thesis
    proof (cases "admitted_project scopes limit (release_days es)")
      case no: None
      then have "scopes' = scopes" "db' = db"
        using assms same None by (simp_all add: materialize_release_def Cons v Let_def)
      then show ?thesis using None no by (intro refused)
    next
      case (Some a)
      let ?d = "db\<lparr>ft_releases := (ft_releases db)(k \<mapsto> new_release version ?first ?latest)\<rparr>"
      obtain sc d where c: "count_release a (scopes, ?d) = Inr (sc, d)"
        using assms same None Some
        by (cases "count_release a (scopes, ?d)") (auto simp: materialize_release_def Cons v Let_def)
      then obtain r where r: "ft_releases d k = Some r" "sc = scopes'"
          "link_projects k (map fst (release_days es)) (d\<lparr>ft_releases := (ft_releases d)(k \<mapsto> see_release ?first ?latest r)\<rparr>) = Inr db'"
        using assms same None Some
        by (cases "ft_releases d k") (auto simp: materialize_release_def Cons v Let_def and_then_eq_Inr)
      then show ?thesis using None Some c by (intro created[of a version ?first ?latest d r]) simp_all
    qed
  qed
qed

lemma core_tables_releases [simp]: "core_tables (db\<lparr>ft_releases := t\<rparr>) = core_tables db"
  by (simp add: core_tables_def)

lemma materialize_release_core:
  assumes "materialize_release limit g (scopes, db) = Inr (scopes', db')"
  shows "core_tables db' = core_tables db"
proof -
  obtain k es where g: "g = (k, es)" by fastforce
  show ?thesis using assms[unfolded g]
    by (cases rule: materialize_release_cases) (auto dest!: link_projects_core count_release_core)
qed

lemma materialize_environment_cases:
  assumes "materialize_environment limit ((p, eid), es) (scopes, db) = Inr (scopes', db')"
  obtains (refused) s where "map_of scopes p = Some s" "ft_environments db (p, eid) = None" "limit \<le> sc_environments s"
      "scopes' = scopes" "db' = db"
  | (known) r r' where "ft_environments db (p, eid) = Some r" "scopes' = scopes"
      "db' = db\<lparr>ft_environments := (ft_environments db)((p, eid) \<mapsto> r')\<rparr>" "en_name r' = en_name r"
  | (created) s r where "map_of scopes p = Some s" "ft_environments db (p, eid) = None" "sc_environments s < limit"
      "scopes' = bt_insert p (s\<lparr>sc_environments := sc_environments s + 1\<rparr>) scopes"
      "db' = db\<lparr>ft_environments := (ft_environments db)((p, eid) \<mapsto> r),
         ft_usage := (case ft_usage db p of None \<Rightarrow> ft_usage db
           | Some u \<Rightarrow> (ft_usage db)(p \<mapsto> u\<lparr>cu_environment_count := sc_environments s + 1\<rparr>))\<rparr>"
proof (cases es)
  case Nil
  then show ?thesis using assms by (simp add: materialize_environment_def)
next
  case (Cons e rest)
  obtain name where v: "fe_environment e = Some name"
    using assms by (cases "fe_environment e") (simp_all add: materialize_environment_def Cons)
  have same: "\<not> list_ex (\<lambda>x. fe_environment x \<noteq> Some name) es"
    using assms unfolding materialize_environment_def Cons by (simp add: v split: if_splits)
  have eq: "\<not> is_some_and (ft_environments db (p, eid)) (\<lambda>r. en_name r \<noteq> as_bytes name)"
    using assms same unfolding materialize_environment_def Cons by (simp add: v Let_def split: if_splits)
  obtain s where s: "map_of scopes p = Some s"
    using assms same eq by (cases "map_of scopes p") (simp_all add: materialize_environment_def Cons v Let_def)
  show ?thesis
  proof (cases "ft_environments db (p, eid)")
    case (Some r)
    let ?r = "r\<lparr>en_first_seen := min (en_first_seen r) (foldl min (fe_occurred_at e) (map fe_occurred_at rest)),
      en_last_seen := max (en_last_seen r) (foldl max (fe_occurred_at e) (map fe_occurred_at rest))\<rparr>"
    show ?thesis
      using assms same eq s Some by (intro known[of r ?r]) (auto simp: materialize_environment_def Cons v Let_def)
  next
    case None
    show ?thesis
    proof (cases "limit \<le> sc_environments s")
      case True
      then show ?thesis using assms same None s by (intro refused) (simp_all add: materialize_environment_def Cons v Let_def)
    next
      case False
      let ?r = "\<lparr>en_name = as_bytes name, en_first_seen = foldl min (fe_occurred_at e) (map fe_occurred_at rest),
        en_last_seen = foldl max (fe_occurred_at e) (map fe_occurred_at rest)\<rparr>"
      have "scopes' = bt_insert p (s\<lparr>sc_environments := sc_environments s + 1\<rparr>) scopes
        \<and> db' = db\<lparr>ft_environments := (ft_environments db)((p, eid) \<mapsto> ?r),
         ft_usage := (case ft_usage db p of None \<Rightarrow> ft_usage db
           | Some u \<Rightarrow> (ft_usage db)(p \<mapsto> u\<lparr>cu_environment_count := sc_environments s + 1\<rparr>))\<rparr>"
        using assms same None s False
        by (auto simp: materialize_environment_def Cons v Let_def split: if_splits option.split)
      then show ?thesis using None s False by (intro created[of s ?r]) simp_all
    qed
  qed
qed

lemma materialize_environment_core:
  assumes "materialize_environment limit g (scopes, db) = Inr (scopes', db')"
  shows "core_tables db' = core_tables db"
proof -
  obtain p i es where g: "g = ((p, i), es)" by (metis prod.exhaust)
  show ?thesis using assms[unfolded g]
    by (cases rule: materialize_environment_cases) (simp_all add: core_tables_def)
qed

lemma try_fold_keeps:
  assumes "try_fold f gs s = Inr s'" "\<And>g s s'. f g s = Inr s' \<Longrightarrow> P s' = P s"
  shows "P s' = P s"
  using assms
proof (induction f gs s rule: try_fold.induct)
  case (2 f u us s)
  then obtain x where "f u s = Inr x" "try_fold f us x = Inr s'" by (auto simp: and_then_eq_Inr)
  with 2 show ?case by metis
qed simp

lemma try_fold_core:
  assumes "try_fold f gs (scopes, db) = Inr (scopes', db')"
    "\<And>g sc d sc' d'. f g (sc, d) = Inr (sc', d') \<Longrightarrow> core_tables d' = core_tables d"
  shows "core_tables db' = core_tables db"
proof -
  have "(\<lambda>(sc, d). core_tables d) (scopes', db') = (\<lambda>(sc, d). core_tables d) (scopes, db)"
    using assms(1) by (rule try_fold_keeps) (auto simp: assms(2))
  then show ?thesis by simp
qed

section \<open>Rows\<close>

lemma finalize_rows_ok:
  assumes "finalize_rows V scopes policy vs db = (n, db')" "distinct (map (event_row_key \<circ> pp_event) vs)"
    "\<forall>v\<in>set vs. is_some_and (ft_events db (event_row_key (pp_event v))) (\<lambda>r. se_state r = 0)"
  shows "n = length vs \<and> ft_issues db' = ft_issues db \<and> ft_projects db' = ft_projects db \<and> ft_hourly db' = ft_hourly db
    \<and> (\<forall>v\<in>set vs. is_some_and (ft_events db' (event_row_key (pp_event v))) (\<lambda>r. se_state r = 2))
    \<and> (\<forall>k. k \<notin> (event_row_key \<circ> pp_event) ` set vs \<longrightarrow> ft_events db' k = ft_events db k)"
  using assms
proof (induction V scopes policy vs db arbitrary: n rule: finalize_rows.induct)
  case (2 V scopes policy v vs db)
  let ?k = "event_row_key (pp_event v)"
  obtain row where row: "ft_events db ?k = Some row" "se_state row = 0"
    using "2.prems"(3) by (cases "ft_events db ?k") auto
  let ?d = "db\<lparr>ft_events := (ft_events db)(?k \<mapsto> finalized_row V scopes policy v row)\<rparr>"
  obtain m where m: "finalize_rows V scopes policy vs ?d = (m, db')" "n = m + 1"
    using "2.prems"(1) row by (auto simp: event_row_key_def Let_def split: prod.splits)
  have "\<forall>w\<in>set vs. is_some_and (ft_events ?d (event_row_key (pp_event w))) (\<lambda>r. se_state r = 0)"
  proof
    fix w assume w: "w \<in> set vs"
    then have "event_row_key (pp_event w) \<noteq> ?k" using "2.prems"(2) by (simp add: image_iff) metis
    then show "is_some_and (ft_events ?d (event_row_key (pp_event w))) (\<lambda>r. se_state r = 0)"
      using "2.prems"(3) w by simp
  qed
  moreover have "distinct (map (event_row_key \<circ> pp_event) vs)" using "2.prems"(2) by (simp add: comp_def)
  ultimately have ih: "m = length vs \<and> ft_issues db' = ft_issues ?d \<and> ft_projects db' = ft_projects ?d \<and> ft_hourly db' = ft_hourly ?d
    \<and> (\<forall>v\<in>set vs. is_some_and (ft_events db' (event_row_key (pp_event v))) (\<lambda>r. se_state r = 2))
    \<and> (\<forall>k. k \<notin> (event_row_key \<circ> pp_event) ` set vs \<longrightarrow> ft_events db' k = ft_events ?d k)"
    using "2.IH"(2)[OF refl row(1)[unfolded event_row_key_def] row(2), folded event_row_key_def, OF m(1)] by blast
  then have keep: "k \<notin> (event_row_key \<circ> pp_event) ` set vs \<Longrightarrow> ft_events db' k = ft_events ?d k" for k by blast
  have "?k \<notin> (event_row_key \<circ> pp_event) ` set vs" using "2.prems"(2) by (simp add: comp_def)
  from keep[OF this] have "is_some_and (ft_events db' ?k) (\<lambda>r. se_state r = 2)"
    by (simp add: finalized_row_def Let_def)
  moreover have "ft_events db' k = ft_events db k" if "k \<notin> (event_row_key \<circ> pp_event) ` set (v # vs)" for k
    using keep[of k] that by simp
  ultimately show ?case using ih m(2) by simp
qed simp

section \<open>Every event is accounted for once\<close>

definition occurrences_in :: "project_id \<Rightarrow> bytes \<Rightarrow> finalize_event list \<Rightarrow> issue_occurrence list" where
  "occurrences_in p i es = map fe_issue (filter (\<lambda>e. (fe_project_id e, io_issue_id (fe_issue e)) = (p, i)) es)"

definition event_hour :: "finalize_event \<Rightarrow> project_id \<times> bytes \<times> timestamp" where
  "event_hour e = (fe_project_id e, io_issue_id (fe_issue e), hour_of (fe_occurred_at e))"

text \<open>
  The tables stand for a list of finalized events: no event occurs twice, each is marked finalized, each
  issue summarises its events, and each hourly counter counts its events.
\<close>

definition accounted :: "finalization_env \<Rightarrow> finalize_event list \<Rightarrow> finalization_tables \<Rightarrow> bool" where
  "accounted V H db = (distinct (map event_row_key H)
     \<and> (\<forall>e\<in>set H. is_some_and (ft_events db (event_row_key e)) (\<lambda>r. se_state r = 2))
     \<and> (\<forall>p i. issue_history (fv_issues V) p i (occurrences_in p i H) (ft_issues db))
     \<and> (\<forall>k. hour_count db k = int (length (filter (\<lambda>e. event_hour e = k) H))))"

definition finalize_event_ok :: "finalization_env \<Rightarrow> finalize_event \<Rightarrow> bool" where
  "finalize_event_ok V e = occurrences_of (fv_issues V) (fe_project_id e) (io_issue_id (fe_issue e)) [fe_issue e]"

lemma occurrences_of_all: "occurrences_of V p i xs \<longleftrightarrow> (\<forall>x\<in>set xs. occurrences_of V p i [x])"
  by (simp add: occurrences_of_def list_all_iff)

lemma pending_groups_ok:
  assumes "\<forall>v\<in>set vs. finalize_event_ok V (pp_event v)"
  shows "\<forall>((p, i), g)\<in>set (map (\<lambda>(k, g). (k, map (\<lambda>v. fe_issue (pp_event v)) g)) (bt_group issue_key vs)).
    occurrences_of (fv_issues V) p i g"
proof clarsimp
  fix p i g assume "((p, i), g) \<in> set (bt_group issue_key vs)"
  then have "g = filter (\<lambda>v. issue_key v = (p, i)) vs" by (rule bt_group_member)
  with assms show "occurrences_of (fv_issues V) p i (map (\<lambda>v. fe_issue (pp_event v)) g)"
    by (subst occurrences_of_all) (auto simp: finalize_event_ok_def issue_key_def)
qed

lemma group_lookup:
  "unwrap_or (map_of (map (\<lambda>(k, g). (k, map f g)) (bt_group key vs)) q) [] = map f (filter (\<lambda>v. key v = q) vs)"
proof -
  have "map_of (map (\<lambda>(k, g). (k, map f g)) m) q = map_option (map f) (map_of m q)" for m
    by (induction m) auto
  then show ?thesis by (auto simp: map_of_bt_group filter_empty_conv)
qed

lemma finalize_pending_steps:
  assumes "finalize_pending V policy scopes vs db = Inr (acts, db')"
  obtains issues d1 rel sc2 d2 sc3 d3 n where
      "apply_groups (fv_issues V) (occurrence_groups vs) (ft_issues db) = Inr (acts, issues)"
      "update_hourly V policy (bt_group hour_key vs) (db\<lparr>ft_issues := issues\<rparr>) = Inr d1"
      "try_fold (materialize_release (fp_max_releases policy)) rel (scopes, d1) = Inr (sc2, d2)"
      "try_fold (materialize_environment (fp_max_environments policy)) (environment_groups V vs) (sc2, d2) = Inr (sc3, d3)"
      "finalize_rows V sc3 policy vs d3 = (n, db')"
proof -
  obtain as issues where 1: "apply_groups (fv_issues V) (occurrence_groups vs) (ft_issues db) = Inr (as, issues)"
    using assms by (auto simp: finalize_pending_def and_then_eq_Inr)
  obtain d1 where 2: "update_hourly V policy (bt_group hour_key vs) (db\<lparr>ft_issues := issues\<rparr>) = Inr d1"
    using assms 1 by (auto simp: finalize_pending_def and_then_eq_Inr)
  obtain rel where 3: "release_groups V scopes vs = Inr rel"
    using assms 1 2 by (auto simp: finalize_pending_def and_then_eq_Inr)
  obtain sc2 d2 where 4: "try_fold (materialize_release (fp_max_releases policy)) rel (scopes, d1) = Inr (sc2, d2)"
    using assms 1 2 3 by (auto simp: finalize_pending_def and_then_eq_Inr)
  obtain sc3 d3 where 5: "try_fold (materialize_environment (fp_max_environments policy)) (environment_groups V vs) (sc2, d2)
      = Inr (sc3, d3)"
    using assms 1 2 3 4 by (auto simp: finalize_pending_def and_then_eq_Inr)
  obtain n where 6: "finalize_rows V sc3 policy vs d3 = (n, db')" "as = acts"
    using assms 1 2 3 4 5 by (auto simp: finalize_pending_def split: prod.splits if_splits)
  show thesis using 1 2 4 5 6 that by blast
qed

lemma finalize_pending_accounts:
  assumes fits: "codec_fits (ev_codec (fv_issues V))" and acc: "accounted V H db"
    and ok: "\<forall>v\<in>set vs. finalize_event_ok V (pp_event v)"
    and keys: "distinct (map (event_row_key \<circ> pp_event) vs)"
    and pend: "\<forall>v\<in>set vs. is_some_and (ft_events db (event_row_key (pp_event v))) (\<lambda>r. se_state r = 0)"
    and run: "finalize_pending V policy scopes vs db = Inr (acts, db')"
  shows "accounted V (H @ map pp_event vs) db'" "ft_projects db' = ft_projects db"
    "k \<notin> (event_row_key \<circ> pp_event) ` set vs \<Longrightarrow> ft_events db' k = ft_events db k"
proof -
  note a = acc[unfolded accounted_def]
  obtain issues d1 rel sc2 d2 sc3 d3 n where st:
      "apply_groups (fv_issues V) (occurrence_groups vs) (ft_issues db) = Inr (acts, issues)"
      "update_hourly V policy (bt_group hour_key vs) (db\<lparr>ft_issues := issues\<rparr>) = Inr d1"
      "try_fold (materialize_release (fp_max_releases policy)) rel (scopes, d1) = Inr (sc2, d2)"
      "try_fold (materialize_environment (fp_max_environments policy)) (environment_groups V vs) (sc2, d2) = Inr (sc3, d3)"
      "finalize_rows V sc3 policy vs d3 = (n, db')"
    using run by (rule finalize_pending_steps)
  note hourly = update_hourly_ok[OF st(2) bt_ok_distinct[OF bt_group_ok]]
  have core: "core_tables d3 = core_tables d1"
    using try_fold_core[OF st(3) materialize_release_core] try_fold_core[OF st(4) materialize_environment_core] by simp
  then have d3: "ft_events d3 = ft_events db" "ft_issues d3 = issues" "ft_projects d3 = ft_projects db" "ft_hourly d3 = ft_hourly d1"
    using hourly(2-4) by (simp_all add: core_tables_def)
  note rows = finalize_rows_ok[OF st(5) keys, unfolded d3, OF pend]
  have keep: "k \<notin> (event_row_key \<circ> pp_event) ` set vs \<Longrightarrow> ft_events db' k = ft_events db k" for k using rows by blast
  have hist: "issue_history (fv_issues V) p i (occurrences_in p i (H @ map pp_event vs)) (ft_issues db')" for p i
  proof -
    have dist: "distinct (map fst (map (\<lambda>(k, g). (k, map (\<lambda>v. fe_issue (pp_event v)) g)) (bt_group issue_key vs)))"
      using bt_ok_distinct[OF bt_group_ok[of issue_key vs]] by (simp add: case_prod_unfold comp_def)
    have h: "\<forall>p i. issue_history (fv_issues V) p i ((\<lambda>(p, i). occurrences_in p i H) (p, i)) (ft_issues db)" using a by simp
    have "issue_history (fv_issues V) p i (occurrences_in p i H @ map (\<lambda>v. fe_issue (pp_event v)) (filter (\<lambda>v. issue_key v = (p, i)) vs)) issues"
      using apply_groups_history[OF fits dist pending_groups_ok[OF ok] h st(1)[unfolded occurrence_groups_snd], of p i]
      unfolding group_lookup by simp
    moreover have "occurrences_in p i (map pp_event vs) = map (\<lambda>v. fe_issue (pp_event v)) (filter (\<lambda>v. issue_key v = (p, i)) vs)"
      by (simp add: occurrences_in_def filter_map comp_def issue_key_def)
    ultimately show ?thesis using rows by (simp add: occurrences_in_def)
  qed
  have hours: "hour_count db' k = int (length (filter (\<lambda>e. event_hour e = k) (H @ map pp_event vs)))" for k
  proof -
    have "hour_count db' k = hour_count d1 k" using rows by (simp add: hour_count_def)
    also have "\<dots> = hour_count db k + int (length (filter (\<lambda>v. hour_key v = k) vs))"
      using hourly(1)[of k] by (simp add: hour_count_def map_of_bt_group filter_empty_conv)
    also have "filter (\<lambda>v. hour_key v = k) vs = filter (\<lambda>v. event_hour (pp_event v) = k) vs"
      by (simp add: hour_key_def event_hour_def)
    finally show ?thesis using a by (simp add: filter_map comp_def)
  qed
  have new: "event_row_key e \<notin> (event_row_key \<circ> pp_event) ` set vs" if "e \<in> set H" for e
    using a pend that by (force simp: is_some_and_def split: option.splits)
  show "accounted V (H @ map pp_event vs) db'"
    unfolding accounted_def
  proof (intro conjI allI ballI)
    show "distinct (map event_row_key (H @ map pp_event vs))"
    proof -
      have "event_row_key ` set H \<inter> (event_row_key \<circ> pp_event) ` set vs = {}" using new by blast
      then show ?thesis using a keys by (simp add: comp_def image_image)
    qed
    show "is_some_and (ft_events db' (event_row_key e)) (\<lambda>r. se_state r = 2)" if "e \<in> set (H @ map pp_event vs)" for e
    proof (cases "e \<in> set H")
      case True
      then show ?thesis using a keep[OF new[OF True]] by simp
    next
      case False
      then show ?thesis using that rows by auto
    qed
  qed (use hist hours in auto)
  show "ft_projects db' = ft_projects db" "k \<notin> (event_row_key \<circ> pp_event) ` set vs \<Longrightarrow> ft_events db' k = ft_events db k"
    using rows by blast+
qed

lemma accounted_cong:
  assumes "ft_events db' = ft_events db" "db_issues (ft_issues db') = db_issues (ft_issues db)" "ft_hourly db' = ft_hourly db"
  shows "accounted V H db' = accounted V H db"
proof -
  have "issue_history W p i xs (ft_issues db') = issue_history W p i xs (ft_issues db)" for W p i xs
    using issue_history_cong[of "ft_issues db'" p i "ft_issues db" W xs] assms(2) by simp
  then show ?thesis using assms by (simp add: accounted_def hour_count_def)
qed

lemma ensure_usage_core [simp]: "core_tables (ensure_usage ps db) = core_tables db"
  by (simp add: ensure_usage_def core_tables_def)

lemma emit_activities_issues: "db_issues (emit_activities em as db) = db_issues db"
proof -
  have "db_issues (foldl (\<lambda>db (project, aid, a). emit_activity (em aid) project aid a db) db as) = db_issues db"
    by (induction as arbitrary: db) (auto simp: emit_activity_def)
  then show ?thesis by (simp add: emit_activities_def)
qed

lemma load_usage_keys [simp]: "map fst (load_usage db scopes) = map fst scopes"
  by (simp add: load_usage_def case_prod_unfold comp_def)

text \<open>The selection that a call makes: its prepared events, their scopes and those still pending.\<close>

definition select_call ::
  "finalization_env \<Rightarrow> finalization_policy \<Rightarrow> finalize_event list \<Rightarrow> finalization_tables
   \<Rightarrow> finalization_store_error + finalize_scopes \<times> finalization_tables \<times> prepared_event list" where
  "select_call V policy es db =
     and_then (validate_policy policy) (\<lambda>_.
        if \<not> (1 \<le> length es \<and> length es \<le> FINALIZE_MAX_BATCH) then Inl FS_InvalidData
        else and_then (prepare_batch V policy [] es) (\<lambda>prepared.
          and_then (read_scopes db (batch_projects prepared)) (\<lambda>scopes.
          let db1 = ensure_usage (map fst scopes) db; scopes = load_usage db1 scopes in
          and_then (select_pending scopes db1 prepared) (\<lambda>pending.
          Inr (scopes, db1, pending)))))"

lemma finalize_inner_select:
  "finalize_inner V policy outcome emitted es db =
     (case select_call V policy es db of
        Inl err \<Rightarrow> (Inl err, db)
      | Inr (scopes, db1, pending) \<Rightarrow>
          (if pending = []
           then (if outcome = Commit_Acknowledged
                 then (Inr \<lparr>fz_requested = length es, fz_pending = 0, fz_finalized = 0,
                   fz_skipped_completed = length es\<rparr>, db)
                 else (Inl FS_Unavailable, db))
           else case finalize_pending V policy scopes pending db1 of
               Inl err \<Rightarrow> (Inl err, db)
             | Inr (activities, db') \<Rightarrow>
                 (case outcome of
                    Commit_Failed \<Rightarrow> (Inl FS_Unavailable, db)
                  | Commit_Lost \<Rightarrow> (Inl FS_Unavailable, db')
                  | Commit_Acknowledged \<Rightarrow>
                      (Inr \<lparr>fz_requested = length es, fz_pending = length pending, fz_finalized = length pending,
                         fz_skipped_completed = length es - length pending\<rparr>,
                       db'\<lparr>ft_issues := emit_activities emitted activities (ft_issues db')\<rparr>))))"
  unfolding finalize_inner_def select_call_def Let_def by (rule refl)

lemma select_call_ok:
  assumes "select_call V policy es db = Inr (scopes, db1, pending)"
  obtains prepared sc where "prepare_batch V policy [] es = Inr prepared"
    "read_scopes db (batch_projects prepared) = Inr sc" "db1 = ensure_usage (map fst sc) db" "scopes = load_usage db1 sc"
    "pending = filter (is_pending scopes db1) (map snd prepared)"
    "\<forall>v\<in>set pending. is_some_and (ft_events db (event_row_key (pp_event v))) (\<lambda>r. se_state r = 0)"
    "distinct (map (event_row_key \<circ> pp_event) pending)" "pp_event ` set pending \<subseteq> set es" "length pending \<le> length es"
proof -
  obtain prepared sc where p: "prepare_batch V policy [] es = Inr prepared" "read_scopes db (batch_projects prepared) = Inr sc"
      "db1 = ensure_usage (map fst sc) db" "scopes = load_usage db1 sc" "select_pending scopes db1 prepared = Inr pending"
    using assms by (auto simp: select_call_def and_then_eq_Inr Let_def split: if_splits)
  note m = prepare_batch_ok[OF p(1), simplified]
  have sel: "pending = filter (is_pending scopes db1) (map snd prepared)" by (rule select_pending_exact[OF p(5)])
  have "ft_events db1 = ft_events db" by (simp add: p(3) ensure_usage_def)
  then have pend: "\<forall>v\<in>set pending. is_some_and (ft_events db (event_row_key (pp_event v))) (\<lambda>r. se_state r = 0)"
    by (auto simp: sel is_pending_def)
  have mk: "map fst prepared = map FinalizeEvent_key (map pp_event (map snd prepared))" using m by auto
  have "distinct (map FinalizeEvent_key (map pp_event (map snd prepared)))"
    using m bt_ok_distinct[of prepared] unfolding mk[symmetric] by blast
  from distinct_row_keys[OF this] have "distinct (map (event_row_key \<circ> pp_event) (map snd prepared))" by (simp add: comp_def)
  then have "distinct (map (event_row_key \<circ> pp_event) pending)" unfolding sel by (rule distinct_map_filter)
  moreover have "pp_event ` set pending \<subseteq> set es" using m by (auto simp: sel)
  moreover have "length pending \<le> length es"
    using m length_filter_le[of "is_pending scopes db1" "map snd prepared"] by (simp add: sel)
  ultimately show thesis using that p(1-4) sel pend by blast
qed

lemma finalize_inner_accounts:
  assumes fits: "codec_fits (ev_codec (fv_issues V))" and acc: "accounted V H db"
    and ok: "\<forall>e\<in>set es. finalize_event_ok V e"
    and run: "finalize_inner V policy outcome emitted es db = (r, db')"
  shows "\<exists>P. accounted V (H @ P) db' \<and> set P \<subseteq> set es \<and> ft_projects db' = ft_projects db
    \<and> (\<forall>res. r = Inr res \<longrightarrow> fz_requested res = length es \<and> fz_pending res = length P \<and> fz_finalized res = length P
         \<and> fz_skipped_completed res = length es - length P)"
proof (cases "select_call V policy es db")
  case (Inl err)
  then show ?thesis using run acc by (intro exI[of _ "[]"]) (auto simp: finalize_inner_select)
next
  case (Inr s)
  obtain scopes db1 pending where s: "s = (scopes, db1, pending)" by (cases s)
  from Inr s have sel: "select_call V policy es db = Inr (scopes, db1, pending)" by simp
  consider (idle) "pending = []" | (failed) err where "pending \<noteq> []" "finalize_pending V policy scopes pending db1 = Inl err"
    | (wrote) acts d where "pending \<noteq> []" "finalize_pending V policy scopes pending db1 = Inr (acts, d)"
    by (cases "finalize_pending V policy scopes pending db1") auto
  then show ?thesis
  proof cases
    case idle
    have "db' = db \<and> (\<forall>res. r = Inr res \<longrightarrow> res = \<lparr>fz_requested = length es, fz_pending = 0, fz_finalized = 0,
        fz_skipped_completed = length es\<rparr>)"
      using run unfolding finalize_inner_select sel by (auto simp: idle split: if_splits)
    then show ?thesis using acc by (intro exI[of _ "[]"]) auto
  next
    case failed
    have "db' = db \<and> r = Inl err" using run unfolding finalize_inner_select sel by (auto simp: failed)
    then show ?thesis using acc by (intro exI[of _ "[]"]) auto
  next
    case wrote
    note d = wrote(2)
    obtain prepared sc where "prepare_batch V policy [] es = Inr prepared" "read_scopes db (batch_projects prepared) = Inr sc"
      and p: "db1 = ensure_usage (map fst sc) db" "scopes = load_usage db1 sc"
        "pending = filter (is_pending scopes db1) (map snd prepared)"
        "\<forall>v\<in>set pending. is_some_and (ft_events db (event_row_key (pp_event v))) (\<lambda>r. se_state r = 0)"
        "distinct (map (event_row_key \<circ> pp_event) pending)" "pp_event ` set pending \<subseteq> set es" "length pending \<le> length es"
      using sel by (rule select_call_ok)
    have db1: "ft_events db1 = ft_events db" "ft_issues db1 = ft_issues db" "ft_hourly db1 = ft_hourly db" "ft_projects db1 = ft_projects db"
      by (simp_all add: p(1) ensure_usage_def)
    then have acc1: "accounted V H db1" using acc accounted_cong[of db1 db] by simp
    have ok': "\<forall>v\<in>set pending. finalize_event_ok V (pp_event v)" using ok p(6) by auto
    note f = finalize_pending_accounts[OF fits acc1 ok' p(5) p(4)[folded db1(1)] d]
    have out: "(db' = db \<and> (\<exists>err. r = Inl err)) \<or> (db' = d \<and> (\<exists>err. r = Inl err))
      \<or> (db' = d\<lparr>ft_issues := emit_activities emitted acts (ft_issues d)\<rparr> \<and> r = Inr \<lparr>fz_requested = length es,
          fz_pending = length pending, fz_finalized = length pending, fz_skipped_completed = length es - length pending\<rparr>)"
      using run wrote(1) unfolding finalize_inner_select sel by (cases outcome) (auto simp: d)
    moreover have "accounted V (H @ map pp_event pending) (d\<lparr>ft_issues := emit_activities emitted acts (ft_issues d)\<rparr>)"
      using f(1) accounted_cong[of "d\<lparr>ft_issues := emit_activities emitted acts (ft_issues d)\<rparr>" d] by (simp add: emit_activities_issues)
    ultimately show ?thesis
    proof (elim disjE)
      assume "db' = db \<and> (\<exists>err. r = Inl err)"
      then show ?thesis using acc by (intro exI[of _ "[]"]) auto
    next
      assume "db' = d \<and> (\<exists>err. r = Inl err)"
      then show ?thesis using f(1,2) p(6) db1(4) by (intro exI[of _ "map pp_event pending"]) auto
    qed (use f(2) p(6) db1(4) in \<open>intro exI[of _ "map pp_event pending"], auto\<close>)
  qed
qed

section \<open>Retrying a call\<close>

lemma read_scopes_cong: "ft_projects db' = ft_projects db \<Longrightarrow> read_scopes db' ps = read_scopes db ps"
  by (induction db ps rule: read_scopes.induct) (auto split: option.splits)

lemma select_pending_none:
  "\<forall>(k, v)\<in>set m. \<not> is_pending scopes db v \<Longrightarrow> select_pending scopes db m = Inr []"
  by (induction scopes db m rule: select_pending.induct)
    (auto simp: is_pending_def event_row_key_def Let_def split: option.splits)

lemma map_of_keys: "map fst a = map fst b \<Longrightarrow> map_of a k = None \<longleftrightarrow> map_of b k = None"
  by (simp add: map_of_eq_None_iff) (metis image_set)

lemma select_call_again:
  assumes sel: "select_call V policy es db = Inr (scopes, db1, pending)" and proj: "ft_projects db' = ft_projects db"
    and fin: "\<forall>v\<in>set pending. is_some_and (ft_events db' (event_row_key (pp_event v))) (\<lambda>r. se_state r = 2)"
    and keep: "\<And>k. k \<notin> (event_row_key \<circ> pp_event) ` set pending \<Longrightarrow> ft_events db' k = ft_events db k"
  shows "\<exists>scopes' db1'. select_call V policy es db' = Inr (scopes', db1', [])"
proof -
  obtain prepared sc where p: "prepare_batch V policy [] es = Inr prepared" "read_scopes db (batch_projects prepared) = Inr sc"
      "db1 = ensure_usage (map fst sc) db" "scopes = load_usage db1 sc"
      "pending = filter (is_pending scopes db1) (map snd prepared)"
    using sel by (rule select_call_ok)
  let ?db1 = "ensure_usage (map fst sc) db'"
  let ?scopes = "load_usage ?db1 sc"
  have ev: "ft_events ?db1 = ft_events db'" "ft_events db1 = ft_events db" by (simp_all add: ensure_usage_def p(3))
  have "\<not> is_pending ?scopes ?db1 v" if v: "v \<in> snd ` set prepared" for v
  proof (cases "event_row_key (pp_event v) \<in> (event_row_key \<circ> pp_event) ` set pending")
    case True
    then have "is_some_and (ft_events db' (event_row_key (pp_event v))) (\<lambda>r. se_state r = 2)" using fin by auto
    then show ?thesis by (cases "ft_events db' (event_row_key (pp_event v))") (auto simp: is_pending_def ev)
  next
    case False
    then have "\<not> is_pending scopes db1 v" using v p(5) by auto
    moreover have "map_of ?scopes q = None \<longleftrightarrow> map_of scopes q = None" for q
      by (rule map_of_keys) (simp add: p(4))
    ultimately show ?thesis using keep[OF False] by (auto simp: is_pending_def ev)
  qed
  then have "select_pending ?scopes ?db1 prepared = Inr []" by (intro select_pending_none) force
  moreover have "validate_policy policy = Inr ()" "1 \<le> length es \<and> length es \<le> FINALIZE_MAX_BATCH"
    using sel by (auto simp: select_call_def and_then_eq_Inr split: if_splits)
  ultimately show ?thesis
    using p(1,2) read_scopes_cong[OF proj] by (simp add: select_call_def Let_def)
qed

text \<open>
  C9. A call that took effect, whether its commit was acknowledged or its acknowledgement was lost, can be
  repeated: the repetition finds nothing pending, reports every event as already completed and changes no
  table.
\<close>
theorem finalize_retry_no_op:
  assumes "codec_fits (ev_codec (fv_issues V))" "accounted V H db" "\<forall>e\<in>set es. finalize_event_ok V e"
    "finalize_inner V policy outcome emitted es db = (r, db')" "(\<exists>res. r = Inr res) \<or> db' \<noteq> db"
  shows "finalize_inner V policy Commit_Acknowledged emitted' es db' =
    (Inr \<lparr>fz_requested = length es, fz_pending = 0, fz_finalized = 0, fz_skipped_completed = length es\<rparr>, db')"
proof -
  obtain scopes db1 pending where sel: "select_call V policy es db = Inr (scopes, db1, pending)"
    using assms(4,5) by (cases "select_call V policy es db") (auto simp: finalize_inner_select)
  have "\<exists>scopes' db1'. select_call V policy es db' = Inr (scopes', db1', [])"
  proof (cases "pending = []")
    case True
    then have "db' = db" using assms(4) unfolding finalize_inner_select sel by (auto split: if_splits)
    with sel True show ?thesis by auto
  next
    case False
    obtain acts d where d: "finalize_pending V policy scopes pending db1 = Inr (acts, d)"
      using assms(4,5) False unfolding finalize_inner_select sel
      by (cases "finalize_pending V policy scopes pending db1") auto
    have db': "ft_events db' = ft_events d" "ft_projects db' = ft_projects d"
      using assms(4,5) False unfolding finalize_inner_select sel by (cases outcome; auto simp: d)+
    obtain prepared sc where "prepare_batch V policy [] es = Inr prepared" "read_scopes db (batch_projects prepared) = Inr sc"
      and p: "db1 = ensure_usage (map fst sc) db" "scopes = load_usage db1 sc"
        "pending = filter (is_pending scopes db1) (map snd prepared)"
        "\<forall>v\<in>set pending. is_some_and (ft_events db (event_row_key (pp_event v))) (\<lambda>r. se_state r = 0)"
        "distinct (map (event_row_key \<circ> pp_event) pending)" "pp_event ` set pending \<subseteq> set es" "length pending \<le> length es"
      using sel by (rule select_call_ok)
    have e1: "ft_events db1 = ft_events db" "ft_issues db1 = ft_issues db" "ft_hourly db1 = ft_hourly db" "ft_projects db1 = ft_projects db"
      by (simp_all add: p(1) ensure_usage_def)
    then have acc1: "accounted V H db1" using assms(2) accounted_cong[of db1 db] by simp
    have ok: "\<forall>v\<in>set pending. finalize_event_ok V (pp_event v)" using assms(3) p(6) by auto
    note f = finalize_pending_accounts[OF assms(1) acc1 ok p(5) p(4)[folded e1(1)] d]
    show ?thesis
    proof (rule select_call_again[OF sel])
      show "ft_projects db' = ft_projects db" using f(2) db' e1 by simp
      show "\<forall>v\<in>set pending. is_some_and (ft_events db' (event_row_key (pp_event v))) (\<lambda>r. se_state r = 2)"
        using f(1) by (auto simp: accounted_def db')
      show "ft_events db' k = ft_events db k" if "k \<notin> (event_row_key \<circ> pp_event) ` set pending" for k
        using f(3)[OF that] by (simp add: db' e1)
    qed
  qed
  then show ?thesis by (auto simp: finalize_inner_select)
qed

type_synonym finalize_call = "finalize_event list \<times> commit_outcome \<times> (bytes \<Rightarrow> bool)"

fun finalize_calls ::
  "finalization_env \<Rightarrow> finalization_policy \<Rightarrow> finalize_call list \<Rightarrow> finalization_tables \<Rightarrow> finalization_tables" where
  "finalize_calls V policy [] db = db"
| "finalize_calls V policy ((es, outcome, emitted) # cs) db =
     finalize_calls V policy cs (snd (finalize_inner V policy outcome emitted es db))"

text \<open>
  C8. Whatever calls are made, in whatever order, with repeated and overlapping batches and with commits
  that succeed, fail or lose their acknowledgement, the tables stand for a list of events from those
  calls in which no event occurs twice: exactly these events are marked finalized among those counted,
  every issue is the summary of its events, and every hourly counter is the number of its events.
\<close>
theorem finalize_accounts_once:
  assumes "codec_fits (ev_codec (fv_issues V))" "accounted V H db"
    "\<forall>c\<in>set calls. \<forall>e\<in>set (fst c). finalize_event_ok V e"
  shows "\<exists>P. set P \<subseteq> (\<Union>c\<in>set calls. set (fst c))
    \<and> accounted V (H @ P) (finalize_calls V policy calls db)"
  using assms
proof (induction V policy calls db arbitrary: H rule: finalize_calls.induct)
  case (2 V policy es outcome emitted cs db)
  obtain r d where d: "finalize_inner V policy outcome emitted es db = (r, d)" by fastforce
  obtain P where P: "accounted V (H @ P) d" "set P \<subseteq> set es"
    using finalize_inner_accounts[OF "2.prems"(1,2) _ d] "2.prems"(3) by auto
  obtain Q where "set Q \<subseteq> (\<Union>c\<in>set cs. set (fst c))" "accounted V ((H @ P) @ Q) (finalize_calls V policy cs d)"
    using "2.IH"[of "H @ P"] "2.prems"(1,3) P(1) by (auto simp: d)
  with P show ?case by (intro exI[of _ "P @ Q"]) (auto simp: d)
qed (auto intro: exI[of _ "[]"])

section \<open>Catalog quotas\<close>

definition usage_of :: "finalization_tables \<Rightarrow> project_id \<Rightarrow> catalog_usage" where
  "usage_of db p = unwrap_or (ft_usage db p) no_usage"

definition new_environments :: "finalization_tables \<Rightarrow> finalization_tables \<Rightarrow> project_id \<Rightarrow> bytes set" where
  "new_environments db db' p = {i. ft_environments db' (p, i) \<noteq> None \<and> ft_environments db (p, i) = None}"

definition scopes_synced :: "finalize_scopes \<Rightarrow> finalization_tables \<Rightarrow> bool" where
  "scopes_synced scopes db = (\<forall>p s. map_of scopes p = Some s \<longrightarrow> ft_usage db p =
     Some \<lparr>cu_release_day = sc_release_day s, cu_release_count = sc_release_count s, cu_environment_count = sc_environments s\<rparr>)"

text \<open>
  Relative to the tables a transaction started from: counters within the quota or not raised, and the
  environment counter raised by exactly the environments added.
\<close>

definition quota_ok :: "nat \<Rightarrow> nat \<Rightarrow> catalog_usage \<Rightarrow> catalog_usage \<Rightarrow> bytes set \<Rightarrow> bool" where
  "quota_ok rl el u0 u new = (cu_release_count u \<le> max (cu_release_count u0) rl
     \<and> cu_environment_count u \<le> max (cu_environment_count u0) el
     \<and> finite new \<and> cu_environment_count u = cu_environment_count u0 + card new)"

definition catalog_inv :: "nat \<Rightarrow> nat \<Rightarrow> finalization_tables \<Rightarrow> finalize_scopes \<times> finalization_tables \<Rightarrow> bool" where
  "catalog_inv rl el db0 st = (case st of (scopes, db) \<Rightarrow> scopes_synced scopes db
     \<and> (\<forall>p. quota_ok rl el (usage_of db0 p) (usage_of db p) (new_environments db0 db p))
     \<and> (\<forall>k. ft_environments db0 k \<noteq> None \<longrightarrow> ft_environments db k \<noteq> None))"

lemma quota_ok_release:
  "quota_ok rl el u0 u new \<Longrightarrow> n \<le> rl \<Longrightarrow> quota_ok rl el u0 (u\<lparr>cu_release_day := d, cu_release_count := n\<rparr>) new"
  by (simp add: quota_ok_def)

lemma quota_ok_environment:
  assumes "quota_ok rl el u0 u new" "i \<notin> new" "cu_environment_count u < el"
  shows "quota_ok rl el u0 (u\<lparr>cu_environment_count := cu_environment_count u + 1\<rparr>) (insert i new)"
  using assms by (simp add: quota_ok_def)

lemma try_fold_inv:
  assumes "try_fold f gs s = Inr s'" "P s" "\<And>g s s'. f g s = Inr s' \<Longrightarrow> P s \<Longrightarrow> P s'"
  shows "P s'"
  using assms
proof (induction f gs s rule: try_fold.induct)
  case (2 f u us s)
  then obtain x where "f u s = Inr x" "try_fold f us x = Inr s'" by (auto simp: and_then_eq_Inr)
  with 2 show ?case by metis
qed simp

lemma catalog_inv_cong:
  assumes "catalog_inv rl el db0 (scopes, db)" "ft_usage db' = ft_usage db" "ft_environments db' = ft_environments db"
  shows "catalog_inv rl el db0 (scopes, db')"
  using assms by (simp add: catalog_inv_def scopes_synced_def usage_of_def new_environments_def)

lemma admitted_project_ok:
  "admitted_project scopes limit ds = Some (p, day) \<Longrightarrow>
     \<exists>s. map_of scopes p = Some s \<and> (sc_release_day s \<noteq> Some day \<or> sc_release_count s < limit)"
  by (induction scopes limit ds rule: admitted_project.induct) (auto split: option.splits if_splits)

lemma count_release_inv:
  assumes "count_release (p, day) (scopes, db) = Inr (scopes', db')" "catalog_inv rl el db0 (scopes, db)" "0 < rl"
    "map_of scopes p = Some s" "sc_release_day s \<noteq> Some day \<or> sc_release_count s < rl"
  shows "catalog_inv rl el db0 (scopes', db')"
proof -
  define n where "n = (if sc_release_day s = Some day then sc_release_count s + 1 else 1)"
  let ?u = "\<lparr>cu_release_day = sc_release_day s, cu_release_count = sc_release_count s, cu_environment_count = sc_environments s\<rparr>"
  have u: "ft_usage db p = Some ?u" using assms(2,4) by (auto simp: catalog_inv_def scopes_synced_def)
  have out: "scopes' = bt_insert p (s\<lparr>sc_release_count := n, sc_release_day := Some day\<rparr>) scopes"
    "db' = db\<lparr>ft_usage := (ft_usage db)(p \<mapsto> ?u\<lparr>cu_release_day := Some day, cu_release_count := n\<rparr>)\<rparr>"
    using assms(1,4) u by (auto simp: count_release_def n_def[symmetric] Let_def split: if_splits)
  have "n \<le> rl" using assms(3,5) by (auto simp: n_def)
  moreover have "usage_of db' q = (if q = p then (usage_of db p)\<lparr>cu_release_day := Some day, cu_release_count := n\<rparr> else usage_of db q)" for q
    by (simp add: out usage_of_def u)
  moreover have "new_environments db0 db' = new_environments db0 db" "ft_environments db' = ft_environments db"
    by (simp_all add: out new_environments_def fun_eq_iff)
  moreover have "scopes_synced scopes' db'"
    using assms(2) by (auto simp: catalog_inv_def scopes_synced_def out)
  ultimately show ?thesis using assms(2) by (simp add: catalog_inv_def quota_ok_release)
qed

lemma link_projects_keeps:
  "link_projects k ps db = Inr db' \<Longrightarrow> ft_usage db' = ft_usage db \<and> ft_environments db' = ft_environments db"
  by (auto simp: link_projects_def Let_def split: if_splits)

lemma materialize_release_inv:
  assumes "materialize_release rl g (scopes, db) = Inr (scopes', db')" "catalog_inv rl el db0 (scopes, db)" "0 < rl"
  shows "catalog_inv rl el db0 (scopes', db')"
proof -
  obtain k es where g: "g = (k, es)" by fastforce
  show ?thesis using assms(1)[unfolded g]
  proof (cases rule: materialize_release_cases)
    case refused
    then show ?thesis using assms(2) by simp
  next
    case (known r first latest)
    then show ?thesis using catalog_inv_cong[OF assms(2)] link_projects_keeps[OF known(3)] by simp
  next
    case (created a r d version first latest)
    obtain p day where a: "a = (p, day)" by fastforce
    obtain s where s: "map_of scopes p = Some s" "sc_release_day s \<noteq> Some day \<or> sc_release_count s < rl"
      using admitted_project_ok[OF created(2)[unfolded a]] by blast
    have "catalog_inv rl el db0 (scopes, db\<lparr>ft_releases := (ft_releases db)(k \<mapsto> new_release version first latest)\<rparr>)"
      by (rule catalog_inv_cong[OF assms(2)]) simp_all
    from count_release_inv[OF created(3)[unfolded a] this assms(3) s] show ?thesis
      using catalog_inv_cong link_projects_keeps[OF created(4)] by simp
  qed
qed

lemma materialize_environment_inv:
  assumes "materialize_environment el g (scopes, db) = Inr (scopes', db')" "catalog_inv rl el db0 (scopes, db)"
  shows "catalog_inv rl el db0 (scopes', db')"
proof -
  obtain p i es where g: "g = ((p, i), es)" by (metis prod.exhaust)
  show ?thesis using assms(1)[unfolded g]
  proof (cases rule: materialize_environment_cases)
    case (refused s)
    then show ?thesis using assms(2) by simp
  next
    case (known r r')
    have "new_environments db0 db' = new_environments db0 db"
      using known by (auto simp: new_environments_def fun_eq_iff)
    then show ?thesis using assms(2) known by (auto simp: catalog_inv_def scopes_synced_def usage_of_def)
  next
    case (created s r)
    let ?u = "\<lparr>cu_release_day = sc_release_day s, cu_release_count = sc_release_count s, cu_environment_count = sc_environments s\<rparr>"
    have u: "ft_usage db p = Some ?u" using assms(2) created(1) by (auto simp: catalog_inv_def scopes_synced_def)
    have db': "db' = db\<lparr>ft_environments := (ft_environments db)((p, i) \<mapsto> r),
        ft_usage := (ft_usage db)(p \<mapsto> ?u\<lparr>cu_environment_count := sc_environments s + 1\<rparr>)\<rparr>"
      using created(5) u by simp
    have old: "ft_environments db0 (p, i) = None"
      using assms(2) created(2) unfolding catalog_inv_def prod.case by metis
    have new: "new_environments db0 db' q = (if q = p then insert i (new_environments db0 db p) else new_environments db0 db q)" for q
      by (auto simp: db' new_environments_def old)
    have "i \<notin> new_environments db0 db p" by (simp add: new_environments_def created(2))
    moreover have us: "usage_of db' q = (if q = p then (usage_of db p)\<lparr>cu_environment_count := sc_environments s + 1\<rparr> else usage_of db q)" for q
      by (simp add: db' usage_of_def u)
    moreover have "usage_of db p = ?u" by (simp add: usage_of_def u)
    moreover have "scopes_synced scopes' db'" using assms(2) by (auto simp: catalog_inv_def scopes_synced_def created(4) db')
    moreover have "\<forall>k. ft_environments db0 k \<noteq> None \<longrightarrow> ft_environments db' k \<noteq> None"
      using assms(2) by (auto simp: catalog_inv_def db')
    moreover have "quota_ok rl el (usage_of db0 q) (usage_of db' q) (new_environments db0 db' q)" for q
    proof (cases "q = p")
      case True
      have "quota_ok rl el (usage_of db0 p) (usage_of db p) (new_environments db0 db p)"
        using assms(2) by (simp add: catalog_inv_def)
      from quota_ok_environment[OF this \<open>i \<notin> _\<close>] created(3) True show ?thesis
        by (simp add: us new \<open>usage_of db p = _\<close>)
    next
      case False
      then show ?thesis using assms(2) by (simp add: catalog_inv_def us new)
    qed
    ultimately show ?thesis by (simp add: catalog_inv_def)
  qed
qed

lemma map_of_load_usage:
  "map_of (load_usage db scopes) p = map_option (\<lambda>s. case ft_usage db p of None \<Rightarrow> s
     | Some u \<Rightarrow> s\<lparr>sc_release_day := cu_release_day u, sc_release_count := cu_release_count u,
         sc_environments := cu_environment_count u\<rparr>) (map_of scopes p)"
  by (induction scopes) (auto simp: load_usage_def split: option.split)

lemma ensured_usage: "ft_usage (ensure_usage ps db) p = (if p \<in> set ps then Some (usage_of db p) else ft_usage db p)"
proof -
  have "foldl (\<lambda>t p. insert_ignore p no_usage t) t ps p = (if p \<in> set ps then Some (unwrap_or (t p) no_usage) else t p)" for t
    by (induction ps arbitrary: t) (auto simp: insert_ignore_def split: option.splits)
  then show ?thesis by (simp add: ensure_usage_def usage_of_def)
qed

lemma catalog_inv_start:
  "catalog_inv rl el db (load_usage (ensure_usage (map fst sc) db) sc, ensure_usage (map fst sc) db)"
proof -
  let ?d = "ensure_usage (map fst sc) db"
  have env: "ft_environments ?d = ft_environments db" by (simp add: ensure_usage_def)
  have "usage_of ?d p = usage_of db p" for p
    by (simp add: usage_of_def ensured_usage)
  moreover have "new_environments db ?d p = {}" for p by (auto simp: new_environments_def env)
  moreover have "scopes_synced (load_usage ?d sc) ?d"
    unfolding scopes_synced_def
  proof (intro allI impI)
    fix p s assume s: "map_of (load_usage ?d sc) p = Some s"
    then have "p \<in> set (map fst sc)" by (cases "map_of sc p") (auto simp: map_of_load_usage dest: map_of_SomeD intro: rev_image_eqI)
    with s show "ft_usage ?d p = Some \<lparr>cu_release_day = sc_release_day s, cu_release_count = sc_release_count s,
        cu_environment_count = sc_environments s\<rparr>"
      by (auto simp: map_of_load_usage ensured_usage)
  qed
  ultimately show ?thesis by (simp add: catalog_inv_def quota_ok_def env)
qed

lemma finalize_rows_catalog:
  "finalize_rows V scopes policy vs db = (n, db') \<Longrightarrow> ft_usage db' = ft_usage db \<and> ft_environments db' = ft_environments db"
  by (induction V scopes policy vs db arbitrary: n rule: finalize_rows.induct)
    (auto simp: Let_def split: option.splits if_splits prod.splits)

lemma update_hourly_catalog:
  "update_hourly V policy m db = Inr db' \<Longrightarrow> ft_usage db' = ft_usage db \<and> ft_environments db' = ft_environments db"
proof (induction V policy m db rule: update_hourly.induct)
  case (2 V policy k g gs db)
  obtain p i b where k: "k = (p, i, b)" by (cases k)
  obtain d where d: "add_hour V policy k (length g) db = Inr d" "update_hourly V policy gs d = Inr db'"
    using "2.prems" by (auto simp: and_then_eq_Inr)
  have "ft_usage d = ft_usage db \<and> ft_environments d = ft_environments db"
    using d(1) by (cases "ft_hourly db k") (auto simp: k add_hour_def and_then_eq_Inr Let_def split: if_splits)
  with "2.IH"[OF d(2)] show ?case by simp
qed simp

lemma finalize_pending_catalog:
  assumes "finalize_pending V policy scopes vs db = Inr (acts, db')" "catalog_inv rl el db0 (scopes, db)"
    "rl = fp_max_releases policy" "el = fp_max_environments policy" "0 < rl"
  shows "\<exists>scopes'. catalog_inv rl el db0 (scopes', db')"
proof -
  obtain issues d1 rel sc2 d2 sc3 d3 n where st:
      "apply_groups (fv_issues V) (occurrence_groups vs) (ft_issues db) = Inr (acts, issues)"
      "update_hourly V policy (bt_group hour_key vs) (db\<lparr>ft_issues := issues\<rparr>) = Inr d1"
      "try_fold (materialize_release (fp_max_releases policy)) rel (scopes, d1) = Inr (sc2, d2)"
      "try_fold (materialize_environment (fp_max_environments policy)) (environment_groups V vs) (sc2, d2) = Inr (sc3, d3)"
      "finalize_rows V sc3 policy vs d3 = (n, db')"
    using assms(1) by (rule finalize_pending_steps)
  have 1: "catalog_inv rl el db0 (scopes, d1)"
    using catalog_inv_cong[OF assms(2)] update_hourly_catalog[OF st(2)] by simp
  have 2: "catalog_inv rl el db0 (sc2, d2)"
    using st(3)[folded assms(3)] 1 by (rule try_fold_inv) (metis surj_pair materialize_release_inv[OF _ _ assms(5)])
  have 3: "catalog_inv rl el db0 (sc3, d3)"
    using st(4)[folded assms(4)] 2 by (rule try_fold_inv) (metis surj_pair materialize_environment_inv)
  then show ?thesis using catalog_inv_cong[OF 3] finalize_rows_catalog[OF st(5)] by blast
qed

lemma finalize_inner_quota:
  assumes "finalize_inner V policy outcome emitted es db = (r, db')"
  shows "cu_release_count (usage_of db' p) \<le> max (cu_release_count (usage_of db p)) (fp_max_releases policy)
    \<and> cu_environment_count (usage_of db' p) \<le> max (cu_environment_count (usage_of db p)) (fp_max_environments policy)
    \<and> finite (new_environments db db' p)
    \<and> cu_environment_count (usage_of db' p) = cu_environment_count (usage_of db p) + card (new_environments db db' p)"
proof (cases "db' = db")
  case True
  have "new_environments db db p = {}" by (auto simp: new_environments_def)
  then show ?thesis using True by simp
next
  case False
  obtain scopes db1 pending where sel: "select_call V policy es db = Inr (scopes, db1, pending)"
    using assms False by (cases "select_call V policy es db") (auto simp: finalize_inner_select)
  have ne: "pending \<noteq> []" using assms False unfolding finalize_inner_select sel by (auto split: if_splits)
  obtain acts d where d: "finalize_pending V policy scopes pending db1 = Inr (acts, d)"
    using assms False ne unfolding finalize_inner_select sel
    by (cases "finalize_pending V policy scopes pending db1") auto
  have db': "ft_usage db' = ft_usage d" "ft_environments db' = ft_environments d"
    using assms False ne unfolding finalize_inner_select sel by (cases outcome; auto simp: d)+
  obtain sc where sc: "db1 = ensure_usage (map fst sc) db" "scopes = load_usage db1 sc"
    using sel by (auto simp: select_call_def and_then_eq_Inr Let_def split: if_splits)
  have pos: "0 < fp_max_releases policy"
    using sel by (auto simp: select_call_def and_then_eq_Inr validate_policy_def split: if_splits)
  obtain sc' where "catalog_inv (fp_max_releases policy) (fp_max_environments policy) db (sc', d)"
    using finalize_pending_catalog[OF d _ refl refl pos, of db] catalog_inv_start[of _ _ db sc] sc by metis
  from catalog_inv_cong[OF this db'] have "quota_ok (fp_max_releases policy) (fp_max_environments policy)
      (usage_of db p) (usage_of db' p) (new_environments db db' p)"
    by (simp add: catalog_inv_def)
  then show ?thesis unfolding quota_ok_def .
qed

text \<open>
  C35. No call raises a project's release or environment counter above the quota of the policy, and the
  environment counter grows by exactly the number of environments the call adds to the catalog, so a
  project whose counter starts at zero never gets more implicit environments than the quota.
\<close>
theorem catalog_quota_respected:
  "let db' = snd (finalize_inner V policy outcome emitted es db) in
     cu_release_count (usage_of db' p) \<le> max (cu_release_count (usage_of db p)) (fp_max_releases policy)
     \<and> cu_environment_count (usage_of db' p) \<le> max (cu_environment_count (usage_of db p)) (fp_max_environments policy)
     \<and> finite (new_environments db db' p)
     \<and> cu_environment_count (usage_of db' p) = cu_environment_count (usage_of db p) + card (new_environments db db' p)"
  unfolding Let_def by (rule finalize_inner_quota[OF surjective_pairing])

section \<open>Examples\<close>

definition sample_finalization_env :: finalization_env where
  "sample_finalization_env = \<lparr>fv_issues = sample_issue_env, fv_codec = IssueCodecConfig_default,
     fv_hex_decode = (\<lambda>_. None)\<rparr>"

definition sample_policy :: finalization_policy where
  "sample_policy = \<lparr>fp_event_retention = 1000000, fp_hourly_retention = 1000000, fp_archive_events = False,
     fp_max_releases = 1, fp_max_environments = 1\<rparr>"

definition sample_finalize_event :: finalize_event where
  "sample_finalize_event = \<lparr>fe_project_id = 7, fe_event_id = replicate 16 1, fe_received_at = 1000, fe_occurred_at = 1000,
     fe_level = Level_Error, fe_platform = Platform_Other, fe_issue = sample_occurrence 1000, fe_environment = None,
     fe_search_tokens = [], fe_payload = [123, 125]\<rparr>"

definition sample_pending_row :: stored_event where
  "sample_pending_row = \<lparr>se_received_at = 1000, se_state = 0, se_next_attempt_at = Some 1000, se_error_code = None,
     se_body = [1, 0, 123, 125], se_issue = None, se_occurred_at = None, se_level = None, se_platform = None,
     se_tokens = [], se_expire_at = None, se_archive_due = None, se_archive_segment = None, se_release = None,
     se_environment = None, se_trace = None, se_span = None\<rparr>"

definition sample_tables :: finalization_tables where
  "sample_tables = \<lparr>ft_projects = [7 \<mapsto> (1, 0)], ft_usage = Map.empty,
     ft_events = [(7, replicate 16 1) \<mapsto> sample_pending_row], ft_issues = no_issues, ft_hourly = Map.empty,
     ft_releases = Map.empty, ft_release_projects = (\<lambda>_. []), ft_environments = Map.empty\<rparr>"

lemma sample_hour: "hour_of 1000 = 0"
  by (simp add: hour_of_def hour_start_def Timestamp_from_unix_millis_def MIN_TIMESTAMP_MILLIS_def MAX_TIMESTAMP_MILLIS_def)

lemma sample_add_duration: "add_duration 1000 1000000 = Inr 1001" "add_duration 0 1000000 = Inr 1"
  by (simp_all add: add_duration_def as_millis_def Timestamp_from_unix_millis_def MIN_TIMESTAMP_MILLIS_def
      MAX_TIMESTAMP_MILLIS_def Let_def)

lemma sample_prepare:
  "prepare_finalize sample_finalization_env sample_policy sample_finalize_event
     = Inr \<lparr>pp_event = sample_finalize_event, pp_body = [1, 0, 123, 125], pp_expire = 1001, pp_trace = None\<rparr>"
proof -
  have "trace_ids sample_finalization_env (grouping_value sample_grouping) = None"
    by (simp add: trace_ids_def json_get_def grouping_value_def)
  moreover have "json_as_object (grouping_value sample_grouping) \<noteq> None" by (simp add: grouping_value_def)
  moreover note sample_verified sample_encode sample_hour sample_add_duration
  ultimately show ?thesis
    by (simp add: prepare_finalize_def Let_def sample_finalization_env_def sample_finalize_event_def sample_policy_def
        sample_occurrence_def sample_body_def sample_issue_env_def IssueCodecConfig_default_def finalize_row_size_def
        encode_json_def)
qed

lemma sample_select:
  "\<exists>scopes db1. select_call sample_finalization_env sample_policy [sample_finalize_event] sample_tables
     = Inr (scopes, db1, [\<lparr>pp_event = sample_finalize_event, pp_body = [1, 0, 123, 125], pp_expire = 1001, pp_trace = None\<rparr>])
     \<and> ft_issues db1 = no_issues \<and> ft_hourly db1 = Map.empty \<and> ft_events db1 = ft_events sample_tables"
proof -
  have "validate_policy sample_policy = Inr ()" by (simp add: validate_policy_def sample_policy_def as_millis_def)
  moreover have "prepare_batch sample_finalization_env sample_policy [] [sample_finalize_event] = Inr
      [(FinalizeEvent_key sample_finalize_event,
        \<lparr>pp_event = sample_finalize_event, pp_body = [1, 0, 123, 125], pp_expire = 1001, pp_trace = None\<rparr>)]"
    by (simp add: sample_prepare)
  moreover have "fe_project_id sample_finalize_event = 7" "fe_event_id sample_finalize_event = replicate 16 1"
      "fe_received_at sample_finalize_event = 1000"
    by (simp_all add: sample_finalize_event_def)
  ultimately show ?thesis
    by (simp add: select_call_def Let_def FINALIZE_MAX_BATCH_def batch_projects_def bt_collect_def sample_tables_def
        OrganizationId_new_def ensure_usage_def load_usage_def sample_pending_row_def)
qed

lemma sample_finalizes:
  "\<exists>db'. finalize_inner sample_finalization_env sample_policy Commit_Acknowledged (\<lambda>_. True) [sample_finalize_event] sample_tables
     = (Inr \<lparr>fz_requested = 1, fz_pending = 1, fz_finalized = 1, fz_skipped_completed = 0\<rparr>, db')"
proof -
  let ?v = "\<lparr>pp_event = sample_finalize_event, pp_body = [1, 0, 123, 125], pp_expire = 1001, pp_trace = None\<rparr>"
  obtain scopes db1 where sel: "select_call sample_finalization_env sample_policy [sample_finalize_event] sample_tables
      = Inr (scopes, db1, [?v])" "ft_issues db1 = no_issues" "ft_hourly db1 = Map.empty" "ft_events db1 = ft_events sample_tables"
    using sample_select by blast
  obtain s d where b: "apply_batch sample_issue_env [sample_occurrence 1000] no_issues = Inr (Mutation_Created, s, None, d)"
    using sample_creates[of 1000 "[]"] sample_times by auto
  have e: "fe_issue sample_finalize_event = sample_occurrence 1000" "fe_environment sample_finalize_event = None"
      "fe_project_id sample_finalize_event = 7" "fe_event_id sample_finalize_event = replicate 16 1"
      "fe_occurred_at sample_finalize_event = 1000" "io_release (sample_occurrence 1000) = None"
    by (simp_all add: sample_finalize_event_def sample_occurrence_def)
  have "\<exists>db'. finalize_pending sample_finalization_env sample_policy scopes [?v] db1 = Inr ([], db')"
    using sel b sample_add_duration(2)
    by (simp add: finalize_pending_def occurrence_groups_def bt_group_def bt_push_def sample_finalization_env_def e
        hour_key_def sample_hour add_hour_def Let_def sample_policy_def release_groups_def environment_groups_def
        sample_tables_def sample_pending_row_def)
  then obtain db' where "finalize_pending sample_finalization_env sample_policy scopes [?v] db1 = Inr ([], db')" by blast
  then show ?thesis by (simp add: finalize_inner_select sel(1))
qed

lemma sample_accounted: "accounted sample_finalization_env [] sample_tables"
  by (simp add: accounted_def sample_tables_def no_issues_def issue_history_def occurrences_in_def hour_count_def)

lemma sample_finalize_ok: "finalize_event_ok sample_finalization_env sample_finalize_event"
  using sample_occurrences[of "[1000]"] sample_times
  by (simp add: finalize_event_ok_def sample_finalization_env_def sample_finalize_event_def sample_occurrence_def)

lemma sample_finalization_fits: "codec_fits (ev_codec (fv_issues sample_finalization_env))"
  using sample_codec by (simp add: sample_finalization_env_def)

theorem finalize_retry_no_op_witness:
  "\<exists>db'. finalize_inner sample_finalization_env sample_policy Commit_Acknowledged (\<lambda>_. True) [sample_finalize_event] sample_tables
     = (Inr \<lparr>fz_requested = 1, fz_pending = 1, fz_finalized = 1, fz_skipped_completed = 0\<rparr>, db')
   \<and> finalize_inner sample_finalization_env sample_policy Commit_Acknowledged (\<lambda>_. True) [sample_finalize_event] db'
     = (Inr \<lparr>fz_requested = 1, fz_pending = 0, fz_finalized = 0, fz_skipped_completed = 1\<rparr>, db')"
proof -
  obtain db' where run: "finalize_inner sample_finalization_env sample_policy Commit_Acknowledged (\<lambda>_. True)
      [sample_finalize_event] sample_tables
     = (Inr \<lparr>fz_requested = 1, fz_pending = 1, fz_finalized = 1, fz_skipped_completed = 0\<rparr>, db')"
    using sample_finalizes by blast
  from finalize_retry_no_op[OF sample_finalization_fits sample_accounted _ run, of "\<lambda>_. True"] sample_finalize_ok run
  show ?thesis by simp
qed

theorem finalize_accounts_once_witness:
  "\<exists>P. set P \<subseteq> {sample_finalize_event}
     \<and> accounted sample_finalization_env P (finalize_calls sample_finalization_env sample_policy
         [([sample_finalize_event], Commit_Lost, \<lambda>_. True), ([sample_finalize_event], Commit_Acknowledged, \<lambda>_. True)] sample_tables)"
  using finalize_accounts_once[OF sample_finalization_fits sample_accounted,
      of "[([sample_finalize_event], Commit_Lost, \<lambda>_. True), ([sample_finalize_event], Commit_Acknowledged, \<lambda>_. True)]" sample_policy]
    sample_finalize_ok by simp

end
