(* ===== verification/Ip_Address.thy ===== *)
theory Ip_Address
  imports Metric_Text
begin

text \<open>
  The textual forms of \<^verbatim>\<open>std::net::IpAddr\<close>, as the scrubber uses them: the parser of the Rust standard
  library (four decimal octets without leading zeros; hexadecimal groups with one \<^verbatim>\<open>::\<close> and an optional
  embedded IPv4 tail) and the canonical printer (longest run of zero groups compressed).
\<close>

datatype ip_addr = IpV4 "nat list" | IpV6 "nat list"

section \<open>Printing\<close>

definition ipv4_to_string :: "nat list \<Rightarrow> string" where
  "ipv4_to_string octets = join ''.'' (map (digits_of 10) octets)"

text \<open>The longest run of zero groups, the first one among equals, as start and length.\<close>

fun zero_run :: "nat list \<Rightarrow> nat \<Rightarrow> nat \<times> nat \<Rightarrow> nat \<times> nat \<Rightarrow> nat \<times> nat" where
  "zero_run [] i longest current = longest"
| "zero_run (g # gs) i longest current =
     (if g = 0 then
        (let current = (if snd current = 0 then (i, 1) else (fst current, snd current + 1)) in
         zero_run gs (i + 1) (if snd current > snd longest then current else longest) current)
      else zero_run gs (i + 1) longest (0, 0))"

definition ipv6_groups :: "nat list \<Rightarrow> string" where
  "ipv6_groups gs = join '':'' (map (digits_of 16) gs)"

definition ipv6_to_string :: "nat list \<Rightarrow> string" where
  "ipv6_to_string gs =
     (if take 5 gs = replicate 5 0 \<and> gs ! 5 = 65535 then
        ''::ffff:'' @ ipv4_to_string [gs ! 6 div 256, gs ! 6 mod 256, gs ! 7 div 256, gs ! 7 mod 256]
      else
        (case zero_run gs 0 (0, 0) (0, 0) of (start, len) \<Rightarrow>
           if len > 1 then ipv6_groups (take start gs) @ ''::'' @ ipv6_groups (drop (start + len) gs)
           else ipv6_groups gs))"

section \<open>Parsing\<close>

text \<open>Each reader returns what it read and the rest of the input, or nothing.\<close>

fun read_digits :: "nat \<Rightarrow> nat \<Rightarrow> string \<Rightarrow> nat \<times> nat \<times> string" where
  "read_digits radix acc [] = (acc, 0, [])"
| "read_digits radix acc (c # cs) = (case to_digit radix c of
       None \<Rightarrow> (acc, 0, c # cs)
     | Some d \<Rightarrow> (case read_digits radix (acc * radix + d) cs of (v, n, rest) \<Rightarrow> (v, Suc n, rest)))"

definition read_number :: "nat \<Rightarrow> nat \<Rightarrow> nat \<Rightarrow> bool \<Rightarrow> string \<Rightarrow> (nat \<times> string) option" where
  "read_number radix max_digits bound allow_zero_prefix s =
     (case read_digits radix 0 s of (v, n, rest) \<Rightarrow>
        if n > max_digits \<or> n = 0 then None
        else if \<not> allow_zero_prefix \<and> take 1 s = ''0'' \<and> n > 1 then None
        else if v < bound then Some (v, rest) else None)"

definition read_separator :: "char \<Rightarrow> nat \<Rightarrow> (string \<Rightarrow> ('a \<times> string) option) \<Rightarrow> string \<Rightarrow> ('a \<times> string) option" where
  "read_separator sep i inner s =
     (if i = 0 then inner s else (case s of c # cs \<Rightarrow> if c = sep then inner cs else None | [] \<Rightarrow> None))"

fun read_octets :: "nat \<Rightarrow> nat \<Rightarrow> string \<Rightarrow> (nat list \<times> string) option" where
  "read_octets 0 i s = Some ([], s)"
| "read_octets (Suc n) i s = Option.bind (read_separator CHR ''.'' i (read_number 10 3 256 False) s)
     (\<lambda>(v, rest). map_option (\<lambda>(vs, rest). (v # vs, rest)) (read_octets n (i + 1) rest))"

definition read_ipv4_addr :: "string \<Rightarrow> (nat list \<times> string) option" where
  "read_ipv4_addr s = read_octets 4 0 s"

text \<open>\<open>read_groups n i\<close> fills the \<open>n\<close> groups left, the next one having index \<open>i\<close>.\<close>

fun read_groups :: "nat \<Rightarrow> nat \<Rightarrow> string \<Rightarrow> nat list \<times> bool \<times> string" where
  "read_groups 0 i s = ([], False, s)"
| "read_groups (Suc n) i s =
     (case (if n > 0 then read_separator CHR '':'' i read_ipv4_addr s else None) of
        Some (os, rest) \<Rightarrow> ([os ! 0 * 256 + os ! 1, os ! 2 * 256 + os ! 3], True, rest)
      | None \<Rightarrow> (case read_separator CHR '':'' i (read_number 16 4 65536 True) s of
            None \<Rightarrow> ([], False, s)
          | Some (g, rest) \<Rightarrow> (case read_groups n (i + 1) rest of (gs, v4, rest) \<Rightarrow> (g # gs, v4, rest))))"

definition read_ipv6_addr :: "string \<Rightarrow> (nat list \<times> string) option" where
  "read_ipv6_addr s =
     (case read_groups 8 0 s of (head, head_ipv4, rest) \<Rightarrow>
        if length head = 8 then Some (head, rest)
        else if head_ipv4 then None
        else Option.bind (strip_prefix ''::'' rest) (\<lambda>rest.
          case read_groups (8 - (length head + 1)) 0 rest of (tail, _, rest) \<Rightarrow>
            Some (head @ replicate (8 - length head - length tail) 0 @ tail, rest)))"

definition whole :: "('a \<times> string) option \<Rightarrow> 'a option" where
  "whole r = (case r of Some (v, []) \<Rightarrow> Some v | _ \<Rightarrow> None)"

definition parse_ip_addr :: "string \<Rightarrow> ip_addr option" where
  "parse_ip_addr s = whole (case read_ipv4_addr s of
       Some (os, rest) \<Rightarrow> Some (IpV4 os, rest)
     | None \<Rightarrow> map_option (\<lambda>(gs, rest). (IpV6 gs, rest)) (read_ipv6_addr s))"

section \<open>IPv4 texts are read back\<close>

definition digits_value :: "nat \<Rightarrow> nat \<Rightarrow> string \<Rightarrow> nat" where
  "digits_value radix acc ds = foldl (\<lambda>a c. a * radix + the (to_digit radix c)) acc ds"

lemma read_digits_append:
  assumes "\<forall>c\<in>set ds. to_digit radix c \<noteq> None" "case rest of [] \<Rightarrow> True | c # _ \<Rightarrow> to_digit radix c = None"
  shows "read_digits radix acc (ds @ rest) = (digits_value radix acc ds, length ds, rest)"
  using assms
proof (induction ds arbitrary: acc)
  case Nil
  then show ?case by (cases rest) (simp_all add: digits_value_def)
next
  case (Cons c ds)
  then show ?case by (auto simp: digits_value_def)
qed

lemma digits_value_of:
  assumes "2 \<le> radix" "radix \<le> 36"
  shows "digits_value radix 0 (digits_of radix n) = n \<and> (\<forall>c\<in>set (digits_of radix n). to_digit radix c \<noteq> None)"
  using assms
proof (induction radix n rule: digits_of.induct)
  case (1 radix n)
  have digit: "to_digit radix (digit_char d) = Some d" if "d < radix" for d
    using that 1 by (simp add: to_digit_digit_char)
  show ?case
    using 1 by (cases "n < radix")
      (simp_all add: digits_of.simps[of radix n] digit digits_value_def)
qed

lemma read_number_digits_of:
  assumes "2 \<le> radix" "radix \<le> 36" "n < bound" "length (digits_of radix n) \<le> max_digits"
    "case rest of [] \<Rightarrow> True | c # _ \<Rightarrow> to_digit radix c = None"
    "zeros \<or> take 1 (digits_of radix n) = ''0'' \<longrightarrow> n = 0 \<or> zeros"
  shows "read_number radix max_digits bound zeros (digits_of radix n @ rest) = Some (n, rest)"
proof -
  have read: "read_digits radix 0 (digits_of radix n @ rest) = (n, length (digits_of radix n), rest)"
    using read_digits_append[OF _ assms(5), of "digits_of radix n" 0] digits_value_of[OF assms(1,2), of n]
    by simp
  have first: "take 1 (digits_of radix n @ rest) = take 1 (digits_of radix n)"
    by (cases "digits_of radix n") simp_all
  have short: "length (digits_of radix 0) = 1" using assms(1) by (simp add: digits_of.simps)
  show ?thesis
    using assms(3,4,6) short by (auto simp: read_number_def read first simp del: append_eq_Cons_conv)
qed

lemma leading_zero:
  "2 \<le> radix \<Longrightarrow> radix \<le> 36 \<Longrightarrow> take 1 (digits_of radix n) = ''0'' \<Longrightarrow> n = 0"
proof (induction radix n rule: digits_of.induct)
  case (1 radix n)
  show ?case
  proof (cases "n < radix")
    case True
    have "to_digit radix (digit_char n) = Some n" using True 1 by (simp add: to_digit_digit_char)
    moreover have "to_digit radix CHR ''0'' = Some 0" using 1 by (simp add: to_digit_def ascii_defs)
    ultimately show ?thesis using True 1 by (auto simp: digits_of.simps[of radix n])
  next
    case False
    have "take 1 (digits_of radix n) = take 1 (digits_of radix (n div radix))"
      using False 1 by (cases "digits_of radix (n div radix)") (simp_all add: digits_of.simps[of radix n])
    then have "n div radix = 0" using False 1 by simp
    then show ?thesis using False 1 by (simp add: div_eq_0_iff)
  qed
qed

lemma read_octet:
  assumes "n < 256" "case rest of [] \<Rightarrow> True | c # _ \<Rightarrow> to_digit 10 c = None"
  shows "read_number 10 3 256 False (digits_of 10 n @ rest) = Some (n, rest)"
proof (rule read_number_digits_of)
  show "length (digits_of 10 n) \<le> 3"
    using assms(1) by (intro length_digits_of) simp_all
qed (use assms leading_zero[of 10 n] in auto)

text \<open>A printed IPv4 address is read back.\<close>

lemma parse_ipv4_to_string:
  assumes "a < 256" "b < 256" "c < 256" "d < 256"
  shows "parse_ip_addr (ipv4_to_string [a, b, c, d]) = Some (IpV4 [a, b, c, d])"
proof -
  have dot: "to_digit 10 CHR ''.'' = None" by (simp add: to_digit_def ascii_defs)
  have four: "read_octets 4 0 s = read_octets (Suc (Suc (Suc (Suc 0)))) 0 s" for s
    by (simp only: numeral_eq_Suc pred_numeral_simps BitM.simps)
  have "read_ipv4_addr (ipv4_to_string [a, b, c, d]) = Some ([a, b, c, d], [])"
    using assms read_octet[of d "[]"] four
    by (simp add: read_ipv4_addr_def ipv4_to_string_def read_separator_def read_octet dot)
  then show ?thesis by (simp add: parse_ip_addr_def whole_def)
qed

end
