(* ===== verification/Ingest_Admission.thy ===== *)
theory Ingest_Admission
  imports Ingest_Scrub Dispatcher
begin

text \<open>
  Admission of ingest requests, \<^verbatim>\<open>crates/application/src/ingest.rs\<close>: one authentication key, consistency of
  the project, and the fixed one-minute windows that limit feedback submissions and monitor
  check-ins per project. A window table is a finite map from projects to windows (the source's
  \<^verbatim>\<open>HashMap\<close>, whose order is not observed); nothing that runs under its mutex panics, so the poisoned
  lock is left out.
\<close>

section \<open>Requests\<close>

definition MAX_AUTH_SOURCES :: nat where "MAX_AUTH_SOURCES = 4"

definition one_auth_key :: "dsn_key list \<Rightarrow> ingest_error + dsn_key" where
  "one_auth_key keys =
     (if keys = [] \<or> length keys > MAX_AUTH_SOURCES then Inl (IngestError Ing_Unauthorized ''unauthorized'')
      else if list_ex (\<lambda>key. key \<noteq> hd keys) keys then Inl (IngestError_invalid ''conflicting_auth'')
      else Inr (hd keys))"

definition validate_project_consistency ::
  "nat \<Rightarrow> nat option \<Rightarrow> project_snapshot \<Rightarrow> nat \<Rightarrow> ingest_error + unit" where
  "validate_project_consistency path_project_id dsn_project snapshot wire_project_id =
     (if wire_project_id \<noteq> path_project_id \<or> ps_state snapshot \<noteq> Project_Active
         \<or> ps_key_state snapshot \<noteq> Key_Active
         \<or> is_some_and dsn_project (\<lambda>project. project \<noteq> wire_project_id)
      then Inl (IngestError Ing_Unauthorized ''unauthorized'') else Inr ())"

section \<open>Rate windows\<close>

record rate_window =
  rw_opened_at :: int
  rw_submissions :: nat

type_synonym rate_windows = "(project_id, rate_window) btree_map"

record feedback_ingest_config =
  fc_retention_days :: nat
  fc_max_message_bytes :: nat
  fc_max_name_bytes :: nat
  fc_max_contact_bytes :: nat
  fc_max_url_bytes :: nat
  fc_max_attachments :: nat
  fc_max_attachment_bytes :: nat
  fc_max_total_attachment_bytes :: nat
  fc_max_submissions_per_minute :: nat
  fc_limiter_capacity :: nat
  fc_allow_png_screenshots :: bool

definition FeedbackIngestConfig_default :: feedback_ingest_config where
  "FeedbackIngestConfig_default = \<lparr>fc_retention_days = 90, fc_max_message_bytes = 4 * 1024,
     fc_max_name_bytes = 256, fc_max_contact_bytes = 320, fc_max_url_bytes = 2 * 1024,
     fc_max_attachments = 3, fc_max_attachment_bytes = 2 * 1024 * 1024,
     fc_max_total_attachment_bytes = 5 * 1024 * 1024, fc_max_submissions_per_minute = 30,
     fc_limiter_capacity = 10000, fc_allow_png_screenshots = False\<rparr>"

record monitor_ingest_config =
  mc_retention_days :: nat
  mc_max_check_ins_per_minute :: nat
  mc_limiter_capacity :: nat

definition MonitorIngestConfig_default :: monitor_ingest_config where
  "MonitorIngestConfig_default = \<lparr>mc_retention_days = 90, mc_max_check_ins_per_minute = 10000,
     mc_limiter_capacity = 10000\<rparr>"

definition admit_window ::
  "nat \<Rightarrow> nat \<Rightarrow> string \<Rightarrow> string \<Rightarrow> project_id \<Rightarrow> timestamp \<Rightarrow> rate_windows \<Rightarrow> ingest_error + rate_windows" where
  "admit_window maximum capacity rate_code capacity_code project now windows =
     (case map_of windows project of
        Some window \<Rightarrow>
          if saturating_sub_i64 now (rw_opened_at window) \<ge> 60000
          then Inr (bt_insert project \<lparr>rw_opened_at = now, rw_submissions = 1\<rparr> windows)
          else if rw_submissions window \<ge> maximum then Inl (IngestError_rate_limited rate_code)
          else Inr (bt_insert project
            (window\<lparr>rw_submissions := saturating_add_u32 (rw_submissions window) 1\<rparr>) windows)
      | None \<Rightarrow>
          if length windows \<ge> capacity then Inl (IngestError_rate_limited capacity_code)
          else Inr (bt_insert project \<lparr>rw_opened_at = now, rw_submissions = 1\<rparr> windows))"

definition admit_monitor ::
  "monitor_ingest_config \<Rightarrow> project_id \<Rightarrow> timestamp \<Rightarrow> rate_windows \<Rightarrow> ingest_error + rate_windows" where
  "admit_monitor c project received_at windows =
     admit_window (mc_max_check_ins_per_minute c) (mc_limiter_capacity c) ''monitor_rate_limited''
       ''monitor_limiter_capacity'' project received_at windows"

definition admit_feedback ::
  "feedback_ingest_config \<Rightarrow> project_id \<Rightarrow> timestamp \<Rightarrow> rate_windows \<Rightarrow> ingest_error + rate_windows" where
  "admit_feedback c project now windows =
     (case map_of windows project of
        Some window \<Rightarrow>
          if saturating_sub_i64 now (rw_opened_at window) \<ge> 60000
          then Inr (bt_insert project \<lparr>rw_opened_at = now, rw_submissions = 1\<rparr> windows)
          else if rw_submissions window \<ge> fc_max_submissions_per_minute c
          then Inl (IngestError_rate_limited ''feedback_rate_limited'')
          else Inr (bt_insert project
            (window\<lparr>rw_submissions := saturating_add_u32 (rw_submissions window) 1\<rparr>) windows)
      | None \<Rightarrow>
          if length windows \<ge> fc_limiter_capacity c
          then Inl (IngestError_rate_limited ''feedback_limiter_capacity'')
          else Inr (bt_insert project \<lparr>rw_opened_at = now, rw_submissions = 1\<rparr> windows))"

section \<open>What a window limiter admits\<close>

text \<open>The requests of a sequence that are admitted, and the final table.\<close>

fun admissions ::
  "(project_id \<Rightarrow> timestamp \<Rightarrow> rate_windows \<Rightarrow> ingest_error + rate_windows) \<Rightarrow> rate_windows
    \<Rightarrow> (project_id \<times> timestamp) list \<Rightarrow> (project_id \<times> timestamp) list \<times> rate_windows" where
  "admissions admit w [] = ([], w)"
| "admissions admit w ((p, now) # reqs) = (case admit p now w of
       Inl _ \<Rightarrow> admissions admit w reqs
     | Inr w' \<Rightarrow> (case admissions admit w' reqs of (acc, w'') \<Rightarrow> ((p, now) # acc, w'')))"

lemma admissions_snoc:
  "admissions admit w (reqs @ [(p, now)]) = (case admissions admit w reqs of (acc, w') \<Rightarrow>
     (case admit p now w' of Inl _ \<Rightarrow> (acc, w') | Inr w'' \<Rightarrow> (acc @ [(p, now)], w'')))"
  by (induction reqs arbitrary: w) (auto split: sum.splits prod.splits)

definition in_interval :: "project_id \<Rightarrow> int \<Rightarrow> int \<Rightarrow> (project_id \<times> timestamp) list \<Rightarrow> nat" where
  "in_interval p lo hi acc = length (filter (\<lambda>(q, t). q = p \<and> lo \<le> t \<and> t < hi) acc)"

lemma in_interval_snoc [simp]:
  "in_interval p lo hi (acc @ [(q, t)]) = in_interval p lo hi acc + (if q = p \<and> lo \<le> t \<and> t < hi then 1 else 0)"
  by (simp add: in_interval_def)

lemma in_interval_Nil [simp]: "in_interval p lo hi [] = 0" by (simp add: in_interval_def)

lemma in_interval_mono: "lo' \<le> lo \<Longrightarrow> hi \<le> hi' \<Longrightarrow> in_interval p lo hi acc \<le> in_interval p lo' hi' acc"
  unfolding in_interval_def by (induction acc) auto

lemma in_interval_split: "lo \<le> mid \<Longrightarrow> in_interval p lo hi acc \<le> in_interval p lo mid acc + in_interval p mid hi acc"
  unfolding in_interval_def by (induction acc) auto

lemma in_interval_0: "\<forall>(q, t)\<in>set acc. q = p \<longrightarrow> t < lo \<or> hi \<le> t \<Longrightarrow> in_interval p lo hi acc = 0"
  unfolding in_interval_def by (induction acc) auto

lemma length_bt_insert_present: "bt_ok m \<Longrightarrow> map_of m k \<noteq> None \<Longrightarrow> length (bt_insert k v m) = length m"
proof (induction m)
  case (Cons kv m)
  obtain a b where kv: "kv = (a, b)" by fastforce
  have "k \<in> fst ` set m" if "k \<noteq> a" using Cons.prems(2) that by (auto simp: kv dest!: map_of_SomeD intro: rev_image_eqI)
  then have "\<not> k < a" using Cons.prems(1) by (fastforce simp: kv bt_ok_Cons)
  then show ?case using Cons by (auto simp: kv bt_ok_Cons)
qed simp

text \<open>
  The contract of a window limiter: what it does with the window of a project, stated once for both
  limiters of the service.
\<close>

locale window_limiter =
  fixes admit :: "project_id \<Rightarrow> timestamp \<Rightarrow> rate_windows \<Rightarrow> ingest_error + rate_windows"
    and maximum capacity :: nat
  assumes opens: "map_of w p = None \<Longrightarrow> length w < capacity \<Longrightarrow>
      admit p now w = Inr (bt_insert p \<lparr>rw_opened_at = now, rw_submissions = 1\<rparr> w)"
    and full: "map_of w p = None \<Longrightarrow> capacity \<le> length w \<Longrightarrow> \<exists>e. admit p now w = Inl e"
    and reopens: "map_of w p = Some r \<Longrightarrow> 60000 \<le> saturating_sub_i64 now (rw_opened_at r) \<Longrightarrow>
      admit p now w = Inr (bt_insert p \<lparr>rw_opened_at = now, rw_submissions = 1\<rparr> w)"
    and counts: "map_of w p = Some r \<Longrightarrow> saturating_sub_i64 now (rw_opened_at r) < 60000 \<Longrightarrow>
      rw_submissions r < maximum \<Longrightarrow>
      admit p now w = Inr (bt_insert p (r\<lparr>rw_submissions := saturating_add_u32 (rw_submissions r) 1\<rparr>) w)"
    and limits: "map_of w p = Some r \<Longrightarrow> saturating_sub_i64 now (rw_opened_at r) < 60000 \<Longrightarrow>
      maximum \<le> rw_submissions r \<Longrightarrow> \<exists>e. admit p now w = Inl e"
begin

definition window_ok :: "(project_id \<times> timestamp) list \<Rightarrow> project_id \<Rightarrow> rate_window \<Rightarrow> bool" where
  "window_ok acc p r =
     (rw_submissions r \<le> max 1 maximum
      \<and> in_interval p (rw_opened_at r) (rw_opened_at r + 60000) acc = rw_submissions r
      \<and> in_interval p (rw_opened_at r - 60000) (rw_opened_at r) acc \<le> max 1 maximum
      \<and> (\<forall>(q, t)\<in>set acc. q = p \<longrightarrow> t < rw_opened_at r + 60000))"

definition limiter_ok :: "(project_id \<times> timestamp) list \<Rightarrow> rate_windows \<Rightarrow> timestamp \<Rightarrow> bool" where
  "limiter_ok acc w now =
     (bt_ok w \<and> length w \<le> capacity
      \<and> (\<forall>p. case map_of w p of
            None \<Rightarrow> \<forall>t. (p, t) \<notin> set acc
          | Some r \<Rightarrow> window_ok acc p r \<and> rw_opened_at r \<le> now \<and> timestamp_ok (rw_opened_at r))
      \<and> (\<forall>p t. in_interval p t (t + 60000) acc \<le> 2 * max 1 maximum))"

lemma window_ok_other: "q \<noteq> p \<Longrightarrow> window_ok (acc @ [(q, t)]) p r = window_ok acc p r"
  by (auto simp: window_ok_def)

lemma window_ok_count:
  assumes "window_ok acc p r" "rw_submissions r < maximum" "maximum \<le> u32_max"
    "rw_opened_at r \<le> now" "now < rw_opened_at r + 60000"
  shows "window_ok (acc @ [(p, now)]) p (r\<lparr>rw_submissions := saturating_add_u32 (rw_submissions r) 1\<rparr>)"
  using assms by (auto simp: window_ok_def saturating_add_u32_def)

lemma window_ok_reopen:
  assumes "window_ok acc p r" "rw_opened_at r + 60000 \<le> now"
  shows "window_ok (acc @ [(p, now)]) p \<lparr>rw_opened_at = now, rw_submissions = 1\<rparr>"
proof -
  have late: "\<forall>(q, t)\<in>set acc. q = p \<longrightarrow> t < rw_opened_at r + 60000" using assms(1) by (simp add: window_ok_def)
  have "in_interval p now (now + 60000) acc = 0" using late assms(2) by (intro in_interval_0) auto
  moreover have "in_interval p (now - 60000) now acc \<le> in_interval p (rw_opened_at r) now acc"
    using assms(2) by (intro in_interval_mono) simp_all
  moreover have "in_interval p (rw_opened_at r) now acc
      \<le> in_interval p (rw_opened_at r) (rw_opened_at r + 60000) acc + in_interval p (rw_opened_at r + 60000) now acc"
    by (rule in_interval_split) simp
  moreover have "in_interval p (rw_opened_at r + 60000) now acc = 0"
    using late by (intro in_interval_0) auto
  moreover have "in_interval p (rw_opened_at r) (rw_opened_at r + 60000) acc \<le> max 1 maximum"
    using assms(1) by (simp add: window_ok_def)
  ultimately have "in_interval p (now - 60000) now acc \<le> max 1 maximum" by linarith
  then show ?thesis using late assms(2) \<open>in_interval p now (now + 60000) acc = 0\<close>
    by (auto simp: window_ok_def)
qed

lemma window_ok_open:
  "\<forall>t. (p, t) \<notin> set acc \<Longrightarrow> window_ok (acc @ [(p, now)]) p \<lparr>rw_opened_at = now, rw_submissions = 1\<rparr>"
proof -
  assume new: "\<forall>t. (p, t) \<notin> set acc"
  then have "in_interval p lo hi acc = 0" for lo hi by (intro in_interval_0) auto
  with new show ?thesis by (auto simp: window_ok_def)
qed

text \<open>An interval that does not begin before the previous window holds at most two windows.\<close>

lemma interval_bound:
  assumes "window_ok acc p r" "rw_opened_at r - 60000 \<le> t"
  shows "in_interval p t hi acc \<le> 2 * max 1 maximum"
proof -
  let ?o = "rw_opened_at r"
  have "in_interval p t hi acc \<le> in_interval p (?o - 60000) hi acc" using assms(2) by (intro in_interval_mono) simp_all
  also have "\<dots> \<le> in_interval p (?o - 60000) ?o acc + in_interval p ?o hi acc" by (rule in_interval_split) simp
  also have "in_interval p ?o hi acc \<le> in_interval p ?o (?o + 60000) acc + in_interval p (?o + 60000) hi acc"
    by (rule in_interval_split) simp
  also have "in_interval p (?o + 60000) hi acc = 0"
    using assms(1) by (intro in_interval_0) (auto simp: window_ok_def)
  finally show ?thesis using assms(1) by (simp add: window_ok_def)
qed

lemma sub_exact: "timestamp_ok a \<Longrightarrow> timestamp_ok b \<Longrightarrow> saturating_sub_i64 a b = a - b"
  by (simp add: saturating_sub_i64_def timestamp_ok_def MIN_TIMESTAMP_MILLIS_def MAX_TIMESTAMP_MILLIS_def)

text \<open>What an admission does: the window of the project is opened, reopened or counted.\<close>

lemma admit_ok:
  assumes "admit p now w = Inr w'" "limiter_ok acc w t0" "t0 \<le> now" "timestamp_ok now" "maximum \<le> u32_max"
  obtains r' where "w' = bt_insert p r' w" "window_ok (acc @ [(p, now)]) p r'" "rw_opened_at r' \<le> now"
    "timestamp_ok (rw_opened_at r')" "length w' \<le> capacity"
proof (cases "map_of w p")
  case None
  have cap: "length w < capacity" using full[OF None, of now] assms(1) by (cases "length w < capacity") auto
  have len: "length (bt_insert p r' w) \<le> capacity" for r' using length_bt_insert[of p r' w] cap by simp
  have "\<forall>t. (p, t) \<notin> set acc" using assms(2) None by (auto simp: limiter_ok_def dest: spec[of _ p])
  then show thesis
    using that[of "\<lparr>rw_opened_at = now, rw_submissions = 1\<rparr>"] opens[OF None cap, of now] assms(1,4)
      window_ok_open[of p acc now] len by auto
next
  case (Some r)
  have r: "window_ok acc p r" "rw_opened_at r \<le> now" "timestamp_ok (rw_opened_at r)"
    using assms(2,3) Some by (auto simp: limiter_ok_def dest: spec[of _ p])
  have len: "length (bt_insert p r' w) \<le> capacity" for r'
    using assms(2) Some by (auto simp: limiter_ok_def length_bt_insert_present)
  note sub = sub_exact[OF assms(4) r(3)]
  show thesis
  proof (cases "60000 \<le> now - rw_opened_at r")
    case True
    then show thesis
      using that[of "\<lparr>rw_opened_at = now, rw_submissions = 1\<rparr>"] reopens[OF Some, of now] assms(1,4) sub
        window_ok_reopen[OF r(1), of now] len by simp
  next
    case False
    have "rw_submissions r < maximum"
      using limits[OF Some, of now] assms(1) sub False by (cases "rw_submissions r < maximum") auto
    with False show thesis
      using that[of "r\<lparr>rw_submissions := saturating_add_u32 (rw_submissions r) 1\<rparr>"]
        counts[OF Some, of now] assms(1,5) sub r len window_ok_count[OF r(1), of now] by simp
  qed
qed

lemma limiter_step:
  assumes "admit p now w = Inr w'" "limiter_ok acc w t0" "t0 \<le> now" "timestamp_ok now" "maximum \<le> u32_max"
  shows "limiter_ok (acc @ [(p, now)]) w' now"
proof -
  obtain r' where r': "w' = bt_insert p r' w" "window_ok (acc @ [(p, now)]) p r'" "rw_opened_at r' \<le> now"
    "timestamp_ok (rw_opened_at r')" "length w' \<le> capacity"
    using admit_ok[OF assms] .
  have "in_interval q t (t + 60000) (acc @ [(p, now)]) \<le> 2 * max 1 maximum" for q t
  proof (cases "q = p \<and> t \<le> now \<and> now < t + 60000")
    case True
    then have "rw_opened_at r' - 60000 \<le> t" using r'(3) by simp
    then show ?thesis using interval_bound[OF r'(2)] True by blast
  next
    case False
    then show ?thesis using assms(2) by (auto simp: limiter_ok_def)
  qed
  moreover have "case map_of w' q of None \<Rightarrow> \<forall>t. (q, t) \<notin> set (acc @ [(p, now)])
      | Some r \<Rightarrow> window_ok (acc @ [(p, now)]) q r \<and> rw_opened_at r \<le> now \<and> timestamp_ok (rw_opened_at r)" for q
    using assms(2,3) r'(1-4) window_ok_other[of p q]
    by (cases "q = p") (force simp: limiter_ok_def dest: spec[of _ q] split: option.splits)+
  ultimately show ?thesis using assms(2) r'(1,5) by (simp add: limiter_ok_def bt_ok_insert)
qed

lemma limiter_later: "limiter_ok acc w t0 \<Longrightarrow> t0 \<le> now \<Longrightarrow> limiter_ok acc w now"
  by (force simp: limiter_ok_def split: option.splits)

lemma admissions_ok:
  assumes "maximum \<le> u32_max" "list_all (\<lambda>(_, t). timestamp_ok t) reqs" "sorted (map snd reqs)"
    "\<forall>(_, t)\<in>set reqs. t \<le> last_t"
  shows "case admissions admit [] reqs of (acc, w) \<Rightarrow> limiter_ok acc w last_t \<and> set acc \<subseteq> set reqs"
  using assms(2-)
proof (induction reqs arbitrary: last_t rule: rev_induct)
  case Nil
  then show ?case by (simp add: limiter_ok_def)
next
  case (snoc q reqs)
  obtain p now where q: "q = (p, now)" by fastforce
  obtain acc w where acc: "admissions admit [] reqs = (acc, w)" by fastforce
  have "\<forall>(_, t)\<in>set reqs. t \<le> now" using snoc.prems(2) by (auto simp: q sorted_append)
  then have "limiter_ok acc w now" "set acc \<subseteq> set reqs"
    using snoc.IH[of now] snoc.prems by (simp_all add: q acc sorted_append)
  then show ?case
    using snoc.prems limiter_step[of p now w _ acc now] limiter_later[of acc w now last_t]
      limiter_later[of _ _ now last_t] assms(1)
    by (auto simp: q admissions_snoc acc split: sum.splits)
qed

lemma admissions_bounded:
  assumes "maximum \<le> u32_max" "list_all (\<lambda>(_, t). timestamp_ok t) reqs" "sorted (map snd reqs)"
    "admissions admit [] reqs = (acc, w)"
  shows "in_interval p t (t + 60000) acc \<le> 2 * max 1 maximum"
    and "card (fst ` set acc) \<le> capacity" and "length w \<le> capacity"
proof -
  define last_t where "last_t = (if reqs = [] then 0 else last (map snd reqs))"
  have "\<forall>(_, t)\<in>set reqs. t \<le> last_t"
    using assms(3) by (cases reqs rule: rev_cases) (auto simp: last_t_def sorted_append)
  from admissions_ok[OF assms(1-3) this] have ok: "limiter_ok acc w last_t" by (simp add: assms(4))
  then show "in_interval p t (t + 60000) acc \<le> 2 * max 1 maximum" and len: "length w \<le> capacity"
    by (simp_all add: limiter_ok_def)
  have "p \<in> fst ` set w" if "(p, t) \<in> set acc" for p t
  proof (rule ccontr)
    assume "p \<notin> fst ` set w"
    then have none: "map_of w p = None" by (simp add: map_of_eq_None_iff)
    have "case map_of w p of None \<Rightarrow> \<forall>t. (p, t) \<notin> set acc
          | Some r \<Rightarrow> window_ok acc p r \<and> rw_opened_at r \<le> last_t \<and> timestamp_ok (rw_opened_at r)"
      using ok by (simp add: limiter_ok_def)
    with none that show False by simp
  qed
  then have "fst ` set acc \<subseteq> fst ` set w" by auto
  then have "card (fst ` set acc) \<le> card (fst ` set w)" by (intro card_mono) simp_all
  also have "\<dots> \<le> length w" using card_image_le[of "set w" fst] card_length[of w] by simp
  finally show "card (fst ` set acc) \<le> capacity" using len by simp
qed

end

interpretation monitor_windows:
  window_limiter "admit_monitor c" "mc_max_check_ins_per_minute c" "mc_limiter_capacity c" for c
  by unfold_locales (auto simp: admit_monitor_def admit_window_def)

interpretation feedback_windows:
  window_limiter "admit_feedback c" "fc_max_submissions_per_minute c" "fc_limiter_capacity c" for c
  by unfold_locales (auto simp: admit_feedback_def)


definition sample_reqs :: "(project_id \<times> timestamp) list" where
  "sample_reqs = [(1, 0), (1, 59999), (2, 59999), (1, 60000), (1, 60001)]"

definition sample_monitor_limits :: monitor_ingest_config where
  "sample_monitor_limits = \<lparr>mc_retention_days = 90, mc_max_check_ins_per_minute = 1, mc_limiter_capacity = 1\<rparr>"


text \<open>Windows are never removed: once the table is full, a project without a window is refused at any time.\<close>

lemma full_table_refuses:
  assumes "mc_limiter_capacity c \<le> length w" "map_of w p = None"
  shows "admit_monitor c p now w = Inl (IngestError_rate_limited ''monitor_limiter_capacity'')"
  using assms by (simp add: admit_monitor_def admit_window_def)

end
