(* ===== verification/Ingest_Signals.thy ===== *)
theory Ingest_Signals
  imports Ingest_Admission Monitors Sessions
begin

text \<open>
  Conversion of the structured items of a request into records, \<^verbatim>\<open>crates/application/src/ingest.rs\<close>: logs,
  transactions with their spans, span containers, sessions and monitor check-ins. Every payload is
  parsed, scrubbed and then read field by field. A float is its 64-bit pattern; the conversions between
  floats and integers, \<^verbatim>\<open>uuid\<close>, the RFC 3339 parser of the \<^verbatim>\<open>time\<close> crate and the calendar are parameters.
\<close>

type_synonym f64 = "64 word"

record 'u signal_ops = "'u ingest_ops" +
  sg_as_f64 :: "json_number \<Rightarrow> f64 option"
  sg_parse_f64 :: "string \<Rightarrow> f64 option"
  sg_nanos :: "f64 \<Rightarrow> int option"
  sg_duration_ms :: "f64 \<Rightarrow> nat option"
  sg_millis :: "f64 \<Rightarrow> int option"
  sg_uuid_parse :: "string \<Rightarrow> bytes option"
  sg_rfc3339_nanos :: "string \<Rightarrow> int option"
  sg_calendar :: "int \<Rightarrow> date_time option"

definition f64_is_finite :: "f64 \<Rightarrow> bool" where
  "f64_is_finite x = (drop_bit 52 x mod 2048 \<noteq> 2047)"

abbreviation ops_of :: "'u signal_ops \<Rightarrow> 'u ingest_ops" where
  "ops_of X \<equiv> ingest_ops.truncate X"

section \<open>Fields\<close>

fun json_as_f64 :: "'u signal_ops \<Rightarrow> json \<Rightarrow> f64 option" where
  "json_as_f64 X (J_Number n) = sg_as_f64 X n"
| "json_as_f64 X _ = None"

definition opt_filter :: "('a \<Rightarrow> bool) \<Rightarrow> 'a option \<Rightarrow> 'a option" where
  "opt_filter p v = (case v of Some x \<Rightarrow> if p x then Some x else None | None \<Rightarrow> None)"

text \<open>\<open>sg_nanos\<close> multiplies by a billion, checks the range of \<^verbatim>\<open>i64\<close> and rounds.\<close>

definition seconds_to_ns :: "'u signal_ops \<Rightarrow> json \<Rightarrow> ingest_error + int" where
  "seconds_to_ns X v =
     and_then (ok_or (IngestError_invalid ''invalid_signal_timestamp'')
       (opt_filter f64_is_finite (opt_or (json_as_f64 X v) (Option.bind (json_as_str v) (sg_parse_f64 X))))) (\<lambda>seconds.
     ok_or (IngestError_invalid ''signal_timestamp_out_of_range'') (sg_nanos X seconds))"

definition attribute_string :: "json_map option \<Rightarrow> string \<Rightarrow> string option" where
  "attribute_string attributes key =
     Option.bind attributes (\<lambda>m. Option.bind (map_of m key) (\<lambda>v.
       opt_or (get_str v ''value'') (json_as_str v)))"

definition truncate_text :: "string \<Rightarrow> nat \<Rightarrow> string" where
  "truncate_text v maximum =
     (if length v \<le> maximum then v else take (boundary_at_or_below v maximum) v)"

definition attribute_boxed :: "json_map option \<Rightarrow> string \<Rightarrow> nat \<Rightarrow> string option" where
  "attribute_boxed attributes key maximum =
     map_option (\<lambda>v. truncate_text v maximum) (attribute_string attributes key)"

definition optional_bounded :: "json option \<Rightarrow> nat \<Rightarrow> string option" where
  "optional_bounded v maximum = map_option (\<lambda>v. truncate_text v maximum) (Option.bind v json_as_str)"

definition normalize_span_name :: "string \<Rightarrow> ingest_error + string" where
  "normalize_span_name v =
     (if has_control v then Inl (IngestError_invalid ''span_name_too_large'') else Inr (truncate_text v 1024))"

definition bounded_text :: "string \<Rightarrow> nat \<Rightarrow> string \<Rightarrow> ingest_error + string" where
  "bounded_text v maximum code =
     (if has_control v \<or> length v > maximum then Inl (IngestError_invalid code) else Inr v)"

definition required_trace_id :: "'u signal_ops \<Rightarrow> json option \<Rightarrow> ingest_error + trace_id" where
  "required_trace_id X v =
     and_then (ok_or (IngestError_invalid ''missing_trace_id'') (Option.bind v json_as_str)) (\<lambda>t.
     map_err (\<lambda>_. IngestError_invalid ''invalid_trace_id'') (TraceId_parse (io_hex_decode X) t))"

definition required_span_id :: "'u signal_ops \<Rightarrow> json option \<Rightarrow> ingest_error + span_id" where
  "required_span_id X v =
     and_then (ok_or (IngestError_invalid ''missing_span_id'') (Option.bind v json_as_str)) (\<lambda>t.
     map_err (\<lambda>_. IngestError_invalid ''invalid_span_id'') (SpanId_parse (io_hex_decode X) t))"

text \<open>\<^verbatim>\<open>map(parse).transpose().map_err\<close>.\<close>

definition opt_parse :: "('a \<Rightarrow> 'e + 'b) \<Rightarrow> ingest_error \<Rightarrow> 'a option \<Rightarrow> ingest_error + 'b option" where
  "opt_parse parse e v = map_err (\<lambda>_. e) (transpose_opt (map_option parse v))"

text \<open>Parse and scrub a payload; containers hold their items under \<^verbatim>\<open>items\<close> or are one item themselves.\<close>

definition scrubbed_json ::
  "'u signal_ops \<Rightarrow> project_snapshot \<Rightarrow> string \<Rightarrow> bytes \<Rightarrow> ingest_error + json" where
  "scrubbed_json X snapshot code payload =
     and_then (ok_or (IngestError_invalid code) (jo_from_slice (io_json X) payload)) (\<lambda>v.
     scrub_value (ops_of X) (ps_scrub_policy snapshot) 0 None v)"

definition container_items :: "json \<Rightarrow> json list" where
  "container_items container =
     unwrap_or (Option.bind (json_get container ''items'') json_as_array) [container]"

fun try_map :: "('a \<Rightarrow> 'e + 'b) \<Rightarrow> 'a list \<Rightarrow> 'e + 'b list" where
  "try_map f [] = Inr []"
| "try_map f (x # xs) = and_then (f x) (\<lambda>y. and_then (try_map f xs) (\<lambda>ys. Inr (y # ys)))"

section \<open>Logs\<close>

definition log_from_value ::
  "'u signal_ops \<Rightarrow> project_snapshot \<Rightarrow> timestamp \<Rightarrow> json \<Rightarrow> ingest_error + log_record" where
  "log_from_value X snapshot received_at v =
     and_then (ok_or (IngestError_invalid ''missing_log_timestamp'') (json_get v ''timestamp'')) (\<lambda>timestamp.
     and_then (seconds_to_ns X timestamp) (\<lambda>occurred_at_ns.
     and_then (ok_or (IngestError_invalid ''missing_log_body'') (get_str v ''body'')) (\<lambda>text.
     and_then (bounded_text text 8192 ''log_body_too_large'') (\<lambda>message.
     let level = unwrap_or (get_str v ''level'') ''info'';
         attributes = Option.bind (json_get v ''attributes'') json_as_object in
     and_then (opt_parse (TraceId_parse (io_hex_decode X)) (IngestError_invalid ''invalid_log_trace_id'')
       (get_str v ''trace_id'')) (\<lambda>trace_id.
     and_then (opt_parse (SpanId_parse (io_hex_decode X)) (IngestError_invalid ''invalid_log_span_id'')
       (attribute_string attributes ''sentry.trace.parent_span_id'')) (\<lambda>span_id.
     let body = jo_to_vec (io_json X) v in
     Inr \<lparr>lr_id = LogId_deterministic (io_blake3 X) (ps_project_id snapshot) received_at occurred_at_ns body,
       lr_project_id = ps_project_id snapshot, lr_received_at = received_at, lr_occurred_at_ns = occurred_at_ns,
       lr_severity = LogSeverity_from_wire level, lr_message = message, lr_trace_id = trace_id, lr_span_id = span_id,
       lr_environment = attribute_boxed attributes ''sentry.environment'' 128,
       lr_release = attribute_boxed attributes ''sentry.release'' 256,
       lr_service = opt_or (attribute_boxed attributes ''service.name'' 256)
         (attribute_boxed attributes ''sentry.service.name'' 256),
       lr_body = body\<rparr>))))))"

definition normalize_logs ::
  "'u signal_ops \<Rightarrow> project_snapshot \<Rightarrow> timestamp \<Rightarrow> bytes \<Rightarrow> ingest_error + log_record list" where
  "normalize_logs X snapshot received_at payload =
     and_then (scrubbed_json X snapshot ''invalid_log_json'' payload) (\<lambda>container.
     let vs = container_items container in
     if vs = [] \<or> length vs > 100 then Inl (IngestError_invalid ''invalid_log_count'')
     else try_map (log_from_value X snapshot received_at) vs)"

section \<open>Spans\<close>

definition span_from_parts ::
  "'u signal_ops \<Rightarrow> project_id \<Rightarrow> timestamp \<Rightarrow> json \<Rightarrow> json_map \<Rightarrow> trace_id \<Rightarrow> span_id \<Rightarrow> bool
    \<Rightarrow> string option \<Rightarrow> string option \<Rightarrow> string option \<Rightarrow> ingest_error + span_record" where
  "span_from_parts X project received_at v m trace span is_segment environment release service =
     (let context = Option.bind (json_pointer v [''contexts'', ''trace'']) json_as_object;
          context_get = (\<lambda>k. Option.bind context (\<lambda>c. map_of c k)) in
      and_then (ok_or (IngestError_invalid ''missing_span_start'')
        (opt_or (map_of m ''start_timestamp'') (json_get v ''start_timestamp''))) (\<lambda>start.
      and_then (ok_or (IngestError_invalid ''missing_span_end'')
        (opt_or (opt_or (map_of m ''end_timestamp'') (map_of m ''timestamp'')) (json_get v ''timestamp''))) (\<lambda>finish.
      and_then (seconds_to_ns X start) (\<lambda>started_at_ns.
      and_then (seconds_to_ns X finish) (\<lambda>ended_at_ns.
      and_then (ok_or (IngestError_invalid ''invalid_span_duration'')
        (opt_filter (\<lambda>d. d \<ge> 0) (checked_i64 (ended_at_ns - started_at_ns)))) (\<lambda>duration_ns.
      let attributes = opt_or (Option.bind (opt_or (map_of m ''attributes'') (map_of m ''data'')) json_as_object)
            (Option.bind (context_get ''data'') json_as_object);
          operation = unwrap_or (opt_or (opt_or (Option.bind (map_of m ''op'') json_as_str)
            (Option.bind (context_get ''op'') json_as_str)) (attribute_string attributes ''sentry.op'')) ''unknown'';
          name = unwrap_or (Option.bind (opt_or (opt_or (map_of m ''name'') (map_of m ''description''))
            (json_get v ''transaction'')) json_as_str) ''unnamed span'';
          status = unwrap_or (opt_or (Option.bind (map_of m ''status'') json_as_str)
            (Option.bind (context_get ''status'') json_as_str)) '''' in
      and_then (opt_parse (SpanId_parse (io_hex_decode X)) (IngestError_invalid ''invalid_parent_span_id'')
        (Option.bind (opt_or (map_of m ''parent_span_id'') (context_get ''parent_span_id'')) json_as_str)) (\<lambda>parent.
      and_then (bounded_text operation 128 ''span_operation_too_large'') (\<lambda>operation'.
      and_then (bounded_text status 64 ''span_status_too_large'') (\<lambda>status'.
      and_then (normalize_span_name name) (\<lambda>name'.
      Inr \<lparr>sn_id = SpanRecordId_deterministic (io_blake3 X) project trace span, sn_project_id = project,
        sn_received_at = received_at, sn_started_at_ns = started_at_ns, sn_duration_ns = duration_ns,
        sn_trace_id = trace, sn_span_id = span, sn_parent_span_id = parent, sn_is_segment = is_segment,
        sn_operation_class = SpanOperationClass_from_operation operation, sn_operation = operation',
        sn_status = status', sn_name = name', sn_environment = environment, sn_release = release,
        sn_service = service, sn_insight_flags = 0, sn_body = jo_to_vec (io_json X) v\<rparr>))))))))))"

text \<open>
  Flags are a \<^verbatim>\<open>u32\<close>; bits 0 to 7 are slow segment, repeated queries, repeated requests, slow query,
  repeated cache access, slow queue, slow task and failed span.
\<close>

definition flag :: "bool \<Rightarrow> nat \<Rightarrow> 32 word" where
  "flag b n = (if b then push_bit n 1 else 0)"

definition insight_flags_for_span :: "span_record \<Rightarrow> 32 word" where
  "insight_flags_for_span r =
     or (or (or (or
       (flag (sn_is_segment r \<and> sn_duration_ns r \<ge> 1000000000) 0)
       (flag (sn_operation_class r = Op_Database \<and> sn_duration_ns r \<ge> 250000000) 3))
       (flag (sn_operation_class r = Op_Queue \<and> sn_duration_ns r \<ge> 500000000) 5))
       (flag (sn_operation_class r = Op_Task \<and> sn_duration_ns r \<ge> 1000000000) 6))
       (flag (\<not> sn_is_segment r \<and> sn_status r \<notin> {'''', ''ok'', ''cancelled''}) 7)"

text \<open>The counters of the loop over the spans that are not segments.\<close>

record insight_counts =
  ic_flags :: "32 word"
  ic_databases :: "(string, nat) btree_map"
  ic_http :: "(string, nat) btree_map"
  ic_cache :: nat

definition bt_increment :: "'k::linorder \<Rightarrow> ('k, nat) btree_map \<Rightarrow> ('k, nat) btree_map" where
  "bt_increment k m = bt_insert k (unwrap_or (map_of m k) 0 + 1) m"

definition count_insights :: "insight_counts \<Rightarrow> span_record \<Rightarrow> insight_counts" where
  "count_insights c r =
     (let c = c\<lparr>ic_flags := or (ic_flags c) (insight_flags_for_span r)\<rparr> in
      case sn_operation_class r of
        Op_Database \<Rightarrow> c\<lparr>ic_databases := bt_increment (sn_name r) (ic_databases c)\<rparr>
      | Op_HttpClient \<Rightarrow> c\<lparr>ic_http := bt_increment (sn_name r) (ic_http c)\<rparr>
      | Op_Cache \<Rightarrow> c\<lparr>ic_cache := ic_cache c + 1\<rparr>
      | _ \<Rightarrow> c)"

definition root_flags :: "span_record \<Rightarrow> span_record list \<Rightarrow> 32 word" where
  "root_flags root rs =
     (let c = foldl count_insights
        \<lparr>ic_flags = insight_flags_for_span root, ic_databases = [], ic_http = [], ic_cache = 0\<rparr>
        (filter (\<lambda>r. \<not> sn_is_segment r) rs)
      in or (or (or (ic_flags c) (flag (list_ex (\<lambda>(_, n). n \<ge> 5) (ic_databases c)) 1))
           (flag (list_ex (\<lambda>(_, n). n \<ge> 3) (ic_http c)) 2)) (flag (ic_cache c \<ge> 5) 4))"

definition set_flags :: "32 word \<Rightarrow> span_record \<Rightarrow> span_record" where
  "set_flags f r = r\<lparr>sn_insight_flags := unat f\<rparr>"

definition derive_insights :: "span_record list \<Rightarrow> span_record list" where
  "derive_insights rs = (case position sn_is_segment rs of
       None \<Rightarrow> map (\<lambda>r. set_flags (insight_flags_for_span r) r) rs
     | Some i \<Rightarrow> rs[i := set_flags (root_flags (rs ! i) rs) (rs ! i)])"

definition child_span ::
  "'u signal_ops \<Rightarrow> project_snapshot \<Rightarrow> timestamp \<Rightarrow> trace_id \<Rightarrow> string option \<Rightarrow> string option \<Rightarrow> string option
    \<Rightarrow> json \<Rightarrow> ingest_error + span_record" where
  "child_span X snapshot received_at trace_id environment release service child =
     and_then (ok_or (IngestError_invalid ''invalid_transaction_span'') (json_as_object child)) (\<lambda>m.
     and_then (transpose_opt (map_option (\<lambda>v. required_trace_id X (Some v)) (map_of m ''trace_id''))) (\<lambda>child_trace.
     if unwrap_or child_trace trace_id \<noteq> trace_id then Inl (IngestError_invalid ''conflicting_span_trace_id'')
     else and_then (required_span_id X (map_of m ''span_id'')) (\<lambda>span_id.
       span_from_parts X (ps_project_id snapshot) received_at child m trace_id span_id False environment release service)))"

definition normalize_transaction ::
  "'u signal_ops \<Rightarrow> project_snapshot \<Rightarrow> timestamp \<Rightarrow> bytes \<Rightarrow> ingest_error + span_record list" where
  "normalize_transaction X snapshot received_at payload =
     and_then (scrubbed_json X snapshot ''invalid_transaction_json'' payload) (\<lambda>v.
     and_then (ok_or (IngestError_invalid ''missing_transaction_trace'')
       (Option.bind (json_pointer v [''contexts'', ''trace'']) json_as_object)) (\<lambda>trace.
     and_then (required_trace_id X (map_of trace ''trace_id'')) (\<lambda>trace_id.
     and_then (required_span_id X (map_of trace ''span_id'')) (\<lambda>root_span_id.
     let environment = optional_bounded (json_get v ''environment'') 128;
         release = optional_bounded (json_get v ''release'') 256;
         service = attribute_boxed (Option.bind (map_of trace ''data'') json_as_object) ''service.name'' 256 in
     and_then (span_from_parts X (ps_project_id snapshot) received_at v trace trace_id root_span_id True
       environment release service) (\<lambda>root.
     let children = unwrap_or (Option.bind (json_get v ''spans'') json_as_array) [] in
     if length children > 1000 then Inl (IngestError_invalid ''too_many_transaction_spans'')
     else and_then (try_map (child_span X snapshot received_at trace_id environment release service) children) (\<lambda>rs.
       Inr (derive_insights (root # rs))))))))"

definition container_span ::
  "'u signal_ops \<Rightarrow> project_snapshot \<Rightarrow> timestamp \<Rightarrow> json \<Rightarrow> ingest_error + span_record" where
  "container_span X snapshot received_at v =
     and_then (ok_or (IngestError_invalid ''invalid_span_json'') (json_as_object v)) (\<lambda>m.
     and_then (required_trace_id X (map_of m ''trace_id'')) (\<lambda>trace_id.
     and_then (required_span_id X (map_of m ''span_id'')) (\<lambda>span_id.
     let attributes = Option.bind (opt_or (map_of m ''attributes'') (map_of m ''data'')) json_as_object in
     span_from_parts X (ps_project_id snapshot) received_at v m trace_id span_id
       (unwrap_or (Option.bind (map_of m ''is_segment'') json_as_bool) False)
       (attribute_boxed attributes ''sentry.environment'' 128) (attribute_boxed attributes ''sentry.release'' 256)
       (attribute_boxed attributes ''service.name'' 256))))"

definition normalize_spans ::
  "'u signal_ops \<Rightarrow> project_snapshot \<Rightarrow> timestamp \<Rightarrow> bytes \<Rightarrow> ingest_error + span_record list" where
  "normalize_spans X snapshot received_at payload =
     and_then (scrubbed_json X snapshot ''invalid_span_json'' payload) (\<lambda>container.
     let vs = container_items container in
     if vs = [] \<or> length vs > 1000 then Inl (IngestError_invalid ''invalid_span_count'')
     else and_then (try_map (container_span X snapshot received_at) vs) (\<lambda>rs. Inr (derive_insights rs)))"

definition span_filter_fields :: "span_record \<Rightarrow> filter_signal \<Rightarrow> filter_fields" where
  "span_filter_fields r signal = (InboundFilterFields_empty signal)
     \<lparr>ff_release := sn_release r, ff_environment := sn_environment r, ff_service := sn_service r,
      ff_name := Some (sn_name r), ff_operation := Some (sn_operation r), ff_status := Some (sn_status r),
      ff_duration_ms := Some (sn_duration_ns r div 1000000)\<rparr>"

definition log_filter_fields :: "log_record \<Rightarrow> filter_fields" where
  "log_filter_fields r = (InboundFilterFields_empty Sig_Log)
     \<lparr>ff_release := lr_release r, ff_environment := lr_environment r, ff_service := lr_service r,
      ff_message := Some (lr_message r), ff_severity := Some (LogSeverity_as_str (lr_severity r))\<rparr>"

section \<open>Sessions\<close>

definition MAX_RELEASE_VERSION_BYTES :: nat where "MAX_RELEASE_VERSION_BYTES = 200"

definition validate_version :: "string \<Rightarrow> bool" where
  "validate_version v = (v \<noteq> [] \<and> length v \<le> MAX_RELEASE_VERSION_BYTES)"

text \<open>\<open>sg_millis\<close> checks the range of \<^verbatim>\<open>i64\<close> milliseconds and rounds.\<close>

definition parse_session_timestamp :: "'u signal_ops \<Rightarrow> json \<Rightarrow> ingest_error + timestamp" where
  "parse_session_timestamp X v =
     and_then (case json_as_f64 X v of
         Some seconds \<Rightarrow> ok_or (IngestError_invalid ''invalid_session_timestamp'')
           (if f64_is_finite seconds then sg_millis X seconds else None)
       | None \<Rightarrow>
           and_then (ok_or (IngestError_invalid ''invalid_session_timestamp'') (json_as_str v)) (\<lambda>text.
           and_then (ok_or (IngestError_invalid ''invalid_session_timestamp'') (sg_rfc3339_nanos X text)) (\<lambda>nanos.
           ok_or (IngestError_invalid ''invalid_session_timestamp'')
             (checked_i64 (if nanos \<ge> 0 then nanos div 1000000 else - (- nanos div 1000000)))))) (\<lambda>millis.
     map_err (\<lambda>_. IngestError_invalid ''invalid_session_timestamp'') (Timestamp_from_unix_millis millis))"

definition session_uuid :: "'u signal_ops \<Rightarrow> json option \<Rightarrow> bytes option" where
  "session_uuid X v = opt_filter (\<lambda>u. u \<noteq> replicate 16 0) (Option.bind (Option.bind v json_as_str) (sg_uuid_parse X))"

definition session_status :: "string \<Rightarrow> session_state option" where
  "session_status s =
     (if s \<in> {''started'', ''ok''} then Some S_Ok else if s = ''exited'' then Some S_Exited
      else if s = ''crashed'' then Some S_Crashed else if s = ''abnormal'' then Some S_Abnormal else None)"

text \<open>\<open>sg_duration_ms\<close> keeps finite non-negative durations in the range of \<^verbatim>\<open>i64\<close> milliseconds and rounds.\<close>

definition duration_field :: "'u signal_ops \<Rightarrow> json option \<Rightarrow> nat option" where
  "duration_field X v = Option.bind (opt_filter f64_is_finite (Option.bind v (json_as_f64 X))) (sg_duration_ms X)"

text \<open>The outer option is the panic of \<^verbatim>\<open>expect\<close> when the HMAC refuses its key.\<close>

definition user_digest ::
  "'u signal_ops \<Rightarrow> scrub_policy \<Rightarrow> string option \<Rightarrow> bytes option option" where
  "user_digest X p v = (case opt_filter (\<lambda>t. t \<noteq> []) v of
       None \<Rightarrow> Some None
     | Some t \<Rightarrow> map_option (\<lambda>mac. Some (take 16 mac))
         (io_hmac_sha256 X (sp_hmac_key p) (as_bytes ''metric/session-user/v1'' @ as_bytes t)))"

definition session_fields ::
  "'u signal_ops \<Rightarrow> project_snapshot \<Rightarrow> timestamp \<Rightarrow> bytes
    \<Rightarrow> ingest_error + session_update \<times> string option" where
  "session_fields X snapshot received_at payload =
     and_then (scrubbed_json X snapshot ''invalid_session_json'' payload) (\<lambda>v.
     and_then (ok_or (IngestError_invalid ''invalid_session_json'') (json_as_object v)) (\<lambda>m.
     and_then (ok_or (IngestError_invalid ''invalid_session_id'') (session_uuid X (map_of m ''sid''))) (\<lambda>sdk_id.
     let attributes = Option.bind (map_of m ''attrs'') json_as_object in
     and_then (ok_or (IngestError_invalid ''missing_session_release'') (attribute_string attributes ''release'')) (\<lambda>release.
     if \<not> validate_version release then Inl (IngestError_invalid ''invalid_session_release'')
     else let environment = unwrap_or (attribute_string attributes ''environment'') ''production'' in
     if environment = [] \<or> length environment > 64 then Inl (IngestError_invalid ''invalid_session_environment'')
     else
     and_then (ok_or (IngestError_invalid ''missing_session_started'') (map_of m ''started'')) (\<lambda>started.
     and_then (parse_session_timestamp X started) (\<lambda>started_at.
     and_then (transpose_opt (map_option (parse_session_timestamp X) (map_of m ''timestamp''))) (\<lambda>updated.
     and_then (ok_or (IngestError_invalid ''invalid_session_status'')
       (session_status (unwrap_or (Option.bind (map_of m ''status'') json_as_str) ''ok''))) (\<lambda>state.
     Inr (\<lparr>su_id = SessionId_derive (io_blake3 X) (ps_project_id snapshot) sdk_id,
        su_project_id = ps_project_id snapshot,
        su_release_id = derive_release_id (io_blake3 X) (ps_organization_id snapshot) release,
        su_environment_id = derive_environment_id (io_blake3 X) (ps_project_id snapshot) environment,
        su_started_at = started_at, su_updated_at = unwrap_or updated received_at, su_state = state,
        su_sequence = Option.bind (map_of m ''seq'') json_as_u64,
        su_duration_ms = duration_field X (map_of m ''duration''), su_user_digest = None\<rparr>,
        opt_or (Option.bind (map_of m ''did'') json_as_str) (attribute_string attributes ''user_id''))))))))))"

definition normalize_session ::
  "'u signal_ops \<Rightarrow> project_snapshot \<Rightarrow> timestamp \<Rightarrow> bytes \<Rightarrow> (ingest_error + session_update) option" where
  "normalize_session X snapshot received_at payload =
     (case session_fields X snapshot received_at payload of
        Inl e \<Rightarrow> Some (Inl e)
      | Inr (update, user) \<Rightarrow> map_option (\<lambda>digest.
          let update = update\<lparr>su_user_digest := digest\<rparr> in
          and_then (map_err (\<lambda>_. IngestError_invalid ''invalid_session_lifecycle'') (SessionUpdate_validate update))
            (\<lambda>_. Inr update)) (user_digest X (ps_scrub_policy snapshot) user))"

section \<open>Monitor check-ins\<close>

definition checked_u32_mul :: "nat \<Rightarrow> nat \<Rightarrow> nat option" where
  "checked_u32_mul a b = (if a * b \<le> u32_max then Some (a * b) else None)"

definition u32_of_u64 :: "nat \<Rightarrow> nat option" where
  "u32_of_u64 n = (if n \<le> u32_max then Some n else None)"

definition optional_u32 :: "json_map \<Rightarrow> string \<Rightarrow> ingest_error + nat option" where
  "optional_u32 m key = transpose_opt (map_option (\<lambda>v.
     ok_or (IngestError_invalid ''invalid_monitor_config'') (Option.bind (json_as_u64 v) u32_of_u64)) (map_of m key))"

definition interval_factor :: "string option \<Rightarrow> nat option" where
  "interval_factor unit =
     (if unit = Some ''minute'' then Some 1 else if unit = Some ''hour'' then Some 60
      else if unit = Some ''day'' then Some (24 * 60) else if unit = Some ''week'' then Some (7 * 24 * 60) else None)"

definition schedule_from_json :: "json_map \<Rightarrow> ingest_error + monitor_schedule" where
  "schedule_from_json m =
     and_then (ok_or (IngestError_invalid ''missing_monitor_schedule_type'') (Option.bind (map_of m ''type'') json_as_str)) (\<lambda>kind.
     if kind = ''crontab'' then
       and_then (ok_or (IngestError_invalid ''invalid_monitor_schedule'') (Option.bind (map_of m ''value'') json_as_str)) (\<lambda>e.
       map_err (\<lambda>_. IngestError_invalid ''invalid_monitor_schedule'') (MonitorSchedule_crontab e))
     else if kind = ''interval'' then
       and_then (ok_or (IngestError_invalid ''invalid_monitor_interval'')
         (Option.bind (Option.bind (map_of m ''value'') json_as_u64) u32_of_u64)) (\<lambda>n.
       and_then (ok_or (IngestError_invalid ''invalid_monitor_interval_unit'')
         (interval_factor (Option.bind (map_of m ''unit'') json_as_str))) (\<lambda>factor.
       and_then (ok_or (IngestError_invalid ''invalid_monitor_interval'') (checked_u32_mul n factor)) (\<lambda>minutes.
       map_err (\<lambda>_. IngestError_invalid ''invalid_monitor_schedule'') (MonitorSchedule_interval minutes))))
     else Inl (IngestError_invalid ''unsupported_monitor_schedule''))"

definition normalize_monitor_definition ::
  "'u signal_ops \<Rightarrow> project_snapshot \<Rightarrow> timestamp \<Rightarrow> bytes \<Rightarrow> string \<Rightarrow> string \<Rightarrow> json
    \<Rightarrow> ingest_error + monitor_definition" where
  "normalize_monitor_definition X snapshot received_at monitor_id slug environment v =
     and_then (ok_or (IngestError_invalid ''invalid_monitor_config'') (json_as_object v)) (\<lambda>config.
     if unwrap_or (Option.bind (map_of config ''timezone'') json_as_str) ''UTC'' \<noteq> ''UTC''
     then Inl (IngestError_invalid ''unsupported_monitor_timezone'')
     else
     and_then (ok_or (IngestError_invalid ''missing_monitor_schedule'')
       (Option.bind (map_of config ''schedule'') json_as_object)) (\<lambda>schedule.
     and_then (schedule_from_json schedule) (\<lambda>schedule.
     and_then (optional_u32 config ''checkin_margin'') (\<lambda>margin.
     and_then (optional_u32 config ''max_runtime'') (\<lambda>runtime.
     and_then (ok_or (IngestError_invalid ''invalid_monitor_margin'') (checked_u32_mul (unwrap_or margin 1) 60)) (\<lambda>margin_seconds.
     and_then (ok_or (IngestError_invalid ''invalid_monitor_runtime'') (checked_u32_mul (unwrap_or runtime 30) 60)) (\<lambda>runtime_seconds.
     let c = \<lparr>mc_schedule = schedule, mc_checkin_margin_seconds = margin_seconds, mc_max_runtime_seconds = runtime_seconds\<rparr> in
     and_then (map_err (\<lambda>_. IngestError_invalid ''invalid_monitor_config'') (MonitorConfig_validate c)) (\<lambda>_.
     and_then (map_err (\<lambda>_. IngestError_invalid ''invalid_monitor_schedule'')
       (MonitorSchedule_next_after (sg_calendar X) schedule received_at)) (\<lambda>next_expected_at.
     let d = \<lparr>md_id = monitor_id, md_project_id = ps_project_id snapshot, md_slug = slug, md_name = slug,
         md_environment_id = derive_environment_id (io_blake3 X) (ps_project_id snapshot) environment,
         md_environment = environment, md_enabled = True, md_managed_by_web = False, md_revision = 1, md_config = c,
         md_uptime = None, md_next_expected_at = next_expected_at, md_last_run_id = None, md_last_status = None,
         md_last_check_in_at = None, md_created_at = received_at, md_updated_at = received_at\<rparr> in
     and_then (map_err (\<lambda>_. IngestError_invalid ''invalid_monitor_definition'') (MonitorDefinition_validate d)) (\<lambda>_.
     Inr d))))))))))"

definition saturating_add_i64 :: "int \<Rightarrow> int \<Rightarrow> int" where
  "saturating_add_i64 a b = max (- (2 ^ 63)) (min (2 ^ 63 - 1) (a + b))"

definition saturating_mul_i64 :: "int \<Rightarrow> int \<Rightarrow> int" where
  "saturating_mul_i64 a b = max (- (2 ^ 63)) (min (2 ^ 63 - 1) (a * b))"

definition check_in_started_at :: "run_status \<Rightarrow> nat option \<Rightarrow> timestamp \<Rightarrow> ingest_error + timestamp" where
  "check_in_started_at status duration_ms received_at =
     (if status = R_InProgress then Inr received_at
      else map_err (\<lambda>_. IngestError_invalid ''invalid_check_in_duration'')
        (Timestamp_from_unix_millis (saturating_sub_i64 received_at (int (min (unwrap_or duration_ms 0) i64_max)))))"

definition normalize_check_in ::
  "'u signal_ops \<Rightarrow> project_snapshot \<Rightarrow> timestamp \<Rightarrow> bytes \<Rightarrow> monitor_ingest_config
    \<Rightarrow> ingest_error + monitor_definition option \<times> monitor_run" where
  "normalize_check_in X snapshot received_at payload ingest =
     and_then (scrubbed_json X snapshot ''invalid_check_in_json'' payload) (\<lambda>v.
     and_then (ok_or (IngestError_invalid ''invalid_check_in_json'') (json_as_object v)) (\<lambda>m.
     and_then (ok_or (IngestError_invalid ''invalid_check_in_id'') (session_uuid X (map_of m ''check_in_id''))) (\<lambda>check_in_id.
     and_then (ok_or (IngestError_invalid ''missing_monitor_slug'')
       (opt_filter (\<lambda>t. t \<noteq> []) (Option.bind (map_of m ''monitor_slug'') json_as_str))) (\<lambda>slug.
     let environment = unwrap_or (Option.bind (map_of m ''environment'') json_as_str) ''production'';
         monitor_id = MonitorId_derive (io_blake3 X) (ps_project_id snapshot) slug environment in
     and_then (ok_or (IngestError_invalid ''missing_check_in_status'') (Option.bind (map_of m ''status'') json_as_str)) (\<lambda>text.
     and_then (map_err (\<lambda>_. IngestError_invalid ''invalid_check_in_status'') (run_status_parse text)) (\<lambda>status.
     if status \<in> {R_Timeout, R_Missed} then Inl (IngestError_invalid ''invalid_sdk_check_in_status'')
     else let duration_ms = duration_field X (map_of m ''duration'') in
     and_then (check_in_started_at status duration_ms received_at) (\<lambda>started_at.
     and_then (transpose_opt (map_option (normalize_monitor_definition X snapshot received_at monitor_id slug environment)
       (map_of m ''monitor_config''))) (\<lambda>d.
     and_then (opt_parse (\<lambda>d. timeout_at (md_config d) started_at) (IngestError_invalid ''invalid_monitor_runtime'')
       (opt_filter (\<lambda>_. status = R_InProgress) d)) (\<lambda>timeout.
     let release_id = map_option (derive_release_id (io_blake3 X) (ps_organization_id snapshot))
           (opt_filter validate_version (Option.bind (map_of m ''release'') json_as_str)) in
     and_then (map_err (\<lambda>_. IngestError_invalid ''invalid_monitor_retention'') (Timestamp_from_unix_millis
       (saturating_add_i64 received_at (saturating_mul_i64 (saturating_mul_i64 (int (mc_retention_days ingest)) (24 * 60 * 60)) 1000)))) (\<lambda>delete_at.
     let run = \<lparr>mr_id = MonitorRunId_sdk (io_blake3 X) monitor_id check_in_id, mr_project_id = ps_project_id snapshot,
         mr_monitor_id = monitor_id, mr_check_in_id = Some check_in_id, mr_status = status, mr_source = Src_Sdk,
         mr_scheduled_for = None, mr_started_at = started_at,
         mr_finished_at = (if run_status_terminal status then Some received_at else None),
         mr_duration_ms = duration_ms, mr_received_at = received_at, mr_release_id = release_id,
         mr_timeout_at = timeout, mr_delete_at = Some delete_at, mr_http_status = None, mr_uptime_failure = None\<rparr> in
     and_then (map_err (\<lambda>_. IngestError_invalid ''invalid_check_in'') (MonitorUpdate_validate d run)) (\<lambda>_.
     Inr (d, run))))))))))))"

section \<open>Insight flags\<close>

lemma map_of_increment: "map_of (bt_increment k m) = (map_of m)(k \<mapsto> unwrap_or (map_of m k) 0 + 1)"
  by (simp add: bt_increment_def)

definition counts_names :: "(span_record \<Rightarrow> bool) \<Rightarrow> span_record list \<Rightarrow> (string, nat) btree_map \<Rightarrow> bool" where
  "counts_names p rs m = (bt_ok m \<and> (\<forall>n. unwrap_or (map_of m n) 0 = length (filter (\<lambda>r. p r \<and> sn_name r = n) rs)))"

lemma counts_names_snoc:
  assumes "counts_names p rs m"
  shows "p r \<Longrightarrow> counts_names p (rs @ [r]) (bt_increment (sn_name r) m)"
    and "\<not> p r \<Longrightarrow> counts_names p (rs @ [r]) m"
  using assms by (auto simp: counts_names_def map_of_increment bt_increment_def bt_ok_insert)

lemma counts_names_ex:
  assumes "counts_names p rs m" "0 < k"
  shows "list_ex (\<lambda>(_, n). n \<ge> k) m \<longleftrightarrow> (\<exists>n. k \<le> length (filter (\<lambda>r. p r \<and> sn_name r = n) rs))"
proof -
  have m: "bt_ok m" "\<And>n. length (filter (\<lambda>r. p r \<and> sn_name r = n) rs) = unwrap_or (map_of m n) 0"
    using assms(1) by (simp_all add: counts_names_def)
  have "list_ex (\<lambda>(_, n). n \<ge> k) m \<longleftrightarrow> (\<exists>n c. map_of m n = Some c \<and> k \<le> c)"
    using m(1) bt_ok_distinct[of m] by (auto simp: list_ex_iff dest: map_of_SomeD intro: map_of_is_SomeI)
  also have "\<dots> \<longleftrightarrow> (\<exists>n. k \<le> unwrap_or (map_of m n) 0)"
    using assms(2) by (auto simp: unwrap_or_def split: option.splits)
  finally show ?thesis by (simp add: m(2))
qed

definition any_flag :: "nat \<Rightarrow> span_record list \<Rightarrow> bool" where
  "any_flag n rs = (\<exists>r\<in>set rs. bit (insight_flags_for_span r) n)"

definition counted :: "span_record \<Rightarrow> span_record list \<Rightarrow> insight_counts \<Rightarrow> bool" where
  "counted root rs c =
     (counts_names (\<lambda>r. sn_operation_class r = Op_Database) rs (ic_databases c)
      \<and> counts_names (\<lambda>r. sn_operation_class r = Op_HttpClient) rs (ic_http c)
      \<and> ic_cache c = length (filter (\<lambda>r. sn_operation_class r = Op_Cache) rs)
      \<and> (\<forall>n. bit (ic_flags c) n \<longleftrightarrow> any_flag n (root # rs)))"

lemma counted_snoc: "counted root rs c \<Longrightarrow> counted root (rs @ [r]) (count_insights c r)"
  by (cases "sn_operation_class r")
    (auto simp: counted_def count_insights_def Let_def counts_names_snoc any_flag_def bit_or_iff)

lemma counted_fold:
  "counted root rs (foldl count_insights
     \<lparr>ic_flags = insight_flags_for_span root, ic_databases = [], ic_http = [], ic_cache = 0\<rparr> rs)"
proof (induction rs rule: rev_induct)
  case Nil
  then show ?case by (simp add: counted_def counts_names_def any_flag_def)
qed (simp add: counted_snoc)

lemma bit_flag: "bit (flag b n :: 32 word) m \<longleftrightarrow> b \<and> m = n \<and> n < 32"
  by (auto simp: flag_def bit_simps)

lemma span_flag_bits:
  "bit (insight_flags_for_span r) n \<longleftrightarrow>
     (n = 0 \<and> sn_is_segment r \<and> sn_duration_ns r \<ge> 1000000000)
   \<or> (n = 3 \<and> sn_operation_class r = Op_Database \<and> sn_duration_ns r \<ge> 250000000)
   \<or> (n = 5 \<and> sn_operation_class r = Op_Queue \<and> sn_duration_ns r \<ge> 500000000)
   \<or> (n = 6 \<and> sn_operation_class r = Op_Task \<and> sn_duration_ns r \<ge> 1000000000)
   \<or> (n = 7 \<and> \<not> sn_is_segment r \<and> sn_status r \<notin> {'''', ''ok'', ''cancelled''})"
  by (auto simp: insight_flags_for_span_def bit_or_iff bit_flag)

lemma root_flags_bits:
  fixes rs :: "span_record list"
  defines "cs \<equiv> filter (\<lambda>r. \<not> sn_is_segment r) rs"
  shows "bit (root_flags root rs) n \<longleftrightarrow> any_flag n (root # cs)
    \<or> (n = 1 \<and> (\<exists>name. 5 \<le> length (filter (\<lambda>r. sn_operation_class r = Op_Database \<and> sn_name r = name) cs)))
    \<or> (n = 2 \<and> (\<exists>name. 3 \<le> length (filter (\<lambda>r. sn_operation_class r = Op_HttpClient \<and> sn_name r = name) cs)))
    \<or> (n = 4 \<and> 5 \<le> length (filter (\<lambda>r. sn_operation_class r = Op_Cache) cs))"
proof -
  note c = counted_fold[of root cs, unfolded counted_def]
  show ?thesis
    unfolding root_flags_def Let_def cs_def[symmetric]
    using c counts_names_ex[of _ cs _ 5] counts_names_ex[of _ cs _ 3]
    by (auto simp: bit_or_iff bit_flag)
qed

lemma bit_set_flags: "bit (sn_insight_flags (set_flags f r)) n \<longleftrightarrow> bit f n"
  by (simp add: set_flags_def bit_unsigned_iff)

text \<open>
  Insight flags of a trace are exact. Only the first segment of the records is changed, and only in its
  flags: bit 1 is set exactly when five database spans share a name, bit 2 when three client requests share
  a name, bit 4 when there are five cache spans, bits 3, 5 and 6 when the segment or a span is a slow query,
  queue operation or task, bit 7 when a span failed, and bit 0 when the segment took a second or more.
\<close>
theorem derive_insights_exact:
  fixes rs :: "span_record list" and i :: nat
  defines "cs \<equiv> filter (\<lambda>r. \<not> sn_is_segment r) rs" and "root \<equiv> rs ! i"
    and "fl \<equiv> sn_insight_flags (derive_insights rs ! i)"
  assumes "i < length rs" "sn_is_segment (rs ! i)" "\<forall>j<i. \<not> sn_is_segment (rs ! j)"
  shows "derive_insights rs = rs[i := root\<lparr>sn_insight_flags := fl\<rparr>]
    \<and> (bit fl 0 \<longleftrightarrow> sn_duration_ns root \<ge> 1000000000)
    \<and> (bit fl 1 \<longleftrightarrow> (\<exists>name. 5 \<le> length (filter (\<lambda>r. sn_operation_class r = Op_Database \<and> sn_name r = name) cs)))
    \<and> (bit fl 2 \<longleftrightarrow> (\<exists>name. 3 \<le> length (filter (\<lambda>r. sn_operation_class r = Op_HttpClient \<and> sn_name r = name) cs)))
    \<and> (bit fl 3 \<longleftrightarrow> (\<exists>r\<in>set (root # cs). sn_operation_class r = Op_Database \<and> sn_duration_ns r \<ge> 250000000))
    \<and> (bit fl 4 \<longleftrightarrow> 5 \<le> length (filter (\<lambda>r. sn_operation_class r = Op_Cache) cs))
    \<and> (bit fl 5 \<longleftrightarrow> (\<exists>r\<in>set (root # cs). sn_operation_class r = Op_Queue \<and> sn_duration_ns r \<ge> 500000000))
    \<and> (bit fl 6 \<longleftrightarrow> (\<exists>r\<in>set (root # cs). sn_operation_class r = Op_Task \<and> sn_duration_ns r \<ge> 1000000000))
    \<and> (bit fl 7 \<longleftrightarrow> (\<exists>r\<in>set cs. sn_status r \<notin> {'''', ''ok'', ''cancelled''}))
    \<and> (\<forall>n. 8 \<le> n \<longrightarrow> \<not> bit fl n)"
proof -
  have pos: "position sn_is_segment rs = Some i" using assms(4-6) by (simp add: position_Some)
  have fl: "fl = sn_insight_flags (set_flags (root_flags root rs) root)"
    using assms(4) by (simp add: fl_def derive_insights_def pos root_def)
  have "derive_insights rs = rs[i := root\<lparr>sn_insight_flags := fl\<rparr>]"
    by (simp add: derive_insights_def pos fl root_def set_flags_def)
  moreover have "sn_is_segment root" "\<forall>r\<in>set cs. \<not> sn_is_segment r"
    using assms(5) by (auto simp: root_def cs_def)
  ultimately show ?thesis
    unfolding fl bit_set_flags root_flags_bits cs_def[symmetric] any_flag_def span_flag_bits
    by (intro conjI) auto
qed

definition sample_span :: "bool \<Rightarrow> span_operation_class \<Rightarrow> span_record" where
  "sample_span segment c = \<lparr>sn_id = [], sn_project_id = 7, sn_received_at = 0, sn_started_at_ns = 0, sn_duration_ns = 5,
     sn_trace_id = replicate 16 1, sn_span_id = replicate 8 1, sn_parent_span_id = None, sn_is_segment = segment,
     sn_operation_class = c, sn_operation = ''http'', sn_status = ''ok'', sn_name = ''GET /'', sn_environment = None,
     sn_release = None, sn_service = None, sn_insight_flags = 0, sn_body = []\<rparr>"

theorem derive_insights_exact_witness:
  "bit (sn_insight_flags (derive_insights
     [sample_span True Op_Other, sample_span False Op_HttpClient, sample_span False Op_HttpClient,
      sample_span False Op_HttpClient] ! 0)) 2"
proof -
  let ?rs = "[sample_span True Op_Other, sample_span False Op_HttpClient, sample_span False Op_HttpClient,
    sample_span False Op_HttpClient]"
  have "\<exists>name. 3 \<le> length (filter (\<lambda>r. sn_operation_class r = Op_HttpClient \<and> sn_name r = name)
      (filter (\<lambda>r. \<not> sn_is_segment r) ?rs))"
    by (rule exI[of _ "''GET /''"]) (simp add: sample_span_def)
  moreover have "sn_is_segment (?rs ! 0)" by (simp add: sample_span_def)
  ultimately show ?thesis using derive_insights_exact[of 0 ?rs] by blast
qed

section \<open>Stored records are scrubbed and bounded\<close>

lemma exposed_trans: "exposed fld v g u \<Longrightarrow> exposed g u f w \<Longrightarrow> exposed fld v f w"
  by (induction rule: exposed.induct) (auto intro: exposed.intros)

definition harmless_value :: "'u ingest_ops \<Rightarrow> scrub_policy \<Rightarrow> json \<Rightarrow> bool" where
  "harmless_value X p v = (\<forall>f w. exposed None v f w \<longrightarrow> harmless X p f w)"

lemma scrubbed_json_harmless:
  "scrubbed_json X s code payload = Inr v \<Longrightarrow> harmless_value (ops_of X) (ps_scrub_policy s) v"
  by (auto simp: scrubbed_json_def harmless_value_def and_then_eq_Inr intro: exposed_scrubbed(1))

text \<open>The elements of an array under a plain field of a harmless document are harmless documents.\<close>

lemma harmless_elements:
  assumes "harmless_value X p v" "json_get v k = Some (J_Array vs)" "\<not> is_ip_field k" "u \<in> set vs"
  shows "harmless_value X p u"
proof -
  obtain m where m: "v = J_Object m" "map_of m k = Some (J_Array vs)"
    using assms(2) by (cases v) (auto simp: json_get_def)
  have "exposed None v None u"
    unfolding m(1)
    by (rule exposed.member[OF _ map_of_SomeD[OF m(2)]], simp, rule exposed.elem[OF _ assms(4)])
      (simp_all add: assms(3) exposed.here)
  with assms(1) show ?thesis by (auto simp: harmless_value_def intro: exposed_trans)
qed

lemma not_ip_containers: "\<not> is_ip_field ''items''" "\<not> is_ip_field ''spans''"
  by code_simp+

lemma json_as_array_Some: "json_as_array v = Some vs \<longleftrightarrow> v = J_Array vs"
  by (cases v) auto

lemma harmless_items:
  "harmless_value X p v \<Longrightarrow> u \<in> set (container_items v) \<Longrightarrow> harmless_value X p u"
  by (auto simp: container_items_def json_as_array_Some bind_eq_Some_conv unwrap_or_def not_ip_containers
      split: option.splits dest: harmless_elements)

lemma try_map_Inr: "try_map f xs = Inr ys \<longleftrightarrow> list_all2 (\<lambda>x y. f x = Inr y) xs ys"
  by (induction xs arbitrary: ys) (auto simp: and_then_eq_Inr list_all2_Cons1)

lemma try_map_all:
  assumes "try_map f xs = Inr ys" "\<And>x y. x \<in> set xs \<Longrightarrow> f x = Inr y \<Longrightarrow> P y"
  shows "\<forall>y\<in>set ys. P y" "length ys = length xs"
proof -
  have all: "length xs = length ys" "\<forall>i<length ys. f (xs ! i) = Inr (ys ! i)"
    using assms(1) by (simp_all add: try_map_Inr list_all2_conv_all_nth)
  then show "length ys = length xs" by simp
  have "P (ys ! i)" if "i < length ys" for i using all that by (intro assms(2)[of "xs ! i"]) simp_all
  then show "\<forall>y\<in>set ys. P y" by (auto simp: in_set_conv_nth)
qed

lemma truncate_text_bound: "length (truncate_text v n) \<le> n"
  using boundary_at_or_below_spec[of v n] by (auto simp: truncate_text_def)

definition bounded_opt :: "string option \<Rightarrow> nat \<Rightarrow> bool" where
  "bounded_opt v n = is_none_or v (\<lambda>t. length t \<le> n)"

lemma bounded_opt_attribute: "bounded_opt (attribute_boxed a k n) n" "bounded_opt (optional_bounded v n) n"
  by (auto simp: bounded_opt_def attribute_boxed_def optional_bounded_def is_none_or_def truncate_text_bound
      split: option.splits)

lemma bounded_opt_or: "bounded_opt a n \<Longrightarrow> bounded_opt b n \<Longrightarrow> bounded_opt (opt_or a b) n"
  by (cases a) (auto simp: bounded_opt_def opt_or_def)

definition log_ok :: "'u signal_ops \<Rightarrow> project_snapshot \<Rightarrow> timestamp \<Rightarrow> log_record \<Rightarrow> bool" where
  "log_ok X s t r =
     (lr_project_id r = ps_project_id s \<and> lr_received_at r = t
      \<and> length (lr_message r) \<le> 8192 \<and> \<not> has_control (lr_message r)
      \<and> bounded_opt (lr_environment r) 128 \<and> bounded_opt (lr_release r) 256 \<and> bounded_opt (lr_service r) 256
      \<and> (\<exists>v. lr_body r = jo_to_vec (io_json X) v \<and> harmless_value (ops_of X) (ps_scrub_policy s) v))"

definition span_ok :: "'u signal_ops \<Rightarrow> project_snapshot \<Rightarrow> timestamp \<Rightarrow> span_record \<Rightarrow> bool" where
  "span_ok X s t r =
     (sn_project_id r = ps_project_id s \<and> sn_received_at r = t \<and> 0 \<le> sn_duration_ns r
      \<and> sn_id r = SpanRecordId_deterministic (io_blake3 X) (ps_project_id s) (sn_trace_id r) (sn_span_id r)
      \<and> length (sn_operation r) \<le> 128 \<and> length (sn_status r) \<le> 64 \<and> length (sn_name r) \<le> 1024
      \<and> bounded_opt (sn_environment r) 128 \<and> bounded_opt (sn_release r) 256 \<and> bounded_opt (sn_service r) 256
      \<and> (\<exists>v. sn_body r = jo_to_vec (io_json X) v \<and> harmless_value (ops_of X) (ps_scrub_policy s) v))"

lemma bounded_text_Inr: "bounded_text v n code = Inr w \<longleftrightarrow> w = v \<and> \<not> has_control v \<and> length v \<le> n"
  by (auto simp: bounded_text_def)

lemma opt_filter_Some: "opt_filter p v = Some x \<longleftrightarrow> v = Some x \<and> p x"
  by (auto simp: opt_filter_def split: option.splits)

lemma normalize_span_name_Inr: "normalize_span_name v = Inr w \<Longrightarrow> length w \<le> 1024"
  using truncate_text_bound[of v 1024] by (auto simp: normalize_span_name_def split: if_splits)

lemma log_from_value_ok:
  assumes "log_from_value X s t v = Inr r" "harmless_value (ops_of X) (ps_scrub_policy s) v"
  shows "log_ok X s t r"
  using assms
  by (auto simp: log_from_value_def log_ok_def and_then_eq_Inr bounded_text_Inr Let_def bounded_opt_attribute bounded_opt_or)

lemma span_from_parts_ok:
  assumes "span_from_parts X (ps_project_id s) t v m trace span seg env rel svc = Inr r"
    "harmless_value (ops_of X) (ps_scrub_policy s) v" "bounded_opt env 128" "bounded_opt rel 256" "bounded_opt svc 256"
  shows "span_ok X s t r" "sn_trace_id r = trace" "sn_span_id r = span" "sn_is_segment r = seg"
  using assms
  by (auto simp: span_from_parts_def span_ok_def and_then_eq_Inr bounded_text_Inr Let_def ok_or_eq
      opt_filter_Some simp del: json_pointer.simps dest: normalize_span_name_Inr)

text \<open>Insight flags do not touch what the invariant speaks about.\<close>

lemma span_ok_flags [simp]: "span_ok X s t (r\<lparr>sn_insight_flags := n\<rparr>) = span_ok X s t r"
  by (simp add: span_ok_def)

lemma derive_insights_keeps:
  assumes "\<And>r n. P (r\<lparr>sn_insight_flags := n\<rparr>) = P r" "\<forall>r\<in>set rs. P r"
  shows "\<forall>r\<in>set (derive_insights rs). P r" "length (derive_insights rs) = length rs"
proof -
  show "\<forall>r\<in>set (derive_insights rs). P r"
  proof (cases "position sn_is_segment rs")
    case None
    then show ?thesis using assms by (auto simp: derive_insights_def set_flags_def)
  next
    case (Some i)
    then have "P (rs ! i)" using assms(2) by (simp add: position_Some)
    then show ?thesis
      using Some assms set_update_subset_insert[of rs i]
      by (fastforce simp: derive_insights_def set_flags_def)
  qed
qed (simp add: derive_insights_def split: option.splits)

lemma derive_insights_nth_segment:
  "i < length rs \<Longrightarrow> sn_is_segment (derive_insights rs ! i) = sn_is_segment (rs ! i)"
  by (auto simp: derive_insights_def set_flags_def nth_list_update position_Some split: option.splits)

lemma normalize_logs_ok:
  assumes "normalize_logs X s t payload = Inr rs"
  shows "1 \<le> length rs \<and> length rs \<le> 100 \<and> (\<forall>r\<in>set rs. log_ok X s t r)"
proof -
  obtain v where v: "scrubbed_json X s ''invalid_log_json'' payload = Inr v"
    "container_items v \<noteq> []" "length (container_items v) \<le> 100"
    "try_map (log_from_value X s t) (container_items v) = Inr rs"
    using assms by (auto simp: normalize_logs_def and_then_eq_Inr Let_def split: if_splits)
  have "log_ok X s t r" if "u \<in> set (container_items v)" "log_from_value X s t u = Inr r" for u r
    using harmless_items[OF scrubbed_json_harmless[OF v(1)] that(1)] that(2) by (rule log_from_value_ok[rotated])
  note rs = try_map_all[where P = "log_ok X s t", OF v(4) this]
  have "1 \<le> length rs" using rs(2) v(2) by (cases "container_items v") simp_all
  then show ?thesis using rs v(3) by simp
qed

lemma normalize_spans_ok:
  assumes "normalize_spans X s t payload = Inr rs"
  shows "1 \<le> length rs \<and> length rs \<le> 1000 \<and> (\<forall>r\<in>set rs. span_ok X s t r)"
proof -
  obtain v rs' where v: "scrubbed_json X s ''invalid_span_json'' payload = Inr v"
    "container_items v \<noteq> []" "length (container_items v) \<le> 1000"
    "try_map (container_span X s t) (container_items v) = Inr rs'" "rs = derive_insights rs'"
    using assms by (auto simp: normalize_spans_def and_then_eq_Inr Let_def split: if_splits)
  have "span_ok X s t r" if u: "u \<in> set (container_items v)" "container_span X s t u = Inr r" for u r
    using u(2) harmless_items[OF scrubbed_json_harmless[OF v(1)] u(1)] bounded_opt_attribute(1)
    by (auto simp: container_span_def and_then_eq_Inr Let_def intro!: span_from_parts_ok(1))
  note rs' = try_map_all[where P = "span_ok X s t", OF v(4) this]
  have "1 \<le> length rs'" using rs'(2) v(2) by (cases "container_items v") simp_all
  then show ?thesis
    unfolding v(5) using derive_insights_keeps[of "span_ok X s t" rs', OF span_ok_flags rs'(1)] rs'(2) v(3) by simp
qed

text \<open>A transaction gives its segment first and then its spans, all of one trace.\<close>

lemma normalize_transaction_ok:
  assumes "normalize_transaction X s t payload = Inr rs"
  shows "1 \<le> length rs \<and> length rs \<le> 1001 \<and> (\<forall>r\<in>set rs. span_ok X s t r)
    \<and> (\<exists>trace. \<forall>r\<in>set rs. sn_trace_id r = trace)
    \<and> (\<forall>i<length rs. sn_is_segment (rs ! i) = (i = 0))"
proof -
  define envof where "envof v = optional_bounded (json_get v ''environment'') 128" for v
  define relof where "relof v = optional_bounded (json_get v ''release'') 256" for v
  define svcof where "svcof trace = attribute_boxed (Option.bind (map_of trace ''data'') json_as_object) ''service.name'' 256"
    for trace :: json_map
  obtain v trace trace_id root rs' span0 where
    v: "scrubbed_json X s ''invalid_transaction_json'' payload = Inr v"
    and root: "span_from_parts X (ps_project_id s) t v trace trace_id span0 True (envof v) (relof v) (svcof trace) = Inr root"
    and count: "length (unwrap_or (Option.bind (json_get v ''spans'') json_as_array) []) \<le> 1000"
    and all: "try_map (child_span X s t trace_id (envof v) (relof v) (svcof trace))
      (unwrap_or (Option.bind (json_get v ''spans'') json_as_array) []) = Inr rs'" "rs = derive_insights (root # rs')"
    using assms unfolding normalize_transaction_def Let_def
    by (auto simp: and_then_eq_Inr envof_def relof_def svcof_def split: if_splits simp del: json_pointer.simps)
  define env rel svc children where "env = envof v" and "rel = relof v" and "svc = svcof trace"
    and "children = unwrap_or (Option.bind (json_get v ''spans'') json_as_array) []"
  note eqs = env_def[symmetric] rel_def[symmetric] svc_def[symmetric] children_def[symmetric]
  note root = root[unfolded eqs] and rs' = all[unfolded eqs] and children = children_def count[unfolded eqs]
  have opts: "bounded_opt env 128" "bounded_opt rel 256" "bounded_opt svc 256"
    by (simp_all add: env_def rel_def svc_def envof_def relof_def svcof_def bounded_opt_attribute)
  note harmless = scrubbed_json_harmless[OF v]
  let ?ok = "\<lambda>r. span_ok X s t r \<and> sn_trace_id r = trace_id"
  have child: "?ok r \<and> \<not> sn_is_segment r" if u: "u \<in> set children" "child_span X s t trace_id env rel svc u = Inr r" for u r
  proof -
    have hu: "harmless_value (ops_of X) (ps_scrub_policy s) u"
      using harmless u(1) children(1)
      by (auto simp: json_as_array_Some bind_eq_Some_conv unwrap_or_def not_ip_containers
          split: option.splits dest: harmless_elements)
    from u(2) obtain m span where "span_from_parts X (ps_project_id s) t u m trace_id span False env rel svc = Inr r"
      by (auto simp: child_span_def and_then_eq_Inr split: if_splits)
    from span_from_parts_ok[OF this hu opts] show ?thesis by simp
  qed
  note rs'_ok = try_map_all[where P = "\<lambda>r. ?ok r \<and> \<not> sn_is_segment r", OF rs'(1) child]
  have rootok: "?ok root" "sn_is_segment root" using span_from_parts_ok[OF root harmless opts] by auto
  have "\<forall>r\<in>set rs. ?ok r" "length rs = Suc (length rs')"
    unfolding rs'(2) using derive_insights_keeps[of ?ok "root # rs'"] rs'_ok(1) rootok by auto
  moreover have "sn_is_segment (rs ! i) = (i = 0)" if "i < length rs" for i
    using that derive_insights_nth_segment[of i "root # rs'"] rs'_ok(1) rootok(2) \<open>length rs = Suc (length rs')\<close>
    by (auto simp: rs'(2) nth_Cons split: nat.splits)
  ultimately show ?thesis using rs'_ok(2) children(2) by auto
qed

text \<open>
  C21. What is stored for logs, transactions and spans is scrubbed and bounded. A log container gives 1 to 100
  records, a span container 1 to 1000 and a transaction 1 to 1001, its segment first and all of one
  trace. Every record belongs to the resolved project, its texts respect the column limits, its duration
  is not negative, and its body is the printed form of a document whose exposed values are harmless.
\<close>
theorem stored_signals_scrubbed:
  "(normalize_logs X s t payload = Inr logs \<longrightarrow>
      1 \<le> length logs \<and> length logs \<le> 100 \<and> (\<forall>r\<in>set logs. log_ok X s t r))
   \<and> (normalize_spans X s t payload = Inr spans \<longrightarrow>
      1 \<le> length spans \<and> length spans \<le> 1000 \<and> (\<forall>r\<in>set spans. span_ok X s t r))
   \<and> (normalize_transaction X s t payload = Inr rs \<longrightarrow>
      1 \<le> length rs \<and> length rs \<le> 1001 \<and> (\<forall>r\<in>set rs. span_ok X s t r)
      \<and> (\<exists>trace. \<forall>r\<in>set rs. sn_trace_id r = trace)
      \<and> (\<forall>i<length rs. sn_is_segment (rs ! i) = (i = 0)))"
  by (intro conjI impI normalize_logs_ok normalize_spans_ok normalize_transaction_ok)

definition sample_log :: json where
  "sample_log = J_Object [(''body'', J_String ''hi''), (''timestamp'', J_Number (JN_PosInt 1))]"

definition sample_signal_ops :: "string signal_ops" where
  "sample_signal_ops = \<lparr>io_json = (io_json sample_ingest_ops)\<lparr>jo_from_slice := (\<lambda>_. Some sample_log)\<rparr>,
     io_url = sample_urls, io_url_password = (\<lambda>_. None), io_url_path = (\<lambda>_. ''/''),
     io_hmac_sha256 = (\<lambda>key msg. Some (take 32 (msg @ replicate 32 0))), io_hex_encode = hex_encode16,
     io_hex_decode = hex_decode16, io_blake3 = (\<lambda>bs. take 32 (bs @ replicate 32 0)),
     sg_as_f64 = (\<lambda>n. case n of JN_PosInt k \<Rightarrow> Some (word_of_nat k) | _ \<Rightarrow> None), sg_parse_f64 = (\<lambda>_. None),
     sg_nanos = (\<lambda>x. Some (uint x * 1000000000)), sg_duration_ms = (\<lambda>x. Some (unat x * 1000)),
     sg_millis = (\<lambda>x. Some (uint x * 1000)), sg_uuid_parse = (\<lambda>_. None), sg_rfc3339_nanos = (\<lambda>_. None),
     sg_calendar = (\<lambda>_. None)\<rparr>"

lemma sample_log_record:
  "\<exists>r. normalize_logs sample_signal_ops sample_snapshot 5 [] = Inr [r] \<and> lr_message r = ''hi''"
proof -
  have names: "\<not> is_sensitive_field ''body''" "\<not> is_ip_field ''body''" "\<not> is_sensitive_field ''timestamp''" "\<not> is_ip_field ''timestamp''"
    by code_simp+
  have "\<not> secret_text ''hi''" unfolding secret_text_def by code_simp
  then have plain: "scrub_string (ops_of sample_signal_ops) ''hi'' = ''hi''"
    by (simp add: scrub_string_def url_credentials_def sample_signal_ops_def ingest_ops.defs sample_urls_def)
  have scrub: "scrub_value (ops_of sample_signal_ops) (ps_scrub_policy sample_snapshot) 0 None sample_log = Inr sample_log"
    by (simp add: sample_log_def scrub_value.simps[of _ _ _ _ "J_Object _"] scrub_value.simps[of _ _ _ _ "J_String _"]
        scrub_value.simps[of _ _ _ _ "J_Number _"] MAX_SCRUB_DEPTH_def names plain)
  have body: "\<not> has_control ''hi''" by (subst has_control_ascii) (simp_all add: is_ascii_def ascii_defs)
  have finite: "f64_is_finite 1" by (simp add: f64_is_finite_def)
  have "json_get sample_log ''timestamp'' = Some (J_Number (JN_PosInt 1))" "get_str sample_log ''body'' = Some ''hi''"
    "container_items sample_log = [sample_log]" "get_str sample_log ''trace_id'' = None" "json_get sample_log ''attributes'' = None"
    by (simp_all add: sample_log_def json_get_def get_str_def container_items_def)
  moreover have "seconds_to_ns sample_signal_ops (J_Number (JN_PosInt 1)) = Inr 1000000000"
    by (simp add: seconds_to_ns_def sample_signal_ops_def opt_or_def opt_filter_def finite)
  moreover have "scrubbed_json sample_signal_ops sample_snapshot ''invalid_log_json'' [] = Inr sample_log"
    unfolding scrubbed_json_def using scrub by (simp add: sample_signal_ops_def)
  ultimately show ?thesis
    by (simp add: normalize_logs_def log_from_value_def bounded_text_def body Let_def opt_parse_def attribute_string_def
        transpose_opt_def)
qed

theorem stored_signals_scrubbed_witness:
  "\<exists>r. normalize_logs sample_signal_ops sample_snapshot 5 [] = Inr [r] \<and> log_ok sample_signal_ops sample_snapshot 5 r"
proof -
  obtain r where r: "normalize_logs sample_signal_ops sample_snapshot 5 [] = Inr [r]" using sample_log_record by blast
  from stored_signals_scrubbed[of sample_signal_ops sample_snapshot 5 "[]" "[r]", THEN conjunct1] r
  have "log_ok sample_signal_ops sample_snapshot 5 r" by simp
  with r show ?thesis by blast
qed

end
