(* ===== verification/Blob_Values.thy ===== *)
theory Blob_Values
  imports Identities
begin

text \<open>
  Keys, kinds and display metadata of binary objects (\<^verbatim>\<open>crates/domain/src/blob.rs\<close>) with the archive kinds
  and segment identifiers (\<^verbatim>\<open>crates/domain/src/archive.rs\<close>). Hexadecimal and base64 codecs are parameters.
\<close>

section \<open>Archive kinds\<close>

datatype archive_kind = AK_Event | AK_Log | AK_Span | AK_Session | AK_Metric

definition ArchiveKind_ALL :: "archive_kind list" where
  "ArchiveKind_ALL = [AK_Event, AK_Log, AK_Span, AK_Session, AK_Metric]"

fun ArchiveKind_name :: "archive_kind \<Rightarrow> string" where
  "ArchiveKind_name AK_Event = ''event''"
| "ArchiveKind_name AK_Log = ''log''"
| "ArchiveKind_name AK_Span = ''span''"
| "ArchiveKind_name AK_Session = ''session''"
| "ArchiveKind_name AK_Metric = ''metric''"

fun ArchiveKind_directory :: "archive_kind \<Rightarrow> string" where
  "ArchiveKind_directory AK_Event = ''events''"
| "ArchiveKind_directory AK_Log = ''logs''"
| "ArchiveKind_directory AK_Span = ''spans''"
| "ArchiveKind_directory AK_Session = ''sessions''"
| "ArchiveKind_directory AK_Metric = ''metrics''"

definition ArchiveKind_from_name :: "string \<Rightarrow> archive_kind option" where
  "ArchiveKind_from_name v = (if v = ''event'' then Some AK_Event else if v = ''log'' then Some AK_Log
     else if v = ''span'' then Some AK_Span else if v = ''session'' then Some AK_Session
     else if v = ''metric'' then Some AK_Metric else None)"

definition ArchiveKind_from_directory :: "string \<Rightarrow> archive_kind option" where
  "ArchiveKind_from_directory v = (if v = ''events'' then Some AK_Event else if v = ''logs'' then Some AK_Log
     else if v = ''spans'' then Some AK_Span else if v = ''sessions'' then Some AK_Session
     else if v = ''metrics'' then Some AK_Metric else None)"

datatype archive_source_id =
    AS_Event bytes | AS_Log bytes | AS_Span bytes | AS_Session bytes | AS_Metric bytes

fun ArchiveSourceId_kind :: "archive_source_id \<Rightarrow> archive_kind" where
  "ArchiveSourceId_kind (AS_Event _) = AK_Event"
| "ArchiveSourceId_kind (AS_Log _) = AK_Log"
| "ArchiveSourceId_kind (AS_Span _) = AK_Span"
| "ArchiveSourceId_kind (AS_Session _) = AK_Session"
| "ArchiveSourceId_kind (AS_Metric _) = AK_Metric"

fun ArchiveSourceId_as_bytes :: "archive_source_id \<Rightarrow> bytes" where
  "ArchiveSourceId_as_bytes (AS_Event b) = b"
| "ArchiveSourceId_as_bytes (AS_Log b) = b"
| "ArchiveSourceId_as_bytes (AS_Span b) = b"
| "ArchiveSourceId_as_bytes (AS_Session b) = b"
| "ArchiveSourceId_as_bytes (AS_Metric b) = b"

definition ArchiveSegmentId_derive_sources ::
  "(bytes \<Rightarrow> bytes) \<Rightarrow> archive_kind \<Rightarrow> project_id \<Rightarrow> archive_source_id list \<Rightarrow> bytes" where
  "ArchiveSegmentId_derive_sources blake3 kind p sources =
     take 16 (blake3 (as_bytes ''metric-signal-archive-segment/v1'' @ as_bytes (ArchiveKind_name kind) @ [0]
       @ be_bytes_signed 4 p @ concat (map ArchiveSourceId_as_bytes sources)))"

definition ArchiveSegmentId_derive :: "(bytes \<Rightarrow> bytes) \<Rightarrow> project_id \<Rightarrow> bytes list \<Rightarrow> bytes" where
  "ArchiveSegmentId_derive blake3 p keys = ArchiveSegmentId_derive_sources blake3 AK_Event p (map AS_Event keys)"

section \<open>Keys\<close>

datatype blob_value_error = BV_InvalidKey | BV_InvalidFilename | BV_InvalidContentType

definition MAX_BLOB_KEY_BYTES :: nat where "MAX_BLOB_KEY_BYTES = 512"
definition MAX_ATTACHMENT_FILENAME_BYTES :: nat where "MAX_ATTACHMENT_FILENAME_BYTES = 128"
definition MAX_CONTENT_TYPE_BYTES :: nat where "MAX_CONTENT_TYPE_BYTES = 128"

type_synonym blob_key = string

record blob_codecs =
  bc_hex :: "bytes \<Rightarrow> string"
  bc_unhex :: "string \<Rightarrow> bytes option"
  bc_b64 :: "bytes \<Rightarrow> string"
  bc_unb64 :: "string \<Rightarrow> bytes option"

definition segment_char :: "char \<Rightarrow> bool" where
  "segment_char c = (is_ascii_alphanumeric c \<or> c \<in> {CHR ''-'', CHR ''_'', CHR ''.'', CHR ''@''})"

definition valid_segment :: "string \<Rightarrow> bool" where
  "valid_segment s = (s \<noteq> [] \<and> s \<noteq> ''.'' \<and> s \<noteq> ''..'' \<and> length s \<le> 128 \<and> list_all segment_char s)"

definition BlobKey_new :: "string \<Rightarrow> blob_value_error + blob_key" where
  "BlobKey_new v =
     (if v \<noteq> [] \<and> length v \<le> MAX_BLOB_KEY_BYTES \<and> \<not> prefix ''/'' v \<and> \<not> suffix ''/'' v \<and> CHR 0x5C \<notin> set v
         \<and> list_all valid_segment (split_on CHR ''/'' v)
      then Inr v else Inl BV_InvalidKey)"

definition BlobObjectId_parse :: "blob_codecs \<Rightarrow> string \<Rightarrow> blob_value_error + bytes" where
  "BlobObjectId_parse C v = ok_or BV_InvalidKey (parse_hex_identifier (bc_unhex C) v)"

definition BlobKey_event_owned :: "blob_codecs \<Rightarrow> project_id \<Rightarrow> event_id \<Rightarrow> bytes \<Rightarrow> blob_key" where
  "BlobKey_event_owned C p e obj =
     ''projects/'' @ dec_string (nat p) @ ''/events/'' @ bc_hex C e @ ''/'' @ bc_hex C obj"

definition BlobKey_replay_recording :: "blob_codecs \<Rightarrow> project_id \<Rightarrow> event_id \<Rightarrow> nat \<Rightarrow> blob_key" where
  "BlobKey_replay_recording C p e segment =
     ''projects/'' @ dec_string (nat p) @ ''/replays/'' @ bc_hex C e @ ''/'' @ dec_string segment @ ''.rrweb''"

definition BlobKey_debug_chunk :: "blob_codecs \<Rightarrow> organization_id \<Rightarrow> bytes \<Rightarrow> blob_key" where
  "BlobKey_debug_chunk C org sha1 = ''debug-chunks/'' @ dec_string org @ ''/'' @ bc_hex C sha1"

text \<open>The digit loop of \<^verbatim>\<open>base36\<close> and \<^verbatim>\<open>base36_u64\<close>, least significant digit first, then reversed.\<close>

fun base36_loop :: "nat \<Rightarrow> string" where
  "base36_loop v = (if v = 0 then [] else digit_char (v mod 36) # base36_loop (v div 36))"

declare base36_loop.simps [simp del]

definition base36_u64 :: "nat \<Rightarrow> string" where "base36_u64 v = rev (base36_loop v)"
definition base36 :: "int \<Rightarrow> string" where "base36 v = rev (base36_loop (nat v))"

definition BlobKey_debug_file :: "blob_codecs \<Rightarrow> project_id \<Rightarrow> bytes \<Rightarrow> blob_key" where
  "BlobKey_debug_file C p file = ''d/'' @ base36 p @ ''/'' @ bc_b64 C file"

definition BlobKey_artifact_bundle :: "blob_codecs \<Rightarrow> organization_id \<Rightarrow> bytes \<Rightarrow> nat \<Rightarrow> blob_key" where
  "BlobKey_artifact_bundle C org bundle generation =
     ''a/'' @ base36_u64 org @ ''/'' @ bc_b64 C bundle
       @ (if generation = 0 then [] else ''/'' @ base36_u64 generation)"

text \<open>\<^verbatim>\<open>{:04}\<close> and \<^verbatim>\<open>{:02}\<close>: at least that many digits, filled with zeros.\<close>

definition zero_filled :: "nat \<Rightarrow> nat \<Rightarrow> string" where
  "zero_filled w n = replicate (w - length (dec_string n)) (CHR ''0'') @ dec_string n"

definition zero_filled_signed :: "nat \<Rightarrow> int \<Rightarrow> string" where
  "zero_filled_signed w v = (if v < 0 then CHR ''-'' # zero_filled (w - 1) (nat (- v)) else zero_filled w (nat v))"

definition BlobKey_archive ::
  "blob_codecs \<Rightarrow> archive_kind \<Rightarrow> project_id \<Rightarrow> int \<Rightarrow> nat \<Rightarrow> nat \<Rightarrow> bytes \<Rightarrow> blob_key" where
  "BlobKey_archive C kind p year month day segment =
     ''projects/'' @ dec_string (nat p) @ ''/archives/'' @ ArchiveKind_directory kind @ ''/'' @ zero_filled_signed 4 year
       @ ''/'' @ zero_filled 2 month @ ''/'' @ zero_filled 2 day @ ''/'' @ bc_hex C segment @ ''.parquet''"

definition BlobKey_event_archive ::
  "blob_codecs \<Rightarrow> project_id \<Rightarrow> int \<Rightarrow> nat \<Rightarrow> nat \<Rightarrow> bytes \<Rightarrow> blob_key" where
  "BlobKey_event_archive C = BlobKey_archive C AK_Event"

section \<open>Reading keys back\<close>

definition parse_project :: "nat \<Rightarrow> string \<Rightarrow> blob_value_error + project_id" where
  "parse_project radix s = (case parse_signed radix (2 ^ 31) s of
       None \<Rightarrow> Inl BV_InvalidKey
     | Some v \<Rightarrow> (case ProjectId_new v of Inl _ \<Rightarrow> Inl BV_InvalidKey | Inr p \<Rightarrow> Inr p))"

definition parse_event :: "blob_codecs \<Rightarrow> string \<Rightarrow> blob_value_error + event_id" where
  "parse_event C s = (case EventId_parse (bc_unhex C) s of Inl _ \<Rightarrow> Inl BV_InvalidKey | Inr e \<Rightarrow> Inr e)"

definition BlobKey_event_relation :: "blob_codecs \<Rightarrow> blob_key \<Rightarrow> blob_value_error + (project_id \<times> event_id \<times> bytes)" where
  "BlobKey_event_relation C key = (let segments = split_on CHR ''/'' key in
     if length segments \<noteq> 5 \<or> segments ! 0 \<noteq> ''projects'' \<or> segments ! 2 \<noteq> ''events'' then Inl BV_InvalidKey
     else and_then (parse_project 10 (segments ! 1)) (\<lambda>p.
       and_then (parse_event C (segments ! 3)) (\<lambda>e.
       and_then (BlobObjectId_parse C (segments ! 4)) (\<lambda>obj. Inr (p, e, obj)))))"

definition BlobKey_replay_relation :: "blob_codecs \<Rightarrow> blob_key \<Rightarrow> blob_value_error + (project_id \<times> event_id \<times> nat)" where
  "BlobKey_replay_relation C key = (let segments = split_on CHR ''/'' key in
     if length segments \<noteq> 5 \<or> segments ! 0 \<noteq> ''projects'' \<or> segments ! 2 \<noteq> ''replays'' then Inl BV_InvalidKey
     else and_then (parse_project 10 (segments ! 1)) (\<lambda>p.
       and_then (parse_event C (segments ! 3)) (\<lambda>e.
       and_then (ok_or BV_InvalidKey
         (Option.bind (strip_suffix ''.rrweb'' (segments ! 4)) (parse_unsigned 10 (2 ^ 32)))) (\<lambda>n. Inr (p, e, n)))))"

definition DebugFileId_parse :: "blob_codecs \<Rightarrow> string \<Rightarrow> bytes option" where
  "DebugFileId_parse C v = (case bc_unb64 C v of Some b \<Rightarrow> if length b = 16 then Some b else None | None \<Rightarrow> None)"

definition BlobKey_debug_file_relation :: "blob_codecs \<Rightarrow> blob_key \<Rightarrow> blob_value_error + (project_id \<times> bytes)" where
  "BlobKey_debug_file_relation C key = (let segments = split_on CHR ''/'' key in
     if length segments \<noteq> 3 \<or> segments ! 0 \<noteq> ''d'' then Inl BV_InvalidKey
     else and_then (parse_project 36 (segments ! 1)) (\<lambda>p.
       and_then (ok_or BV_InvalidKey (DebugFileId_parse C (segments ! 2))) (\<lambda>f. Inr (p, f))))"

definition BlobKey_archive_relation :: "blob_key \<Rightarrow> blob_value_error + (project_id \<times> archive_kind)" where
  "BlobKey_archive_relation key = (let segments = split_on CHR ''/'' key in
     if length segments \<noteq> 8 \<or> segments ! 0 \<noteq> ''projects'' \<or> segments ! 2 \<noteq> ''archives''
       \<or> \<not> suffix ''.parquet'' (segments ! 7) then Inl BV_InvalidKey
     else and_then (parse_project 10 (segments ! 1)) (\<lambda>p.
       and_then (ok_or BV_InvalidKey (ArchiveKind_from_directory (segments ! 3))) (\<lambda>k. Inr (p, k))))"

definition BlobKey_archive_project :: "blob_key \<Rightarrow> blob_value_error + project_id" where
  "BlobKey_archive_project key = map_sum id fst (BlobKey_archive_relation key)"

section \<open>Namespaces\<close>

datatype blob_kind =
    BK_EventAttachment | BK_Minidump | BK_DebugChunk | BK_DebugFile | BK_ArtifactBundle | BK_EventArchive
  | BK_LogArchive | BK_SpanArchive | BK_SessionArchive | BK_MetricArchive | BK_ReplayRecording

fun BlobKind_name :: "blob_kind \<Rightarrow> string" where
  "BlobKind_name BK_EventAttachment = ''event_attachment''"
| "BlobKind_name BK_Minidump = ''minidump''"
| "BlobKind_name BK_DebugChunk = ''debug_chunk''"
| "BlobKind_name BK_DebugFile = ''debug_file''"
| "BlobKind_name BK_ArtifactBundle = ''artifact_bundle''"
| "BlobKind_name BK_EventArchive = ''event_archive''"
| "BlobKind_name BK_LogArchive = ''log_archive''"
| "BlobKind_name BK_SpanArchive = ''span_archive''"
| "BlobKind_name BK_SessionArchive = ''session_archive''"
| "BlobKind_name BK_MetricArchive = ''metric_archive''"
| "BlobKind_name BK_ReplayRecording = ''replay_recording''"

fun BlobKind_archive :: "archive_kind \<Rightarrow> blob_kind" where
  "BlobKind_archive AK_Event = BK_EventArchive"
| "BlobKind_archive AK_Log = BK_LogArchive"
| "BlobKind_archive AK_Span = BK_SpanArchive"
| "BlobKind_archive AK_Session = BK_SessionArchive"
| "BlobKind_archive AK_Metric = BK_MetricArchive"

datatype blob_namespace =
    NS_EventOwned | NS_DebugChunks | NS_DebugFiles | NS_ArtifactBundles | NS_EventArchives
  | NS_LogArchives | NS_SpanArchives | NS_SessionArchives | NS_MetricArchives | NS_ReplayRecordings

fun BlobNamespace_prefix :: "blob_namespace \<Rightarrow> string" where
  "BlobNamespace_prefix NS_DebugChunks = ''debug-chunks/''"
| "BlobNamespace_prefix NS_DebugFiles = ''d/''"
| "BlobNamespace_prefix NS_ArtifactBundles = ''a/''"
| "BlobNamespace_prefix _ = ''projects/''"

fun BlobNamespace_archive :: "archive_kind \<Rightarrow> blob_namespace" where
  "BlobNamespace_archive AK_Event = NS_EventArchives"
| "BlobNamespace_archive AK_Log = NS_LogArchives"
| "BlobNamespace_archive AK_Span = NS_SpanArchives"
| "BlobNamespace_archive AK_Session = NS_SessionArchives"
| "BlobNamespace_archive AK_Metric = NS_MetricArchives"

definition archive_kind_of_key :: "blob_key \<Rightarrow> archive_kind \<Rightarrow> blob_value_error + unit" where
  "archive_kind_of_key key expected =
     and_then (BlobKey_archive_relation key) (\<lambda>(_, actual). if actual = expected then Inr () else Inl BV_InvalidKey)"

definition BlobNamespace_kind_for_key :: "blob_codecs \<Rightarrow> blob_namespace \<Rightarrow> blob_key \<Rightarrow> blob_value_error + blob_kind" where
  "BlobNamespace_kind_for_key C ns key =
     (if \<not> prefix (BlobNamespace_prefix ns) key then Inl BV_InvalidKey
      else case ns of
          NS_EventOwned \<Rightarrow> and_then (BlobKey_event_relation C key) (\<lambda>_. Inr BK_EventAttachment)
        | NS_DebugChunks \<Rightarrow> Inr BK_DebugChunk
        | NS_DebugFiles \<Rightarrow> Inr BK_DebugFile
        | NS_ArtifactBundles \<Rightarrow> Inr BK_ArtifactBundle
        | NS_EventArchives \<Rightarrow> and_then (archive_kind_of_key key AK_Event) (\<lambda>_. Inr BK_EventArchive)
        | NS_LogArchives \<Rightarrow> and_then (archive_kind_of_key key AK_Log) (\<lambda>_. Inr BK_LogArchive)
        | NS_SpanArchives \<Rightarrow> and_then (archive_kind_of_key key AK_Span) (\<lambda>_. Inr BK_SpanArchive)
        | NS_SessionArchives \<Rightarrow> and_then (archive_kind_of_key key AK_Session) (\<lambda>_. Inr BK_SessionArchive)
        | NS_MetricArchives \<Rightarrow> and_then (archive_kind_of_key key AK_Metric) (\<lambda>_. Inr BK_MetricArchive)
        | NS_ReplayRecordings \<Rightarrow> and_then (BlobKey_replay_relation C key) (\<lambda>_. Inr BK_ReplayRecording))"

section \<open>Objects and display metadata\<close>

record blob_object =
  bo_key :: blob_key
  bo_kind :: blob_kind
  bo_size :: nat
  bo_checksum :: bytes
  bo_created_at :: timestamp

definition AttachmentFilename_sanitized :: "string \<Rightarrow> blob_value_error + string" where
  "AttachmentFilename_sanitized v =
     (let leaf = concat (filter (\<lambda>c. \<not> is_control c) (utf8_chars (last (split_by (\<lambda>c. c \<in> {CHR ''/'', CHR 0x5C}) v)))) in
      if leaf \<noteq> [] \<and> length leaf \<le> MAX_ATTACHMENT_FILENAME_BYTES then Inr leaf else Inl BV_InvalidFilename)"

definition BlobContentType_new :: "string \<Rightarrow> blob_value_error + string" where
  "BlobContentType_new v =
     (if v \<noteq> [] \<and> length v \<le> MAX_CONTENT_TYPE_BYTES \<and> is_ascii v \<and> \<not> has_control v then Inr v else Inl BV_InvalidContentType)"

record event_attachment =
  ea_attachment_id :: bytes
  ea_blob :: blob_object
  ea_filename :: string
  ea_content_type :: string
  ea_attachment_type :: string

section \<open>Keys and identities\<close>

text \<open>What a key is made for, the codec laws the code relies on, and the segments of the key.\<close>

datatype blob_identity =
    BI_Event project_id event_id bytes
  | BI_Replay project_id event_id nat
  | BI_DebugChunk organization_id bytes
  | BI_DebugFile project_id bytes
  | BI_Bundle organization_id bytes nat
  | BI_Archive archive_kind project_id int nat nat bytes

fun blob_key_of :: "blob_codecs \<Rightarrow> blob_identity \<Rightarrow> blob_key" where
  "blob_key_of C (BI_Event p e obj) = BlobKey_event_owned C p e obj"
| "blob_key_of C (BI_Replay p e n) = BlobKey_replay_recording C p e n"
| "blob_key_of C (BI_DebugChunk org sha1) = BlobKey_debug_chunk C org sha1"
| "blob_key_of C (BI_DebugFile p f) = BlobKey_debug_file C p f"
| "blob_key_of C (BI_Bundle org b g) = BlobKey_artifact_bundle C org b g"
| "blob_key_of C (BI_Archive k p y m d seg) = BlobKey_archive C k p y m d seg"

fun blob_identity_ok :: "blob_identity \<Rightarrow> bool" where
  "blob_identity_ok (BI_Event p e obj) = (project_id_ok p \<and> length e = 16 \<and> length obj = 16)"
| "blob_identity_ok (BI_Replay p e n) = (project_id_ok p \<and> length e = 16 \<and> n \<le> u32_max)"
| "blob_identity_ok (BI_DebugChunk org sha1) = (0 < org \<and> org \<le> i64_max \<and> length sha1 = 20)"
| "blob_identity_ok (BI_DebugFile p f) = (project_id_ok p \<and> length f = 16)"
| "blob_identity_ok (BI_Bundle org b g) = (0 < org \<and> org \<le> i64_max \<and> length b = 16 \<and> g \<le> u32_max)"
| "blob_identity_ok (BI_Archive k p y m d seg) =
     (project_id_ok p \<and> 0 \<le> y \<and> i32_ok y \<and> m \<le> 255 \<and> d \<le> 255 \<and> length seg = 16)"

definition codec_laws :: "blob_codecs \<Rightarrow> bool" where
  "codec_laws C = (hex_laws (bc_hex C) (bc_unhex C) \<and> (\<forall>b. bc_unb64 C (bc_b64 C b) = Some b)
     \<and> (\<forall>b. length (bc_b64 C b) = (length b * 4 + 2) div 3)
     \<and> (\<forall>b. list_all (\<lambda>c. is_ascii_alphanumeric c \<or> c \<in> {CHR ''-'', CHR ''_''}) (bc_b64 C b)))"

fun key_segments :: "blob_codecs \<Rightarrow> blob_identity \<Rightarrow> string list" where
  "key_segments C (BI_Event p e obj) = [''projects'', dec_string (nat p), ''events'', bc_hex C e, bc_hex C obj]"
| "key_segments C (BI_Replay p e n) = [''projects'', dec_string (nat p), ''replays'', bc_hex C e, dec_string n @ ''.rrweb'']"
| "key_segments C (BI_DebugChunk org sha1) = [''debug-chunks'', dec_string org, bc_hex C sha1]"
| "key_segments C (BI_DebugFile p f) = [''d'', base36 p, bc_b64 C f]"
| "key_segments C (BI_Bundle org b g) = [''a'', base36_u64 org, bc_b64 C b] @ (if g = 0 then [] else [base36_u64 g])"
| "key_segments C (BI_Archive k p y m d seg) =
     [''projects'', dec_string (nat p), ''archives'', ArchiveKind_directory k, zero_filled_signed 4 y, zero_filled 2 m,
      zero_filled 2 d, bc_hex C seg @ ''.parquet'']"

lemma blob_key_of_segments: "blob_key_of C i = join ''/'' (key_segments C i)"
  by (cases i) (simp_all add: BlobKey_event_owned_def BlobKey_replay_recording_def BlobKey_debug_chunk_def
      BlobKey_debug_file_def BlobKey_artifact_bundle_def BlobKey_archive_def)

lemma base36_digits: "0 < v \<Longrightarrow> rev (base36_loop v) = digits_of 36 v"
proof (induction v rule: base36_loop.induct)
  case (1 v)
  show ?case
  proof (cases "v < 36")
    case True
    then show ?thesis using "1.prems" by (simp add: base36_loop.simps[of v] base36_loop.simps[of 0] digits_of.simps[of 36 v])
  next
    case False
    then show ?thesis using "1.IH" "1.prems" by (simp add: base36_loop.simps[of v] digits_of.simps[of 36 v])
  qed
qed

lemma base36_simps: "0 < v \<Longrightarrow> base36_u64 v = digits_of 36 v" "project_id_ok p \<Longrightarrow> base36 p = digits_of 36 (nat p)"
  by (simp_all add: base36_u64_def base36_def base36_digits project_id_ok_def)

text \<open>A segment that is safe in a key and short.\<close>

definition short_segment :: "string \<Rightarrow> bool" where
  "short_segment s = (s \<noteq> [] \<and> hd s \<noteq> CHR ''.'' \<and> length s \<le> 40 \<and> list_all segment_char s)"

lemma short_segment_valid: "short_segment s \<Longrightarrow> valid_segment s"
  by (auto simp: short_segment_def valid_segment_def)

lemma short_segment_append: "short_segment s \<Longrightarrow> list_all segment_char t \<Longrightarrow> length s + length t \<le> 40 \<Longrightarrow> short_segment (s @ t)"
  by (auto simp: short_segment_def)

lemma short_segment_chars:
  assumes "s \<noteq> []" "length s \<le> 40" "\<And>c. c \<in> set s \<Longrightarrow> is_ascii_alphanumeric c \<or> c = CHR ''-'' \<or> c = CHR ''_''"
  shows "short_segment s"
proof -
  have "hd s \<in> set s" using assms(1) by simp
  moreover have "\<not> is_ascii_alphanumeric CHR ''.''" by (simp add: ascii_defs)
  ultimately have "hd s \<noteq> CHR ''.''" using assms(3)[of "hd s"] by auto
  then show ?thesis using assms by (auto simp: short_segment_def segment_char_def list_all_iff)
qed

lemma short_digits:
  assumes "n < radix ^ 19" "2 \<le> radix" "radix \<le> 36"
  shows "short_segment (digits_of radix n)"
proof (rule short_segment_chars)
  show "length (digits_of radix n) \<le> 40" using length_digits_of[OF assms(2,1)] by simp
  show "is_ascii_alphanumeric c \<or> c = CHR ''-'' \<or> c = CHR ''_''" if "c \<in> set (digits_of radix n)" for c
    using set_digits_of[OF that assms(2,3)] by (auto simp: ascii_defs)
qed simp

lemma short_hex:
  assumes "codec_laws C" "length b \<le> 20" "b \<noteq> []"
  shows "short_segment (bc_hex C b)"
proof (rule short_segment_chars)
  have h: "length (bc_hex C b) = 2 * length b" "list_all lower_hex (bc_hex C b)"
    using assms(1) by (simp_all add: codec_laws_def hex_laws_def)
  show "bc_hex C b \<noteq> []" "length (bc_hex C b) \<le> 40" using h(1) assms(2,3) by auto
  show "is_ascii_alphanumeric c \<or> c = CHR ''-'' \<or> c = CHR ''_''" if "c \<in> set (bc_hex C b)" for c
    using h(2) that by (auto simp: list_all_iff lower_hex_def ascii_defs)
qed

lemma short_b64:
  assumes "codec_laws C" "length b = 16"
  shows "short_segment (bc_b64 C b)"
proof (rule short_segment_chars)
  have h: "length (bc_b64 C b) = 22" using assms by (simp add: codec_laws_def)
  show "bc_b64 C b \<noteq> []" "length (bc_b64 C b) \<le> 40" using h by auto
  show "is_ascii_alphanumeric c \<or> c = CHR ''-'' \<or> c = CHR ''_''" if "c \<in> set (bc_b64 C b)" for c
    using assms(1) that by (auto simp: codec_laws_def list_all_iff)
qed

lemma short_zero_filled:
  assumes "n < 10 ^ 19" "w \<le> 10"
  shows "short_segment (zero_filled w n)"
proof (rule short_segment_chars)
  have "length (dec_string n) \<le> 19" using length_digits_of[of 10 n 19] assms(1) by simp
  then show "length (zero_filled w n) \<le> 40" using assms(2) by (simp add: zero_filled_def)
  show "zero_filled w n \<noteq> []" by (simp add: zero_filled_def)
  show "is_ascii_alphanumeric c \<or> c = CHR ''-'' \<or> c = CHR ''_''" if "c \<in> set (zero_filled w n)" for c
    using that dec_string_digits[of c n] by (auto simp: zero_filled_def is_ascii_alphanumeric_def is_ascii_digit_def split: if_splits)
qed

lemma project_nat: "project_id_ok p \<Longrightarrow> 0 < nat p \<and> nat p \<le> 2147483647 \<and> int (nat p) = p"
  by (auto simp: project_id_ok_def i32_ok_def)

lemma short_project: "project_id_ok p \<Longrightarrow> short_segment (dec_string (nat p))"
  using project_nat[of p] by (intro short_digits) auto

lemma short_directory: "short_segment (ArchiveKind_directory k)"
  by (cases k) (simp_all add: short_segment_def segment_char_def ascii_defs)

lemma segments_short:
  assumes "codec_laws C" "blob_identity_ok i"
  shows "list_all short_segment (key_segments C i)"
proof (cases i)
  case (BI_Event p e obj)
  then have "e \<noteq> []" "obj \<noteq> []" using assms(2) by auto
  with BI_Event assms show ?thesis
    by (simp add: short_project short_hex) (simp add: short_segment_def segment_char_def ascii_defs)
next
  case (BI_Replay p e n)
  then have "e \<noteq> []" "n < 10 ^ 10" using assms(2) by auto
  moreover have "short_segment (dec_string n)" by (rule short_digits) (use \<open>n < 10 ^ 10\<close> in simp_all)
  moreover have "length (dec_string n) \<le> 10" using length_digits_of[of 10 n 10] \<open>n < 10 ^ 10\<close> by simp
  ultimately have "short_segment (dec_string n @ ''.rrweb'')"
    by (intro short_segment_append) (simp_all add: segment_char_def ascii_defs)
  with \<open>e \<noteq> []\<close> BI_Replay assms show ?thesis
    by (simp add: short_project short_hex) (simp add: short_segment_def segment_char_def ascii_defs)
next
  case (BI_DebugChunk org sha1)
  then have "sha1 \<noteq> []" "org < 10 ^ 19" using assms(2) by auto
  with BI_DebugChunk assms show ?thesis
    by (simp add: short_digits short_hex) (simp add: short_segment_def segment_char_def ascii_defs)
next
  case (BI_DebugFile p f)
  have "short_segment (digits_of 36 (nat p))"
    using assms(2) BI_DebugFile project_nat[of p] by (intro short_digits) auto
  with BI_DebugFile assms show ?thesis
    by (simp add: base36_simps short_b64) (simp add: short_segment_def segment_char_def ascii_defs)
next
  case (BI_Bundle org b g)
  have "short_segment (digits_of 36 org)" "short_segment (digits_of 36 g)"
    by (rule short_digits; use assms(2) BI_Bundle in simp)+
  with BI_Bundle assms show ?thesis
    by (simp add: base36_simps short_b64) (simp add: short_segment_def segment_char_def ascii_defs)
next
  case (BI_Archive k p y m d seg)
  then have "seg \<noteq> []" using assms(2) by auto
  then have "short_segment (bc_hex C seg @ ''.parquet'')"
    using assms BI_Archive short_hex[OF assms(1), of seg]
    by (intro short_segment_append) (simp_all add: segment_char_def ascii_defs codec_laws_def hex_laws_def)
  moreover have "nat y \<le> 2147483647" "m \<le> 255" "d \<le> 255" using assms(2) BI_Archive by (auto simp: i32_ok_def)
  then have "short_segment (zero_filled 4 (nat y))" "short_segment (zero_filled 2 m)" "short_segment (zero_filled 2 d)"
    by (auto intro!: short_zero_filled)
  ultimately show ?thesis
    using assms BI_Archive
    by (simp add: short_project short_directory zero_filled_signed_def) (simp add: short_segment_def segment_char_def ascii_defs)
qed

lemma segments_count: "key_segments C i \<noteq> [] \<and> length (key_segments C i) \<le> 8"
  by (cases i) simp_all

lemma short_no_slash: "short_segment s \<Longrightarrow> CHR ''/'' \<notin> set s \<and> CHR 0x5C \<notin> set s"
  by (auto simp: short_segment_def segment_char_def list_all_iff ascii_defs)

lemma key_split:
  assumes "codec_laws C" "blob_identity_ok i"
  shows "split_on CHR ''/'' (blob_key_of C i) = key_segments C i"
  unfolding blob_key_of_segments
  using segments_short[OF assms] short_no_slash segments_count
  by (intro split_on_join) (auto simp: list_all_iff)

lemma length_join_short: "list_all short_segment ws \<Longrightarrow> length (join ''/'' ws) \<le> 41 * length ws"
  by (induction ws rule: induct_list012) (auto simp: short_segment_def)

lemma set_join_short: "list_all short_segment ws \<Longrightarrow> CHR 0x5C \<notin> set (join ''/'' ws)"
  by (induction ws rule: induct_list012) (auto dest: short_no_slash)

lemma join_ends:
  assumes "ws \<noteq> []" "list_all short_segment ws"
  shows "join ''/'' ws \<noteq> [] \<and> hd (join ''/'' ws) \<noteq> CHR ''/'' \<and> last (join ''/'' ws) \<noteq> CHR ''/''"
  using assms
proof (induction ws rule: induct_list012)
  case (2 w)
  then have "w \<noteq> []" "CHR ''/'' \<notin> set w" using short_no_slash by (auto simp: short_segment_def)
  then show ?case using hd_in_set last_in_set by fastforce
next
  case (3 w v ws)
  then have "w \<noteq> []" "CHR ''/'' \<notin> set w" using short_no_slash by (auto simp: short_segment_def)
  then have "w \<noteq> []" "hd w \<noteq> CHR ''/''" using hd_in_set by metis+
  then show ?case using 3 by auto
qed simp

lemma key_valid:
  assumes "codec_laws C" "blob_identity_ok i"
  shows "BlobKey_new (blob_key_of C i) = Inr (blob_key_of C i)"
proof -
  let ?ws = "key_segments C i"
  have short: "list_all short_segment ?ws" by (rule segments_short[OF assms])
  have "length (join ''/'' ?ws) \<le> 512"
    using length_join_short[OF short] segments_count[of C i] by linarith
  moreover note join_ends[OF conjunct1[OF segments_count] short] set_join_short[OF short]
  moreover have "list_all valid_segment (split_on CHR ''/'' (join ''/'' ?ws))"
    using key_split[OF assms] short short_segment_valid by (auto simp: blob_key_of_segments list_all_iff)
  ultimately show ?thesis
    unfolding blob_key_of_segments BlobKey_new_def MAX_BLOB_KEY_BYTES_def
    by (auto simp: prefix_def suffix_def)
qed

lemma parse_project_digits:
  assumes "project_id_ok p" "2 \<le> radix" "radix \<le> 36"
  shows "parse_project radix (digits_of radix (nat p)) = Inr p"
proof -
  obtain c cs where s: "digits_of radix (nat p) = c # cs" by (cases "digits_of radix (nat p)") simp_all
  have "c \<noteq> CHR ''-''" using set_digits_of[of c radix "nat p"] assms(2,3) by (auto simp: s ascii_defs)
  then have "parse_signed radix (2 ^ 31) (digits_of radix (nat p)) = Some p"
    using parse_unsigned_digits_of[OF assms(2,3), of "2 ^ 31" "nat p"] project_nat[OF assms(1)]
    by (auto simp: parse_signed_def s)
  then show ?thesis using assms(1) by (simp add: parse_project_def ProjectId_new_def project_id_ok_def)
qed

lemma codec_hex: "codec_laws C \<Longrightarrow> bc_hex C a = bc_hex C b \<longleftrightarrow> a = b"
  unfolding codec_laws_def hex_laws_def by (metis option.inject)

lemma codec_b64: "codec_laws C \<Longrightarrow> bc_b64 C a = bc_b64 C b \<longleftrightarrow> a = b"
  unfolding codec_laws_def by (metis option.inject)

lemma parse_event_hex: "codec_laws C \<Longrightarrow> length e = 16 \<Longrightarrow> parse_event C (bc_hex C e) = Inr e"
  by (simp add: parse_event_def EventId_parse_def codec_laws_def parse_hex_identifier_encode ok_or_def)

lemma parse_object_hex: "codec_laws C \<Longrightarrow> length e = 16 \<Longrightarrow> BlobObjectId_parse C (bc_hex C e) = Inr e"
  by (simp add: BlobObjectId_parse_def codec_laws_def parse_hex_identifier_encode ok_or_def)

lemma from_directory_directory: "ArchiveKind_from_directory (ArchiveKind_directory k) = Some k"
  by (cases k) (simp_all add: ArchiveKind_from_directory_def)

fun namespace_of :: "blob_identity \<Rightarrow> blob_namespace" where
  "namespace_of (BI_Event p e obj) = NS_EventOwned"
| "namespace_of (BI_Replay p e n) = NS_ReplayRecordings"
| "namespace_of (BI_DebugChunk org sha1) = NS_DebugChunks"
| "namespace_of (BI_DebugFile p f) = NS_DebugFiles"
| "namespace_of (BI_Bundle org b g) = NS_ArtifactBundles"
| "namespace_of (BI_Archive k p y m d seg) = BlobNamespace_archive k"

fun kind_of_identity :: "blob_identity \<Rightarrow> blob_kind" where
  "kind_of_identity (BI_Event p e obj) = BK_EventAttachment"
| "kind_of_identity (BI_Replay p e n) = BK_ReplayRecording"
| "kind_of_identity (BI_DebugChunk org sha1) = BK_DebugChunk"
| "kind_of_identity (BI_DebugFile p f) = BK_DebugFile"
| "kind_of_identity (BI_Bundle org b g) = BK_ArtifactBundle"
| "kind_of_identity (BI_Archive k p y m d seg) = BlobKind_archive k"

definition relations_of :: "blob_codecs \<Rightarrow> blob_identity \<Rightarrow> bool" where
  "relations_of C i = (let key = blob_key_of C i in
     BlobKey_event_relation C key = (case i of BI_Event p e obj \<Rightarrow> Inr (p, e, obj) | _ \<Rightarrow> Inl BV_InvalidKey)
     \<and> BlobKey_replay_relation C key = (case i of BI_Replay p e n \<Rightarrow> Inr (p, e, n) | _ \<Rightarrow> Inl BV_InvalidKey)
     \<and> BlobKey_debug_file_relation C key = (case i of BI_DebugFile p f \<Rightarrow> Inr (p, f) | _ \<Rightarrow> Inl BV_InvalidKey)
     \<and> BlobKey_archive_relation key = (case i of BI_Archive k p y m d seg \<Rightarrow> Inr (p, k) | _ \<Rightarrow> Inl BV_InvalidKey))"

lemmas relation_defs = BlobKey_event_relation_def BlobKey_replay_relation_def BlobKey_debug_file_relation_def
  BlobKey_archive_relation_def

lemma key_relations:
  assumes "codec_laws C" "blob_identity_ok i"
  shows "relations_of C i"
proof (cases i)
  case (BI_Replay p e n)
  moreover have "parse_unsigned 10 (2 ^ 32) (dec_string n) = Some n"
    using parse_unsigned_digits_of[of 10 "2 ^ 32" n] assms(2) BI_Replay by simp
  ultimately show ?thesis
    unfolding relations_of_def relation_defs Let_def key_split[OF assms]
    using assms by (simp add: parse_project_digits parse_event_hex ok_or_def result_simps)
next
  case (BI_DebugFile p f)
  then show ?thesis
    unfolding relations_of_def relation_defs Let_def key_split[OF assms]
    using assms by (simp add: base36_simps parse_project_digits DebugFileId_parse_def codec_laws_def ok_or_def result_simps)
qed (unfold relations_of_def relation_defs Let_def key_split[OF assms], use assms in \<open>simp_all add: parse_project_digits
      parse_event_hex parse_object_hex from_directory_directory ok_or_def result_simps suffix_def\<close>)

lemma key_prefix:
  "prefix (BlobNamespace_prefix ns) (blob_key_of C i)
    \<longleftrightarrow> BlobNamespace_prefix ns = BlobNamespace_prefix (namespace_of i)"
proof -
  have "BlobNamespace_prefix (BlobNamespace_archive k) = ''projects/''" for k by (cases k) simp_all
  then show ?thesis
    by (cases i; cases ns) (simp_all add: BlobKey_event_owned_def BlobKey_replay_recording_def BlobKey_debug_chunk_def
        BlobKey_debug_file_def BlobKey_artifact_bundle_def BlobKey_archive_def)
qed

lemma key_namespace:
  assumes "relations_of C i"
  shows "BlobNamespace_kind_for_key C ns (blob_key_of C i)
    = (if ns = namespace_of i then Inr (kind_of_identity i) else Inl BV_InvalidKey)"
proof -
  define key where "key = blob_key_of C i"
  have pre: "prefix (BlobNamespace_prefix ns) key \<longleftrightarrow> BlobNamespace_prefix ns = BlobNamespace_prefix (namespace_of i)"
    unfolding key_def by (rule key_prefix)
  have rel: "BlobKey_event_relation C key = (case i of BI_Event p e obj \<Rightarrow> Inr (p, e, obj) | _ \<Rightarrow> Inl BV_InvalidKey)"
    "BlobKey_replay_relation C key = (case i of BI_Replay p e n \<Rightarrow> Inr (p, e, n) | _ \<Rightarrow> Inl BV_InvalidKey)"
    "BlobKey_archive_relation key = (case i of BI_Archive k p y m d seg \<Rightarrow> Inr (p, k) | _ \<Rightarrow> Inl BV_InvalidKey)"
    using assms unfolding relations_of_def Let_def key_def by blast+
  note defs = BlobNamespace_kind_for_key_def pre archive_kind_of_key_def rel
  have "BlobNamespace_kind_for_key C ns key = (if ns = namespace_of i then Inr (kind_of_identity i) else Inl BV_InvalidKey)"
  proof (cases i)
    case (BI_Archive k p y m d seg)
    then show ?thesis unfolding defs by (cases k; cases ns) simp_all
  next
    case (BI_Event p e obj)
    then show ?thesis unfolding defs by (cases ns) simp_all
  next
    case (BI_Replay p e n)
    then show ?thesis unfolding defs by (cases ns) simp_all
  next
    case (BI_DebugChunk org sha1)
    then show ?thesis unfolding defs by (cases ns) simp_all
  next
    case (BI_DebugFile p f)
    then show ?thesis unfolding defs by (cases ns) simp_all
  next
    case (BI_Bundle org b g)
    then show ?thesis unfolding defs by (cases ns) simp_all
  qed
  then show ?thesis by (simp only: key_def)
qed

lemma parse_zeros: "parse_digits 10 bound 0 (replicate k (CHR ''0'') @ s) = parse_digits 10 bound 0 s" if "0 < bound"
  using that by (induction k) (simp_all add: to_digit_def is_ascii_digit_def)

lemma zero_filled_inj: "zero_filled w m = zero_filled w n \<longleftrightarrow> m = n"
proof -
  have "parse_digits 10 (Suc (m + n)) 0 (zero_filled w k) = (if k < Suc (m + n) then Some k else None)" for k
    using parse_digits_of[of 10 "Suc (m + n)" k] by (simp add: zero_filled_def parse_zeros)
  from this[of m] this[of n] show ?thesis by (metis less_Suc_eq_le le_add1 le_add2 option.inject)
qed

lemma ArchiveKind_directory_inj: "ArchiveKind_directory a = ArchiveKind_directory b \<longleftrightarrow> a = b"
  by (metis from_directory_directory option.inject)

lemma project_dec_inj: "project_id_ok p \<Longrightarrow> project_id_ok q \<Longrightarrow> nat p = nat q \<longleftrightarrow> p = q"
  using project_nat by metis

lemma segments_inj:
  assumes "codec_laws C" "blob_identity_ok i" "blob_identity_ok j" "key_segments C i = key_segments C j"
  shows "i = j"
  using assms(2-4)
  by (cases i; cases j)
    (auto simp: codec_hex[OF assms(1)] codec_b64[OF assms(1)] digits_of_inj base36_simps zero_filled_inj
      zero_filled_signed_def ArchiveKind_directory_inj project_dec_inj eq_nat_nat_iff split: if_splits)

text \<open>
  C39. Blob keys are safe and unambiguous: the key of every event object, replay segment, debug chunk, debug
  file, artifact bundle and archive is a valid key (bounded, relative, no empty, dot or traversal segment), the
  relations read back exactly the identity the key was made from and refuse the keys of other kinds, a namespace
  recognises the keys made for it and no others, and two identities share a key only when they are equal.
\<close>
theorem blob_keys_unambiguous:
  assumes "codec_laws C" "blob_identity_ok i" "blob_identity_ok j"
  shows "BlobKey_new (blob_key_of C i) = Inr (blob_key_of C i) \<and> relations_of C i
    \<and> BlobNamespace_kind_for_key C ns (blob_key_of C i)
        = (if ns = namespace_of i then Inr (kind_of_identity i) else Inl BV_InvalidKey)
    \<and> (blob_key_of C i = blob_key_of C j \<longleftrightarrow> i = j)"
proof (intro conjI)
  show "BlobKey_new (blob_key_of C i) = Inr (blob_key_of C i)" by (rule key_valid[OF assms(1,2)])
  show r: "relations_of C i" by (rule key_relations[OF assms(1,2)])
  show "blob_key_of C i = blob_key_of C j \<longleftrightarrow> i = j"
    using segments_inj[OF assms] key_split[OF assms(1,2)] key_split[OF assms(1,3)] by metis
  show "BlobNamespace_kind_for_key C ns (blob_key_of C i)
        = (if ns = namespace_of i then Inr (kind_of_identity i) else Inl BV_InvalidKey)"
    by (rule key_namespace[OF r])
qed

text \<open>Codecs with these laws: hexadecimal pairs, and the fixed-width base-64 digits of the bytes read as a number.\<close>

definition alphabet64 :: string where
  "alphabet64 = ''ABCDEFGHIJKLMNOPQRSTUVWXYZabcdefghijklmnopqrstuvwxyz0123456789-_''"

definition index64 :: "char \<Rightarrow> nat" where
  "index64 c = length (takeWhile (\<lambda>d. d \<noteq> c) alphabet64)"

fun digits64 :: "nat \<Rightarrow> nat \<Rightarrow> string" where
  "digits64 0 v = []"
| "digits64 (Suc k) v = digits64 k (v div 64) @ [alphabet64 ! (v mod 64)]"

definition value64 :: "string \<Rightarrow> nat" where
  "value64 s = foldl (\<lambda>a c. a * 64 + index64 c) 0 s"

definition encode64 :: "bytes \<Rightarrow> string" where
  "encode64 b = digits64 ((length b * 4 + 2) div 3) (from_be b)"

definition decode64 :: "string \<Rightarrow> bytes option" where
  "decode64 s = Some (be_bytes (length s * 3 div 4) (value64 s))"

lemma alphabet64_chars:
  "length alphabet64 = 64" "list_all (\<lambda>c. is_ascii_alphanumeric c \<or> c \<in> {CHR ''-'', CHR ''_''}) alphabet64"
  by (simp_all add: alphabet64_def ascii_defs)

lemma index64_nth: "i < 64 \<Longrightarrow> index64 (alphabet64 ! i) = i"
proof -
  assume i: "i < 64"
  have d: "distinct alphabet64" by (simp add: alphabet64_def)
  have "takeWhile (\<lambda>d. d \<noteq> alphabet64 ! i) alphabet64 = take i alphabet64"
    using i alphabet64_chars(1) d by (intro takeWhile_eq_take_P_nth) (auto simp: nth_eq_iff_index_eq)
  then show ?thesis using i alphabet64_chars(1) by (simp add: index64_def)
qed

lemma length_digits64 [simp]: "length (digits64 k v) = k"
  by (induction k arbitrary: v) simp_all

lemma value_digits64: "v < 64 ^ k \<Longrightarrow> value64 (digits64 k v) = v"
proof (induction k arbitrary: v)
  case (Suc k)
  then have "value64 (digits64 k (v div 64)) = v div 64" by (intro Suc.IH) (simp add: less_mult_imp_div_less mult.commute)
  then show ?case by (simp add: value64_def index64_nth)
qed (simp add: value64_def)

lemma set_digits64: "c \<in> set (digits64 k v) \<Longrightarrow> c \<in> set alphabet64"
  using alphabet64_chars(1) by (induction k arbitrary: v) auto

lemma from_be_bound: "from_be b < 256 ^ length b"
proof (induction b rule: rev_induct)
  case (snoc w b)
  have "unat w < 256" using unsigned_less[of w, where 'a = nat] by simp
  with snoc show ?case by (simp add: from_be_append1)
qed (simp add: from_be_def)

lemma be_bytes_from_be: "be_bytes (length b) (from_be b) = b"
proof (induction b rule: rev_induct)
  case (snoc w b)
  have "unat w < 256" using unsigned_less[of w, where 'a = nat] by simp
  then show ?case using snoc by (simp add: from_be_append1)
qed simp

lemma decode64_encode64: "decode64 (encode64 b) = Some b"
proof -
  let ?n = "length b" and ?k = "(length b * 4 + 2) div 3"
  have k: "4 * ?n \<le> 3 * ?k" "3 * ?k \<le> 4 * ?n + 2" by linarith+
  have "(256 :: nat) ^ ?n = 2 ^ (8 * ?n)" by (simp add: power_mult)
  also have "\<dots> \<le> 2 ^ (6 * ?k)" using k(1) by (intro power_increasing) auto
  also have "\<dots> = 64 ^ ?k" by (simp add: power_mult)
  finally have "from_be b < 64 ^ ?k" using from_be_bound[of b] by linarith
  moreover have "?k * 3 div 4 = ?n" using k by linarith
  ultimately show ?thesis
    by (simp add: decode64_def encode64_def value_digits64 be_bytes_from_be)
qed

definition sample_codecs :: blob_codecs where
  "sample_codecs = \<lparr>bc_hex = hex_encode16, bc_unhex = hex_decode16, bc_b64 = encode64, bc_unb64 = decode64\<rparr>"

lemma sample_codecs_laws: "codec_laws sample_codecs"
proof -
  have "list_all (\<lambda>c. is_ascii_alphanumeric c \<or> c \<in> {CHR ''-'', CHR ''_''}) (encode64 b)" for b
    using alphabet64_chars(2) set_digits64 unfolding encode64_def list_all_iff by blast
  moreover have "length (encode64 b) = (length b * 4 + 2) div 3" for b by (simp add: encode64_def)
  ultimately show ?thesis by (simp add: codec_laws_def sample_codecs_def hex_laws16 decode64_encode64)
qed

theorem blob_keys_unambiguous_witness:
  "let e = BI_Event 7 (replicate 16 1) (replicate 16 2); r = BI_Replay 7 (replicate 16 1) 2 in
    BlobKey_event_relation sample_codecs (blob_key_of sample_codecs e) = Inr (7, replicate 16 1, replicate 16 2)
    \<and> BlobNamespace_kind_for_key sample_codecs NS_ReplayRecordings (blob_key_of sample_codecs e) = Inl BV_InvalidKey
    \<and> blob_key_of sample_codecs e \<noteq> blob_key_of sample_codecs r"
proof -
  let ?e = "BI_Event 7 (replicate 16 1) (replicate 16 2)" and ?r = "BI_Replay 7 (replicate 16 1) 2"
  have ok: "blob_identity_ok ?e" "blob_identity_ok ?r" by (simp_all add: project_id_ok_def i32_ok_def)
  note h = blob_keys_unambiguous[OF sample_codecs_laws ok, of NS_ReplayRecordings]
  then have "relations_of sample_codecs ?e" by blast
  then have "BlobKey_event_relation sample_codecs (blob_key_of sample_codecs ?e) = Inr (7, replicate 16 1, replicate 16 2)"
    by (simp add: relations_of_def Let_def del: blob_key_of.simps)
  with h show ?thesis by (simp add: Let_def del: blob_key_of.simps)
qed

end
