(* ===== verification/Ingest_Records.thy ===== *)
theory Ingest_Records
  imports Ingest_Signals Blob_Values
begin

text \<open>
  User feedback (\<^verbatim>\<open>crates/domain/src/feedback.rs\<close>) and session replays (\<^verbatim>\<open>crates/domain/src/replays.rs\<close>) with their
  conversion in \<^verbatim>\<open>crates/application/src/ingest.rs\<close>. The zlib decoder, the counting JSON reader, the url setters and
  the rounding of seconds are parameters beside those of the other signals.
\<close>

section \<open>Feedback\<close>

definition MAX_FEEDBACK_MESSAGE_BYTES :: nat where "MAX_FEEDBACK_MESSAGE_BYTES = 16 * 1024"
definition MAX_FEEDBACK_NAME_BYTES :: nat where "MAX_FEEDBACK_NAME_BYTES = 512"
definition MAX_FEEDBACK_CONTACT_BYTES :: nat where "MAX_FEEDBACK_CONTACT_BYTES = 512"
definition MAX_FEEDBACK_URL_BYTES :: nat where "MAX_FEEDBACK_URL_BYTES = 2 * 1024"
definition MAX_FEEDBACK_ATTACHMENTS :: nat where "MAX_FEEDBACK_ATTACHMENTS = 10"

datatype feedback_status = FB_Open | FB_Resolved | FB_Spam

fun FeedbackStatus_as_str :: "feedback_status \<Rightarrow> string" where
  "FeedbackStatus_as_str FB_Open = ''open''"
| "FeedbackStatus_as_str FB_Resolved = ''resolved''"
| "FeedbackStatus_as_str FB_Spam = ''spam''"

definition FeedbackStatus_parse :: "string \<Rightarrow> feedback_status option" where
  "FeedbackStatus_parse v = (if v = ''open'' then Some FB_Open else if v = ''resolved'' then Some FB_Resolved
     else if v = ''spam'' then Some FB_Spam else None)"

record feedback_record =
  fb_project_id :: project_id
  fb_feedback_id :: event_id
  fb_received_at :: timestamp
  fb_status :: feedback_status
  fb_status_changed_at :: timestamp
  fb_message :: string
  fb_name :: "string option"
  fb_contact_email :: "string option"
  fb_url :: "string option"
  fb_associated_event_id :: "event_id option"
  fb_issue_id :: "bytes option"
  fb_trace_id :: "trace_id option"
  fb_replay_id :: "event_id option"
  fb_attachments :: "event_attachment list"
  fb_expires_at :: timestamp

definition feedback_required_ok :: "string \<Rightarrow> nat \<Rightarrow> bool" where
  "feedback_required_ok v maximum = (\<not> (str_trim v = [] \<or> length v > maximum \<or> CHR 0x00 \<in> set v))"

definition feedback_optional_ok :: "string option \<Rightarrow> nat \<Rightarrow> bool" where
  "feedback_optional_ok v maximum = (case v of None \<Rightarrow> True | Some v \<Rightarrow> feedback_required_ok v maximum)"

definition FeedbackRecord_validate :: "feedback_record \<Rightarrow> bool" where
  "FeedbackRecord_validate r = (feedback_required_ok (fb_message r) MAX_FEEDBACK_MESSAGE_BYTES
     \<and> feedback_optional_ok (fb_name r) MAX_FEEDBACK_NAME_BYTES
     \<and> feedback_optional_ok (fb_contact_email r) MAX_FEEDBACK_CONTACT_BYTES
     \<and> feedback_optional_ok (fb_url r) MAX_FEEDBACK_URL_BYTES
     \<and> \<not> (length (fb_attachments r) > MAX_FEEDBACK_ATTACHMENTS \<or> fb_status_changed_at r < fb_received_at r
          \<or> fb_expires_at r \<le> fb_received_at r))"

fun attachment_total :: "nat \<Rightarrow> pending_attachment list \<Rightarrow> nat \<Rightarrow> ingest_error + nat" where
  "attachment_total maximum [] n = Inr n"
| "attachment_total maximum (a # as) n =
     (if length (pa_bytes a) > maximum then Inl (IngestError Ing_TooLarge ''feedback_attachment_too_large'')
      else if n + length (pa_bytes a) > u64_max then Inl (IngestError Ing_TooLarge ''feedback_attachments_too_large'')
      else attachment_total maximum as (n + length (pa_bytes a)))"

definition validate_feedback_attachment_limits ::
  "pending_attachment list \<Rightarrow> feedback_ingest_config \<Rightarrow> ingest_error + unit" where
  "validate_feedback_attachment_limits attachments c =
     (if length attachments > fc_max_attachments c
      then Inl (IngestError Ing_TooLarge ''feedback_too_many_attachments'')
      else and_then (attachment_total (fc_max_attachment_bytes c) attachments 0) (\<lambda>n.
        if n > fc_max_total_attachment_bytes c then Inl (IngestError Ing_TooLarge ''feedback_attachments_too_large'')
        else Inr ()))"

definition feedback_text :: "json option \<Rightarrow> nat \<Rightarrow> bool \<Rightarrow> string \<Rightarrow> ingest_error + string option" where
  "feedback_text v maximum required code = (case v of
       None \<Rightarrow> if required then Inl (IngestError_invalid code) else Inr None
     | Some v \<Rightarrow> and_then (ok_or (IngestError_invalid code) (json_as_str v)) (\<lambda>t.
         let t = str_trim t in
         if t = [] \<or> length t > maximum \<or> CHR 0x00 \<in> set t then Inl (IngestError_invalid code) else Inr (Some t)))"

definition feedback_url_ok :: "'u signal_ops \<Rightarrow> string option \<Rightarrow> bool" where
  "feedback_url_ok X url = (case url of None \<Rightarrow> True
     | Some u \<Rightarrow> is_some_and (url_parse (io_url X) u) (\<lambda>p. url_scheme (io_url X) p \<in> {''http'', ''https''}))"

definition feedback_trace_id :: "'u signal_ops \<Rightarrow> json option \<Rightarrow> ingest_error + trace_id option" where
  "feedback_trace_id X v = transpose_opt (map_option (\<lambda>v.
     and_then (ok_or (IngestError_invalid ''invalid_feedback_trace_id'') (json_as_str v)) (\<lambda>t.
     map_err (\<lambda>_. IngestError_invalid ''invalid_feedback_trace_id'') (TraceId_parse (io_hex_decode X) t))) v)"

definition feedback_expiry :: "feedback_ingest_config \<Rightarrow> timestamp \<Rightarrow> ingest_error + timestamp" where
  "feedback_expiry c received_at =
     ok_or (IngestError_invalid ''invalid_feedback_retention'')
       (Option.bind (checked_i64 (int (fc_retention_days c) * (24 * 60 * 60 * 1000))) (\<lambda>retention.
        Option.bind (checked_i64 (received_at + retention)) (\<lambda>t.
        case Timestamp_from_unix_millis t of Inl _ \<Rightarrow> None | Inr t \<Rightarrow> Some t)))"

definition normalize_feedback ::
  "'u signal_ops \<Rightarrow> project_snapshot \<Rightarrow> primary_event \<Rightarrow> event_id option \<Rightarrow> timestamp \<Rightarrow> feedback_ingest_config
    \<Rightarrow> ingest_error + feedback_record" where
  "normalize_feedback X snapshot primary envelope_event_id received_at c =
     and_then (ok_or (IngestError_invalid ''invalid_feedback_json'') (jo_from_slice (io_json X) (pr_raw_json primary))) (\<lambda>v.
     and_then (ok_or (IngestError_invalid ''feedback_not_object'') (json_as_object v)) (\<lambda>m.
     if Option.bind (map_of m ''type'') json_as_str \<noteq> Some ''feedback'' then Inl (IngestError_invalid ''invalid_feedback_type'')
     else
     and_then (ok_or (IngestError_invalid ''missing_feedback_id'') (Option.bind (map_of m ''event_id'') json_as_str)) (\<lambda>t.
     and_then (map_err (\<lambda>_. IngestError_invalid ''invalid_feedback_id'') (EventId_parse (io_hex_decode X) t)) (\<lambda>feedback_id.
     if list_ex (\<lambda>stated. stated \<noteq> feedback_id) (List.map_filter id [pr_header_event_id primary, envelope_event_id])
     then Inl (IngestError_invalid ''conflicting_event_id'')
     else
     and_then (scrub_value (ops_of X) (ps_scrub_policy snapshot) 0 None (J_Object (bt_remove ''project'' m))) (\<lambda>v.
     and_then (ok_or (IngestError_invalid ''missing_feedback_context'')
       (Option.bind (json_pointer v [''contexts'', ''feedback'']) json_as_object)) (\<lambda>context.
     and_then (feedback_text (map_of context ''message'') (fc_max_message_bytes c) True ''invalid_feedback_message'') (\<lambda>message.
     and_then (ok_or (IngestError_invalid ''missing_feedback_message'') message) (\<lambda>message.
     and_then (feedback_text (map_of context ''name'') (fc_max_name_bytes c) False ''invalid_feedback_name'') (\<lambda>name.
     and_then (feedback_text (opt_or (map_of context ''contact_email'') (map_of context ''email''))
       (fc_max_contact_bytes c) False ''invalid_feedback_contact'') (\<lambda>contact_email.
     and_then (feedback_text (map_of context ''url'') (fc_max_url_bytes c) False ''invalid_feedback_url'') (\<lambda>url.
     if \<not> feedback_url_ok X url then Inl (IngestError_invalid ''invalid_feedback_url'')
     else
     and_then (optional_event_id (ops_of X) (map_of context ''associated_event_id'') ''invalid_associated_event_id'') (\<lambda>associated.
     and_then (optional_event_id (ops_of X) (map_of context ''replay_id'') ''invalid_replay_id'') (\<lambda>replay_id.
     and_then (feedback_trace_id X (json_pointer v [''contexts'', ''trace'', ''trace_id''])) (\<lambda>trace_id.
     and_then (feedback_expiry c received_at) (\<lambda>expires_at.
     Inr \<lparr>fb_project_id = ps_project_id snapshot, fb_feedback_id = feedback_id, fb_received_at = received_at,
       fb_status = FB_Open, fb_status_changed_at = received_at, fb_message = message, fb_name = name,
       fb_contact_email = contact_email, fb_url = url, fb_associated_event_id = associated, fb_issue_id = None,
       fb_trace_id = trace_id, fb_replay_id = replay_id, fb_attachments = [], fb_expires_at = expires_at\<rparr>)))))))))))))))"

section \<open>Replays\<close>

definition MAX_REPLAY_SEGMENTS :: nat where "MAX_REPLAY_SEGMENTS = 100"
definition MAX_REPLAY_CORRELATIONS :: nat where "MAX_REPLAY_CORRELATIONS = 100"
definition MAX_REPLAY_TEXT_BYTES :: nat where "MAX_REPLAY_TEXT_BYTES = 256"
definition MAX_REPLAY_DURATION_MILLIS :: int where "MAX_REPLAY_DURATION_MILLIS = 24 * 60 * 60 * 1000"

record replay_metadata =
  rm_project_id :: project_id
  rm_replay_id :: event_id
  rm_segment_id :: nat
  rm_started_at :: timestamp
  rm_ended_at :: timestamp
  rm_received_at :: timestamp
  rm_environment :: "string option"
  rm_release :: "string option"
  rm_url :: "string option"
  rm_error_ids :: "event_id list"
  rm_trace_ids :: "trace_id list"

record replay_submission =
  rs_metadata :: replay_metadata
  rs_recording :: bytes
  rs_decompressed_bytes :: nat
  rs_event_count :: nat

definition replay_optional_ok :: "string option \<Rightarrow> bool" where
  "replay_optional_ok v = (\<not> is_some_and v (\<lambda>v. v = [] \<or> length v > MAX_REPLAY_TEXT_BYTES \<or> has_control v))"

definition ReplayMetadata_validate :: "replay_metadata \<Rightarrow> bool" where
  "ReplayMetadata_validate m = (case checked_i64 (rm_ended_at m - rm_started_at m) of
       None \<Rightarrow> False
     | Some duration \<Rightarrow> \<not> (rm_segment_id m \<ge> MAX_REPLAY_SEGMENTS
         \<or> \<not> (0 \<le> duration \<and> duration \<le> MAX_REPLAY_DURATION_MILLIS)
         \<or> length (rm_error_ids m) > MAX_REPLAY_CORRELATIONS \<or> length (rm_trace_ids m) > MAX_REPLAY_CORRELATIONS)
         \<and> replay_optional_ok (rm_environment m) \<and> replay_optional_ok (rm_release m) \<and> replay_optional_ok (rm_url m))"

record replay_ingest_config =
  ri_max_decompressed_segment_bytes :: nat
  ri_max_events_per_segment :: nat

definition ReplayIngestConfig_default :: replay_ingest_config where
  "ReplayIngestConfig_default =
     \<lparr>ri_max_decompressed_segment_bytes = 20 * 1024 * 1024, ri_max_events_per_segment = 100000\<rparr>"

record pending_replay =
  pp_event_json :: bytes
  pp_recording :: bytes

text \<open>
  \<open>rp_inflate n bs\<close> reads at most \<open>n\<close> bytes of the decompressed stream; \<open>rp_array_length\<close> is the number of
  elements of a text that is one JSON array; \<open>rp_millis\<close> rounds seconds in range to milliseconds.
\<close>

record 'u replay_ops = "'u signal_ops" +
  rp_clear_query :: "'u \<Rightarrow> 'u"
  rp_clear_fragment :: "'u \<Rightarrow> 'u"
  rp_inflate :: "nat \<Rightarrow> bytes \<Rightarrow> bytes option"
  rp_array_length :: "bytes \<Rightarrow> nat option"
  rp_millis :: "f64 \<Rightarrow> int option"

abbreviation signals_of :: "'u replay_ops \<Rightarrow> 'u signal_ops" where
  "signals_of X \<equiv> signal_ops.truncate X"

definition parse_replay_timestamp :: "'u replay_ops \<Rightarrow> json \<Rightarrow> ingest_error + timestamp" where
  "parse_replay_timestamp X v =
     and_then (ok_or (IngestError_invalid ''invalid_replay_timestamp'')
       (opt_filter f64_is_finite (json_as_f64 (signals_of X) v))) (\<lambda>seconds.
     and_then (ok_or (IngestError_invalid ''invalid_replay_timestamp'') (rp_millis X seconds)) (\<lambda>ms.
     map_err (\<lambda>_. IngestError_invalid ''invalid_replay_timestamp'') (Timestamp_from_unix_millis ms)))"

definition bounded_replay_text :: "json option \<Rightarrow> ingest_error + string option" where
  "bounded_replay_text v = transpose_opt (map_option (\<lambda>v.
     ok_or (IngestError_invalid ''invalid_replay_text'')
       (opt_filter (\<lambda>t. t \<noteq> [] \<and> length t \<le> MAX_REPLAY_TEXT_BYTES \<and> \<not> has_control t) (json_as_str v)))
     (opt_filter (\<lambda>v. v \<noteq> J_Null) v))"

definition replay_url :: "'u replay_ops \<Rightarrow> json option \<Rightarrow> ingest_error + string option" where
  "replay_url X v = (case Option.bind (Option.bind (Option.bind v json_as_array) iter_last) json_as_str of
       None \<Rightarrow> Inr None
     | Some raw \<Rightarrow>
         and_then (ok_or (IngestError_invalid ''invalid_replay_url'') (url_parse (io_url X) raw)) (\<lambda>url.
         if url_scheme (io_url X) url \<notin> {''http'', ''https''} \<or> url_host_str (io_url X) url = None
         then Inl (IngestError_invalid ''invalid_replay_url'')
         else
         and_then (ok_or (IngestError_invalid ''invalid_replay_url'')
           (url_clear_password (io_url X) (rp_clear_fragment X (rp_clear_query X url)))) (\<lambda>url.
         and_then (ok_or (IngestError_invalid ''invalid_replay_url'') (url_set_username (io_url X) [] url)) (\<lambda>url.
         if length (url_to_string (io_url X) url) > MAX_REPLAY_TEXT_BYTES then Inl (IngestError_invalid ''invalid_replay_url'')
         else Inr (Some (url_to_string (io_url X) url))))))"

definition replay_id_strings :: "json option \<Rightarrow> (string \<Rightarrow> 'a option) \<Rightarrow> string \<Rightarrow> ingest_error + 'a list" where
  "replay_id_strings v parse code = (case v of
       None \<Rightarrow> Inr []
     | Some vs \<Rightarrow>
         and_then (ok_or (IngestError_invalid code)
           (opt_filter (\<lambda>vs. length vs \<le> MAX_REPLAY_CORRELATIONS) (json_as_array vs))) (\<lambda>vs.
         try_map (\<lambda>v. ok_or (IngestError_invalid code) (Option.bind (json_as_str v) parse)) vs))"

definition sum_ok :: "'e + 'a \<Rightarrow> 'a option" where
  "sum_ok r = (case r of Inl _ \<Rightarrow> None | Inr x \<Rightarrow> Some x)"

definition replay_event_ids :: "'u replay_ops \<Rightarrow> json option \<Rightarrow> ingest_error + event_id list" where
  "replay_event_ids X v =
     replay_id_strings v (\<lambda>t. sum_ok (EventId_parse (io_hex_decode X) t)) ''invalid_replay_error_id''"

definition replay_trace_ids :: "'u replay_ops \<Rightarrow> json option \<Rightarrow> ingest_error + trace_id list" where
  "replay_trace_ids X v =
     replay_id_strings v (\<lambda>t. sum_ok (TraceId_parse (io_hex_decode X) t)) ''invalid_replay_trace_id''"

definition count_replay_events :: "'u replay_ops \<Rightarrow> bytes \<Rightarrow> nat \<Rightarrow> ingest_error + nat" where
  "count_replay_events X bs maximum = (case rp_array_length X bs of
       Some n \<Rightarrow> if n > maximum then Inl (IngestError_invalid ''invalid_replay_events'') else Inr n
     | None \<Rightarrow> Inl (IngestError_invalid ''invalid_replay_events''))"

text \<open>\<^verbatim>\<open>u8::is_ascii_whitespace\<close>.\<close>

definition ascii_space :: "8 word \<Rightarrow> bool" where
  "ascii_space b = (b \<in> {9, 10, 12, 13, 32})"

definition replay_payload :: "bytes \<Rightarrow> json_ops \<Rightarrow> ingest_error + nat \<times> bytes" where
  "replay_payload recording J =
     (let header = takeWhile (\<lambda>b. b \<noteq> 10) (take 257 recording) in
      if length header = length (take 257 recording) \<or> header = []
      then Inl (IngestError_invalid ''invalid_replay_recording_header'')
      else
      and_then (ok_or (IngestError_invalid ''invalid_replay_recording_header'') (jo_from_slice J header)) (\<lambda>v.
      and_then (ok_or (IngestError_invalid ''invalid_replay_recording_header'')
        (Option.bind (Option.bind (json_get v ''segment_id'') json_as_u64) u32_of_u64)) (\<lambda>segment_id.
      let payload = drop (length header + 1) recording in
      if payload = [] then Inl (IngestError_invalid ''empty_replay_recording'') else Inr (segment_id, payload))))"

definition replay_events :: "'u replay_ops \<Rightarrow> bytes \<Rightarrow> 8 word \<Rightarrow> replay_ingest_config \<Rightarrow> ingest_error + bytes" where
  "replay_events X payload first c =
     (if first = 91 then
        (if length payload > ri_max_decompressed_segment_bytes c
         then Inl (IngestError_invalid ''replay_decompressed_too_large'') else Inr payload)
      else
        and_then (ok_or (IngestError_invalid ''invalid_replay_compression'')
          (rp_inflate X (saturating_add_u64 (ri_max_decompressed_segment_bytes c) 1) payload)) (\<lambda>bs.
        if length bs > ri_max_decompressed_segment_bytes c
        then Inl (IngestError_invalid ''replay_decompressed_too_large'') else Inr bs))"

definition validate_replay_recording ::
  "'u replay_ops \<Rightarrow> bytes \<Rightarrow> replay_ingest_config \<Rightarrow> ingest_error + nat \<times> nat \<times> nat" where
  "validate_replay_recording X recording c =
     and_then (replay_payload recording (io_json X)) (\<lambda>(segment_id, payload).
     and_then (ok_or (IngestError_invalid ''empty_replay_recording'') (find (\<lambda>b. \<not> ascii_space b) payload)) (\<lambda>first.
     and_then (replay_events X payload first c) (\<lambda>events.
     and_then (count_replay_events X events (ri_max_events_per_segment c)) (\<lambda>event_count.
     Inr (segment_id, length events, event_count)))))"

definition replay_sdk_ok :: "json_map \<Rightarrow> bool" where
  "replay_sdk_ok sdk = (Option.bind (map_of sdk ''version'') json_as_str = Some ''10.66.0''
     \<and> is_some_and (Option.bind (map_of sdk ''name'') json_as_str) (\<lambda>name. prefix ''sentry.javascript.'' name))"

definition normalize_replay ::
  "'u replay_ops \<Rightarrow> project_snapshot \<Rightarrow> timestamp \<Rightarrow> pending_replay \<Rightarrow> replay_ingest_config
    \<Rightarrow> ingest_error + replay_submission" where
  "normalize_replay X snapshot received_at replay c =
     (if ri_max_decompressed_segment_bytes c = 0 \<or> ri_max_events_per_segment c = 0
      then Inl (IngestError_invalid ''invalid_replay_configuration'')
      else
     and_then (scrubbed_json (signals_of X) snapshot ''invalid_replay_event'' (pp_event_json replay)) (\<lambda>event.
     and_then (ok_or (IngestError_invalid ''invalid_replay_event'') (json_as_object event)) (\<lambda>m.
     and_then (ok_or (IngestError_invalid ''invalid_replay_id'')
       (Option.bind (Option.bind (map_of m ''replay_id'') json_as_str) (\<lambda>t. sum_ok (EventId_parse (io_hex_decode X) t)))) (\<lambda>replay_id.
     if is_some_and (Option.bind (Option.bind (map_of m ''event_id'') json_as_str) (\<lambda>t. sum_ok (EventId_parse (io_hex_decode X) t)))
          (\<lambda>event_id. event_id \<noteq> replay_id)
     then Inl (IngestError_invalid ''conflicting_replay_id'')
     else
     and_then (ok_or (IngestError_invalid ''invalid_replay_segment_id'')
       (Option.bind (Option.bind (map_of m ''segment_id'') json_as_u64) u32_of_u64)) (\<lambda>segment_id.
     and_then (and_then (ok_or (IngestError_invalid ''missing_replay_start_timestamp'') (map_of m ''replay_start_timestamp''))
       (parse_replay_timestamp X)) (\<lambda>started_at.
     and_then (and_then (ok_or (IngestError_invalid ''missing_replay_timestamp'') (map_of m ''timestamp''))
       (parse_replay_timestamp X)) (\<lambda>ended_at.
     and_then (ok_or (IngestError_invalid ''missing_replay_sdk'') (Option.bind (map_of m ''sdk'') json_as_object)) (\<lambda>sdk.
     if \<not> replay_sdk_ok sdk then Inl (IngestError_invalid ''unsupported_replay_sdk'')
     else
     and_then (validate_replay_recording X (pp_recording replay) c) (\<lambda>(recording_segment_id, decompressed, event_count).
     if recording_segment_id \<noteq> segment_id then Inl (IngestError_invalid ''replay_segment_id_mismatch'')
     else
     and_then (bounded_replay_text (map_of m ''environment'')) (\<lambda>environment.
     and_then (bounded_replay_text (map_of m ''release'')) (\<lambda>release.
     and_then (replay_url X (map_of m ''urls'')) (\<lambda>url.
     and_then (replay_event_ids X (map_of m ''error_ids'')) (\<lambda>error_ids.
     and_then (replay_trace_ids X (map_of m ''trace_ids'')) (\<lambda>trace_ids.
     let metadata = \<lparr>rm_project_id = ps_project_id snapshot, rm_replay_id = replay_id, rm_segment_id = segment_id,
       rm_started_at = started_at, rm_ended_at = ended_at, rm_received_at = received_at, rm_environment = environment,
       rm_release = release, rm_url = url, rm_error_ids = error_ids, rm_trace_ids = trace_ids\<rparr> in
     if \<not> ReplayMetadata_validate metadata then Inl (IngestError_invalid ''invalid_replay_metadata'')
     else Inr \<lparr>rs_metadata = metadata, rs_recording = pp_recording replay, rs_decompressed_bytes = decompressed,
       rs_event_count = event_count\<rparr>))))))))))))))"

section \<open>Accepted feedback stays valid\<close>

lemma utf8_chars_suffix: "utf8_chars s = xs @ ys \<Longrightarrow> utf8_chars (concat ys) = ys"
proof (induction s arbitrary: xs rule: utf8_chars.induct)
  case (2 c cs)
  show ?case
  proof (cases xs)
    case Nil
    have "concat ys = c # cs" using arg_cong[OF "2.prems", of concat] unfolding concat_utf8_chars by (simp add: Nil)
    then show ?thesis using "2.prems" Nil by simp
  next
    case (Cons x xs')
    then show ?thesis using 2 by simp
  qed
qed simp

lemma utf8_chars_prefix: "utf8_chars s = ys @ zs \<Longrightarrow> utf8_chars (concat ys) = ys"
proof (induction s arbitrary: ys rule: utf8_chars.induct)
  case (2 c cs)
  let ?n = "utf8_width c - 1"
  show ?case
  proof (cases ys)
    case (Cons y ys')
    have y: "y = c # take ?n cs" "utf8_chars (drop ?n cs) = ys' @ zs" using "2.prems" Cons by simp_all
    show ?thesis
    proof (cases "?n \<le> length cs")
      case True
      then show ?thesis using "2.IH"[OF y(2)] by (simp add: Cons y(1))
    next
      case False
      then have "ys' = []" using y(2) by simp
      then show ?thesis by (simp add: Cons y(1))
    qed
  qed simp
qed simp

lemma str_trim_idem: "str_trim (str_trim s) = str_trim s"
proof -
  define a where "a = dropWhile is_whitespace (utf8_chars s)"
  define b where "b = rev (dropWhile is_whitespace (rev a))"
  have "utf8_chars s = takeWhile is_whitespace (utf8_chars s) @ a" by (simp add: a_def)
  then have a: "utf8_chars (concat a) = a" by (rule utf8_chars_suffix)
  have split: "a = b @ rev (takeWhile is_whitespace (rev a))"
    unfolding b_def by (metis rev_append rev_rev_ident takeWhile_dropWhile_id)
  have b: "utf8_chars (concat b) = b" by (rule utf8_chars_prefix[of "concat a" b]) (use a split in simp)
  have "dropWhile is_whitespace b = b"
  proof (cases b)
    case (Cons x xs)
    then have "hd a = x" using split by (metis append_Cons list.sel(1))
    moreover have "a \<noteq> []" using split Cons by auto
    ultimately have "\<not> is_whitespace x" unfolding a_def by (metis hd_dropWhile)
    then show ?thesis by (simp add: Cons)
  qed simp
  moreover have "dropWhile is_whitespace (rev b) = rev b" by (simp add: b_def dropWhile_idem)
  ultimately show ?thesis by (simp add: str_trim_def trim_chars_def b a_def[symmetric] b_def[symmetric])
qed

lemma feedback_text_ok:
  assumes "feedback_text v n required code = Inr (Some t)" "n \<le> m"
  shows "feedback_required_ok t m"
  using assms by (auto simp: feedback_text_def feedback_required_ok_def str_trim_idem and_then_eq_Inr Let_def
      split: option.splits if_splits)

lemma feedback_text_optional:
  assumes "feedback_text v n required code = Inr t" "n \<le> m"
  shows "feedback_optional_ok t m"
  using assms feedback_text_ok by (cases t) (auto simp: feedback_optional_ok_def)

definition feedback_config_ok :: "feedback_ingest_config \<Rightarrow> bool" where
  "feedback_config_ok c = (fc_max_message_bytes c \<le> MAX_FEEDBACK_MESSAGE_BYTES \<and> fc_max_name_bytes c \<le> MAX_FEEDBACK_NAME_BYTES
     \<and> fc_max_contact_bytes c \<le> MAX_FEEDBACK_CONTACT_BYTES \<and> fc_max_url_bytes c \<le> MAX_FEEDBACK_URL_BYTES
     \<and> fc_max_attachments c \<le> MAX_FEEDBACK_ATTACHMENTS \<and> 0 < fc_retention_days c)"

lemma pointer_index_name: "pointer_index ''feedback'' = None"
  by (simp add: pointer_index_def parse_unsigned_def strip_plus_def to_digit_def ascii_defs)

lemma feedback_context_exposed:
  assumes "json_pointer (J_Object m) [''contexts'', ''feedback''] = Some (J_Object ctx)" "map_of ctx k = Some u"
  shows "exposed None (J_Object m) (Some k) u"
proof -
  obtain w where w: "map_of m ''contexts'' = Some w" "json_pointer w [''feedback''] = Some (J_Object ctx)"
    using assms(1) by (auto simp: bind_eq_Some_conv)
  then obtain c where c: "map_of m ''contexts'' = Some (J_Object c)" "map_of c ''feedback'' = Some (J_Object ctx)"
    using pointer_index_name by (cases w) (auto simp: bind_eq_Some_conv)
  have plain: "\<not> is_ip_field ''contexts''" "\<not> is_ip_field ''feedback''"
    by (simp_all add: is_ip_field_def normalize_field_def ascii_defs)
  have "exposed (Some ''feedback'') (J_Object ctx) (Some k) u"
    using map_of_SomeD[OF assms(2)] plain(2) by (intro exposed.member[of _ k u]) (auto intro: exposed.here)
  then have "exposed (Some ''contexts'') (J_Object c) (Some k) u"
    using map_of_SomeD[OF c(2)] plain(1) by (intro exposed.member[of _ "''feedback''"]) auto
  then show ?thesis using map_of_SomeD[OF c(1)] by (intro exposed.member[of _ "''contexts''"]) auto
qed

lemma feedback_expiry_later:
  assumes "feedback_expiry c t = Inr e" "0 < fc_retention_days c"
  shows "t < e"
  using assms by (auto simp: feedback_expiry_def ok_or_def checked_i64_def bind_eq_Some_conv Timestamp_from_unix_millis_def
      split: option.splits if_splits sum.splits)

definition feedback_fields_ok :: "'u signal_ops \<Rightarrow> project_snapshot \<Rightarrow> timestamp \<Rightarrow> feedback_ingest_config \<Rightarrow> feedback_record \<Rightarrow> bool" where
  "feedback_fields_ok X s t c r = (fb_project_id r = ps_project_id s \<and> fb_received_at r = t \<and> fb_status_changed_at r = t
     \<and> fb_status r = FB_Open \<and> fb_attachments r = [] \<and> feedback_expiry c t = Inr (fb_expires_at r)
     \<and> feedback_url_ok X (fb_url r)
     \<and> (\<exists>vn vc vu. feedback_text vn (fc_max_name_bytes c) False ''invalid_feedback_name'' = Inr (fb_name r)
         \<and> feedback_text vc (fc_max_contact_bytes c) False ''invalid_feedback_contact'' = Inr (fb_contact_email r)
         \<and> feedback_text vu (fc_max_url_bytes c) False ''invalid_feedback_url'' = Inr (fb_url r)))"

lemma normalize_feedback_fields:
  assumes "normalize_feedback X s p e t c = Inr r"
  shows "feedback_fields_ok X s t c r"
  using assms unfolding normalize_feedback_def feedback_fields_ok_def
  by (auto simp: and_then_eq_Inr simp del: json_pointer.simps split: if_split_asm)

lemma normalize_feedback_message:
  assumes "normalize_feedback X s p e t c = Inr r"
  obtains v ctx m where "scrub_value (ops_of X) (ps_scrub_policy s) 0 None (J_Object m) = Inr v"
    "json_pointer v [''contexts'', ''feedback''] = Some (J_Object ctx)"
    "feedback_text (map_of ctx ''message'') (fc_max_message_bytes c) True ''invalid_feedback_message'' = Inr (Some (fb_message r))"
proof -
  have obj: "json_as_object v = Some m \<longleftrightarrow> v = J_Object m" for v m by (cases v) auto
  show thesis
    using assms that unfolding normalize_feedback_def
    by (auto simp: and_then_eq_Inr ok_or_def bind_eq_Some_conv obj simp del: json_pointer.simps split: if_split_asm option.split_asm)
qed


definition sample_feedback_id :: string where "sample_feedback_id = ''01010101010101010101010101010101''"

definition sample_feedback :: json where
  "sample_feedback = J_Object [(''contexts'', J_Object [(''feedback'', J_Object [(''message'', J_String ''hi'')])]),
     (''event_id'', J_String sample_feedback_id), (''type'', J_String ''feedback'')]"

definition sample_feedback_ops :: "string signal_ops" where
  "sample_feedback_ops = sample_signal_ops
     \<lparr>io_json := (io_json sample_ingest_ops)\<lparr>jo_from_slice := (\<lambda>_. Some sample_feedback)\<rparr>\<rparr>"

lemma sample_feedback_plain: "scrub_string (ops_of sample_feedback_ops) t = t" if "t \<in> {''hi'', ''feedback'', sample_feedback_id}"
proof -
  have "\<not> secret_text ''hi''" "\<not> secret_text ''feedback''" "\<not> secret_text sample_feedback_id"
    unfolding secret_text_def sample_feedback_id_def by code_simp+
  with that show ?thesis
    by (auto simp: scrub_string_def url_credentials_def sample_feedback_ops_def sample_signal_ops_def ingest_ops.defs
        sample_urls_def sample_feedback_id_def)
qed

lemma sample_feedback_scrub:
  "scrub_value (ops_of sample_feedback_ops) (ps_scrub_policy sample_snapshot) 0 None sample_feedback = Inr sample_feedback"
proof -
  have names: "\<not> is_sensitive_field ''contexts''" "\<not> is_ip_field ''contexts''" "\<not> is_sensitive_field ''feedback''"
    "\<not> is_ip_field ''feedback''" "\<not> is_sensitive_field ''message''" "\<not> is_ip_field ''message''"
    "\<not> is_sensitive_field ''event_id''" "\<not> is_ip_field ''event_id''" "\<not> is_sensitive_field ''type''" "\<not> is_ip_field ''type''"
    by (simp_all add: is_sensitive_field_def is_ip_field_def normalize_field_def ascii_defs)
  show ?thesis
    by (simp add: sample_feedback_def scrub_value.simps[of _ _ _ _ "J_Object _"] scrub_value.simps[of _ _ _ _ "J_String _"]
        MAX_SCRUB_DEPTH_def names sample_feedback_plain)
qed

lemma sample_feedback_event_id: "\<exists>e. EventId_parse hex_decode16 sample_feedback_id = Inr e"
proof -
  have "char_of (48 :: nat) = CHR ''0''" "char_of (49 :: nat) = CHR ''1''" by (simp_all add: char_of_eq_iff)
  then have eq: "sample_feedback_id = hex_encode16 [1, 1, 1, 1, 1, 1, 1, 1, 1, 1, 1, 1, 1, 1, 1, 1]"
    by (simp add: sample_feedback_id_def hex_encode16_def digit_char_def)
  have "parse_hex_identifier hex_decode16 sample_feedback_id = Some [1, 1, 1, 1, 1, 1, 1, 1, 1, 1, 1, 1, 1, 1, 1, 1]"
    unfolding eq by (rule parse_hex_identifier_encode[OF hex_laws16]) simp
  then show ?thesis by (simp add: EventId_parse_def)
qed

lemma sample_feedback_record:
  "\<exists>r. normalize_feedback sample_feedback_ops sample_snapshot \<lparr>pr_header_event_id = None, pr_raw_json = []\<rparr> None 5
     FeedbackIngestConfig_default = Inr r"
proof -
  have trim: "str_trim ''hi'' = ''hi''" by (rule str_trim_graphic) auto
  have expiry: "\<exists>e. feedback_expiry FeedbackIngestConfig_default 5 = Inr e"
    by (simp add: feedback_expiry_def FeedbackIngestConfig_default_def checked_i64_def Timestamp_from_unix_millis_def
        MAX_TIMESTAMP_MILLIS_def MIN_TIMESTAMP_MILLIS_def)
  then obtain e where e: "feedback_expiry FeedbackIngestConfig_default 5 = Inr e" ..
  obtain i where i: "EventId_parse hex_decode16 sample_feedback_id = Inr i" using sample_feedback_event_id ..
  have ops: "jo_from_slice (io_json sample_feedback_ops) [] = Some sample_feedback" "io_hex_decode sample_feedback_ops = hex_decode16"
    by (simp_all add: sample_feedback_ops_def sample_signal_ops_def)
  have doc: "json_as_object sample_feedback = Some [(''contexts'', J_Object [(''feedback'', J_Object [(''message'', J_String ''hi'')])]),
     (''event_id'', J_String sample_feedback_id), (''type'', J_String ''feedback'')]" by (simp add: sample_feedback_def)
  have removed: "J_Object (bt_remove ''project'' [(''contexts'', J_Object [(''feedback'', J_Object [(''message'', J_String ''hi'')])]),
     (''event_id'', J_String sample_feedback_id), (''type'', J_String ''feedback'')]) = sample_feedback"
    by (simp add: bt_remove_def sample_feedback_def)
  have ctx: "json_pointer sample_feedback [''contexts'', ''feedback''] = Some (J_Object [(''message'', J_String ''hi'')])"
    "json_pointer sample_feedback [''contexts'', ''trace'', ''trace_id''] = None" by (simp_all add: sample_feedback_def)
  have message: "feedback_text (Some (J_String ''hi'')) 4096 True ''invalid_feedback_message'' = Inr (Some ''hi'')"
    by (simp add: feedback_text_def trim)
  show ?thesis
    using message
    by (simp add: normalize_feedback_def ops doc i removed sample_feedback_scrub ctx e
        feedback_text_def optional_event_id_def feedback_trace_id_def transpose_opt_def feedback_url_ok_def opt_or_def
        List.map_filter_def FeedbackIngestConfig_default_def[THEN arg_cong[of _ _ fc_max_message_bytes]] del: json_pointer.simps)
qed


section \<open>Accepted replays\<close>

lemma replay_events_limit: "replay_events X payload first c = Inr bs \<Longrightarrow> length bs \<le> ri_max_decompressed_segment_bytes c"
  by (auto simp: replay_events_def and_then_eq_Inr split: if_splits)

lemma count_replay_events_limit: "count_replay_events X bs m = Inr n \<Longrightarrow> n \<le> m"
  by (auto simp: count_replay_events_def split: if_splits option.splits)

lemma recording_limits:
  assumes "validate_replay_recording X recording c = Inr (segment, n, k)"
  shows "n \<le> ri_max_decompressed_segment_bytes c \<and> k \<le> ri_max_events_per_segment c"
  using assms unfolding validate_replay_recording_def
  by (auto simp: and_then_eq_Inr dest!: replay_events_limit count_replay_events_limit)

lemma normalize_replay_limits:
  assumes "normalize_replay X s t replay c = Inr r"
  shows "ReplayMetadata_validate (rs_metadata r) \<and> rm_project_id (rs_metadata r) = ps_project_id s
    \<and> rs_recording r = pp_recording replay
    \<and> validate_replay_recording X (pp_recording replay) c
        = Inr (rm_segment_id (rs_metadata r), rs_decompressed_bytes r, rs_event_count r)"
  using assms unfolding normalize_replay_def
  by (auto simp: and_then_eq_Inr Let_def simp del: json_pointer.simps split: if_split_asm)

end
