(* ===== verification/Metric_Deltas.thy ===== *)
theory Metric_Deltas
  imports Ingest_Signals Writers "HOL-Library.Product_Lexorder"
begin

text \<open>
  Application metrics: series, aggregates and delta batches (\<^verbatim>\<open>crates/domain/src/metrics.rs\<close>), the conversion of
  metric containers (\<^verbatim>\<open>crates/application/src/ingest.rs\<close>) and the metric writer
  (\<^verbatim>\<open>crates/application/src/metric_writer.rs\<close>). Floating-point arithmetic is a parameter on 64-bit patterns.
\<close>

section \<open>Series and aggregates\<close>

datatype metric_kind = MK_Counter | MK_Gauge | MK_Distribution

fun MetricKind_as_str :: "metric_kind \<Rightarrow> string" where
  "MetricKind_as_str MK_Counter = ''counter''"
| "MetricKind_as_str MK_Gauge = ''gauge''"
| "MetricKind_as_str MK_Distribution = ''distribution''"

fun MetricKind_code :: "metric_kind \<Rightarrow> int" where
  "MetricKind_code MK_Counter = 1"
| "MetricKind_code MK_Gauge = 2"
| "MetricKind_code MK_Distribution = 3"

record metric_series =
  ms_project_id :: project_id
  ms_name :: string
  ms_kind :: metric_kind
  ms_unit :: string
  ms_tags :: "(string, string) btree_map"

text \<open>The bytes hashed for the identifier of a series.\<close>

definition series_preimage :: "metric_series \<Rightarrow> bytes" where
  "series_preimage s = as_bytes ''application-metric-series/v1'' @ be_bytes_signed 4 (ms_project_id s)
     @ as_bytes (ms_name s) @ [0] @ as_bytes (MetricKind_as_str (ms_kind s)) @ [0] @ as_bytes (ms_unit s)
     @ concat (map (\<lambda>(k, v). [0] @ as_bytes k @ [0] @ as_bytes v) (ms_tags s))"

definition MetricSeries_id :: "(bytes \<Rightarrow> bytes) \<Rightarrow> metric_series \<Rightarrow> bytes" where
  "MetricSeries_id blake3 s = take 16 (blake3 (series_preimage s))"

record float_ops =
  fl_add :: "f64 \<Rightarrow> f64 \<Rightarrow> f64"
  fl_min :: "f64 \<Rightarrow> f64 \<Rightarrow> f64"
  fl_max :: "f64 \<Rightarrow> f64 \<Rightarrow> f64"
  fl_is_zero :: "f64 \<Rightarrow> bool"
  fl_log2_floor :: "f64 \<Rightarrow> int"
  fl_millis :: "f64 \<Rightarrow> int option"

definition METRIC_SKETCH_BINS :: nat where "METRIC_SKETCH_BINS = 64"

definition sketch_bin :: "float_ops \<Rightarrow> f64 \<Rightarrow> nat" where
  "sketch_bin F v = (if fl_is_zero F v then 31 else nat (max (- 30) (min 31 (fl_log2_floor F v)) + 31))"

datatype metric_aggregate =
    MA_Counter f64 nat
  | MA_Gauge f64 f64 f64 f64 nat
  | MA_Distribution f64 f64 f64 nat "nat list"

definition MetricAggregate_from_measurement :: "float_ops \<Rightarrow> metric_kind \<Rightarrow> f64 \<Rightarrow> metric_aggregate" where
  "MetricAggregate_from_measurement F kind v = (case kind of
       MK_Counter \<Rightarrow> MA_Counter v 1
     | MK_Gauge \<Rightarrow> MA_Gauge v v v v 1
     | MK_Distribution \<Rightarrow> MA_Distribution v v v 1 ((replicate METRIC_SKETCH_BINS 0)[sketch_bin F v := 1]))"

text \<open>\<open>None\<close> is the answer \<^verbatim>\<open>false\<close>, which leaves the aggregate as it was.\<close>

fun MetricAggregate_merge :: "float_ops \<Rightarrow> metric_aggregate \<Rightarrow> metric_aggregate \<Rightarrow> metric_aggregate option" where
  "MetricAggregate_merge F (MA_Counter s n) (MA_Counter s' n') = Some (MA_Counter (fl_add F s s') (saturating_add_u64 n n'))"
| "MetricAggregate_merge F (MA_Gauge l lo hi s n) (MA_Gauge l' lo' hi' s' n') =
     Some (MA_Gauge l' (fl_min F lo lo') (fl_max F hi hi') (fl_add F s s') (saturating_add_u64 n n'))"
| "MetricAggregate_merge F (MA_Distribution lo hi s n bins) (MA_Distribution lo' hi' s' n' bins') =
     Some (MA_Distribution (fl_min F lo lo') (fl_max F hi hi') (fl_add F s s') (saturating_add_u64 n n')
       (map2 saturating_add_u32 bins bins'))"
| "MetricAggregate_merge F _ _ = None"

section \<open>Batches of deltas\<close>

record metric_delta =
  dl_series :: metric_series
  dl_bucket_start :: timestamp
  dl_bucket_width_seconds :: nat
  dl_received_at :: timestamp
  dl_trace_id :: "trace_id option"
  dl_aggregate :: metric_aggregate

definition MetricDelta_bucket_id :: "(bytes \<Rightarrow> bytes) \<Rightarrow> metric_delta \<Rightarrow> bytes" where
  "MetricDelta_bucket_id blake3 d = take 16 (blake3 (as_bytes ''application-metric-bucket/v1''
     @ MetricSeries_id blake3 (dl_series d) @ be_bytes_signed 8 (dl_bucket_start d)
     @ be_bytes 4 (dl_bucket_width_seconds d)))"

type_synonym delta_key = "bytes \<times> int"

record metric_delta_batch =
  db_deltas :: "(delta_key, metric_delta) btree_map"
  db_source_measurements :: nat
  db_discarded_measurements :: nat

definition MetricDeltaBatch_default :: metric_delta_batch where
  "MetricDeltaBatch_default = \<lparr>db_deltas = [], db_source_measurements = 0, db_discarded_measurements = 0\<rparr>"

definition delta_key :: "(bytes \<Rightarrow> bytes) \<Rightarrow> metric_delta \<Rightarrow> delta_key" where
  "delta_key blake3 d = (MetricSeries_id blake3 (dl_series d), dl_bucket_start d)"

definition push_delta ::
  "(bytes \<Rightarrow> bytes) \<Rightarrow> float_ops \<Rightarrow> metric_delta \<Rightarrow> (delta_key, metric_delta) btree_map \<Rightarrow> (delta_key, metric_delta) btree_map" where
  "push_delta blake3 F d m =
     (let key = delta_key blake3 d in
      case map_of m key of
        None \<Rightarrow> bt_insert key d m
      | Some current \<Rightarrow> (case MetricAggregate_merge F (dl_aggregate current) (dl_aggregate d) of
          None \<Rightarrow> m
        | Some a \<Rightarrow> bt_insert key (current\<lparr>dl_aggregate := a, dl_received_at := dl_received_at d,
            dl_trace_id := opt_or (dl_trace_id d) (dl_trace_id current)\<rparr>) m))"

definition MetricDeltaBatch_push ::
  "(bytes \<Rightarrow> bytes) \<Rightarrow> float_ops \<Rightarrow> metric_delta \<Rightarrow> metric_delta_batch \<Rightarrow> metric_delta_batch" where
  "MetricDeltaBatch_push blake3 F d b = b\<lparr>db_deltas := push_delta blake3 F d (db_deltas b)\<rparr>"

definition MetricDeltaBatch_merge ::
  "(bytes \<Rightarrow> bytes) \<Rightarrow> float_ops \<Rightarrow> metric_delta_batch \<Rightarrow> metric_delta_batch \<Rightarrow> metric_delta_batch" where
  "MetricDeltaBatch_merge blake3 F b newer =
     foldl (\<lambda>b d. MetricDeltaBatch_push blake3 F d b)
       (b\<lparr>db_discarded_measurements := saturating_add_u32 (db_discarded_measurements b) (db_discarded_measurements newer),
          db_source_measurements := saturating_add_u32 (db_source_measurements b) (db_source_measurements newer)\<rparr>)
       (map snd (db_deltas newer))"

section \<open>Metric containers\<close>

record metric_ingest_config =
  mi_bucket_width_seconds :: nat
  mi_max_tags :: nat
  mi_max_name_bytes :: nat
  mi_max_unit_bytes :: nat
  mi_max_tag_key_bytes :: nat
  mi_max_tag_value_bytes :: nat

definition MetricIngestConfig_default :: metric_ingest_config where
  "MetricIngestConfig_default = \<lparr>mi_bucket_width_seconds = 60, mi_max_tags = 16, mi_max_name_bytes = 200,
     mi_max_unit_bytes = 32, mi_max_tag_key_bytes = 64, mi_max_tag_value_bytes = 128\<rparr>"

definition bounded_metric_text :: "string \<Rightarrow> nat \<Rightarrow> bool \<Rightarrow> string option" where
  "bounded_metric_text v maximum allow_empty =
     (let v = str_trim v in
      if (\<not> allow_empty \<and> v = []) \<or> length v > maximum \<or> CHR 0x00 \<in> set v \<or> has_control v then None else Some v)"

definition metric_kind_parse :: "string \<Rightarrow> metric_kind option" where
  "metric_kind_parse s = (if s = ''counter'' then Some MK_Counter else if s = ''gauge'' then Some MK_Gauge
     else if s = ''distribution'' then Some MK_Distribution else None)"

definition skipped_attribute :: "string \<Rightarrow> bool" where
  "skipped_attribute k = (k = ''sentry.timestamp.sequence'' \<or> prefix ''user.'' k \<or> prefix ''sentry._internal.'' k)"

definition tag_key :: "string \<Rightarrow> string" where
  "tag_key k = map (\<lambda>c. if c \<in> {CHR ''.'', CHR ''$''} then CHR ''_'' else c) k"

definition tag_value :: "json_ops \<Rightarrow> nat \<Rightarrow> json \<Rightarrow> string option" where
  "tag_value J maximum raw = (case raw of
       J_String v \<Rightarrow> bounded_metric_text v maximum True
     | J_Bool b \<Rightarrow> Some (if b then ''true'' else ''false'')
     | J_Number n \<Rightarrow> bounded_metric_text (jo_number_to_string J n) maximum True
     | _ \<Rightarrow> None)"

fun collect_tags ::
  "json_ops \<Rightarrow> metric_ingest_config \<Rightarrow> (string \<times> json) list \<Rightarrow> (string, string) btree_map \<Rightarrow> (string, string) btree_map option" where
  "collect_tags J c [] tags = Some tags"
| "collect_tags J c ((k, typed) # rest) tags =
     (if skipped_attribute k then collect_tags J c rest tags
      else Option.bind (bounded_metric_text k (mi_max_tag_key_bytes c) False) (\<lambda>key.
        Option.bind (json_as_object typed) (\<lambda>m.
        Option.bind (map_of m ''value'') (\<lambda>raw.
        Option.bind (tag_value J (mi_max_tag_value_bytes c) raw) (\<lambda>tag.
        if map_of tags (tag_key key) \<noteq> None then None
        else let tags = bt_insert (tag_key key) tag tags in
          if length tags > mi_max_tags c then None else collect_tags J c rest tags)))))"

definition wrap_i64 :: "int \<Rightarrow> int" where
  "wrap_i64 x = (x + 2 ^ 63) mod 2 ^ 64 - 2 ^ 63"

text \<open>
  \<open>fl_millis\<close> rounds a time in seconds to milliseconds within the range of \<^verbatim>\<open>i64\<close>. The product of the
  bucket number and the width wraps, as release builds do.
\<close>

definition metric_bucket :: "nat \<Rightarrow> int \<Rightarrow> timestamp option" where
  "metric_bucket width_seconds ms =
     Option.bind (checked_i64 (int width_seconds * 1000)) (\<lambda>width.
       (case Timestamp_from_unix_millis (wrap_i64 (ms div width * width)) of Inl _ \<Rightarrow> None | Inr t \<Rightarrow> Some t))"

definition measurement_tags :: "json_ops \<Rightarrow> metric_ingest_config \<Rightarrow> json option \<Rightarrow> (string, string) btree_map option" where
  "measurement_tags J c a = (case a of
       None \<Rightarrow> Some []
     | Some a \<Rightarrow> Option.bind (json_as_object a) (\<lambda>attributes.
         if length attributes > min (mi_max_tags c * 4) u64_max then None else collect_tags J c attributes []))"

definition normalize_metric_measurement ::
  "'u signal_ops \<Rightarrow> float_ops \<Rightarrow> project_snapshot \<Rightarrow> timestamp \<Rightarrow> metric_ingest_config \<Rightarrow> json \<Rightarrow> metric_delta option" where
  "normalize_metric_measurement X F snapshot received_at c v =
     Option.bind (json_as_object v) (\<lambda>m.
     Option.bind (Option.bind (map_of m ''timestamp'') (json_as_f64 X)) (\<lambda>seconds.
     if \<not> f64_is_finite seconds then None else
     Option.bind (fl_millis F seconds) (\<lambda>ms.
     Option.bind (metric_bucket (mi_bucket_width_seconds c) ms) (\<lambda>bucket_start.
     Option.bind (Option.bind (map_of m ''name'') json_as_str) (\<lambda>name.
     Option.bind (bounded_metric_text name (mi_max_name_bytes c) False) (\<lambda>name.
     Option.bind (Option.bind (map_of m ''type'') json_as_str) (\<lambda>kind.
     Option.bind (metric_kind_parse kind) (\<lambda>kind.
     Option.bind (bounded_metric_text (unwrap_or (Option.bind (map_of m ''unit'') json_as_str) ''none'')
       (mi_max_unit_bytes c) True) (\<lambda>unit.
     Option.bind (Option.bind (map_of m ''value'') (json_as_f64 X)) (\<lambda>measurement.
     if \<not> f64_is_finite measurement then None else
     Option.bind (case Option.bind (map_of m ''trace_id'') json_as_str of
         None \<Rightarrow> Some None
       | Some t \<Rightarrow> if t = [] then Some None
           else (case TraceId_parse (io_hex_decode X) t of Inl _ \<Rightarrow> None | Inr i \<Rightarrow> Some (Some i))) (\<lambda>trace_id.
     Option.bind (measurement_tags (io_json X) c (map_of m ''attributes'')) (\<lambda>tags.
     Some \<lparr>dl_series = \<lparr>ms_project_id = ps_project_id snapshot, ms_name = name, ms_kind = kind, ms_unit = unit, ms_tags = tags\<rparr>,
       dl_bucket_start = bucket_start, dl_bucket_width_seconds = mi_bucket_width_seconds c,
       dl_received_at = received_at, dl_trace_id = trace_id,
       dl_aggregate = MetricAggregate_from_measurement F kind measurement\<rparr>))))))))))))"

text \<open>The loop over the measurements of a container.\<close>

definition fold_measurement ::
  "'u signal_ops \<Rightarrow> float_ops \<Rightarrow> project_snapshot \<Rightarrow> timestamp \<Rightarrow> metric_ingest_config \<Rightarrow> metric_delta_batch \<Rightarrow> json \<Rightarrow> metric_delta_batch" where
  "fold_measurement X F snapshot received_at c b v =
     (let b = b\<lparr>db_source_measurements := saturating_add_u32 (db_source_measurements b) 1\<rparr> in
      case normalize_metric_measurement X F snapshot received_at c v of
        Some d \<Rightarrow> MetricDeltaBatch_push (io_blake3 X) F d b
      | None \<Rightarrow> b\<lparr>db_discarded_measurements := saturating_add_u32 (db_discarded_measurements b) 1\<rparr>)"

text \<open>
  \<open>entries\<close> reads the fields of a JSON object in the order of the text, with repetitions; a field holds its
  elements when it is an array.
\<close>

definition metric_items :: "(bytes \<Rightarrow> (string \<times> json list option) list option) \<Rightarrow> bytes \<Rightarrow> json list option" where
  "metric_items entries raw = Option.bind (entries raw) (\<lambda>es. case filter (\<lambda>(k, _). k = ''items'') es of
       [(_, Some vs)] \<Rightarrow> Some vs
     | _ \<Rightarrow> None)"

definition fold_metric_container ::
  "(bytes \<Rightarrow> (string \<times> json list option) list option) \<Rightarrow> 'u signal_ops \<Rightarrow> float_ops \<Rightarrow> project_snapshot \<Rightarrow> timestamp
    \<Rightarrow> bytes \<Rightarrow> metric_ingest_config \<Rightarrow> ingest_error + metric_delta_batch" where
  "fold_metric_container entries X F snapshot received_at raw c =
     (if mi_bucket_width_seconds c = 0 \<or> mi_max_tags c = 0 \<or> mi_max_name_bytes c = 0 \<or> mi_max_unit_bytes c = 0
         \<or> mi_max_tag_key_bytes c = 0 \<or> mi_max_tag_value_bytes c = 0
      then Inl (IngestError_invalid ''invalid_metric_configuration'')
      else ok_or (IngestError_invalid ''invalid_metric_container'')
        (map_option (foldl (fold_measurement X F snapshot received_at c) MetricDeltaBatch_default) (metric_items entries raw)))"

section \<open>Series identities\<close>

definition nul :: char where "nul = CHR 0x00"

definition series_parts :: "metric_series \<Rightarrow> string list" where
  "series_parts s = ms_name s # MetricKind_as_str (ms_kind s) # ms_unit s # concat (map (\<lambda>(k, v). [k, v]) (ms_tags s))"

definition series_ok :: "metric_series \<Rightarrow> bool" where
  "series_ok s = (project_id_ok (ms_project_id s) \<and> (\<forall>p\<in>set (series_parts s). nul \<notin> set p))"

lemma join_nul_tags:
  "join [nul] (ps @ concat (map (\<lambda>(k, v). [k, v]) tags)) =
     join [nul] ps @ concat (map (\<lambda>(k, v). [nul] @ k @ [nul] @ v) tags)" if "ps \<noteq> []"
  using that
proof (induction tags arbitrary: ps)
  case (Cons kv tags)
  obtain k v where kv: "kv = (k, v)" by fastforce
  have snoc: "join [nul] (qs @ [q]) = join [nul] qs @ [nul] @ q" if "qs \<noteq> []" for qs q
    using that by (induction qs rule: induct_list012) simp_all
  have two: "join [nul] (ps @ [k, v]) = join [nul] ps @ [nul] @ k @ [nul] @ v"
    using snoc[of ps k] snoc[of "ps @ [k]" v] Cons.prems by simp
  show ?case using Cons.IH[of "ps @ [k, v]"] two by (simp add: kv)
qed simp

lemma as_bytes_nul: "as_bytes (nul # s) = 0 # as_bytes s"
  by (simp add: as_bytes_def nul_def)

lemma as_bytes_tags:
  "as_bytes (concat (map (\<lambda>(k, v). nul # k @ nul # v) tags))
    = concat (map (\<lambda>(k, v). 0 # as_bytes k @ 0 # as_bytes v) tags)"
proof (induction tags)
  case (Cons kv tags)
  then show ?case by (cases kv) (simp add: as_bytes_nul)
qed (simp add: as_bytes_def)

lemma series_preimage_eq:
  "series_preimage s = as_bytes ''application-metric-series/v1'' @ be_bytes_signed 4 (ms_project_id s)
     @ as_bytes (join [nul] (series_parts s))"
proof -
  have "join [nul] (series_parts s) = join [nul] [ms_name s, MetricKind_as_str (ms_kind s), ms_unit s]
      @ concat (map (\<lambda>(k, v). [nul] @ k @ [nul] @ v) (ms_tags s))"
    using join_nul_tags[of "[ms_name s, MetricKind_as_str (ms_kind s), ms_unit s]" "ms_tags s"] by (simp add: series_parts_def)
  then show ?thesis by (simp add: series_preimage_def as_bytes_nul as_bytes_tags)
qed

lemma MetricKind_as_str_inj: "MetricKind_as_str a = MetricKind_as_str b \<longleftrightarrow> a = b"
  by (cases a; cases b) simp_all

lemma pairs_inj: "concat (map (\<lambda>(k, v). [k, v]) xs) = concat (map (\<lambda>(k, v). [k, v]) ys) \<longleftrightarrow> xs = ys"
proof (induction xs arbitrary: ys)
  case Nil
  then show ?case by (cases ys) auto
next
  case (Cons x xs)
  then show ?case by (cases ys) (auto split: prod.splits)
qed

lemma series_preimage_inj:
  assumes "series_ok s" "series_ok t" "series_preimage s = series_preimage t"
  shows "s = t"
proof -
  have parts: "be_bytes_signed 4 (ms_project_id s) = be_bytes_signed 4 (ms_project_id t)"
    "join [nul] (series_parts s) = join [nul] (series_parts t)"
    using assms(3) by (auto simp: series_preimage_eq append_eq_append_conv length_be_bytes_signed)
  have "ms_project_id s = ms_project_id t"
    using parts(1) assms(1,2) project_bytes_inj by (auto simp: series_ok_def)
  moreover have "split_on nul (join [nul] (series_parts u)) = series_parts u" if "series_ok u" for u
    using that by (intro split_on_join) (auto simp: series_ok_def series_parts_def)
  with parts(2) assms(1,2) have "series_parts s = series_parts t" by metis
  then have "ms_name s = ms_name t" "ms_kind s = ms_kind t" "ms_unit s = ms_unit t" "ms_tags s = ms_tags t"
    by (simp_all add: series_parts_def MetricKind_as_str_inj pairs_inj)
  ultimately show ?thesis by simp
qed

lemma bounded_metric_text_ok: "bounded_metric_text v n e = Some w \<Longrightarrow> nul \<notin> set w \<and> length w \<le> n"
  by (auto simp: bounded_metric_text_def Let_def nul_def split: if_splits)

lemma bt_insert_subset: "set (bt_insert k v m) \<subseteq> insert (k, v) (set m)"
  by (induction k v m rule: bt_insert.induct) auto

definition tags_ok :: "(string, string) btree_map \<Rightarrow> bool" where
  "tags_ok tags = (\<forall>(k, v)\<in>set tags. nul \<notin> set k \<and> nul \<notin> set v)"

lemma tags_ok_Nil: "tags_ok []"
  by (simp add: tags_ok_def)

lemma tags_ok_insert: "tags_ok tags \<Longrightarrow> nul \<notin> set k \<Longrightarrow> nul \<notin> set v \<Longrightarrow> tags_ok (bt_insert k v tags)"
  using bt_insert_subset[of k v tags] by (fastforce simp: tags_ok_def)

lemma tag_value_ok: "tag_value J n raw = Some v \<Longrightarrow> nul \<notin> set v"
  by (cases raw) (auto simp: tag_value_def nul_def dest!: bounded_metric_text_ok split: if_splits)

lemma tag_key_ok: "nul \<notin> set k \<Longrightarrow> nul \<notin> set (tag_key k)"
  by (auto simp: tag_key_def nul_def)

lemma collect_tags_ok:
  "collect_tags J c m tags = Some tags' \<Longrightarrow> tags_ok tags \<Longrightarrow> length tags \<le> mi_max_tags c \<Longrightarrow>
     tags_ok tags' \<and> length tags' \<le> mi_max_tags c"
proof (induction J c m tags rule: collect_tags.induct)
  case (2 J c k typed rest tags)
  show ?case
  proof (cases "skipped_attribute k")
    case True
    then show ?thesis using 2 by simp
  next
    case False
    then obtain key m raw tag where o: "bounded_metric_text k (mi_max_tag_key_bytes c) False = Some key"
      "json_as_object typed = Some m" "map_of m ''value'' = Some raw"
      "tag_value J (mi_max_tag_value_bytes c) raw = Some tag" "map_of tags (tag_key key) = None"
      "length (bt_insert (tag_key key) tag tags) \<le> mi_max_tags c"
      "collect_tags J c rest (bt_insert (tag_key key) tag tags) = Some tags'"
      using "2.prems"(1) by (auto simp: bind_eq_Some_conv Let_def split: if_splits)
    have "tags_ok (bt_insert (tag_key key) tag tags)"
      using "2.prems"(2) tag_key_ok bounded_metric_text_ok[OF o(1)] tag_value_ok[OF o(4)] by (intro tags_ok_insert) auto
    then show ?thesis using "2.IH"(2)[OF False o(1-4) _ refl _ o(7)] o(5,6) by simp
  qed
qed simp

lemma wrap_i64_small: "- (2 ^ 63) \<le> x \<Longrightarrow> x < 2 ^ 63 \<Longrightarrow> wrap_i64 x = x"
  by (simp add: wrap_i64_def)

text \<open>The bucket of an accepted time is the multiple of the width at or before it, even where the product wraps.\<close>

lemma metric_bucket_floor:
  assumes "metric_bucket w t = Some b" "0 < w" "- (2 ^ 63) \<le> t" "t < 2 ^ 63" "w \<le> u32_max"
  shows "b \<le> t \<and> t < b + int w * 1000 \<and> b mod (int w * 1000) = 0"
proof -
  define width where "width = int w * 1000"
  have width: "0 < width" "width \<le> 4294967295000" using assms(2,5) by (simp_all add: width_def)
  define f where "f = t div width * width"
  have "t = f + t mod width" using div_mult_mod_eq[of t width] by (simp only: f_def)
  then have f: "f \<le> t" "t < f + width" "f mod width = 0"
    using pos_mod_bound[OF width(1), of t] pos_mod_sign[OF width(1), of t] by (linarith, linarith, simp add: f_def)
  have b: "timestamp_ok (wrap_i64 f)" "b = wrap_i64 f"
    using assms(1) width unfolding metric_bucket_def width_def[symmetric] checked_i64_def
    by (auto simp: f_def[symmetric] Timestamp_from_unix_millis_def timestamp_ok_def split: sum.splits if_splits)
  have "- (2 ^ 63) \<le> f"
  proof (rule ccontr)
    assume low: "\<not> - (2 ^ 63) \<le> f"
    have "wrap_i64 f = f + 2 ^ 64"
    proof -
      have "(f + 2 ^ 63) mod 2 ^ 64 = (f + 2 ^ 63 + 2 ^ 64) mod 2 ^ 64" by (simp only: mod_add_self2)
      also have "\<dots> = f + 2 ^ 63 + 2 ^ 64"
        using low f(2) assms(3) width(2) by (intro mod_pos_pos_trivial) simp_all
      finally show ?thesis by (simp add: wrap_i64_def)
    qed
    then show False using b(1) f(2) assms(3) width(2) by (simp add: timestamp_ok_def MAX_TIMESTAMP_MILLIS_def)
  qed
  then have "wrap_i64 f = f" using f(1) assms(4) by (intro wrap_i64_small) simp_all
  then show ?thesis using f b(2) by (simp add: width_def)
qed

text \<open>What an accepted measurement gives.\<close>

definition measurement_shape ::
  "float_ops \<Rightarrow> project_snapshot \<Rightarrow> timestamp \<Rightarrow> metric_ingest_config \<Rightarrow> metric_delta \<Rightarrow> bool" where
  "measurement_shape F s t c d = (nul \<notin> set (ms_name (dl_series d)) \<and> nul \<notin> set (ms_unit (dl_series d))
     \<and> length (ms_name (dl_series d)) \<le> mi_max_name_bytes c \<and> length (ms_unit (dl_series d)) \<le> mi_max_unit_bytes c
     \<and> tags_ok (ms_tags (dl_series d)) \<and> length (ms_tags (dl_series d)) \<le> mi_max_tags c
     \<and> ms_project_id (dl_series d) = ps_project_id s \<and> dl_received_at d = t
     \<and> dl_bucket_width_seconds d = mi_bucket_width_seconds c
     \<and> (\<exists>ms x. metric_bucket (mi_bucket_width_seconds c) ms = Some (dl_bucket_start d) \<and> f64_is_finite x
          \<and> dl_aggregate d = MetricAggregate_from_measurement F (ms_kind (dl_series d)) x))"

lemma measurement_tags_ok:
  "measurement_tags J c a = Some tags \<Longrightarrow> tags_ok tags \<and> length tags \<le> mi_max_tags c"
  using collect_tags_ok[of J c _ "[]" tags]
  by (auto simp: measurement_tags_def bind_eq_Some_conv tags_ok_Nil split: option.splits if_splits)

lemma measurement_shapeI:
  assumes "normalize_metric_measurement X F s t c v = Some d"
  shows "measurement_shape F s t c d"
  using assms
  unfolding normalize_metric_measurement_def measurement_shape_def
  by (auto simp: bind_eq_Some_conv dest!: bounded_metric_text_ok measurement_tags_ok simp del: split_paired_Ex split: if_split_asm)

lemma measurement_series_ok:
  assumes "normalize_metric_measurement X F s t c v = Some d" "project_id_ok (ps_project_id s)"
  shows "series_ok (dl_series d)"
  using measurement_shapeI[OF assms(1)] assms(2)
  by (cases "ms_kind (dl_series d)") (auto simp: measurement_shape_def series_ok_def series_parts_def tags_ok_def nul_def)

section \<open>What a batch holds\<close>

text \<open>
  The reference: the deltas of one key in the order they came, the newer merged into the older.
  \<open>agg_size\<close> is the number of measurements behind an aggregate, \<open>agg_bin\<close> one counter of its sketch.
\<close>

definition absorb :: "float_ops \<Rightarrow> metric_delta \<Rightarrow> metric_delta \<Rightarrow> metric_delta" where
  "absorb F current d = (case MetricAggregate_merge F (dl_aggregate current) (dl_aggregate d) of
       None \<Rightarrow> current
     | Some a \<Rightarrow> current\<lparr>dl_aggregate := a, dl_received_at := dl_received_at d,
         dl_trace_id := opt_or (dl_trace_id d) (dl_trace_id current)\<rparr>)"

fun absorb_all :: "float_ops \<Rightarrow> metric_delta list \<Rightarrow> metric_delta option" where
  "absorb_all F [] = None"
| "absorb_all F (d # ds) = Some (foldl (absorb F) d ds)"

fun agg_size :: "metric_aggregate \<Rightarrow> nat" where
  "agg_size (MA_Counter s n) = n"
| "agg_size (MA_Gauge l lo hi s n) = n"
| "agg_size (MA_Distribution lo hi s n bins) = n"

fun agg_bin :: "metric_aggregate \<Rightarrow> nat \<Rightarrow> nat" where
  "agg_bin (MA_Distribution lo hi s n bins) i = bins ! i"
| "agg_bin _ i = 0"

fun agg_kind :: "metric_aggregate \<Rightarrow> metric_kind" where
  "agg_kind (MA_Counter s n) = MK_Counter"
| "agg_kind (MA_Gauge l lo hi s n) = MK_Gauge"
| "agg_kind (MA_Distribution lo hi s n bins) = MK_Distribution"

fun agg_ok :: "metric_aggregate \<Rightarrow> bool" where
  "agg_ok (MA_Distribution lo hi s n bins) = (length bins = METRIC_SKETCH_BINS \<and> n \<le> u64_max \<and> (\<forall>x\<in>set bins. x \<le> u32_max))"
| "agg_ok a = (agg_size a \<le> u64_max)"

lemma sketch_bin_bound: "sketch_bin F v < METRIC_SKETCH_BINS"
  by (auto simp: sketch_bin_def METRIC_SKETCH_BINS_def min_def max_def)

lemma from_measurement_ok:
  "agg_ok (MetricAggregate_from_measurement F k v)" "agg_kind (MetricAggregate_from_measurement F k v) = k"
  "agg_size (MetricAggregate_from_measurement F k v) = 1"
  by (cases k; auto simp: MetricAggregate_from_measurement_def dest!: set_update_subset_insert[THEN subsetD])+

lemma merge_same_kind:
  assumes "agg_kind a = agg_kind b" "agg_ok a" "agg_ok b"
  obtains c where "MetricAggregate_merge F a b = Some c" "agg_kind c = agg_kind a" "agg_ok c"
    "agg_size c = min (agg_size a + agg_size b) u64_max"
    "\<forall>i<METRIC_SKETCH_BINS. agg_bin c i = min (agg_bin a i + agg_bin b i) u32_max"
proof -
  obtain c where c: "MetricAggregate_merge F a b = Some c"
    using assms(1) by (cases a; cases b) simp_all
  have "agg_kind c = agg_kind a \<and> agg_ok c \<and> agg_size c = min (agg_size a + agg_size b) u64_max
    \<and> (\<forall>i<METRIC_SKETCH_BINS. agg_bin c i = min (agg_bin a i + agg_bin b i) u32_max)"
    using assms c by (cases a; cases b) (auto simp: saturating_add_u64_def saturating_add_u32_def set_zip)
  with c that show thesis by blast
qed

lemma map_of_push_delta:
  "map_of (push_delta blake3 F d m) k =
     (if k = delta_key blake3 d then Some (case map_of m k of None \<Rightarrow> d | Some e \<Rightarrow> absorb F e d) else map_of m k)"
  by (auto simp: push_delta_def absorb_def Let_def split: option.splits)

lemma absorb_all_snoc:
  "absorb_all F (ds @ [d]) = Some (case absorb_all F ds of None \<Rightarrow> d | Some e \<Rightarrow> absorb F e d)"
  by (cases ds) simp_all

lemma pushed_deltas:
  "map_of (foldl (\<lambda>m d. push_delta blake3 F d m) [] ds) k = absorb_all F (filter (\<lambda>d. delta_key blake3 d = k) ds)"
  by (induction ds rule: rev_induct) (auto simp: map_of_push_delta absorb_all_snoc split: option.splits)

lemma push_delta_ok: "bt_ok m \<Longrightarrow> bt_ok (push_delta blake3 F d m)"
  by (auto simp: push_delta_def Let_def bt_ok_insert split: option.splits)

definition delta_ok :: "metric_delta \<Rightarrow> bool" where
  "delta_ok d = (agg_ok (dl_aggregate d) \<and> agg_kind (dl_aggregate d) = ms_kind (dl_series d))"

lemma absorb_same_series:
  assumes "delta_ok e" "delta_ok d" "dl_series d = dl_series e"
  shows "delta_ok (absorb F e d) \<and> dl_series (absorb F e d) = dl_series e \<and> dl_bucket_start (absorb F e d) = dl_bucket_start e
    \<and> agg_size (dl_aggregate (absorb F e d)) = min (agg_size (dl_aggregate e) + agg_size (dl_aggregate d)) u64_max
    \<and> (\<forall>i<METRIC_SKETCH_BINS. agg_bin (dl_aggregate (absorb F e d)) i
         = min (agg_bin (dl_aggregate e) i + agg_bin (dl_aggregate d) i) u32_max)"
proof -
  have "agg_kind (dl_aggregate e) = agg_kind (dl_aggregate d)" "agg_ok (dl_aggregate e)" "agg_ok (dl_aggregate d)"
    using assms by (simp_all add: delta_ok_def)
  then obtain c where "MetricAggregate_merge F (dl_aggregate e) (dl_aggregate d) = Some c"
    "agg_kind c = agg_kind (dl_aggregate e)" "agg_ok c"
    "agg_size c = min (agg_size (dl_aggregate e) + agg_size (dl_aggregate d)) u64_max"
    "\<forall>i<METRIC_SKETCH_BINS. agg_bin c i = min (agg_bin (dl_aggregate e) i + agg_bin (dl_aggregate d) i) u32_max"
    by (rule merge_same_kind[where F = F])
  then show ?thesis using assms(1) by (simp add: absorb_def delta_ok_def)
qed

text \<open>\<open>e\<close> stands for the deltas \<open>ds\<close> of one series: every measurement behind them is counted, up to saturation.\<close>

definition summarises :: "metric_delta list \<Rightarrow> metric_delta \<Rightarrow> bool" where
  "summarises ds e = (delta_ok e \<and> dl_series e = dl_series (hd ds) \<and> dl_bucket_start e = dl_bucket_start (hd ds)
     \<and> agg_size (dl_aggregate e) = min (sum_list (map (\<lambda>d. agg_size (dl_aggregate d)) ds)) u64_max
     \<and> (\<forall>i<METRIC_SKETCH_BINS. agg_bin (dl_aggregate e) i = min (sum_list (map (\<lambda>d. agg_bin (dl_aggregate d) i) ds)) u32_max))"

lemma agg_bin_bound: "agg_ok a \<Longrightarrow> i < METRIC_SKETCH_BINS \<Longrightarrow> agg_bin a i \<le> u32_max"
  by (cases a) auto

lemma agg_size_bound: "agg_ok a \<Longrightarrow> agg_size a \<le> u64_max"
  by (cases a) auto

lemma summarises_single: "delta_ok d \<Longrightarrow> summarises [d] d"
  using agg_bin_bound agg_size_bound by (simp add: summarises_def delta_ok_def)

lemma saturate_twice: "min (min a m + b) m = min (a + b) (m :: nat)"
  by simp

lemma absorb_all_summarises:
  "ds \<noteq> [] \<Longrightarrow> list_all delta_ok ds \<Longrightarrow> list_all (\<lambda>d. dl_series d = s) ds \<Longrightarrow>
   \<exists>e. absorb_all F ds = Some e \<and> summarises ds e"
proof (induction ds rule: rev_induct)
  case (snoc d ds)
  show ?case
  proof (cases "ds = []")
    case False
    with snoc obtain e where e: "absorb_all F ds = Some e" "summarises ds e" by auto
    have "dl_series (hd ds) = s" using snoc.prems(3) False by (cases ds) simp_all
    then have "delta_ok e" "delta_ok d" "dl_series d = dl_series e"
      using e(2) snoc.prems(2,3) by (simp_all add: summarises_def)
    from absorb_same_series[OF this, of F] e(2) False have "summarises (ds @ [d]) (absorb F e d)"
      unfolding summarises_def by (simp add: saturate_twice)
    then show ?thesis by (simp add: absorb_all_snoc e(1))
  qed (use snoc.prems summarises_single in simp)
qed simp

text \<open>
  A batch stands for the list of the deltas pushed into it (the abstraction): every key of the list has one
  entry, which summarises the deltas of that key. \<open>distinct_ids\<close> says that the hash gives distinct
  identifiers to the series at hand.
\<close>

definition of_key :: "(bytes \<Rightarrow> bytes) \<Rightarrow> delta_key \<Rightarrow> metric_delta list \<Rightarrow> metric_delta list" where
  "of_key blake3 k ds = filter (\<lambda>d. delta_key blake3 d = k) ds"

definition batch_holds :: "(bytes \<Rightarrow> bytes) \<Rightarrow> metric_delta list \<Rightarrow> metric_delta_batch \<Rightarrow> bool" where
  "batch_holds blake3 ds b = (bt_ok (db_deltas b) \<and>
     (\<forall>k. case map_of (db_deltas b) k of
        None \<Rightarrow> of_key blake3 k ds = []
      | Some e \<Rightarrow> of_key blake3 k ds \<noteq> [] \<and> summarises (of_key blake3 k ds) e))"

definition distinct_ids :: "(bytes \<Rightarrow> bytes) \<Rightarrow> metric_delta list \<Rightarrow> bool" where
  "distinct_ids blake3 ds = (\<forall>d\<in>set ds. \<forall>d'\<in>set ds.
     MetricSeries_id blake3 (dl_series d) = MetricSeries_id blake3 (dl_series d') \<longrightarrow> dl_series d = dl_series d')"

lemma batch_holdsD:
  assumes "batch_holds blake3 ds b"
  shows "bt_ok (db_deltas b)"
    and "map_of (db_deltas b) k = None \<Longrightarrow> of_key blake3 k ds = []"
    and "map_of (db_deltas b) k = Some e \<Longrightarrow> of_key blake3 k ds \<noteq> [] \<and> summarises (of_key blake3 k ds) e"
proof -
  have k: "case map_of (db_deltas b) k of None \<Rightarrow> of_key blake3 k ds = []
      | Some e \<Rightarrow> of_key blake3 k ds \<noteq> [] \<and> summarises (of_key blake3 k ds) e"
    using assms unfolding batch_holds_def by blast
  show "bt_ok (db_deltas b)" using assms by (simp add: batch_holds_def)
  show "map_of (db_deltas b) k = None \<Longrightarrow> of_key blake3 k ds = []" using k by simp
  show "map_of (db_deltas b) k = Some e \<Longrightarrow> of_key blake3 k ds \<noteq> [] \<and> summarises (of_key blake3 k ds) e" using k by simp
qed

lemma batch_holds_empty: "batch_holds blake3 [] MetricDeltaBatch_default"
  by (simp add: batch_holds_def MetricDeltaBatch_default_def of_key_def bt_ok_def)

lemma saturate_both: "min (min a m + min b m) m = min (a + b) (m :: nat)"
  by simp

lemma summarises_join:
  assumes "summarises xs e" "summarises ys e'" "xs \<noteq> []" "dl_series e' = dl_series e"
  shows "summarises (xs @ ys) (absorb F e e')"
proof -
  have "delta_ok e" "delta_ok e'" using assms(1,2) by (simp_all add: summarises_def)
  from absorb_same_series[OF this assms(4), of F] assms(1-3) show ?thesis
    unfolding summarises_def by (simp add: saturate_both)
qed

lemma summarises_key:
  assumes "summarises ds e" "ds \<noteq> []" "ds = of_key blake3 k us"
  shows "delta_key blake3 e = k" "\<exists>d\<in>set us. dl_series e = dl_series d"
proof -
  have "hd ds \<in> set ds" using assms(2) by simp
  then have h: "delta_key blake3 (hd ds) = k" "hd ds \<in> set us" using assms(3) by (auto simp: of_key_def)
  show "delta_key blake3 e = k" using assms(1) h(1) by (simp add: summarises_def delta_key_def)
  show "\<exists>d\<in>set us. dl_series e = dl_series d" using assms(1) h(2) by (auto simp: summarises_def)
qed

lemma batch_holds_push:
  assumes holds: "batch_holds blake3 ds b" and d: "summarises ys d" "ys \<noteq> []"
    and key: "\<forall>y\<in>set ys. delta_key blake3 y = delta_key blake3 d" and ids: "distinct_ids blake3 (ds @ ys)"
  shows "batch_holds blake3 (ds @ ys) (MetricDeltaBatch_push blake3 F d b)"
proof -
  have ys: "of_key blake3 k ys = (if k = delta_key blake3 d then ys else [])" for k
    using key by (auto simp: of_key_def filter_id_conv filter_empty_conv)
  have "case map_of (push_delta blake3 F d (db_deltas b)) k of
      None \<Rightarrow> of_key blake3 k (ds @ ys) = []
    | Some e \<Rightarrow> of_key blake3 k (ds @ ys) \<noteq> [] \<and> summarises (of_key blake3 k (ds @ ys)) e" for k
  proof (cases "k = delta_key blake3 d")
    case True
    have app: "of_key blake3 k (ds @ ys) = of_key blake3 k ds @ ys" using ys[of k] True by (simp add: of_key_def)
    show ?thesis
    proof (cases "map_of (db_deltas b) k")
      case None
      then show ?thesis using batch_holdsD(2)[OF holds None] d True app by (simp add: map_of_push_delta)
    next
      case (Some e)
      note h = batch_holdsD(3)[OF holds Some]
      obtain u where u: "u \<in> set ds" "dl_series e = dl_series u" and ke: "delta_key blake3 e = k"
        using summarises_key[OF _ _ refl, of blake3 k ds e] h by blast
      have "hd ys \<in> set ys" "dl_series d = dl_series (hd ys)" using d by (simp_all add: summarises_def)
      then have "dl_series d = dl_series e"
        using u ids ke True by (auto simp: distinct_ids_def delta_key_def)
      with h d True Some app summarises_join show ?thesis by (simp add: map_of_push_delta)
    qed
  next
    case False
    then have "of_key blake3 k (ds @ ys) = of_key blake3 k ds" using ys[of k] by (simp add: of_key_def)
    with False show ?thesis
      using batch_holdsD(2,3)[OF holds, of k] by (auto simp: map_of_push_delta split: option.splits)
  qed
  then show ?thesis
    using batch_holdsD(1)[OF holds] push_delta_ok by (simp add: batch_holds_def MetricDeltaBatch_push_def)
qed

lemma batch_holds_cong:
  assumes "\<And>k. of_key blake3 k ds = of_key blake3 k ds'"
  shows "batch_holds blake3 ds b = batch_holds blake3 ds' b"
  unfolding batch_holds_def assms ..

lemma distinct_ids_mono: "distinct_ids blake3 ds \<Longrightarrow> set ds' \<subseteq> set ds \<Longrightarrow> distinct_ids blake3 ds'"
  by (auto simp: distinct_ids_def)



lemma of_key_idem: "of_key blake3 k (of_key blake3 k' ds) = (if k = k' then of_key blake3 k ds else [])"
  by (auto simp: of_key_def filter_empty_conv intro!: filter_cong)

lemma of_key_append: "of_key blake3 k (xs @ ys) = of_key blake3 k xs @ of_key blake3 k ys"
  by (simp add: of_key_def)

lemma of_key_entries:
  "distinct (map fst m) \<Longrightarrow>
   of_key blake3 k (concat (map (\<lambda>(k', e). of_key blake3 k' ds) m)) = (if k \<in> fst ` set m then of_key blake3 k ds else [])"
proof (induction m)
  case Nil
  then show ?case by (simp add: of_key_def)
next
  case (Cons x m)
  obtain k' e where x: "x = (k', e)" by fastforce
  show ?case using Cons by (cases "k = k'") (auto simp: x of_key_append of_key_idem)
qed

lemma batch_holds_entries:
  assumes "batch_holds blake3 ds b" "distinct_ids blake3 (ds @ ds')"
    "\<forall>(k, e)\<in>set m. of_key blake3 k ds' \<noteq> [] \<and> summarises (of_key blake3 k ds') e"
  shows "batch_holds blake3 (ds @ concat (map (\<lambda>(k, e). of_key blake3 k ds') m))
    (foldl (\<lambda>b d. MetricDeltaBatch_push blake3 F d b) b (map snd m))"
  using assms(3)
proof (induction m rule: rev_induct)
  case Nil
  then show ?case using assms(1) by simp
next
  case (snoc x m)
  obtain k e where x: "x = (k, e)" by fastforce
  let ?ys = "of_key blake3 k ds'" and ?xs = "ds @ concat (map (\<lambda>(k, e). of_key blake3 k ds') m)"
  let ?b = "foldl (\<lambda>b d. MetricDeltaBatch_push blake3 F d b) b (map snd m)"
  have e: "?ys \<noteq> []" "summarises ?ys e" using snoc.prems by (simp_all add: x)
  have "batch_holds blake3 (?xs @ ?ys) (MetricDeltaBatch_push blake3 F e ?b)"
  proof (rule batch_holds_push)
    show "batch_holds blake3 ?xs ?b" using snoc by simp
    show "\<forall>y\<in>set ?ys. delta_key blake3 y = delta_key blake3 e"
      using summarises_key(1)[OF e(2,1) refl] by (simp add: of_key_def)
    show "distinct_ids blake3 (?xs @ ?ys)"
      by (rule distinct_ids_mono[OF assms(2)]) (auto simp: of_key_def)
  qed (use e in simp_all)
  then show ?case by (simp add: x)
qed

lemma batch_holds_merge:
  assumes "batch_holds blake3 ds b" "batch_holds blake3 ds' b'" "distinct_ids blake3 (ds @ ds')"
  shows "batch_holds blake3 (ds @ ds') (MetricDeltaBatch_merge blake3 F b b')"
proof -
  let ?m = "db_deltas b'"
  have keys: "distinct (map fst ?m)" by (rule bt_ok_distinct[OF batch_holdsD(1)[OF assms(2)]])
  have e: "\<forall>(k, e)\<in>set ?m. of_key blake3 k ds' \<noteq> [] \<and> summarises (of_key blake3 k ds') e"
    using batch_holdsD(3)[OF assms(2)] keys by (auto simp del: split_paired_All)
  have "of_key blake3 k ds' = []" if "k \<notin> fst ` set ?m" for k
    using batch_holdsD(2)[OF assms(2)] that by (simp add: map_of_eq_None_iff)
  then have "of_key blake3 k (concat (map (\<lambda>(k, e). of_key blake3 k ds') ?m)) = of_key blake3 k ds'" for k
    using of_key_entries[OF keys, of blake3 k ds'] by auto
  then have cong: "of_key blake3 k (ds @ concat (map (\<lambda>(k, e). of_key blake3 k ds') ?m)) = of_key blake3 k (ds @ ds')" for k
    by (simp add: of_key_append)
  have same: "batch_holds blake3 ds (b\<lparr>db_discarded_measurements := x, db_source_measurements := y\<rparr>)" for x y
    using assms(1) by (simp add: batch_holds_def)
  from batch_holds_entries[OF same assms(3) e, of F] show ?thesis
    unfolding batch_holds_cong[OF cong] MetricDeltaBatch_merge_def .
qed

definition accepted_measurements ::
  "'u signal_ops \<Rightarrow> float_ops \<Rightarrow> project_snapshot \<Rightarrow> timestamp \<Rightarrow> metric_ingest_config \<Rightarrow> json list \<Rightarrow> metric_delta list" where
  "accepted_measurements X F s t c vs = List.map_filter (normalize_metric_measurement X F s t c) vs"

lemma measurement_delta:
  assumes "normalize_metric_measurement X F s t c v = Some d"
  shows "delta_ok d" "agg_size (dl_aggregate d) = 1"
  using measurement_shapeI[OF assms] by (auto simp: measurement_shape_def delta_ok_def from_measurement_ok)

lemma accepted_snoc:
  "accepted_measurements X F s t c (vs @ [v]) = accepted_measurements X F s t c vs
     @ (case normalize_metric_measurement X F s t c v of None \<Rightarrow> [] | Some d \<Rightarrow> [d])"
  by (simp add: accepted_measurements_def List.map_filter_def split: option.splits)

lemma accepted_length: "length (accepted_measurements X F s t c vs) \<le> length vs"
  by (simp add: accepted_measurements_def List.map_filter_def)

lemma batch_holds_deltas: "db_deltas b = db_deltas b' \<Longrightarrow> batch_holds blake3 ds b = batch_holds blake3 ds b'"
  by (simp add: batch_holds_def)

lemma fold_measurement_None:
  assumes "normalize_metric_measurement X F s t c v = None"
  shows "db_deltas (fold_measurement X F s t c b v) = db_deltas b"
    "db_source_measurements (fold_measurement X F s t c b v) = min (db_source_measurements b + 1) u32_max"
    "db_discarded_measurements (fold_measurement X F s t c b v) = min (db_discarded_measurements b + 1) u32_max"
  using assms by (simp_all add: fold_measurement_def Let_def saturating_add_u32_def)

lemma fold_measurement_Some:
  assumes "normalize_metric_measurement X F s t c v = Some d"
  shows "db_deltas (fold_measurement X F s t c b v) = db_deltas (MetricDeltaBatch_push (io_blake3 X) F d b)"
    "db_source_measurements (fold_measurement X F s t c b v) = min (db_source_measurements b + 1) u32_max"
    "db_discarded_measurements (fold_measurement X F s t c b v) = db_discarded_measurements b"
  using assms by (simp_all add: fold_measurement_def Let_def saturating_add_u32_def MetricDeltaBatch_push_def)

lemma fold_measurement_holds:
  assumes "distinct_ids (io_blake3 X) (accepted_measurements X F s t c vs)"
  defines "ds \<equiv> accepted_measurements X F s t c vs"
    and "b \<equiv> foldl (fold_measurement X F s t c) MetricDeltaBatch_default vs"
  shows "batch_holds (io_blake3 X) ds b \<and> db_source_measurements b = min (length vs) u32_max
    \<and> db_discarded_measurements b = min (length vs - length ds) u32_max"
  using assms(1) unfolding ds_def b_def
proof (induction vs rule: rev_induct)
  case Nil
  have "batch_holds (io_blake3 X) (accepted_measurements X F s t c []) MetricDeltaBatch_default"
    using batch_holds_empty by (simp add: accepted_measurements_def List.map_filter_def)
  then show ?case by (simp add: MetricDeltaBatch_default_def)
next
  case (snoc v vs)
  define ds where "ds = accepted_measurements X F s t c vs"
  define b where "b = foldl (fold_measurement X F s t c) MetricDeltaBatch_default vs"
  have "distinct_ids (io_blake3 X) ds" by (rule distinct_ids_mono[OF snoc.prems]) (simp add: accepted_snoc ds_def)
  with snoc.IH have IH: "batch_holds (io_blake3 X) ds b" "db_source_measurements b = min (length vs) u32_max"
    "db_discarded_measurements b = min (length vs - length ds) u32_max" unfolding ds_def b_def by simp_all
  have len: "length ds \<le> length vs" unfolding ds_def by (rule accepted_length)
  have fold: "foldl (fold_measurement X F s t c) MetricDeltaBatch_default (vs @ [v]) = fold_measurement X F s t c b v"
    by (simp add: b_def)
  show ?case
  proof (cases "normalize_metric_measurement X F s t c v")
    case None
    have "batch_holds (io_blake3 X) ds (fold_measurement X F s t c b v)"
      using IH(1) batch_holds_deltas[OF fold_measurement_None(1)[OF None]] by simp
    with IH(2,3) len show ?thesis
      unfolding fold fold_measurement_None(2,3)[OF None] accepted_snoc None ds_def[symmetric]
      by (auto simp: min_def)
  next
    case (Some d)
    have "batch_holds (io_blake3 X) (ds @ [d]) (MetricDeltaBatch_push (io_blake3 X) F d b)"
    proof (rule batch_holds_push)
      show "distinct_ids (io_blake3 X) (ds @ [d])" using snoc.prems Some by (simp add: accepted_snoc ds_def)
    qed (use IH summarises_single[OF measurement_delta(1)[OF Some]] in simp_all)
    then have "batch_holds (io_blake3 X) (ds @ [d]) (fold_measurement X F s t c b v)"
      using batch_holds_deltas[OF fold_measurement_Some(1)[OF Some]] by simp
    with IH(2,3) len show ?thesis
      unfolding fold fold_measurement_Some(2,3)[OF Some] accepted_snoc Some ds_def[symmetric]
      by (simp add: saturate_twice del: One_nat_def)
  qed
qed

lemma accepted_sizes:
  assumes "\<forall>d\<in>set ds. d \<in> set (accepted_measurements X F s t c vs)"
  shows "sum_list (map (\<lambda>d. agg_size (dl_aggregate d)) ds) = length ds"
proof -
  have "agg_size (dl_aggregate d) = 1" if "d \<in> set ds" for d
    using assms that measurement_delta(2) by (fastforce simp: accepted_measurements_def List.map_filter_def)
  then show ?thesis by (induction ds) auto
qed

text \<open>
  C38. A metric container is folded without losing or double-counting a measurement: every element of its
  \<^verbatim>\<open>items\<close> array is counted as a source measurement, the elements that are not valid measurements as
  discarded, and the accepted ones (in any number and order) end up in one delta per series and time
  bucket, whose count is the number of accepted measurements of that series and bucket and whose
  sketch bins add up theirs, all up to saturation of the counters. Assumes that the hash separates the
  series of this container.
\<close>
theorem metric_container_exact:
  assumes "fold_metric_container entries X F s t raw c = Inr b" "metric_items entries raw = Some vs"
    "distinct_ids (io_blake3 X) (accepted_measurements X F s t c vs)"
  shows "let ds = accepted_measurements X F s t c vs in
    db_source_measurements b = min (length vs) u32_max
    \<and> db_discarded_measurements b = min (length vs - length ds) u32_max
    \<and> batch_holds (io_blake3 X) ds b
    \<and> (\<forall>k e. map_of (db_deltas b) k = Some e \<longrightarrow>
         agg_size (dl_aggregate e) = min (length (of_key (io_blake3 X) k ds)) u64_max)"
proof -
  have b: "b = foldl (fold_measurement X F s t c) MetricDeltaBatch_default vs"
    using assms(1,2) by (auto simp: fold_metric_container_def ok_or_def split: if_splits)
  let ?ds = "accepted_measurements X F s t c vs"
  note h = fold_measurement_holds[OF assms(3), folded b]
  have "agg_size (dl_aggregate e) = min (length (of_key (io_blake3 X) k ?ds)) u64_max"
    if "map_of (db_deltas b) k = Some e" for k e
  proof -
    have "summarises (of_key (io_blake3 X) k ?ds) e" using batch_holdsD(3)[OF conjunct1[OF h] that] by simp
    moreover have "sum_list (map (\<lambda>d. agg_size (dl_aggregate d)) (of_key (io_blake3 X) k ?ds))
        = length (of_key (io_blake3 X) k ?ds)"
      by (rule accepted_sizes) (auto simp: of_key_def)
    ultimately show ?thesis by (simp add: summarises_def)
  qed
  with h show ?thesis unfolding Let_def by blast
qed

text \<open>
  The bytes hashed into the identifier of a metric series determine the series: two accepted
  measurements (of any projects, at any configurations) have the same preimage exactly when project, name, kind, unit and all tags
  are the same, because the admitted texts contain no NUL byte.
\<close>
theorem metric_series_unambiguous:
  assumes "normalize_metric_measurement X F s t c v = Some d" "normalize_metric_measurement X F s' t' c' v' = Some d'"
    "project_id_ok (ps_project_id s)" "project_id_ok (ps_project_id s')"
  shows "series_preimage (dl_series d) = series_preimage (dl_series d') \<longleftrightarrow> dl_series d = dl_series d'"
  using series_preimage_inj[OF measurement_series_ok[OF assms(1,3)] measurement_series_ok[OF assms(2,4)]]
  by (rule iffI) (assumption, simp)

definition sample_float_ops :: float_ops where
  "sample_float_ops = \<lparr>fl_add = (+), fl_min = min, fl_max = max, fl_is_zero = (\<lambda>x. x = 0),
     fl_log2_floor = (\<lambda>_. 0), fl_millis = (\<lambda>x. Some (1000 * uint x))\<rparr>"

definition sample_measurement :: json where
  "sample_measurement = J_Object [(''name'', J_String ''jobs''), (''timestamp'', J_Number (JN_PosInt 61)),
     (''type'', J_String ''counter''), (''value'', J_Number (JN_PosInt 2))]"

definition sample_delta_of :: "project_id \<Rightarrow> metric_delta" where
  "sample_delta_of p = \<lparr>dl_series = \<lparr>ms_project_id = p, ms_name = ''jobs'', ms_kind = MK_Counter,
       ms_unit = ''none'', ms_tags = []\<rparr>, dl_bucket_start = 60000, dl_bucket_width_seconds = 60, dl_received_at = 5,
     dl_trace_id = None, dl_aggregate = MA_Counter 2 1\<rparr>"

definition sample_delta :: metric_delta where "sample_delta = sample_delta_of 7"

lemma sample_texts:
  "bounded_metric_text ''jobs'' 200 False = Some ''jobs''" "bounded_metric_text ''none'' 32 True = Some ''none''"
proof -
  have "str_trim ''jobs'' = ''jobs''" "str_trim ''none'' = ''none''"
    by (rule str_trim_graphic; auto)+
  then show "bounded_metric_text ''jobs'' 200 False = Some ''jobs''" "bounded_metric_text ''none'' 32 True = Some ''none''"
    by (simp_all add: bounded_metric_text_def Let_def has_control_ascii is_ascii_def is_ascii_control_def)
qed

lemma sample_measurement_delta:
  "normalize_metric_measurement sample_signal_ops sample_float_ops (sample_snapshot\<lparr>ps_project_id := p\<rparr>) 5
     MetricIngestConfig_default sample_measurement = Some (sample_delta_of p)"
proof -
  have num: "f64_is_finite 61" "f64_is_finite 2" by (simp_all add: f64_is_finite_def drop_bit_eq_div)
  have bucket: "metric_bucket 60 61000 = Some 60000"
    by (simp add: metric_bucket_def checked_i64_def wrap_i64_def Timestamp_from_unix_millis_def MAX_TIMESTAMP_MILLIS_def
        MIN_TIMESTAMP_MILLIS_def)
  show ?thesis
    by (simp add: normalize_metric_measurement_def sample_measurement_def MetricIngestConfig_default_def sample_texts
        sample_signal_ops_def sample_float_ops_def num bucket metric_kind_parse_def measurement_tags_def sample_delta_of_def
        MetricAggregate_from_measurement_def)
qed

lemma sample_project: "sample_snapshot\<lparr>ps_project_id := 7\<rparr> = sample_snapshot"
  by (simp add: sample_snapshot_def)

theorem metric_container_exact_witness:
  "let vs = [sample_measurement, J_Null, sample_measurement];
       k = delta_key (io_blake3 sample_signal_ops) sample_delta in
   \<exists>b. fold_metric_container (\<lambda>_. Some [(''items'', Some vs)]) sample_signal_ops sample_float_ops sample_snapshot 5 []
         MetricIngestConfig_default = Inr b
     \<and> db_source_measurements b = 3 \<and> db_discarded_measurements b = 1
     \<and> map_option (\<lambda>e. agg_size (dl_aggregate e)) (map_of (db_deltas b) k) = Some 2"
proof -
  let ?vs = "[sample_measurement, J_Null, sample_measurement]"
  let ?k = "delta_key (io_blake3 sample_signal_ops) sample_delta"
  let ?entries = "\<lambda>_. Some [(''items'', Some ?vs)]"
  have items: "metric_items ?entries [] = Some ?vs" by (simp add: metric_items_def)
  have acc: "accepted_measurements sample_signal_ops sample_float_ops sample_snapshot 5 MetricIngestConfig_default ?vs
      = [sample_delta, sample_delta]"
    using sample_measurement_delta[of 7, unfolded sample_project, folded sample_delta_def]
    by (simp add: accepted_measurements_def List.map_filter_def normalize_metric_measurement_def)
  have ids: "distinct_ids (io_blake3 sample_signal_ops) [sample_delta, sample_delta]" by (simp add: distinct_ids_def)
  obtain b where b: "fold_metric_container ?entries sample_signal_ops sample_float_ops sample_snapshot 5 []
      MetricIngestConfig_default = Inr b"
    by (simp add: fold_metric_container_def items MetricIngestConfig_default_def ok_or_def)
  note h = metric_container_exact[OF b items, unfolded acc Let_def, OF ids]
  then have "db_source_measurements b = 3" "db_discarded_measurements b = 1" by simp_all
  moreover have "of_key (io_blake3 sample_signal_ops) ?k [sample_delta, sample_delta] = [sample_delta, sample_delta]"
    by (simp add: of_key_def)
  with h batch_holdsD(2)[of _ _ b ?k] have "map_option (\<lambda>e. agg_size (dl_aggregate e)) (map_of (db_deltas b) ?k) = Some 2"
    by (cases "map_of (db_deltas b) ?k") fastforce+
  ultimately show ?thesis using b unfolding Let_def by blast
qed

theorem metric_series_unambiguous_witness:
  "series_preimage (dl_series (sample_delta_of 7)) \<noteq> series_preimage (dl_series (sample_delta_of 8))"
  using metric_series_unambiguous[OF sample_measurement_delta[of 7] sample_measurement_delta[of 8]]
  by (simp add: project_id_ok_def i32_ok_def sample_delta_of_def)

end
