(* ===== verification/Metric_Writer.thy ===== *)
theory Metric_Writer
  imports Metric_Deltas "HOL-Library.Multiset"
begin

text \<open>
  The metric writer (\<^verbatim>\<open>crates/application/src/metric_writer.rs\<close>): admission, coalescing of delta batches, the
  flush and the shutdown drain. The actor returns the log of what it did: the batches it gave to the store with
  the commands they answer, and the commands it refused.
\<close>

section \<open>Admission\<close>

record metric_writer_config =
  mw_channel_capacity :: nat
  mw_max_wait :: duration
  mw_max_deltas :: nat
  mw_operation_timeout :: duration
  mw_shutdown_drain :: duration

definition MetricWriterConfig_default :: metric_writer_config where
  "MetricWriterConfig_default = \<lparr>mw_channel_capacity = 256, mw_max_wait = millis 20, mw_max_deltas = 2000,
     mw_operation_timeout = secs 10, mw_shutdown_drain = secs 10\<rparr>"

definition MetricWriter_start_ok :: "metric_writer_config \<Rightarrow> bool" where
  "MetricWriter_start_ok c = (\<not> (mw_channel_capacity c = 0 \<or> mw_max_deltas c = 0 \<or> mw_max_wait c = 0
     \<or> mw_operation_timeout c = 0 \<or> mw_shutdown_drain c = 0))"

definition batch_len :: "metric_delta_batch \<Rightarrow> nat" where
  "batch_len b = length (db_deltas b)"

text \<open>
  \<open>reserved\<close> is whether the channel had room, \<open>answer\<close> what came back, \<open>None\<close> when the actor dropped the command.
\<close>

definition persist_metrics ::
  "nat \<Rightarrow> bool \<Rightarrow> bool \<Rightarrow> bool \<Rightarrow> signal_result option \<Rightarrow> metric_delta_batch \<Rightarrow> signal_result" where
  "persist_metrics max_deltas accepting cancelled reserved answer b =
     (if batch_len b = 0 then Inr Durable_Accepted
      else if batch_len b > max_deltas then Inl Signal_InvalidData
      else if \<not> accepting \<or> cancelled then Inl Signal_Unavailable
      else if \<not> reserved then Inl Signal_Capacity
      else unwrap_or answer (Inl Signal_Unavailable))"

section \<open>The actor\<close>

record 'b metric_command =
  mc_batch :: 'b
  mc_response :: nat

datatype 'b metric_action =
    Flushed "'b metric_command list" 'b signal_result
  | Refused "'b metric_command list"

text \<open>The coalescing loop: batch, commands, the command carried over, the queue at a shutdown, the later wake-ups.\<close>

fun metric_gather ::
  "('b \<Rightarrow> 'b \<Rightarrow> 'b) \<Rightarrow> ('b \<Rightarrow> nat) \<Rightarrow> nat \<Rightarrow> 'b \<Rightarrow> 'b metric_command list \<Rightarrow> 'b metric_command wake list
    \<Rightarrow> 'b \<times> 'b metric_command list \<times> 'b metric_command option \<times> 'b metric_command list option \<times> 'b metric_command wake list" where
  "metric_gather merge len m b cs [] = (b, cs, None, None, [])"
| "metric_gather merge len m b cs (w # ws) = (case w of
       W_Shutdown q \<Rightarrow> (b, cs, None, Some q, ws)
     | W_Deadline \<Rightarrow> (b, cs, None, None, ws)
     | W_Command c \<Rightarrow>
         (if saturating_add_usize (len b) (len (mc_batch c)) \<le> m
          then metric_gather merge len m (merge b (mc_batch c)) (cs @ [c]) ws
          else (b, cs, Some c, None, ws))
     | W_Closed \<Rightarrow> (b, cs, None, None, w # ws))"

definition metric_flush ::
  "('b \<Rightarrow> 't \<Rightarrow> signal_result option \<times> 't) \<Rightarrow> 'b \<Rightarrow> 'b metric_command list \<Rightarrow> 't \<Rightarrow> 'b metric_action list \<times> 't" where
  "metric_flush store b cs t =
     (case store b t of (result, t') \<Rightarrow> ([Flushed cs b (unwrap_or result (Inl Signal_Unavailable))], t'))"

text \<open>
  The drain flushes each queued command on its own. Once the drain time is used up the command just taken is
  dropped, which its caller sees as unavailable, and the rest of the queue is refused.
\<close>

fun metric_drain ::
  "('t \<Rightarrow> bool) \<Rightarrow> ('b \<Rightarrow> 't \<Rightarrow> signal_result option \<times> 't) \<Rightarrow> 'b metric_command list \<Rightarrow> 't \<Rightarrow> 'b metric_action list \<times> 't" where
  "metric_drain elapsed store [] t = ([], t)"
| "metric_drain elapsed store (first # q) t =
     (if elapsed t then ([Refused (first # q)], t)
      else case metric_flush store (mc_batch first) [first] t of (l, t') \<Rightarrow>
        (case metric_drain elapsed store q t' of (l', t'') \<Rightarrow> (l @ l', t'')))"

text \<open>
  After a flush the loop tests the shutdown signal: it was seen while gathering, or \<open>seen\<close> says that the signal of
  the next wake-up is already there.
\<close>

definition shutdown_after ::
  "('t \<Rightarrow> bool) \<Rightarrow> 't \<Rightarrow> 'c list option \<Rightarrow> 'c wake list \<Rightarrow> 'c list option" where
  "shutdown_after seen t shutdown rest = (case shutdown of
       Some q \<Rightarrow> Some q
     | None \<Rightarrow> (case rest of W_Shutdown q # _ \<Rightarrow> if seen t then Some q else None | _ \<Rightarrow> None))"

definition refuse :: "'b metric_command option \<Rightarrow> 'b metric_action list" where
  "refuse carry = (case carry of None \<Rightarrow> [] | Some c \<Rightarrow> [Refused [c]])"

lemma metric_gather_shorter:
  "metric_gather merge len m b cs ws = (b', cs', carry, shutdown, rest) \<Longrightarrow>
   length rest + length (carried carry) \<le> length ws"
  by (induction merge len m b cs ws rule: metric_gather.induct) (auto simp: carried_def split: wake.splits if_splits)

function metric_actor ::
  "('b \<Rightarrow> 'b \<Rightarrow> 'b) \<Rightarrow> ('b \<Rightarrow> nat) \<Rightarrow> nat \<Rightarrow> ('t \<Rightarrow> 't \<Rightarrow> bool) \<Rightarrow> ('t \<Rightarrow> bool)
    \<Rightarrow> ('b \<Rightarrow> 't \<Rightarrow> signal_result option \<times> 't) \<Rightarrow> 'b metric_command option \<Rightarrow> 'b metric_command wake list \<Rightarrow> 't
    \<Rightarrow> 'b metric_action list \<times> 't" where
  "metric_actor merge len m elapsed seen store None [] t = ([], t)"
| "metric_actor merge len m elapsed seen store None (W_Shutdown q # ws) t = metric_drain (elapsed t) store q t"
| "metric_actor merge len m elapsed seen store None (W_Closed # ws) t = ([], t)"
| "metric_actor merge len m elapsed seen store None (W_Deadline # ws) t =
     metric_actor merge len m elapsed seen store None ws t"
| "metric_actor merge len m elapsed seen store None (W_Command first # ws) t =
     metric_actor merge len m elapsed seen store (Some first) ws t"
| "metric_actor merge len m elapsed seen store (Some first) ws t =
     (case metric_gather merge len m (mc_batch first) [first] ws of (b, cs, carry, shutdown, rest) \<Rightarrow>
       (case metric_flush store b cs t of (l, t') \<Rightarrow>
         (case shutdown_after seen t' shutdown rest of
            Some q \<Rightarrow> (case metric_drain (elapsed t') store q t' of (l', t'') \<Rightarrow> (l @ refuse carry @ l', t''))
          | None \<Rightarrow> (case metric_actor merge len m elapsed seen store carry rest t' of (l', t'') \<Rightarrow> (l @ l', t'')))))"
  by pat_completeness auto
termination
  by (relation "measure (\<lambda>(_, _, _, _, _, _, carry, ws, _). 2 * length ws + length (carried carry))")
    (auto simp: carried_def dest!: metric_gather_shorter[OF sym])

definition MetricWriter_run ::
  "(bytes \<Rightarrow> bytes) \<Rightarrow> float_ops \<Rightarrow> metric_writer_config \<Rightarrow> ('t \<Rightarrow> 't \<Rightarrow> bool) \<Rightarrow> ('t \<Rightarrow> bool)
    \<Rightarrow> (metric_delta_batch \<Rightarrow> 't \<Rightarrow> signal_result option \<times> 't) \<Rightarrow> metric_delta_batch metric_command wake list \<Rightarrow> 't
    \<Rightarrow> metric_delta_batch metric_action list \<times> 't" where
  "MetricWriter_run blake3 F c elapsed seen store ws t =
     metric_actor (MetricDeltaBatch_merge blake3 F) batch_len (mw_max_deltas c) elapsed seen store None ws t"

text \<open>What the callers are told.\<close>

fun action_answers :: "'b metric_action \<Rightarrow> signal_result answers" where
  "action_answers (Flushed cs b result) = map (\<lambda>c. (mc_response c, result)) cs"
| "action_answers (Refused cs) = map (\<lambda>c. (mc_response c, Inl Signal_Unavailable)) cs"

fun action_commands :: "'b metric_action \<Rightarrow> 'b metric_command list" where
  "action_commands (Flushed cs b result) = cs"
| "action_commands (Refused cs) = cs"

section \<open>What the actor guarantees\<close>

text \<open>
  The contract of a mergeable batch: a batch holds a list of items, a merge holds the items of both (as long as the
  items are compatible), and a merge is at most as long as the two batches.
\<close>

locale mergeable_batches =
  fixes merge :: "'b \<Rightarrow> 'b \<Rightarrow> 'b"
    and len :: "'b \<Rightarrow> nat"
    and holds :: "'i list \<Rightarrow> 'b \<Rightarrow> bool"
    and compatible :: "'i list \<Rightarrow> bool"
  assumes holds_merge: "holds xs b \<Longrightarrow> holds ys b' \<Longrightarrow> compatible (xs @ ys) \<Longrightarrow> holds (xs @ ys) (merge b b')"
    and len_merge: "len (merge b b') \<le> len b + len b'"
    and compatible_mono: "compatible xs \<Longrightarrow> set ys \<subseteq> set xs \<Longrightarrow> compatible ys"
begin

text \<open>A flush is sound when its batch holds the items of its commands and is within the limit.\<close>

definition action_ok :: "nat \<Rightarrow> ('b metric_command \<Rightarrow> 'i list) \<Rightarrow> 'b metric_action \<Rightarrow> bool" where
  "action_ok m items l = (case l of
       Flushed cs b result \<Rightarrow> holds (concat (map items cs)) b \<and> len b \<le> m
     | Refused cs \<Rightarrow> True)"

definition command_ok :: "nat \<Rightarrow> ('b metric_command \<Rightarrow> 'i list) \<Rightarrow> 'b metric_command \<Rightarrow> bool" where
  "command_ok m items c = (holds (items c) (mc_batch c) \<and> len (mc_batch c) \<le> m)"

lemma gather_sound:
  assumes "metric_gather merge len m b cs ws = (b', cs', carry, shutdown, rest)"
    "holds (concat (map items cs)) b" "len b \<le> m" "m < u64_max"
    "\<forall>c\<in>set (received ws). command_ok m items c"
    "compatible (concat (map items (cs @ received ws)))"
  shows "holds (concat (map items cs')) b' \<and> len b' \<le> m
    \<and> cs @ received ws = cs' @ carried carry @ (case shutdown of Some q \<Rightarrow> q | None \<Rightarrow> received rest)
    \<and> (shutdown \<noteq> None \<longrightarrow> carry = None)"
  using assms
proof (induction ws arbitrary: b cs)
  case (Cons w ws)
  show ?case
  proof (cases w)
    case (W_Command c)
    show ?thesis
    proof (cases "saturating_add_usize (len b) (len (mc_batch c)) \<le> m")
      case True
      have room: "len b + len (mc_batch c) \<le> m" using True Cons.prems(4) by (simp add: saturating_add_usize_def)
      have c: "holds (items c) (mc_batch c)" using Cons.prems(5) by (simp add: W_Command command_ok_def)
      have "compatible (concat (map items cs) @ items c)"
        by (rule compatible_mono[OF Cons.prems(6)]) (auto simp: W_Command)
      then have "holds (concat (map items (cs @ [c]))) (merge b (mc_batch c))"
        using holds_merge[OF Cons.prems(2) c] by simp
      moreover have "len (merge b (mc_batch c)) \<le> m" using room len_merge[of b "mc_batch c"] by linarith
      ultimately show ?thesis
        using Cons.IH[of "merge b (mc_batch c)" "cs @ [c]"] Cons.prems True by (simp add: W_Command)
    qed (use Cons.prems W_Command in auto)
  qed (use Cons.prems in auto)
qed auto

lemma drain_sound:
  assumes "metric_drain elapsed store q t = (l, t')" "\<forall>c\<in>set q. command_ok m items c"
  shows "concat (map action_commands l) = q \<and> list_all (action_ok m items) l"
  using assms
proof (induction q arbitrary: t l t')
  case (Cons first q)
  show ?case
  proof (cases "elapsed t")
    case False
    obtain l1 t1 where f: "metric_flush store (mc_batch first) [first] t = (l1, t1)" by fastforce
    obtain l2 t2 where d: "metric_drain elapsed store q t1 = (l2, t2)" by fastforce
    have "concat (map action_commands l1) = [first] \<and> list_all (action_ok m items) l1"
      using f Cons.prems(2) by (auto simp: metric_flush_def action_ok_def command_ok_def split: prod.splits)
    moreover have "l = l1 @ l2" using Cons.prems(1) False f d by simp
    ultimately show ?thesis using Cons.IH[OF d] Cons.prems(2) by simp
  qed (use Cons.prems in \<open>auto simp: action_ok_def\<close>)
qed simp

lemma refuse_sound: "concat (map action_commands (refuse carry)) = carried carry \<and> list_all (action_ok m items) (refuse carry)"
  by (cases carry) (simp_all add: refuse_def action_ok_def)

lemma shutdown_after_received:
  "shutdown_after seen t shutdown rest = Some q \<Longrightarrow> (case shutdown of Some q \<Rightarrow> q | None \<Rightarrow> received rest) = q"
  by (auto simp: shutdown_after_def split: option.splits list.splits wake.splits if_splits)

lemma shutdown_after_None: "shutdown_after seen t shutdown rest = None \<Longrightarrow> shutdown = None"
  by (auto simp: shutdown_after_def split: option.splits)

lemma actor_sound:
  assumes "metric_actor merge len m elapsed seen store carry ws t = (l, t')" "m < u64_max"
    "\<forall>c\<in>set (carried carry @ received ws). command_ok m items c"
    "compatible (concat (map items (carried carry @ received ws)))"
  shows "concat (map action_commands l) = carried carry @ received ws \<and> list_all (action_ok m items) l"
  using assms
proof (induction "2 * length ws + length (carried carry)" arbitrary: carry ws t l t' rule: less_induct)
  case less
  show ?case
  proof (cases carry)
    case None
    show ?thesis
    proof (cases ws)
      case (Cons w r)
      then show ?thesis
      proof (cases w)
        case (W_Shutdown q)
        then show ?thesis using less.prems drain_sound[of "elapsed t" store q t l t' m items] by (simp add: None Cons)
      next
        case W_Deadline
        then show ?thesis using less.hyps[of r None t l t'] less.prems by (simp add: None Cons)
      next
        case (W_Command c)
        have "metric_actor merge len m elapsed seen store (Some c) r t = (l, t')"
          using less.prems(1) by (simp only: None Cons W_Command metric_actor.simps)
        then show ?thesis using less.hyps[of r "Some c" t l t'] less.prems(2-) by (simp add: None Cons W_Command)
      qed (use less.prems in \<open>simp add: None Cons\<close>)
    qed (use less.prems in \<open>simp add: None\<close>)
  next
    case (Some first)
    obtain b cs carry' shutdown rest where
      g: "metric_gather merge len m (mc_batch first) [first] ws = (b, cs, carry', shutdown, rest)" by (metis prod_cases5)
    obtain l1 t1 where f: "metric_flush store b cs t = (l1, t1)" by fastforce
    have first: "command_ok m items first" using less.prems(3) by (simp add: Some)
    have gs: "holds (concat (map items cs)) b" "len b \<le> m"
      "first # received ws = cs @ carried carry' @ (case shutdown of Some q \<Rightarrow> q | None \<Rightarrow> received rest)"
      using gather_sound[OF g, of items] first less.prems by (simp_all add: Some command_ok_def)
    have l1: "concat (map action_commands l1) = cs \<and> list_all (action_ok m items) l1"
      using f gs(1,2) by (auto simp: metric_flush_def action_ok_def split: prod.splits)
    let ?rest = "case shutdown of Some q \<Rightarrow> q | None \<Rightarrow> received rest"
    have sub: "set (carried carry' @ ?rest) \<subseteq> set (carried carry @ received ws)"
      using arg_cong[OF gs(3), of set] by (auto simp: Some)
    show ?thesis
    proof (cases "shutdown_after seen t1 shutdown rest")
      case None
      have sh: "shutdown = None" by (rule shutdown_after_None[OF None])
      obtain l2 t2 where a: "metric_actor merge len m elapsed seen store carry' rest t1 = (l2, t2)" by fastforce
      have "2 * length rest + length (carried carry') < 2 * length ws + length (carried carry)"
        using metric_gather_shorter[OF g] by (simp add: Some)
      moreover have "\<forall>c\<in>set (carried carry' @ received rest). command_ok m items c" using less.prems(3) sub sh by auto
      moreover have "compatible (concat (map items (carried carry' @ received rest)))"
        by (rule compatible_mono[OF less.prems(4)]) (use sub sh in auto)
      ultimately have "concat (map action_commands l2) = carried carry' @ received rest \<and> list_all (action_ok m items) l2"
        using less.hyps a less.prems(2) by blast
      moreover have "l = l1 @ l2" using less.prems(1) by (simp add: Some g f None a)
      ultimately show ?thesis using l1 gs(3) sh by (simp add: Some)
    next
      case (Some q)
      obtain l2 t2 where d: "metric_drain (elapsed t1) store q t1 = (l2, t2)" by fastforce
      have q: "?rest = q" by (rule shutdown_after_received[OF Some])
      have "\<forall>c\<in>set q. command_ok m items c" using less.prems(3) sub unfolding q by auto
      note ds = drain_sound[OF d this]
      have "l = l1 @ refuse carry' @ l2" using less.prems(1) by (simp add: \<open>carry = Some first\<close> g f Some d)
      then show ?thesis using l1 ds refuse_sound[of carry' m items] gs(3) unfolding q by (simp add: \<open>carry = Some first\<close>)
    qed
  qed
qed

end

lemma length_push_delta: "length (push_delta blake3 F d m) \<le> Suc (length m)"
  using length_bt_insert by (auto simp: push_delta_def Let_def split: option.splits)

lemma length_pushes:
  "length (db_deltas (foldl (\<lambda>b d. MetricDeltaBatch_push blake3 F d b) b ds)) \<le> length (db_deltas b) + length ds"
proof (induction ds arbitrary: b)
  case (Cons d ds)
  show ?case
    using Cons[of "MetricDeltaBatch_push blake3 F d b"] length_push_delta[of blake3 F d "db_deltas b"]
    by (simp add: MetricDeltaBatch_push_def)
qed simp

interpretation metric_batches: mergeable_batches "MetricDeltaBatch_merge blake3 F" batch_len "batch_holds blake3"
  "distinct_ids blake3" for blake3 F
proof
  show "batch_len (MetricDeltaBatch_merge blake3 F b b') \<le> batch_len b + batch_len b'" for b b'
    using length_pushes[of blake3 F _ "map snd (db_deltas b')"] unfolding MetricDeltaBatch_merge_def batch_len_def
    by (rule order_trans) simp
qed (fact batch_holds_merge, fact distinct_ids_mono)

lemma answers_of_commands: "map fst (concat (map action_answers l)) = map mc_response (concat (map action_commands l))"
proof (induction l)
  case (Cons x l)
  then show ?case by (cases x) simp_all
qed simp


definition sample_metric_command :: "(bytes \<Rightarrow> bytes) \<Rightarrow> nat \<Rightarrow> metric_delta_batch metric_command" where
  "sample_metric_command blake3 r =
     \<lparr>mc_batch = MetricDeltaBatch_push blake3 sample_float_ops sample_delta MetricDeltaBatch_default, mc_response = r\<rparr>"

lemma sample_command_holds:
  "batch_holds blake3 [sample_delta] (mc_batch (sample_metric_command blake3 r))"
  "batch_len (mc_batch (sample_metric_command blake3 r)) = 1"
proof -
  have "delta_ok sample_delta" by (simp add: delta_ok_def sample_delta_def sample_delta_of_def)
  from batch_holds_push[OF batch_holds_empty summarises_single[OF this], of blake3 sample_float_ops]
  show "batch_holds blake3 [sample_delta] (mc_batch (sample_metric_command blake3 r))"
    by (simp add: distinct_ids_def sample_metric_command_def)
  show "batch_len (mc_batch (sample_metric_command blake3 r)) = 1"
    by (simp add: sample_metric_command_def batch_len_def MetricDeltaBatch_push_def push_delta_def MetricDeltaBatch_default_def)
qed


end
