(* ===== verification/Ingest_Service.thy ===== *)
theory Ingest_Service
  imports Ingest_Records Metric_Writer
begin

text \<open>
  The ingest service (\<^verbatim>\<open>IngestService\<close> of \<^verbatim>\<open>crates/application/src/ingest.rs\<close>): the order in which a request is
  authenticated, converted, stored and answered. The collaborators (project resolver, clock, shutdown signal, storage
  permits, sinks, blob store) are parameters on a world \<open>'w\<close> they may change. The state of the service keeps the
  world, the rate windows and a log of what was handed to the collaborators with their answers. The counter of filtered items in the
  process metrics is left out.
\<close>

section \<open>Requests and configuration\<close>

datatype ingest_disabled_category =
    IC_Transaction | IC_Session | IC_Profile | IC_Replay | IC_CheckIn | IC_Span | IC_Statsd | IC_Attachment | IC_OtherKnown

fun DisabledCategory_sentry_name :: "ingest_disabled_category \<Rightarrow> string" where
  "DisabledCategory_sentry_name IC_Transaction = ''transaction''"
| "DisabledCategory_sentry_name IC_Session = ''session''"
| "DisabledCategory_sentry_name IC_Profile = ''profile''"
| "DisabledCategory_sentry_name IC_Replay = ''replay''"
| "DisabledCategory_sentry_name IC_CheckIn = ''monitor''"
| "DisabledCategory_sentry_name IC_Span = ''span''"
| "DisabledCategory_sentry_name IC_Statsd = ''metric_bucket''"
| "DisabledCategory_sentry_name IC_Attachment = ''attachment''"
| "DisabledCategory_sentry_name IC_OtherKnown = ''default''"

record ingest_discarded_item =
  ig_category :: "ingest_disabled_category option"
  ig_reason :: string

datatype pending_signal_kind = PS_Log | PS_Transaction | PS_Span | PS_Session

record pending_signal =
  pg_kind :: pending_signal_kind
  pg_raw_json :: bytes

record pending_metric_container =
  pm_item_count :: nat
  pm_raw_json :: bytes

record ingest_request =
  rq_path_project_id :: nat
  rq_auth_keys :: "dsn_key list"
  rq_dsn_project_id :: "nat option"
  rq_envelope_event_id :: "event_id option"
  rq_primary :: "primary_event option"
  rq_signals :: "pending_signal list"
  rq_metrics :: "pending_metric_container list"
  rq_replays :: "pending_replay list"
  rq_check_ins :: "bytes list"
  rq_attachments :: "pending_attachment list"
  rq_discarded :: "ingest_discarded_item list"
  rq_client_report_quantity :: nat

record attachment_ingest_config =
  ac_enabled :: bool
  ac_chunk_bytes :: nat

definition AttachmentIngestConfig_default :: attachment_ingest_config where
  "AttachmentIngestConfig_default = \<lparr>ac_enabled = True, ac_chunk_bytes = 64 * 1024\<rparr>"

record minidump_ingest_config =
  mdc_enabled :: bool
  mdc_max_bytes :: nat
  mdc_chunk_bytes :: nat
  mdc_retained_header_bytes :: nat

definition MinidumpIngestConfig_default :: minidump_ingest_config where
  "MinidumpIngestConfig_default = \<lparr>mdc_enabled = False, mdc_max_bytes = 100 * 1024 * 1024, mdc_chunk_bytes = 64 * 1024,
     mdc_retained_header_bytes = 64 * 1024\<rparr>"

record minidump_request =
  mq_path_project_id :: nat
  mq_auth_keys :: "dsn_key list"
  mq_dsn_project_id :: "nat option"
  mq_supplied_event_id :: "event_id option"

record ingest_result =
  ir_event_id :: "event_id option"
  ir_durable :: "durable_outcome option"
  ir_disabled_categories :: "string list"

text \<open>\<open>sc_has_\<dots>\<close>: the optional collaborator is configured.\<close>

record service_config =
  sc_attachments :: attachment_ingest_config
  sc_minidumps :: minidump_ingest_config
  sc_feedback :: feedback_ingest_config
  sc_monitors :: monitor_ingest_config
  sc_metrics :: metric_ingest_config
  sc_replays :: replay_ingest_config
  sc_has_blob_store :: bool
  sc_has_log_sink :: bool
  sc_has_span_sink :: bool
  sc_has_session_sink :: bool
  sc_has_feedback_sink :: bool
  sc_has_monitor_sink :: bool
  sc_has_metric_sink :: bool
  sc_has_replay_sink :: bool

section \<open>Collaborators\<close>

datatype project_resolve_error = RE_UnknownKey | RE_Unauthorized | RE_Unavailable
datatype blob_store_error = BS_TooLarge | BS_Capacity | BS_NotFound | BS_Corrupt | BS_Invalid | BS_Unavailable
datatype feedback_store_error = FS_NotFound | FS_Conflict | FS_InvalidData | FS_Capacity | FS_Unavailable
datatype ingest_outcome_kind =
    IO_Accepted | IO_Duplicate | IO_Invalid | IO_TooLarge | IO_RateLimited | IO_Unsupported | IO_StorageUnavailable | IO_Filtered

fun map_resolve_error :: "project_resolve_error \<Rightarrow> ingest_error" where
  "map_resolve_error RE_Unavailable = IngestError_unavailable ''project_unavailable''"
| "map_resolve_error _ = IngestError Ing_Unauthorized ''unauthorized''"

fun map_signal_store_error :: "signal_store_error \<Rightarrow> ingest_error" where
  "map_signal_store_error Signal_Conflict = IngestError_invalid ''signal_conflict''"
| "map_signal_store_error Signal_InvalidData = IngestError_invalid ''signal_conflict''"
| "map_signal_store_error Signal_Capacity = IngestError_rate_limited ''log_lane_capacity''"
| "map_signal_store_error _ = IngestError_unavailable ''signal_storage_unavailable''"

fun map_span_sink_error :: "signal_store_error \<Rightarrow> ingest_error" where
  "map_span_sink_error Signal_Conflict = IngestError_invalid ''invalid_span''"
| "map_span_sink_error Signal_InvalidData = IngestError_invalid ''invalid_span''"
| "map_span_sink_error Signal_Capacity = IngestError_rate_limited ''span_lane_capacity''"
| "map_span_sink_error _ = IngestError_unavailable ''span_storage_unavailable''"

fun map_feedback_store_error :: "feedback_store_error \<Rightarrow> ingest_error" where
  "map_feedback_store_error FS_Conflict = IngestError_invalid ''feedback_conflict''"
| "map_feedback_store_error FS_InvalidData = IngestError_invalid ''feedback_conflict''"
| "map_feedback_store_error FS_Capacity = IngestError_rate_limited ''feedback_storage_capacity''"
| "map_feedback_store_error _ = IngestError_unavailable ''feedback_storage_unavailable''"

fun map_sink_error :: "event_sink_error \<Rightarrow> ingest_error" where
  "map_sink_error Sink_Unavailable = IngestError_unavailable ''storage_unavailable''"
| "map_sink_error Sink_Ambiguous = IngestError_unavailable ''ambiguous_durable_ack''"

fun map_blob_error :: "blob_store_error \<Rightarrow> ingest_error" where
  "map_blob_error BS_Invalid = IngestError_invalid ''invalid_blob_request''"
| "map_blob_error BS_TooLarge = IngestError Ing_TooLarge ''minidump_too_large''"
| "map_blob_error BS_Capacity = IngestError_unavailable ''blob_capacity_exhausted''"
| "map_blob_error _ = IngestError_unavailable ''blob_storage_unavailable''"

text \<open>
  \<open>en_shutdown\<close> reads the shutdown signal. A blob writer is a number; a minidump source is the list of its chunks, then
  the end or an error.
\<close>

type_synonym check_in_update = "monitor_definition option \<times> monitor_run"

record ('u, 'w) ingest_env =
  en_ops :: "'u replay_ops"
  en_floats :: float_ops
  en_entries :: "bytes \<Rightarrow> (string \<times> json list option) list option"
  en_shutdown :: "'w \<Rightarrow> bool \<times> 'w"
  en_now :: "'w \<Rightarrow> timestamp \<times> 'w"
  en_permit :: "'w \<Rightarrow> bool \<times> 'w"
  en_resolve :: "dsn_key \<Rightarrow> 'w \<Rightarrow> (project_resolve_error + project_snapshot \<times> nat) \<times> 'w"
  en_persist :: "accepted_event \<Rightarrow> 'w \<Rightarrow> (event_sink_error + durable_outcome) \<times> 'w"
  en_persist_logs :: "log_record list \<Rightarrow> 'w \<Rightarrow> (signal_store_error + durable_outcome list) \<times> 'w"
  en_persist_spans :: "span_record list \<Rightarrow> 'w \<Rightarrow> (signal_store_error + durable_outcome list) \<times> 'w"
  en_persist_sessions :: "session_update list \<Rightarrow> 'w \<Rightarrow> (signal_store_error + durable_outcome list) \<times> 'w"
  en_persist_monitors :: "check_in_update list \<Rightarrow> 'w \<Rightarrow> (signal_store_error + durable_outcome list) \<times> 'w"
  en_persist_metrics :: "metric_delta_batch \<Rightarrow> 'w \<Rightarrow> (signal_store_error + durable_outcome) \<times> 'w"
  en_persist_replay :: "replay_submission \<Rightarrow> 'w \<Rightarrow> (signal_store_error + durable_outcome) \<times> 'w"
  en_persist_feedback :: "feedback_record \<Rightarrow> 'w \<Rightarrow> (feedback_store_error + durable_outcome) \<times> 'w"
  en_blob_begin :: "blob_kind \<Rightarrow> timestamp \<Rightarrow> 'w \<Rightarrow> (blob_store_error + nat) \<times> 'w"
  en_blob_write :: "nat \<Rightarrow> bytes \<Rightarrow> 'w \<Rightarrow> (blob_store_error + unit) \<times> 'w"
  en_blob_commit :: "nat \<Rightarrow> blob_key \<Rightarrow> 'w \<Rightarrow> (blob_store_error + blob_object) \<times> 'w"
  en_blob_abort :: "nat \<Rightarrow> 'w \<Rightarrow> (blob_store_error + unit) \<times> 'w"
  en_timestamp_number :: "timestamp \<Rightarrow> json_number"
  en_codecs :: blob_codecs

text \<open>The log; the answer \<open>None\<close> is a call that was dropped because the shutdown won the race.\<close>

datatype ingest_action =
    A_Outcome ingest_outcome_kind string nat
  | A_Logs "log_record list" "signal_store_error + durable_outcome list"
  | A_Spans "span_record list" "signal_store_error + durable_outcome list"
  | A_Sessions "session_update list" "signal_store_error + durable_outcome list"
  | A_Monitors "check_in_update list" "signal_store_error + durable_outcome list"
  | A_Metrics metric_delta_batch "signal_store_error + durable_outcome"
  | A_Replay replay_submission "signal_store_error + durable_outcome"
  | A_Feedback feedback_record "(feedback_store_error + durable_outcome) option"
  | A_Event accepted_event "(event_sink_error + durable_outcome) option"
  | A_Commit blob_key "bytes list" "blob_store_error + blob_object"

record 'w service_state =
  sv_world :: 'w
  sv_log :: "ingest_action list"
  sv_feedback_rate :: rate_windows
  sv_monitor_rate :: rate_windows

text \<open>A step of the service: \<open>None\<close> is a panic.\<close>

type_synonym ('w, 'a) svc = "'w service_state \<Rightarrow> (ingest_error + 'a) option \<times> 'w service_state"

definition sret :: "'a \<Rightarrow> ('w, 'a) svc" where "sret x s = (Some (Inr x), s)"
definition sfail :: "ingest_error \<Rightarrow> ('w, 'a) svc" where "sfail e s = (Some (Inl e), s)"
definition slift :: "ingest_error + 'a \<Rightarrow> ('w, 'a) svc" where "slift r s = (Some r, s)"
definition slift_opt :: "(ingest_error + 'a) option \<Rightarrow> ('w, 'a) svc" where "slift_opt r s = (r, s)"

definition sbind :: "('w, 'a) svc \<Rightarrow> ('a \<Rightarrow> ('w, 'b) svc) \<Rightarrow> ('w, 'b) svc" where
  "sbind m f s = (case m s of
       (None, s') \<Rightarrow> (None, s')
     | (Some (Inl e), s') \<Rightarrow> (Some (Inl e), s')
     | (Some (Inr x), s') \<Rightarrow> f x s')"

definition sact :: "ingest_action \<Rightarrow> ('w, unit) svc" where
  "sact a s = (Some (Inr ()), s\<lparr>sv_log := sv_log s @ [a]\<rparr>)"

definition scall :: "('w \<Rightarrow> 'r \<times> 'w) \<Rightarrow> ('w, 'r) svc" where
  "scall f s = (case f (sv_world s) of (r, w) \<Rightarrow> (Some (Inr r), s\<lparr>sv_world := w\<rparr>))"

text \<open>A call that is logged with its answer.\<close>

definition sstore :: "('r \<Rightarrow> ingest_action) \<Rightarrow> ('w \<Rightarrow> 'r \<times> 'w) \<Rightarrow> ('w, 'r) svc" where
  "sstore a f = sbind (scall f) (\<lambda>r. sbind (sact (a r)) (\<lambda>_. sret r))"

fun sfor :: "('a \<Rightarrow> ('w, 'b) svc) \<Rightarrow> 'a list \<Rightarrow> ('w, 'b list) svc" where
  "sfor f [] = sret []"
| "sfor f (x # xs) = sbind (f x) (\<lambda>y. sbind (sfor f xs) (\<lambda>ys. sret (y # ys)))"

definition shutting_down :: ingest_error where
  "shutting_down = IngestError Ing_ShuttingDown ''shutting_down''"

definition sadmit :: "('w service_state \<Rightarrow> rate_windows) \<Rightarrow> (rate_windows \<Rightarrow> 'w service_state \<Rightarrow> 'w service_state)
    \<Rightarrow> (rate_windows \<Rightarrow> ingest_error + rate_windows) \<Rightarrow> ('w, unit) svc" where
  "sadmit get put admit s = (case admit (get s) of Inl e \<Rightarrow> (Some (Inl e), s) | Inr w \<Rightarrow> (Some (Inr ()), put w s))"

definition durable_kind :: "durable_outcome \<Rightarrow> ingest_outcome_kind" where
  "durable_kind d = (case d of Durable_Accepted \<Rightarrow> IO_Accepted | Durable_Duplicate \<Rightarrow> IO_Duplicate)"

text \<open>\<^verbatim>\<open>sort_unstable\<close> and \<^verbatim>\<open>dedup\<close> of category names.\<close>

definition sort_dedup :: "string list \<Rightarrow> string list" where
  "sort_dedup cs = remdups_adj (sort cs)"

section \<open>Signals\<close>

definition record_filtered :: "('w, unit) svc" where
  "record_filtered = sact (A_Outcome IO_Filtered ''inbound_filter'' 1)"

fun sfilter :: "('r \<Rightarrow> filter_match option option) \<Rightarrow> 'r list \<Rightarrow> ('w, 'r list) svc" where
  "sfilter matches [] = sret []"
| "sfilter matches (r # rs) = (case matches r of
       None \<Rightarrow> slift_opt None
     | Some (Some _) \<Rightarrow> sbind record_filtered (\<lambda>_. sfilter matches rs)
     | Some None \<Rightarrow> sbind (sfilter matches rs) (\<lambda>kept. sret (r # kept)))"

record signal_parts =
  gp_logs :: "log_record list"
  gp_spans :: "span_record list"
  gp_sessions :: "session_update list"
  gp_disabled :: "string list"

definition no_parts :: signal_parts where
  "no_parts = \<lparr>gp_logs = [], gp_spans = [], gp_sessions = [], gp_disabled = []\<rparr>"

definition feature_disabled :: "nat \<Rightarrow> ('w, unit) svc" where
  "feature_disabled quantity = sact (A_Outcome IO_Unsupported ''feature_disabled'' quantity)"

text \<open>One signal of the request: the loop body of \<^verbatim>\<open>persist_signals\<close>.\<close>

definition convert_signal ::
  "('u, 'w) ingest_env \<Rightarrow> project_snapshot \<Rightarrow> timestamp \<Rightarrow> pending_signal \<Rightarrow> ('w, signal_parts) svc" where
  "convert_signal E snapshot received_at signal =
     (let X = signals_of (en_ops E); filters = ps_inbound_filters snapshot; items = ps_items snapshot in
      if length (pg_raw_json signal) > pl_max_event_bytes (ps_limits snapshot)
      then sfail (IngestError Ing_TooLarge ''project_signal_too_large'')
      else case pg_kind signal of
          PS_Log \<Rightarrow>
            if cap_log items then
              sbind (slift (normalize_logs X snapshot received_at (pg_raw_json signal))) (\<lambda>rs.
              sbind (sfilter (\<lambda>r. policy_matches filters (log_filter_fields r)) rs) (\<lambda>kept.
              sret (no_parts\<lparr>gp_logs := kept\<rparr>)))
            else sbind (feature_disabled 1) (\<lambda>_. sret (no_parts\<lparr>gp_disabled := [''log'']\<rparr>))
        | PS_Transaction \<Rightarrow>
            if cap_transaction items then
              sbind (slift (normalize_transaction X snapshot received_at (pg_raw_json signal))) (\<lambda>rs.
              sbind (sfilter (\<lambda>r. policy_matches filters
                (span_filter_fields r (if sn_is_segment r then Sig_Transaction else Sig_Span))) rs) (\<lambda>kept.
              sret (no_parts\<lparr>gp_spans := kept\<rparr>)))
            else sbind (feature_disabled 1) (\<lambda>_. sret (no_parts\<lparr>gp_disabled := [''transaction'']\<rparr>))
        | PS_Span \<Rightarrow>
            if cap_span items then
              sbind (slift (normalize_spans X snapshot received_at (pg_raw_json signal))) (\<lambda>rs.
              sbind (sfilter (\<lambda>r. policy_matches filters (span_filter_fields r Sig_Span)) rs) (\<lambda>kept.
              sret (no_parts\<lparr>gp_spans := kept\<rparr>)))
            else sbind (feature_disabled 1) (\<lambda>_. sret (no_parts\<lparr>gp_disabled := [''span'']\<rparr>))
        | PS_Session \<Rightarrow>
            sbind (slift_opt (normalize_session X snapshot received_at (pg_raw_json signal))) (\<lambda>u.
            sret (no_parts\<lparr>gp_sessions := [u]\<rparr>)))"

text \<open>Hand a list to an optional sink and count it as accepted.\<close>

definition sink_list ::
  "bool \<Rightarrow> string \<Rightarrow> (signal_store_error \<Rightarrow> ingest_error) \<Rightarrow> string
    \<Rightarrow> ('r list \<Rightarrow> (signal_store_error + durable_outcome list) \<Rightarrow> ingest_action)
    \<Rightarrow> ('r list \<Rightarrow> 'w \<Rightarrow> (signal_store_error + durable_outcome list) \<times> 'w) \<Rightarrow> 'r list \<Rightarrow> ('w, unit) svc" where
  "sink_list present missing err reason a store rs =
     (if rs = [] then sret ()
      else if \<not> present then sfail (IngestError_unavailable missing)
      else sbind (sstore (a rs) (store rs)) (\<lambda>result.
        sbind (slift (map_err err result)) (\<lambda>_.
        sact (A_Outcome IO_Accepted reason (length rs)))))"

definition service_persist_signals ::
  "service_config \<Rightarrow> ('u, 'w) ingest_env \<Rightarrow> project_snapshot \<Rightarrow> pending_signal list \<Rightarrow> ('w, string list) svc" where
  "service_persist_signals c E snapshot signals =
     (if signals = [] then sret []
      else
        sbind (scall (en_now E)) (\<lambda>received_at.
        sbind (sfor (convert_signal E snapshot received_at) signals) (\<lambda>parts.
        let logs = concat (map gp_logs parts); spans = concat (map gp_spans parts);
            sessions = concat (map gp_sessions parts); disabled = sort_dedup (concat (map gp_disabled parts)) in
        if logs = [] \<and> spans = [] \<and> sessions = [] then sret disabled
        else
          sbind (sink_list (sc_has_log_sink c) ''log_storage_unavailable'' map_signal_store_error ''log'' A_Logs (en_persist_logs E) logs) (\<lambda>_.
          sbind (sink_list (sc_has_span_sink c) ''span_storage_unavailable'' map_span_sink_error ''span'' A_Spans (en_persist_spans E) spans) (\<lambda>_.
          sbind (sink_list (sc_has_session_sink c) ''session_storage_unavailable'' map_signal_store_error ''session'' A_Sessions
            (en_persist_sessions E) sessions) (\<lambda>_.
          sret disabled))))))"

section \<open>Check-ins, metrics and replays\<close>

definition convert_check_in ::
  "service_config \<Rightarrow> ('u, 'w) ingest_env \<Rightarrow> project_snapshot \<Rightarrow> timestamp \<Rightarrow> bytes \<Rightarrow> ('w, check_in_update) svc" where
  "convert_check_in c E snapshot received_at payload =
     (if length payload > pl_max_event_bytes (ps_limits snapshot)
      then sfail (IngestError Ing_TooLarge ''project_check_in_too_large'')
      else
        sbind (sadmit sv_monitor_rate (\<lambda>w s. s\<lparr>sv_monitor_rate := w\<rparr>)
          (admit_monitor (sc_monitors c) (ps_project_id snapshot) received_at)) (\<lambda>_.
        slift (normalize_check_in (signals_of (en_ops E)) snapshot received_at payload (sc_monitors c))))"

definition persist_check_ins ::
  "service_config \<Rightarrow> ('u, 'w) ingest_env \<Rightarrow> project_snapshot \<Rightarrow> bytes list \<Rightarrow> ('w, string list) svc" where
  "persist_check_ins c E snapshot check_ins =
     (if check_ins = [] then sret []
      else if \<not> cap_check_in (ps_items snapshot)
      then sbind (feature_disabled (length check_ins)) (\<lambda>_. sret [''monitor''])
      else
        sbind (scall (en_now E)) (\<lambda>received_at.
        sbind (sfor (convert_check_in c E snapshot received_at) check_ins) (\<lambda>updates.
        if \<not> sc_has_monitor_sink c then sfail (IngestError_unavailable ''monitor_storage_unavailable'')
        else
          sbind (sstore (A_Monitors updates) (en_persist_monitors E updates)) (\<lambda>result.
          sbind (slift (map_err map_signal_store_error result)) (\<lambda>outcomes.
          let accepted = length (filter (\<lambda>d. d = Durable_Accepted) outcomes); duplicate = length outcomes - accepted in
          sbind (if accepted > 0 then sact (A_Outcome IO_Accepted ''monitor'' accepted) else sret ()) (\<lambda>_.
          sbind (if duplicate > 0 then sact (A_Outcome IO_Duplicate ''monitor'' duplicate) else sret ()) (\<lambda>_.
          sret [])))))))"

fun fold_containers ::
  "metric_ingest_config \<Rightarrow> ('u, 'w) ingest_env \<Rightarrow> project_snapshot \<Rightarrow> timestamp \<Rightarrow> metric_delta_batch
    \<Rightarrow> pending_metric_container list \<Rightarrow> ingest_error + metric_delta_batch" where
  "fold_containers m E snapshot received_at b [] = Inr b"
| "fold_containers m E snapshot received_at b (container # rest) =
     (if length (pm_raw_json container) > pl_max_event_bytes (ps_limits snapshot)
      then Inl (IngestError Ing_TooLarge ''project_metric_container_too_large'')
      else and_then (fold_metric_container (en_entries E) (signals_of (en_ops E)) (en_floats E) snapshot received_at
          (pm_raw_json container) m) (\<lambda>folded.
        if db_source_measurements folded \<noteq> pm_item_count container
        then Inl (IngestError_invalid ''metric_item_count_mismatch'')
        else fold_containers m E snapshot received_at
          (MetricDeltaBatch_merge (io_blake3 (en_ops E)) (en_floats E) b folded) rest))"

definition service_persist_metrics ::
  "service_config \<Rightarrow> ('u, 'w) ingest_env \<Rightarrow> project_snapshot \<Rightarrow> pending_metric_container list \<Rightarrow> ('w, string list) svc" where
  "service_persist_metrics c E snapshot containers =
     (if containers = [] then sret []
      else if \<not> cap_metric (ps_items snapshot)
      then sbind (feature_disabled (length containers)) (\<lambda>_. sret [''metric_bucket''])
      else
        sbind (scall (en_now E)) (\<lambda>received_at.
        sbind (slift (fold_containers (sc_metrics c) E snapshot received_at MetricDeltaBatch_default containers)) (\<lambda>b.
        sbind (if db_discarded_measurements b > 0
               then sact (A_Outcome IO_Invalid ''invalid_metric_measurement'' (db_discarded_measurements b)) else sret ()) (\<lambda>_.
        if batch_len b = 0 then sret []
        else if \<not> sc_has_metric_sink c then sfail (IngestError_unavailable ''metric_storage_unavailable'')
        else
          sbind (sstore (A_Metrics b) (en_persist_metrics E b)) (\<lambda>result.
          sbind (slift (map_err map_signal_store_error result)) (\<lambda>_.
          sbind (sact (A_Outcome IO_Accepted ''metric'' (batch_len b))) (\<lambda>_. sret [])))))))"

definition persist_replay ::
  "service_config \<Rightarrow> ('u, 'w) ingest_env \<Rightarrow> project_snapshot \<Rightarrow> timestamp \<Rightarrow> pending_replay \<Rightarrow> ('w, unit) svc" where
  "persist_replay c E snapshot received_at replay =
     sbind (slift (normalize_replay (en_ops E) snapshot received_at replay (sc_replays c))) (\<lambda>submission.
     sbind (sstore (A_Replay submission) (en_persist_replay E submission)) (\<lambda>result.
     sbind (slift (map_err map_signal_store_error result)) (\<lambda>outcome.
     sact (A_Outcome (durable_kind outcome) ''replay'' 1))))"

definition persist_replays ::
  "service_config \<Rightarrow> ('u, 'w) ingest_env \<Rightarrow> project_snapshot \<Rightarrow> pending_replay list \<Rightarrow> ('w, string list) svc" where
  "persist_replays c E snapshot replays =
     (if replays = [] then sret []
      else if \<not> cap_replay (ps_items snapshot)
      then sbind (feature_disabled (length replays)) (\<lambda>_. sret [''replay''])
      else if \<not> sc_has_replay_sink c then sfail (IngestError_unavailable ''replay_storage_unavailable'')
      else
        sbind (scall (en_now E)) (\<lambda>received_at.
        sbind (sfor (persist_replay c E snapshot received_at) replays) (\<lambda>_. sret [])))"

section \<open>Attachments\<close>

record persisted_attachments =
  pt_accepted :: "event_attachment list"
  pt_dropped :: nat

text \<open>\<^verbatim>\<open>chunks(n)\<close> of a slice.\<close>

function chunks_of :: "nat \<Rightarrow> 'a list \<Rightarrow> 'a list list" where
  "chunks_of n [] = []"
| "chunks_of n (x # xs) = take (max n 1) (x # xs) # chunks_of n (drop (max n 1) (x # xs))"
  by pat_completeness auto
termination
  by (relation "measure (\<lambda>(n, xs). length xs)") auto

definition write_chunks :: "('u, 'w) ingest_env \<Rightarrow> nat \<Rightarrow> bytes list \<Rightarrow> ('w, unit) svc" where
  "write_chunks E writer cs =
     sbind (sfor (\<lambda>chunk. sbind (scall (en_blob_write E writer chunk)) (\<lambda>r. slift (map_err map_blob_error r))) cs) (\<lambda>_. sret ())"

definition commit_blob :: "('u, 'w) ingest_env \<Rightarrow> nat \<Rightarrow> blob_key \<Rightarrow> bytes list \<Rightarrow> ('w, blob_object) svc" where
  "commit_blob E writer key cs =
     sbind (sstore (A_Commit key cs) (en_blob_commit E writer key)) (\<lambda>r. slift (map_err map_blob_error r))"

text \<open>One attachment; \<open>None\<close> is an attachment that the policy drops.\<close>

definition persist_attachment ::
  "service_config \<Rightarrow> ('u, 'w) ingest_env \<Rightarrow> project_snapshot \<Rightarrow> event_id \<Rightarrow> bool \<Rightarrow> pending_attachment
    \<Rightarrow> ('w, event_attachment option) svc" where
  "persist_attachment c E snapshot event_id allow_png attachment =
     (let blake3 = io_blake3 (en_ops E); project = ps_project_id snapshot in
      sbind (slift (scrub_safe_attachment (ops_of (signals_of (en_ops E))) attachment snapshot allow_png)) (\<lambda>safe.
      case safe of
        None \<Rightarrow> sret None
      | Some bs \<Rightarrow>
          let checksum = blake3 bs;
              object_id = attachment_object_id blake3 project event_id (pa_position attachment) checksum;
              key = BlobKey_event_owned (en_codecs E) project event_id object_id;
              cs = chunks_of (ac_chunk_bytes (sc_attachments c)) bs in
          sbind (scall (en_now E)) (\<lambda>created_at.
          sbind (sbind (scall (en_blob_begin E BK_EventAttachment created_at)) (\<lambda>r. slift (map_err map_blob_error r))) (\<lambda>writer.
          sbind (write_chunks E writer cs) (\<lambda>_.
          sbind (commit_blob E writer key cs) (\<lambda>blob.
          if bo_checksum blob \<noteq> checksum then sfail (IngestError_unavailable ''blob_checksum_mismatch'')
          else
          sbind (slift (map_err (\<lambda>_. IngestError_invalid ''invalid_attachment_filename'')
            (AttachmentFilename_sanitized (pa_filename attachment)))) (\<lambda>filename.
          sbind (slift (map_err (\<lambda>_. IngestError_invalid ''invalid_attachment_content_type'')
            (BlobContentType_new (pa_content_type attachment)))) (\<lambda>content_type.
          if pa_attachment_type attachment = [] \<or> length (pa_attachment_type attachment) > 128
            \<or> has_control (pa_attachment_type attachment)
          then sfail (IngestError_invalid ''invalid_attachment_type'')
          else sret (Some \<lparr>ea_attachment_id = object_id, ea_blob = blob, ea_filename = filename,
            ea_content_type = content_type, ea_attachment_type = pa_attachment_type attachment\<rparr>)))))))))"

definition persist_attachments ::
  "service_config \<Rightarrow> ('u, 'w) ingest_env \<Rightarrow> project_snapshot \<Rightarrow> event_id \<Rightarrow> pending_attachment list \<Rightarrow> bool
    \<Rightarrow> ('w, persisted_attachments) svc" where
  "persist_attachments c E snapshot event_id attachments allow_png =
     (if attachments = [] then sret \<lparr>pt_accepted = [], pt_dropped = 0\<rparr>
      else if \<not> ac_enabled (sc_attachments c) then sret \<lparr>pt_accepted = [], pt_dropped = length attachments\<rparr>
      else if \<not> sc_has_blob_store c then sfail (IngestError_unavailable ''blob_storage_unavailable'')
      else
        sbind (sfor (persist_attachment c E snapshot event_id allow_png) attachments) (\<lambda>rs.
        sret \<lparr>pt_accepted = List.map_filter id rs, pt_dropped = min (length (filter (\<lambda>r. r = None) rs)) u64_max\<rparr>))"

definition number_i64 :: "int \<Rightarrow> json_number" where
  "number_i64 v = (if v \<ge> 0 then JN_PosInt (nat v) else JN_NegInt v)"

definition attachment_metadata :: "('u, 'w) ingest_env \<Rightarrow> event_attachment \<Rightarrow> json" where
  "attachment_metadata E a = J_Object (bt_collect
     [(''attachment_id'', J_String (bc_hex (en_codecs E) (ea_attachment_id a))),
      (''blob_key'', J_String (bo_key (ea_blob a))),
      (''filename'', J_String (ea_filename a)),
      (''content_type'', J_String (ea_content_type a)),
      (''attachment_type'', J_String (ea_attachment_type a)),
      (''size'', J_Number (JN_PosInt (bo_size (ea_blob a)))),
      (''checksum'', J_String (bc_hex (en_codecs E) (bo_checksum (ea_blob a)))),
      (''created_at'', J_Number (number_i64 (bo_created_at (ea_blob a))))])"

definition append_attachment_metadata ::
  "('u, 'w) ingest_env \<Rightarrow> bytes \<Rightarrow> event_attachment list \<Rightarrow> ingest_error + bytes" where
  "append_attachment_metadata E payload attachments =
     (let J = io_json (en_ops E) in
      and_then (ok_or (IngestError_invalid ''invalid_event_json'') (jo_from_slice J payload)) (\<lambda>event.
      and_then (ok_or (IngestError_invalid ''event_not_object'') (json_as_object event)) (\<lambda>m.
      Inr (jo_to_vec J (J_Object (bt_insert ''attachments'' (J_Array (map (attachment_metadata E) attachments)) m))))))"

section \<open>Feedback\<close>

definition unsupported :: "string \<Rightarrow> nat \<Rightarrow> ('w, unit) svc" where
  "unsupported reason quantity = sact (A_Outcome IO_Unsupported reason quantity)"

text \<open>
  A call under a storage permit. With \<open>racing\<close> it stands in a biased \<^verbatim>\<open>select!\<close> with the shutdown signal: the signal
  may be there before the call, or win while the call is pending. The permit is given back when the request ends; which
  permits are free is part of the world.
\<close>

definition signalled :: "('u, 'w) ingest_env \<Rightarrow> bool \<Rightarrow> ('w, bool) svc" where
  "signalled E racing = (if racing then scall (en_shutdown E) else sret False)"

definition durable_call ::
  "('u, 'w) ingest_env \<Rightarrow> bool \<Rightarrow> (('e + durable_outcome) option \<Rightarrow> ingest_action) \<Rightarrow> ('w \<Rightarrow> ('e + durable_outcome) \<times> 'w)
    \<Rightarrow> ('e \<Rightarrow> ingest_error) \<Rightarrow> string \<Rightarrow> ('w, durable_outcome) svc" where
  "durable_call E racing a f err reason =
     sbind (scall (en_permit E)) (\<lambda>permit.
     if \<not> permit then sfail (IngestError_unavailable ''storage_wait_capacity'')
     else
     sbind (signalled E racing) (\<lambda>before.
     if before then sfail shutting_down
     else
     sbind (scall f) (\<lambda>r.
     sbind (signalled E racing) (\<lambda>lost.
     if lost then sbind (sact (a None)) (\<lambda>_. sfail shutting_down)
     else
     sbind (sact (a (Some r))) (\<lambda>_.
     sbind (slift (map_err err r)) (\<lambda>durable.
     sbind (sact (A_Outcome (durable_kind durable) reason 1)) (\<lambda>_. sret durable)))))))"

definition drop_attachments :: "string \<Rightarrow> persisted_attachments \<Rightarrow> string list \<Rightarrow> ('w, string list) svc" where
  "drop_attachments reason persisted categories =
     (if pt_dropped persisted > 0
      then sbind (unsupported reason (pt_dropped persisted)) (\<lambda>_.
        sret (sort_dedup (categories @ [DisabledCategory_sentry_name IC_Attachment])))
      else sret categories)"

definition ingest_feedback ::
  "service_config \<Rightarrow> ('u, 'w) ingest_env \<Rightarrow> project_snapshot \<Rightarrow> primary_event \<Rightarrow> event_id option
    \<Rightarrow> pending_attachment list \<Rightarrow> string list \<Rightarrow> ('w, ingest_result) svc" where
  "ingest_feedback c E snapshot primary envelope_event_id attachments categories =
     (if \<not> cap_feedback (ps_items snapshot)
      then sbind (unsupported ''feedback_disabled'' 1) (\<lambda>_.
        sret \<lparr>ir_event_id = None, ir_durable = None, ir_disabled_categories = categories\<rparr>)
      else
      sbind (slift (validate_feedback_attachment_limits attachments (sc_feedback c))) (\<lambda>_.
      sbind (scall (en_now E)) (\<lambda>received_at.
      sbind (slift (normalize_feedback (signals_of (en_ops E)) snapshot primary envelope_event_id received_at (sc_feedback c))) (\<lambda>feedback.
      sbind (sadmit sv_feedback_rate (\<lambda>w s. s\<lparr>sv_feedback_rate := w\<rparr>)
        (admit_feedback (sc_feedback c) (ps_project_id snapshot) received_at)) (\<lambda>_.
      sbind (persist_attachments c E snapshot (fb_feedback_id feedback) attachments
        (fc_allow_png_screenshots (sc_feedback c))) (\<lambda>persisted.
      sbind (drop_attachments ''feedback_attachment_policy_unsupported'' persisted categories) (\<lambda>categories.
      let feedback = feedback\<lparr>fb_attachments := pt_accepted persisted\<rparr> in
      if \<not> FeedbackRecord_validate feedback then sfail (IngestError_invalid ''invalid_feedback'')
      else if \<not> sc_has_feedback_sink c then sfail (IngestError_unavailable ''feedback_storage_unavailable'')
      else
      sbind (durable_call E True (A_Feedback feedback) (en_persist_feedback E feedback) map_feedback_store_error ''feedback'') (\<lambda>durable.
      sret \<lparr>ir_event_id = Some (fb_feedback_id feedback), ir_durable = Some durable,
        ir_disabled_categories = categories\<rparr>))))))))"

section \<open>Requests\<close>

definition persist_event ::
  "service_config \<Rightarrow> ('u, 'w) ingest_env \<Rightarrow> project_snapshot \<Rightarrow> event_id \<Rightarrow> bytes
    \<Rightarrow> pending_attachment list \<Rightarrow> string list \<Rightarrow> ('w, ingest_result) svc" where
  "persist_event c E snapshot event_id payload attachments categories =
     sbind (persist_attachments c E snapshot event_id attachments False) (\<lambda>persisted.
     sbind (drop_attachments ''attachment_policy_unsupported'' persisted categories) (\<lambda>categories.
     sbind (if pt_accepted persisted = [] then sret payload
            else slift (append_attachment_metadata E payload (pt_accepted persisted))) (\<lambda>payload.
     sbind (scall (en_now E)) (\<lambda>received_at.
     let accepted = \<lparr>ae_project_id = ps_project_id snapshot, ae_event_id = event_id, ae_received_at = received_at,
       ae_policy_revision = sp_revision (ps_scrub_policy snapshot), ae_payload = payload\<rparr> in
     sbind (durable_call E True (A_Event accepted) (en_persist E accepted) map_sink_error ''event'') (\<lambda>durable.
     sret \<lparr>ir_event_id = Some event_id, ir_durable = Some durable, ir_disabled_categories = categories\<rparr>)))))"

definition ingest_event ::
  "service_config \<Rightarrow> ('u, 'w) ingest_env \<Rightarrow> project_snapshot \<Rightarrow> primary_event \<Rightarrow> event_id option
    \<Rightarrow> pending_attachment list \<Rightarrow> string list \<Rightarrow> ('w, ingest_result) svc" where
  "ingest_event c E snapshot primary envelope_event_id attachments categories =
     (if \<not> cap_error (ps_items snapshot)
      then sbind (unsupported ''feature_disabled'' 1) (\<lambda>_.
        sret \<lparr>ir_event_id = None, ir_durable = None, ir_disabled_categories = categories\<rparr>)
      else
      sbind (slift_opt (validate_and_scrub_event (ops_of (signals_of (en_ops E))) primary envelope_event_id snapshot)) (\<lambda>validated.
      case validated of
        VP_Filtered event_id matched \<Rightarrow> sbind record_filtered (\<lambda>_.
          sret \<lparr>ir_event_id = Some event_id, ir_durable = None, ir_disabled_categories = categories\<rparr>)
      | VP_Accepted event_id payload \<Rightarrow> persist_event c E snapshot event_id payload attachments categories))"

definition sresolve :: "('u, 'w) ingest_env \<Rightarrow> bool \<Rightarrow> dsn_key \<Rightarrow> ('w, project_snapshot \<times> nat) svc" where
  "sresolve E racing key =
     sbind (signalled E racing) (\<lambda>before.
     if before then sfail shutting_down
     else
     sbind (scall (en_resolve E key)) (\<lambda>r.
     sbind (signalled E racing) (\<lambda>lost.
     if lost then sfail shutting_down else slift (map_err map_resolve_error r))))"

text \<open>The opening steps shared by both entry points: the project of the request.\<close>

definition authenticate ::
  "('u, 'w) ingest_env \<Rightarrow> bool \<Rightarrow> dsn_key list \<Rightarrow> nat \<Rightarrow> nat option \<Rightarrow> ('w, project_snapshot) svc" where
  "authenticate E racing keys path_project_id envelope_project_id =
     sbind (scall (en_shutdown E)) (\<lambda>stop.
     if stop then sfail shutting_down
     else
     sbind (slift (one_auth_key keys)) (\<lambda>key.
     sbind (sresolve E racing key) (\<lambda>(snapshot, wire_project_id).
     sbind (slift (validate_project_consistency path_project_id envelope_project_id snapshot wire_project_id)) (\<lambda>_.
     sret snapshot))))"

definition ingest_primary ::
  "service_config \<Rightarrow> ('u, 'w) ingest_env \<Rightarrow> ingest_request \<Rightarrow> project_snapshot \<Rightarrow> string list \<Rightarrow> ('w, ingest_result) svc" where
  "ingest_primary c E rq snapshot categories =
     (case rq_primary rq of
       None \<Rightarrow>
         sbind (if rq_attachments rq \<noteq> [] then unsupported ''attachment_without_event'' (length (rq_attachments rq)) else sret ()) (\<lambda>_.
         sret \<lparr>ir_event_id = None, ir_durable = None, ir_disabled_categories = categories\<rparr>)
     | Some primary \<Rightarrow>
         if length (pr_raw_json primary) > pl_max_event_bytes (ps_limits snapshot)
         then sfail (IngestError Ing_TooLarge ''project_event_too_large'')
         else
         sbind (slift (primary_is_feedback (ops_of (signals_of (en_ops E))) primary)) (\<lambda>is_feedback.
         if is_feedback
         then ingest_feedback c E snapshot primary (rq_envelope_event_id rq) (rq_attachments rq) categories
         else ingest_event c E snapshot primary (rq_envelope_event_id rq) (rq_attachments rq) categories))"

definition ingest_side_items ::
  "service_config \<Rightarrow> ('u, 'w) ingest_env \<Rightarrow> ingest_request \<Rightarrow> project_snapshot \<Rightarrow> ('w, string list) svc" where
  "ingest_side_items c E rq snapshot =
     sbind (sfor (\<lambda>item. unsupported (ig_reason item) 1) (rq_discarded rq)) (\<lambda>_.
     sbind (if rq_client_report_quantity rq > 0 then unsupported ''sdk_client_report'' (rq_client_report_quantity rq) else sret ()) (\<lambda>_.
     let disabled = sort_dedup (map DisabledCategory_sentry_name (List.map_filter ig_category (rq_discarded rq))) in
     sbind (service_persist_signals c E snapshot (rq_signals rq)) (\<lambda>d1.
     sbind (service_persist_metrics c E snapshot (rq_metrics rq)) (\<lambda>d2.
     sbind (persist_replays c E snapshot (rq_replays rq)) (\<lambda>d3.
     sbind (persist_check_ins c E snapshot (rq_check_ins rq)) (\<lambda>d4.
     sret (sort_dedup (disabled @ d1 @ d2 @ d3 @ d4))))))))"

definition ingest :: "service_config \<Rightarrow> ('u, 'w) ingest_env \<Rightarrow> ingest_request \<Rightarrow> ('w, ingest_result) svc" where
  "ingest c E rq =
     sbind (authenticate E True (rq_auth_keys rq) (rq_path_project_id rq) (rq_dsn_project_id rq)) (\<lambda>snapshot.
     sbind (ingest_side_items c E rq snapshot) (\<lambda>categories.
     ingest_primary c E rq snapshot categories))"

section \<open>Minidumps\<close>

definition minidump_too_large :: ingest_error where
  "minidump_too_large = IngestError Ing_TooLarge ''minidump_too_large''"

text \<open>The copying loop: returns the retained header and the chunks written.\<close>

fun copy_minidump ::
  "minidump_ingest_config \<Rightarrow> ('u, 'w) ingest_env \<Rightarrow> nat \<Rightarrow> blob_store_error option \<Rightarrow> bytes list \<Rightarrow> bytes \<Rightarrow> nat \<Rightarrow> bytes list
    \<Rightarrow> ('w, bytes \<times> nat \<times> bytes list) svc" where
  "copy_minidump m E writer failure [] header n written = (case failure of
       Some e \<Rightarrow> sfail (map_blob_error e)
     | None \<Rightarrow> sret (header, n, written))"
| "copy_minidump m E writer failure (chunk # rest) header n written =
     (if n + length chunk > u64_max then sfail minidump_too_large
      else if n + length chunk > mdc_max_bytes m then
        sbind (scall (en_blob_abort E writer)) (\<lambda>r. sbind (slift (map_err map_blob_error r)) (\<lambda>_. sfail minidump_too_large))
      else
        sbind (sbind (scall (en_blob_write E writer chunk)) (\<lambda>r. slift (map_err map_blob_error r))) (\<lambda>_.
        copy_minidump m E writer failure rest
          (header @ take (min (mdc_retained_header_bytes m - length header) (length chunk)) chunk)
          (n + length chunk) (written @ [chunk])))"

definition minidump_payload ::
  "('u, 'w) ingest_env \<Rightarrow> event_id \<Rightarrow> timestamp \<Rightarrow> bytes \<Rightarrow> blob_object \<Rightarrow> json" where
  "minidump_payload E event_id received_at object_id blob = J_Object (bt_collect
     [(''event_id'', J_String (io_hex_encode (en_ops E) event_id)),
      (''platform'', J_String ''native''),
      (''level'', J_String ''fatal''),
      (''timestamp'', J_Number (en_timestamp_number E received_at)),
      (''mechanism'', J_Object [(''type'', J_String ''minidump'')]),
      (''native_crash'', J_Object (bt_collect
        [(''kind'', J_String ''minidump''),
         (''blob_key'', J_String (bo_key blob)),
         (''object_id'', J_String (bc_hex (en_codecs E) object_id)),
         (''size'', J_Number (JN_PosInt (bo_size blob))),
         (''checksum'', J_String (bc_hex (en_codecs E) (bo_checksum blob)))]))])"

definition persist_minidump ::
  "service_config \<Rightarrow> ('u, 'w) ingest_env \<Rightarrow> minidump_request \<Rightarrow> bytes list \<times> blob_store_error option \<Rightarrow> project_snapshot
    \<Rightarrow> ('w, ingest_result) svc" where
  "persist_minidump c E rq source snapshot =
     (let m = sc_minidumps c; blake3 = io_blake3 (en_ops E) in
     sbind (scall (en_now E)) (\<lambda>received_at.
     sbind (sbind (scall (en_blob_begin E BK_Minidump received_at)) (\<lambda>r. slift (map_err map_blob_error r))) (\<lambda>writer.
     sbind (copy_minidump m E writer (snd source) (fst source) [] 0 []) (\<lambda>(header, n, written).
     sbind (slift (validate_minidump_header header n)) (\<lambda>_.
     let checksum = blake3 (concat written);
         event_id = unwrap_or (mq_supplied_event_id rq) (minidump_event_id blake3 (ps_project_id snapshot) checksum);
         object_id = minidump_object_id blake3 (ps_project_id snapshot) event_id checksum in
     sbind (commit_blob E writer (BlobKey_event_owned (en_codecs E) (ps_project_id snapshot) event_id object_id) written) (\<lambda>blob.
     if bo_checksum blob \<noteq> checksum then sfail (IngestError_unavailable ''blob_checksum_mismatch'')
     else
     let accepted = \<lparr>ae_project_id = ps_project_id snapshot, ae_event_id = event_id, ae_received_at = received_at,
       ae_policy_revision = sp_revision (ps_scrub_policy snapshot),
       ae_payload = jo_to_vec (io_json (en_ops E)) (minidump_payload E event_id received_at object_id blob)\<rparr> in
     sbind (durable_call E False (A_Event accepted) (en_persist E accepted) map_sink_error ''minidump'') (\<lambda>durable.
     sret \<lparr>ir_event_id = Some event_id, ir_durable = Some durable, ir_disabled_categories = []\<rparr>)))))))"

definition ingest_minidump ::
  "service_config \<Rightarrow> ('u, 'w) ingest_env \<Rightarrow> minidump_request \<Rightarrow> bytes list \<times> blob_store_error option
    \<Rightarrow> ('w, ingest_result) svc" where
  "ingest_minidump c E rq source =
     (let disabled = \<lparr>ir_event_id = mq_supplied_event_id rq, ir_durable = None, ir_disabled_categories = [''error'']\<rparr> in
     sbind (authenticate E False (mq_auth_keys rq) (mq_path_project_id rq) (mq_dsn_project_id rq)) (\<lambda>snapshot.
     if \<not> mdc_enabled (sc_minidumps c) then sbind (unsupported ''minidump_disabled'' 1) (\<lambda>_. sret disabled)
     else if \<not> cap_error (ps_items snapshot) then sret disabled
     else if \<not> sc_has_blob_store c then sfail (IngestError_unavailable ''blob_storage_unavailable'')
     else persist_minidump c E rq source snapshot))"

end
