(* ===== verification/Ingest_Answers.thy ===== *)
theory Ingest_Answers
  imports Ingest_Service
begin

text \<open>
  What the answer of the ingest service says about the run behind it: everything handed to a sink or blob store belongs to
  the project the request was authenticated for, the durable answer is exactly the acknowledgement of the sink, and an
  acknowledged minidump is stored whole. The proofs use triples for the steps of the service: \<open>emits\<close> for steps whose
  actions satisfy a predicate, \<open>answers\<close> for steps whose acknowledgements are those in their value.
\<close>

section \<open>Reasoning about steps\<close>

text \<open>
  \<open>emits P m Q\<close>: the step \<open>m\<close> only appends to the log, every action it appends satisfies \<open>P\<close>, and its value, if it
  has one, satisfies \<open>Q\<close>.
\<close>

definition emits :: "(ingest_action \<Rightarrow> bool) \<Rightarrow> ('w, 'a) svc \<Rightarrow> ('a \<Rightarrow> bool) \<Rightarrow> bool" where
  "emits P m Q = (\<forall>s r s'. m s = (r, s') \<longrightarrow>
     (\<exists>l. sv_log s' = sv_log s @ l \<and> list_all P l) \<and> (\<forall>x. r = Some (Inr x) \<longrightarrow> Q x))"

lemma emitsD:
  assumes "emits P m Q" "m s = (r, s')"
  obtains l where "sv_log s' = sv_log s @ l" "list_all P l" "\<forall>x. r = Some (Inr x) \<longrightarrow> Q x"
proof -
  have "(\<exists>l. sv_log s' = sv_log s @ l \<and> list_all P l) \<and> (\<forall>x. r = Some (Inr x) \<longrightarrow> Q x)"
    using assms(1)[unfolded emits_def, rule_format, of s r s'] assms(2) by simp
  then show thesis using that by (elim conjE exE)
qed

lemma emits_ret: "Q x \<Longrightarrow> emits P (sret x) Q"
  by (simp add: emits_def sret_def)

lemma emits_fail: "emits P (sfail e) Q"
  by (simp add: emits_def sfail_def)

lemma emits_lift: "(\<And>x. r = Inr x \<Longrightarrow> Q x) \<Longrightarrow> emits P (slift r) Q"
  by (simp add: emits_def slift_def)

lemma emits_lift_opt: "(\<And>x. r = Some (Inr x) \<Longrightarrow> Q x) \<Longrightarrow> emits P (slift_opt r) Q"
  by (simp add: emits_def slift_opt_def)

lemma emits_act: "P a \<Longrightarrow> Q () \<Longrightarrow> emits P (sact a) Q"
  by (auto simp: emits_def sact_def)

lemma emits_call: "(\<And>x. Q x) \<Longrightarrow> emits P (scall f) Q"
  by (auto simp: emits_def scall_def split: prod.splits)

lemma emits_admit:
  assumes "\<And>w s. sv_log (put w s) = sv_log s" "Q ()"
  shows "emits P (sadmit get put admit) Q"
  using assms by (auto simp: emits_def sadmit_def split: sum.splits)

lemma emits_bind:
  assumes m: "emits P m R" and f: "\<And>x. R x \<Longrightarrow> emits P (f x) Q"
  shows "emits P (sbind m f) Q"
  unfolding emits_def
proof (intro allI impI)
  fix s r s' assume run: "sbind m f s = (r, s')"
  obtain r1 s1 where m1: "m s = (r1, s1)" by fastforce
  obtain l1 where l1: "sv_log s1 = sv_log s @ l1" "list_all P l1" "\<forall>x. r1 = Some (Inr x) \<longrightarrow> R x"
    by (rule emitsD[OF m m1])
  show "(\<exists>l. sv_log s' = sv_log s @ l \<and> list_all P l) \<and> (\<forall>x. r = Some (Inr x) \<longrightarrow> Q x)"
  proof (cases "\<exists>x. r1 = Some (Inr x)")
    case True
    then obtain x where x: "r1 = Some (Inr x)" by blast
    then have fx: "f x s1 = (r, s')" using run m1 by (simp add: sbind_def)
    obtain l2 where "sv_log s' = sv_log s1 @ l2" "list_all P l2" "\<forall>y. r = Some (Inr y) \<longrightarrow> Q y"
      by (rule emitsD[OF f[OF l1(3)[rule_format, OF x]] fx])
    with l1(1,2) show ?thesis by (auto intro: exI[of _ "l1 @ l2"])
  next
    case False
    then have "s' = s1" "\<nexists>x. r = Some (Inr x)"
      using run m1 by (auto simp: sbind_def split: option.splits sum.splits)
    with l1 show ?thesis by auto
  qed
qed

lemma emits_weaken: "emits P m Q \<Longrightarrow> (\<And>x. Q x \<Longrightarrow> Q' x) \<Longrightarrow> emits P m Q'"
  unfolding emits_def by blast

lemma emits_store: "(\<And>r. P (a r)) \<Longrightarrow> emits P (sstore a f) (\<lambda>_. True)"
  unfolding sstore_def by (intro emits_bind[OF emits_call] emits_bind[OF emits_act] emits_ret) auto

lemma emits_for: "(\<And>x. x \<in> set xs \<Longrightarrow> emits P (f x) Q) \<Longrightarrow> emits P (sfor f xs) (list_all Q)"
proof (induction xs)
  case (Cons x xs)
  show ?case
    unfolding sfor.simps
    by (rule emits_bind[OF Cons.prems], simp, rule emits_bind[OF Cons.IH[OF Cons.prems]], simp_all add: emits_ret)
qed (simp add: emits_ret)

lemma emits_filter:
  fixes matches :: "'r \<Rightarrow> filter_match option option"
  assumes "P (A_Outcome IO_Filtered ''inbound_filter'' 1)"
  shows "emits P (sfilter matches rs :: ('w, 'r list) svc) (\<lambda>kept. set kept \<subseteq> set rs)"
proof (induction rs)
  case (Cons r rs)
  let ?rest = "sfilter matches rs :: ('w, 'r list) svc"
  have "emits P ?rest (\<lambda>kept. set kept \<subseteq> set (r # rs))" by (rule emits_weaken[OF Cons.IH]) auto
  moreover have "emits P (record_filtered :: ('w, unit) svc) (\<lambda>_. True)"
    unfolding record_filtered_def by (rule emits_act) (use assms in simp_all)
  moreover have "emits P (sbind ?rest (\<lambda>kept. sret (r # kept))) (\<lambda>kept. set kept \<subseteq> set (r # rs))"
    by (rule emits_bind[OF Cons.IH], rule emits_ret) auto
  ultimately show ?case
    by (auto intro: emits_bind emits_lift_opt split: option.split)
qed (simp add: emits_ret)

lemma emits_if: "(b \<Longrightarrow> emits P m Q) \<Longrightarrow> (\<not> b \<Longrightarrow> emits P n Q) \<Longrightarrow> emits P (if b then m else n) Q"
  by simp

section \<open>Only the authenticated project\<close>

text \<open>What may be handed to a store on behalf of a project.\<close>

definition delta_project :: "project_id \<Rightarrow> metric_delta \<Rightarrow> bool" where
  "delta_project p d = (ms_project_id (dl_series d) = p)"

definition batch_project :: "project_id \<Rightarrow> metric_delta_batch \<Rightarrow> bool" where
  "batch_project p b = (\<forall>d\<in>snd ` set (db_deltas b). delta_project p d)"

definition check_in_project :: "project_id \<Rightarrow> check_in_update \<Rightarrow> bool" where
  "check_in_project p u = (mr_project_id (snd u) = p \<and> (\<forall>d. fst u = Some d \<longrightarrow> md_project_id d = p))"

definition action_for :: "('u, 'w) ingest_env \<Rightarrow> project_snapshot \<Rightarrow> ingest_action \<Rightarrow> bool" where
  "action_for E s a = (let X = signals_of (en_ops E); p = ps_project_id s in case a of
       A_Outcome k reason n \<Rightarrow> True
     | A_Logs rs r \<Rightarrow> \<forall>x\<in>set rs. \<exists>t. log_ok X s t x
     | A_Spans rs r \<Rightarrow> \<forall>x\<in>set rs. \<exists>t. span_ok X s t x
     | A_Sessions us r \<Rightarrow> \<forall>u\<in>set us. su_project_id u = p
     | A_Monitors us r \<Rightarrow> \<forall>u\<in>set us. check_in_project p u
     | A_Metrics b r \<Rightarrow> batch_project p b
     | A_Replay sub r \<Rightarrow> rm_project_id (rs_metadata sub) = p \<and> ReplayMetadata_validate (rs_metadata sub)
     | A_Feedback f r \<Rightarrow> fb_project_id f = p \<and> FeedbackRecord_validate f
     | A_Event ev r \<Rightarrow> ae_project_id ev = p
     | A_Commit key cs r \<Rightarrow> \<exists>e obj. key = BlobKey_event_owned (en_codecs E) p e obj)"

lemma action_for_simps [simp]:
  "action_for E s (A_Outcome k reason n)"
  "action_for E s (A_Event ev r) \<longleftrightarrow> ae_project_id ev = ps_project_id s"
  "action_for E s (A_Feedback f q) \<longleftrightarrow> fb_project_id f = ps_project_id s \<and> FeedbackRecord_validate f"
  "action_for E s (A_Commit key cs b) \<longleftrightarrow> (\<exists>e obj. key = BlobKey_event_owned (en_codecs E) (ps_project_id s) e obj)"
  "action_for E s (A_Metrics m d) \<longleftrightarrow> batch_project (ps_project_id s) m"
  "action_for E s (A_Sessions us w) \<longleftrightarrow> (\<forall>u\<in>set us. su_project_id u = ps_project_id s)"
  "action_for E s (A_Monitors cis w) \<longleftrightarrow> (\<forall>u\<in>set cis. check_in_project (ps_project_id s) u)"
  by (simp_all add: action_for_def Let_def)

text \<open>The acknowledgements of the sinks that decide the durable answer of a request.\<close>

definition acks_of :: "ingest_action \<Rightarrow> durable_outcome list" where
  "acks_of a = (case a of A_Event ev (Some (Inr d)) \<Rightarrow> [d] | A_Feedback f (Some (Inr d)) \<Rightarrow> [d] | _ \<Rightarrow> [])"

lemma acks_of_simps [simp]:
  "acks_of (A_Outcome k reason n) = []" "acks_of (A_Commit key cs b) = []" "acks_of (A_Metrics m d) = []"
  "acks_of (A_Sessions us w) = []" "acks_of (A_Monitors cis w) = []" "acks_of (A_Logs ls w) = []"
  "acks_of (A_Spans ns w) = []" "acks_of (A_Replay p d) = []"
  "acks_of (A_Event ev None) = []" "acks_of (A_Event ev (Some (Inl e))) = []" "acks_of (A_Event ev (Some (Inr o1))) = [o1]"
  "acks_of (A_Feedback f None) = []" "acks_of (A_Feedback f (Some (Inl e'))) = []" "acks_of (A_Feedback f (Some (Inr o1))) = [o1]"
  by (simp_all add: acks_of_def)

definition side_for :: "('u, 'w) ingest_env \<Rightarrow> project_snapshot \<Rightarrow> ingest_action \<Rightarrow> bool" where
  "side_for E s a = (action_for E s a \<and> acks_of a = [])"

lemma side_for_simps [simp]:
  "side_for E s (A_Outcome k reason n)"
  "side_for E s (A_Commit key cs b) \<longleftrightarrow> action_for E s (A_Commit key cs b)"
  "side_for E s (A_Metrics m d) \<longleftrightarrow> action_for E s (A_Metrics m d)"
  "side_for E s (A_Sessions us w) \<longleftrightarrow> action_for E s (A_Sessions us w)"
  "side_for E s (A_Monitors cis w) \<longleftrightarrow> action_for E s (A_Monitors cis w)"
  "side_for E s (A_Logs ls w) \<longleftrightarrow> action_for E s (A_Logs ls w)"
  "side_for E s (A_Spans ns w) \<longleftrightarrow> action_for E s (A_Spans ns w)"
  "side_for E s (A_Replay p d) \<longleftrightarrow> action_for E s (A_Replay p d)"
  by (simp_all add: side_for_def)

lemma session_fields_project: "session_fields X s t payload = Inr (u, user) \<Longrightarrow> su_project_id u = ps_project_id s"
  by (auto simp: session_fields_def and_then_eq_Inr Let_def split: if_splits)

lemma session_project: "normalize_session X s t payload = Some (Inr u) \<Longrightarrow> su_project_id u = ps_project_id s"
  by (auto simp: normalize_session_def and_then_eq_Inr Let_def dest: session_fields_project split: sum.splits prod.splits)

lemma definition_project:
  "normalize_monitor_definition X s t i slug env v = Inr d \<Longrightarrow> md_project_id d = ps_project_id s"
  by (auto simp: normalize_monitor_definition_def and_then_eq_Inr Let_def split: if_splits)

lemma check_in_project_ok:
  assumes "normalize_check_in X s t payload c = Inr u"
  shows "check_in_project (ps_project_id s) u"
proof -
  have "md_project_id d = ps_project_id s"
    if "transpose_opt (map_option (normalize_monitor_definition X s t i slug env) v) = Inr (Some d)" for i slug env v d
    using that definition_project by (cases v) (auto simp: transpose_opt_def split: sum.splits)
  with assms show ?thesis
    unfolding normalize_check_in_def check_in_project_def
    by (auto simp: and_then_eq_Inr Let_def split: if_split_asm)
qed

lemma bt_insert_values: "snd ` set (bt_insert k v m) \<subseteq> insert v (snd ` set m)"
  using image_mono[OF bt_insert_subset[of k v m], of snd] by simp

lemma insert_project:
  assumes "\<forall>e\<in>snd ` set m. delta_project p e" "delta_project p d"
  shows "\<forall>e\<in>snd ` set (bt_insert k d m). delta_project p e"
proof
  fix e assume "e \<in> snd ` set (bt_insert k d m)"
  then have "e \<in> insert d (snd ` set m)" by (rule subsetD[OF bt_insert_values])
  then show "delta_project p e" using assms by blast
qed

lemma push_delta_project:
  assumes "\<forall>e\<in>snd ` set m. delta_project p e" "delta_project p d"
  shows "\<forall>e\<in>snd ` set (push_delta blake3 F d m). delta_project p e"
proof (cases "map_of m (delta_key blake3 d)")
  case None
  then have "push_delta blake3 F d m = bt_insert (delta_key blake3 d) d m" by (simp add: push_delta_def)
  then show ?thesis using insert_project[OF assms] by (simp only:)
next
  case (Some e)
  have "e \<in> snd ` set m" using imageI[OF map_of_SomeD[OF Some], of snd] by simp
  then have e: "delta_project p e" using assms(1) by blast
  show ?thesis
  proof (cases "MetricAggregate_merge F (dl_aggregate e) (dl_aggregate d)")
    case None
    then have "push_delta blake3 F d m = m" using Some by (simp add: push_delta_def)
    then show ?thesis using assms(1) by (simp only:)
  next
    case (Some a)
    define e' where "e' = e\<lparr>dl_aggregate := a, dl_received_at := dl_received_at d,
      dl_trace_id := opt_or (dl_trace_id d) (dl_trace_id e)\<rparr>"
    have "delta_project p e'" using e by (simp add: e'_def delta_project_def)
    note ins = insert_project[OF assms(1) this, of "delta_key blake3 d"]
    have "push_delta blake3 F d m = bt_insert (delta_key blake3 d) e' m"
      using \<open>map_of m (delta_key blake3 d) = Some e\<close> Some by (simp add: push_delta_def e'_def)
    then show ?thesis using ins by (simp only:)
  qed
qed

lemma push_project:
  assumes "batch_project p b" "delta_project p d"
  shows "batch_project p (MetricDeltaBatch_push blake3 F d b)"
proof -
  have eq: "db_deltas (MetricDeltaBatch_push blake3 F d b) = push_delta blake3 F d (db_deltas b)"
    by (simp add: MetricDeltaBatch_push_def)
  show ?thesis unfolding batch_project_def eq by (rule push_delta_project[OF assms[unfolded batch_project_def]])
qed

lemma pushes_project:
  "batch_project p b \<Longrightarrow> \<forall>d\<in>set ds. delta_project p d \<Longrightarrow>
   batch_project p (foldl (\<lambda>b d. MetricDeltaBatch_push blake3 F d b) b ds)"
  by (induction ds arbitrary: b) (simp_all add: push_project)

lemma batch_project_counts:
  "batch_project p (b\<lparr>db_discarded_measurements := x\<rparr>) = batch_project p b"
  "batch_project p (b\<lparr>db_source_measurements := x\<rparr>) = batch_project p b"
  by (simp_all add: batch_project_def)

lemma merge_project:
  assumes "batch_project p b" "batch_project p b'"
  shows "batch_project p (MetricDeltaBatch_merge blake3 F b b')"
  unfolding MetricDeltaBatch_merge_def
  by (rule pushes_project) (use assms in \<open>simp_all add: batch_project_def\<close>)

lemma fold_measurement_project:
  assumes "batch_project (ps_project_id s) b"
  shows "batch_project (ps_project_id s) (fold_measurement X F s t c b v)"
proof (cases "normalize_metric_measurement X F s t c v")
  case None
  then show ?thesis using assms by (simp add: fold_measurement_def Let_def batch_project_counts)
next
  case (Some d)
  have "delta_project (ps_project_id s) d"
    using measurement_shapeI[OF Some] by (simp add: measurement_shape_def delta_project_def)
  then show ?thesis using assms Some by (simp add: fold_measurement_def Let_def push_project batch_project_counts)
qed

lemma container_project:
  assumes "fold_metric_container entries X F s t raw c = Inr b"
  shows "batch_project (ps_project_id s) b"
proof -
  have "batch_project (ps_project_id s) (foldl (fold_measurement X F s t c) b vs)" if "batch_project (ps_project_id s) b" for b vs
    using that by (induction vs arbitrary: b) (simp_all add: fold_measurement_project)
  moreover have "batch_project (ps_project_id s) MetricDeltaBatch_default"
    by (simp add: batch_project_def MetricDeltaBatch_default_def)
  ultimately show ?thesis
    using assms by (auto simp: fold_metric_container_def ok_or_def split: if_splits option.splits)
qed

lemma containers_project:
  "fold_containers m E s t b cs = Inr b' \<Longrightarrow> batch_project (ps_project_id s) b \<Longrightarrow> batch_project (ps_project_id s) b'"
  by (induction m E s t b cs rule: fold_containers.induct)
    (auto simp: and_then_eq_Inr split: if_splits dest: container_project intro: merge_project)

definition signal_parts_ok :: "('u, 'w) ingest_env \<Rightarrow> project_snapshot \<Rightarrow> timestamp \<Rightarrow> signal_parts \<Rightarrow> bool" where
  "signal_parts_ok E s t g = ((\<forall>x\<in>set (gp_logs g). log_ok (signals_of (en_ops E)) s t x)
     \<and> (\<forall>x\<in>set (gp_spans g). span_ok (signals_of (en_ops E)) s t x)
     \<and> (\<forall>u\<in>set (gp_sessions g). su_project_id u = ps_project_id s))"

lemma no_parts_ok:
  "signal_parts_ok E s t (no_parts\<lparr>gp_disabled := ds\<rparr>)"
  "signal_parts_ok E s t (no_parts\<lparr>gp_logs := ls\<rparr>) \<longleftrightarrow> (\<forall>x\<in>set ls. log_ok (signals_of (en_ops E)) s t x)"
  "signal_parts_ok E s t (no_parts\<lparr>gp_spans := ns\<rparr>) \<longleftrightarrow> (\<forall>x\<in>set ns. span_ok (signals_of (en_ops E)) s t x)"
  "signal_parts_ok E s t (no_parts\<lparr>gp_sessions := us\<rparr>) \<longleftrightarrow> (\<forall>u\<in>set us. su_project_id u = ps_project_id s)"
  by (simp_all add: signal_parts_ok_def no_parts_def)

lemma emits_disabled: "emits (side_for E s) (feature_disabled n) (\<lambda>_. True)"
  unfolding feature_disabled_def by (rule emits_act) simp_all

lemma emits_converted:
  assumes "\<And>rs. r = Inr rs \<Longrightarrow> \<forall>x\<in>set rs. good x" "\<And>kept. \<forall>x\<in>set kept. good x \<Longrightarrow> Q (wrap kept)"
  shows "emits (side_for E s) (sbind (slift r) (\<lambda>rs. sbind (sfilter matches rs) (\<lambda>kept. sret (wrap kept)))) Q"
proof (rule emits_bind[where R = "\<lambda>rs. \<forall>x\<in>set rs. good x"])
  show "emits (side_for E s) (slift r) (\<lambda>rs. \<forall>x\<in>set rs. good x)" by (rule emits_lift) (rule assms(1))
next
  fix rs assume rs: "\<forall>x\<in>set rs. good x"
  show "emits (side_for E s) (sbind (sfilter matches rs) (\<lambda>kept. sret (wrap kept))) Q"
  proof (rule emits_bind[OF emits_filter])
    fix kept assume "set kept \<subseteq> set rs"
    with rs have "\<forall>x\<in>set kept. good x" by blast
    then show "emits (side_for E s) (sret (wrap kept)) Q" by (intro emits_ret assms(2))
  qed simp
qed

lemma emits_convert_signal: "emits (side_for E s) (convert_signal E s t sig) (signal_parts_ok E s t)"
proof -
  have disabled: "emits (side_for E s) (sbind (feature_disabled n) (\<lambda>_. sret (no_parts\<lparr>gp_disabled := ds\<rparr>))) (signal_parts_ok E s t)" for n ds
    by (rule emits_bind[OF emits_disabled], rule emits_ret) (rule no_parts_ok)
  show ?thesis
    unfolding convert_signal_def Let_def
    using normalize_logs_ok[of "signals_of (en_ops E)" s t "pg_raw_json sig"]
      normalize_spans_ok[of "signals_of (en_ops E)" s t "pg_raw_json sig"]
      normalize_transaction_ok[of "signals_of (en_ops E)" s t "pg_raw_json sig"]
    by (cases "pg_kind sig")
      (auto simp: emits_fail disabled no_parts_ok
        intro!: emits_if emits_converted[where good = "log_ok (signals_of (en_ops E)) s t"]
          emits_converted[where good = "span_ok (signals_of (en_ops E)) s t"]
          emits_bind[OF emits_lift_opt[OF session_project]] emits_ret)
qed

lemma emits_sink_list:
  assumes "\<And>r. rs \<noteq> [] \<Longrightarrow> side_for E s (a rs r)"
  shows "emits (side_for E s) (sink_list present missing err reason a store rs) (\<lambda>_. True)"
  unfolding sink_list_def
  by (intro emits_if emits_ret emits_fail emits_bind[OF emits_store] emits_bind[OF emits_lift] emits_act)
    (use assms in simp_all)

lemma emits_signals: "emits (side_for E s) (service_persist_signals c E s sigs) (\<lambda>_. True)"
proof -
  have "emits (side_for E s)
      (sbind (sink_list b1 m1 e1 r1 A_Logs f1 (concat (map gp_logs parts))) (\<lambda>_.
       sbind (sink_list b2 m2 e2 r2 A_Spans f2 (concat (map gp_spans parts))) (\<lambda>_.
       sbind (sink_list b3 m3 e3 r3 A_Sessions f3 (concat (map gp_sessions parts))) (\<lambda>_. sret d)))) (\<lambda>_. True)"
    if "list_all (signal_parts_ok E s t) parts" for b1 m1 e1 r1 f1 b2 m2 e2 r2 f2 b3 m3 e3 r3 f3 d t parts
  proof -
    have "\<forall>x\<in>set (concat (map gp_logs parts)). log_ok (signals_of (en_ops E)) s t x"
      "\<forall>x\<in>set (concat (map gp_spans parts)). span_ok (signals_of (en_ops E)) s t x"
      "\<forall>u\<in>set (concat (map gp_sessions parts)). su_project_id u = ps_project_id s"
      using that by (auto simp: list_all_iff signal_parts_ok_def)
    then have "action_for E s (A_Logs (concat (map gp_logs parts)) r)" "action_for E s (A_Spans (concat (map gp_spans parts)) r)"
      "action_for E s (A_Sessions (concat (map gp_sessions parts)) r)" for r
      unfolding action_for_def Let_def ingest_action.case by blast+
    then show ?thesis by (intro emits_bind[OF emits_sink_list] emits_ret) simp_all
  qed
  then show ?thesis
    unfolding service_persist_signals_def Let_def
    by (intro emits_if emits_ret emits_bind[OF emits_call[where Q = "\<lambda>_. True"]] emits_bind[OF emits_for[OF emits_convert_signal]]) auto
qed

lemma emits_check_ins: "emits (side_for E s) (persist_check_ins c E s cis) (\<lambda>_. True)"
proof -
  have one: "emits (side_for E s) (convert_check_in c E s t x) (check_in_project (ps_project_id s))" for t x
    unfolding convert_check_in_def
    by (intro emits_if emits_fail emits_bind[OF emits_admit[where Q = "\<lambda>_. True"]] emits_lift) (auto intro: check_in_project_ok)
  show ?thesis
    unfolding persist_check_ins_def Let_def
    by (intro emits_if emits_ret emits_fail emits_bind[OF emits_disabled] emits_bind[OF emits_call] emits_bind[OF emits_for[OF one]]
        emits_bind[OF emits_store] emits_bind[OF emits_lift] emits_bind[OF emits_if[OF emits_act emits_ret]])
      (auto simp: list_all_iff)
qed

lemma emits_metrics: "emits (side_for E s) (service_persist_metrics c E s cs) (\<lambda>_. True)"
proof -
  have "batch_project (ps_project_id s) MetricDeltaBatch_default"
    by (simp add: batch_project_def MetricDeltaBatch_default_def)
  then have fold: "batch_project (ps_project_id s) b" if "fold_containers m E s t MetricDeltaBatch_default cs = Inr b" for m t b
    using containers_project[OF that] by blast
  show ?thesis
    unfolding service_persist_metrics_def
    by (intro emits_if emits_ret emits_fail emits_bind[OF emits_disabled] emits_bind[OF emits_call] emits_bind[OF emits_lift[OF fold]]
        emits_bind[OF emits_if[OF emits_act emits_ret]] emits_bind[OF emits_store] emits_bind[OF emits_lift] emits_bind[OF emits_act])
      auto
qed

lemma emits_replays: "emits (side_for E s) (persist_replays c E s rs) (\<lambda>_. True)"
proof -
  have "emits (side_for E s) (persist_replay c E s t r) (\<lambda>_. True)" for t r
    unfolding persist_replay_def
    by (intro emits_bind[OF emits_lift[OF normalize_replay_limits]] emits_bind[OF emits_store] emits_bind[OF emits_lift] emits_act)
      (auto simp: action_for_def Let_def)
  then show ?thesis
    unfolding persist_replays_def
    by (intro emits_if emits_ret emits_fail emits_bind[OF emits_disabled] emits_bind[OF emits_call[where Q = "\<lambda>_. True"]]
        emits_bind[OF emits_for[where Q = "\<lambda>_. True"]]) auto
qed

lemma emits_unsupported: "emits (side_for E s) (unsupported reason n) (\<lambda>_. True)"
  unfolding unsupported_def by (rule emits_act) simp_all

lemma emits_record_filtered: "emits (side_for E s) record_filtered (\<lambda>_. True)"
  unfolding record_filtered_def by (rule emits_act) simp_all

lemma emits_signalled: "emits P (signalled E racing) (\<lambda>_. True)"
  unfolding signalled_def by (intro emits_if emits_call emits_ret) simp_all

lemma emits_map_err: "emits P (sbind (scall f) (\<lambda>r. slift (map_err err r))) (\<lambda>_. True)"
  by (intro emits_bind[OF emits_call[where Q = "\<lambda>_. True"]] emits_lift) simp_all

lemma emits_write_chunks: "emits P (write_chunks E writer cs) (\<lambda>_. True)"
  unfolding write_chunks_def by (intro emits_bind[OF emits_for[OF emits_map_err]] emits_ret) simp

lemma emits_commit:
  assumes "\<And>r. P (A_Commit key cs r)"
  shows "emits P (commit_blob E writer key cs) (\<lambda>_. True)"
  unfolding commit_blob_def by (intro emits_bind[OF emits_store] emits_lift) (simp_all add: assms)

lemma commit_owned [simp]: "\<exists>e obj. BlobKey_event_owned C p event_id x = BlobKey_event_owned C p e obj"
  by blast

lemma emits_attachment: "emits (side_for E s) (persist_attachment c E s event_id png a) (\<lambda>_. True)"
  unfolding persist_attachment_def Let_def
  by (rule emits_bind[OF emits_lift[where Q = "\<lambda>_. True"]], simp, split option.split)
    (auto intro!: emits_ret emits_fail emits_if emits_bind[OF emits_call[where Q = "\<lambda>_. True"]] emits_bind[OF emits_map_err]
      emits_bind[OF emits_write_chunks] emits_bind[OF emits_commit] emits_bind[OF emits_lift[where Q = "\<lambda>_. True"]])

lemma emits_attachments: "emits (side_for E s) (persist_attachments c E s event_id as png) (\<lambda>_. True)"
  unfolding persist_attachments_def
  by (intro emits_if emits_ret emits_fail emits_bind[OF emits_for[OF emits_attachment]]) simp_all

lemma emits_drop: "emits (side_for E s) (drop_attachments reason p cs) (\<lambda>_. True)"
  unfolding drop_attachments_def by (intro emits_if emits_ret emits_bind[OF emits_unsupported]) simp_all

lemma emits_side_items: "emits (side_for E s) (ingest_side_items c E rq s) (\<lambda>_. True)"
  unfolding ingest_side_items_def Let_def
  by (intro emits_bind[OF emits_for[OF emits_unsupported]] emits_bind[OF emits_if[OF emits_unsupported emits_ret]]
      emits_bind[OF emits_signals] emits_bind[OF emits_metrics] emits_bind[OF emits_replays] emits_bind[OF emits_check_ins] emits_ret)
    simp_all

section \<open>The durable answer\<close>

text \<open>
  \<open>answers P m D\<close>: besides what \<open>emits P\<close> says, the acknowledgements in the log are exactly those in the value, and a
  step without value has none.
\<close>

definition answers :: "(ingest_action \<Rightarrow> bool) \<Rightarrow> ('w, 'a) svc \<Rightarrow> ('a \<Rightarrow> durable_outcome option) \<Rightarrow> bool" where
  "answers P m D = (\<forall>s r s'. m s = (r, s') \<longrightarrow> (\<exists>l. sv_log s' = sv_log s @ l \<and> list_all P l
     \<and> concat (map acks_of l) = (case r of Some (Inr x) \<Rightarrow> (case D x of None \<Rightarrow> [] | Some d \<Rightarrow> [d]) | _ \<Rightarrow> [])))"

lemma side_no_acks: "list_all (side_for E s) l \<Longrightarrow> concat (map acks_of l) = [] \<and> list_all (action_for E s) l"
  by (induction l) (simp_all add: side_for_def)

lemma answers_quiet:
  assumes "emits (side_for E p) m (\<lambda>x. D x = None)"
  shows "answers (action_for E p) m D"
  unfolding answers_def
proof (intro allI impI)
  fix s r s' assume "m s = (r, s')"
  then obtain l where l: "sv_log s' = sv_log s @ l" "list_all (side_for E p) l" "\<forall>x. r = Some (Inr x) \<longrightarrow> D x = None"
    by (rule emitsD[OF assms])
  then have "(case r of Some (Inr x) \<Rightarrow> (case D x of None \<Rightarrow> [] | Some d \<Rightarrow> [d]) | _ \<Rightarrow> []) = []"
    by (auto split: option.split sum.split)
  with l side_no_acks[OF l(2)] show "\<exists>l. sv_log s' = sv_log s @ l \<and> list_all (action_for E p) l
     \<and> concat (map acks_of l) = (case r of Some (Inr x) \<Rightarrow> (case D x of None \<Rightarrow> [] | Some d \<Rightarrow> [d]) | _ \<Rightarrow> [])"
    by (intro exI[of _ l]) simp
qed

lemma answers_bind:
  assumes m: "emits (side_for E p) m R" and f: "\<And>x. R x \<Longrightarrow> answers (action_for E p) (f x) D"
  shows "answers (action_for E p) (sbind m f) D"
  unfolding answers_def
proof (intro allI impI)
  fix s r s' assume run: "sbind m f s = (r, s')"
  obtain r1 s1 where m1: "m s = (r1, s1)" by fastforce
  obtain l1 where l1: "sv_log s1 = sv_log s @ l1" "list_all (side_for E p) l1" "\<forall>x. r1 = Some (Inr x) \<longrightarrow> R x"
    by (rule emitsD[OF m m1])
  note quiet = side_no_acks[OF l1(2)]
  show "\<exists>l. sv_log s' = sv_log s @ l \<and> list_all (action_for E p) l
     \<and> concat (map acks_of l) = (case r of Some (Inr x) \<Rightarrow> (case D x of None \<Rightarrow> [] | Some d \<Rightarrow> [d]) | _ \<Rightarrow> [])"
  proof (cases "\<exists>x. r1 = Some (Inr x)")
    case True
    then obtain x where x: "r1 = Some (Inr x)" by blast
    then have fx: "f x s1 = (r, s')" using run m1 by (simp add: sbind_def)
    obtain l2 where l2: "sv_log s' = sv_log s1 @ l2" "list_all (action_for E p) l2"
      "concat (map acks_of l2) = (case r of Some (Inr x) \<Rightarrow> (case D x of None \<Rightarrow> [] | Some d \<Rightarrow> [d]) | _ \<Rightarrow> [])"
      using f[OF l1(3)[rule_format, OF x], unfolded answers_def, rule_format, OF fx] by blast
    show ?thesis using l1(1) quiet l2 by (intro exI[of _ "l1 @ l2"]) (simp only: append_assoc list_all_append map_append concat_append append_Nil)
  next
    case False
    then have "s' = s1" "\<nexists>x. r = Some (Inr x)"
      using run m1 by (auto simp: sbind_def split: option.splits sum.splits)
    then have "(case r of Some (Inr x) \<Rightarrow> (case D x of None \<Rightarrow> [] | Some d \<Rightarrow> [d]) | _ \<Rightarrow> []) = []"
      by (auto split: option.split sum.split)
    with \<open>s' = s1\<close> l1(1) quiet show ?thesis by (intro exI[of _ l1]) simp
  qed
qed

lemma answers_if:
  "(b \<Longrightarrow> answers P m D) \<Longrightarrow> (\<not> b \<Longrightarrow> answers P n D) \<Longrightarrow> answers P (if b then m else n) D"
  by simp

lemma answers_fail: "answers P (sfail e) D"
  by (simp add: answers_def sfail_def)

text \<open>The guarded call acknowledges exactly what it returns.\<close>

lemma answers_durable_store:
  assumes "\<And>q. action_for E p (a q)" "\<And>q. acks_of (a q) = (case q of Some (Inr d) \<Rightarrow> [d] | _ \<Rightarrow> [])"
    and "\<And>d. D (g d) = Some d"
  shows "answers (action_for E p) (sbind (sact (a (Some r))) (\<lambda>_. sbind (slift (map_err err r)) (\<lambda>d.
    sbind (sact (A_Outcome (durable_kind d) reason 1)) (\<lambda>_. sret (g d))))) D"
  by (cases r) (auto simp: answers_def sbind_def sact_def slift_def sret_def map_err_def assms)

lemma sbind_assoc: "sbind (sbind m f) h = sbind m (\<lambda>x. sbind (f x) h)"
  by (rule ext) (simp add: sbind_def split: prod.split option.split sum.split)

lemma sbind_simps:
  "sbind (sret x) f = f x"
  "sbind (sfail e) f = sfail e"
  "sbind (if b then m else n) f = (if b then sbind m f else sbind n f)"
  by (rule ext, simp add: sbind_def sret_def sfail_def)+

lemma answers_durable_call:
  assumes "\<And>q. action_for E p (a q)" "\<And>q. acks_of (a q) = (case q of Some (Inr d) \<Rightarrow> [d] | _ \<Rightarrow> [])"
    and "\<And>d. D (g d) = Some d"
  shows "answers (action_for E p) (sbind (durable_call E' racing a f err reason) (\<lambda>d. sret (g d))) D"
proof -
  have lost: "answers (action_for E p) (sbind (sact (a None)) (\<lambda>_. sfail shutting_down)) D"
    by (rule answers_bind[OF emits_act answers_fail[of "action_for E p"], where R = "\<lambda>_. True"]) (simp_all add: side_for_def assms)
  show ?thesis
    unfolding durable_call_def sbind_assoc sbind_simps
    by (intro answers_bind[OF emits_call[where Q = "\<lambda>_. True"]] answers_bind[OF emits_signalled] answers_if answers_fail lost
        answers_durable_store) (simp_all add: assms)
qed

lemma feedback_project: "normalize_feedback X s pr e t fc = Inr f \<Longrightarrow> fb_project_id f = ps_project_id s"
  by (auto simp: normalize_feedback_def and_then_eq_Inr Let_def split: if_splits)

lemma answers_feedback: "answers (action_for E s) (ingest_feedback c E s primary env as cs) ir_durable"
proof -
  have store: "answers (action_for E s) (sbind (durable_call E True (A_Feedback f) (en_persist_feedback E f) map_feedback_store_error ''feedback'')
      (\<lambda>d. sret \<lparr>ir_event_id = i, ir_durable = Some d, ir_disabled_categories = cs\<rparr>)) ir_durable"
    if "fb_project_id f = ps_project_id s" "FeedbackRecord_validate f" for f i cs
    by (rule answers_durable_call) (simp_all add: that acks_of_def)
  show ?thesis
    unfolding ingest_feedback_def Let_def
    by (intro answers_if answers_fail store
        answers_bind[OF emits_lift[where r = "validate_feedback_attachment_limits as (sc_feedback c)" and Q = "\<lambda>_. True"]]
        answers_bind[OF emits_call[where Q = "\<lambda>_. True"]] answers_bind[OF emits_lift[OF feedback_project]] answers_bind[OF emits_admit[where Q = "\<lambda>_. True"]]
        answers_bind[OF emits_attachments] answers_bind[OF emits_drop] answers_quiet emits_bind[OF emits_unsupported] emits_ret) auto
qed

lemma answers_none:
  assumes "emits (side_for E s) m (\<lambda>_. True)"
  shows "answers (action_for E s) (sbind m (\<lambda>_. sret \<lparr>ir_event_id = i, ir_durable = None, ir_disabled_categories = cs\<rparr>)) ir_durable"
  by (rule answers_quiet, rule emits_bind[OF assms]) (simp add: emits_ret)

lemma answers_stored_event:
  assumes "ae_project_id ev = ps_project_id s"
  shows "answers (action_for E s) (sbind (durable_call E' racing (A_Event ev) f err reason)
    (\<lambda>d. sret \<lparr>ir_event_id = i, ir_durable = Some d, ir_disabled_categories = cs\<rparr>)) ir_durable"
  by (rule answers_durable_call) (simp_all add: assms acks_of_def)

lemma answers_persist_event: "answers (action_for E s) (persist_event c E s i payload as cs) ir_durable"
  unfolding persist_event_def Let_def
  by (intro answers_stored_event answers_bind[OF emits_attachments] answers_bind[OF emits_drop]
      answers_bind[OF emits_call[where Q = "\<lambda>_. True"]]
      answers_bind[OF emits_if[OF emits_ret[where Q = "\<lambda>_. True"] emits_lift]]) simp_all

lemma answers_event: "answers (action_for E s) (ingest_event c E s primary env as cs) ir_durable"
  unfolding ingest_event_def
  by (intro answers_if answers_none emits_unsupported answers_bind[OF emits_lift_opt[where Q = "\<lambda>_. True"]])
    (auto intro: answers_none emits_record_filtered answers_persist_event split: validated_primary_event.split)

lemma answers_primary: "answers (action_for E s) (ingest_primary c E rq s cs) ir_durable"
proof (cases "rq_primary rq")
  case None
  have "emits (side_for E s) (if rq_attachments rq \<noteq> [] then unsupported ''attachment_without_event'' (length (rq_attachments rq))
      else sret ()) (\<lambda>_. True)"
    by (intro emits_if emits_unsupported emits_ret) simp
  with None show ?thesis
    unfolding ingest_primary_def by (simp only: option.case) (intro answers_quiet emits_bind emits_ret, simp_all)
next
  case (Some primary)
  then show ?thesis
    unfolding ingest_primary_def
    by (simp only: option.case)
      (intro answers_if answers_fail answers_feedback answers_event answers_bind[OF emits_lift[where Q = "\<lambda>_. True"]], simp)
qed

section \<open>Requests of one project\<close>

text \<open>The project of a request: the one its key resolves to, active and consistent with the path and the DSN.\<close>

definition authorised :: "('u, 'w) ingest_env \<Rightarrow> dsn_key list \<Rightarrow> nat \<Rightarrow> nat option \<Rightarrow> project_snapshot \<Rightarrow> bool" where
  "authorised E keys path dsn snapshot = (\<exists>key w wire w'. one_auth_key keys = Inr key
     \<and> en_resolve E key w = (Inr (snapshot, wire), w') \<and> validate_project_consistency path dsn snapshot wire = Inr ())"

lemma scall_resolve: "emits (\<lambda>_. False) (scall (en_resolve E key)) (\<lambda>r. \<exists>w w'. en_resolve E key w = (r, w'))"
  by (auto simp: emits_def scall_def split: prod.splits)

lemma emits_sresolve:
  "emits (\<lambda>_. False) (sresolve E racing key) (\<lambda>(snapshot, wire). \<exists>w w'. en_resolve E key w = (Inr (snapshot, wire), w'))"
  unfolding sresolve_def
  by (intro emits_bind[OF emits_signalled] emits_if emits_fail emits_bind[OF scall_resolve] emits_lift)
    (auto simp: map_err_eq)

lemma emits_authenticate: "emits (\<lambda>_. False) (authenticate E racing keys path dsn) (authorised E keys path dsn)"
proof -
  have key: "emits (\<lambda>_. False) (slift (one_auth_key keys)) (\<lambda>key. one_auth_key keys = Inr key)"
    by (rule emits_lift)
  have consistent: "emits (\<lambda>_. False) (slift (validate_project_consistency path dsn s wire))
      (\<lambda>_. validate_project_consistency path dsn s wire = Inr ())" for s wire
    by (rule emits_lift) simp
  show ?thesis
    unfolding authenticate_def
    by (intro emits_bind[OF emits_call[where Q = "\<lambda>_. True"]] emits_if emits_fail emits_bind[OF key] emits_bind[OF emits_sresolve])
      (auto intro!: emits_bind[OF consistent] emits_ret simp del: split_paired_Ex, unfold authorised_def, blast)
qed

lemma authenticate_log:
  assumes "authenticate E racing keys path dsn s = (r, s')"
  shows "sv_log s' = sv_log s" "r = Some (Inr snapshot) \<Longrightarrow> authorised E keys path dsn snapshot"
proof -
  obtain l where l: "sv_log s' = sv_log s @ l" "list_all (\<lambda>_. False) l"
    "\<forall>x. r = Some (Inr x) \<longrightarrow> authorised E keys path dsn x"
    by (rule emitsD[OF emits_authenticate assms])
  then show "sv_log s' = sv_log s" by (cases l) simp_all
  show "r = Some (Inr snapshot) \<Longrightarrow> authorised E keys path dsn snapshot" using l(3) by simp
qed

text \<open>What the answer of an entry point says about the log of its run.\<close>

definition answered_for ::
  "('u, 'w) ingest_env \<Rightarrow> dsn_key list \<Rightarrow> nat \<Rightarrow> nat option \<Rightarrow> 'w service_state \<Rightarrow> (ingest_error + ingest_result) option
    \<Rightarrow> 'w service_state \<Rightarrow> bool" where
  "answered_for E keys path dsn s r s' = (\<exists>l. sv_log s' = sv_log s @ l
     \<and> (l \<noteq> [] \<longrightarrow> (\<exists>snapshot. authorised E keys path dsn snapshot \<and> list_all (action_for E snapshot) l))
     \<and> concat (map acks_of l) = (case r of Some (Inr x) \<Rightarrow> (case ir_durable x of None \<Rightarrow> [] | Some d \<Rightarrow> [d]) | _ \<Rightarrow> []))"

lemma answered_forI:
  assumes run: "sbind (authenticate E racing keys path dsn) f s = (r, s')"
    and f: "\<And>snapshot. answers (action_for E snapshot) (f snapshot) ir_durable"
  shows "answered_for E keys path dsn s r s'"
proof -
  obtain r1 s1 where a: "authenticate E racing keys path dsn s = (r1, s1)" by fastforce
  note log = authenticate_log[OF a]
  show ?thesis
  proof (cases "\<exists>x. r1 = Some (Inr x)")
    case True
    then obtain x where x: "r1 = Some (Inr x)" by blast
    then have fx: "f x s1 = (r, s')" using run a by (simp add: sbind_def)
    with f[of x, unfolded answers_def, rule_format, OF fx] log(1) log(2)[OF x] show ?thesis
      unfolding answered_for_def by auto
  next
    case False
    then have "s' = s1" "\<nexists>x. r = Some (Inr x)"
      using run a by (auto simp: sbind_def split: option.splits sum.splits)
    then show ?thesis using log(1)
      unfolding answered_for_def by (intro exI[of _ "[]"]) (auto split: option.split sum.split)
  qed
qed

lemma ingest_answered:
  assumes "ingest c E rq s = (r, s')"
  shows "answered_for E (rq_auth_keys rq) (rq_path_project_id rq) (rq_dsn_project_id rq) s r s'"
  by (rule answered_forI[OF assms[unfolded ingest_def]]) (rule answers_bind[OF emits_side_items answers_primary])

lemma emits_copy_minidump:
  "emits P (copy_minidump m E writer failure chunks header n written) (\<lambda>_. True)"
proof (induction m E writer failure chunks header n written rule: copy_minidump.induct)
  case (1 m E writer failure header n written)
  then show ?case by (auto intro: emits_fail emits_ret split: option.split)
next
  case (2 m E writer failure chunk rest header n written)
  show ?case
    unfolding copy_minidump.simps
    by (intro emits_if emits_fail emits_bind[OF emits_map_err] 2 emits_bind[OF emits_call[where Q = "\<lambda>_. True"]]
        emits_bind[OF emits_lift[where Q = "\<lambda>_. True"]]) simp_all
qed

lemma answers_persist_minidump: "answers (action_for E s) (persist_minidump c E rq source s) ir_durable"
  unfolding persist_minidump_def Let_def
  by (intro answers_bind[OF emits_call[where Q = "\<lambda>_. True"]] answers_bind[OF emits_map_err] answers_bind[OF emits_copy_minidump])
    (auto intro!: answers_bind[OF emits_lift[where Q = "\<lambda>_. True"]] answers_bind[OF emits_commit] answers_fail answers_stored_event)

lemma minidump_answered:
  assumes "ingest_minidump c E rq source s = (r, s')"
  shows "answered_for E (mq_auth_keys rq) (mq_path_project_id rq) (mq_dsn_project_id rq) s r s'"
proof (rule answered_forI[OF assms[unfolded ingest_minidump_def Let_def]])
  fix p
  have "answers (action_for E p) (sret \<lparr>ir_event_id = i, ir_durable = None, ir_disabled_categories = cs\<rparr>) ir_durable" for i cs
    by (rule answers_quiet) (simp add: emits_ret)
  then show "answers (action_for E p)
      (if \<not> mdc_enabled (sc_minidumps c)
       then sbind (unsupported ''minidump_disabled'' 1)
         (\<lambda>_. sret \<lparr>ir_event_id = mq_supplied_event_id rq, ir_durable = None, ir_disabled_categories = [''error'']\<rparr>)
       else if \<not> cap_error (ps_items p)
       then sret \<lparr>ir_event_id = mq_supplied_event_id rq, ir_durable = None, ir_disabled_categories = [''error'']\<rparr>
       else if \<not> sc_has_blob_store c then sfail (IngestError_unavailable ''blob_storage_unavailable'')
       else persist_minidump c E rq source p) ir_durable"
    by (intro answers_if answers_none emits_unsupported answers_fail answers_persist_minidump) simp_all
qed

section \<open>Stored minidumps\<close>

lemma sbind_InrE:
  assumes "sbind m f s = (Some (Inr x), s')"
  obtains y s1 where "m s = (Some (Inr y), s1)" "f y s1 = (Some (Inr x), s')"
  using assms by (auto simp: sbind_def split: prod.splits option.splits sum.splits)

lemma sbind_Inr_iff:
  "sbind m f s = (Some (Inr x), s') \<longleftrightarrow> (\<exists>y s1. m s = (Some (Inr y), s1) \<and> f y s1 = (Some (Inr x), s'))"
  by (auto simp: sbind_def split: prod.splits option.splits sum.splits)

lemma step_Inr_iff:
  "sret y s = (Some (Inr x), s') \<longleftrightarrow> x = y \<and> s' = s"
  "sfail e s = (Some (Inr x), s') \<longleftrightarrow> False"
  "slift r s = (Some (Inr x), s') \<longleftrightarrow> r = Inr x \<and> s' = s"
  "sact a s = (Some (Inr u), s') \<longleftrightarrow> s' = s\<lparr>sv_log := sv_log s @ [a]\<rparr>"
  by (auto simp: sret_def sfail_def slift_def sact_def)

lemma scall_log: "scall f s = (Some (Inr r), s') \<Longrightarrow> sv_log s' = sv_log s"
  by (auto simp: scall_def split: prod.splits)

lemma copied_minidump:
  assumes "copy_minidump m E writer failure chunks header n written s = (Some (Inr (h, k, w)), s')"
    and "header = take (mdc_retained_header_bytes m) (concat written)" "n = length (concat written)" "n \<le> mdc_max_bytes m"
  shows "sv_log s' = sv_log s \<and> failure = None \<and> w = written @ chunks \<and> k = length (concat w) \<and> k \<le> mdc_max_bytes m
    \<and> h = take (mdc_retained_header_bytes m) (concat w)"
  using assms
proof (induction m E writer failure chunks header n written arbitrary: s rule: copy_minidump.induct)
  case (1 m E writer failure header n written)
  then show ?case by (auto simp: step_Inr_iff split: option.splits)
next
  case (2 m E writer failure chunk rest header n written)
  let ?R = "mdc_retained_header_bytes m"
  let ?header = "header @ take (min (?R - length header) (length chunk)) chunk"
  have fits: "\<not> n + length chunk > u64_max" "\<not> n + length chunk > mdc_max_bytes m"
    using 2(2) by (auto simp: step_Inr_iff sbind_Inr_iff split: if_splits)
  then obtain u1 s1 where s1: "sbind (scall (en_blob_write E writer chunk)) (\<lambda>r. slift (map_err map_blob_error r)) s = (Some (Inr u1), s1)"
    "copy_minidump m E writer failure rest ?header (n + length chunk) (written @ [chunk]) s1 = (Some (Inr (h, k, w)), s')"
    using 2(2) by (auto elim: sbind_InrE)
  have log: "sv_log s1 = sv_log s" using s1(1) by (auto simp: sbind_Inr_iff step_Inr_iff dest: scall_log)
  have head: "?header = take ?R (concat (written @ [chunk]))"
    using 2(3) by (auto simp: min_def)
  have total: "n + length chunk = length (concat (written @ [chunk]))" "n + length chunk \<le> mdc_max_bytes m"
    using 2(4) fits(2) by simp_all
  show ?case
    using 2(1)[OF fits s1(2) head total] unfolding log append_assoc append.simps .
qed

lemma durable_call_Inr:
  assumes "durable_call E racing a f err reason s = (Some (Inr d), s')"
  shows "\<exists>w w'. f w = (Inr d, w') \<and> sv_log s' = sv_log s @ [a (Some (Inr d)), A_Outcome (durable_kind d) reason 1]"
proof -
  have call: "\<exists>w w'. f w = (r, w') \<and> sv_log s' = sv_log s" if "scall f s = (Some (Inr r), s')" for r s s'
    using that by (auto simp: scall_def split: prod.splits)
  have poll: "sv_log s' = sv_log s" if "signalled E racing s = (Some (Inr b), s')" for b s s'
    using that by (auto simp: signalled_def step_Inr_iff dest: scall_log split: if_splits)
  from assms show ?thesis
    unfolding durable_call_def
    by (auto simp: sbind_Inr_iff step_Inr_iff map_err_eq dest!: call poll scall_log[of "en_permit E"] split: if_split_asm)
qed

lemma commit_blob_Inr:
  "commit_blob E writer key cs s = (Some (Inr blob), s') \<Longrightarrow> sv_log s' = sv_log s @ [A_Commit key cs (Inr blob)]"
  unfolding commit_blob_def sstore_def by (auto simp: sbind_Inr_iff step_Inr_iff map_err_eq dest!: scall_log)

text \<open>What an acknowledged minidump leaves in the log.\<close>

definition minidump_stored ::
  "service_config \<Rightarrow> ('u, 'w) ingest_env \<Rightarrow> minidump_request \<Rightarrow> bytes list \<Rightarrow> project_snapshot \<Rightarrow> ingest_result
    \<Rightarrow> ingest_action list \<Rightarrow> bool" where
  "minidump_stored c E rq chunks snapshot x l = (\<exists>blob t d.
     let dump = concat chunks; blake3 = io_blake3 (en_ops E); p = ps_project_id snapshot; m = sc_minidumps c;
         i = unwrap_or (mq_supplied_event_id rq) (minidump_event_id blake3 p (blake3 dump));
         object_id = minidump_object_id blake3 p i (blake3 dump);
         ev = \<lparr>ae_project_id = p, ae_event_id = i, ae_received_at = t, ae_policy_revision = sp_revision (ps_scrub_policy snapshot),
           ae_payload = jo_to_vec (io_json (en_ops E)) (minidump_payload E i t object_id blob)\<rparr> in
     length dump \<le> mdc_max_bytes m
     \<and> validate_minidump_header (take (mdc_retained_header_bytes m) dump) (length dump) = Inr ()
     \<and> bo_checksum blob = blake3 dump
     \<and> x = \<lparr>ir_event_id = Some i, ir_durable = Some d, ir_disabled_categories = []\<rparr>
     \<and> l = [A_Commit (BlobKey_event_owned (en_codecs E) p i object_id) chunks (Inr blob),
            A_Event ev (Some (Inr d)), A_Outcome (durable_kind d) ''minidump'' 1])"

lemma persisted_minidump:
  assumes "persist_minidump c E rq source snapshot s = (Some (Inr x), s')"
  shows "snd source = None \<and> (\<exists>l. sv_log s' = sv_log s @ l \<and> minidump_stored c E rq (fst source) snapshot x l)"
proof -
  let ?m = "sc_minidumps c" and ?b = "io_blake3 (en_ops E)" and ?p = "ps_project_id snapshot"
  let ?C = "\<lambda>w. ?b (concat w)"
  let ?i = "\<lambda>w. unwrap_or (mq_supplied_event_id rq) (minidump_event_id ?b ?p (?C w))"
  let ?o = "\<lambda>w. minidump_object_id ?b ?p (?i w) (?C w)"
  let ?ev = "\<lambda>t w blob. \<lparr>ae_project_id = ?p, ae_event_id = ?i w, ae_received_at = t,
    ae_policy_revision = sp_revision (ps_scrub_policy snapshot),
    ae_payload = jo_to_vec (io_json (en_ops E)) (minidump_payload E (?i w) t (?o w) blob)\<rparr>"
  obtain t s1 writer s2 h n w s3 blob s4 d where run:
    "scall (en_now E) s = (Some (Inr t), s1)"
    "sbind (scall (en_blob_begin E BK_Minidump t)) (\<lambda>r. slift (map_err map_blob_error r)) s1 = (Some (Inr writer), s2)"
    "copy_minidump ?m E writer (snd source) (fst source) [] 0 [] s2 = (Some (Inr (h, n, w)), s3)"
    "validate_minidump_header h n = Inr ()"
    "commit_blob E writer (BlobKey_event_owned (en_codecs E) ?p (?i w) (?o w)) w s3 = (Some (Inr blob), s4)"
    "bo_checksum blob = ?C w"
    "durable_call E False (A_Event (?ev t w blob)) (en_persist E (?ev t w blob)) map_sink_error ''minidump'' s4 = (Some (Inr d), s')"
    "x = \<lparr>ir_event_id = Some (?i w), ir_durable = Some d, ir_disabled_categories = []\<rparr>"
    using assms unfolding persist_minidump_def Let_def
    by (auto simp: sbind_Inr_iff step_Inr_iff split: if_split_asm prod.splits)
  have "sv_log s3 = sv_log s2 \<and> snd source = None \<and> w = [] @ fst source \<and> n = length (concat w) \<and> n \<le> mdc_max_bytes ?m
    \<and> h = take (mdc_retained_header_bytes ?m) (concat w)"
    by (rule copied_minidump[OF run(3)]) simp_all
  then have copied: "sv_log s3 = sv_log s2" "snd source = None" "w = fst source" "n = length (concat w)" "n \<le> mdc_max_bytes ?m"
    "h = take (mdc_retained_header_bytes ?m) (concat w)"
    unfolding append_Nil by blast+
  have "sv_log s2 = sv_log s"
    using run(1,2) by (auto simp: sbind_Inr_iff step_Inr_iff dest!: scall_log)
  with copied(1) commit_blob_Inr[OF run(5)] durable_call_Inr[OF run(7)]
  have log: "sv_log s' = sv_log s @ [A_Commit (BlobKey_event_owned (en_codecs E) ?p (?i w) (?o w)) w (Inr blob),
      A_Event (?ev t w blob) (Some (Inr d)), A_Outcome (durable_kind d) ''minidump'' 1]" by auto
  show ?thesis
    using copied(2) log run(4,6,8) copied(3-6) unfolding minidump_stored_def Let_def by blast
qed

section \<open>Properties\<close>

text \<open>
  C1. A request only touches its own project. A run of \<^verbatim>\<open>ingest\<close> appends to the log of what was handed to the
  collaborators; if it appends anything, then all keys of the request agree, the key resolves to a project that is active and
  agrees with the path and the DSN, and every record, update, batch, replay, feedback and event in the log carries that
  project and is valid, and every blob is committed under a key of that project.
\<close>
theorem ingest_isolates_project:
  assumes "ingest c E rq s = (r, s')"
  shows "\<exists>l. sv_log s' = sv_log s @ l \<and> (l \<noteq> [] \<longrightarrow> (\<exists>snapshot key w wire w'.
      one_auth_key (rq_auth_keys rq) = Inr key \<and> en_resolve E key w = (Inr (snapshot, wire), w')
      \<and> validate_project_consistency (rq_path_project_id rq) (rq_dsn_project_id rq) snapshot wire = Inr ()
      \<and> list_all (action_for E snapshot) l))"
  using ingest_answered[OF assms] unfolding answered_for_def authorised_def by blast

text \<open>
  C2. The durable answer is the acknowledgement of the sink. Whichever entry point runs and however it ends, the event and
  feedback sinks acknowledged in it exactly what the result reports: one acknowledgement with the reported outcome, or none
  when the result reports no durable outcome, the request is refused, or the process panics. A call that the shutdown
  interrupted has no answer and is no acknowledgement.
\<close>
theorem ingest_reports_acknowledgement:
  assumes "ingest c E rq s = (r, s') \<or> ingest_minidump c E mq source s = (r, s')"
  shows "\<exists>l. sv_log s' = sv_log s @ l \<and> concat (map acks_of l)
    = (case r of Some (Inr x) \<Rightarrow> (case ir_durable x of None \<Rightarrow> [] | Some d \<Rightarrow> [d]) | _ \<Rightarrow> [])"
  using assms ingest_answered minidump_answered unfolding answered_for_def by blast

text \<open>
  C20. An acknowledged minidump is stored whole. When \<^verbatim>\<open>ingest_minidump\<close> reports a durable outcome, the source ended without
  error, its chunks are together within the configured size and start with a valid header, they were committed unchanged
  under the key derived from the project and their hash, the blob store confirmed that hash, and the event that refers
  to the blob was acknowledged with the reported outcome. Nothing else was stored.
\<close>
theorem acknowledged_minidump_is_stored:
  assumes "ingest_minidump c E rq (chunks, failure) s = (Some (Inr x), s')" "ir_durable x \<noteq> None"
  shows "failure = None \<and> (\<exists>snapshot l. sv_log s' = sv_log s @ l \<and> minidump_stored c E rq chunks snapshot x l
    \<and> authorised E (mq_auth_keys rq) (mq_path_project_id rq) (mq_dsn_project_id rq) snapshot)"
proof -
  obtain snapshot s1 where auth:
    "authenticate E False (mq_auth_keys rq) (mq_path_project_id rq) (mq_dsn_project_id rq) s = (Some (Inr snapshot), s1)"
    and stored: "persist_minidump c E rq (chunks, failure) snapshot s1 = (Some (Inr x), s')"
    using assms unfolding ingest_minidump_def Let_def
    by (auto simp: sbind_Inr_iff step_Inr_iff unsupported_def split: if_split_asm)
  from persisted_minidump[OF stored] authenticate_log[OF auth] show ?thesis
    unfolding fst_conv snd_conv by auto
qed

section \<open>A concrete run\<close>

definition sample_replay_ops :: "string replay_ops" where
  "sample_replay_ops = signal_ops.extend (sample_signal_ops\<lparr>io_json := io_json sample_ingest_ops\<rparr>)
     \<lparr>rp_clear_query = id, rp_clear_fragment = id, rp_inflate = (\<lambda>n bs. Some bs), rp_array_length = (\<lambda>_. Some 0),
      rp_millis = (\<lambda>_. None)\<rparr>"

definition sample_dump :: "bytes list" where
  "sample_dump = [as_bytes ''MDMP'' @ [0, 0, 0, 0, 1, 0, 0, 0], [32, 0, 0, 0] @ replicate 28 0]"

definition sample_object :: blob_object where
  "sample_object = \<lparr>bo_key = ''k'', bo_kind = BK_Minidump, bo_size = 44, bo_checksum = take 32 (concat sample_dump),
     bo_created_at = 5\<rparr>"

definition sample_env :: "(string, unit) ingest_env" where
  "sample_env = \<lparr>en_ops = sample_replay_ops,
     en_floats = \<lparr>fl_add = (+), fl_min = min, fl_max = max, fl_is_zero = (\<lambda>v. v = 0), fl_log2_floor = (\<lambda>_. 0), fl_millis = (\<lambda>_. None)\<rparr>,
     en_entries = (\<lambda>_. None), en_shutdown = Pair False, en_now = Pair 5, en_permit = Pair True,
     en_resolve = (\<lambda>key. Pair (Inr (sample_snapshot, 42))), en_persist = (\<lambda>_. Pair (Inr Durable_Accepted)),
     en_persist_logs = (\<lambda>rs. Pair (Inr (map (\<lambda>_. Durable_Accepted) rs))), en_persist_spans = (\<lambda>rs. Pair (Inr (map (\<lambda>_. Durable_Accepted) rs))),
     en_persist_sessions = (\<lambda>rs. Pair (Inr (map (\<lambda>_. Durable_Accepted) rs))),
     en_persist_monitors = (\<lambda>rs. Pair (Inr (map (\<lambda>_. Durable_Accepted) rs))),
     en_persist_metrics = (\<lambda>_. Pair (Inr Durable_Accepted)), en_persist_replay = (\<lambda>_. Pair (Inr Durable_Accepted)),
     en_persist_feedback = (\<lambda>_. Pair (Inr Durable_Accepted)), en_blob_begin = (\<lambda>kind t. Pair (Inr 0)),
     en_blob_write = (\<lambda>n bs. Pair (Inr ())), en_blob_commit = (\<lambda>n key. Pair (Inr sample_object)), en_blob_abort = (\<lambda>n. Pair (Inr ())),
     en_timestamp_number = (\<lambda>t. JN_PosInt 0), en_codecs = sample_codecs\<rparr>"

definition sample_config :: service_config where
  "sample_config = \<lparr>sc_attachments = AttachmentIngestConfig_default,
     sc_minidumps = MinidumpIngestConfig_default\<lparr>mdc_enabled := True\<rparr>, sc_feedback = FeedbackIngestConfig_default,
     sc_monitors = MonitorIngestConfig_default, sc_metrics = MetricIngestConfig_default, sc_replays = ReplayIngestConfig_default,
     sc_has_blob_store = True, sc_has_log_sink = True, sc_has_span_sink = True, sc_has_session_sink = True,
     sc_has_feedback_sink = True, sc_has_monitor_sink = True, sc_has_metric_sink = True, sc_has_replay_sink = True\<rparr>"

definition sample_state :: "unit service_state" where
  "sample_state = \<lparr>sv_world = (), sv_log = [], sv_feedback_rate = [], sv_monitor_rate = []\<rparr>"

definition sample_request :: ingest_request where
  "sample_request = \<lparr>rq_path_project_id = 42, rq_auth_keys = [[1]], rq_dsn_project_id = Some 42, rq_envelope_event_id = None,
     rq_primary = Some sample_primary, rq_signals = [], rq_metrics = [], rq_replays = [], rq_check_ins = [], rq_attachments = [],
     rq_discarded = [\<lparr>ig_category = Some IC_Profile, ig_reason = ''profile''\<rparr>], rq_client_report_quantity = 0\<rparr>"

definition sample_minidump_request :: minidump_request where
  "sample_minidump_request = \<lparr>mq_path_project_id = 42, mq_auth_keys = [[1]], mq_dsn_project_id = None,
     mq_supplied_event_id = Some (replicate 16 7)\<rparr>"

lemmas sample_steps = sbind_def sret_def sfail_def slift_def slift_opt_def sact_def scall_def sstore_def signalled_def

lemma sample_env_simps:
  "en_shutdown sample_env = Pair False" "en_now sample_env = Pair 5" "en_permit sample_env = Pair True"
  "en_resolve sample_env = (\<lambda>key. Pair (Inr (sample_snapshot, 42)))" "en_persist sample_env = (\<lambda>_. Pair (Inr Durable_Accepted))"
  "en_blob_begin sample_env = (\<lambda>kind t. Pair (Inr 0))" "en_blob_write sample_env = (\<lambda>n bs. Pair (Inr ()))"
  "en_blob_commit sample_env = (\<lambda>n key. Pair (Inr sample_object))" "en_ops sample_env = sample_replay_ops"
  by (simp_all add: sample_env_def)

lemma sample_authenticate:
  assumes "dsn = None \<or> dsn = Some 42"
  shows "authenticate sample_env racing [k] 42 dsn s = (Some (Inr sample_snapshot), s)"
  using assms
  by (auto simp: authenticate_def sresolve_def sample_steps sample_env_simps one_auth_key_def MAX_AUTH_SOURCES_def
      validate_project_consistency_def sample_snapshot_def is_some_and_def)

lemma sample_ops: "ops_of (signals_of sample_replay_ops) = sample_ingest_ops"
  by (simp add: sample_replay_ops_def signal_ops.defs ingest_ops.defs sample_signal_ops_def sample_ingest_ops_def replay_ops.defs)

lemma sample_run:
  "\<exists>s'. ingest sample_config sample_env sample_request sample_state
    = (Some (Inr \<lparr>ir_event_id = Some (replicate 16 7), ir_durable = Some Durable_Accepted, ir_disabled_categories = [''profile'']\<rparr>), s')
    \<and> length (sv_log s') = 3"
proof -
  have feedback: "primary_is_feedback sample_ingest_ops sample_primary = Inr False"
    by (simp add: primary_is_feedback_def sample_ingest_ops_def sample_primary_def sample_document_def get_str_def json_get_def is_some_and_def)
  have limit: "length (pr_raw_json sample_primary) \<le> pl_max_event_bytes (ps_limits sample_snapshot)" "cap_error (ps_items sample_snapshot)"
    by (simp_all add: sample_primary_def sample_snapshot_def ProjectIngestLimits_default_def)
  have auth: "authenticate sample_env True (rq_auth_keys sample_request) (rq_path_project_id sample_request)
      (rq_dsn_project_id sample_request) s = (Some (Inr sample_snapshot), s)" for s
    by (simp add: sample_request_def sample_authenticate)
  have side: "ingest_side_items sample_config sample_env sample_request sample_snapshot s
    = (Some (Inr [''profile'']), s\<lparr>sv_log := sv_log s @ [A_Outcome IO_Unsupported ''profile'' 1]\<rparr>)" for s
    by (simp add: ingest_side_items_def sample_request_def unsupported_def sample_steps service_persist_signals_def
        service_persist_metrics_def persist_replays_def persist_check_ins_def sort_dedup_def List.map_filter_def)
  have primary: "ingest_primary sample_config sample_env sample_request sample_snapshot cs
      = ingest_event sample_config sample_env sample_snapshot sample_primary None [] cs" for cs
    using limit(1) by (simp add: ingest_primary_def sample_request_def sample_ops sample_env_simps feedback sample_steps fun_eq_iff)
  show ?thesis
    by (simp add: ingest_def sbind_def auth side primary)
      (simp add: ingest_event_def limit(2) sample_ops sample_env_simps sample_event_accepted persist_event_def persist_attachments_def
        drop_attachments_def durable_call_def sample_steps sample_state_def Let_def)
qed

theorem ingest_isolates_project_witness:
  "\<exists>r s'. ingest sample_config sample_env sample_request sample_state = (r, s') \<and> length (sv_log s') = 3
     \<and> (\<exists>snapshot wire. validate_project_consistency 42 (Some 42) snapshot wire = Inr ()
        \<and> list_all (action_for sample_env snapshot) (sv_log s'))"
proof -
  obtain r s' where run: "ingest sample_config sample_env sample_request sample_state = (r, s')" "length (sv_log s') = 3"
    using sample_run by blast
  then have "sv_log s' \<noteq> []" "sv_log sample_state = []" by (auto simp: sample_state_def)
  moreover have "rq_path_project_id sample_request = 42" "rq_dsn_project_id sample_request = Some 42"
    by (simp_all add: sample_request_def)
  ultimately show ?thesis
    using ingest_isolates_project[OF run(1)] run by auto
qed

theorem ingest_reports_acknowledgement_witness:
  "\<exists>r s'. ingest sample_config sample_env sample_request sample_state = (r, s')
     \<and> concat (map acks_of (sv_log s')) = [Durable_Accepted]"
proof -
  obtain s' where run: "ingest sample_config sample_env sample_request sample_state
    = (Some (Inr \<lparr>ir_event_id = Some (replicate 16 7), ir_durable = Some Durable_Accepted, ir_disabled_categories = [''profile'']\<rparr>), s')"
    using sample_run by blast
  have "sv_log sample_state = []" by (simp add: sample_state_def)
  then show ?thesis using ingest_reports_acknowledgement[OF disjI1[OF run]] run by auto
qed

lemma sample_minidump_run:
  "\<exists>x s'. ingest_minidump sample_config sample_env sample_minidump_request (sample_dump, None) sample_state = (Some (Inr x), s')
     \<and> ir_durable x = Some Durable_Accepted"
proof -
  have auth: "authenticate sample_env False (mq_auth_keys sample_minidump_request) (mq_path_project_id sample_minidump_request)
      (mq_dsn_project_id sample_minidump_request) s = (Some (Inr sample_snapshot), s)" for s
    by (simp add: sample_minidump_request_def sample_authenticate)
  have config: "mdc_enabled (sc_minidumps sample_config)" "cap_error (ps_items sample_snapshot)" "sc_has_blob_store sample_config"
    "mdc_max_bytes (sc_minidumps sample_config) = 104857600" "mdc_retained_header_bytes (sc_minidumps sample_config) = 65536"
    by (simp_all add: sample_config_def MinidumpIngestConfig_default_def sample_snapshot_def)
  have chunks: "copy_minidump (sc_minidumps sample_config) sample_env 0 None sample_dump [] 0 [] s
      = (Some (Inr (concat sample_dump, 44, sample_dump)), s)" for s
    by (simp add: sample_dump_def as_bytes_def sample_steps sample_env_simps config)
  have header: "validate_minidump_header (concat sample_dump) 44 = Inr ()"
  proof -
    have "from_le [1, 0, 0, 0] = 1" "from_le [32, 0, 0, 0] = 32" by code_simp+
    then show ?thesis by (simp add: validate_minidump_header_def sample_dump_def as_bytes_def Let_def)
  qed
  have "io_blake3 sample_replay_ops (concat sample_dump) = bo_checksum sample_object"
    by (simp add: sample_replay_ops_def signal_ops.defs sample_signal_ops_def sample_object_def sample_dump_def as_bytes_def)
  then show ?thesis
    by (simp add: ingest_minidump_def sbind_def auth config persist_minidump_def Let_def)
      (simp add: sample_steps sample_env_simps chunks header commit_blob_def durable_call_def Let_def)
qed

theorem acknowledged_minidump_is_stored_witness:
  "\<exists>x (s' :: unit service_state) snapshot. minidump_stored sample_config sample_env sample_minidump_request sample_dump snapshot x (sv_log s')"
proof -
  obtain x s' where run: "ingest_minidump sample_config sample_env sample_minidump_request (sample_dump, None) sample_state
      = (Some (Inr x), s')" "ir_durable x = Some Durable_Accepted"
    using sample_minidump_run by blast
  have "sv_log sample_state = []" by (simp add: sample_state_def)
  then show ?thesis using acknowledged_minidump_is_stored[OF run(1)] run(2) by auto
qed

end
