(* ===== verification/Spec2Isabelle.thy ===== *)
theory Spec2Isabelle
  imports Inbound_Filter Sessions Auth_Values Monitors Envelope Dispatcher Writers Finalization_Accounting Ingest_Answers
begin

text \<open>
  Verification development for \<^verbatim>\<open>metric\<close>, a Sentry-compatible observability server written in Rust.

  \<^bold>\<open>The program.\<close> An SDK posts an envelope. The protocol crate splits it into items; the ingest service
  authenticates the project, scrubs and converts the items and hands them to sinks. Each sink is an actor that gathers
  commands into batches, writes them to a store and only then acknowledges them. Accepted error events go from the event
  writer to the dispatcher, which schedules each event key once in the process, and from there to the processor, which runs
  project check, normalization, symbolication, grouping and finalization with retries. The finalization store applies a
  batch in one database transaction: issues, hourly counters, catalogs, rows.

  \<^bold>\<open>Theories and sources\<close> (paths under \<^verbatim>\<open>src/crates\<close>), in the order of the data flow.

  \<^item> \<open>Metric_Prelude\<close>, \<open>Metric_Text\<close>, \<open>Json_Values\<close>: shared vocabulary. \<^verbatim>\<open>Result\<close> is a sum with \<open>and_then\<close> as the
    question-mark operator, strings are UTF-8 byte lists, \<^verbatim>\<open>BTreeMap\<close> is a sorted association list, JSON values are a
    datatype. The locales \<open>wire_codec\<close>, \<open>strict_wire_codec\<close>, \<open>smart_constructor\<close> and \<open>ordered_map\<close> state what
    the sources rely on for enumerations with a wire form, validated values and ordered maps.
  \<^item> \<open>Primitives\<close> (\<^verbatim>\<open>domain/src/lib.rs\<close>), \<open>Identities\<close> (\<^verbatim>\<open>finalization.rs\<close>), \<open>Auth_Values\<close> (\<^verbatim>\<open>auth.rs\<close>),
    \<open>Signals\<close> (\<^verbatim>\<open>signals.rs\<close>), \<open>Events\<close> (\<^verbatim>\<open>event.rs\<close>, \<^verbatim>\<open>symbolication.rs\<close>), \<open>Blob_Values\<close> (\<^verbatim>\<open>blob.rs\<close>,
    \<^verbatim>\<open>archive.rs\<close>): value types, their constructors and parsers. Identities that are hashes are shown to hash
    unambiguous bytes, through the locale \<open>identity_scheme\<close>; blob keys are shown to be readable back.
  \<^item> \<open>Inbound_Matchers\<close>, \<open>Inbound_Filter\<close> (\<^verbatim>\<open>domain/src/inbound_filter.rs\<close>): the search loops are related to
    substring containment and to the reference matcher of the unit tests, the compiled policy to its list of rules.
  \<^item> \<open>Sessions\<close> (\<^verbatim>\<open>sessions.rs\<close>), \<open>Crontab\<close> and \<open>Monitors\<close> (\<^verbatim>\<open>monitors.rs\<close>): merging of session
    updates as a join (locale \<open>converging_record\<close>), the user sketch as a set of slots, the crontab search as the least
    matching minute.
  \<^item> \<open>Envelope\<close> (\<^verbatim>\<open>sentry-protocol/src/lib.rs\<close>): the parser with its limits; a written envelope is read back.
  \<^item> \<open>Ip_Address\<close>, \<open>Ingest_Scrub\<close>, \<open>Ingest_Admission\<close>, \<open>Ingest_Signals\<close>, \<open>Ingest_Records\<close>, \<open>Ingest_Service\<close>,
    \<open>Ingest_Answers\<close> (\<^verbatim>\<open>application/src/ingest.rs\<close>, \<^verbatim>\<open>domain/src/feedback.rs\<close>, \<^verbatim>\<open>replays.rs\<close>): scrubbing, rate
    windows (locale \<open>window_limiter\<close>), conversion of logs, spans, transactions, sessions, check-ins, feedback and
    replays, and the two entry points with their effects in order. The state of the service is \<open>service_state\<close>: the world
    of the collaborators, the log of what was handed to them with their answers, and the rate windows. The lemmas show that
    stored values are scrubbed, bounded and of the authenticated project and that the answer is the acknowledgement.
  \<^item> \<open>Metric_Deltas\<close> (\<^verbatim>\<open>domain/src/metrics.rs\<close>, metric part of \<^verbatim>\<open>ingest.rs\<close>), \<open>Metric_Writer\<close>
    (\<^verbatim>\<open>metric_writer.rs\<close>, locale \<open>mergeable_batches\<close>), \<open>Writers\<close> (\<^verbatim>\<open>writer.rs\<close>, \<^verbatim>\<open>log_writer.rs\<close>,
    \<^verbatim>\<open>span_writer.rs\<close>, \<^verbatim>\<open>session_writer.rs\<close>, locale \<open>batch_writer\<close>): the actors. Every command is answered once and in
    order, no batch exceeds its limits, and an acknowledgement follows the store's.
  \<^item> \<open>Dispatcher\<close> (\<^verbatim>\<open>dispatcher.rs\<close>): the task as a step relation; invariants over all interleavings, and the
    shutdown drain.
  \<^item> \<open>Processor\<close> (\<^verbatim>\<open>processor.rs\<close> and \<^verbatim>\<open>record_processing_failure\<close> of both event stores, locale
    \<open>attempt_store\<close>): one run with deadlines, the gates before finalization, and termination of failing events.
  \<^item> \<open>Normalizer\<close> (\<^verbatim>\<open>normalizer.rs\<close>), \<open>Grouping\<close> (\<^verbatim>\<open>domain/src/grouping.rs\<close>), \<open>Finalizer\<close> (\<^verbatim>\<open>finalizer.rs\<close>): the
    stages; results within the validated limits, keys unambiguous, canonical payloads.
  \<^item> \<open>Row_Codec\<close>, \<open>Issues\<close>, \<open>Issue_Store\<close>, \<open>Finalization\<close>, \<open>Finalization_Accounting\<close>
    (\<^verbatim>\<open>postgres/src/codec.rs\<close>, \<^verbatim>\<open>issues.rs\<close>, \<^verbatim>\<open>finalization.rs\<close>, \<^verbatim>\<open>domain/src/issue.rs\<close>, \<^verbatim>\<open>application/src/issues.rs\<close>): tables
    as maps, statements as functions on them, transactions with the ways a commit can end. The tables are related to the
    list of finalized events: each is accounted for exactly once, repetition changes nothing, quotas are kept.

  \<^bold>\<open>Conventions.\<close> A struct is a record whose fields carry a short prefix, an enum a datatype; names of functions follow
  the source, with the type first (\<open>ProjectId_new\<close>). Errors are sums. Panics (indexing, \<^verbatim>\<open>expect\<close>) and loops that
  might not end are \<open>None\<close>. Machine integers are words, or naturals and integers with the bound or the wrap-around written
  out. Asynchronous code is modelled by its observable order: a call is a function on the world of the callee, a
  \<^verbatim>\<open>select!\<close> is the observation which branch won, an actor consumes a list of what it receives.

  \<^bold>\<open>Parameters.\<close> Third-party code is an argument: JSON text, URL, HMAC, hexadecimal, base64, uuid, blake3, zlib, zstd,
  calendar and float operations are fields of records such as \<open>json_ops\<close>, \<open>ingest_ops\<close>, \<open>wire_ops\<close>, \<open>blob_codecs\<close> and
  \<open>float_ops\<close>; stores, clocks and permits are functions on a world. Where a property needs a law of such code (hexadecimal
  and base64 decode what they encode, the JSON parser reads what the printer wrote), the law is a named
  hypothesis and its witness instantiates it with a concrete function. No property assumes that a hash is injective: they speak about
  the hashed bytes.

  \<^bold>\<open>Bounds and fuel.\<close> The search loops of the filter terminate by their own measures, shown with the reference matcher.
  The crontab search runs over the two-year horizon of the source. The envelope loop terminates because each round moves the cursor.
  The drain of the dispatcher has fuel; one round per queued or running event is shown to suffice. The actors recurse on
  the list of what is left to receive. A minidump source is a finite list of chunks with an optional error at its end. The recursion of the
  scrubber is structural, with the depth limit of 64 as in the source.

  \<^bold>\<open>Not modelled.\<close> HTTP routing, configuration files and process wiring (\<^verbatim>\<open>server\<close>); file-system and S3 blob stores;
  the MongoDB adapter and the PostgreSQL statements whose meaning lies in the database; account workflows over password hashing and
  token generation; native API, queries, dashboards and notifications, which check permissions and forward to a store; symbolication
  and artifact processing over third-party formats; the monitor and replay writers, actors of the same shape as
  those modelled; the archive services, timers and process metrics. Lock waits inside the database, semaphores
  and the release of permits are outside the models of the services that use them.
\<close>

end
